(* ===== verification/Py_Base.thy ===== *)
theory Py_Base
  imports Main "HOL-Library.Multiset" "HOL-Library.Sublist"
begin

text \<open>
  Prelude of the development: what the modelled scripts use of Python 2 itself.

  Exceptions are values of \<open>py_exn\<close> on the left of a sum type, sequenced with
  \<open>py_bind\<close>. A \<open>dict\<close> is an association list with distinct keys in order of
  insertion; where a script iterates over a dict, CPython's hash order is a parameter
  \<open>ho\<close> (a permutation of the keys, see \<open>hash_order\<close>), so that nothing proved depends on
  it. The rest are the slice, index and string operations the scripts call.
\<close>

section \<open>Exceptions\<close>

datatype py_exn =
    AssertionError
  | AttributeError
  | IndexError
  | KeyError
  | NameError
  | TypeError
  | ValueError
  | ZeroDivisionError
  | Exception string
  | SystemExit int

definition py_bind :: "'e + 'r \<Rightarrow> ('r \<Rightarrow> 'e + 's) \<Rightarrow> 'e + 's" where
  "py_bind step next_step = (case step of Inr r \<Rightarrow> next_step r | Inl exn \<Rightarrow> Inl exn)"

lemma py_bind_simps [simp]:
  "py_bind (Inr r) k = k r"
  "py_bind (Inl exn) k = Inl exn"
  by (simp_all add: py_bind_def)

lemma py_bind_eq_Inr [simp]: "py_bind step k = Inr s \<longleftrightarrow> (\<exists>r. step = Inr r \<and> k r = Inr s)"
  by (cases step) simp_all

lemma py_bind_cong [fundef_cong]:
  "m = m' \<Longrightarrow> (\<And>x. m' = Inr x \<Longrightarrow> f x = f' x) \<Longrightarrow> py_bind m f = py_bind m' f'"
  by (cases m') simp_all

text \<open>A loop whose body may raise, threading a state.\<close>

fun py_fold :: "('x \<Rightarrow> 's \<Rightarrow> 'e + 's) \<Rightarrow> 'x list \<Rightarrow> 's \<Rightarrow> 'e + 's" where
  "py_fold f [] s = Inr s"
| "py_fold f (x # xs) s = py_bind (f x s) (py_fold f xs)"

lemma py_fold_append: "py_fold f (xs @ ys) s = py_bind (py_fold f xs s) (py_fold f ys)"
proof (induction xs arbitrary: s)
  case (Cons x xs)
  then show ?case by (cases "f x s") simp_all
qed simp

lemma py_fold_cong [fundef_cong]:
  "xs = ys \<Longrightarrow> s = t \<Longrightarrow> (\<And>x u. x \<in> set ys \<Longrightarrow> f x u = g x u) \<Longrightarrow> py_fold f xs s = py_fold g ys t"
proof (induction ys arbitrary: xs s t)
  case (Cons y ys)
  then show ?case by (cases "g y t") simp_all
qed simp

lemma py_fold_invariant:
  "py_fold f xs s = Inr t \<Longrightarrow> I s \<Longrightarrow> (\<And>x s t. f x s = Inr t \<Longrightarrow> I s \<Longrightarrow> I t) \<Longrightarrow> I t"
  by (induction xs arbitrary: s) auto

section \<open>Sequences: indices and slices\<close>

text \<open>\<open>xs[i]\<close>: a negative index counts from the end, an index out of range raises.\<close>

definition py_index :: "'a list \<Rightarrow> int \<Rightarrow> py_exn + 'a" where
  "py_index items k =
     (if 0 \<le> k \<and> k < int (length items) then Inr (items ! nat k)
      else if k < 0 \<and> - int (length items) \<le> k then Inr (items ! nat (int (length items) + k))
      else Inl IndexError)"

text \<open>A slice bound is counted from the end when negative and clamped to the sequence.\<close>

definition slice_bound :: "nat \<Rightarrow> int \<Rightarrow> nat" where
  "slice_bound n i = (let j = (if i < 0 then int n + i else i) in min n (nat j))"

definition slice_upto :: "'a list \<Rightarrow> int \<Rightarrow> 'a list" where
  "slice_upto xs i = take (slice_bound (length xs) i) xs"

definition slice_from :: "'a list \<Rightarrow> int \<Rightarrow> 'a list" where
  "slice_from xs i = drop (slice_bound (length xs) i) xs"

definition py_slice :: "'a list \<Rightarrow> int \<Rightarrow> int \<Rightarrow> 'a list" where
  "py_slice xs i j = drop (slice_bound (length xs) i) (slice_upto xs j)"

lemma slice_bound_nonneg [simp]: "0 \<le> i \<Longrightarrow> slice_bound n i = min n (nat i)"
  by (simp add: slice_bound_def)

lemma slice_bound_neg: "i < 0 \<Longrightarrow> slice_bound n i = n - nat (- i)"
  by (auto simp: slice_bound_def Let_def nat_eq_iff min_def)

lemma slice_upto_from: "slice_upto xs i @ slice_from xs i = xs"
  by (simp add: slice_upto_def slice_from_def)

lemma py_index_nonneg [simp]:
  "i < length xs \<Longrightarrow> py_index xs (int i) = Inr (xs ! i)"
  by (simp add: py_index_def)

lemma py_index_last: "xs \<noteq> [] \<Longrightarrow> py_index xs (- 1) = Inr (last xs)"
  by (cases xs rule: rev_cases) (auto simp: py_index_def nth_append)

section \<open>Dictionaries\<close>

type_synonym ('k, 'v) dict = "('k \<times> 'v) list"

abbreviation dict_get :: "('k, 'v) dict \<Rightarrow> 'k \<Rightarrow> 'v option" where
  "dict_get \<equiv> map_of"

definition has_key :: "('k, 'v) dict \<Rightarrow> 'k \<Rightarrow> bool" where
  "has_key d k = (dict_get d k \<noteq> None)"

fun dict_set :: "('k, 'v) dict \<Rightarrow> 'k \<Rightarrow> 'v \<Rightarrow> ('k, 'v) dict" where
  "dict_set [] k v = [(k, v)]"
| "dict_set ((k', v') # d) k v = (if k' = k then (k, v) # d else (k', v') # dict_set d k v)"

definition dict_del :: "('k, 'v) dict \<Rightarrow> 'k \<Rightarrow> ('k, 'v) dict" where
  "dict_del d k = filter (\<lambda>(k', _). k' \<noteq> k) d"

definition dict_keys :: "('k, 'v) dict \<Rightarrow> 'k list" where
  "dict_keys d = map fst d"

definition dict_getdefault :: "('k, 'v) dict \<Rightarrow> 'k \<Rightarrow> 'v \<Rightarrow> 'v" where
  "dict_getdefault d k v = (case dict_get d k of None \<Rightarrow> v | Some w \<Rightarrow> w)"

definition dict_ok :: "('k, 'v) dict \<Rightarrow> bool" where
  "dict_ok d = distinct (dict_keys d)"

definition dict_lookup :: "('k, 'v) dict \<Rightarrow> 'k \<Rightarrow> py_exn + 'v" where
  "dict_lookup d k = (case dict_get d k of None \<Rightarrow> Inl KeyError | Some v \<Rightarrow> Inr v)"

definition dict_update :: "('k, 'v) dict \<Rightarrow> ('k, 'v) dict \<Rightarrow> ('k, 'v) dict" where
  "dict_update d e = foldl (\<lambda>a (k, v). dict_set a k v) d e"

text \<open>The iteration order of a dict: an arbitrary permutation of its keys.\<close>

definition hash_order :: "('k list \<Rightarrow> 'k list) \<Rightarrow> bool" where
  "hash_order ho \<longleftrightarrow> (\<forall>ks. mset (ho ks) = mset ks)"

lemma hash_order_set [simp]: "hash_order ho \<Longrightarrow> set (ho ks) = set ks"
  by (metis hash_order_def set_mset_mset)

lemma hash_order_distinct [simp]: "hash_order ho \<Longrightarrow> distinct (ho ks) = distinct ks"
  by (metis hash_order_def mset_eq_imp_distinct_iff)

lemma hash_order_length [simp]: "hash_order ho \<Longrightarrow> length (ho ks) = length ks"
  by (metis hash_order_def size_mset)

lemma hash_order_id [simp]: "hash_order id" "hash_order (\<lambda>ks. ks)"
  by (simp_all add: hash_order_def)

lemma hash_order_rev [simp]: "hash_order rev"
  by (simp add: hash_order_def)

lemma dict_get_set [simp]: "dict_get (dict_set d k v) = (dict_get d)(k \<mapsto> v)"
  by (induction d k v rule: dict_set.induct) auto

lemma dict_get_del [simp]: "dict_get (dict_del d k) = (dict_get d)(k := None)"
  by (induction d) (auto simp: dict_del_def)

lemma dict_keys_Nil [simp]: "dict_keys [] = []"
  by (simp add: dict_keys_def)

lemma set_dict_keys: "set (dict_keys d) = dom (dict_get d)"
  by (simp add: dict_keys_def dom_map_of_conv_image_fst)

lemma has_key_dom: "has_key d k \<longleftrightarrow> k \<in> dom (dict_get d)"
  by (auto simp: has_key_def)

lemma dict_keys_set:
  "dict_keys (dict_set d k v) = (if has_key d k then dict_keys d else dict_keys d @ [k])"
  by (induction d k v rule: dict_set.induct) (auto simp: dict_keys_def has_key_def)

lemma dict_keys_del: "dict_keys (dict_del d k) = filter (\<lambda>k'. k' \<noteq> k) (dict_keys d)"
  by (induction d) (auto simp: dict_keys_def dict_del_def)

lemma dict_ok_set [simp]: "dict_ok d \<Longrightarrow> dict_ok (dict_set d k v)"
  by (auto simp: dict_ok_def dict_keys_set has_key_dom set_dict_keys)

lemma dict_ok_del [simp]: "dict_ok d \<Longrightarrow> dict_ok (dict_del d k)"
  by (simp add: dict_ok_def dict_keys_del)

lemma dict_ok_Nil [simp]: "dict_ok []"
  by (simp add: dict_ok_def)

lemma length_dict_set_present: "has_key d k \<Longrightarrow> length (dict_set d k v) = length d"
  by (metis dict_keys_def dict_keys_set length_map)

lemma length_dict_del: "has_key d k \<Longrightarrow> length (dict_del d k) < length d"
  by (induction d) (auto simp: has_key_def dict_del_def less_Suc_eq_le split: if_splits)

lemma dict_set_new: "k \<notin> fst ` set d \<Longrightarrow> dict_set d k v = d @ [(k, v)]"
  by (induction d k v rule: dict_set.induct) auto

lemma fst_dict_set: "fst ` set (dict_set d k v) = insert k (fst ` set d)"
  by (induction d k v rule: dict_set.induct) auto

lemma dict_set_values: "p \<in> set (dict_set d k v) \<Longrightarrow> p \<in> set d \<or> p = (k, v)"
  by (induction d k v rule: dict_set.induct) (auto split: if_splits)

lemma distinct_dict_set: "distinct (map fst d) \<Longrightarrow> distinct (map fst (dict_set d k v))"
  using dict_ok_set [of d k v] by (simp add: dict_ok_def dict_keys_def)

lemma dict_set_not_Nil [simp]: "dict_set d k v \<noteq> []"
  by (induction d k v rule: dict_set.induct) auto

text \<open>
  The interface a script relies on when it uses a dict: what a lookup returns after a
  store or a deletion, and that keys stay distinct. Lemmas about sequences of stores are
  proved once from it.
\<close>

locale key_store =
  fixes get :: "'d \<Rightarrow> 'k \<Rightarrow> 'v option"
    and put :: "'d \<Rightarrow> 'k \<Rightarrow> 'v \<Rightarrow> 'd"
    and del :: "'d \<Rightarrow> 'k \<Rightarrow> 'd"
    and keys :: "'d \<Rightarrow> 'k list"
    and ok :: "'d \<Rightarrow> bool"
  assumes get_put: "get (put d k v) = (get d)(k \<mapsto> v)"
    and get_del: "get (del d k) = (get d)(k := None)"
    and keys_dom: "set (keys d) = dom (get d)"
    and ok_distinct: "ok d \<Longrightarrow> distinct (keys d)"
    and ok_put: "ok d \<Longrightarrow> ok (put d k v)"
    and ok_del: "ok d \<Longrightarrow> ok (del d k)"
begin

lemma get_puts: "get (foldl (\<lambda>a (k, v). put a k v) d kvs) = get d ++ map_of (rev kvs)"
proof (induction kvs arbitrary: d)
  case (Cons p kvs)
  obtain k v where p: "p = (k, v)" by (cases p)
  show ?case
    by (rule ext) (simp add: p Cons.IH get_put map_add_def split: option.splits)
qed simp

lemma ok_puts: "ok d \<Longrightarrow> ok (foldl (\<lambda>a (k, v). put a k v) d kvs)"
  by (induction kvs arbitrary: d) (auto simp: ok_put)

lemma keys_puts: "set (keys (foldl (\<lambda>a (k, v). put a k v) d kvs)) = set (keys d) \<union> fst ` set kvs"
  by (auto simp: keys_dom get_puts dom_map_of_conv_image_fst)

lemma length_keys: "ok d \<Longrightarrow> length (keys d) = card (dom (get d))"
  by (metis distinct_card keys_dom ok_distinct)

lemma get_dels: "get (foldl del d ks) = (get d) |` (- set ks)"
  by (induction ks arbitrary: d) (auto simp: get_del restrict_map_def fun_eq_iff)

end

interpretation pd: key_store dict_get dict_set dict_del dict_keys dict_ok
  by unfold_locales (auto simp: set_dict_keys dict_ok_def dict_keys_set dict_keys_del has_key_dom)

text \<open>
  The contract of a program that reacts to events: each handler keeps an invariant when the event is one that
  can occur, and does not make other events impossible. Then every sequence of possible events keeps it.
\<close>

locale event_handler =
  fixes handle :: "'e \<Rightarrow> 's \<Rightarrow> 's"
    and inv :: "'s \<Rightarrow> bool"
    and possible :: "'s \<Rightarrow> 'e \<Rightarrow> bool"
  assumes keeps: "inv s \<Longrightarrow> possible s e \<Longrightarrow> inv (handle e s)"
    and still_possible: "inv s \<Longrightarrow> possible s e \<Longrightarrow> possible s e' \<Longrightarrow> possible (handle e s) e'"
begin

lemma run_keeps: "inv s \<Longrightarrow> \<forall>e\<in>set es. possible s e \<Longrightarrow> inv (fold handle es s)"
  by (induction es arbitrary: s) (simp_all add: keeps still_possible)

lemma run_possible: "inv s \<Longrightarrow> \<forall>e\<in>set es. possible s e \<Longrightarrow> possible s e' \<Longrightarrow> possible (fold handle es s) e'"
  by (induction es arbitrary: s) (simp_all add: keeps still_possible)

end

lemma dict_get_update: "dict_get (dict_update d e) = dict_get d ++ dict_get (rev e)"
  unfolding dict_update_def by (rule pd.get_puts)

section \<open>Comprehensions that may raise, strings\<close>

fun py_map :: "('a \<Rightarrow> 'e + 'b) \<Rightarrow> 'a list \<Rightarrow> 'e + 'b list" where
  "py_map f [] = Inr []"
| "py_map f (x # xs) = py_bind (f x) (\<lambda>y. py_bind (py_map f xs) (\<lambda>ys. Inr (y # ys)))"

lemma py_map_Inr: "(\<And>x. x \<in> set xs \<Longrightarrow> f x = Inr (g x)) \<Longrightarrow> py_map f xs = Inr (map g xs)"
  by (induction xs) auto

lemma py_map_cong [fundef_cong]:
  "xs = ys \<Longrightarrow> (\<And>x. x \<in> set ys \<Longrightarrow> f x = g x) \<Longrightarrow> py_map f xs = py_map g ys"
proof (induction ys arbitrary: xs)
  case (Cons y ys)
  then show ?case by (cases "g y") simp_all
qed simp

lemma py_map_append:
  "py_map f (xs @ ys) = py_bind (py_map f xs) (\<lambda>us. py_bind (py_map f ys) (\<lambda>vs. Inr (us @ vs)))"
proof (induction xs)
  case Nil
  show ?case by (cases "py_map f ys") simp_all
next
  case (Cons x xs)
  then show ?case by (cases "f x"; cases "py_map f xs"; cases "py_map f ys") simp_all
qed

definition char_lower :: "char \<Rightarrow> char" where
  "char_lower c = (let n = of_char c :: nat in if 65 \<le> n \<and> n \<le> 90 then char_of (n + 32) else c)"

definition char_upper :: "char \<Rightarrow> char" where
  "char_upper c = (let n = of_char c :: nat in if 97 \<le> n \<and> n \<le> 122 then char_of (n - 32) else c)"

definition is_space :: "char \<Rightarrow> bool" where
  "is_space c = (c \<in> set [CHR '' '', CHR 0x09, CHR 0x0A, CHR 0x0B, CHR 0x0C, CHR 0x0D])"

definition is_digit :: "char \<Rightarrow> bool" where
  "is_digit c = (c \<in> set ''0123456789'')"

text \<open>The characters of \<open>\w\<close>.\<close>

definition name_char :: "char \<Rightarrow> bool" where
  "name_char c = (c \<in> set ''abcdefghijklmnopqrstuvwxyzABCDEFGHIJKLMNOPQRSTUVWXYZ0123456789_'')"

definition py_strip :: "string \<Rightarrow> string" where
  "py_strip s = rev (dropWhile is_space (rev (dropWhile is_space s)))"

definition starts_with :: "'a list \<Rightarrow> 'a list \<Rightarrow> bool" where
  "starts_with s p = (take (length p) s = p)"

definition ends_with :: "'a list \<Rightarrow> 'a list \<Rightarrow> bool" where
  "ends_with s p = (length p \<le> length s \<and> drop (length s - length p) s = p)"

fun is_substring :: "'a list \<Rightarrow> 'a list \<Rightarrow> bool" where
  "is_substring p [] = (p = [])"
| "is_substring p (c # s) = (starts_with (c # s) p \<or> is_substring p s)"

text \<open>\<open>s.split(c)\<close> for a separator of one character, and \<open>c.join(parts)\<close>.\<close>

fun split_on :: "'a \<Rightarrow> 'a list \<Rightarrow> 'a list list" where
  "split_on c [] = [[]]"
| "split_on c (x # xs) =
     (if x = c then [] # split_on c xs
      else (case split_on c xs of [] \<Rightarrow> [[x]] | p # ps \<Rightarrow> (x # p) # ps))"

text \<open>\<open>s.split(c, 1)\<close>: at most one split, at the first separator.\<close>

definition split_once :: "'a \<Rightarrow> 'a list \<Rightarrow> 'a list list" where
  "split_once c s =
     (let p = takeWhile (\<lambda>x. x \<noteq> c) s
      in if length p < length s then [p, drop (Suc (length p)) s] else [s])"

fun join_with :: "'a list \<Rightarrow> 'a list list \<Rightarrow> 'a list" where
  "join_with sep [] = []"
| "join_with sep [x] = x"
| "join_with sep (x # y # ys) = x @ sep @ join_with sep (y # ys)"

lemma split_on_not_Nil [simp]: "split_on c s \<noteq> []"
  by (cases s) (auto split: list.splits)

lemma starts_with_append [simp]: "starts_with (p @ s) p"
  by (simp add: starts_with_def)

lemma starts_with_iff: "starts_with s p \<longleftrightarrow> (\<exists>r. s = p @ r)"
  by (auto simp: starts_with_def) (metis append_take_drop_id)

lemma ends_with_iff: "ends_with s p \<longleftrightarrow> (\<exists>r. s = r @ p)"
  by (auto simp: ends_with_def) (metis append_take_drop_id)

lemma is_substring_iff: "is_substring p s \<longleftrightarrow> (\<exists>a b. s = a @ p @ b)"
proof (induction s)
  case (Cons c s)
  have "(\<exists>a b. c # s = a @ p @ b) \<longleftrightarrow> (\<exists>b. c # s = p @ b) \<or> (\<exists>a b. s = a @ p @ b)"
    by (auto simp: Cons_eq_append_conv)
  with Cons show ?case by (simp add: starts_with_iff)
qed auto

lemma join_split_on: "join_with [c] (split_on c s) = s"
proof (induction s)
  case (Cons x xs)
  obtain p ps where sp: "split_on c xs = p # ps"
    by (cases "split_on c xs") auto
  then show ?case using Cons by (cases ps) auto
qed simp

lemma split_on_no_sep: "c \<notin> set s \<Longrightarrow> split_on c s = [s]"
  by (induction s) auto

lemma split_on_append: "c \<notin> set p \<Longrightarrow> split_on c (p @ c # s) = p # split_on c s"
  by (induction p) auto

lemma split_on_sep: "split_on c (a @ c # b) = split_on c a @ split_on c b"
proof (induction a)
  case (Cons x a)
  obtain p ps where "split_on c a = p # ps" by (cases "split_on c a") auto
  with Cons show ?case by auto
qed simp

lemma split_on_join:
  "xs \<noteq> [] \<Longrightarrow> (\<And>x. x \<in> set xs \<Longrightarrow> c \<notin> set x) \<Longrightarrow> split_on c (join_with [c] xs) = xs"
  by (induction "[c]" xs rule: join_with.induct) (auto simp: split_on_no_sep split_on_append)

lemma split_on_pieces: "p \<in> set (split_on c s) \<Longrightarrow> c \<notin> set p"
  by (induction s arbitrary: p) (auto split: if_splits list.splits)

lemma split_once_no_sep: "c \<notin> set s \<Longrightarrow> split_once c s = [s]"
proof -
  assume "c \<notin> set s"
  then have "takeWhile (\<lambda>x. x \<noteq> c) s = s" by (auto simp: takeWhile_eq_all_conv)
  then show ?thesis unfolding split_once_def Let_def by (simp only: less_irrefl if_False)
qed

lemma split_once_append: "c \<notin> set p \<Longrightarrow> split_once c (p @ c # s) = [p, s]"
proof -
  assume "c \<notin> set p"
  then have "takeWhile (\<lambda>x. x \<noteq> c) (p @ c # s) = p" by (induction p) auto
  then show ?thesis by (simp add: split_once_def)
qed

section \<open>Decimal numbers, paths\<close>

fun dec_digits :: "nat \<Rightarrow> string" where
  "dec_digits n = (if n < 10 then [''0123456789'' ! n] else dec_digits (n div 10) @ [''0123456789'' ! (n mod 10)])"

declare dec_digits.simps [simp del]

definition str_int :: "int \<Rightarrow> string" where
  "str_int i = (if i < 0 then ''-'' else []) @ dec_digits (nat \<bar>i\<bar>)"

definition newline :: string where
  "newline = [CHR 0x0A]"

definition text_of :: "string list \<Rightarrow> string" where
  "text_of ls = concat (map (\<lambda>l. l @ newline) ls)"

text \<open>\<open>repr\<close> of a string of 7-bit characters: single quotes unless only they occur in it.\<close>

definition hex_char :: "nat \<Rightarrow> char" where
  "hex_char n = ''0123456789abcdef'' ! n"

definition repr_char :: "char \<Rightarrow> char \<Rightarrow> string" where
  "repr_char q c =
     (let n = of_char c :: nat in
      if c = q \<or> c = CHR 0x5C then [CHR 0x5C, c]
      else if c = CHR 0x0A then [CHR 0x5C, CHR ''n''] else if c = CHR 0x0D then [CHR 0x5C, CHR ''r'']
      else if c = CHR 0x09 then [CHR 0x5C, CHR ''t'']
      else if n < 32 \<or> 127 \<le> n then [CHR 0x5C, CHR ''x'', hex_char (n div 16), hex_char (n mod 16)] else [c])"

definition py_repr :: "string \<Rightarrow> string" where
  "py_repr s =
     (let q = (if CHR 0x27 \<in> set s \<and> CHR 0x22 \<notin> set s then CHR 0x22 else CHR 0x27)
      in [q] @ concat (map (repr_char q) s) @ [q])"

text \<open>The digits at the start of a string, \<open>([0-9]+)\<close> in a regular expression, as a number.\<close>

definition digit_value :: "char \<Rightarrow> int" where
  "digit_value c = int (of_char c) - 48"

definition decimal :: "string \<Rightarrow> int" where
  "decimal s = foldl (\<lambda>n c. 10 * n + digit_value c) 0 s"

definition match_number :: "string \<Rightarrow> (int \<times> string) option" where
  "match_number s =
     (let d = takeWhile is_digit s in if d \<noteq> [] then Some (decimal d, drop (length d) s) else None)"

lemma digit_nth: "n < 10 \<Longrightarrow> is_digit (''0123456789'' ! n) \<and> digit_value (''0123456789'' ! n) = int n"
proof -
  assume "n < 10"
  then have "n \<in> {0, 1, 2, 3, 4, 5, 6, 7, 8, 9}" by auto
  then show ?thesis by (auto simp: is_digit_def digit_value_def)
qed

lemma dec_digits_props: "list_all is_digit (dec_digits n) \<and> dec_digits n \<noteq> [] \<and> decimal (dec_digits n) = int n"
proof (induction n rule: dec_digits.induct)
  case (1 n)
  show ?case
  proof (cases "n < 10")
    case True
    then show ?thesis using digit_nth [OF True] by (subst (1 2 3) dec_digits.simps) (simp add: decimal_def)
  next
    case False
    then have "decimal (dec_digits (n div 10) @ [''0123456789'' ! (n mod 10)]) = 10 * int (n div 10) + int (n mod 10)"
      using 1 digit_nth [of "n mod 10"] by (simp add: decimal_def)
    moreover have "10 * int (n div 10) + int (n mod 10) = int n" by (simp add: zdiv_int zmod_int)
    ultimately show ?thesis using False 1 digit_nth [of "n mod 10"]
      by (subst (1 2 3) dec_digits.simps) simp
  qed
qed

definition no_digit_first :: "string \<Rightarrow> bool" where
  "no_digit_first s \<longleftrightarrow> (s = [] \<or> \<not> is_digit (hd s))"

lemma match_number_append [simp]:
  "no_digit_first s \<Longrightarrow> match_number (dec_digits n @ s) = Some (int n, s)"
proof -
  assume "no_digit_first s"
  then have "takeWhile is_digit s = []" by (cases s) (auto simp: no_digit_first_def)
  then have "takeWhile is_digit (dec_digits n @ s) = dec_digits n"
    using dec_digits_props [of n] by (simp add: takeWhile_append list_all_iff takeWhile_eq_all_conv [THEN iffD2])
  then show ?thesis using dec_digits_props [of n] by (simp add: match_number_def)
qed

text \<open>
  \<open>int(s)\<close> and \<open>long(s)\<close> of a string: blanks around, a sign, decimal digits. \<open>long\<close> takes
  blanks after the sign and an \<open>L\<close> after the digits too.
\<close>

definition py_sign :: "string \<Rightarrow> int \<times> string" where
  "py_sign s = (if starts_with s ''-'' then (- 1, tl s) else if starts_with s ''+'' then (1, tl s) else (1, s))"

definition py_int :: "string \<Rightarrow> py_exn + int" where
  "py_int s =
     (let (sign, d) = py_sign (py_strip s)
      in if d \<noteq> [] \<and> list_all is_digit d then Inr (sign * decimal d) else Inl ValueError)"

definition py_long :: "string \<Rightarrow> py_exn + int" where
  "py_long s =
     (let (sign, r) = py_sign (py_strip s);
          r = dropWhile is_space r;
          d = takeWhile is_digit r;
          e = drop (length d) r
      in if d \<noteq> [] \<and> (e = [] \<or> (hd e \<in> {CHR ''L'', CHR ''l''} \<and> tl e = [])) then Inr (sign * decimal d)
         else Inl ValueError)"

lemma digit_not_space: "is_digit c \<Longrightarrow> \<not> is_space c"
  by (auto simp: is_digit_def is_space_def)

lemma dropWhile_id: "xs = [] \<or> \<not> P (hd xs) \<Longrightarrow> dropWhile P xs = xs"
  by (cases xs) auto

lemma py_strip_id: "s = [] \<or> \<not> is_space (hd s) \<and> \<not> is_space (List.last s) \<Longrightarrow> py_strip s = s"
  unfolding py_strip_def by (subst (1 2) dropWhile_id) (auto simp: hd_rev dropWhile_id)

lemma dec_digits_ne [simp]: "dec_digits n \<noteq> []"
  using dec_digits_props by blast

lemma dec_digits_digit: "list_all is_digit (dec_digits n)" "is_digit (List.last (dec_digits n))" "is_digit (hd (dec_digits n))"
  using dec_digits_props [of n] by (auto simp: list_all_iff)

lemma dec_digits_plain: "py_strip (dec_digits n) = dec_digits n \<and> py_sign (dec_digits n) = (1, dec_digits n)"
proof
  have "\<not> is_space (hd (dec_digits n)) \<and> \<not> is_space (List.last (dec_digits n))"
    using dec_digits_digit(2,3) digit_not_space by blast
  then show "py_strip (dec_digits n) = dec_digits n" by (intro py_strip_id) blast
  have "hd (dec_digits n) \<noteq> CHR ''-'' \<and> hd (dec_digits n) \<noteq> CHR ''+''"
    using dec_digits_digit(3) [of n] by (auto simp: is_digit_def)
  then show "py_sign (dec_digits n) = (1, dec_digits n)"
    by (cases "dec_digits n") (auto simp: py_sign_def starts_with_def)
qed

lemma py_int_digits: "py_int (dec_digits n) = Inr (int n)"
  using dec_digits_plain [of n] dec_digits_props [of n] by (simp add: py_int_def)

lemma dec_digits_inj: "dec_digits m = dec_digits n \<longleftrightarrow> m = n"
  by (metis py_int_digits sum.inject(2) of_nat_eq_iff)

text \<open>\<open>os.path.join(a, b)\<close> of the posix path module.\<close>

definition path_join :: "string \<Rightarrow> string \<Rightarrow> string" where
  "path_join a b =
     (if starts_with b ''/'' then b
      else if a = [] \<or> ends_with a ''/'' then a @ b else a @ ''/'' @ b)"

text \<open>\<open>os.path.basename\<close>.\<close>

definition basename :: "string \<Rightarrow> string" where
  "basename path = last (split_on (CHR ''/'') path)"

end
