(* ===== verification/Rad_Util.thy ===== *)
theory Rad_Util
  imports Py_Base
begin

unbundle bit_operations_syntax

text \<open>
  The helper functions of \<open>src/bindings/python/rad_util.py\<close>: conversions between integers
  and binary strings, greatest common factor, permutations, duplicates, rotations, common
  prefixes and suffixes, rounding to a grid and a small command-line parser.

  Python integers are \<open>int\<close> (\<open>%\<close> and \<open>/\<close> on integers are \<open>mod\<close> and \<open>div\<close>, both rounding
  towards minus infinity). The flag \<open>lng\<close> of the hexadecimal functions says whether the
  number is a Python 2 \<open>long\<close>, whose \<open>hex\<close> ends in \<open>L\<close>.
\<close>

section \<open>Integers and binary strings\<close>

definition hex_digit :: "nat \<Rightarrow> char" where
  "hex_digit d = ''0123456789abcdef'' ! d"

fun hex_digits :: "nat \<Rightarrow> string" where
  "hex_digits n = (if n < 16 then [hex_digit n] else hex_digits (n div 16) @ [hex_digit (n mod 16)])"

declare hex_digits.simps [simp del]

definition py_hex :: "bool \<Rightarrow> int \<Rightarrow> string" where
  "py_hex lng i = (if i < 0 then ''-0x'' else ''0x'') @ hex_digits (nat \<bar>i\<bar>) @ (if lng then ''L'' else [])"

definition hex2bin :: "char \<Rightarrow> py_exn + string" where
  "hex2bin c = dict_lookup
     [(CHR ''0'', ''0000''), (CHR ''1'', ''0001''), (CHR ''2'', ''0010''), (CHR ''3'', ''0011''),
      (CHR ''4'', ''0100''), (CHR ''5'', ''0101''), (CHR ''6'', ''0110''), (CHR ''7'', ''0111''),
      (CHR ''8'', ''1000''), (CHR ''9'', ''1001''), (CHR ''a'', ''1010''), (CHR ''b'', ''1011''),
      (CHR ''c'', ''1100''), (CHR ''d'', ''1101''), (CHR ''e'', ''1110''), (CHR ''f'', ''1111'')] c"

definition int2bin :: "bool \<Rightarrow> int \<Rightarrow> int \<Rightarrow> py_exn + string" where
  "int2bin lng i n =
     py_bind (py_map hex2bin (drop 2 (filter (\<lambda>c. c \<noteq> CHR ''l'') (map char_lower (py_hex lng i)))))
       (\<lambda>parts.
          let result = concat parts
          in if CHR ''1'' \<in> set (slice_upto result (- n)) then Inl ValueError
             else let result = slice_from result (- n)
                  in Inr (replicate (nat (n - int (length result))) CHR ''0'' @ result))"

definition bits_value :: "string \<Rightarrow> int" where
  "bits_value s = foldl (\<lambda>v c. 2 * v + (if c = CHR ''1'' then 1 else 0)) 0 s"

text \<open>\<open>int(s, 2)\<close>: surrounding blanks, a sign and a prefix \<open>0b\<close> are accepted.\<close>

definition bin2int :: "string \<Rightarrow> py_exn + int" where
  "bin2int s =
     (let t = py_strip s;
          neg = starts_with t ''-'';
          u = (if starts_with t ''-'' \<or> starts_with t ''+'' then tl t else t);
          v = (if starts_with (map char_lower u) ''0b'' then drop 2 u else u)
      in if v = [] \<or> \<not> set v \<subseteq> {CHR ''0'', CHR ''1''} then Inl ValueError
         else Inr (if neg then - bits_value v else bits_value v))"

definition reverse :: "string \<Rightarrow> string" where
  "reverse s = rev s"

lemma bits_value_Nil [simp]: "bits_value [] = 0"
  by (simp add: bits_value_def)

lemma bits_value_snoc: "bits_value (s @ [c]) = 2 * bits_value s + (if c = CHR ''1'' then 1 else 0)"
  by (simp add: bits_value_def)

lemma bits_value_append: "bits_value (s @ t) = bits_value s * 2 ^ length t + bits_value t"
proof (induction t rule: rev_induct)
  case (snoc c t)
  have "bits_value (s @ t @ [c]) = 2 * bits_value (s @ t) + (if c = CHR ''1'' then 1 else 0)"
    using bits_value_snoc [of "s @ t" c] by simp
  then show ?case by (simp add: snoc bits_value_snoc algebra_simps)
qed simp

lemma bits_value_nonneg [simp]: "0 \<le> bits_value s"
  by (induction s rule: rev_induct) (auto simp: bits_value_snoc)

lemma bits_value_less: "bits_value s < 2 ^ length s"
  by (induction s rule: rev_induct) (auto simp: bits_value_snoc)

lemma bits_value_replicate [simp]: "bits_value (replicate k (CHR ''0'')) = 0"
  by (induction k) (simp_all add: bits_value_snoc flip: replicate_append_same)

lemma bits_value_no_ones: "CHR ''1'' \<notin> set s \<Longrightarrow> bits_value s = 0"
  by (induction s rule: rev_induct) (auto simp: bits_value_snoc)

lemma bits_value_has_one: "CHR ''1'' \<in> set s \<Longrightarrow> 0 < bits_value s"
proof (induction s rule: rev_induct)
  case (snoc c s)
  then show ?case using bits_value_nonneg [of s] by (auto simp: bits_value_snoc)
qed simp

lemma hex2bin_digit:
  assumes "d < 16"
  shows "\<exists>s. hex2bin (hex_digit d) = Inr s \<and> length s = 4 \<and> bits_value s = int d \<and>
           set s \<subseteq> {CHR ''0'', CHR ''1''}"
proof -
  have "d \<in> set [0..<16]" using assms by simp
  moreover have "\<forall>d\<in>set [0..<16]. \<exists>s. hex2bin (hex_digit d) = Inr s \<and> length s = 4 \<and>
      bits_value s = int d \<and> set s \<subseteq> {CHR ''0'', CHR ''1''}"
    by (simp add: upt_rec hex2bin_def hex_digit_def dict_lookup_def bits_value_def)
  ultimately show ?thesis by blast
qed

lemma hex_digit_lower:
  assumes "d < 16"
  shows "char_lower (hex_digit d) = hex_digit d" "hex_digit d \<noteq> CHR ''l''"
proof -
  have "d \<in> set [0..<16]" using assms by simp
  moreover have "\<forall>d\<in>set [0..<16]. char_lower (hex_digit d) = hex_digit d \<and> hex_digit d \<noteq> CHR ''l''"
    by (simp add: upt_rec hex_digit_def char_lower_def)
  ultimately show "char_lower (hex_digit d) = hex_digit d" "hex_digit d \<noteq> CHR ''l''" by blast+
qed

lemma hex_digits_map:
  "\<exists>ps. py_map hex2bin (hex_digits n) = Inr ps \<and> bits_value (concat ps) = int n \<and>
     set (concat ps) \<subseteq> {CHR ''0'', CHR ''1''}"
proof (induction n rule: hex_digits.induct)
  case (1 n)
  show ?case
  proof (cases "n < 16")
    case True
    with hex2bin_digit [of n] show ?thesis by (auto simp: hex_digits.simps [of n])
  next
    case False
    then obtain ps where ps: "py_map hex2bin (hex_digits (n div 16)) = Inr ps"
        "bits_value (concat ps) = int (n div 16)" "set (concat ps) \<subseteq> {CHR ''0'', CHR ''1''}"
      using 1 by blast
    obtain s where s: "hex2bin (hex_digit (n mod 16)) = Inr s" "length s = 4"
        "bits_value s = int (n mod 16)" "set s \<subseteq> {CHR ''0'', CHR ''1''}"
      using hex2bin_digit [of "n mod 16"] by auto
    have "py_map hex2bin (hex_digits n) = Inr (ps @ [s])"
      using False ps(1) s(1) by (simp add: hex_digits.simps [of n] py_map_append)
    moreover have "bits_value (concat (ps @ [s])) = int n"
      using ps(2) s div_mult_mod_eq [of "int n" 16] by (simp add: bits_value_append zdiv_int zmod_int)
    ultimately show ?thesis using ps(3) s(4) by auto
  qed
qed

lemma hex_digits_clean:
  "filter (\<lambda>c. c \<noteq> CHR ''l'') (map char_lower (hex_digits n)) = hex_digits n"
proof (induction n rule: hex_digits.induct)
  case (1 n)
  then show ?case
    by (simp add: hex_digits.simps [of n] hex_digit_lower)
qed

lemma hex_clean:
  assumes "0 \<le> i"
  shows "drop 2 (filter (\<lambda>c. c \<noteq> CHR ''l'') (map char_lower (py_hex lng i))) = hex_digits (nat i)"
proof -
  have "char_lower (CHR ''x'') = CHR ''x''" "char_lower (CHR ''0'') = CHR ''0''"
    "char_lower (CHR ''L'') = CHR ''l''"
    by (simp_all add: char_lower_def char_of_def bit_iff_odd)
  with assms show ?thesis by (simp add: py_hex_def hex_digits_clean)
qed

lemma int2bin_cases:
  assumes "0 \<le> i" "0 < n"
  shows "if i < 2 ^ nat n
    then \<exists>s. int2bin lng i n = Inr s \<and> int (length s) = n \<and> set s \<subseteq> {CHR ''0'', CHR ''1''} \<and> bits_value s = i
    else int2bin lng i n = Inl ValueError"
proof -
  obtain ps where ps: "py_map hex2bin (hex_digits (nat i)) = Inr ps" "bits_value (concat ps) = i"
      "set (concat ps) \<subseteq> {CHR ''0'', CHR ''1''}"
    using hex_digits_map [of "nat i"] assms(1) by auto
  define r where "r = concat ps"
  define hi lo where "hi = slice_upto r (- n)" and "lo = slice_from r (- n)"
  have lo: "length lo = min (length r) (nat n)" and r: "r = hi @ lo"
    using assms(2) by (auto simp: lo_def hi_def slice_upto_from)
      (auto simp: slice_from_def slice_bound_neg)
  have hi: "hi \<noteq> [] \<Longrightarrow> length lo = nat n"
    using lo assms(2) by (auto simp: hi_def slice_upto_def slice_bound_neg)
  have run: "int2bin lng i n = (if CHR ''1'' \<in> set hi then Inl ValueError
      else Inr (replicate (nat (n - int (length lo))) CHR ''0'' @ lo))"
    by (simp add: int2bin_def hex_clean assms(1) ps(1) Let_def flip: r_def hi_def lo_def)
  have val: "i = bits_value hi * 2 ^ length lo + bits_value lo"
    using ps(2) r by (metis bits_value_append r_def)
  show ?thesis
  proof (cases "CHR ''1'' \<in> set hi")
    case True
    then have "1 \<le> bits_value hi" "length lo = nat n"
      using bits_value_has_one [of hi] hi by force+
    then have "1 * 2 ^ nat n \<le> bits_value hi * 2 ^ nat n"
      by (intro mult_right_mono) simp_all
    then have "2 ^ nat n \<le> i"
      using val bits_value_nonneg [of lo] \<open>length lo = nat n\<close> by (simp only: mult_1)
    then show ?thesis using run True by simp
  next
    case False
    then have eq: "i = bits_value lo" using val by (simp add: bits_value_no_ones)
    then have "i < 2 ^ nat n"
      using order_less_le_trans [OF bits_value_less [of lo] power_increasing [of "length lo" "nat n"]] lo
      by simp
    moreover have "bits_value (replicate (nat (n - int (length lo))) CHR ''0'' @ lo) = i"
      using eq by (simp add: bits_value_append)
    moreover have "set lo \<subseteq> {CHR ''0'', CHR ''1''}" using ps(3) by (auto simp: r simp flip: r_def)
    moreover have "int (length (replicate (nat (n - int (length lo))) CHR ''0'' @ lo)) = n"
      using lo assms(2) by (simp add: min_def split: if_splits)
    ultimately show ?thesis using run False by auto
  qed
qed

lemma bin2int_bits:
  assumes "set s \<subseteq> {CHR ''0'', CHR ''1''}" "s \<noteq> []"
  shows "bin2int s = Inr (bits_value s)"
proof -
  have nosp: "dropWhile is_space t = t" if "set t \<subseteq> {CHR ''0'', CHR ''1''}" for t
    using that by (cases t) (auto simp: is_space_def)
  have "py_strip s = s" using assms(1) by (simp add: py_strip_def nosp)
  moreover have "\<not> starts_with s ''-''" "\<not> starts_with s ''+''"
    using assms by (cases s; auto simp: starts_with_def)+
  moreover have "\<not> starts_with (map char_lower s) ''0b''"
  proof
    assume "starts_with (map char_lower s) ''0b''"
    then have "CHR ''b'' \<in> char_lower ` set s" by (auto simp: starts_with_iff map_eq_append_conv)
    with assms(1) show False by (auto simp: char_lower_def)
  qed
  ultimately show ?thesis using assms by (simp add: bin2int_def)
qed

section \<open>Numbers\<close>

text \<open>
  \<open>gcf\<close> on integers: the test against \<open>epsilon\<close> (\<open>1e-16\<close>) holds of every integer other
  than zero, so the loop runs while the remainder is not zero.
\<close>

function gcf_loop :: "int \<Rightarrow> int \<Rightarrow> int" where
  "gcf_loop result remainder =
     (if remainder \<noteq> 0 then gcf_loop remainder (result mod remainder) else \<bar>result\<bar>)"
  by auto
termination
  by (relation "measure (\<lambda>(_, r). nat \<bar>r\<bar>)") (auto simp: abs_mod_less nat_less_iff)

declare gcf_loop.simps [simp del]

definition gcf :: "int \<Rightarrow> int \<Rightarrow> int" where
  "gcf a b = gcf_loop (max a b) (min a b)"

definition lcm_rad :: "int \<Rightarrow> int \<Rightarrow> int" where
  "lcm_rad a b = (let denom = gcf a b in if denom = 0 then 0 else a * (b div denom))"

definition reduce_fraction :: "int \<times> int \<Rightarrow> py_exn + int \<times> int" where
  "reduce_fraction fraction =
     (case fraction of (numerator, denominator) \<Rightarrow>
        let common_factor = \<bar>gcf numerator denominator\<bar>
        in if common_factor = 0 then Inl ZeroDivisionError
           else Inr (numerator div common_factor, denominator div common_factor))"

definition lsb :: "int \<Rightarrow> int \<Rightarrow> py_exn + int" where
  "lsb x n = (if n < 0 then Inl TypeError else Inr (x AND (2 ^ nat n - 1)))"

definition gray_encode :: "int \<Rightarrow> int" where
  "gray_encode i = i XOR drop_bit 1 i"

text \<open>Rounding of integers; off the branches of the code \<open>add_one\<close> stays unbound.\<close>

definition round_grid :: "int \<Rightarrow> int \<Rightarrow> int \<Rightarrow> py_exn + int" where
  "round_grid val grid mode =
     (if grid = 0 then Inl ZeroDivisionError
      else let off_grid = val mod grid;
               add_one = (if mode = 0 then Some (if grid \<le> 2 * off_grid then 1 else 0)
                          else if mode = 1 \<and> off_grid \<noteq> 0 then Some 1
                          else if mode = - 1 \<and> off_grid \<noteq> 0 then Some 0 else None)
           in case add_one of None \<Rightarrow> Inl NameError
              | Some k \<Rightarrow> Inr ((val div grid + k) * grid))"

lemma gcf_loop_gcd: "gcf_loop a b = gcd a b"
proof (induction a b rule: gcf_loop.induct)
  case (1 a b)
  show ?case
  proof (cases "b = 0")
    case False
    then have "gcf_loop a b = gcd b (a mod b)" using 1 by (simp add: gcf_loop.simps [of a b])
    then show ?thesis using gcd_red_int [of a b] by simp
  qed (simp add: gcf_loop.simps)
qed

lemma gcf_gcd: "gcf a b = gcd a b"
  by (cases "a \<le> b") (simp_all add: gcf_def gcf_loop_gcd gcd.commute)

lemma lcm_rad_lcm: "\<bar>lcm_rad a b\<bar> = lcm a b"
proof (cases "gcd a b = 0")
  case False
  define g where "g = gcd a b"
  have g: "g \<noteq> 0" "0 \<le> g" using False by (simp_all add: g_def)
  have "\<bar>b div g\<bar> * g = \<bar>b div g * g\<bar>" using g(2) by (simp add: abs_mult)
  then have "\<bar>a * (b div g)\<bar> * g = \<bar>a\<bar> * \<bar>b\<bar>" by (simp add: abs_mult g_def)
  also have "\<dots> = lcm a b * g" by (simp add: g_def prod_gcd_lcm_int [symmetric] mult.commute)
  finally have "\<bar>a * (b div g)\<bar> = lcm a b" using g(1) by simp
  then show ?thesis using False by (simp add: lcm_rad_def gcf_gcd g_def Let_def)
qed (simp add: lcm_rad_def gcf_gcd)

lemma reduce_fraction_eq:
  "reduce_fraction (a, b) =
     (if a = 0 \<and> b = 0 then Inl ZeroDivisionError else Inr (a div gcd a b, b div gcd a b))"
  by (simp add: reduce_fraction_def gcf_gcd Let_def)

lemma reduce_fraction_coprime:
  assumes "reduce_fraction (a, b) = Inr (p, q)"
  shows "coprime p q" "p * b = q * a"
proof -
  from assms have ab: "a \<noteq> 0 \<or> b \<noteq> 0" and pq: "p = a div gcd a b" "q = b div gcd a b"
    by (auto simp: reduce_fraction_eq split: if_splits)
  show "coprime p q" using ab by (simp add: pq div_gcd_coprime)
  define g where "g = gcd a b"
  have "a = p * g" "b = q * g" by (simp_all add: pq g_def)
  then show "p * b = q * a" by (simp only: mult_ac)
qed

lemma lsb_mod: "0 \<le> n \<Longrightarrow> lsb x n = Inr (x mod 2 ^ nat n)"
  by (simp add: lsb_def take_bit_eq_mod flip: take_bit_eq_mask mask_eq_exp_minus_1)

lemma gray_encode_bit: "bit (gray_encode i) k = (bit i k \<noteq> bit i (Suc k))"
  by (simp add: gray_encode_def bit_xor_iff bit_drop_bit_eq)

lemma xor_succ_mask: "0 \<le> i \<Longrightarrow> \<exists>k. (i + 1) XOR i = (mask (Suc k) :: int)"
proof (induction i rule: int_bit_induct)
  case zero
  show ?case by (rule exI [of _ 0]) simp
next
  case (even i)
  have "(i * 2 + 1) XOR (i * 2) = 1"
    by (simp add: xor_int_rec [of "i * 2 + 1"])
  then show ?case by (intro exI [of _ 0]) simp
next
  case (odd i)
  then obtain k where "(i + 1) XOR i = mask (Suc k)" by auto
  moreover have "(1 + i * 2 + 1) XOR (1 + i * 2) = 2 * ((i + 1) XOR i) + 1"
    by (simp add: xor_int_rec [of "2 + i * 2"] add.commute)
  ultimately show ?case
    by (intro exI [of _ "Suc k"]) (simp add: mask_Suc_double [of "Suc k"] or_int_rec [of 1])
qed simp

lemma gray_encode_step: "0 \<le> i \<Longrightarrow> \<exists>k. gray_encode (i + 1) XOR gray_encode i = 2 ^ k"
proof -
  assume "0 \<le> i"
  then obtain k where k: "(i + 1) XOR i = mask (Suc k)" using xor_succ_mask by blast
  have "gray_encode (i + 1) XOR gray_encode i = ((i + 1) XOR i) XOR drop_bit 1 ((i + 1) XOR i)"
    by (rule bit_eqI) (auto simp: gray_encode_bit bit_xor_iff bit_drop_bit_eq)
  also have "\<dots> = 2 ^ k"
    unfolding k by (rule bit_eqI) (auto simp: bit_simps)
  finally show ?thesis by blast
qed

lemma round_grid_cases:
  assumes "round_grid val grid mode = Inr r" "0 < grid"
  shows "r mod grid = 0" "\<bar>r - val\<bar> < grid" "mode = 0 \<Longrightarrow> 2 * \<bar>r - val\<bar> \<le> grid"
    "mode = 1 \<Longrightarrow> val < r" "mode = - 1 \<Longrightarrow> r < val"
proof -
  define m where "m = val mod grid"
  have v: "val = val div grid * grid + m" and m: "0 \<le> m" "m < grid"
    using assms(2) by (simp_all add: m_def)
  obtain k where k: "r = (val div grid + k) * grid" "k = 0 \<or> k = 1"
      "mode = 0 \<Longrightarrow> k = (if grid \<le> 2 * m then 1 else 0)" "k = 1 \<Longrightarrow> 0 < m" "mode \<noteq> 0 \<Longrightarrow> 0 < m"
      "mode = 1 \<Longrightarrow> k = 1" "mode = - 1 \<Longrightarrow> k = 0"
    using assms m(1) by (auto simp: round_grid_def Let_def m_def order_less_le split: if_splits)
  have r: "r - val = k * grid - m" using k(1) v by (simp add: algebra_simps)
  show "r mod grid = 0" by (simp add: k(1))
  show "\<bar>r - val\<bar> < grid" "mode = 0 \<Longrightarrow> 2 * \<bar>r - val\<bar> \<le> grid" "mode = 1 \<Longrightarrow> val < r" "mode = - 1 \<Longrightarrow> r < val"
    using k(2-7) m r by (auto split: if_splits)
qed

section \<open>Lists and dictionaries\<close>

text \<open>\<open>zip(*matrix)\<close> stops at the shortest row.\<close>

definition transpose_rad :: "'a list list \<Rightarrow> 'a list list" where
  "transpose_rad matrix =
     (if matrix = [] then []
      else map (\<lambda>j. map (\<lambda>row. row ! j) matrix) [0..<Min (set (map length matrix))])"

definition insert_at :: "nat \<Rightarrow> 'a \<Rightarrow> 'a list \<Rightarrow> 'a list" where
  "insert_at i x xs = take i xs @ x # drop i xs"

fun permutations :: "'a list \<Rightarrow> 'a list list" where
  "permutations (item # y # ys) =
     concat (map (\<lambda>sub. map (\<lambda>i. insert_at i item sub) [0..<length (item # y # ys)])
       (permutations (y # ys)))"
| "permutations xs = [xs]"

text \<open>
  \<open>hashable\<close> says which items can be dictionary keys; the fast path raises \<open>TypeError\<close> at the
  first other item and the slow path starts again.
\<close>

fun first_seen :: "'a list \<Rightarrow> 'a list \<Rightarrow> 'a list" where
  "first_seen result [] = result"
| "first_seen result (x # xs) =
     (if x \<in> set result then first_seen result xs else first_seen (result @ [x]) xs)"

definition uniquify :: "('a \<Rightarrow> bool) \<Rightarrow> ('a list \<Rightarrow> 'a list) \<Rightarrow> 'a list \<Rightarrow> bool \<Rightarrow> 'a list" where
  "uniquify hashable ho items preserve_order =
     (if list_all hashable items
      then if preserve_order then first_seen [] items
           else ho (dict_keys (foldl (\<lambda>d x. dict_set d x (0::int)) [] items))
      else first_seen [] items)"

definition reverse_dict :: "('a list \<Rightarrow> 'a list) \<Rightarrow> ('a, 'b) dict \<Rightarrow> ('b, 'a) dict" where
  "reverse_dict ho d =
     foldl (\<lambda>result k. case dict_get d k of None \<Rightarrow> result | Some v \<Rightarrow> dict_set result v k)
       [] (ho (dict_keys d))"

fun common_prefix :: "'a list \<Rightarrow> 'a list \<Rightarrow> nat \<Rightarrow> nat \<Rightarrow> 'a list \<Rightarrow> 'a list" where
  "common_prefix s1 s2 0 i acc = acc"
| "common_prefix s1 s2 (Suc left) i acc =
     (if s1 ! i \<noteq> s2 ! i then acc else common_prefix s1 s2 left (Suc i) (acc @ [s1 ! i]))"

fun common_suffix :: "'a list \<Rightarrow> 'a list \<Rightarrow> nat \<Rightarrow> nat \<Rightarrow> 'a list \<Rightarrow> 'a list" where
  "common_suffix s1 s2 0 i acc = acc"
| "common_suffix s1 s2 (Suc left) i acc =
     (if s1 ! (length s1 - i) \<noteq> s2 ! (length s2 - i) then acc
      else common_suffix s1 s2 left (Suc i) (acc @ [s1 ! (length s1 - i)]))"

definition find_common_fixes :: "string \<Rightarrow> string \<Rightarrow> string \<times> string" where
  "find_common_fixes s1 s2 =
     (let common_len = min (length s1) (length s2);
          prefix = common_prefix s1 s2 common_len 0 [];
          suffix = common_suffix s1 s2 common_len 1 []
      in (prefix, rev suffix))"

definition is_rotated :: "'a list \<Rightarrow> 'a list \<Rightarrow> py_exn + bool" where
  "is_rotated seq1 seq2 =
     (if length seq1 \<noteq> length seq2 then Inr False
      else py_bind (py_index seq2 0) (\<lambda>head_item.
        let start_indexes = filter (\<lambda>i. seq1 ! i = head_item) [0..<length seq1];
            double_seq1 = seq1 @ seq1
        in Inr (list_ex (\<lambda>i. py_slice double_seq1 (int i) (int (i + length seq1)) = seq2)
                  start_indexes)))"

datatype arg_val = ArgStr string | ArgNone | ArgList "string list"

definition arg_parts :: "string \<Rightarrow> string \<times> arg_val" where
  "arg_parts arg =
     (let parts = split_on (CHR ''='') (dropWhile (\<lambda>c. c = CHR ''-'') arg)
      in (hd parts, if length parts = 2 then ArgStr (parts ! 1) else ArgNone))"

definition get_args_step ::
  "(string, arg_val) dict \<times> string list \<Rightarrow> string \<Rightarrow> (string, arg_val) dict \<times> string list" where
  "get_args_step st arg =
     (case st of (d, args) \<Rightarrow>
        if starts_with arg ''-'' then (case arg_parts arg of (k, v) \<Rightarrow> (dict_set d k v, args))
        else (d, args @ [arg]))"

definition get_args :: "string list \<Rightarrow> (string, arg_val) dict" where
  "get_args argv =
     (case foldl get_args_step ([], []) argv of (d, args) \<Rightarrow> dict_set d ''args'' (ArgList args))"

subsection \<open>Permutations\<close>

lemma mset_insert_at [simp]: "mset (insert_at i x xs) = add_mset x (mset xs)"
  unfolding insert_at_def by (metis append_take_drop_id mset.simps(2) mset_append union_mset_add_mset_right)

lemma permutations_sound: "ys \<in> set (permutations xs) \<Longrightarrow> mset ys = mset xs"
  by (induction xs arbitrary: ys rule: permutations.induct) auto

lemma permutations_complete: "mset ys = mset xs \<Longrightarrow> ys \<in> set (permutations xs)"
proof (induction xs arbitrary: ys rule: permutations.induct)
  case (1 item y zs)
  have "item \<in> set ys" using 1(2) by (metis list.set_intros(1) mset_eq_setD)
  then obtain a b where ys: "ys = a @ item # b" by (meson split_list)
  have "mset (a @ b) = mset (y # zs)" using 1(2) ys by simp
  then have sub: "a @ b \<in> set (permutations (y # zs))" by (rule 1(1))
  have "length ys = length (item # y # zs)" using 1(2) by (metis size_mset)
  then have "length a < length (item # y # zs)" using ys by simp
  moreover have "ys = insert_at (length a) item (a @ b)" by (simp add: ys insert_at_def)
  ultimately have mem: "ys \<in> set (map (\<lambda>i. insert_at i item (a @ b)) [0..<length (item # y # zs)])"
    by (simp only: set_map set_upt) (rule image_eqI [of _ _ "length a"], simp_all)
  show ?case
    unfolding permutations.simps set_concat set_map [of _ "permutations (y # zs)"]
    by (rule UN_I, rule imageI, rule sub, rule mem)
qed auto

lemma length_permutations: "length (permutations xs) = fact (length xs)"
proof (induction xs rule: permutations.induct)
  case (1 item y zs)
  have "length (concat (map (\<lambda>sub. map (\<lambda>i. insert_at i item sub) [0..<length (item # y # zs)]) ps))
      = length (item # y # zs) * length ps" for ps :: "'a list list"
    by (induction ps) simp_all
  from this [of "permutations (y # zs)"] 1 show ?case by (simp only: permutations.simps) (simp add: algebra_simps)
qed auto

subsection \<open>Duplicates\<close>

lemma set_first_seen: "set (first_seen r xs) = set r \<union> set xs"
  by (induction r xs rule: first_seen.induct) auto

lemma distinct_first_seen: "distinct r \<Longrightarrow> distinct (first_seen r xs)"
  by (induction r xs rule: first_seen.induct) auto

lemma first_seen_prefix: "\<exists>zs. first_seen r xs = r @ zs \<and> subseq zs xs"
proof (induction r xs rule: first_seen.induct)
  case (2 r x xs)
  then show ?case by (cases "x \<in> set r") auto
qed simp

lemma uniquify_spec:
  assumes "hash_order ho"
  shows "distinct (uniquify hashable ho items po)" "set (uniquify hashable ho items po) = set items"
    "po \<Longrightarrow> subseq (uniquify hashable ho items po) items"
proof -
  define d where "d = foldl (\<lambda>d x. dict_set d x (0::int)) [] items"
  have d: "d = foldl (\<lambda>a (k, v). dict_set a k v) [] (map (\<lambda>x. (x, 0)) items)"
    by (simp add: d_def foldl_map)
  have "dict_ok d" unfolding d by (rule pd.ok_puts) simp
  moreover have "set (dict_keys d) = set items" unfolding d by (simp add: pd.keys_puts image_image)
  ultimately show "distinct (uniquify hashable ho items po)"
      "set (uniquify hashable ho items po) = set items"
    using assms by (auto simp: uniquify_def distinct_first_seen set_first_seen dict_ok_def simp flip: d_def)
  show "po \<Longrightarrow> subseq (uniquify hashable ho items po) items"
    using first_seen_prefix [of "[]" items] by (auto simp: uniquify_def)
qed

lemma remdups_drop: "x \<in> set ws \<Longrightarrow> remdups (zs @ x # ws) = remdups (zs @ ws)"
  by (induction zs) auto

lemma first_seen_remdups: "first_seen [] xs = rev (remdups (rev xs))"
proof -
  have "first_seen r ys = rev (remdups (rev (r @ ys)))" if "distinct r" for r ys :: "'a list"
    using that
  proof (induction r ys rule: first_seen.induct)
    case (2 r x xs)
    show ?case
    proof (cases "x \<in> set r")
      case True
      have "remdups (rev xs @ x # rev r) = remdups (rev xs @ rev r)"
        by (rule remdups_drop) (simp add: True)
      with 2 True show ?thesis by simp
    qed (use 2 in auto)
  qed (simp add: distinct_remdups_id)
  from this [of "[]"] show ?thesis by simp
qed

lemma reverse_dict_eq:
  "dict_ok d \<Longrightarrow> hash_order ho \<Longrightarrow>
   reverse_dict ho d = foldl (\<lambda>a (k, v). dict_set a k v) []
     (map (\<lambda>k. (the (dict_get d k), k)) (ho (dict_keys d)))"
proof -
  assume ho: "hash_order ho"
  have "foldl (\<lambda>result k. case dict_get d k of None \<Rightarrow> result | Some v \<Rightarrow> dict_set result v k) r ks
      = foldl (\<lambda>a (k, v). dict_set a k v) r (map (\<lambda>k. (the (dict_get d k), k)) ks)"
    if "set ks \<subseteq> dom (dict_get d)" for r ks
    using that by (induction ks arbitrary: r) auto
  then show ?thesis using ho by (simp add: reverse_dict_def set_dict_keys)
qed

lemma reverse_dict_get:
  assumes "dict_ok d" "hash_order ho"
  shows "dom (dict_get (reverse_dict ho d)) = ran (dict_get d)"
    "dict_get (reverse_dict ho d) v = Some k \<Longrightarrow> dict_get d k = Some v"
    "inj_on (dict_get d) (dom (dict_get d)) \<Longrightarrow> dict_get d k = Some v \<Longrightarrow>
       dict_get (reverse_dict ho d) v = Some k"
proof -
  define kvs where "kvs = map (\<lambda>k. (the (dict_get d k), k)) (ho (dict_keys d))"
  have get: "dict_get (reverse_dict ho d) = map_of (rev kvs)"
    by (simp add: reverse_dict_eq assms pd.get_puts kvs_def)
  have kvs: "set kvs = {(v, k). dict_get d k = Some v}"
    by (auto simp: kvs_def assms(2) set_dict_keys image_iff)
  show dom: "dom (dict_get (reverse_dict ho d)) = ran (dict_get d)"
    by (force simp: get dom_map_of_conv_image_fst kvs ran_def image_iff)
  show sound: "dict_get (reverse_dict ho d) v = Some k \<Longrightarrow> dict_get d k = Some v" for v k
    using kvs by (auto simp: get dest!: map_of_SomeD)
  assume inj: "inj_on (dict_get d) (dom (dict_get d))" and k: "dict_get d k = Some v"
  then have "v \<in> dom (dict_get (reverse_dict ho d))" using dom by (auto simp: ran_def)
  then obtain k' where k': "dict_get (reverse_dict ho d) v = Some k'" by blast
  with sound [OF k'] k inj show "dict_get (reverse_dict ho d) v = Some k"
    by (auto simp: inj_on_def dom_def)
qed

subsection \<open>Common ends and rotations\<close>

lemma common_prefix_lcp:
  "i + left = min (length s1) (length s2) \<Longrightarrow>
   common_prefix s1 s2 left i acc = acc @ longest_common_prefix (drop i s1) (drop i s2)"
proof (induction s1 s2 left i acc rule: common_prefix.induct)
  case (1 s1 s2 i acc)
  then have "drop i s1 = [] \<or> drop i s2 = []" by auto
  then show ?case by (cases "drop i s1"; cases "drop i s2") auto
next
  case (2 s1 s2 left i acc)
  then have "i < length s1" "i < length s2" by auto
  then have "drop i s1 = s1 ! i # drop (Suc i) s1" "drop i s2 = s2 ! i # drop (Suc i) s2"
    by (simp_all add: Cons_nth_drop_Suc)
  with 2 show ?case by simp
qed

lemma common_suffix_prefix:
  "0 < i \<Longrightarrow> i + left = Suc (min (length s1) (length s2)) \<Longrightarrow>
   common_suffix s1 s2 left i acc = common_prefix (rev s1) (rev s2) left (i - 1) acc"
  by (induction s1 s2 left i acc rule: common_suffix.induct)
    (auto simp: rev_nth Suc_diff_Suc)

lemma find_common_fixes_lcp:
  "find_common_fixes s1 s2 =
     (longest_common_prefix s1 s2, rev (longest_common_prefix (rev s1) (rev s2)))"
  by (simp add: find_common_fixes_def Let_def common_prefix_lcp common_suffix_prefix)

lemma slice_double_rotate:
  "i < length xs \<Longrightarrow> py_slice (xs @ xs) (int i) (int (i + length xs)) = rotate i xs"
  by (simp add: py_slice_def slice_upto_def rotate_drop_take nat_add_distrib del: of_nat_add)

lemma is_rotated_iff:
  assumes "seq2 \<noteq> []"
  shows "is_rotated seq1 seq2 = Inr (\<exists>n. seq2 = rotate n seq1)"
proof (cases "length seq1 = length seq2")
  case True
  then have ne: "seq1 \<noteq> []" using assms by auto
  have "(\<exists>i<length seq1. seq1 ! i = seq2 ! 0 \<and> py_slice (seq1 @ seq1) (int i) (int (i + length seq1)) = seq2)
      \<longleftrightarrow> (\<exists>n. seq2 = rotate n seq1)" (is "?l \<longleftrightarrow> ?r")
  proof
    show "?l \<Longrightarrow> ?r" using slice_double_rotate by metis
    assume ?r
    then obtain n where n: "seq2 = rotate n seq1" by blast
    define i where "i = n mod length seq1"
    have i: "i < length seq1" using ne by (simp add: i_def)
    have eq: "seq2 = rotate i seq1" using n rotate_conv_mod [of n seq1] by (simp add: i_def)
    then have "seq2 ! 0 = seq1 ! i" using nth_rotate [of 0 seq1 i] i ne by simp
    then show ?l using slice_double_rotate [OF i] eq i by auto
  qed
  moreover have "py_index seq2 0 = Inr (seq2 ! 0)" using assms py_index_nonneg [of 0 seq2] by simp
  ultimately show ?thesis using True
    by (simp add: is_rotated_def Let_def list_ex_iff Bex_def conj_commute conj_left_commute)
qed (auto simp: is_rotated_def)

subsection \<open>Command-line arguments\<close>

lemma get_args_fold:
  "foldl get_args_step (d, args) argv =
     (foldl (\<lambda>a (k, v). dict_set a k v) d (map arg_parts (filter (\<lambda>a. starts_with a ''-'') argv)),
      args @ filter (\<lambda>a. \<not> starts_with a ''-'') argv)"
  by (induction argv arbitrary: d args) (auto simp: get_args_step_def split: prod.splits)

lemma get_args_get:
  "dict_get (get_args argv) k =
     (if k = ''args'' then Some (ArgList (filter (\<lambda>a. \<not> starts_with a ''-'') argv))
      else map_of (rev (map arg_parts (filter (\<lambda>a. starts_with a ''-'') argv))) k)"
  by (simp add: get_args_def get_args_fold pd.get_puts)

lemma transpose_rad_nth:
  assumes "m \<noteq> []" "\<forall>row\<in>set m. length row = k"
  shows "transpose_rad m = map (\<lambda>j. map (\<lambda>row. row ! j) m) [0..<k]"
proof -
  have "set (map length m) = {k}" using assms by (cases m) auto
  then show ?thesis using assms(1) by (simp add: transpose_rad_def del: set_map)
qed

lemma transpose_rad_twice:
  assumes "m \<noteq> []" "0 < k" "\<forall>row\<in>set m. length row = k"
  shows "transpose_rad (transpose_rad m) = m"
proof -
  let ?t = "map (\<lambda>j. map (\<lambda>row. row ! j) m) [0..<k]"
  have t: "transpose_rad m = ?t" using assms by (simp add: transpose_rad_nth)
  have "transpose_rad ?t = map (\<lambda>i. map (\<lambda>col. col ! i) ?t) [0..<length m]"
    using assms(2) by (intro transpose_rad_nth) auto
  also have "\<dots> = map (\<lambda>i. m ! i) [0..<length m]"
  proof (rule map_cong [OF refl])
    fix i assume "i \<in> set [0..<length m]"
    then have "length (m ! i) = k" "i < length m" using assms(3) by auto
    then show "map (\<lambda>col. col ! i) ?t = m ! i" by (auto intro: nth_equalityI)
  qed
  finally show ?thesis by (simp add: t map_nth)
qed

section \<open>All binary numbers of a width, random vectors\<close>

text \<open>
  \<open>binary_range\<close> keeps the number with its least significant digit first and \<open>toggle\<close> as
  carry bits. The outer loop is left when the carry reaches position \<open>bits\<close>, so it is a
  \<open>partial_function\<close>; \<open>binary_range_all\<close> shows that it returns.
\<close>

function br_inner :: "nat \<Rightarrow> nat \<Rightarrow> string \<Rightarrow> int list \<Rightarrow> string \<times> int list" where
  "br_inner bits i v toggle =
     (if i < bits \<and> toggle ! i = 1
      then if v ! i = CHR ''0''
           then br_inner bits (Suc i) (v[i := CHR ''1'']) (toggle[Suc i := 0])
           else br_inner bits (Suc i) (v[i := CHR ''0'']) (toggle[Suc i := 1])
      else (v, toggle))"
  by auto
termination by (relation "measure (\<lambda>(bits, i, _). bits - i)") auto

declare br_inner.simps [simp del]

partial_function (option) br_outer :: "nat \<Rightarrow> string \<Rightarrow> int list \<Rightarrow> string list \<Rightarrow> string list option" where
  "br_outer bits v toggle l =
     (if toggle ! bits \<noteq> 1
      then (let l' = l @ [rev v];
                r = br_inner bits 0 v (1 # replicate bits 0)
            in br_outer bits (fst r) (snd r) l')
      else Some l)"

text \<open>A width of \<open>-1\<close> finds \<open>toggle[-1]\<close> set and a smaller one indexes out of range.\<close>

definition binary_range :: "int \<Rightarrow> (py_exn + string list) option" where
  "binary_range bits =
     (if bits < - 1 then Some (Inl IndexError)
      else map_option Inr (br_outer (nat bits) (replicate (nat bits) CHR ''0'')
                             (1 # replicate (nat bits) 0) []))"

text \<open>\<open>rnd k\<close> is the value of \<open>int((2**10) * random.random())\<close> in round \<open>k\<close>.\<close>

fun random_chunks :: "(nat \<Rightarrow> int) \<Rightarrow> nat \<Rightarrow> nat \<Rightarrow> string \<Rightarrow> py_exn + string" where
  "random_chunks rnd k 0 vector = Inr vector"
| "random_chunks rnd k (Suc rounds) vector =
     py_bind (int2bin False (rnd k) 10) (\<lambda>s. random_chunks rnd (Suc k) rounds (vector @ s))"

definition random_vec :: "(nat \<Rightarrow> int) \<Rightarrow> nat \<Rightarrow> int option \<Rightarrow> py_exn + string" where
  "random_vec rnd bits max_value =
     py_bind (random_chunks rnd 0 (bits div 10 + 1) []) (\<lambda>vector.
     py_bind (case max_value of
         None \<Rightarrow> Inr vector
       | Some m \<Rightarrow>
           if m \<noteq> 0 \<and> m < 2 ^ bits - 1
           then py_bind (bin2int vector) (\<lambda>x.
                  if (2::int) ^ bits - 1 = 0 then Inl ZeroDivisionError
                  else int2bin False (x div (2 ^ bits - 1) * m) (int bits))
           else Inr vector) (\<lambda>vector. Inr (slice_upto vector (int bits))))"

fun br_inc :: "string \<Rightarrow> string \<times> bool" where
  "br_inc [] = ([], True)"
| "br_inc (c # cs) =
     (if c = CHR ''0'' then (CHR ''1'' # cs, False)
      else (case br_inc cs of (ds, carry) \<Rightarrow> (CHR ''0'' # ds, carry)))"

lemma br_inner_inc:
  assumes "length p + length cs = bits" "i = length p" "length toggle = Suc bits" "toggle ! i = 1"
    "\<forall>j. i < j \<longrightarrow> j \<le> bits \<longrightarrow> toggle ! j = 0"
  shows "\<exists>t. br_inner bits i (p @ cs) toggle = (p @ fst (br_inc cs), t) \<and>
           (t ! bits = 1) = snd (br_inc cs)"
  using assms
proof (induction cs arbitrary: p i toggle)
  case Nil
  then show ?case by (simp add: br_inner.simps)
next
  case (Cons c cs)
  show ?case
  proof (cases "c = CHR ''0''")
    case True
    have "br_inner bits i (p @ c # cs) toggle
        = br_inner bits (Suc i) (p @ CHR ''1'' # cs) (toggle[Suc i := 0])"
      using Cons.prems True by (simp add: br_inner.simps [of bits "length p"])
    also have "\<dots> = (p @ CHR ''1'' # cs, toggle[Suc i := 0])"
      using Cons.prems by (simp add: br_inner.simps [of bits "Suc (length p)"])
    finally show ?thesis using True Cons.prems by (auto simp: nth_list_update)
  next
    case False
    have step: "br_inner bits i (p @ c # cs) toggle
        = br_inner bits (Suc i) ((p @ [CHR ''0'']) @ cs) (toggle[Suc i := 1])"
      using Cons.prems False by (simp add: br_inner.simps [of bits "length p"] list_update_append)
    have "\<exists>t. br_inner bits (Suc i) ((p @ [CHR ''0'']) @ cs) (toggle[Suc i := 1])
        = ((p @ [CHR ''0'']) @ fst (br_inc cs), t) \<and> (t ! bits = 1) = snd (br_inc cs)"
      using Cons.prems by (intro Cons.IH) auto
    then show ?thesis using step False by (auto split: prod.splits)
  qed
qed

lemma br_inc_value:
  assumes "set v \<subseteq> {CHR ''0'', CHR ''1''}"
  shows "length (fst (br_inc v)) = length v" "set (fst (br_inc v)) \<subseteq> {CHR ''0'', CHR ''1''}"
    "bits_value (rev (fst (br_inc v))) + (if snd (br_inc v) then 2 ^ length v else 0)
       = bits_value (rev v) + 1"
  using assms
  by (induction v rule: br_inc.induct) (auto simp: bits_value_snoc split: prod.splits if_splits)

lemma toggle_nth: "0 < j \<Longrightarrow> j \<le> bits \<Longrightarrow> (1 # replicate bits (0::int)) ! j = 0"
  by (cases j) simp_all

lemma br_outer_range:
  assumes "length v = bits" "set v \<subseteq> {CHR ''0'', CHR ''1''}" "toggle ! bits \<noteq> 1"
  shows "\<exists>ws. br_outer bits v toggle l = Some (l @ ws) \<and>
    map bits_value ws = map int [nat (bits_value (rev v))..<2 ^ bits] \<and>
    (\<forall>w\<in>set ws. length w = bits \<and> set w \<subseteq> {CHR ''0'', CHR ''1''})"
  using assms
proof (induction "2 ^ bits - nat (bits_value (rev v))" arbitrary: v toggle l rule: less_induct)
  case less
  have less_v: "nat (bits_value (rev v)) < 2 ^ bits"
    using bits_value_less [of "rev v"] less.prems(1) by (simp add: nat_less_iff)
  obtain t where t: "br_inner bits 0 v (1 # replicate bits 0) = (fst (br_inc v), t)"
      "(t ! bits = 1) = snd (br_inc v)"
    using br_inner_inc [of "[]" v bits 0 "1 # replicate bits 0"] less.prems(1)
    by (auto simp: toggle_nth)
  have unfold: "br_outer bits v toggle l = br_outer bits (fst (br_inc v)) t (l @ [rev v])"
    using less.prems(3) by (simp add: br_outer.simps [of bits v] t(1))
  note inc = br_inc_value [OF less.prems(2)]
  have upt: "[nat (bits_value (rev v))..<2 ^ bits]
      = nat (bits_value (rev v)) # [Suc (nat (bits_value (rev v)))..<2 ^ bits]"
    using less_v by (rule upt_conv_Cons)
  show ?case
  proof (cases "snd (br_inc v)")
    case True
    then have "bits_value (rev (fst (br_inc v))) + 2 ^ bits = bits_value (rev v) + 1"
      using inc(3) less.prems(1) by simp
    then have "(2::int) ^ bits \<le> bits_value (rev v) + 1"
      using bits_value_nonneg [of "rev (fst (br_inc v))"] by linarith
    then have "int (2 ^ bits) \<le> int (Suc (nat (bits_value (rev v))))" by simp
    then have "2 ^ bits \<le> Suc (nat (bits_value (rev v)))" by (simp only: of_nat_le_iff)
    then show ?thesis using unfold t(2) True less.prems upt by (simp add: br_outer.simps)
  next
    case False
    then have val: "nat (bits_value (rev (fst (br_inc v)))) = Suc (nat (bits_value (rev v)))"
      using inc(3) bits_value_nonneg [of "rev v"] by (simp add: nat_add_distrib)
    have dec: "2 ^ bits - nat (bits_value (rev (fst (br_inc v)))) < 2 ^ bits - nat (bits_value (rev v))"
      unfolding val using less_v by (intro diff_less_mono2) simp_all
    have "length (fst (br_inc v)) = bits" "t ! bits \<noteq> 1"
      using inc(1) less.prems(1) t(2) False by simp_all
    from less.hyps [OF dec this(1) inc(2) this(2), of "l @ [rev v]"] obtain ws
      where "br_outer bits (fst (br_inc v)) t (l @ [rev v]) = Some ((l @ [rev v]) @ ws)"
        "map bits_value ws = map int [nat (bits_value (rev (fst (br_inc v))))..<2 ^ bits]"
        "\<forall>w\<in>set ws. length w = bits \<and> set w \<subseteq> {CHR ''0'', CHR ''1''}"
      by blast
    then show ?thesis using unfold val upt less.prems by (intro exI [of _ "rev v # ws"]) auto
  qed
qed

lemma random_chunks_length:
  assumes "\<forall>k. 0 \<le> rnd k \<and> rnd k < 2 ^ 10" "set v \<subseteq> {CHR ''0'', CHR ''1''}"
  shows "\<exists>w. random_chunks rnd k rounds v = Inr w \<and> length w = length v + 10 * rounds \<and>
           set w \<subseteq> {CHR ''0'', CHR ''1''}"
  using assms(2)
proof (induction rounds arbitrary: k v)
  case (Suc rounds)
  obtain s where s: "int2bin False (rnd k) 10 = Inr s" "length s = 10" "set s \<subseteq> {CHR ''0'', CHR ''1''}"
    using int2bin_cases [of "rnd k" 10 False] assms(1) by auto
  with Suc.prems have "set (v @ s) \<subseteq> {CHR ''0'', CHR ''1''}" by auto
  with Suc.IH [of "v @ s" "Suc k"] s show ?case by auto
qed simp

section \<open>Properties\<close>

text \<open>For a number that is not negative and a positive width, \<open>int2bin\<close> returns exactly
  the string of that many binary digits which \<open>bin2int\<close> maps back to the number, when the
  number fits the width, and raises \<open>ValueError\<close> when it does not; whether the number is an
  \<open>int\<close> or a \<open>long\<close> makes no difference.\<close>

theorem int2bin_roundtrip:
  assumes "0 \<le> i" "0 < n"
  shows "if i < 2 ^ nat n
    then \<exists>s. int2bin lng i n = Inr s \<and> int (length s) = n \<and> bin2int s = Inr i
    else int2bin lng i n = Inl ValueError"
proof (cases "i < 2 ^ nat n")
  case True
  then obtain s where "int2bin lng i n = Inr s" "int (length s) = n" "bits_value s = i"
      "set s \<subseteq> {CHR ''0'', CHR ''1''}"
    using int2bin_cases [OF assms, of lng] by auto
  moreover from this have "bin2int s = Inr i" using assms(2) by (subst bin2int_bits) auto
  ultimately show ?thesis using True by auto
qed (use int2bin_cases [OF assms, of lng] in simp)

theorem int2bin_roundtrip_witness:
  "int2bin True 123 8 = Inr ''01111011'' \<and> int2bin False 15 2 = Inl ValueError \<and>
   (\<exists>s. int2bin True 123 8 = Inr s \<and> int (length s) = 8 \<and> bin2int s = Inr 123)"
proof -
  have "int2bin True 123 8 = Inr ''01111011''" "int2bin False 15 2 = Inl ValueError"
    by (simp_all add: int2bin_def py_hex_def hex_digits.simps hex_digit_def char_lower_def hex2bin_def
      dict_lookup_def slice_upto_def slice_from_def slice_bound_neg char_of_def bit_iff_odd)
  then show ?thesis using int2bin_roundtrip [of 123 8 True] by simp
qed

text \<open>\<open>binary_range\<close> returns for every positive width, and its result is the list of all
  binary strings of that width in ascending order of their value, from 0 to \<open>2^bits - 1\<close>.\<close>

theorem binary_range_all:
  assumes "0 < bits"
  shows "\<exists>l. binary_range bits = Some (Inr l) \<and>
    map bin2int l = map (\<lambda>k. Inr (int k)) [0..<2 ^ nat bits] \<and> (\<forall>s\<in>set l. int (length s) = bits)"
proof -
  have "length (replicate (nat bits) CHR ''0'') = nat bits"
    "set (replicate (nat bits) CHR ''0'') \<subseteq> {CHR ''0'', CHR ''1''}"
    by (simp, simp add: set_replicate_conv_if)
  moreover have "(1 # replicate (nat bits) (0::int)) ! nat bits \<noteq> 1"
    using assms by (simp add: toggle_nth)
  ultimately obtain ws
    where ws: "br_outer (nat bits) (replicate (nat bits) CHR ''0'') (1 # replicate (nat bits) 0) [] = Some ([] @ ws)"
      "map bits_value ws = map int [nat (bits_value (rev (replicate (nat bits) CHR ''0'')))..<2 ^ nat bits]"
      "\<forall>w\<in>set ws. length w = nat bits \<and> set w \<subseteq> {CHR ''0'', CHR ''1''}"
    using br_outer_range [of "replicate (nat bits) CHR ''0''" "nat bits" "1 # replicate (nat bits) 0" "[]"]
    by blast
  have bin: "bin2int w = Inr (bits_value w)" if "w \<in> set ws" for w
    using that ws(3) assms by (intro bin2int_bits) auto
  have "map bin2int ws = map Inr (map bits_value ws)"
    unfolding map_map comp_def using bin by (rule map_cong [OF refl])
  also have "\<dots> = map (\<lambda>k. Inr (int k)) [0..<2 ^ nat bits]"
    unfolding ws(2) by simp
  finally have "map bin2int ws = map (\<lambda>k. Inr (int k)) [0..<2 ^ nat bits]" .
  moreover have "\<forall>s\<in>set ws. int (length s) = bits" using ws(3) assms by simp
  moreover have "binary_range bits = Some (Inr ws)" using ws(1) assms by (simp add: binary_range_def)
  ultimately show ?thesis by blast
qed

theorem binary_range_all_witness:
  "binary_range 2 = Some (Inr [''00'', ''01'', ''10'', ''11'']) \<and>
   (\<exists>l. binary_range 3 = Some (Inr l) \<and> length l = 8)"
proof -
  obtain l where l: "binary_range 3 = Some (Inr l)"
      "map bin2int l = map (\<lambda>k. Inr (int k)) [0..<2 ^ nat 3]"
    using binary_range_all [of 3] by auto
  have "length (map bin2int l) = 8" unfolding l(2) by simp
  then have "length l = 8" by simp
  moreover have "binary_range 2 = Some (Inr [''00'', ''01'', ''10'', ''11''])"
    by (simp add: binary_range_def br_outer.simps br_inner.simps numeral_2_eq_2)
  ultimately show ?thesis using l(1) by blast
qed

text \<open>\<open>permutations\<close> returns every rearrangement of its argument and nothing else, as
  many lists as the factorial of the length.\<close>

theorem permutations_spec:
  "set (permutations xs) = {ys. mset ys = mset xs} \<and> length (permutations xs) = fact (length xs)"
  using permutations_sound permutations_complete length_permutations by blast

text \<open>For a second sequence that is not empty, \<open>is_rotated\<close> raises nothing and answers
  whether that sequence is a rotation of the first.\<close>

theorem is_rotated_spec:
  assumes "seq2 \<noteq> []"
  shows "is_rotated seq1 seq2 = Inr (\<exists>n. seq2 = rotate n seq1)"
  by (rule is_rotated_iff [OF assms])

theorem is_rotated_spec_witness:
  "is_rotated ''ABCA'' ''AABC'' = Inr (\<exists>n. ''AABC'' = rotate n ''ABCA'') \<and>
   is_rotated ''ABCA'' ''AABC'' = Inr True \<and> is_rotated ''ABCA'' ''AACB'' = Inr False"
proof -
  have "is_rotated ''ABCA'' ''AABC'' = Inr True" "is_rotated ''ABCA'' ''AACB'' = Inr False"
    by (simp_all add: is_rotated_def py_index_def py_slice_def slice_upto_def)
  then show ?thesis using is_rotated_spec [of "''AABC''" "''ABCA''"] by simp
qed

end
