(* ===== verification/Rad_Stats.thy ===== *)
theory Rad_Stats
  imports Py_Base Complex_Main
begin

text \<open>
  \<open>src/bindings/python/rad_util.py\<close>: the functions on numbers with a fraction - quantiles, outliers, the area of a
  polygon, ranges and units. Floats are rational numbers here, so that nothing is rounded but where the code rounds;
  how a number is written with a number of places is a parameter.
\<close>

section \<open>Quantiles and outliers\<close>

text \<open>\<open>int(x)\<close>: towards zero.\<close>

definition int_of :: "rat \<Rightarrow> int" where
  "int_of x = (if x < 0 then \<lceil>x\<rceil> else \<lfloor>x\<rfloor>)"

definition quantile :: "rat list \<Rightarrow> rat \<Rightarrow> py_exn + rat" where
  "quantile l p =
     (let l_sort = sort l;
          n = int (length l);
          r = 1 + (of_int n - 1) * p;
          i = int_of r;
          f = r - of_int i
      in if i < n
         then py_bind (py_index l_sort (i - 1)) (\<lambda>a. py_bind (py_index l_sort i) (\<lambda>b. Inr ((1 - f) * a + f * b)))
         else py_index l_sort (i - 1))"

text \<open>The median is computed, and not used.\<close>

definition median :: "rat list \<Rightarrow> py_exn + rat" where
  "median l_sort =
     (let index = int (length l_sort div 2)
      in if even (length l_sort)
         then py_bind (py_index l_sort index) (\<lambda>a. py_bind (py_index l_sort (index - 1)) (\<lambda>b. Inr ((a + b) / 2)))
         else py_index l_sort index)"

definition trim :: "rat list \<Rightarrow> py_exn + rat list" where
  "trim l =
     (let l_sort = sort l
      in py_bind (median l_sort) (\<lambda>_.
         py_bind (quantile l_sort (1 / 4)) (\<lambda>q1.
         py_bind (quantile l_sort (3 / 4)) (\<lambda>q3.
           let iqr_extra = (q3 - q1) * (3 / 2)
           in Inr (filter (\<lambda>x. x \<ge> q1 - iqr_extra \<and> x \<le> q3 + iqr_extra) l_sort)))))"

section \<open>The area of a polygon\<close>

definition scale_point :: "rat \<Rightarrow> rat \<times> rat \<Rightarrow> int \<times> int" where
  "scale_point precision p = (int_of (fst p * precision), int_of (snd p * precision))"

fun area_loop :: "int \<Rightarrow> (int \<times> int) list \<Rightarrow> int" where
  "area_loop area ((x, y) # (x', y') # ps) = area_loop (area + x' * y - y' * x) ((x', y') # ps)"
| "area_loop area ps = area"

text \<open>The points of the caller are scaled and closed in place: what is left of them is returned with the area.\<close>

definition polygon_area :: "rat \<Rightarrow> (rat \<times> rat) list \<Rightarrow> py_exn + rat \<times> (int \<times> int) list" where
  "polygon_area precision points_list =
     (let ps = map (scale_point precision) points_list
      in if ps = [] then Inl IndexError
         else let ps = (if last ps \<noteq> hd ps then ps @ [hd ps] else ps);
                  area = \<bar>area_loop 0 ps div 2\<bar>
              in if precision = 0 then Inl ZeroDivisionError else Inr (of_int area / precision ^ 2, ps))"

section \<open>Ranges\<close>

partial_function (option) range_loop :: "rat \<Rightarrow> rat \<Rightarrow> rat \<Rightarrow> rat list option" where
  "range_loop cur stop step = (if cur < stop then Option.bind (range_loop (cur + step) stop step) (\<lambda>l. Some (cur # l)) else Some [])"

definition float_range :: "rat \<Rightarrow> rat option \<Rightarrow> rat option \<Rightarrow> rat list option" where
  "float_range start stop step =
     (let step = (case step of None \<Rightarrow> 1 | Some s \<Rightarrow> s)
      in case stop of None \<Rightarrow> range_loop 0 start step | Some s \<Rightarrow> range_loop start s step)"

section \<open>Units\<close>

definition si_prefixes :: "(rat \<times> string \<times> string) list" where
  "si_prefixes =
     [(10 ^ 24, ''Y'', ''yotta''), (10 ^ 21, ''Z'', ''zetta''), (10 ^ 18, ''E'', ''exa''), (10 ^ 15, ''P'', ''peta''), (10 ^ 12, ''T'', ''tera''),
      (10 ^ 9, ''G'', ''giga''), (10 ^ 6, ''M'', ''mega''), (10 ^ 3, ''k'', ''kilo''), (1 / 10 ^ 3, ''m'', ''milli''), (1 / 10 ^ 6, ''u'', ''micro''),
      (1 / 10 ^ 9, ''n'', ''nano''), (1 / 10 ^ 12, ''p'', ''pico''), (1 / 10 ^ 15, ''f'', ''femto''), (1 / 10 ^ 18, ''a'', ''atto''),
      (1 / 10 ^ 21, ''z'', ''zepto''), (1 / 10 ^ 24, ''y'', ''yocto'')]"

definition extra_prefixes :: "(rat \<times> string \<times> string) list" where
  "extra_prefixes = [(10 ^ 2, ''h'', ''hecto''), (10, ''da'', ''deka''), (1 / 10, ''d'', ''deci''), (1 / 10 ^ 2, ''c'', ''centi'')]"

definition bin_prefixes :: "(rat \<times> string \<times> string) list" where
  "bin_prefixes = [(2 ^ 10, ''K'', ''kilo''), (2 ^ 20, ''M'', ''mega''), (2 ^ 30, ''G'', ''mega''), (2 ^ 40, ''T'', ''tera''), (2 ^ 50, ''P'', ''peta''), (2 ^ 60, ''E'', ''exa'')]"

definition multipliers :: "bool \<Rightarrow> bool \<Rightarrow> (rat \<times> string \<times> string) list" where
  "multipliers bin extra = sort_key fst ((if bin then bin_prefixes else if extra then si_prefixes @ extra_prefixes else si_prefixes) @ [(1, [], [])])"

definition mult_index :: "rat list \<Rightarrow> rat \<Rightarrow> nat" where
  "mult_index ms v =
     (case List.find (\<lambda>i. ms ! i \<le> v \<and> v < ms ! (i + 1)) [0..<length ms - 1] of
        Some i \<Rightarrow> i
      | None \<Rightarrow> if v < ms ! 0 then 0 else length ms - 1)"

text \<open>Division of an integer by a binary multiplier is integer division.\<close>

definition unit_div :: "bool \<Rightarrow> rat \<Rightarrow> rat \<Rightarrow> rat" where
  "unit_div integral v m = (if integral then of_int \<lfloor>v / m\<rfloor> else v / m)"

text \<open>\<open>round(x, dp)\<close> of Python 2: halves away from zero.\<close>

definition round_places :: "nat \<Rightarrow> rat \<Rightarrow> rat" where
  "round_places dp x = (let y = \<bar>x\<bar> * 10 ^ dp in (if x < 0 then - 1 else 1) * of_int \<lfloor>y + 1 / 2\<rfloor> / 10 ^ dp)"

definition unit_of :: "bool \<Rightarrow> bool \<Rightarrow> bool \<Rightarrow> nat \<Rightarrow> nat option \<Rightarrow> rat \<Rightarrow> nat \<times> rat" where
  "unit_of bin extra integral dp sigfigs value =
     (let ms = map fst (multipliers bin extra);
          i = mult_index ms value;
          new_value = unit_div (integral \<and> bin) value (ms ! i)
      in if sigfigs = None \<and> i < length ms - 1 \<and> round_places dp new_value = round_places dp (ms ! (i + 1) / ms ! i)
         then (i + 1, unit_div (integral \<and> bin) value (ms ! (i + 1)))
         else (i, new_value))"

definition nice_units ::
  "(nat \<Rightarrow> rat \<Rightarrow> string) \<Rightarrow> (nat \<Rightarrow> rat \<Rightarrow> string) \<Rightarrow> bool \<Rightarrow> bool \<Rightarrow> bool \<Rightarrow> bool \<Rightarrow> nat \<Rightarrow> nat option \<Rightarrow> string \<Rightarrow> string \<Rightarrow> rat \<Rightarrow> string" where
  "nice_units format_f format_g bin extra full integral dp sigfigs suff space value =
     (let (i, new_value) = unit_of bin extra integral dp sigfigs value;
          str_value = (case sigfigs of None \<Rightarrow> format_f dp new_value | Some s \<Rightarrow> format_g s new_value);
          label = snd (multipliers bin extra ! i)
      in str_value @ space @ (if full then snd label else fst label) @ suff)"

section \<open>What they return\<close>

lemma quantile_position:
  fixes p :: rat
  assumes "l \<noteq> []" "0 \<le> p" "p \<le> 1"
  shows "let r = (of_nat (length l) - 1) * p; k = nat \<lfloor>r\<rfloor> in k < length l \<and> of_nat k \<le> r \<and> r < of_nat k + 1 \<and> r \<le> of_nat (length l - 1)"
proof -
  define r where "r = (of_nat (length l) - 1) * p"
  have n: "(of_nat (length l) :: rat) \<ge> 1" using assms(1) by (cases l) auto
  then have r: "0 \<le> r" "r \<le> of_nat (length l) - 1" using assms(2,3) by (auto simp: r_def mult_left_le)
  have e: "(of_nat (length l - 1) :: rat) = of_nat (length l) - 1" using assms(1) by (simp add: of_nat_diff Suc_leI)
  have k: "of_nat (nat \<lfloor>r\<rfloor>) = (of_int \<lfloor>r\<rfloor> :: rat)" using r(1) by simp
  have "of_nat (nat \<lfloor>r\<rfloor>) \<le> r" unfolding k by linarith
  moreover have "r < of_nat (nat \<lfloor>r\<rfloor>) + 1" unfolding k by linarith
  moreover have "(of_nat (nat \<lfloor>r\<rfloor>) :: rat) < of_nat (length l)" using calculation(1) r(2) by linarith
  then have "nat \<lfloor>r\<rfloor> < length l" by (simp only: of_nat_less_iff)
  ultimately show ?thesis using r(2) e unfolding r_def [symmetric] Let_def by simp
qed

text \<open>The quantile of a list that is not empty lies between two neighbours of the sorted list, as far along as \<open>p\<close> says.\<close>

theorem quantile_spec:
  assumes "l \<noteq> []" "0 \<le> p" "p \<le> 1"
  shows "\<exists>k f. k < length l \<and> of_nat k + f = (of_nat (length l) - 1) * p \<and> 0 \<le> f \<and> f < 1 \<and> (f > 0 \<longrightarrow> k + 1 < length l) \<and>
    quantile l p = Inr ((1 - f) * sort l ! k + (if f = 0 then 0 else f * sort l ! (k + 1)))"
proof -
  define r where "r = (of_nat (length l) - 1) * p"
  define k where "k = nat \<lfloor>r\<rfloor>"
  have pos: "k < length l" "of_nat k \<le> r" "r < of_nat k + 1" "r \<le> of_nat (length l - 1)"
    using quantile_position [OF assms] unfolding Let_def k_def [symmetric] r_def [symmetric] by blast+
  have r0: "0 \<le> r" using pos(2) by (meson of_nat_0_le_iff order_trans)
  have i: "int_of (1 + r) = int k + 1" using r0 by (simp add: int_of_def k_def)
  have last: "r = of_nat k" if "\<not> k + 1 < length l"
  proof -
    have "k = length l - 1" using that pos(1) by simp
    then show ?thesis using pos(2,4) by simp
  qed
  have "quantile l p = Inr ((1 - (r - of_nat k)) * sort l ! k + (if r - of_nat k = 0 then 0 else (r - of_nat k) * sort l ! (k + 1)))"
  proof (cases "k + 1 < length l")
    case True
    have "py_index (sort l) (int k + 1) = Inr (sort l ! (k + 1))" using True py_index_nonneg [of "k + 1" "sort l"] by (simp add: add.commute)
    then show ?thesis using True pos(1) i by (simp add: quantile_def r_def [symmetric] Let_def)
  next
    case False
    then show ?thesis using last pos(1) i by (simp add: quantile_def r_def [symmetric] Let_def)
  qed
  then show ?thesis using pos last
    by (intro exI [of _ k] exI [of _ "r - of_nat k"]) (auto simp: r_def)
qed

theorem quantile_spec_witness:
  "\<exists>k f. k < length [5, 1, 3 :: rat] \<and> of_nat k + f = (of_nat (length [5, 1, 3 :: rat]) - 1) * (1 / 2) \<and> 0 \<le> f \<and> f < 1 \<and>
    (f > 0 \<longrightarrow> k + 1 < length [5, 1, 3 :: rat]) \<and>
    quantile [5, 1, 3] (1 / 2) = Inr ((1 - f) * sort [5, 1, 3] ! k + (if f = 0 then 0 else f * sort [5, 1, 3] ! (k + 1)))"
  by (rule quantile_spec) simp_all

text \<open>The outliers are those more than half as much again as the distance of the quartiles away from them.\<close>

theorem trim_spec:
  "trim [] = Inl IndexError"
  "l \<noteq> [] \<Longrightarrow> \<exists>q1 q3. quantile (sort l) (1 / 4) = Inr q1 \<and> quantile (sort l) (3 / 4) = Inr q3 \<and>
     trim l = Inr (filter (\<lambda>x. q1 - (q3 - q1) * (3 / 2) \<le> x \<and> x \<le> q3 + (q3 - q1) * (3 / 2)) (sort l))"
proof -
  show "trim [] = Inl IndexError" by (simp add: trim_def median_def py_index_def)
  assume l: "l \<noteq> []"
  then have "sort l \<noteq> []" by (metis length_0_conv length_sort)
  then obtain q1 q3 where q: "quantile (sort l) (1 / 4) = Inr q1" "quantile (sort l) (3 / 4) = Inr q3"
    using quantile_spec [of "sort l" "1 / 4"] quantile_spec [of "sort l" "3 / 4"] by auto
  have half: "\<exists>m. x = m * 2" for x :: rat by (rule exI [of _ "x / 2"]) simp
  have "length l div 2 < length l" "0 < length l" using l by simp_all
  moreover have "length l div 2 - 1 < length l" using calculation by linarith
  moreover have "0 < length l div 2" if "even (length l)" using that calculation(2) by (metis div_greater_zero_iff even_two_times_div_two gr0I mult_0_right not_gr_zero nat_0_less_mult_iff)
  ultimately have "\<exists>m. median (sort l) = Inr m" using half by (auto simp: median_def py_index_def Let_def of_nat_diff)
  then show "\<exists>q1 q3. quantile (sort l) (1 / 4) = Inr q1 \<and> quantile (sort l) (3 / 4) = Inr q3 \<and>
     trim l = Inr (filter (\<lambda>x. q1 - (q3 - q1) * (3 / 2) \<le> x \<and> x \<le> q3 + (q3 - q1) * (3 / 2)) (sort l))"
    using q by (auto simp: trim_def Let_def)
qed

theorem trim_spec_witness:
  "\<exists>q1 q3. quantile (sort [1, 2, 3, 90]) (1 / 4) = Inr q1 \<and> quantile (sort [1, 2, 3, 90]) (3 / 4) = Inr q3 \<and>
     trim [1, 2, 3, 90] = Inr (filter (\<lambda>x. q1 - (q3 - q1) * (3 / 2) \<le> x \<and> x \<le> q3 + (q3 - q1) * (3 / 2)) (sort [1, 2, 3, 90]))"
  by (rule trim_spec(2)) simp

text \<open>The doubled area of a closed polygon, with a sign that says which way round it goes.\<close>

fun cross_sum :: "(int \<times> int) list \<Rightarrow> int" where
  "cross_sum ((x, y) # (x', y') # ps) = x' * y - y' * x + cross_sum ((x', y') # ps)"
| "cross_sum ps = 0"

lemma area_loop_sum: "area_loop a ps = a + cross_sum ps"
  by (induction a ps rule: area_loop.induct) simp_all

lemma cross_sum_append: "cross_sum (ps @ [(a, b), (c, d)]) = cross_sum (ps @ [(a, b)]) + (c * b - d * a)"
proof (induction ps)
  case (Cons p ps)
  obtain x y where p: "p = (x, y)" by (cases p)
  then show ?case using Cons by (cases ps) (auto split: prod.splits)
qed simp

text \<open>The cross products of the points taken the other way round have the opposite sum.\<close>

lemma cross_sum_rev: "cross_sum (rev ps) = - cross_sum ps"
proof (induction ps rule: cross_sum.induct)
  case (1 x y x' y' ps)
  then show ?case using cross_sum_append [of "rev ps" x' y' x y] by simp
qed simp_all

lemma range_loop_result:
  assumes "0 < step"
  shows "\<exists>n. range_loop cur stop step = Some (map (\<lambda>i. cur + of_nat i * step) [0..<n]) \<and> (n = 0 \<or> cur + of_nat (n - 1) * step < stop) \<and> stop \<le> cur + of_nat n * step"
proof (induction "nat \<lceil>(stop - cur) / step\<rceil>" arbitrary: cur rule: less_induct)
  case less
  show ?case
  proof (cases "cur < stop")
    case False
    then show ?thesis by (subst range_loop.simps) (auto intro!: exI [of _ 0])
  next
    case True
    have "(stop - (cur + step)) / step = (stop - cur) / step - 1" using assms by (simp add: field_simps)
    moreover have "(stop - cur) / step > 0" using assms True by simp
    ultimately have "nat \<lceil>(stop - (cur + step)) / step\<rceil> < nat \<lceil>(stop - cur) / step\<rceil>" by linarith
    from less [OF this] obtain n where n: "range_loop (cur + step) stop step = Some (map (\<lambda>i. cur + step + of_nat i * step) [0..<n])"
      "n = 0 \<or> cur + step + of_nat (n - 1) * step < stop" "stop \<le> cur + step + of_nat n * step" by blast
    have "map (\<lambda>i. cur + of_nat i * step) [0..<Suc n] = cur # map (\<lambda>i. cur + step + of_nat i * step) [0..<n]"
      by (simp add: upt_conv_Cons map_Suc_upt [symmetric] comp_def algebra_simps del: upt_Suc)
    moreover have "cur + of_nat (Suc n - 1) * step < stop"
      using n(2) True by (cases n) (auto simp: algebra_simps)
    ultimately show ?thesis using True n
      by (subst range_loop.simps) (auto intro!: exI [of _ "Suc n"] simp: algebra_simps simp del: upt_Suc)
  qed
qed

lemma range_loop_for_ever:
  assumes "step \<le> 0" "cur < stop"
  shows "range_loop cur stop step = None"
proof -
  have "range_loop cur stop step = Some l \<Longrightarrow> \<not> (step \<le> 0 \<and> cur < stop)" for l
  proof (induction l arbitrary: cur)
    case Nil
    then show ?case by (subst (asm) range_loop.simps) (auto split: if_splits simp: bind_eq_Some_conv)
  next
    case (Cons x l)
    then show ?case by (subst (asm) (2) range_loop.simps) (fastforce split: if_splits simp: bind_eq_Some_conv)
  qed
  then show ?thesis using assms by (cases "range_loop cur stop step") blast+
qed

text \<open>A range with a positive step ends, and holds the numbers from the start on that are before the end; with
  another step it never ends unless it is empty.\<close>

theorem float_range_spec:
  "0 < step \<Longrightarrow> \<exists>n. float_range start (Some stop) (Some step) = Some (map (\<lambda>i. start + of_nat i * step) [0..<n]) \<and>
     (n = 0 \<or> start + of_nat (n - 1) * step < stop) \<and> stop \<le> start + of_nat n * step"
  "step \<le> 0 \<Longrightarrow> float_range start (Some stop) (Some step) = (if start < stop then None else Some [])"
  using range_loop_result [of step start stop] range_loop_for_ever [of step start stop] range_loop.simps [of start stop step]
  by (auto simp: float_range_def)

theorem float_range_spec_witness:
  "\<exists>n. float_range 1 (Some 2) (Some (1 / 4)) = Some (map (\<lambda>i. 1 + of_nat i * (1 / 4)) [0..<n]) \<and>
     (n = 0 \<or> 1 + of_nat (n - 1) * (1 / 4) < (2 :: rat)) \<and> (2 :: rat) \<le> 1 + of_nat n * (1 / 4)"
  by (rule float_range_spec(1)) simp

text \<open>The area of a closed polygon is that of its scaled points, rounded down before the sign is dropped: the two ways
  round it can differ by one unit of the scale.\<close>

theorem polygon_area_spec:
  assumes "points \<noteq> []" "hd (map (scale_point precision) points) = last (map (scale_point precision) points)" "precision \<noteq> 0"
  shows "let s = cross_sum (map (scale_point precision) points) in
    polygon_area precision points = Inr (of_int \<bar>s div 2\<bar> / precision ^ 2, map (scale_point precision) points) \<and>
    polygon_area precision (rev points) = Inr (of_int \<bar>(- s) div 2\<bar> / precision ^ 2, rev (map (scale_point precision) points))"
proof -
  have "last (rev (map (scale_point precision) points)) = hd (rev (map (scale_point precision) points))"
    using assms(1,2) by (simp add: last_rev hd_rev)
  then show ?thesis using assms by (simp add: polygon_area_def area_loop_sum cross_sum_rev rev_map [symmetric] Let_def)
qed

theorem polygon_area_spec_witness:
  "polygon_area 1 [(0, 0), (0, 1), (1, 0), (0, 0)] = Inr (0, [(0, 0), (0, 1), (1, 0), (0, 0)]) \<and>
   polygon_area 1 (rev [(0, 0), (0, 1), (1, 0), (0, 0)]) = Inr (1, [(0, 0), (1, 0), (0, 1), (0, 0)])"
  using polygon_area_spec [of "[(0, 0), (0, 1), (1, 0), (0, 0)]" 1]
  by (simp add: scale_point_def int_of_def Let_def)

lemma multipliers_si: "snd (multipliers False False ! 0) = (''y'', ''yocto'')"
  by code_simp

text \<open>Numbers that are not positive are written in the smallest unit.\<close>

theorem nice_units_zero:
  "nice_units format_f format_g False False False False 0 None suff space 0 = format_f 0 0 @ space @ ''y'' @ suff"
proof -
  have "unit_of False False False 0 None 0 = (0, 0)" by code_simp
  then show ?thesis using multipliers_si by (simp add: nice_units_def)
qed

end
