(* ===== verification/Topsort.thy ===== *)
theory Topsort
  imports Rad_Util
begin

text \<open>
  \<open>src/bindings/python/topsort.py\<close>: topological sorting of (parent, child) pairs, the same
  by levels, and the search for cycles.

  The dictionaries \<open>num_parents\<close> and \<open>children\<close> are association lists. \<open>ho\<close> is the order in
  which CPython lists the keys of a dict, arbitrary here. The list \<open>answer\<close>, which the code
  extends while it iterates over it, is split into the part already visited and the part
  still to visit. A generator is the list of what it yields with the exception that ends it.
\<close>

type_synonym 'a parent_counts = "('a, int) dict"
type_synonym 'a children_of = "('a, 'a list) dict"

datatype 'a top_exn =
    CycleError "'a list" "'a parent_counts" "'a children_of"
  | LevelCycleError "'a parent_counts" "'a children_of"
  | PyExn py_exn

section \<open>The parent counts and the children\<close>

definition add_pair :: "'a parent_counts \<times> 'a children_of \<Rightarrow> 'a \<times> 'a \<Rightarrow> 'a parent_counts \<times> 'a children_of" where
  "add_pair st pair =
     (case (st, pair) of ((np, ch), (parent, child)) \<Rightarrow>
        let np1 = (if has_key np parent then np else dict_set np parent 0);
            np2 = (if has_key np1 child then np1 else dict_set np1 child 0);
            np3 = dict_set np2 child (dict_getdefault np2 child 0 + 1)
        in (np3, dict_set ch parent (dict_getdefault ch parent [] @ [child])))"

definition build_pairs :: "('a \<times> 'a) list \<Rightarrow> 'a parent_counts \<times> 'a children_of" where
  "build_pairs pairlist = foldl add_pair ([], []) pairlist"

definition without_parent :: "('a list \<Rightarrow> 'a list) \<Rightarrow> 'a parent_counts \<Rightarrow> 'a list" where
  "without_parent ho np = filter (\<lambda>x. dict_get np x = Some 0) (ho (dict_keys np))"

section \<open>topsort\<close>

definition knock :: "'a \<Rightarrow> 'a parent_counts \<times> 'a list \<Rightarrow> 'a top_exn + 'a parent_counts \<times> 'a list" where
  "knock child st =
     (case st of (np, todo) \<Rightarrow>
        (case dict_get np child of
           None \<Rightarrow> Inl (PyExn KeyError)
         | Some n \<Rightarrow> Inr (dict_set np child (n - 1), if n - 1 = 0 then todo @ [child] else todo)))"

lemma knock_length: "knock c (np, todo) = Inr (np', todo') \<Longrightarrow> length np' = length np"
  by (auto simp: knock_def length_dict_set_present has_key_def split: option.splits)

lemma knocks_length: "py_fold knock cs (np, todo) = Inr (np', todo') \<Longrightarrow> length np' = length np"
proof (induction cs arbitrary: np todo)
  case (Cons c cs)
  then show ?case by (auto simp: knock_length)
qed simp

function topsort_loop ::
  "'a list \<Rightarrow> 'a list \<Rightarrow> 'a parent_counts \<Rightarrow> 'a children_of
     \<Rightarrow> 'a top_exn + 'a list \<times> 'a parent_counts \<times> 'a children_of" where
  "topsort_loop visited [] np ch = Inr (visited, np, ch)"
| "topsort_loop visited (parent # todo) np ch =
     (if \<not> has_key np parent then Inl (PyExn KeyError)
      else let np' = dict_del np parent
           in case dict_get ch parent of
                None \<Rightarrow> topsort_loop (visited @ [parent]) todo np' ch
              | Some cs \<Rightarrow> py_bind (py_fold knock cs (np', todo)) (\<lambda>r.
                  topsort_loop (visited @ [parent]) (snd r) (fst r) (dict_del ch parent)))"
  by pat_completeness auto
termination
  by (relation "measure (\<lambda>(_, _, np, _). length np)")
    (auto simp: length_dict_del dest: knocks_length)

definition topsort :: "('a list \<Rightarrow> 'a list) \<Rightarrow> ('a \<times> 'a) list \<Rightarrow> 'a top_exn + 'a list" where
  "topsort ho pairlist =
     (case build_pairs pairlist of (np, ch) \<Rightarrow>
        py_bind (topsort_loop [] (without_parent ho np) np ch) (\<lambda>(answer, np, ch).
          if np \<noteq> [] then Inl (CycleError answer np ch) else Inr answer))"

section \<open>topsort_levels\<close>

definition dec_child :: "'a \<Rightarrow> 'a parent_counts \<Rightarrow> 'a top_exn + 'a parent_counts" where
  "dec_child child np =
     (case dict_get np child of
        None \<Rightarrow> Inl (PyExn KeyError)
      | Some n \<Rightarrow> Inr (dict_set np child (n - 1)))"

definition level_step ::
  "'a \<Rightarrow> 'a parent_counts \<times> 'a children_of \<Rightarrow> 'a top_exn + 'a parent_counts \<times> 'a children_of" where
  "level_step parent st =
     (case st of (np, ch) \<Rightarrow>
        if \<not> has_key np parent then Inl (PyExn KeyError)
        else let np' = dict_del np parent
             in case dict_get ch parent of
                  None \<Rightarrow> Inr (np', ch)
                | Some cs \<Rightarrow> py_bind (py_fold dec_child cs np') (\<lambda>np''. Inr (np'', dict_del ch parent)))"

lemma decs_length: "py_fold dec_child cs np = Inr np' \<Longrightarrow> length np' = length np"
  by (induction cs arbitrary: np)
    (auto simp: dec_child_def length_dict_set_present has_key_def split: option.splits)

lemma level_step_length: "level_step x (np, ch) = Inr (np', ch') \<Longrightarrow> length np' < length np"
  by (auto simp: level_step_def Let_def length_dict_del split: if_splits option.splits dest!: decs_length)

lemma level_steps_length:
  "py_fold level_step xs (np, ch) = Inr (np', ch') \<Longrightarrow> xs \<noteq> [] \<Longrightarrow> length np' < length np"
proof (induction xs arbitrary: np ch)
  case (Cons x xs)
  then obtain np1 ch1 where 1: "level_step x (np, ch) = Inr (np1, ch1)"
      "py_fold level_step xs (np1, ch1) = Inr (np', ch')"
    by auto
  show ?case
  proof (cases "xs = []")
    case True
    with 1 level_step_length [OF 1(1)] show ?thesis by simp
  qed (use Cons.IH [OF 1(2)] level_step_length [OF 1(1)] in simp)
qed simp

text \<open>The levels yielded and, when an exception ends the generator, that exception.\<close>

function topsort_levels_core ::
  "('a list \<Rightarrow> 'a list) \<Rightarrow> 'a parent_counts \<Rightarrow> 'a children_of \<Rightarrow> 'a list list \<times> 'a top_exn option" where
  "topsort_levels_core ho np ch =
     (let level_parents = without_parent ho np
      in if level_parents = [] then ([], if np \<noteq> [] then Some (LevelCycleError np ch) else None)
         else case py_fold level_step level_parents (np, ch) of
                Inl e \<Rightarrow> ([level_parents], Some e)
              | Inr st \<Rightarrow> (case topsort_levels_core ho (fst st) (snd st) of
                             (levels, e) \<Rightarrow> (level_parents # levels, e)))"
  by auto
termination
  by (relation "measure (\<lambda>(_, np, _). length np)") (auto dest: level_steps_length)

declare topsort_levels_core.simps [simp del]

definition topsort_levels :: "('a list \<Rightarrow> 'a list) \<Rightarrow> ('a \<times> 'a) list \<Rightarrow> 'a list list \<times> 'a top_exn option" where
  "topsort_levels ho pairlist = (case build_pairs pairlist of (np, ch) \<Rightarrow> topsort_levels_core ho np ch)"

section \<open>How the counts relate to the pairs\<close>

definition nodes :: "('a \<times> 'a) list \<Rightarrow> 'a set" where
  "nodes ps = fst ` set ps \<union> snd ` set ps"

definition kids :: "('a \<times> 'a) list \<Rightarrow> 'a \<Rightarrow> 'a list" where
  "kids ps p = map snd (filter (\<lambda>(q, _). q = p) ps)"

definition pcount :: "('a \<times> 'a) list \<Rightarrow> 'a set \<Rightarrow> 'a \<Rightarrow> int" where
  "pcount ps P k = int (length (filter (\<lambda>(p, c). c = k \<and> p \<notin> P) ps))"

text \<open>The state once the parents in \<open>P\<close> have been accounted for.\<close>

definition progress :: "('a \<times> 'a) list \<Rightarrow> 'a set \<Rightarrow> 'a parent_counts \<Rightarrow> 'a children_of \<Rightarrow> bool" where
  "progress ps P np ch \<longleftrightarrow>
     dict_ok np \<and> P \<subseteq> nodes ps \<and>
     (\<forall>k. dict_get np k = (if k \<in> nodes ps - P then Some (pcount ps P k) else None)) \<and>
     (\<forall>p. p \<notin> P \<longrightarrow> dict_get ch p = (if kids ps p = [] then None else Some (kids ps p))) \<and>
     (\<forall>(p, c) \<in> set ps. c \<in> P \<longrightarrow> p \<in> P)"

lemma pcount_nonneg [simp]: "0 \<le> pcount ps P k"
  by (simp add: pcount_def)

lemma pcount_zero: "pcount ps P k = 0 \<longleftrightarrow> (\<forall>p. (p, k) \<in> set ps \<longrightarrow> p \<in> P)"
  by (auto simp: pcount_def filter_empty_conv)

lemma set_kids: "c \<in> set (kids ps p) \<longleftrightarrow> (p, c) \<in> set ps"
  by (force simp: kids_def)

lemma pcount_insert:
  "x \<notin> P \<Longrightarrow> pcount ps P k = pcount ps (insert x P) k + int (count (mset (kids ps x)) k)"
  by (induction ps) (auto simp: pcount_def kids_def)

lemma kids_append: "kids (ps @ qs) p = kids ps p @ kids qs p"
  by (simp add: kids_def)

lemma nodes_append: "nodes (ps @ qs) = nodes ps \<union> nodes qs"
  by (auto simp: nodes_def)

lemma build_pairs_progress: "case build_pairs ps of (np, ch) \<Rightarrow> progress ps {} np ch"
proof (induction ps rule: rev_induct)
  case Nil
  show ?case by (simp add: build_pairs_def progress_def nodes_def kids_def)
next
  case (snoc pc ps)
  obtain p c where pc: "pc = (p, c)" by (cases pc)
  obtain np ch where b: "build_pairs ps = (np, ch)" by (cases "build_pairs ps")
  have pr: "progress ps {} np ch" using snoc by (simp add: b)
  obtain np' ch' where b': "build_pairs (ps @ [pc]) = (np', ch')" by (cases "build_pairs (ps @ [pc])")
  have eq: "add_pair (np, ch) (p, c) = (np', ch')" using b b' by (simp add: build_pairs_def pc)
  have ok: "dict_ok np'" using pr eq by (auto simp: progress_def add_pair_def Let_def)
  have zero: "k \<notin> nodes ps \<Longrightarrow> pcount ps {} k = 0" for k
    by (auto simp: pcount_zero nodes_def image_iff)
  have np: "dict_get np k = (if k \<in> nodes ps then Some (pcount ps {} k) else None)" for k
    using pr by (simp add: progress_def)
  have np': "dict_get np' k =
      (if k \<in> nodes ps \<union> {p, c} then Some (pcount ps {} k + (if k = c then 1 else 0)) else None)" for k
    using eq by (auto simp: add_pair_def Let_def has_key_def dict_getdefault_def np zero)
  have cnt: "pcount (ps @ [pc]) {} k = pcount ps {} k + (if k = c then 1 else 0)" for k
    by (simp add: pcount_def pc)
  have "dict_get ch' q = (if kids (ps @ [pc]) q = [] then None else Some (kids (ps @ [pc]) q))" for q
    using pr eq by (auto simp: progress_def add_pair_def Let_def dict_getdefault_def kids_append kids_def pc)
  moreover have "nodes (ps @ [pc]) = nodes ps \<union> {p, c}" by (auto simp: nodes_append nodes_def pc)
  ultimately show ?case using ok np' cnt by (simp add: b' progress_def)
qed

text \<open>Taking the children of one parent into account.\<close>

lemma knocks_spec:
  assumes "set cs \<subseteq> dom (dict_get np)"
    "\<forall>k n. dict_get np k = Some n \<longrightarrow> 0 \<le> n - int (count (mset cs) k) \<and> (n = 0 \<longleftrightarrow> k \<in> set todo)"
    "distinct todo" "dict_ok np"
  shows "\<exists>np' new. py_fold knock cs (np, todo) = Inr (np', todo @ new) \<and> dict_ok np' \<and>
    (\<forall>k. dict_get np' k = map_option (\<lambda>n. n - int (count (mset cs) k)) (dict_get np k)) \<and>
    distinct (todo @ new) \<and> set new \<subseteq> set cs \<and>
    (\<forall>k n. dict_get np' k = Some n \<longrightarrow> (n = 0 \<longleftrightarrow> k \<in> set (todo @ new)))"
  using assms
proof (induction cs arbitrary: np todo)
  case Nil
  then show ?case by (intro exI [of _ np] exI [of _ "[]"]) (auto simp: option.map_ident)
next
  case (Cons c cs)
  obtain n where n: "dict_get np c = Some n" using Cons.prems(1) by auto
  then have c: "0 \<le> n - 1 - int (count (mset cs) c)" "c \<notin> set todo"
    using Cons.prems(2) by fastforce+
  define np1 and new1 where "np1 = dict_set np c (n - 1)" and "new1 = (if n - 1 = 0 then [c] else [])"
  have step: "knock c (np, todo) = Inr (np1, todo @ new1)"
    by (simp add: knock_def n np1_def new1_def)
  have "\<exists>np' new. py_fold knock cs (np1, todo @ new1) = Inr (np', (todo @ new1) @ new) \<and> dict_ok np' \<and>
    (\<forall>k. dict_get np' k = map_option (\<lambda>n. n - int (count (mset cs) k)) (dict_get np1 k)) \<and>
    distinct ((todo @ new1) @ new) \<and> set new \<subseteq> set cs \<and>
    (\<forall>k n. dict_get np' k = Some n \<longrightarrow> (n = 0 \<longleftrightarrow> k \<in> set ((todo @ new1) @ new)))"
  proof (rule Cons.IH)
    show "set cs \<subseteq> dom (dict_get np1)" using Cons.prems(1) by (auto simp: np1_def)
    show "\<forall>k m. dict_get np1 k = Some m \<longrightarrow>
        0 \<le> m - int (count (mset cs) k) \<and> (m = 0 \<longleftrightarrow> k \<in> set (todo @ new1))"
      using Cons.prems(2) c by (auto simp: np1_def new1_def split: if_splits)
    show "distinct (todo @ new1)" "dict_ok np1"
      using Cons.prems(3,4) c by (auto simp: new1_def np1_def)
  qed
  then obtain np' new where r: "py_fold knock cs (np1, todo @ new1) = Inr (np', (todo @ new1) @ new)"
      "dict_ok np'" "\<forall>k. dict_get np' k = map_option (\<lambda>n. n - int (count (mset cs) k)) (dict_get np1 k)"
      "distinct ((todo @ new1) @ new)" "set new \<subseteq> set cs"
      "\<forall>k n. dict_get np' k = Some n \<longrightarrow> (n = 0 \<longleftrightarrow> k \<in> set ((todo @ new1) @ new))"
    by blast
  have "dict_get np' k = map_option (\<lambda>n. n - int (count (mset (c # cs)) k)) (dict_get np k)" for k
    using r(3) n by (simp add: np1_def)
  then show ?case using r step
    by (intro exI [of _ np'] exI [of _ "new1 @ new"]) (auto simp: new1_def)
qed

lemma progress_kids:
  assumes "progress ps P np ch" "x \<in> nodes ps - P" "pcount ps P x = 0" "(x, c) \<in> set ps"
  shows "c \<in> nodes ps - insert x P"
proof -
  have "c \<notin> P" using assms by (auto simp: progress_def)
  moreover have "c \<noteq> x" using assms by (auto simp: pcount_zero)
  ultimately show ?thesis using assms(4) by (force simp: nodes_def)
qed

lemma progress_step:
  assumes pr: "progress ps P np ch" and x: "x \<in> nodes ps - P" "pcount ps P x = 0"
    and ok: "dict_ok np'"
    and np': "\<forall>k. dict_get np' k =
      map_option (\<lambda>n. n - int (count (mset (kids ps x)) k)) (dict_get (dict_del np x) k)"
    and ch': "\<forall>p. p \<noteq> x \<longrightarrow> dict_get ch' p = dict_get ch p"
  shows "progress ps (insert x P) np' ch'"
proof -
  have "dict_get np' k = (if k \<in> nodes ps - insert x P then Some (pcount ps (insert x P) k) else None)" for k
    using pr np' x pcount_insert [of x P ps k] by (auto simp: progress_def)
  moreover have "\<forall>(p, c) \<in> set ps. c \<in> insert x P \<longrightarrow> p \<in> insert x P"
    using pr x by (auto simp: progress_def pcount_zero)
  ultimately show ?thesis using pr ch' x(1) ok unfolding progress_def by auto
qed

definition parents_first :: "('a \<times> 'a) list \<Rightarrow> 'a list \<Rightarrow> bool" where
  "parents_first ps xs \<longleftrightarrow> (\<forall>as c bs p. xs = as @ c # bs \<longrightarrow> (p, c) \<in> set ps \<longrightarrow> p \<in> set as)"

lemma parents_first_Nil [simp]: "parents_first ps []"
  by (simp add: parents_first_def)

lemma parents_first_snoc:
  "parents_first ps xs \<Longrightarrow> (\<And>p. (p, c) \<in> set ps \<Longrightarrow> p \<in> set xs) \<Longrightarrow> parents_first ps (xs @ [c])"
  unfolding parents_first_def
proof (intro allI impI)
  fix as d bs p
  assume a: "\<forall>as c bs p. xs = as @ c # bs \<longrightarrow> (p, c) \<in> set ps \<longrightarrow> p \<in> set as"
    and b: "\<And>p. (p, c) \<in> set ps \<Longrightarrow> p \<in> set xs" and eq: "xs @ [c] = as @ d # bs" and d: "(p, d) \<in> set ps"
  show "p \<in> set as"
  proof (cases bs rule: rev_cases)
    case Nil
    then show ?thesis using eq b d by simp
  next
    case (snoc bs' e)
    then have "xs = as @ d # bs'" using eq by (simp flip: append_Cons append_assoc)
    then show ?thesis using a d by blast
  qed
qed

lemma topsort_loop_spec:
  assumes "progress ps (set dn) np ch" "distinct (dn @ todo)" "parents_first ps dn"
    "set todo = {k. dict_get np k = Some 0}"
  shows "\<exists>ans np' ch'. topsort_loop dn todo np ch = Inr (ans, np', ch') \<and>
    progress ps (set ans) np' ch' \<and> distinct ans \<and> parents_first ps ans \<and>
    (\<forall>k. dict_get np' k \<noteq> Some 0)"
  using assms
proof (induction "length np" arbitrary: dn todo np ch rule: less_induct)
  case less
  show ?case
  proof (cases todo)
    case Nil
    then show ?thesis using less.prems by auto
  next
    case (Cons x todo')
    have "dict_get np x = Some 0" using Cons less.prems(4) by auto
    then have x: "x \<in> nodes ps - set dn" "pcount ps (set dn) x = 0" "has_key np x"
      using less.prems(1) by (auto simp: progress_def has_key_def split: if_splits)
    have zeros: "set todo' = {k. dict_get (dict_del np x) k = Some 0}"
      using less.prems(2,4) Cons by auto
    have kids_in: "c \<in> nodes ps - insert x (set dn)" if "c \<in> set (kids ps x)" for c
      using progress_kids [OF less.prems(1) x(1,2)] that by (simp add: set_kids)
    have get_np: "dict_get (dict_del np x) k =
        (if k \<in> nodes ps - insert x (set dn) then Some (pcount ps (set dn) k) else None)" for k
      using less.prems(1) by (auto simp: progress_def)
    have "\<exists>np' new. py_fold knock (kids ps x) (dict_del np x, todo') = Inr (np', todo' @ new) \<and> dict_ok np' \<and>
      (\<forall>k. dict_get np' k = map_option (\<lambda>n. n - int (count (mset (kids ps x)) k)) (dict_get (dict_del np x) k)) \<and>
      distinct (todo' @ new) \<and> set new \<subseteq> set (kids ps x) \<and>
      (\<forall>k n. dict_get np' k = Some n \<longrightarrow> (n = 0 \<longleftrightarrow> k \<in> set (todo' @ new)))"
    proof (rule knocks_spec)
      show "set (kids ps x) \<subseteq> dom (dict_get (dict_del np x))" by (rule subsetI) (metis get_np kids_in domI)
      show "\<forall>k n. dict_get (dict_del np x) k = Some n \<longrightarrow>
          0 \<le> n - int (count (mset (kids ps x)) k) \<and> (n = 0 \<longleftrightarrow> k \<in> set todo')"
      proof (intro allI impI)
        fix k n assume n: "dict_get (dict_del np x) k = Some n"
        then have "n = pcount ps (set dn) k" using get_np by (simp split: if_splits)
        with n show "0 \<le> n - int (count (mset (kids ps x)) k) \<and> (n = 0 \<longleftrightarrow> k \<in> set todo')"
          using pcount_insert [of x "set dn" ps k] x(1) zeros by auto
      qed
      show "distinct todo'" "dict_ok (dict_del np x)"
        using less.prems(1,2) Cons by (auto simp: progress_def)
    qed
    then obtain np' new where k: "py_fold knock (kids ps x) (dict_del np x, todo') = Inr (np', todo' @ new)"
        "dict_ok np'" "\<forall>k. dict_get np' k = map_option (\<lambda>n. n - int (count (mset (kids ps x)) k)) (dict_get (dict_del np x) k)"
        "distinct (todo' @ new)" "set new \<subseteq> set (kids ps x)"
        "\<forall>k n. dict_get np' k = Some n \<longrightarrow> (n = 0 \<longleftrightarrow> k \<in> set (todo' @ new))"
      by blast
    define ch' where "ch' = (if kids ps x = [] then ch else dict_del ch x)"
    have run: "topsort_loop dn todo np ch = topsort_loop (dn @ [x]) (todo' @ new) np' ch'"
      using less.prems(1) x(1,3) k(1) by (auto simp: Cons progress_def Let_def ch'_def)
    have pr: "progress ps (set (dn @ [x])) np' ch'"
      using progress_step [OF less.prems(1) x(1,2) k(2,3)] by (simp add: ch'_def)
    have "length np' < length np"
      using knocks_length [OF k(1)] length_dict_del [OF x(3)] by simp
    moreover have "distinct ((dn @ [x]) @ todo' @ new)"
      using k(4,5) kids_in less.prems(2) Cons by auto
    moreover have "parents_first ps (dn @ [x])"
      using less.prems(3) x(2) by (intro parents_first_snoc) (auto simp: pcount_zero)
    moreover have "set (todo' @ new) = {k. dict_get np' k = Some 0}"
    proof -
      have "set todo' \<subseteq> dom (dict_get (dict_del np x))" unfolding zeros by blast
      moreover have "set (kids ps x) \<subseteq> dom (dict_get (dict_del np x))"
        by (rule subsetI) (metis get_np kids_in domI)
      ultimately have "set (todo' @ new) \<subseteq> dom (dict_get (dict_del np x))" using k(5) by auto
      then have "k \<in> dom (dict_get np')" if "k \<in> set (todo' @ new)" for k
        using that unfolding domIff k(3) [rule_format] by (auto simp: domIff subset_iff)
      then have "dict_get np' k = Some 0" if "k \<in> set (todo' @ new)" for k
        using that k(6) by (metis domD)
      moreover have "k \<in> set (todo' @ new)" if "dict_get np' k = Some 0" for k
        using that k(6) by blast
      ultimately show ?thesis by blast
    qed
    ultimately show ?thesis unfolding run using pr by (intro less.hyps)
  qed
qed

text \<open>The loop of \<open>topsort_levels_core\<close> does to the counts what the loop of \<open>topsort\<close> does.\<close>

lemma decs_knocks: "py_fold dec_child cs np = map_sum id fst (py_fold knock cs (np, todo))"
proof (induction cs arbitrary: np todo)
  case (Cons c cs)
  show ?case
  proof (cases "dict_get np c")
    case None
    then show ?thesis by (simp add: dec_child_def knock_def)
  next
    case (Some n)
    have "knock c (np, todo) = Inr (dict_set np c (n - 1), if n - 1 = 0 then todo @ [c] else todo)"
      by (simp add: knock_def Some)
    then show ?thesis using Cons.IH [of "dict_set np c (n - 1)"] by (simp add: dec_child_def Some)
  qed
qed simp

lemma decs_spec:
  assumes "set cs \<subseteq> dom (dict_get np)" "dict_ok np"
    "\<forall>k n. dict_get np k = Some n \<longrightarrow> 0 \<le> n - int (count (mset cs) k)"
  shows "\<exists>np'. py_fold dec_child cs np = Inr np' \<and> dict_ok np' \<and>
    (\<forall>k. dict_get np' k = map_option (\<lambda>n. n - int (count (mset cs) k)) (dict_get np k))"
proof -
  define todo where "todo = filter (\<lambda>k. dict_get np k = Some 0) (dict_keys np)"
  have "\<forall>k n. dict_get np k = Some n \<longrightarrow> (n = 0 \<longleftrightarrow> k \<in> set todo)"
    by (auto simp: todo_def set_dict_keys)
  moreover have "distinct todo" using assms(2) by (simp add: todo_def dict_ok_def)
  ultimately have "\<exists>np' new. py_fold knock cs (np, todo) = Inr (np', todo @ new) \<and> dict_ok np' \<and>
    (\<forall>k. dict_get np' k = map_option (\<lambda>n. n - int (count (mset cs) k)) (dict_get np k)) \<and>
    distinct (todo @ new) \<and> set new \<subseteq> set cs \<and>
    (\<forall>k n. dict_get np' k = Some n \<longrightarrow> (n = 0 \<longleftrightarrow> k \<in> set (todo @ new)))"
    using assms by (intro knocks_spec) simp_all
  then show ?thesis by (auto simp: decs_knocks [of cs np todo])
qed

lemma level_step_progress:
  assumes pr: "progress ps P np ch" and x: "x \<in> nodes ps - P" "pcount ps P x = 0"
  shows "\<exists>np' ch'. level_step x (np, ch) = Inr (np', ch') \<and> progress ps (insert x P) np' ch'"
proof -
  have get_np: "dict_get (dict_del np x) k =
      (if k \<in> nodes ps - insert x P then Some (pcount ps P k) else None)" for k
    using pr by (auto simp: progress_def)
  have sub: "set (kids ps x) \<subseteq> dom (dict_get (dict_del np x))"
    by (rule subsetI) (metis get_np progress_kids [OF pr x] set_kids domI)
  have nn: "0 \<le> n - int (count (mset (kids ps x)) k)" if "dict_get (dict_del np x) k = Some n" for k n
  proof -
    have "n = pcount ps P k" using that get_np [of k] by (simp split: if_splits)
    then show ?thesis using pcount_insert [of x P ps k] x(1) by simp
  qed
  obtain np' where np': "py_fold dec_child (kids ps x) (dict_del np x) = Inr np'" "dict_ok np'"
      "\<forall>k. dict_get np' k = map_option (\<lambda>n. n - int (count (mset (kids ps x)) k)) (dict_get (dict_del np x) k)"
    using decs_spec [OF sub _ ] nn pr by (auto simp: progress_def)
  define ch' where "ch' = (if kids ps x = [] then ch else dict_del ch x)"
  have "has_key np x" using pr x(1) by (simp add: has_key_def progress_def)
  then have "level_step x (np, ch) = Inr (np', ch')"
    using pr x(1) np'(1) by (auto simp: level_step_def Let_def progress_def ch'_def)
  moreover have "progress ps (insert x P) np' ch'"
    using progress_step [OF pr x np'(2,3)] by (simp add: ch'_def)
  ultimately show ?thesis by blast
qed

lemma level_steps_progress:
  assumes "progress ps P np ch" "distinct xs" "\<forall>x\<in>set xs. x \<in> nodes ps - P \<and> pcount ps P x = 0"
  shows "\<exists>np' ch'. py_fold level_step xs (np, ch) = Inr (np', ch') \<and> progress ps (P \<union> set xs) np' ch'"
  using assms
proof (induction xs arbitrary: P np ch)
  case (Cons x xs)
  obtain np1 ch1 where 1: "level_step x (np, ch) = Inr (np1, ch1)" "progress ps (insert x P) np1 ch1"
    using level_step_progress [OF Cons.prems(1), of x] Cons.prems(3) by auto
  have "\<forall>y\<in>set xs. y \<in> nodes ps - insert x P \<and> pcount ps (insert x P) y = 0"
    using Cons.prems by (auto simp: pcount_zero)
  from Cons.IH [OF 1(2) _ this] Cons.prems(2) 1(1) show ?case by auto
qed auto

text \<open>Each level holds exactly the items all of whose parents are in earlier levels.\<close>

fun levels_from :: "('a \<times> 'a) list \<Rightarrow> 'a set \<Rightarrow> 'a list list \<Rightarrow> bool" where
  "levels_from ps P [] \<longleftrightarrow> True"
| "levels_from ps P (l # ls) \<longleftrightarrow>
     l \<noteq> [] \<and> distinct l \<and> set l = {k \<in> nodes ps - P. \<forall>p. (p, k) \<in> set ps \<longrightarrow> p \<in> P} \<and>
     levels_from ps (P \<union> set l) ls"

lemma without_parent_progress:
  assumes "progress ps P np ch" "hash_order ho"
  shows "distinct (without_parent ho np)"
    "set (without_parent ho np) = {k \<in> nodes ps - P. pcount ps P k = 0}"
  using assms by (auto simp: without_parent_def set_dict_keys progress_def dict_ok_def split: if_splits)

lemma topsort_levels_core_spec:
  assumes "hash_order ho" "progress ps P np ch"
  shows "\<exists>ls e np' ch'. topsort_levels_core ho np ch = (ls, e) \<and> levels_from ps P ls \<and>
    progress ps (P \<union> set (concat ls)) np' ch' \<and> (\<forall>k. dict_get np' k \<noteq> Some 0) \<and>
    e = (if np' \<noteq> [] then Some (LevelCycleError np' ch') else None)"
  using assms(2)
proof (induction "length np" arbitrary: P np ch rule: less_induct)
  case less
  note wp = without_parent_progress [OF less.prems assms(1)]
  show ?case
  proof (cases "without_parent ho np = []")
    case True
    have "dict_get np k \<noteq> Some 0" for k
      using wp(2) True less.prems by (auto simp: progress_def)
    then show ?thesis using True less.prems by (auto simp: topsort_levels_core.simps [of ho np])
  next
    case False
    have "\<forall>x\<in>set (without_parent ho np). x \<in> nodes ps - P \<and> pcount ps P x = 0" using wp(2) by auto
    from level_steps_progress [OF less.prems wp(1) this] obtain np1 ch1
      where 1: "py_fold level_step (without_parent ho np) (np, ch) = Inr (np1, ch1)"
        "progress ps (P \<union> set (without_parent ho np)) np1 ch1" by blast
    from less.hyps [OF level_steps_length [OF 1(1) False] 1(2)] obtain ls e np' ch'
      where r: "topsort_levels_core ho np1 ch1 = (ls, e)"
        "levels_from ps (P \<union> set (without_parent ho np)) ls"
        "progress ps (P \<union> set (without_parent ho np) \<union> set (concat ls)) np' ch'"
        "\<forall>k. dict_get np' k \<noteq> Some 0" "e = (if np' \<noteq> [] then Some (LevelCycleError np' ch') else None)"
      by blast
    have "topsort_levels_core ho np ch = (without_parent ho np # ls, e)"
      using False 1(1) r(1) by (simp add: topsort_levels_core.simps [of ho np])
    moreover have "levels_from ps P (without_parent ho np # ls)"
      using False wp r(2) by (auto simp: pcount_zero)
    moreover have "progress ps (P \<union> set (concat (without_parent ho np # ls))) np' ch'"
      using r(3) by (simp add: Un_assoc)
    ultimately show ?thesis using r(4,5) by blast
  qed
qed

section \<open>Cycles and the counts that are left\<close>

lemma stuck_cyclic:
  assumes "progress ps P np ch" "\<forall>k. dict_get np k \<noteq> Some 0" "np \<noteq> []"
  shows "\<not> acyclic (set ps)" "\<forall>k\<in>dom (dict_get np). \<exists>p\<in>dom (dict_get np). (p, k) \<in> set ps"
proof -
  have dom: "dom (dict_get np) = nodes ps - P" using assms(1) by (auto simp: progress_def split: if_splits)
  have "pcount ps P k \<noteq> 0" if "k \<in> nodes ps - P" for k
    using assms(1,2) that by (metis progress_def)
  then have "\<exists>p. (p, k) \<in> set ps \<and> p \<notin> P" if "k \<in> nodes ps - P" for k
    using that by (simp add: pcount_zero) 
  then have par: "\<exists>p\<in>nodes ps - P. (p, k) \<in> set ps" if "k \<in> nodes ps - P" for k
    using that by (force simp: nodes_def)
  then show "\<forall>k\<in>dom (dict_get np). \<exists>p\<in>dom (dict_get np). (p, k) \<in> set ps" unfolding dom by blast
  show "\<not> acyclic (set ps)"
  proof
    assume "acyclic (set ps)"
    then have "wf (set ps)" by (simp add: finite_acyclic_wf)
    moreover obtain k where "k \<in> nodes ps - P"
      using assms(3) dom by (cases np) auto
    ultimately obtain z where "z \<in> nodes ps - P" "\<forall>y. (y, z) \<in> set ps \<longrightarrow> y \<notin> nodes ps - P"
      by (rule wfE_min) blast+
    then show False using par by blast
  qed
qed

lemma parents_first_trancl:
  assumes "parents_first ps xs" "(p, c) \<in> (set ps)\<^sup>+"
  shows "xs = as @ c # bs \<Longrightarrow> p \<in> set as"
  using assms(2)
proof (induction arbitrary: as bs rule: trancl_induct)
  case (base y)
  then show ?case using assms(1) by (auto simp: parents_first_def)
next
  case (step y z)
  then have "y \<in> set as" using assms(1) by (auto simp: parents_first_def)
  then obtain as1 as2 where "as = as1 @ y # as2" by (meson split_list)
  then show ?case using step.IH [of as1 "as2 @ z # bs"] step.prems by auto
qed

lemma parents_first_acyclic:
  assumes "parents_first ps xs" "distinct xs" "set xs = nodes ps"
  shows "acyclic (set ps)"
proof (rule acyclicI, rule allI, rule notI)
  fix x assume x: "(x, x) \<in> (set ps)\<^sup>+"
  then have "x \<in> set xs" unfolding assms(3) nodes_def by (metis Un_iff fst_conv image_eqI tranclD)
  then obtain as bs where "xs = as @ x # bs" by (meson split_list)
  then show False using parents_first_trancl [OF assms(1) x] assms(2) by auto
qed

section \<open>find_cycles\<close>

text \<open>
  \<open>paths\<close> is the stack, its top at the end of the list. \<open>is_rotated\<close> cannot raise here: the
  cycles compared are not empty. A loop over the stack ends because a path grows by a child
  it does not hold yet.
\<close>

definition is_dup :: "'a list list \<Rightarrow> 'a list \<Rightarrow> bool" where
  "is_dup cycles cycle = list_ex (\<lambda>other. is_rotated other cycle = Inr True) cycles"

fun path_index :: "'a list \<Rightarrow> 'a \<Rightarrow> nat" where
  "path_index [] c = 0"
| "path_index (x # xs) c = (if x = c then 0 else Suc (path_index xs c))"

definition fc_child ::
  "'a list \<Rightarrow> 'a list list \<times> 'a list list \<times> 'a set \<Rightarrow> 'a \<Rightarrow> 'a list list \<times> 'a list list \<times> 'a set" where
  "fc_child path st child =
     (case st of (paths, cycles, visited) \<Rightarrow>
        if child \<in> set path
        then let cycle = drop (path_index path child) path
             in if is_dup cycles cycle then (paths, cycles, visited)
                else (paths, cycles @ [cycle], visited)
        else (paths @ [path @ [child]], cycles, insert child visited))"

definition all_kids :: "('a, 'a list) dict \<Rightarrow> 'a set" where
  "all_kids pc = \<Union> (set ` snd ` set pc)"

definition room :: "('a, 'a list) dict \<Rightarrow> 'a list \<Rightarrow> nat" where
  "room pc path = card (all_kids pc - set path)"

lemma finite_all_kids [simp]: "finite (all_kids pc)"
  by (auto simp: all_kids_def)

lemma fc_children_paths:
  "fst (foldl (fc_child path) (paths, cycles, visited) cs)
     = paths @ map (\<lambda>c. path @ [c]) (filter (\<lambda>c. c \<notin> set path) cs)"
  by (induction cs arbitrary: paths cycles visited) (auto simp: fc_child_def Let_def)

lemma room_less:
  assumes "dict_get pc k = Some cs" "c \<in> set cs" "c \<notin> set path"
  shows "room pc (path @ [c]) < room pc path"
proof -
  have "c \<in> all_kids pc" using assms(1,2) by (force simp: all_kids_def dest: map_of_SomeD)
  with assms(3) show ?thesis unfolding room_def by (intro psubset_card_mono) auto
qed

lemma pop_smaller:
  assumes "paths \<noteq> []" "\<forall>p\<in>set new. room pc p < room pc (last paths)"
  shows "(image_mset (room pc) (mset (butlast paths @ new)), image_mset (room pc) (mset paths)) \<in> mult less_than"
proof -
  obtain rest path where p: "paths = rest @ [path]" using assms(1) by (cases paths rule: rev_cases) auto
  have "(image_mset (room pc) (mset rest) + image_mset (room pc) (mset new),
      image_mset (room pc) (mset rest) + {#room pc path#}) \<in> mult less_than"
    using assms(2) by (intro one_step_implies_mult) (auto simp: p)
  then show ?thesis by (simp add: p)
qed

function fc_loop ::
  "('a, 'a list) dict \<Rightarrow> 'a list list \<Rightarrow> 'a list list \<Rightarrow> 'a set \<Rightarrow> 'a list list \<times> 'a set" where
  "fc_loop pc paths cycles visited =
     (if paths = [] then (cycles, visited)
      else let path = last paths; rest = butlast paths
           in case dict_get pc (last path) of
                None \<Rightarrow> fc_loop pc rest cycles visited
              | Some children \<Rightarrow>
                  (let st = foldl (fc_child path) (rest, cycles, visited) children
                   in fc_loop pc (fst st) (fst (snd st)) (snd (snd st))))"
  by auto
termination
proof (relation "inv_image (mult less_than) (\<lambda>(pc, paths, _, _). image_mset (room pc) (mset paths))",
    goal_cases)
  case 1
  show ?case by (intro wf_inv_image wf_mult) simp
next
  case (2 pc paths cycles visited path rest)
  then show ?case using pop_smaller [of paths "[]" pc] by simp
next
  case (3 pc paths cycles visited path rest cs st)
  then have "fst st = rest @ map (\<lambda>c. path @ [c]) (filter (\<lambda>c. c \<notin> set path) cs)"
    by (simp add: fc_children_paths)
  then show ?case using 3 room_less [of pc "last path" cs _ path]
      pop_smaller [of paths "map (\<lambda>c. path @ [c]) (filter (\<lambda>c. c \<notin> set path) cs)" pc]
    by auto
qed

declare fc_loop.simps [simp del]

definition fc_start ::
  "('a, 'a list) dict \<Rightarrow> 'a list list \<times> 'a set \<Rightarrow> 'a \<Rightarrow> 'a list list \<times> 'a set" where
  "fc_start pc st parent =
     (case st of (cycles, visited) \<Rightarrow>
        if parent \<in> visited then (cycles, visited) else fc_loop pc [[parent]] cycles visited)"

definition find_cycles :: "('a list \<Rightarrow> 'a list) \<Rightarrow> ('a, 'a list) dict \<Rightarrow> 'a list list" where
  "find_cycles ho pc = fst (foldl (fc_start pc) ([], {}) (ho (dict_keys pc)))"

subsection \<open>What find_cycles finds\<close>

definition edge :: "('a, 'a list) dict \<Rightarrow> 'a \<Rightarrow> 'a \<Rightarrow> bool" where
  "edge pc p c = (case dict_get pc p of None \<Rightarrow> False | Some cs \<Rightarrow> c \<in> set cs)"

definition is_path :: "('a, 'a list) dict \<Rightarrow> 'a list \<Rightarrow> bool" where
  "is_path pc p \<longleftrightarrow> p \<noteq> [] \<and> distinct p \<and> successively (edge pc) p"

definition is_cycle :: "('a, 'a list) dict \<Rightarrow> 'a list \<Rightarrow> bool" where
  "is_cycle pc c \<longleftrightarrow> is_path pc c \<and> edge pc (last c) (hd c)"

definition covers :: "'a list list \<Rightarrow> 'a list \<Rightarrow> bool" where
  "covers cycles c \<longleftrightarrow> (\<exists>other\<in>set cycles. \<exists>n. c = rotate n other)"

definition good_cycles :: "('a, 'a list) dict \<Rightarrow> 'a list list \<Rightarrow> bool" where
  "good_cycles pc cycles \<longleftrightarrow>
     (\<forall>c\<in>set cycles. is_cycle pc c) \<and> sorted_wrt (\<lambda>a b. \<nexists>n. b = rotate n a) cycles"

lemma is_dup_covers: "c \<noteq> [] \<Longrightarrow> is_dup cycles c = covers cycles c"
  by (auto simp: is_dup_def covers_def is_rotated_iff list_ex_iff)

lemma covers_mono: "covers cs c \<Longrightarrow> set cs \<subseteq> set ds \<Longrightarrow> covers ds c"
  by (auto simp: covers_def)

lemma path_index_drop: "c \<notin> set a \<Longrightarrow> drop (path_index (a @ c # b) c) (a @ c # b) = c # b"
  by (induction a) auto

lemma path_index_split:
  "c \<in> set p \<Longrightarrow> \<exists>a b. p = a @ c # b \<and> c \<notin> set a \<and> drop (path_index p c) p = c # b"
  using path_index_drop by (metis split_list_first)

lemma closing_cycle:
  assumes "is_path pc p" "edge pc (last p) c" "c \<in> set p"
  shows "is_cycle pc (drop (path_index p c) p)"
proof -
  obtain a b where p: "p = a @ c # b" and d: "drop (path_index p c) p = c # b"
    using path_index_split [OF assms(3)] by blast
  show ?thesis using assms(1,2) unfolding d is_cycle_def is_path_def
    by (auto simp: p successively_append_iff)
qed

lemma fc_child_good:
  assumes "is_path pc path" "edge pc (last path) child" "good_cycles pc cycles"
    "fc_child path (paths, cycles, visited) child = (paths', cycles', visited')"
  shows "good_cycles pc cycles' \<and> set cycles \<subseteq> set cycles' \<and>
    (child \<in> set path \<longrightarrow> covers cycles' (drop (path_index path child) path))"
proof (cases "child \<in> set path")
  case True
  define cycle where "cycle = drop (path_index path child) path"
  have c: "is_cycle pc cycle" using closing_cycle [OF assms(1,2) True] by (simp add: cycle_def)
  then have ne: "cycle \<noteq> []" by (simp add: is_cycle_def is_path_def)
  have cyc: "cycles' = (if covers cycles cycle then cycles else cycles @ [cycle])"
    using assms(4) True by (auto simp: fc_child_def Let_def is_dup_covers ne simp flip: cycle_def split: if_splits)
  have self: "covers (cycles @ [cycle]) cycle"
    unfolding covers_def by (intro bexI [of _ cycle] exI [of _ 0]) auto
  have "good_cycles pc cycles'"
    using assms(3) c by (auto simp: cyc good_cycles_def sorted_wrt_append covers_def)
  then show ?thesis using self cyc by (auto simp flip: cycle_def)
next
  case False
  then show ?thesis using assms(3,4) by (auto simp: fc_child_def)
qed

lemma fc_children_good:
  assumes "is_path pc path" "\<forall>c\<in>set cs. edge pc (last path) c" "good_cycles pc cycles"
    "foldl (fc_child path) (paths, cycles, visited) cs = (paths', cycles', visited')"
  shows "good_cycles pc cycles' \<and> set cycles \<subseteq> set cycles' \<and> visited' = visited \<union> (set cs - set path) \<and>
    (\<forall>c\<in>set cs. c \<in> set path \<longrightarrow> covers cycles' (drop (path_index path c) path))"
  using assms(2-4)
proof (induction cs arbitrary: paths cycles visited)
  case (Cons c cs)
  obtain paths1 cycles1 visited1 where 1: "fc_child path (paths, cycles, visited) c = (paths1, cycles1, visited1)"
    by (metis prod_cases3)
  have v1: "visited1 = visited \<union> ({c} - set path)"
    using 1 by (auto simp: fc_child_def Let_def split: if_splits)
  have g: "good_cycles pc cycles1 \<and> set cycles \<subseteq> set cycles1 \<and>
      (c \<in> set path \<longrightarrow> covers cycles1 (drop (path_index path c) path))"
    using fc_child_good [OF assms(1) _ Cons.prems(2) 1] Cons.prems(1) by simp
  have "foldl (fc_child path) (paths1, cycles1, visited1) cs = (paths', cycles', visited')"
    using Cons.prems(3) 1 by simp
  from Cons.IH [OF _ _ this] Cons.prems(1) g
  have r: "good_cycles pc cycles' \<and> set cycles1 \<subseteq> set cycles' \<and> visited' = visited1 \<union> (set cs - set path) \<and>
      (\<forall>c\<in>set cs. c \<in> set path \<longrightarrow> covers cycles' (drop (path_index path c) path))" by simp
  then have "c \<in> set path \<longrightarrow> covers cycles' (drop (path_index path c) path)"
    using g by (auto intro: covers_mono)
  then show ?case using g r v1 by auto
qed simp

definition closed_under :: "('a, 'a list) dict \<Rightarrow> 'a list list \<Rightarrow> 'a list \<Rightarrow> bool" where
  "closed_under pc cycles p \<longleftrightarrow>
     (\<forall>q c. is_path pc (p @ q) \<longrightarrow> edge pc (last (p @ q)) c \<longrightarrow> c \<in> set (p @ q) \<longrightarrow>
        covers cycles (drop (path_index (p @ q) c) (p @ q)))"

lemma closed_under_mono: "closed_under pc cs p \<Longrightarrow> set cs \<subseteq> set ds \<Longrightarrow> closed_under pc ds p"
  unfolding closed_under_def by (meson covers_mono)

definition reach :: "('a, 'a list) dict \<Rightarrow> 'a \<Rightarrow> 'a \<Rightarrow> bool" where
  "reach pc = (edge pc)\<^sup>*\<^sup>*"

lemma closed_under_extend:
  assumes "\<forall>c. edge pc (last p) c \<longrightarrow> c \<in> set p \<longrightarrow> covers cycles (drop (path_index p c) p)"
    "\<forall>c. edge pc (last p) c \<longrightarrow> c \<notin> set p \<longrightarrow> closed_under pc cycles (p @ [c])" "p \<noteq> []"
  shows "closed_under pc cycles p"
  unfolding closed_under_def
proof (intro allI impI)
  fix q c assume q: "is_path pc (p @ q)" "edge pc (last (p @ q)) c" "c \<in> set (p @ q)"
  show "covers cycles (drop (path_index (p @ q) c) (p @ q))"
  proof (cases q)
    case Nil
    then show ?thesis using q assms(1) by simp
  next
    case (Cons d q')
    then have "edge pc (last p) d" "d \<notin> set p"
      using q(1) assms(3) by (auto simp: is_path_def successively_append_iff)
    then have "closed_under pc cycles (p @ [d])" using assms(2) by blast
    from this [unfolded closed_under_def, rule_format, of q' c] show ?thesis using q Cons by simp
  qed
qed

lemma fc_loop_spec:
  assumes "\<forall>p\<in>set paths. is_path pc p \<and> (\<forall>x\<in>set p. reach pc r x)" "good_cycles pc cycles"
    "fc_loop pc paths cycles visited = (cycles', visited')"
  shows "good_cycles pc cycles' \<and> set cycles \<subseteq> set cycles' \<and> (\<forall>p\<in>set paths. closed_under pc cycles' p) \<and>
    (\<forall>v\<in>visited'. v \<in> visited \<or> reach pc r v)"
  using assms
proof (induction pc paths cycles visited rule: fc_loop.induct)
  case (1 pc paths cycles visited)
  show ?case
  proof (cases "paths = []")
    case True
    then show ?thesis using 1 by (simp add: fc_loop.simps)
  next
    case False
    define path rest where "path = last paths" and "rest = butlast paths"
    have paths: "paths = rest @ [path]" using False by (simp add: path_def rest_def)
    have path: "is_path pc path" "\<forall>x\<in>set path. reach pc r x" "path \<noteq> []"
      using 1(3) paths by (auto simp: is_path_def)
    show ?thesis
    proof (cases "dict_get pc (last path)")
      case None
      then have "fc_loop pc rest cycles visited = (cycles', visited')"
        using 1(5) False by (simp add: fc_loop.simps [of pc paths] Let_def path_def rest_def)
      with None 1(1) [OF False path_def rest_def] 1(3,4) paths
      have r: "good_cycles pc cycles' \<and> set cycles \<subseteq> set cycles' \<and> (\<forall>p\<in>set rest. closed_under pc cycles' p) \<and>
          (\<forall>v\<in>visited'. v \<in> visited \<or> reach pc r v)" by simp
      moreover have "closed_under pc cycles' path"
        using None path(3) by (intro closed_under_extend) (auto simp: edge_def)
      ultimately show ?thesis by (simp add: paths)
    next
      case (Some cs)
      obtain paths1 cycles1 visited1
        where st: "foldl (fc_child path) (rest, cycles, visited) cs = (paths1, cycles1, visited1)"
        by (metis prod_cases3)
      have edges: "edge pc (last path) c = (c \<in> set cs)" for c by (simp add: edge_def Some)
      have g: "good_cycles pc cycles1 \<and> set cycles \<subseteq> set cycles1 \<and> visited1 = visited \<union> (set cs - set path) \<and>
          (\<forall>c\<in>set cs. c \<in> set path \<longrightarrow> covers cycles1 (drop (path_index path c) path))"
        by (rule fc_children_good [OF path(1) _ 1(4) st]) (simp add: edges)
      have p1: "paths1 = rest @ map (\<lambda>c. path @ [c]) (filter (\<lambda>c. c \<notin> set path) cs)"
        using fc_children_paths [of path rest cycles visited cs] st by simp
      have kid: "reach pc r c" if "c \<in> set cs" for c
      proof -
        have "reach pc r (last path)" using path(2,3) by simp
        then show ?thesis using edges [of c] that unfolding reach_def by (meson rtranclp.rtrancl_into_rtrancl)
      qed
      have good1: "\<forall>p\<in>set paths1. is_path pc p \<and> (\<forall>x\<in>set p. reach pc r x)"
        using 1(3) path kid by (auto simp: p1 paths is_path_def successively_append_iff edges)
      have "fc_loop pc paths1 cycles1 visited1 = (cycles', visited')"
        using 1(5) False Some st by (simp add: fc_loop.simps [of pc paths] Let_def path_def rest_def)
      with 1(2) [OF False path_def rest_def Some refl] st good1 g
      have r: "good_cycles pc cycles' \<and> set cycles1 \<subseteq> set cycles' \<and> (\<forall>p\<in>set paths1. closed_under pc cycles' p) \<and>
          (\<forall>v\<in>visited'. v \<in> visited1 \<or> reach pc r v)" by simp
      have "closed_under pc cycles' path"
      proof (rule closed_under_extend)
        show "\<forall>c. edge pc (last path) c \<longrightarrow> c \<in> set path \<longrightarrow> covers cycles' (drop (path_index path c) path)"
          using g r by (auto simp: edges intro: covers_mono)
        show "\<forall>c. edge pc (last path) c \<longrightarrow> c \<notin> set path \<longrightarrow> closed_under pc cycles' (path @ [c])"
          using r by (auto simp: edges p1)
      qed (rule path(3))
      then show ?thesis using r g kid by (auto simp: paths p1)
    qed
  qed
qed

lemma fc_starts_spec:
  assumes "\<forall>v\<in>visited. \<exists>r\<in>S. reach pc r v" "\<forall>r\<in>S. closed_under pc cycles [r]" "good_cycles pc cycles"
    "foldl (fc_start pc) (cycles, visited) ks = (cycles', visited')"
  shows "good_cycles pc cycles' \<and> (\<forall>k\<in>set ks \<union> S. \<exists>r. reach pc r k \<and> closed_under pc cycles' [r])"
  using assms
proof (induction ks arbitrary: S cycles visited)
  case Nil
  then show ?case by (auto simp: reach_def)
next
  case (Cons k ks)
  show ?case
  proof (cases "k \<in> visited")
    case True
    then have "fc_start pc (cycles, visited) k = (cycles, visited)" by (simp add: fc_start_def)
    then have "foldl (fc_start pc) (cycles, visited) ks = (cycles', visited')"
      using Cons.prems(4) by simp
    from Cons.IH [OF Cons.prems(1-3) this]
    have r: "good_cycles pc cycles' \<and> (\<forall>k\<in>set ks \<union> S. \<exists>r. reach pc r k \<and> closed_under pc cycles' [r])" .
    obtain s where "s \<in> S" "reach pc s k" using Cons.prems(1) True by blast
    moreover obtain r' where "reach pc r' s" "closed_under pc cycles' [r']" using r \<open>s \<in> S\<close> by blast
    ultimately have "reach pc r' k" by (auto simp: reach_def)
    then show ?thesis using r \<open>closed_under pc cycles' [r']\<close> by auto
  next
    case False
    obtain cycles1 visited1 where l: "fc_loop pc [[k]] cycles visited = (cycles1, visited1)"
      by (cases "fc_loop pc [[k]] cycles visited")
    have "\<forall>p\<in>set [[k]]. is_path pc p \<and> (\<forall>x\<in>set p. reach pc k x)"
      by (simp add: is_path_def reach_def)
    from fc_loop_spec [OF this Cons.prems(3) l]
    have g: "good_cycles pc cycles1" "set cycles \<subseteq> set cycles1" "closed_under pc cycles1 [k]"
      "\<forall>v\<in>visited1. v \<in> visited \<or> reach pc k v" by simp_all
    have "fc_start pc (cycles, visited) k = (cycles1, visited1)" using False l by (simp add: fc_start_def)
    then have "foldl (fc_start pc) (cycles1, visited1) ks = (cycles', visited')"
      using Cons.prems(4) by simp
    note run = this
    have "\<forall>v\<in>visited1. \<exists>r\<in>insert k S. reach pc r v" using g(4) Cons.prems(1) by blast
    moreover have "\<forall>r\<in>insert k S. closed_under pc cycles1 [r]"
      using g(2,3) Cons.prems(2) closed_under_mono by blast
    ultimately have "good_cycles pc cycles' \<and>
        (\<forall>k\<in>set ks \<union> insert k S. \<exists>r. reach pc r k \<and> closed_under pc cycles' [r])"
      by (rule Cons.IH [OF _ _ g(1) run])
    then show ?thesis by simp
  qed
qed

lemma path_into:
  assumes "reach pc r v" "v \<in> C"
  shows "\<exists>q c. is_path pc (q @ [c]) \<and> c \<in> C \<and> set q \<inter> C = {} \<and> hd (q @ [c]) = r"
  using assms(1) unfolding reach_def
proof (induction rule: converse_rtranclp_induct)
  case base
  then show ?case using assms(2) by (intro exI [of _ "[]"] exI [of _ v]) (simp add: is_path_def)
next
  case (step y z)
  then obtain q c where q: "is_path pc (q @ [c])" "c \<in> C" "set q \<inter> C = {}" "hd (q @ [c]) = z" by blast
  consider "y \<in> C" | "y \<notin> C" "y \<in> set q" | "y \<notin> C" "y \<notin> set q" by blast
  then show ?case
  proof cases
    case 1
    then show ?thesis by (intro exI [of _ "[]"] exI [of _ y]) (simp add: is_path_def)
  next
    case 2
    then obtain a b where "q = a @ y # b" by (meson split_list)
    then show ?thesis using q
      by (intro exI [of _ "y # b"] exI [of _ c]) (auto simp: is_path_def successively_append_iff)
  next
    case 3
    then have "is_path pc ((y # q) @ [c])"
      using q step(1) by (cases q) (auto simp: is_path_def)
    then show ?thesis using q 3 by (intro exI [of _ "y # q"] exI [of _ c]) auto
  qed
qed

lemma covers_rotate:
  assumes "covers cycles (rotate n c)"
  shows "covers cycles c"
proof -
  obtain other m where o: "other \<in> set cycles" "rotate n c = rotate m other" using assms by (auto simp: covers_def)
  have "c = rotate (length c - n mod length c) (rotate n c)"
    by (cases "c = []") (simp_all add: rotate_rotate rotate_conv_mod [of n c] less_imp_le)
  then have "c = rotate (length c - n mod length c + m) other" using o(2) by (simp add: rotate_rotate)
  then show ?thesis using o(1) by (auto simp: covers_def)
qed

lemma cycle_rotates:
  assumes "is_cycle pc c" "x \<in> set c"
  shows "\<exists>b a. c = a @ x # b \<and> is_cycle pc (x # b @ a) \<and> x # b @ a = rotate (length a) c"
proof -
  obtain a b where c: "c = a @ x # b" using assms(2) by (meson split_list)
  have "is_cycle pc (x # b @ a)"
    using assms(1) successively_append_iff [of "edge pc" a "x # b"] successively_append_iff [of "edge pc" "x # b" a]
    by (cases "a = []") (auto simp: c is_cycle_def is_path_def simp del: successively.simps)
  then show ?thesis using rotate_append [of a "x # b"]
    by (intro exI [of _ b] exI [of _ a]) (simp add: c)
qed

lemma cycle_covered:
  assumes c: "is_cycle pc c" and starts: "\<forall>k\<in>dom (dict_get pc). \<exists>r. reach pc r k \<and> closed_under pc cycles [r]"
  shows "covers cycles c"
proof -
  have "last c \<in> dom (dict_get pc)" using c by (auto simp: is_cycle_def edge_def split: option.splits)
  then obtain r where r: "reach pc r (last c)" "closed_under pc cycles [r]" using starts by blast
  have "last c \<in> set c" using c by (simp add: is_cycle_def is_path_def)
  from path_into [OF r(1) this] obtain q x
    where q: "is_path pc (q @ [x])" "x \<in> set c" "set q \<inter> set c = {}" "hd (q @ [x]) = r" by blast
  from cycle_rotates [OF c q(2)] obtain a b
    where rot: "is_cycle pc (x # b @ a)" "x # b @ a = rotate (length a) c" "c = a @ x # b" by blast
  have xq: "x \<notin> set q" using q(1) by (auto simp: is_path_def)
  have path: "is_path pc (q @ x # b @ a)"
    using q(1,3) rot(1,3) successively_append_iff [of "edge pc" q "[x]"]
      successively_append_iff [of "edge pc" q "x # b @ a"]
    by (auto simp: is_cycle_def is_path_def)
  obtain t where t: "q @ x # b @ a = [r] @ t" using q(4) by (cases q) auto
  have "edge pc (last (q @ x # b @ a)) x" using rot(1) by (simp add: is_cycle_def)
  then have "edge pc (last ([r] @ t)) x" unfolding t .
  moreover have "x \<in> set (q @ x # b @ a)" by simp
  then have "x \<in> set ([r] @ t)" unfolding t .
  ultimately have "covers cycles (drop (path_index ([r] @ t) x) ([r] @ t))"
    using r(2) path unfolding closed_under_def t by blast
  then have "covers cycles (x # b @ a)" unfolding t [symmetric] by (simp only: path_index_drop [OF xq])
  then show ?thesis using covers_rotate rot(2) by metis
qed

lemma levels_from_wf:
  assumes "levels_from ps P ls" "\<forall>(p, c) \<in> set ps. c \<in> P \<longrightarrow> p \<in> P" "wf (set ps \<inter> UNIV \<times> P)"
    "nodes ps \<subseteq> P \<union> set (concat ls)"
  shows "wf (set ps)"
  using assms
proof (induction ps P ls rule: levels_from.induct)
  case (1 ps P)
  then have "set ps \<inter> UNIV \<times> P = set ps" by (force simp: nodes_def)
  then show ?case using 1 by simp
next
  case (2 ps P l ls)
  have l: "set l = {k \<in> nodes ps - P. \<forall>p. (p, k) \<in> set ps \<longrightarrow> p \<in> P}" using 2(2) by simp
  have split: "set ps \<inter> UNIV \<times> (P \<union> set l) = (set ps \<inter> UNIV \<times> P) \<union> (set ps \<inter> P \<times> set l)"
    using l by auto
  have "wf (set ps \<inter> P \<times> set l)"
  proof (rule wfUNIVI)
    fix Q x
    assume H: "\<forall>x. (\<forall>y. (y, x) \<in> set ps \<inter> P \<times> set l \<longrightarrow> Q y) \<longrightarrow> Q x"
    have "Q y" if "y \<in> P" for y using H l that by blast
    then show "Q x" using H by blast
  qed
  then have "wf (set ps \<inter> UNIV \<times> (P \<union> set l))"
    unfolding split using 2(3,4) l by (intro wf_Un) auto
  moreover have "\<forall>(p, c) \<in> set ps. c \<in> P \<union> set l \<longrightarrow> p \<in> P \<union> set l" using l 2(3) by auto
  moreover have "levels_from ps (P \<union> set l) ls" using 2(2) unfolding levels_from.simps by blast
  moreover have "nodes ps \<subseteq> P \<union> set l \<union> set (concat ls)" using 2(5) by auto
  ultimately show ?case using 2(1) by blast
qed

section \<open>Properties\<close>

lemma topsort_result:
  assumes "hash_order ho"
  shows "case topsort ho ps of
      Inr ans \<Rightarrow> acyclic (set ps) \<and> distinct ans \<and> set ans = nodes ps \<and> parents_first ps ans
    | Inl err \<Rightarrow> \<not> acyclic (set ps) \<and> (\<exists>ans np ch. err = CycleError ans np ch \<and> np \<noteq> [] \<and>
        set ans = nodes ps - dom (dict_get np) \<and>
        (\<forall>k\<in>dom (dict_get np). \<exists>p\<in>dom (dict_get np). (p, k) \<in> set ps))"
proof -
  obtain np ch where b: "build_pairs ps = (np, ch)" by (cases "build_pairs ps")
  then have pr: "progress ps {} np ch" using build_pairs_progress [of ps] by simp
  have todo: "distinct (without_parent ho np)" "set (without_parent ho np) = {k. dict_get np k = Some 0}"
    using without_parent_progress [OF pr assms] pr by (auto simp: progress_def)
  obtain ans np' ch' where r: "topsort_loop [] (without_parent ho np) np ch = Inr (ans, np', ch')"
      "progress ps (set ans) np' ch'" "distinct ans" "parents_first ps ans" "\<forall>k. dict_get np' k \<noteq> Some 0"
    using topsort_loop_spec [of ps "[]" np ch "without_parent ho np"] pr todo by auto
  show ?thesis
  proof (cases "np' = []")
    case True
    then have "nodes ps \<subseteq> set ans" using r(2) by (force simp: progress_def split: if_splits)
    then have "set ans = nodes ps" using r(2) by (auto simp: progress_def)
    then show ?thesis using r True parents_first_acyclic [OF r(4,3)] by (simp add: topsort_def b)
  next
    case False
    have "set ans = nodes ps - dom (dict_get np')" using r(2) by (auto simp: progress_def split: if_splits)
    then show ?thesis using stuck_cyclic [OF r(2,5) False] False r(1) by (simp add: topsort_def b)
  qed
qed

text \<open>C5: \<open>topsort\<close> never raises \<open>KeyError\<close>. When the pairs are acyclic it returns every item
  once, each parent before its children; when they are not it raises \<open>CycleError\<close> with the
  parent counts of the items it could not place, each of which has a parent among them.\<close>

theorem topsort_spec:
  assumes "hash_order ho"
  shows "case topsort ho ps of
      Inr ans \<Rightarrow> acyclic (set ps) \<and> distinct ans \<and> set ans = nodes ps \<and> parents_first ps ans
    | Inl err \<Rightarrow> \<not> acyclic (set ps) \<and> (\<exists>ans np ch. err = CycleError ans np ch \<and> np \<noteq> [] \<and>
        set ans = nodes ps - dom (dict_get np) \<and>
        (\<forall>k\<in>dom (dict_get np). \<exists>p\<in>dom (dict_get np). (p, k) \<in> set ps))"
  using assms by (rule topsort_result)

theorem topsort_spec_witness:
  "topsort id [(1,2), (3,4), (5,6), (1,3), (1,5), (1,6), (2,5)] = Inr [1, 2, 3, 5, 4, 6::nat] \<and>
   topsort id [(1,2), (2,3), (3,2)] = Inl (CycleError [1] [(2, 1), (3, 1)] [(2, [3]), (3, [2::nat])]) \<and>
   \<not> acyclic {(1,2), (2,3), (3,2::nat)}"
proof -
  have "topsort id [(1,2), (3,4), (5,6), (1,3), (1,5), (1,6), (2,5)] = Inr [1, 2, 3, 5, 4, 6::nat]"
    by code_simp
  moreover have c: "topsort id [(1,2), (2,3), (3,2)]
      = Inl (CycleError [1] [(2, 1), (3, 1)] [(2, [3]), (3, [2::nat])])"
    by code_simp
  moreover have "\<not> acyclic {(1,2), (2,3), (3,2::nat)}"
    using topsort_spec [of id "[(1,2), (2,3), (3,2::nat)]"] c by simp
  ultimately show ?thesis by blast
qed

text \<open>C6: \<open>topsort_levels\<close> yields levels each of which holds exactly the items whose parents
  are all in earlier levels, without repetition; it ends normally with every item placed when
  the pairs are acyclic, and otherwise with \<open>CycleError\<close> for the items on or behind a cycle.\<close>

theorem topsort_levels_spec:
  assumes "hash_order ho"
  shows "case topsort_levels ho ps of (levels, err) \<Rightarrow>
    levels_from ps {} levels \<and>
    (case err of
       None \<Rightarrow> set (concat levels) = nodes ps \<and> acyclic (set ps)
     | Some e \<Rightarrow> \<not> acyclic (set ps) \<and> (\<exists>np ch. e = LevelCycleError np ch \<and>
         dom (dict_get np) = nodes ps - set (concat levels)))"
proof -
  obtain np ch where b: "build_pairs ps = (np, ch)" by (cases "build_pairs ps")
  then have "progress ps {} np ch" using build_pairs_progress [of ps] by simp
  from topsort_levels_core_spec [OF assms this] obtain ls e np' ch'
    where r: "topsort_levels_core ho np ch = (ls, e)" "levels_from ps {} ls"
      "progress ps (set (concat ls)) np' ch'" "\<forall>k. dict_get np' k \<noteq> Some 0"
      "e = (if np' \<noteq> [] then Some (LevelCycleError np' ch') else None)" by auto
  have run: "topsort_levels ho ps = (ls, e)" using r(1) by (simp add: topsort_levels_def b)
  have dom: "dom (dict_get np') = nodes ps - set (concat ls)" using r(3) by (auto simp: progress_def split: if_splits)
  have sub: "set (concat ls) \<subseteq> nodes ps" using r(3) by (simp only: progress_def)
  show ?thesis
  proof (cases "np' = []")
    case True
    then have all: "set (concat ls) = nodes ps" using dom sub by auto
    have "wf (set ps)" using levels_from_wf [OF r(2)] all by simp
    then show ?thesis using run r(2,5) True all by (simp add: wf_acyclic)
  next
    case False
    then show ?thesis using run r(2,5) dom stuck_cyclic [OF r(3,4) False] by simp
  qed
qed

theorem topsort_levels_spec_witness:
  "topsort_levels id [(1,2), (3,4), (5,6), (1,3), (1,5), (1,6), (2,5)] = ([[1], [2, 3], [4, 5], [6::nat]], None) \<and>
   acyclic {(1,2), (3,4), (5,6), (1,3), (1,5), (1,6), (2,5::nat)}"
proof -
  have "topsort_levels id [(1,2), (3,4), (5,6), (1,3), (1,5), (1,6), (2,5)] = ([[1], [2, 3], [4, 5], [6::nat]], None)"
    by code_simp
  then show ?thesis
    using topsort_levels_spec [of id "[(1,2), (3,4), (5,6), (1,3), (1,5), (1,6), (2,5::nat)]"] by simp
qed

text \<open>C7: \<open>find_cycles\<close> ends, and what it yields is, up to rotation, exactly the simple cycles of
  the graph: every list yielded is a cycle without repeated items, no list yielded is a
  rotation of an earlier one, and every simple cycle is a rotation of one yielded.\<close>

theorem find_cycles_spec:
  assumes "hash_order ho"
  shows "(\<forall>c\<in>set (find_cycles ho pc). is_cycle pc c) \<and>
    sorted_wrt (\<lambda>a b. \<nexists>n. b = rotate n a) (find_cycles ho pc) \<and>
    (\<forall>c. is_cycle pc c \<longrightarrow> (\<exists>other\<in>set (find_cycles ho pc). \<exists>n. c = rotate n other))"
proof -
  obtain cycles visited where f: "foldl (fc_start pc) ([], {}) (ho (dict_keys pc)) = (cycles, visited)"
    by (cases "foldl (fc_start pc) ([], {}) (ho (dict_keys pc))")
  then have res: "find_cycles ho pc = cycles" by (simp add: find_cycles_def)
  have "good_cycles pc cycles \<and>
      (\<forall>k\<in>set (ho (dict_keys pc)) \<union> {}. \<exists>r. reach pc r k \<and> closed_under pc cycles [r])"
    by (rule fc_starts_spec [OF _ _ _ f]) (simp_all add: good_cycles_def)
  then have good: "good_cycles pc cycles"
    and starts: "\<forall>k\<in>dom (dict_get pc). \<exists>r. reach pc r k \<and> closed_under pc cycles [r]"
    using assms by (simp_all add: set_dict_keys)
  have "covers cycles c" if c: "is_cycle pc c" for c
    using cycle_covered [OF c starts] .
  then show ?thesis using good by (simp add: res good_cycles_def covers_def)
qed

theorem find_cycles_spec_witness:
  "find_cycles id [(0, [1, 2]), (1, [3]), (2, [3]), (3, [0, 1::nat])] = [[0, 2, 3], [3, 1], [0, 1, 3]] \<and>
   is_cycle [(0, [1, 2]), (1, [3]), (2, [3]), (3, [0, 1::nat])] [3, 1]"
proof -
  have f: "find_cycles id [(0, [1, 2]), (1, [3]), (2, [3]), (3, [0, 1::nat])] = [[0, 2, 3], [3, 1], [0, 1, 3]]"
    by code_simp
  then show ?thesis
    using find_cycles_spec [of id "[(0, [1, 2]), (1, [3]), (2, [3]), (3, [0, 1::nat])]"] by simp
qed

end
