(* ===== verification/Shell_Parse.thy ===== *)
theory Shell_Parse
  imports Py_Base
begin

text \<open>
  \<open>Pipeline.parse\<close> of \<open>src/waf-tools/shellcmd.py\<close>, the small shell the build uses to run
  commands portably, with the part of the standard library's \<open>shlex.split\<close> it calls.

  The classes \<open>Command\<close>, \<open>Chdir\<close>, \<open>Pipe\<close>, \<open>And\<close>, \<open>Or\<close> are the constructors of \<open>node\<close>; the
  loop over the tokens is \<open>parse_token\<close>, whose state holds the automaton's state, the current
  command, the nodes committed so far and the pending environment assignments.
\<close>

section \<open>shlex.split\<close>

text \<open>
  The states of the lexer in POSIX mode without comments, splitting at blanks only: between
  tokens, in a word, in quotes, after a backslash (with the state to return to).
\<close>

datatype lex_state = LexSpace | LexWord | LexQuote char | LexEscape lex_state

fun lex_char :: "char \<Rightarrow> lex_state \<times> string \<times> bool \<times> string list \<Rightarrow> lex_state \<times> string \<times> bool \<times> string list" where
  "lex_char c (LexSpace, tok, quoted, out) =
     (if c \<in> set [CHR '' '', CHR 0x09, CHR 0x0D, CHR 0x0A] then (LexSpace, tok, quoted, out)
      else if c = CHR 0x5C then (LexEscape LexWord, tok, quoted, out)
      else if c = CHR 0x22 \<or> c = CHR 0x27 then (LexQuote c, tok, True, out)
      else (LexWord, [c], quoted, out))"
| "lex_char c (LexWord, tok, quoted, out) =
     (if c \<in> set [CHR '' '', CHR 0x09, CHR 0x0D, CHR 0x0A]
      then (if tok \<noteq> [] \<or> quoted then (LexSpace, [], False, out @ [tok]) else (LexSpace, tok, quoted, out))
      else if c = CHR 0x5C then (LexEscape LexWord, tok, quoted, out)
      else if c = CHR 0x22 \<or> c = CHR 0x27 then (LexQuote c, tok, True, out)
      else (LexWord, tok @ [c], quoted, out))"
| "lex_char c (LexQuote q, tok, quoted, out) =
     (if c = q then (LexWord, tok, True, out)
      else if c = CHR 0x5C \<and> q = CHR 0x22 then (LexEscape (LexQuote q), tok, True, out)
      else (LexQuote q, tok @ [c], True, out))"
| "lex_char c (LexEscape back, tok, quoted, out) =
     (let tok' = (case back of
                    LexQuote q \<Rightarrow> if c \<noteq> CHR 0x5C \<and> c \<noteq> q then tok @ [CHR 0x5C] else tok
                  | _ \<Rightarrow> tok)
      in (back, tok' @ [c], quoted, out))"

definition shlex_split :: "string \<Rightarrow> py_exn + string list" where
  "shlex_split s =
     (case fold lex_char s (LexSpace, [], False, []) of (st, tok, quoted, out) \<Rightarrow>
        (case st of
           LexQuote q \<Rightarrow> Inl ValueError
         | LexEscape b \<Rightarrow> Inl ValueError
         | _ \<Rightarrow> Inr (if tok \<noteq> [] \<or> quoted then out @ [tok] else out)))"

section \<open>Nodes\<close>

datatype redirect = NoRedirect | ToPipe | ToStdout | ToFile string

record command =
  name :: string
  argv :: "string list"
  stdin :: "string option"
  stdout :: redirect
  stderr :: redirect
  env_vars :: "(string, string) dict option"

datatype node =
    Pipe
  | And
  | Or
  | Command command
  | Chdir "string option"

definition new_command :: "string \<Rightarrow> command" where
  "new_command nm =
     \<lparr>name = nm, argv = [nm], stdin = None, stdout = NoRedirect, stderr = NoRedirect, env_vars = None\<rparr>"

section \<open>parse\<close>

datatype parse_state = BEGIN | COMMAND | CHDIR | STDERR | STDOUT | STDIN

record parser =
  pstate :: parse_state
  current_command :: "node option"
  pipeline :: "node list"
  pending_env :: "(string, string) dict"

definition commit_command :: "parser \<Rightarrow> py_exn + parser" where
  "commit_command p =
     (case current_command p of
        None \<Rightarrow> Inl AssertionError
      | Some c \<Rightarrow> Inr (p\<lparr>pipeline := pipeline p @ [c], current_command := None\<rparr>))"

text \<open>The expression \<open>^([a-zA-Z0-9_]+)=(\S+)$\<close>; \<open>$\<close> also matches before a final newline.\<close>

definition env_var_match :: "string \<Rightarrow> (string \<times> string) option" where
  "env_var_match token =
     (let nm = takeWhile name_char token;
          rest = drop (length nm) token;
          v = tl rest;
          v' = (if v \<noteq> [] \<and> last v = CHR 0x0A then butlast v else v)
      in if nm \<noteq> [] \<and> rest \<noteq> [] \<and> hd rest = CHR ''='' \<and> v' \<noteq> [] \<and> list_all (\<lambda>c. \<not> is_space c) v'
         then Some (nm, v') else None)"

definition append_op :: "node \<Rightarrow> parser \<Rightarrow> py_exn + parser" where
  "append_op nd p =
     py_bind (commit_command p) (\<lambda>p'. Inr (p'\<lparr>pipeline := pipeline p' @ [nd], pstate := BEGIN\<rparr>))"

definition begin_token :: "string \<Rightarrow> parser \<Rightarrow> py_exn + parser" where
  "begin_token token p =
     (case env_var_match token of
        Some (k, v) \<Rightarrow> Inr (p\<lparr>pending_env := dict_set (pending_env p) k v\<rparr>)
      | None \<Rightarrow>
          if current_command p \<noteq> None then Inl AssertionError
          else if token = ''cd''
          then (if pending_env p \<noteq> [] then Inl AssertionError
                else Inr (p\<lparr>current_command := Some (Chdir None), pstate := CHDIR\<rparr>))
          else if pending_env p \<noteq> []
          then Inr (p\<lparr>current_command := Some (Command ((new_command token)\<lparr>env_vars := Some (pending_env p)\<rparr>)),
                      pending_env := [], pstate := COMMAND\<rparr>)
          else Inr (p\<lparr>current_command := Some (Command (new_command token)), pstate := COMMAND\<rparr>))"

definition command_token :: "string \<Rightarrow> command \<Rightarrow> parser \<Rightarrow> py_exn + parser" where
  "command_token token c p =
     (if token = ''>'' then Inr (p\<lparr>pstate := STDOUT\<rparr>)
      else if token = ''2>'' then Inr (p\<lparr>pstate := STDERR\<rparr>)
      else if token = ''2>&1''
      then (if stderr c \<noteq> NoRedirect then Inl AssertionError
            else Inr (p\<lparr>current_command := Some (Command (c\<lparr>stderr := ToStdout\<rparr>))\<rparr>))
      else if token = ''<'' then Inr (p\<lparr>pstate := STDIN\<rparr>)
      else if token = ''|''
      then (if stdout c \<noteq> NoRedirect then Inl AssertionError
            else append_op Pipe (p\<lparr>current_command := Some (Command (c\<lparr>stdout := ToPipe\<rparr>))\<rparr>))
      else if token = ''&&'' then append_op And p
      else if token = ''||'' then append_op Or p
      else Inr (p\<lparr>current_command := Some (Command (c\<lparr>argv := argv c @ [token]\<rparr>))\<rparr>))"

definition redirect_token :: "string \<Rightarrow> command \<Rightarrow> parser \<Rightarrow> py_exn + parser" where
  "redirect_token token c p =
     (case pstate p of
        STDOUT \<Rightarrow>
          (if stdout c \<noteq> NoRedirect then Inl AssertionError
           else Inr (p\<lparr>current_command := Some (Command (c\<lparr>stdout := ToFile token\<rparr>)), pstate := COMMAND\<rparr>))
      | STDERR \<Rightarrow>
          (if stderr c \<noteq> NoRedirect then Inl AssertionError
           else Inr (p\<lparr>current_command := Some (Command (c\<lparr>stderr := ToFile token\<rparr>)), pstate := COMMAND\<rparr>))
      | _ \<Rightarrow>
          (if stdin c \<noteq> None then Inl AssertionError
           else Inr (p\<lparr>current_command := Some (Command (c\<lparr>stdin := Some token\<rparr>)), pstate := COMMAND\<rparr>)))"

text \<open>
  One round of the loop. In the states other than \<open>BEGIN\<close> the current command is of the
  class the state expects; the remaining cases would be attribute errors.
\<close>

definition parse_token :: "string \<Rightarrow> parser \<Rightarrow> py_exn + parser" where
  "parse_token token p =
     (case pstate p of
        BEGIN \<Rightarrow> begin_token token p
      | CHDIR \<Rightarrow>
          if token = ''&&'' then append_op And p
          else (case current_command p of
                  Some (Chdir None) \<Rightarrow> Inr (p\<lparr>current_command := Some (Chdir (Some token))\<rparr>)
                | Some (Chdir (Some d)) \<Rightarrow> Inl AssertionError
                | _ \<Rightarrow> Inl AttributeError)
      | s \<Rightarrow>
          (case current_command p of
             Some (Command c) \<Rightarrow> (if s = COMMAND then command_token token c p else redirect_token token c p)
           | _ \<Rightarrow> Inl AttributeError))"

definition new_parser :: parser where
  "new_parser = \<lparr>pstate = BEGIN, current_command = None, pipeline = [], pending_env = []\<rparr>"

definition parse_tokens :: "string list \<Rightarrow> py_exn + node list" where
  "parse_tokens tokens =
     py_bind (py_fold parse_token tokens new_parser) (\<lambda>p.
     py_bind (commit_command p) (\<lambda>p. Inr (pipeline p)))"

definition parse :: "string \<Rightarrow> py_exn + node list" where
  "parse cmd = py_bind (shlex_split cmd) parse_tokens"

definition get_abbreviated_command :: "node list \<Rightarrow> string" where
  "get_abbreviated_command pl =
     join_with '' '' (concat (map (\<lambda>nd. case nd of
         Command c \<Rightarrow> [name c]
       | Chdir d \<Rightarrow> [''cd '' @ (case d of None \<Rightarrow> ''None'' | Some s \<Rightarrow> s)]
       | Pipe \<Rightarrow> [''|'']
       | And \<Rightarrow> [''&&'']
       | Or \<Rightarrow> []) pl))"

section \<open>Well-formed pipelines\<close>

definition operator_tokens :: "string set" where
  "operator_tokens = {''>'', ''2>'', ''2>&1'', ''<'', ''|'', ''&&'', ''||''}"

definition env_ok :: "(string, string) dict \<Rightarrow> bool" where
  "env_ok env \<longleftrightarrow> distinct (map fst env) \<and>
     (\<forall>(k, v)\<in>set env. env_var_match (k @ ''='' @ v) = Some (k, v))"

definition command_ok :: "command \<Rightarrow> bool" where
  "command_ok c \<longleftrightarrow> env_var_match (name c) = None \<and> name c \<noteq> ''cd'' \<and>
     (\<exists>args. argv c = name c # args \<and> set args \<inter> operator_tokens = {}) \<and>
     stdout c \<noteq> ToStdout \<and> stderr c \<noteq> ToPipe \<and> command.more c = () \<and>
     (case env_vars c of None \<Rightarrow> True | Some env \<Rightarrow> env \<noteq> [] \<and> env_ok env)"

definition node_ok :: "node \<Rightarrow> bool" where
  "node_ok nd = (case nd of Command c \<Rightarrow> command_ok c | Chdir d \<Rightarrow> d \<noteq> Some ''&&'' | _ \<Rightarrow> True)"

text \<open>A sequence of units each followed by an operator; only a command that is piped has its
  output redirected to the pipe.\<close>

fun prefix_ok :: "node list \<Rightarrow> bool" where
  "prefix_ok [] = True"
| "prefix_ok (Command c # Pipe # r) = (stdout c = ToPipe \<and> prefix_ok r)"
| "prefix_ok (Command c # And # r) = (stdout c \<noteq> ToPipe \<and> prefix_ok r)"
| "prefix_ok (Command c # Or # r) = (stdout c \<noteq> ToPipe \<and> prefix_ok r)"
| "prefix_ok (Chdir d # And # r) = prefix_ok r"
| "prefix_ok _ = False"

definition unit_ok :: "node \<Rightarrow> bool" where
  "unit_ok nd = (case nd of Command c \<Rightarrow> stdout c \<noteq> ToPipe | Chdir _ \<Rightarrow> True | _ \<Rightarrow> False)"

definition well_formed :: "node list \<Rightarrow> bool" where
  "well_formed ns \<longleftrightarrow> (\<exists>pre u. ns = pre @ [u] \<and> prefix_ok pre \<and> unit_ok u \<and> list_all node_ok ns)"

definition unparse_node :: "node \<Rightarrow> string list" where
  "unparse_node nd =
     (case nd of
        Pipe \<Rightarrow> [''|''] | And \<Rightarrow> [''&&''] | Or \<Rightarrow> [''||'']
      | Chdir d \<Rightarrow> ''cd'' # (case d of None \<Rightarrow> [] | Some s \<Rightarrow> [s])
      | Command c \<Rightarrow>
          (case env_vars c of None \<Rightarrow> [] | Some env \<Rightarrow> map (\<lambda>(k, v). k @ ''='' @ v) env) @ argv c @
          (case stdin c of None \<Rightarrow> [] | Some f \<Rightarrow> [''<'', f]) @
          (case stdout c of ToFile f \<Rightarrow> [''>'', f] | _ \<Rightarrow> []) @
          (case stderr c of ToFile f \<Rightarrow> [''2>'', f] | ToStdout \<Rightarrow> [''2>&1''] | _ \<Rightarrow> []))"

definition unparse :: "node list \<Rightarrow> string list" where
  "unparse ns = concat (map unparse_node ns)"

lemma prefix_ok_append: "prefix_ok a \<Longrightarrow> prefix_ok (a @ b) = prefix_ok b"
  by (induction a rule: prefix_ok.induct) auto

lemma env_var_match_pair:
  assumes "env_var_match token = Some (k, v)"
  shows "env_var_match (k @ ''='' @ v) = Some (k, v)"
proof -
  from assms have k: "k \<noteq> []" "k = takeWhile name_char token"
    and v: "v \<noteq> []" "list_all (\<lambda>c. \<not> is_space c) v"
    by (auto simp: env_var_match_def Let_def split: if_splits)
  have "\<forall>c\<in>set k. name_char c" unfolding k(2) by (meson set_takeWhileD)
  then have "takeWhile name_char (k @ ''='' @ v) = k"
    by (subst takeWhile_append2) (auto simp: name_char_def)
  moreover have "last v \<noteq> CHR 0x0A"
  proof
    assume "last v = CHR 0x0A"
    then have "CHR 0x0A \<in> set v" using v(1) last_in_set by metis
    then show False using v(2) by (auto simp: list_all_iff is_space_def)
  qed
  ultimately show ?thesis using k(1) v by (simp add: env_var_match_def Let_def)
qed

lemma env_ok_set:
  "env_ok env \<Longrightarrow> env_var_match token = Some (k, v) \<Longrightarrow> env_ok (dict_set env k v)"
  using env_var_match_pair [of token k v]
  by (auto simp: env_ok_def distinct_dict_set dest!: dict_set_values)

subsection \<open>What parse returns is well-formed\<close>

definition parser_inv :: "parser \<Rightarrow> bool" where
  "parser_inv p \<longleftrightarrow> prefix_ok (pipeline p) \<and> list_all node_ok (pipeline p) \<and>
     (case pstate p of
        BEGIN \<Rightarrow> current_command p = None \<and> env_ok (pending_env p)
      | CHDIR \<Rightarrow> (\<exists>d. current_command p = Some (Chdir d) \<and> d \<noteq> Some ''&&'') \<and> pending_env p = []
      | _ \<Rightarrow> (\<exists>c. current_command p = Some (Command c) \<and> command_ok c \<and> stdout c \<noteq> ToPipe) \<and> pending_env p = [])"

lemma begin_token_inv: "parser_inv p \<Longrightarrow> pstate p = BEGIN \<Longrightarrow> begin_token token p = Inr p' \<Longrightarrow> parser_inv p'"
  by (auto simp: parser_inv_def begin_token_def env_ok_set command_ok_def new_command_def
      split: option.splits if_splits)

lemma command_token_inv:
  "parser_inv p \<Longrightarrow> pstate p = COMMAND \<Longrightarrow> current_command p = Some (Command c) \<Longrightarrow>
   command_token token c p = Inr p' \<Longrightarrow> parser_inv p'"
  by (auto simp: parser_inv_def command_token_def append_op_def commit_command_def prefix_ok_append
      node_ok_def command_ok_def env_ok_def operator_tokens_def split: if_splits)

lemma redirect_token_inv:
  "parser_inv p \<Longrightarrow> pstate p \<in> {STDIN, STDOUT, STDERR} \<Longrightarrow> current_command p = Some (Command c) \<Longrightarrow>
   redirect_token token c p = Inr p' \<Longrightarrow> parser_inv p'"
  by (auto simp: parser_inv_def redirect_token_def command_ok_def split: if_splits)

lemma parse_token_inv: "parser_inv p \<Longrightarrow> parse_token token p = Inr p' \<Longrightarrow> parser_inv p'"
proof (cases "pstate p")
  case CHDIR
  assume a: "parser_inv p" "parse_token token p = Inr p'"
  then show ?thesis using CHDIR
    by (auto simp: parser_inv_def parse_token_def append_op_def commit_command_def prefix_ok_append
        node_ok_def env_ok_def split: if_splits option.splits)
next
  case BEGIN
  assume a: "parser_inv p" "parse_token token p = Inr p'"
  then show ?thesis using BEGIN begin_token_inv by (simp add: parse_token_def)
next
  case COMMAND
  assume a: "parser_inv p" "parse_token token p = Inr p'"
  then obtain c where "current_command p = Some (Command c)" using COMMAND by (auto simp: parser_inv_def)
  then show ?thesis using a COMMAND command_token_inv by (simp add: parse_token_def)
next
  case STDERR
  assume a: "parser_inv p" "parse_token token p = Inr p'"
  then obtain c where "current_command p = Some (Command c)" using STDERR by (auto simp: parser_inv_def)
  then show ?thesis using a STDERR redirect_token_inv by (simp add: parse_token_def)
next
  case STDOUT
  assume a: "parser_inv p" "parse_token token p = Inr p'"
  then obtain c where "current_command p = Some (Command c)" using STDOUT by (auto simp: parser_inv_def)
  then show ?thesis using a STDOUT redirect_token_inv by (simp add: parse_token_def)
next
  case STDIN
  assume a: "parser_inv p" "parse_token token p = Inr p'"
  then obtain c where "current_command p = Some (Command c)" using STDIN by (auto simp: parser_inv_def)
  then show ?thesis using a STDIN redirect_token_inv by (simp add: parse_token_def)
qed

lemma parse_fold_inv: "parser_inv p \<Longrightarrow> py_fold parse_token ts p = Inr p' \<Longrightarrow> parser_inv p'"
  by (induction ts arbitrary: p) (auto intro: parse_token_inv)

lemma parse_tokens_well_formed:
  assumes "parse_tokens ts = Inr ns"
  shows "well_formed ns"
proof -
  obtain p where p: "py_fold parse_token ts new_parser = Inr p" "commit_command p = Inr (p\<lparr>pipeline := ns, current_command := None\<rparr>)"
    using assms by (auto simp: parse_tokens_def commit_command_def split: option.splits)
  have "parser_inv new_parser" by (simp add: parser_inv_def new_parser_def env_ok_def)
  then have inv: "parser_inv p" using parse_fold_inv p(1) by blast
  obtain u where u: "current_command p = Some u" "ns = pipeline p @ [u]"
    using assms p(1) by (auto simp: parse_tokens_def commit_command_def split: option.splits)
  have "unit_ok u \<and> node_ok u"
    using inv u(1) by (cases "pstate p") (auto simp: parser_inv_def unit_ok_def node_ok_def)
  then show ?thesis using inv u(2) by (auto simp: well_formed_def parser_inv_def)
qed

subsection \<open>Parsing what was printed\<close>

definition begin_state :: "node list \<Rightarrow> parser" where
  "begin_state pre = \<lparr>pstate = BEGIN, current_command = None, pipeline = pre, pending_env = []\<rparr>"

definition in_command :: "node list \<Rightarrow> command \<Rightarrow> parser" where
  "in_command pre c = \<lparr>pstate = COMMAND, current_command = Some (Command c), pipeline = pre, pending_env = []\<rparr>"

lemma fold_env:
  "env_ok (e @ env) \<Longrightarrow>
   py_fold parse_token (map (\<lambda>(k, v). k @ ''='' @ v) env) ((begin_state pre)\<lparr>pending_env := e\<rparr>)
     = Inr ((begin_state pre)\<lparr>pending_env := e @ env\<rparr>)"
proof (induction env arbitrary: e)
  case (Cons kv env)
  obtain k v where kv: "kv = (k, v)" by (cases kv)
  have m: "env_var_match (k @ ''='' @ v) = Some (k, v)" and new: "dict_set e k v = e @ [(k, v)]"
    using Cons.prems by (auto simp: env_ok_def kv intro: dict_set_new)
  have "parse_token (k @ ''='' @ v) ((begin_state pre)\<lparr>pending_env := e\<rparr>)
      = Inr ((begin_state pre)\<lparr>pending_env := e @ [(k, v)]\<rparr>)"
    using m new by (simp add: parse_token_def begin_token_def begin_state_def)
  moreover have "env_ok ((e @ [(k, v)]) @ env)" using Cons.prems kv by simp
  ultimately show ?case using Cons.IH [of "e @ [(k, v)]"] kv by simp
qed simp

lemma fold_args:
  "set args \<inter> operator_tokens = {} \<Longrightarrow>
   py_fold parse_token args (in_command pre c) = Inr (in_command pre (c\<lparr>argv := argv c @ args\<rparr>))"
proof (induction args arbitrary: c)
  case (Cons a args)
  from Cons.prems have "parse_token a (in_command pre c) = Inr (in_command pre (c\<lparr>argv := argv c @ [a]\<rparr>))"
    by (auto simp: parse_token_def in_command_def command_token_def operator_tokens_def)
  with Cons show ?case by simp
qed simp

lemma fold_stdin:
  "stdin c = None \<Longrightarrow>
   py_fold parse_token (case i of None \<Rightarrow> [] | Some f \<Rightarrow> [''<'', f]) (in_command pre c)
     = Inr (in_command pre (c\<lparr>stdin := i\<rparr>))"
  by (cases i) (simp_all add: parse_token_def in_command_def command_token_def redirect_token_def)

lemma fold_stdout:
  "stdout c = NoRedirect \<Longrightarrow>
   py_fold parse_token (case r of ToFile f \<Rightarrow> [''>'', f] | _ \<Rightarrow> []) (in_command pre c)
     = Inr (in_command pre (c\<lparr>stdout := (case r of ToFile f \<Rightarrow> r | _ \<Rightarrow> NoRedirect)\<rparr>))"
  by (cases r) (simp_all add: parse_token_def in_command_def command_token_def redirect_token_def)

lemma fold_stderr:
  "stderr c = NoRedirect \<Longrightarrow> r \<noteq> ToPipe \<Longrightarrow>
   py_fold parse_token (case r of ToFile f \<Rightarrow> [''2>'', f] | ToStdout \<Rightarrow> [''2>&1''] | _ \<Rightarrow> []) (in_command pre c)
     = Inr (in_command pre (c\<lparr>stderr := r\<rparr>))"
  by (cases r) (simp_all add: parse_token_def in_command_def command_token_def redirect_token_def)

lemma fold_name:
  assumes "env_var_match nm = None" "nm \<noteq> ''cd''"
  shows "parse_token nm ((begin_state pre)\<lparr>pending_env := e\<rparr>)
    = Inr (in_command pre ((new_command nm)\<lparr>env_vars := if e = [] then None else Some e\<rparr>))"
  using assms by (simp add: parse_token_def begin_token_def begin_state_def in_command_def new_command_def)

lemma fold_plain_name:
  "env_var_match nm = None \<Longrightarrow> nm \<noteq> ''cd'' \<Longrightarrow>
   parse_token nm (begin_state pre) = Inr (in_command pre (new_command nm))"
  by (simp add: parse_token_def begin_token_def begin_state_def in_command_def)

lemma fold_command:
  assumes "command_ok c"
  shows "py_fold parse_token (unparse_node (Command c)) (begin_state pre)
    = Inr (in_command pre (if stdout c = ToPipe then c\<lparr>stdout := NoRedirect\<rparr> else c))"
proof -
  define e where "e = (case env_vars c of None \<Rightarrow> [] | Some env \<Rightarrow> env)"
  obtain args where args: "argv c = name c # args" "set args \<inter> operator_tokens = {}"
    using assms by (auto simp: command_ok_def)
  have e: "env_ok e" and env: "env_vars c = (if e = [] then None else Some e)"
    using assms by (auto simp: command_ok_def e_def env_ok_def split: option.splits)
  have toks: "unparse_node (Command c) = map (\<lambda>(k, v). k @ ''='' @ v) e @ [name c] @ args @
      (case stdin c of None \<Rightarrow> [] | Some f \<Rightarrow> [''<'', f]) @ (case stdout c of ToFile f \<Rightarrow> [''>'', f] | _ \<Rightarrow> []) @
      (case stderr c of ToFile f \<Rightarrow> [''2>'', f] | ToStdout \<Rightarrow> [''2>&1''] | _ \<Rightarrow> [])"
    by (simp add: unparse_node_def args(1) e_def split: option.splits)
  have "py_fold parse_token (map (\<lambda>(k, v). k @ ''='' @ v) e) (begin_state pre)
      = Inr ((begin_state pre)\<lparr>pending_env := e\<rparr>)"
    using fold_env [of "[]" e pre] e by (simp add: begin_state_def)
  then have "py_fold parse_token (unparse_node (Command c)) (begin_state pre)
      = Inr (in_command pre \<lparr>name = name c, argv = name c # args, stdin = stdin c,
          stdout = (case stdout c of ToFile f \<Rightarrow> stdout c | _ \<Rightarrow> NoRedirect), stderr = stderr c, env_vars = env_vars c\<rparr>)"
    using assms args(2) unfolding toks
    by (cases "e = []") (simp_all add: py_fold_append fold_name fold_plain_name fold_args fold_stdin fold_stdout fold_stderr
        command_ok_def new_command_def env)
  also have "\<lparr>name = name c, argv = name c # args, stdin = stdin c,
          stdout = (case stdout c of ToFile f \<Rightarrow> stdout c | _ \<Rightarrow> NoRedirect), stderr = stderr c, env_vars = env_vars c\<rparr>
      = (if stdout c = ToPipe then c\<lparr>stdout := NoRedirect\<rparr> else c)"
    using assms args(1) by (cases c) (auto simp: command_ok_def split: redirect.splits)
  finally show ?thesis .
qed

lemma fold_chdir:
  "d \<noteq> Some ''&&'' \<Longrightarrow> py_fold parse_token (unparse_node (Chdir d)) (begin_state pre)
     = Inr \<lparr>pstate = CHDIR, current_command = Some (Chdir d), pipeline = pre, pending_env = []\<rparr>"
proof -
  assume d: "d \<noteq> Some ''&&''"
  have "env_var_match ''cd'' = None"
    by (simp add: env_var_match_def name_char_def)
  then show ?thesis using d
    by (cases d) (simp_all add: unparse_node_def parse_token_def begin_token_def begin_state_def)
qed

lemma fold_unit_op:
  assumes "prefix_ok [u, oper]" "node_ok u"
  shows "py_fold parse_token (unparse_node u @ unparse_node oper) (begin_state pre)
    = Inr (begin_state (pre @ [u, oper]))"
proof (cases u)
  case (Command c)
  then have ok: "command_ok c" using assms(2) by (simp add: node_ok_def)
  have "stdout c = ToPipe \<Longrightarrow> c\<lparr>stdout := NoRedirect\<rparr>\<lparr>stdout := ToPipe\<rparr> = c" by (cases c) simp
  then show ?thesis using assms(1) fold_command [OF ok, of pre]
    by (cases oper)
      (auto simp: Command py_fold_append unparse_node_def parse_token_def in_command_def command_token_def
        append_op_def commit_command_def begin_state_def)
next
  case (Chdir d)
  then show ?thesis using assms fold_chdir [of d pre]
    by (cases oper)
      (auto simp: py_fold_append unparse_node_def parse_token_def node_ok_def
        append_op_def commit_command_def begin_state_def)
qed (use assms in simp_all)

lemma fold_prefix:
  "prefix_ok ns \<Longrightarrow> list_all node_ok ns \<Longrightarrow>
   py_fold parse_token (unparse ns) (begin_state pre) = Inr (begin_state (pre @ ns))"
proof (induction ns arbitrary: pre rule: induct_list012)
  case (3 u oper ns)
  then have "prefix_ok [u, oper]" "prefix_ok ns" by (cases u; cases oper; simp)+
  moreover have "py_fold parse_token (unparse_node u @ unparse_node oper) (begin_state pre)
      = Inr (begin_state (pre @ [u, oper]))"
    using 3 calculation by (intro fold_unit_op) simp_all
  moreover have "unparse (u # oper # ns) = (unparse_node u @ unparse_node oper) @ unparse ns"
    by (simp add: unparse_def)
  ultimately show ?case using 3(1) [of "pre @ [u, oper]"] 3(4)
    by (simp only: py_fold_append [of _ "unparse_node u @ unparse_node oper"] py_bind_simps) simp
qed (auto simp: unparse_def)

lemma parse_unparse:
  assumes "well_formed ns"
  shows "parse_tokens (unparse ns) = Inr ns"
proof -
  obtain pre u where ns: "ns = pre @ [u]" "prefix_ok pre" "unit_ok u" "list_all node_ok ns"
    using assms by (auto simp: well_formed_def)
  have "py_fold parse_token (unparse pre) new_parser = Inr (begin_state pre)"
    using fold_prefix [of pre "[]"] ns by (simp add: begin_state_def new_parser_def)
  moreover have "unparse ns = unparse pre @ unparse_node u" by (simp add: ns unparse_def)
  moreover have "node_ok u" using ns by simp
  ultimately show ?thesis using ns(1,3) fold_command [of _ pre] fold_chdir [of _ pre]
    by (cases u) (auto simp: parse_tokens_def py_fold_append unit_ok_def node_ok_def commit_command_def in_command_def)
qed

section \<open>Properties\<close>

text \<open>C8: Whatever token list \<open>parse\<close> accepts, the pipeline it builds alternates commands and
  operators, ends with a command or a change of directory, pipes the output of exactly the
  commands that stand before a pipe, and is parsed again to the same pipeline from its own
  tokens.\<close>

theorem parse_well_formed_roundtrip:
  assumes "parse_tokens ts = Inr ns"
  shows "well_formed ns \<and> parse_tokens (unparse ns) = Inr ns"
  using parse_tokens_well_formed [OF assms] parse_unparse by blast

theorem parse_well_formed_roundtrip_witness:
  "\<exists>ns. parse ''A=1 ./foo 2>&1 < xxx | cat && ls'' = Inr ns \<and> length ns = 5 \<and>
     unparse ns = [''A=1'', ''./foo'', ''<'', ''xxx'', ''2>&1'', ''|'', ''cat'', ''&&'', ''ls''] \<and>
     well_formed ns \<and> parse_tokens (unparse ns) = Inr ns"
proof -
  define ts where "ts = [''A=1'', ''./foo'', ''2>&1'', ''<'', ''xxx'', ''|'', ''cat'', ''&&'', ''ls'']"
  have "shlex_split ''A=1 ./foo 2>&1 < xxx | cat && ls'' = Inr ts"
    unfolding ts_def by code_simp
  moreover obtain ns where ns: "parse_tokens ts = Inr ns" "length ns = 5"
      "unparse ns = [''A=1'', ''./foo'', ''<'', ''xxx'', ''2>&1'', ''|'', ''cat'', ''&&'', ''ls'']"
  proof
    show "parse_tokens ts = Inr
       [Command \<lparr>name = ''./foo'', argv = [''./foo''], stdin = Some ''xxx'', stdout = ToPipe,
          stderr = ToStdout, env_vars = Some [(''A'', ''1'')]\<rparr>, Pipe,
        Command (new_command ''cat''), And, Command (new_command ''ls'')]"
      unfolding ts_def by code_simp
  qed (simp_all add: unparse_def unparse_node_def new_command_def)
  ultimately show ?thesis using parse_well_formed_roundtrip [OF ns(1)] by (auto simp: parse_def)
qed

end
