(* ===== verification/Shell_Run.thy ===== *)
theory Shell_Run
  imports Shell_Parse
begin

text \<open>
  \<open>Pipeline.run\<close> of \<open>src/waf-tools/shellcmd.py\<close>: how a parsed pipeline is executed.

  What the operating system answers is the record \<open>shell_world\<close>: whether a file opens,
  whether a program can be started, the exit code of the k-th process, the environment, and
  CPython's order of the keys of a dict. The local variables of \<open>run\<close> are the record
  \<open>runner\<close>, together with the processes started and the lines printed so far. A step is a
  function of the runner that may raise; the runner survives an exception, so that what had
  been started or opened by then is known.
\<close>

section \<open>The operating system\<close>

datatype input = InheritIn | PipeIn | FileIn string

record process =
  p_argv :: "string list"
  p_stdin :: input
  p_stdout :: redirect
  p_stderr :: redirect
  p_env :: "(string, string) dict option"
  p_cwd :: "string option"

record shell_world =
  w_readable :: "string \<Rightarrow> bool"
  w_writable :: "string \<Rightarrow> bool"
  w_can_exec :: "process \<Rightarrow> bool"
  w_exit :: "nat \<Rightarrow> process \<Rightarrow> int"
  w_environ :: "(string, string) dict"
  w_order :: "string list \<Rightarrow> string list"

record runner =
  r_piped :: bool
  r_cwd :: string
  r_group :: "(nat \<times> process) list"
  r_open :: "string list"
  r_display :: "string list"
  r_started :: "process list"
  r_printed :: "string list"

type_synonym 'a action = "runner \<Rightarrow> runner \<times> (py_exn + 'a)"

definition act_bind :: "'a action \<Rightarrow> ('a \<Rightarrow> 'b action) \<Rightarrow> 'b action" where
  "act_bind m f = (\<lambda>st. case m st of (st', Inl e) \<Rightarrow> (st', Inl e) | (st', Inr x) \<Rightarrow> f x st')"

definition act_return :: "'a \<Rightarrow> 'a action" where
  "act_return x = (\<lambda>st. (st, Inr x))"

definition act_raise :: "py_exn \<Rightarrow> 'a action" where
  "act_raise e = (\<lambda>st. (st, Inl e))"

definition act_update :: "(runner \<Rightarrow> runner) \<Rightarrow> unit action" where
  "act_update f = (\<lambda>st. (f st, Inr ()))"

section \<open>Starting a command\<close>

definition exec_piped_commands :: "int list \<Rightarrow> int" where
  "exec_piped_commands retvals = (if list_ex (\<lambda>r. r \<noteq> 0) retvals then last retvals else 0)"

definition null_device :: "string \<Rightarrow> bool" where
  "null_device f = (f \<in> set [''NUL:'', ''/dev/null''])"

definition show_part :: "bool \<Rightarrow> string \<Rightarrow> unit action" where
  "show_part verbose s = act_update (\<lambda>st. if verbose then st\<lparr>r_display := r_display st @ [s]\<rparr> else st)"

definition remember_open :: "string \<Rightarrow> unit action" where
  "remember_open f = act_update (\<lambda>st. st\<lparr>r_open := r_open st @ [f]\<rparr>)"

definition command_string :: "shell_world \<Rightarrow> command \<Rightarrow> string" where
  "command_string w c =
     (case env_vars c of
        None \<Rightarrow> join_with '' '' (argv c)
      | Some env \<Rightarrow>
          if env = [] then join_with '' '' (argv c)
          else join_with '' '' (map (\<lambda>k. k @ ''='' @ dict_getdefault env k []) (w_order w (dict_keys env)))
               @ '' '' @ join_with '' '' (argv c))"

definition open_stdin :: "shell_world \<Rightarrow> bool \<Rightarrow> command \<Rightarrow> input action" where
  "open_stdin w verbose c st =
     (if r_piped st then (st, Inr PipeIn)
      else case stdin c of
             None \<Rightarrow> (st, Inr InheritIn)
           | Some f \<Rightarrow>
               if \<not> w_readable w f then (st, Inl (Exception ''IOError''))
               else act_bind (show_part verbose (''< '' @ f)) (\<lambda>_.
                    act_bind (remember_open f) (\<lambda>_. act_return (FileIn f))) st)"

definition open_stdout :: "shell_world \<Rightarrow> bool \<Rightarrow> command \<Rightarrow> redirect action" where
  "open_stdout w verbose c =
     (case stdout c of
        ToFile f \<Rightarrow>
          if \<not> (null_device f \<or> w_writable w f) then act_raise (Exception ''IOError'')
          else act_bind (remember_open f) (\<lambda>_.
               act_bind (show_part verbose (''> '' @ f)) (\<lambda>_. act_return (ToFile f)))
      | r \<Rightarrow> act_return r)"

definition open_stderr :: "shell_world \<Rightarrow> bool \<Rightarrow> command \<Rightarrow> redirect action" where
  "open_stderr w verbose c =
     (case stderr c of
        ToFile f \<Rightarrow>
          if \<not> (null_device f \<or> w_writable w f) then act_raise (Exception ''IOError'')
          else act_bind (remember_open f) (\<lambda>_.
               act_bind (show_part verbose (''2> '' @ f)) (\<lambda>_. act_return (ToFile f)))
      | ToStdout \<Rightarrow> act_bind (show_part verbose ''2>&1'') (\<lambda>_. act_return ToStdout)
      | r \<Rightarrow> act_return r)"

definition child_env :: "shell_world \<Rightarrow> command \<Rightarrow> (string, string) dict option" where
  "child_env w c =
     (case env_vars c of
        None \<Rightarrow> None
      | Some env \<Rightarrow> if env = [] then None else Some (dict_update (w_environ w) env))"

definition child_cwd :: "string \<Rightarrow> string option" where
  "child_cwd cwd = (if cwd = ''.'' then None else Some cwd)"

definition popen :: "shell_world \<Rightarrow> process \<Rightarrow> unit action" where
  "popen w p st =
     (if \<not> w_can_exec w p then (st, Inl (Exception ''OSError''))
      else (st\<lparr>r_group := r_group st @ [(length (r_started st), p)], r_started := r_started st @ [p]\<rparr>, Inr ()))"

definition start_command :: "shell_world \<Rightarrow> bool \<Rightarrow> command \<Rightarrow> unit action" where
  "start_command w verbose c =
     act_bind (show_part verbose (command_string w c)) (\<lambda>_.
     act_bind (open_stdin w verbose c) (\<lambda>i.
     act_bind (open_stdout w verbose c) (\<lambda>out.
     act_bind (open_stderr w verbose c) (\<lambda>err st.
       popen w \<lparr>p_argv = argv c, p_stdin = i, p_stdout = out, p_stderr = err,
                p_env = child_env w c, p_cwd = child_cwd (r_cwd st)\<rparr> st))))"

section \<open>run\<close>

text \<open>Waiting for the processes of the group and closing the files.\<close>

definition wait_group :: "shell_world \<Rightarrow> int action" where
  "wait_group w st =
     (st\<lparr>r_open := []\<rparr>, Inr (exec_piped_commands (map (\<lambda>(k, p). w_exit w k p) (r_group st))))"

definition print_exit :: "int \<Rightarrow> runner \<Rightarrow> runner" where
  "print_exit retval st =
     st\<lparr>r_printed := r_printed st @ [join_with '' '' (r_display st) @ '': exit code '' @ str_int retval]\<rparr>"

definition next_group :: "runner \<Rightarrow> runner" where
  "next_group st = st\<lparr>r_piped := False, r_group := [], r_display := []\<rparr>"

text \<open>
  The loop over the nodes. After \<open>||\<close> and \<open>&&\<close> the verbose messages format the variable
  \<open>retval\<close>, which only the end of the pipeline assigns.
\<close>

fun run_loop :: "shell_world \<Rightarrow> bool \<Rightarrow> node list \<Rightarrow> int option action" where
  "run_loop w verbose [] st = (st, Inr None)"
| "run_loop w verbose (Chdir d # rest) st =
     (case rest of
        [] \<Rightarrow> (st, Inl IndexError)
      | next_op # rest' \<Rightarrow>
          if next_op \<noteq> And then (st, Inl AssertionError)
          else (case d of
                  None \<Rightarrow> (st, Inl AttributeError)
                | Some s \<Rightarrow>
                    run_loop w verbose rest'
                      (fst (show_part verbose (''cd '' @ s @ '' &&'') (st\<lparr>r_cwd := path_join (r_cwd st) s\<rparr>)))))"
| "run_loop w verbose (Command c # rest) st =
     (case start_command w verbose c st of
        (st1, Inl e) \<Rightarrow> (st1, Inl e)
      | (st1, Inr _) \<Rightarrow>
          (case rest of
             [] \<Rightarrow>
               (case wait_group w st1 of
                  (st2, Inl e) \<Rightarrow> (st2, Inl e)
                | (st2, Inr retval) \<Rightarrow> (if verbose then print_exit retval st2 else st2, Inr (Some retval)))
           | Pipe # rest' \<Rightarrow>
               run_loop w verbose rest' (st1\<lparr>r_piped := True, r_display := r_display st1 @ [''|'']\<rparr>)
           | Or # rest' \<Rightarrow>
               (case wait_group w st1 of
                  (st2, Inl e) \<Rightarrow> (st2, Inl e)
                | (st2, Inr this_retval) \<Rightarrow>
                    if verbose then (st2, Inl NameError)
                    else if this_retval = 0 then (st2, Inr (Some this_retval))
                    else run_loop w verbose rest' (next_group st2))
           | And # rest' \<Rightarrow>
               (case wait_group w st1 of
                  (st2, Inl e) \<Rightarrow> (st2, Inl e)
                | (st2, Inr this_retval) \<Rightarrow>
                    if verbose then (st2, Inl NameError)
                    else if this_retval \<noteq> 0 then (st2, Inr (Some this_retval))
                    else run_loop w verbose rest' (next_group st2))
           | _ # rest' \<Rightarrow> run_loop w verbose rest' st1))"
| "run_loop w verbose (_ # rest) st = (st, Inl AssertionError)"

definition new_runner :: runner where
  "new_runner = \<lparr>r_piped = False, r_cwd = ''.'', r_group = [], r_open = [], r_display = [],
     r_started = [], r_printed = []\<rparr>"

definition run :: "shell_world \<Rightarrow> bool \<Rightarrow> node list \<Rightarrow> runner \<times> (py_exn + int option)" where
  "run w verbose pl = run_loop w verbose pl new_runner"

section \<open>What run does, as a reference\<close>

text \<open>
  The reference splits the nodes into groups of piped processes, fixed before anything runs,
  and executes the groups in order; each group counts with the exit code of its last process.
\<close>

definition the_process :: "shell_world \<Rightarrow> string \<Rightarrow> bool \<Rightarrow> command \<Rightarrow> process" where
  "the_process w cwd piped c =
     \<lparr>p_argv = argv c,
      p_stdin = (if piped then PipeIn else case stdin c of None \<Rightarrow> InheritIn | Some f \<Rightarrow> FileIn f),
      p_stdout = stdout c, p_stderr = stderr c, p_env = child_env w c, p_cwd = child_cwd cwd\<rparr>"

fun plan :: "shell_world \<Rightarrow> string \<Rightarrow> bool \<Rightarrow> process list \<Rightarrow> node list \<Rightarrow> (process list \<times> node option) list" where
  "plan w cwd piped acc (Command c # oper # rest) =
     (let grp = acc @ [the_process w cwd piped c]
      in if oper = Pipe then plan w cwd True grp rest else (grp, Some oper) # plan w cwd False [] rest)"
| "plan w cwd piped acc [Command c] = [(acc @ [the_process w cwd piped c], None)]"
| "plan w cwd piped acc (Chdir (Some d) # And # rest) = plan w (path_join cwd d) piped acc rest"
| "plan w cwd piped acc _ = []"

definition group_exit :: "shell_world \<Rightarrow> nat \<Rightarrow> process list \<Rightarrow> int" where
  "group_exit w k grp = w_exit w (k + length grp - 1) (last grp)"

fun chain :: "shell_world \<Rightarrow> nat \<Rightarrow> (process list \<times> node option) list \<Rightarrow> process list \<times> int option" where
  "chain w k [] = ([], None)"
| "chain w k ((grp, oper) # rest) =
     (let code = group_exit w k grp
      in if oper = None \<or> (oper = Some And \<and> code \<noteq> 0) \<or> (oper = Some Or \<and> code = 0)
         then (grp, Some code)
         else (case chain w (k + length grp) rest of (ps, r) \<Rightarrow> (grp @ ps, r)))"

definition all_starts :: "shell_world \<Rightarrow> bool" where
  "all_starts w \<longleftrightarrow> (\<forall>f. w_readable w f) \<and> (\<forall>f. w_writable w f) \<and> (\<forall>p. w_can_exec w p)"

definition numbered :: "nat \<Rightarrow> process list \<Rightarrow> (nat \<times> process) list" where
  "numbered k ps = zip [k..<k + length ps] ps"

fun dirs_ok :: "node list \<Rightarrow> bool" where
  "dirs_ok [] = False"
| "dirs_ok [Chdir d] = False"
| "dirs_ok [nd] = True"
| "dirs_ok (Chdir None # rest) = False"
| "dirs_ok (nd # rest) = dirs_ok rest"

lemmas action_defs = act_bind_def act_return_def act_raise_def act_update_def

lemma start_command_ok:
  assumes "all_starts w"
  shows "\<exists>fs. start_command w False c st =
    (st\<lparr>r_open := r_open st @ fs,
        r_group := r_group st @ [(length (r_started st), the_process w (r_cwd st) (r_piped st) c)],
        r_started := r_started st @ [the_process w (r_cwd st) (r_piped st) c]\<rparr>, Inr ())"
proof -
  have show_off: "show_part False s st = (st, Inr ())" for s st
    by (simp add: show_part_def act_update_def)
  have ok: "w_readable w f" "w_writable w f" "w_can_exec w p" for f p
    using assms by (simp_all add: all_starts_def)
  have "\<exists>fs. open_stdin w False c st = (st\<lparr>r_open := r_open st @ fs\<rparr>,
      Inr (p_stdin (the_process w (r_cwd st) (r_piped st) c)))" for st
    by (cases "stdin c")
      (auto simp: open_stdin_def the_process_def ok action_defs show_off remember_open_def intro: exI [of _ "[]"])
  then obtain f1 where f1: "open_stdin w False c st = (st\<lparr>r_open := r_open st @ f1\<rparr>,
      Inr (p_stdin (the_process w (r_cwd st) (r_piped st) c)))" by blast
  have "\<exists>fs. open_stdout w False c st = (st\<lparr>r_open := r_open st @ fs\<rparr>, Inr (stdout c))" for st
    by (cases "stdout c")
      (auto simp: open_stdout_def ok action_defs show_off remember_open_def intro: exI [of _ "[]"])
  then obtain f2 where f2: "open_stdout w False c st = (st\<lparr>r_open := r_open st @ f2 st\<rparr>, Inr (stdout c))" for st
    by metis
  have "\<exists>fs. open_stderr w False c st = (st\<lparr>r_open := r_open st @ fs\<rparr>, Inr (stderr c))" for st
    by (cases "stderr c")
      (auto simp: open_stderr_def ok action_defs show_off remember_open_def intro: exI [of _ "[]"])
  then obtain f3 where f3: "open_stderr w False c st = (st\<lparr>r_open := r_open st @ f3 st\<rparr>, Inr (stderr c))" for st
    by metis
  show ?thesis
    by (simp add: start_command_def action_defs show_off f1 f2 f3 popen_def ok) (auto simp: the_process_def)
qed

lemma exec_piped_last: "retvals \<noteq> [] \<Longrightarrow> exec_piped_commands retvals = last retvals"
  by (auto simp: exec_piped_commands_def list_ex_iff)

lemma numbered_snoc: "numbered k (acc @ [p]) = numbered k acc @ [(k + length acc, p)]"
  by (simp add: numbered_def)

lemma wait_numbered:
  assumes "r_group st = numbered k grp" "grp \<noteq> []"
  shows "wait_group w st = (st\<lparr>r_open := []\<rparr>, Inr (group_exit w k grp))"
proof -
  have "map (\<lambda>(j, p). w_exit w j p) (numbered k grp) \<noteq> []" using assms(2) by (simp add: numbered_def)
  moreover have "last (map (\<lambda>(j, p). w_exit w j p) (numbered k grp)) = group_exit w k grp"
    using assms(2) by (cases grp rule: rev_cases) (simp_all add: numbered_def group_exit_def)
  ultimately show ?thesis using assms(1) by (simp add: wait_group_def exec_piped_last)
qed

lemma start_wait:
  assumes "all_starts w" "r_started st = pre @ acc" "r_group st = numbered (length pre) acc"
  shows "\<exists>st1 st2. start_command w False c st = (st1, Inr ()) \<and>
    wait_group w st1 = (st2, Inr (group_exit w (length pre) (acc @ [the_process w (r_cwd st) (r_piped st) c]))) \<and>
    r_started st2 = pre @ acc @ [the_process w (r_cwd st) (r_piped st) c] \<and> r_open st2 = [] \<and> r_cwd st2 = r_cwd st"
proof -
  define p where "p = the_process w (r_cwd st) (r_piped st) c"
  obtain fs where "start_command w False c st =
      (st\<lparr>r_open := r_open st @ fs, r_group := r_group st @ [(length (r_started st), p)],
          r_started := r_started st @ [p]\<rparr>, Inr ())"
    using start_command_ok [OF assms(1)] unfolding p_def by blast
  moreover have "wait_group w (st\<lparr>r_open := r_open st @ fs, r_group := r_group st @ [(length (r_started st), p)],
          r_started := r_started st @ [p]\<rparr>)
      = (st\<lparr>r_open := [], r_group := r_group st @ [(length (r_started st), p)],
          r_started := r_started st @ [p]\<rparr>, Inr (group_exit w (length pre) (acc @ [p])))"
    by (subst wait_numbered [of _ "length pre" "acc @ [p]"]) (simp_all add: numbered_snoc assms)
  ultimately show ?thesis using assms(2) unfolding p_def [symmetric] by force
qed

lemma run_loop_plan:
  assumes "all_starts w" "prefix_ok ns" "unit_ok u" "dirs_ok (ns @ [u])"
    "r_started st = pre @ acc" "r_group st = numbered (length pre) acc"
  shows "\<exists>st'. run_loop w False (ns @ [u]) st
      = (st', Inr (snd (chain w (length pre) (plan w (r_cwd st) (r_piped st) acc (ns @ [u])))))
    \<and> r_started st' = pre @ fst (chain w (length pre) (plan w (r_cwd st) (r_piped st) acc (ns @ [u])))
    \<and> r_open st' = []"
  using assms(2-6)
proof (induction ns arbitrary: st pre acc rule: prefix_ok.induct)
  case 1
  then obtain c where u: "u = Command c" by (cases u) (auto simp: unit_ok_def)
  from start_wait [OF assms(1) 1(4,5), of c] show ?case by (force simp: u)
next
  case (2 c r)
  define p where "p = the_process w (r_cwd st) (r_piped st) c"
  obtain fs where s: "start_command w False c st =
      (st\<lparr>r_open := r_open st @ fs, r_group := r_group st @ [(length (r_started st), p)],
          r_started := r_started st @ [p]\<rparr>, Inr ())"
    using start_command_ok [OF assms(1)] unfolding p_def by blast
  define st1 where "st1 = st\<lparr>r_open := r_open st @ fs, r_group := r_group st @ [(length (r_started st), p)],
      r_started := r_started st @ [p], r_piped := True, r_display := r_display st @ [''|'']\<rparr>"
  have "dirs_ok (r @ [u])" using 2(4) by (cases r) auto
  moreover have "r_started st1 = pre @ (acc @ [p])" "r_group st1 = numbered (length pre) (acc @ [p])"
    using 2(5,6) by (simp_all add: st1_def numbered_snoc)
  ultimately show ?case using 2(1) [of st1 pre "acc @ [p]"] 2(2,3)
    by (simp add: s st1_def Let_def flip: p_def)
next
  case (3 c r)
  obtain st1 st2 where s: "start_command w False c st = (st1, Inr ())"
      "wait_group w st1 = (st2, Inr (group_exit w (length pre) (acc @ [the_process w (r_cwd st) (r_piped st) c])))"
      "r_started st2 = pre @ acc @ [the_process w (r_cwd st) (r_piped st) c]" "r_open st2 = []" "r_cwd st2 = r_cwd st"
    using start_wait [OF assms(1) 3(5,6), of c] by blast
  have "dirs_ok (r @ [u])" using 3(4) by (cases r) auto
  then show ?case
    using 3(1) [of "next_group st2" "pre @ acc @ [the_process w (r_cwd st) (r_piped st) c]" "[]"] 3(2,3) s
    by (auto simp: Let_def next_group_def numbered_def split: prod.splits)
next
  case (4 c r)
  obtain st1 st2 where s: "start_command w False c st = (st1, Inr ())"
      "wait_group w st1 = (st2, Inr (group_exit w (length pre) (acc @ [the_process w (r_cwd st) (r_piped st) c])))"
      "r_started st2 = pre @ acc @ [the_process w (r_cwd st) (r_piped st) c]" "r_open st2 = []" "r_cwd st2 = r_cwd st"
    using start_wait [OF assms(1) 4(5,6), of c] by blast
  have "dirs_ok (r @ [u])" using 4(4) by (cases r) auto
  then show ?case
    using 4(1) [of "next_group st2" "pre @ acc @ [the_process w (r_cwd st) (r_piped st) c]" "[]"] 4(2,3) s
    by (auto simp: Let_def next_group_def numbered_def split: prod.splits)
next
  case (5 d r)
  then obtain s where d: "d = Some s" by (cases d; cases r) auto
  have "dirs_ok (r @ [u])" using 5(4) d by (cases r) auto
  then show ?case using 5(1) [of "st\<lparr>r_cwd := path_join (r_cwd st) s\<rparr>" pre acc] 5
    by (simp add: d show_part_def act_update_def)
qed auto

section \<open>Properties\<close>

text \<open>C9: For a pipeline as \<open>parse\<close> returns it, in which every \<open>cd\<close> names a directory and is
  followed by a command, and when files open and programs start, \<open>run\<close> returns, has closed
  its files, and has started exactly the processes of the reference \<open>chain\<close>: groups of piped
  processes in order, stopping with the exit code of the last process of a group as soon as a
  group before \<open>&&\<close> fails or one before \<open>||\<close> succeeds.\<close>

theorem run_chain:
  assumes "parse_tokens ts = Inr ns" "dirs_ok ns" "all_starts w"
  shows "\<exists>st. run w False ns = (st, Inr (snd (chain w 0 (plan w ''.'' False [] ns)))) \<and>
    r_started st = fst (chain w 0 (plan w ''.'' False [] ns)) \<and> r_open st = []"
proof -
  obtain pre u where ns: "ns = pre @ [u]" "prefix_ok pre" "unit_ok u"
    using parse_tokens_well_formed [OF assms(1)] by (auto simp: well_formed_def)
  have "r_started new_runner = [] @ []" "r_group new_runner = numbered (length []) []"
    by (simp_all add: new_runner_def numbered_def)
  from run_loop_plan [OF assms(3) ns(2,3) _ this] assms(2) show ?thesis
    by (simp add: run_def ns(1) new_runner_def)
qed

definition demo_world :: shell_world where
  "demo_world = \<lparr>w_readable = \<lambda>_. True, w_writable = \<lambda>_. True, w_can_exec = \<lambda>_. True,
     w_exit = \<lambda>k p. if p_argv p = [''false''] then 1 else 0, w_environ = [], w_order = \<lambda>ks. ks\<rparr>"

theorem run_chain_witness:
  "\<exists>ns st. parse_tokens [''false'', ''&&'', ''a'', ''||'', ''b''] = Inr ns \<and>
     run demo_world False ns = (st, Inr (Some 1)) \<and> map p_argv (r_started st) = [[''false'']] \<and> r_open st = []"
proof -
  define ns where "ns = [Command (new_command ''false''), And, Command (new_command ''a''), Or,
    Command (new_command ''b'')]"
  have p: "parse_tokens [''false'', ''&&'', ''a'', ''||'', ''b''] = Inr ns"
    unfolding ns_def by code_simp
  have "dirs_ok ns" "all_starts demo_world" by (simp_all add: ns_def all_starts_def demo_world_def)
  from run_chain [OF p this] obtain st
    where st: "run demo_world False ns = (st, Inr (snd (chain demo_world 0 (plan demo_world ''.'' False [] ns))))"
      "r_started st = fst (chain demo_world 0 (plan demo_world ''.'' False [] ns))" "r_open st = []" by blast
  have c: "chain demo_world 0 (plan demo_world ''.'' False [] ns)
      = ([the_process demo_world ''.'' False (new_command ''false'')], Some 1)"
    by (simp add: ns_def Let_def group_exit_def demo_world_def the_process_def new_command_def)
  have "map p_argv (r_started st) = [[''false'']]"
    unfolding st(2) c by (simp add: the_process_def new_command_def)
  then show ?thesis using p st c by auto
qed

text \<open>With \<open>verbose\<close> set, a pipeline whose first command is followed by \<open>&&\<close> or \<open>||\<close>
  cannot complete: once the command has run, the message raises \<open>NameError\<close> for a variable
  that has not been assigned, whatever the exit code.\<close>

theorem verbose_operator_raises:
  assumes "start_command w True c new_runner = (st, Inr ())" "oper = And \<or> oper = Or"
  shows "snd (run w True (Command c # oper # rest)) = Inl NameError"
  using assms by (auto simp: run_def wait_group_def)

theorem verbose_operator_raises_witness:
  "snd (run demo_world True [Command (new_command ''true''), And, Command (new_command ''b'')]) = Inl NameError \<and>
   snd (run demo_world False [Command (new_command ''true''), And, Command (new_command ''b'')]) = Inr (Some 0)"
proof -
  obtain st where "start_command demo_world True (new_command ''true'') new_runner = (st, Inr ())"
    by (simp add: start_command_def action_defs show_part_def open_stdin_def open_stdout_def open_stderr_def
        new_command_def new_runner_def popen_def demo_world_def)
  from verbose_operator_raises [OF this, of And]
  have "snd (run demo_world True [Command (new_command ''true''), And, Command (new_command ''b'')]) = Inl NameError"
    by simp
  moreover have "snd (run demo_world False [Command (new_command ''true''), And, Command (new_command ''b'')]) = Inr (Some 0)"
    by (simp add: run_def start_command_def action_defs show_part_def open_stdin_def open_stdout_def open_stderr_def
        new_command_def new_runner_def popen_def demo_world_def wait_group_def next_group_def exec_piped_commands_def)
  ultimately show ?thesis by blast
qed

end
