(* ===== verification/Command_Task.thy ===== *)
theory Command_Task
  imports Shell_Run
begin

text \<open>
  The task \<open>command\<close> of \<open>src/waf-tools/command.py\<close>: a command line of a wscript is parsed by
  \<open>Pipeline.parse\<close>, the expressions \<open>${...}\<close> in its parts are replaced, and the pipeline is
  run by \<open>Pipeline.run\<close>. The namespace in which expressions are evaluated is the parameter
  \<open>ev\<close>: what \<open>eval\<close> answers for a text. waf's nodes are known by their two paths and the path shown to the user.
\<close>

section \<open>Substitution\<close>

record file_node =
  src_path :: string
  bld_path :: string
  shown_path :: string

text \<open>
  What an expression can be: a node, one of the two lists of the task itself, another list, text, \<open>None\<close>, or something
  else.
\<close>

datatype ns_value = V_Node file_node | V_Inputs | V_Outputs | V_List "ns_value list" | V_Text string | V_None | V_Other

text \<open>
  The expression \<open>arg_rx\<close> at the start of a text that begins with \<open>$\<close>: two dollars, or a name, the
  shortest rest of a line up to a closing brace. The greedy name never has to give characters back.
\<close>

datatype arg_match = M_Dollar | M_Subst string string

definition match_arg :: "string \<Rightarrow> (arg_match \<times> string) option" where
  "match_arg s =
     (if starts_with s ''$$'' then Some (M_Dollar, drop 2 s)
      else if starts_with s ''${''
      then (let body = drop 2 s;
                var = takeWhile name_char body;
                rest = drop (length var) body;
                code = takeWhile (\<lambda>c. c \<noteq> CHR ''}'') rest
            in if var \<noteq> [] \<and> length code < length rest \<and> CHR 0x0A \<notin> set code
               then Some (M_Subst var code, drop (Suc (length code)) rest) else None)
      else None)"

text \<open>What a match is replaced by. \<open>None\<close> counts as no text; a value that is not text (here \<open>None\<close>) is kept until the pieces
  are joined.\<close>

definition as_piece :: "ns_value \<Rightarrow> string option" where
  "as_piece result = (case result of V_Text s \<Rightarrow> Some s | V_None \<Rightarrow> Some [] | _ \<Rightarrow> None)"

definition replacement :: "(string \<Rightarrow> py_exn + ns_value) \<Rightarrow> file_node list \<Rightarrow> file_node list \<Rightarrow> arg_match \<Rightarrow> py_exn + string option" where
  "replacement ev inputs outputs m =
     (case m of
        M_Dollar \<Rightarrow> Inr (Some ''$'')
      | M_Subst var code \<Rightarrow>
          py_bind (ev (var @ code)) (\<lambda>result.
            case result of
              V_Node n \<Rightarrow> if var = ''TGT'' then Inr (Some (bld_path n)) else if var = ''SRC'' then Inr (Some (src_path n)) else Inl ValueError
            | V_Inputs \<Rightarrow> (case inputs of [n] \<Rightarrow> Inr (Some (src_path n)) | _ \<Rightarrow> Inl ValueError)
            | V_Outputs \<Rightarrow> (case outputs of [n] \<Rightarrow> Inr (Some (bld_path n)) | _ \<Rightarrow> Inl ValueError)
            | V_List xs \<Rightarrow> (case xs of [x] \<Rightarrow> Inr (as_piece x) | _ \<Rightarrow> Inl AssertionError)
            | _ \<Rightarrow> Inr (as_piece result)))"

lemma match_arg_shorter: "match_arg s = Some (m, rest) \<Longrightarrow> length rest < length s"
  by (cases s) (auto simp: match_arg_def starts_with_def Let_def split: if_splits)

text \<open>\<open>re.sub\<close> collects the pieces from left to right and joins them at the end, when a piece that is not text is refused.\<close>

function subst_pieces :: "(string \<Rightarrow> py_exn + ns_value) \<Rightarrow> file_node list \<Rightarrow> file_node list \<Rightarrow> string \<Rightarrow> py_exn + string option list" where
  "subst_pieces ev inputs outputs [] = Inr []"
| "subst_pieces ev inputs outputs (c # s) =
     (case match_arg (c # s) of
        None \<Rightarrow> py_bind (subst_pieces ev inputs outputs s) (\<lambda>t. Inr (Some [c] # t))
      | Some (m, rest) \<Rightarrow>
          py_bind (replacement ev inputs outputs m) (\<lambda>r. py_bind (subst_pieces ev inputs outputs rest) (\<lambda>t. Inr (r # t))))"
  by pat_completeness auto
termination
  by (relation "measure (\<lambda>(ev, inputs, outputs, s). length s)") (auto dest: match_arg_shorter)

declare subst_pieces.simps(2) [simp del]

definition join_pieces :: "string option list \<Rightarrow> py_exn + string" where
  "join_pieces ps = (if None \<in> set ps then Inl TypeError else Inr (concat (map the ps)))"

definition subst_arg :: "(string \<Rightarrow> py_exn + ns_value) \<Rightarrow> file_node list \<Rightarrow> file_node list \<Rightarrow> string \<Rightarrow> py_exn + string" where
  "subst_arg ev inputs outputs s = py_bind (subst_pieces ev inputs outputs s) join_pieces"

section \<open>The task\<close>

definition subst_redirect :: "(string \<Rightarrow> py_exn + string) \<Rightarrow> redirect \<Rightarrow> py_exn + redirect" where
  "subst_redirect sub r = (case r of ToFile f \<Rightarrow> py_bind (sub f) (\<lambda>f'. Inr (ToFile f')) | _ \<Rightarrow> Inr r)"

definition subst_option :: "(string \<Rightarrow> py_exn + string) \<Rightarrow> string option \<Rightarrow> py_exn + string option" where
  "subst_option sub x = (case x of None \<Rightarrow> Inr None | Some s \<Rightarrow> py_bind (sub s) (\<lambda>t. Inr (Some t)))"

definition subst_env :: "(string \<Rightarrow> py_exn + string) \<Rightarrow> (string, string) dict option \<Rightarrow> py_exn + (string, string) dict option" where
  "subst_env sub x =
     (case x of
        None \<Rightarrow> Inr None
      | Some env \<Rightarrow> py_bind (py_map (\<lambda>(k, v). py_bind (sub v) (\<lambda>t. Inr (k, t))) env) (\<lambda>env'. Inr (Some env')))"

text \<open>The parts of a command in the order of \<open>run\<close>: input, output, error output, arguments, environment.\<close>

definition subst_node :: "(string \<Rightarrow> py_exn + string) \<Rightarrow> node \<Rightarrow> py_exn + node" where
  "subst_node sub nd =
     (case nd of
        Command c \<Rightarrow>
          py_bind (subst_option sub (stdin c)) (\<lambda>i.
          py_bind (subst_redirect sub (stdout c)) (\<lambda>out.
          py_bind (subst_redirect sub (stderr c)) (\<lambda>err.
          py_bind (py_map sub (argv c)) (\<lambda>args.
          py_bind (subst_env sub (env_vars c)) (\<lambda>env.
            Inr (Command (c\<lparr>stdin := i, stdout := out, stderr := err, argv := args, env_vars := env\<rparr>)))))))
      | Chdir d \<Rightarrow> py_bind (case d of None \<Rightarrow> Inl TypeError | Some s \<Rightarrow> py_bind (sub s) (\<lambda>t. Inr (Some t))) (\<lambda>d'. Inr (Chdir d'))
      | _ \<Rightarrow> Inr nd)"

text \<open>\<open>command_task.run\<close>; an exception before \<open>Pipeline.run\<close> leaves its runner as it starts.\<close>

definition run_task ::
  "shell_world \<Rightarrow> bool \<Rightarrow> (string \<Rightarrow> py_exn + ns_value) \<Rightarrow> file_node list \<Rightarrow> file_node list \<Rightarrow> string \<Rightarrow> runner \<times> (py_exn + int option)"
where
  "run_task w verbose ev inputs outputs cmd =
     (case py_bind (parse cmd) (py_map (subst_node (subst_arg ev inputs outputs))) of
        Inl e \<Rightarrow> (new_runner, Inl e)
      | Inr pl \<Rightarrow> run w verbose pl)"

text \<open>\<open>__str__\<close>: the line shown to the user.\<close>

definition task_str :: "file_node list \<Rightarrow> file_node list \<Rightarrow> string \<Rightarrow> py_exn + string" where
  "task_str inputs outputs cmd =
     (let src_str = join_with '' '' (map shown_path inputs);
          tgt_str = join_with '' '' (map shown_path outputs);
          sep = (if outputs \<noteq> [] then '' -> '' else [])
      in py_bind (parse cmd) (\<lambda>pl.
           Inr (''command ('' @ get_abbreviated_command pl @ ''): '' @ src_str @ sep @ tgt_str @ newline)))"

text \<open>\<open>apply_command\<close>: the task made for a task generator; the source list is emptied so that no other method takes it.\<close>

record command_gen =
  gen_source :: "file_node list"
  gen_target :: "string list"
  gen_tasks :: "(file_node list \<times> file_node list) list"

definition apply_command :: "(string \<Rightarrow> file_node) \<Rightarrow> command_gen \<Rightarrow> command_gen" where
  "apply_command find_or_declare g =
     g\<lparr>gen_tasks := gen_tasks g @ [(gen_source g, map find_or_declare (gen_target g))], gen_source := []\<rparr>"

section \<open>What substitution does\<close>

text \<open>A template is text, with its dollars doubled, and expressions.\<close>

datatype template_piece = P_Text string | P_Expr string string

definition escape :: "string \<Rightarrow> string" where
  "escape s = concat (map (\<lambda>c. if c = CHR ''$'' then ''$$'' else [c]) s)"

definition render_piece :: "template_piece \<Rightarrow> string" where
  "render_piece p = (case p of P_Text s \<Rightarrow> escape s | P_Expr var code \<Rightarrow> ''${'' @ var @ code @ ''}'')"

definition template_ok :: "template_piece \<Rightarrow> bool" where
  "template_ok p = (case p of P_Text s \<Rightarrow> True
     | P_Expr var code \<Rightarrow> var \<noteq> [] \<and> list_all name_char var \<and> CHR ''}'' \<notin> set code \<and> CHR 0x0A \<notin> set code \<and>
         (code = [] \<or> \<not> name_char (hd code)))"

definition template_value :: "(string \<Rightarrow> py_exn + ns_value) \<Rightarrow> file_node list \<Rightarrow> file_node list \<Rightarrow> template_piece \<Rightarrow> py_exn + string option" where
  "template_value ev inputs outputs p =
     (case p of P_Text s \<Rightarrow> Inr (Some s) | P_Expr var code \<Rightarrow> replacement ev inputs outputs (M_Subst var code))"

lemma piece_simps [simp]:
  "render_piece (P_Text s) = escape s" "render_piece (P_Expr var code) = ''${'' @ var @ code @ ''}''"
  "template_value ev inputs outputs (P_Text s) = Inr (Some s)"
  "template_value ev inputs outputs (P_Expr var code) = replacement ev inputs outputs (M_Subst var code)"
  by (simp_all add: render_piece_def template_value_def)

lemma match_arg_plain: "c \<noteq> CHR ''$'' \<Longrightarrow> match_arg (c # s) = None"
  by (simp add: match_arg_def starts_with_def)

lemma match_arg_dollar: "match_arg (CHR ''$'' # CHR ''$'' # s) = Some (M_Dollar, s)"
  by (simp add: match_arg_def starts_with_def)

lemma name_char_brace: "\<not> name_char CHR ''}''"
  by (simp add: name_char_def)

lemma match_arg_expr:
  assumes "template_ok (P_Expr var code)"
  shows "match_arg (''${'' @ var @ code @ ''}'' @ s) = Some (M_Subst var code, s)"
proof -
  have v: "takeWhile name_char (var @ code @ ''}'' @ s) = var"
    using assms name_char_brace by (cases code) (auto simp: template_ok_def list_all_iff takeWhile_append2 takeWhile_tail)
  have c: "takeWhile (\<lambda>c. c \<noteq> CHR ''}'') (code @ ''}'' @ s) = code"
  proof -
    have "takeWhile (\<lambda>c. c \<noteq> CHR ''}'') (code @ CHR ''}'' # s) = code @ takeWhile (\<lambda>c. c \<noteq> CHR ''}'') (CHR ''}'' # s)"
      using assms by (intro takeWhile_append2) (auto simp: template_ok_def)
    then show ?thesis by simp
  qed
  show ?thesis
    using assms v c by (simp add: match_arg_def starts_with_def template_ok_def Let_def)
qed

lemma subst_escape:
  "subst_pieces ev inputs outputs (escape s @ t) = py_bind (subst_pieces ev inputs outputs t) (\<lambda>r. Inr (map (\<lambda>c. Some [c]) s @ r))"
proof (induction s)
  case Nil
  then show ?case by (cases "subst_pieces ev inputs outputs t") (simp_all add: escape_def)
next
  case (Cons c s)
  then show ?case
    by (cases "subst_pieces ev inputs outputs t")
      (auto simp: escape_def subst_pieces.simps(2) match_arg_plain match_arg_dollar replacement_def)
qed

lemma subst_expr:
  assumes "template_ok (P_Expr var code)"
  shows "subst_pieces ev inputs outputs (''${'' @ var @ code @ ''}'' @ t) =
    py_bind (replacement ev inputs outputs (M_Subst var code)) (\<lambda>r. py_bind (subst_pieces ev inputs outputs t) (\<lambda>q. Inr (r # q)))"
  using match_arg_expr [OF assms, of t] by (simp add: subst_pieces.simps(2))

lemma join_text: "join_pieces (map (\<lambda>c. Some [c]) s @ r) = join_pieces (Some s # r)"
  by (auto simp: join_pieces_def comp_def)

lemma join_Cons_cong: "join_pieces r = join_pieces r' \<Longrightarrow> join_pieces (p # r) = join_pieces (p # r')"
  by (auto simp: join_pieces_def split: if_splits)

text \<open>The two collect the same error, or pieces that are joined to the same.\<close>

lemma subst_template:
  assumes "list_all template_ok ps"
  shows "case subst_pieces ev inputs outputs (concat (map render_piece ps)) of
      Inl e \<Rightarrow> py_map (template_value ev inputs outputs) ps = Inl e
    | Inr r \<Rightarrow> \<exists>vs. py_map (template_value ev inputs outputs) ps = Inr vs \<and> join_pieces r = join_pieces vs"
  using assms
proof (induction ps)
  case (Cons p ps)
  show ?case
  proof (cases p)
    case (P_Text s)
    then show ?thesis
      using Cons by (cases "subst_pieces ev inputs outputs (concat (map render_piece ps))")
        (auto simp: subst_escape join_text dest: join_Cons_cong)
  next
    case (P_Expr var code)
    then have "template_ok (P_Expr var code)" using Cons.prems by simp
    from subst_expr [OF this, of ev inputs outputs "concat (map render_piece ps)"] P_Expr show ?thesis
      using Cons by (cases "replacement ev inputs outputs (M_Subst var code)";
          cases "subst_pieces ev inputs outputs (concat (map render_piece ps))") (auto dest: join_Cons_cong)
  qed
qed simp

text \<open>C26: Substitution in a command reads its templates back: for any sequence of texts, written with their dollars
  doubled, and of expressions \<open>${var code}\<close>, it gives the texts unchanged and in the place of each expression what
  it stands for (of \<open>SRC\<close> the source path and of \<open>TGT\<close> the path in the build directory, or an error when there is
  not exactly one), in order. The error of the first expression that raises one is the error of the whole; when none does,
  an expression that is neither text nor \<open>None\<close> makes the joining raise \<open>TypeError\<close>.\<close>

theorem template_replaced:
  assumes "\<forall>p\<in>set ps. template_ok p"
  shows "subst_arg ev inputs outputs (concat (map render_piece ps)) =
    py_bind (py_map (template_value ev inputs outputs) ps)
      (\<lambda>vs. if None \<in> set vs then Inl TypeError else Inr (concat (map the vs)))"
proof -
  have "list_all template_ok ps" using assms by (simp add: list_all_iff)
  from subst_template [OF this, of ev inputs outputs] show ?thesis
    unfolding join_pieces_def [abs_def, symmetric] subst_arg_def
    by (cases "subst_pieces ev inputs outputs (concat (map render_piece ps))") auto
qed

definition demo_node :: "string \<Rightarrow> file_node" where
  "demo_node f = \<lparr>src_path = ''src/'' @ f, bld_path = ''/build/'' @ f, shown_path = f\<rparr>"

definition demo_ev :: "string \<Rightarrow> py_exn + ns_value" where
  "demo_ev s = (if s = ''SRC'' then Inr V_Inputs else if s = ''TGT'' then Inr V_Outputs
     else if s = ''SRC[0]'' then Inr (V_Node (demo_node ''a b'')) else Inl NameError)"

theorem template_replaced_witness:
  "subst_arg demo_ev [demo_node ''a b''] [demo_node ''c''] ''--in=${SRC[0]} $$x'' = Inr ''--in=src/a b $x''"
proof -
  have "\<forall>p\<in>set [P_Text ''--in='', P_Expr ''SRC'' ''[0]'', P_Text '' $x'']. template_ok p"
    by (simp add: template_ok_def name_char_def)
  from template_replaced [OF this, of demo_ev "[demo_node ''a b'']" "[demo_node ''c'']"] show ?thesis
    by (simp add: escape_def replacement_def demo_ev_def demo_node_def)
qed

section \<open>What the task runs\<close>

text \<open>The texts of a pipeline, and the pipeline with each of them changed.\<close>

definition node_texts :: "node \<Rightarrow> string list" where
  "node_texts nd =
     (case nd of
        Command c \<Rightarrow> (case stdin c of None \<Rightarrow> [] | Some f \<Rightarrow> [f]) @ (case stdout c of ToFile f \<Rightarrow> [f] | _ \<Rightarrow> []) @
          (case stderr c of ToFile f \<Rightarrow> [f] | _ \<Rightarrow> []) @ argv c @ (case env_vars c of None \<Rightarrow> [] | Some env \<Rightarrow> map snd env)
      | Chdir d \<Rightarrow> (case d of None \<Rightarrow> [] | Some s \<Rightarrow> [s])
      | _ \<Rightarrow> [])"

definition map_redirect :: "(string \<Rightarrow> string) \<Rightarrow> redirect \<Rightarrow> redirect" where
  "map_redirect f r = (case r of ToFile g \<Rightarrow> ToFile (f g) | _ \<Rightarrow> r)"

definition map_command :: "(string \<Rightarrow> string) \<Rightarrow> command \<Rightarrow> command" where
  "map_command f c = c\<lparr>stdin := map_option f (stdin c), stdout := map_redirect f (stdout c), stderr := map_redirect f (stderr c),
     argv := map f (argv c), env_vars := map_option (map (\<lambda>(k, v). (k, f v))) (env_vars c)\<rparr>"

definition map_texts :: "(string \<Rightarrow> string) \<Rightarrow> node \<Rightarrow> node" where
  "map_texts f nd = (case nd of Command c \<Rightarrow> Command (map_command f c) | Chdir d \<Rightarrow> Chdir (map_option f d) | _ \<Rightarrow> nd)"

lemma map_texts_simps [simp]:
  "map_texts f (Command c) = Command (map_command f c)" "map_texts f (Chdir d) = Chdir (map_option f d)"
  "map_texts f Pipe = Pipe" "map_texts f And = And" "map_texts f Or = Or"
  by (simp_all add: map_texts_def)

lemma subst_node_ok:
  assumes "\<forall>s\<in>set (node_texts nd). sub s = Inr (f s)" "nd \<noteq> Chdir None"
  shows "subst_node sub nd = Inr (map_texts f nd)"
proof (cases nd)
  case (Command c)
  have t: "sub s = Inr (f s)" if "s \<in> set (node_texts (Command c))" for s using assms(1) Command that by blast
  have i: "subst_option sub (stdin c) = Inr (map_option f (stdin c))"
    using t by (cases "stdin c") (auto simp: subst_option_def node_texts_def)
  have o1: "subst_redirect sub (stdout c) = Inr (map_redirect f (stdout c))"
    using t by (cases "stdout c") (auto simp: subst_redirect_def map_redirect_def node_texts_def)
  have o2: "subst_redirect sub (stderr c) = Inr (map_redirect f (stderr c))"
    using t by (cases "stderr c") (auto simp: subst_redirect_def map_redirect_def node_texts_def)
  have a: "py_map sub (argv c) = Inr (map f (argv c))"
    using t by (intro py_map_Inr) (simp add: node_texts_def)
  have e: "subst_env sub (env_vars c) = Inr (map_option (map (\<lambda>(k, v). (k, f v))) (env_vars c))"
  proof (cases "env_vars c")
    case (Some env)
    have "py_map (\<lambda>(k, v). py_bind (sub v) (\<lambda>t. Inr (k, t))) env = Inr (map (\<lambda>(k, v). (k, f v)) env)"
    proof (rule py_map_Inr)
      fix x
      assume "x \<in> set env"
      then have "sub (snd x) = Inr (f (snd x))" using t Some by (force simp: node_texts_def)
      then show "(case x of (k, v) \<Rightarrow> py_bind (sub v) (\<lambda>t. Inr (k, t))) = Inr (case x of (k, v) \<Rightarrow> (k, f v))"
        by (cases x) simp
    qed
    then show ?thesis using Some by (simp add: subst_env_def)
  qed (simp add: subst_env_def)
  show ?thesis by (simp add: Command subst_node_def i o1 o2 a e map_command_def)
next
  case (Chdir d)
  then show ?thesis using assms by (cases d) (auto simp: subst_node_def node_texts_def)
qed (simp_all add: subst_node_def)

lemma map_texts_structure:
  "prefix_ok ns \<Longrightarrow> prefix_ok (map (map_texts f) ns)" "unit_ok u \<Longrightarrow> unit_ok (map_texts f u)"
proof -
  have out: "stdout (map_command f c) = ToPipe \<longleftrightarrow> stdout c = ToPipe" for c
    by (cases "stdout c") (simp_all add: map_command_def map_redirect_def)
  show "prefix_ok ns \<Longrightarrow> prefix_ok (map (map_texts f) ns)"
    by (induction ns rule: prefix_ok.induct) (simp_all add: out)
  show "unit_ok u \<Longrightarrow> unit_ok (map_texts f u)"
    by (cases u) (simp_all add: unit_ok_def out)
qed

lemma dirs_ok_map: "dirs_ok ns \<Longrightarrow> dirs_ok (map (map_texts f) ns)"
  by (induction ns rule: dirs_ok.induct) simp_all

lemma dirs_ok_no_missing: "dirs_ok ns \<Longrightarrow> Chdir None \<notin> set ns"
  by (induction ns rule: dirs_ok.induct) auto

text \<open>Nothing is run when a substitution raises.\<close>

lemma run_task_error:
  assumes "parse cmd = Inr pl" "py_map (subst_node (subst_arg ev inputs outputs)) pl = Inl e"
  shows "run_task w verbose ev inputs outputs cmd = (new_runner, Inl e)"
  using assms by (simp add: run_task_def)

text \<open>A command task runs the pipeline its command line was parsed to, with every text of it replaced on its
  own. If each file name, argument, value and directory has a substitution, the processes started are exactly those
  of the reference chain for the same pipeline with the substituted texts, and its exit code is returned: what is
  substituted, blanks and operators included, never adds an argument, a redirection or a process.\<close>

theorem task_runs_pipeline:
  assumes "parse cmd = Inr pl" "dirs_ok pl" "all_starts w"
    "\<forall>nd\<in>set pl. \<forall>s\<in>set (node_texts nd). subst_arg ev inputs outputs s = Inr (f s)"
  shows "\<exists>st. run_task w False ev inputs outputs cmd = (st, Inr (snd (chain w 0 (plan w ''.'' False [] (map (map_texts f) pl))))) \<and>
    r_started st = fst (chain w 0 (plan w ''.'' False [] (map (map_texts f) pl))) \<and> r_open st = []"
proof -
  obtain ts where ts: "parse_tokens ts = Inr pl" using assms(1) by (auto simp: parse_def)
  obtain pre u where pl: "pl = pre @ [u]" "prefix_ok pre" "unit_ok u"
    using parse_tokens_well_formed [OF ts] by (auto simp: well_formed_def)
  have sub: "py_map (subst_node (subst_arg ev inputs outputs)) pl = Inr (map (map_texts f) pl)"
    by (rule py_map_Inr) (metis assms(4) dirs_ok_no_missing [OF assms(2)] subst_node_ok)
  have "r_started new_runner = [] @ []" "r_group new_runner = numbered (length []) []"
    by (simp_all add: new_runner_def numbered_def)
  from run_loop_plan [OF assms(3) map_texts_structure(1) [OF pl(2)] map_texts_structure(2) [OF pl(3)] _ this, of f]
    dirs_ok_map [OF assms(2), of f]
  show ?thesis using assms(1) sub by (simp add: run_task_def run_def pl(1) new_runner_def)
qed

theorem task_runs_pipeline_witness:
  "\<exists>st. run_task demo_world False demo_ev [demo_node ''a b''] [demo_node ''c''] ''cp ${SRC[0]} x'' = (st, Inr (Some 0)) \<and>
     map p_argv (r_started st) = [[''cp'', ''src/a b'', ''x'']]"
proof -
  define c where "c = \<lparr>name = ''cp'', argv = [''cp'', ''${SRC[0]}'', ''x''], stdin = None, stdout = NoRedirect, stderr = NoRedirect, env_vars = None\<rparr>"
  define f where "f = (\<lambda>s. if s = ''${SRC[0]}'' then ''src/a b'' else s)"
  let ?sub = "subst_arg demo_ev [demo_node ''a b''] [demo_node ''c'']"
  have "shlex_split ''cp ${SRC[0]} x'' = Inr [''cp'', ''${SRC[0]}'', ''x'']"
    by (simp add: shlex_split_def)
  moreover have "parse_tokens [''cp'', ''${SRC[0]}'', ''x''] = Inr [Command c]"
    unfolding c_def by code_simp
  ultimately have p: "parse ''cp ${SRC[0]} x'' = Inr [Command c]" by (simp add: parse_def)
  have expr: "?sub ''${SRC[0]}'' = Inr ''src/a b''"
    using subst_expr [of "''SRC''" "''[0]''" demo_ev "[demo_node ''a b'']" "[demo_node ''c'']" "[]"]
    by (simp add: template_ok_def name_char_def replacement_def demo_ev_def demo_node_def subst_arg_def join_pieces_def)
  have plain: "?sub s = Inr s" if "CHR ''$'' \<notin> set s" for s
  proof -
    have "subst_pieces demo_ev [demo_node ''a b''] [demo_node ''c''] s = Inr (map (\<lambda>c. Some [c]) s)"
      using that by (induction s) (auto simp: subst_pieces.simps(2) match_arg_plain)
    then show ?thesis using join_text [of s "[]"] by (simp add: subst_arg_def join_pieces_def)
  qed
  have "node_texts (Command c) = [''cp'', ''${SRC[0]}'', ''x'']" by (simp add: node_texts_def c_def)
  then have subs: "\<forall>nd\<in>set [Command c]. \<forall>s\<in>set (node_texts nd). ?sub s = Inr (f s)"
    using expr by (simp add: f_def plain)
  have w: "dirs_ok [Command c]" "all_starts demo_world" by (simp_all add: all_starts_def demo_world_def)
  define m where "m = map_command f c"
  have m: "argv m = [''cp'', ''src/a b'', ''x'']" by (simp add: m_def map_command_def c_def f_def)
  have run: "chain demo_world 0 (plan demo_world ''.'' False [] (map (map_texts f) [Command c])) = ([the_process demo_world ''.'' False m], Some 0)"
    by (simp add: group_exit_def demo_world_def the_process_def m m_def [symmetric])
  from task_runs_pipeline [OF p w subs] obtain st where
    "run_task demo_world False demo_ev [demo_node ''a b''] [demo_node ''c''] ''cp ${SRC[0]} x'' = (st, Inr (Some 0))"
    "r_started st = [the_process demo_world ''.'' False m]"
    unfolding run fst_conv snd_conv by blast
  then show ?thesis by (intro exI [of _ st]) (simp add: the_process_def m)
qed

end
