(* ===== verification/Ns3rc.thy ===== *)
theory Ns3rc
  imports Py_Base
begin

text \<open>
  \<open>src/utils.py\<close>: reading lists and booleans from Python-like configuration files, as
  \<open>test.py\<close> and waf do for \<open>.ns3rc\<close>, \<open>build-status.py\<close> and \<open>examples-to-run.py\<close>.

  The file system is the parameter \<open>fs\<close>: the lines of a file, \<open>None\<close> when the path does not
  exist. Python's \<open>eval\<close>, which the code calls on the text it collects, is the parameter
  \<open>ev\<close>; it may raise. A variable that may be unbound is an option.
\<close>

type_synonym file_system = "string \<Rightarrow> string list option"

definition remove_comment :: "string \<Rightarrow> string" where
  "remove_comment line =
     (if CHR ''#'' \<in> set line then hd (split_once (CHR ''#'') line) else line)"

definition eval_assigned :: "(string \<Rightarrow> py_exn + 'v) \<Rightarrow> string \<Rightarrow> py_exn + 'v" where
  "eval_assigned ev s =
     py_bind (py_index (split_once (CHR ''='') s) 1) (\<lambda>rhs. ev (py_strip rhs))"

fun find_list :: "(string \<Rightarrow> py_exn + 'v list) \<Rightarrow> string \<Rightarrow> string \<Rightarrow> bool \<Rightarrow> string list \<Rightarrow> py_exn + 'v list" where
  "find_list ev list_name list_string multiline [] = Inr []"
| "find_list ev list_name list_string multiline (line # rest) =
     (let line = remove_comment line
      in if is_substring list_name line \<or> multiline
         then let list_string = list_string @ line
              in if CHR '']'' \<notin> set list_string then find_list ev list_name list_string True rest
                 else eval_assigned ev list_string
         else find_list ev list_name list_string multiline rest)"

definition get_list_from_file ::
  "file_system \<Rightarrow> (string \<Rightarrow> py_exn + 'v list) \<Rightarrow> string \<Rightarrow> string \<Rightarrow> py_exn + 'v list" where
  "get_list_from_file fs ev file_path list_name =
     (case fs file_path of None \<Rightarrow> Inr [] | Some ls \<Rightarrow> find_list ev list_name [] False ls)"

fun find_bool :: "(string \<Rightarrow> py_exn + 'v) \<Rightarrow> string \<Rightarrow> string list \<Rightarrow> py_exn + 'v option" where
  "find_bool ev bool_name [] = Inr None"
| "find_bool ev bool_name (line # rest) =
     (let line = remove_comment line
      in if is_substring bool_name line then py_bind (eval_assigned ev line) (\<lambda>v. Inr (Some v))
         else find_bool ev bool_name rest)"

text \<open>\<open>bool_found\<close> is only assigned when the file exists.\<close>

definition get_bool_from_file ::
  "file_system \<Rightarrow> (string \<Rightarrow> py_exn + 'v) \<Rightarrow> string \<Rightarrow> string \<Rightarrow> 'v \<Rightarrow> py_exn + 'v" where
  "get_bool_from_file fs ev file_path bool_name value_if_missing =
     (case fs file_path of
        None \<Rightarrow> Inl NameError
      | Some ls \<Rightarrow>
          py_bind (find_bool ev bool_name ls) (\<lambda>found.
            Inr (case found of None \<Rightarrow> value_if_missing | Some v \<Rightarrow> v)))"

definition read_config_file ::
  "file_system \<Rightarrow> (string \<Rightarrow> string) \<Rightarrow> (string \<Rightarrow> py_exn + string list) \<Rightarrow> (string \<Rightarrow> py_exn + bool)
     \<Rightarrow> py_exn + (bool \<times> string list \<times> bool \<times> bool)" where
  "read_config_file fs expanduser ev_list ev_bool =
     (let read = (\<lambda>path.
            py_bind (get_list_from_file fs ev_list path ''modules_enabled'') (\<lambda>modules_enabled.
            let modules_enabled = (if modules_enabled = [] then [''all_modules''] else modules_enabled)
            in py_bind (get_bool_from_file fs ev_bool path ''examples_enabled'' False) (\<lambda>examples_enabled.
               py_bind (get_bool_from_file fs ev_bool path ''tests_enabled'' False) (\<lambda>tests_enabled.
               Inr (True, modules_enabled, examples_enabled, tests_enabled)))));
          home_path = expanduser ''~/'' @ ''.ns3rc''
      in if fs ''.ns3rc'' = None
         then if fs home_path = None then Inr (False, [''all_modules''], False, False) else read home_path
         else read ''.ns3rc'')"

lemma find_list_skip:
  "\<forall>l\<in>set a. \<not> is_substring nm (remove_comment l) \<Longrightarrow>
   find_list ev nm s False (a @ b) = find_list ev nm s False b"
  by (induction a) (auto simp: Let_def)

lemma find_list_collect:
  assumes "CHR '']'' \<notin> set s" "CHR '']'' \<notin> set (concat (map remove_comment m))"
    "CHR '']'' \<in> set (remove_comment l)"
  shows "find_list ev nm s True (m @ l # rest)
    = eval_assigned ev (s @ concat (map remove_comment (m @ [l])))"
  using assms by (induction m arbitrary: s) (auto simp: Let_def)

text \<open>\<open>get_list_from_file\<close> evaluates what stands behind the first equals sign of the
  definition of the list: the first line that mentions the name, comments removed, together
  with the following lines up to the first that has a closing bracket. A file that is
  missing, or does not mention the name, gives the empty list.\<close>

theorem get_list_from_file_spec:
  assumes "\<forall>l\<in>set before. \<not> is_substring list_name (remove_comment l)"
    "is_substring list_name (concat (map remove_comment (take 1 (body @ [final]))))"
    "CHR '']'' \<notin> set (concat (map remove_comment body))" "CHR '']'' \<in> set (remove_comment final)"
  shows "(fs path = Some (before @ body @ final # after) \<longrightarrow>
      get_list_from_file fs ev path list_name = eval_assigned ev (concat (map remove_comment (body @ [final])))) \<and>
    (fs path = None \<or> fs path = Some before \<longrightarrow> get_list_from_file fs ev path list_name = Inr [])"
proof -
  have "find_list ev list_name [] False (body @ final # after)
      = eval_assigned ev (concat (map remove_comment (body @ [final])))"
  proof (cases body)
    case Nil
    then show ?thesis using assms by (simp add: Let_def)
  next
    case (Cons l m)
    then show ?thesis using assms find_list_collect [of "remove_comment l" m final ev list_name after]
      by (simp add: Let_def)
  qed
  moreover have "find_list ev list_name [] False (before @ []) = Inr []"
    using find_list_skip [OF assms(1), of ev "[]" "[]"] by simp
  ultimately show ?thesis using find_list_skip [OF assms(1), of ev "[]" "body @ final # after"]
    by (auto simp: get_list_from_file_def)
qed

theorem get_list_from_file_spec_witness:
  "get_list_from_file (\<lambda>p. Some [''# a list'', ''cpp_examples = [1, # one'', '' 2]'', ''x = 3'']) (\<lambda>s. Inr [s]) ''f'' ''cpp_examples''
     = Inr [''[1,  2]'']"
proof -
  have "get_list_from_file (\<lambda>p. Some ([''# a list''] @ [''cpp_examples = [1, # one''] @ '' 2]'' # [''x = 3'']))
      (\<lambda>s. Inr [s]) ''f'' ''cpp_examples''
     = eval_assigned (\<lambda>s. Inr [s]) (concat (map remove_comment ([''cpp_examples = [1, # one''] @ ['' 2]''])))"
    by (rule get_list_from_file_spec [THEN conjunct1, rule_format, OF _ _ _ _ refl])
      (simp_all add: remove_comment_def split_once_def starts_with_def)
  also have "\<dots> = Inr [''[1,  2]'']"
    by (simp add: eval_assigned_def remove_comment_def split_once_def py_index_def py_strip_def is_space_def)
  finally show ?thesis by simp
qed

text \<open>\<open>get_bool_from_file\<close> raises \<open>NameError\<close> for a file that does not exist, where its
  description promises the default value; for an existing file the default is returned
  exactly when no line mentions the name.\<close>

theorem get_bool_from_file_missing:
  "(fs path = None \<longrightarrow> get_bool_from_file fs ev path nm dflt = Inl NameError) \<and>
   (fs path = Some ls \<longrightarrow> (\<forall>l\<in>set ls. \<not> is_substring nm (remove_comment l)) \<longrightarrow>
      get_bool_from_file fs ev path nm dflt = Inr dflt) \<and>
   (fs path = Some (ls @ l # rest) \<longrightarrow> (\<forall>l\<in>set ls. \<not> is_substring nm (remove_comment l)) \<longrightarrow>
      is_substring nm (remove_comment l) \<longrightarrow>
      get_bool_from_file fs ev path nm dflt = eval_assigned ev (remove_comment l))"
proof -
  have skip: "\<forall>l\<in>set ls. \<not> is_substring nm (remove_comment l) \<Longrightarrow>
      find_bool ev nm (ls @ r) = find_bool ev nm r" for r
    by (induction ls) (auto simp: Let_def)
  have "py_bind (py_bind x (\<lambda>v. Inr (Some v))) (\<lambda>found. Inr (case found of None \<Rightarrow> dflt | Some v \<Rightarrow> v)) = x" for x
    by (cases x) simp_all
  then show ?thesis using skip [of "[]"] skip [of "l # rest"]
    by (auto simp: get_bool_from_file_def Let_def)
qed

theorem get_bool_from_file_missing_witness:
  "get_bool_from_file (\<lambda>p. None) (\<lambda>s. Inr True) ''.ns3rc'' ''tests_enabled'' False = Inl NameError"
  using get_bool_from_file_missing [of "\<lambda>p. None" "''.ns3rc''" "\<lambda>s. Inr True" "''tests_enabled''" False] by simp

end
