(* ===== verification/Test_Jobs.thy ===== *)
theory Test_Jobs
  imports Py_Base
begin

text \<open>
  The jobs of \<open>src/test.py\<close> and the worker threads that run them: class \<open>Job\<close>,
  \<open>run_job_synchronously\<close>, \<open>worker_thread.run\<close>, and the dispatching and collecting that
  \<open>run_tests\<close> does around them, as a step relation over the two queues, the threads and the
  main thread.

  The shell that runs a command line is the parameter \<open>sh\<close> of type \<open>shell\<close>: given the
  command and the directory it answers return code, standard output, standard error and the
  elapsed time. Times are kept in milliseconds, the precision with which they are printed.
\<close>

section \<open>Options and configuration\<close>

record test_options =
  opt_buildpath :: string
  opt_constrain :: string
  opt_duration :: bool
  opt_example :: string
  opt_update_data :: bool
  opt_fullness :: string
  opt_valgrind :: bool
  opt_kinds :: bool
  opt_list :: bool
  opt_multiple :: bool
  opt_nowaf :: bool
  opt_pyexample :: string
  opt_retain :: bool
  opt_suite :: string
  opt_text :: string
  opt_verbose :: bool
  opt_html :: string
  opt_xml :: string

definition default_options :: test_options where
  "default_options =
     \<lparr>opt_buildpath = [], opt_constrain = [], opt_duration = False, opt_example = [], opt_update_data = False,
      opt_fullness = ''QUICK'', opt_valgrind = False, opt_kinds = False, opt_list = False, opt_multiple = False,
      opt_nowaf = False, opt_pyexample = [], opt_retain = False, opt_suite = [], opt_text = [],
      opt_verbose = False, opt_html = [], opt_xml = []\<rparr>"

record waf_config =
  NS3_BASEDIR :: string
  NS3_BUILDDIR :: string
  NS3_ENABLED_MODULES :: "string list"
  NS3_MODULE_PATH :: "string list"
  NSC_ENABLED :: bool
  ENABLE_EXAMPLES :: bool
  ENABLE_TESTS :: bool
  ENABLE_PYTHON_BINDINGS :: bool
  EXAMPLE_DIRECTORIES :: "string list"
  APPNAME :: string
  BUILD_PROFILE :: string
  BUILD_PROFILE_SUFFIX :: string
  VERSION :: string
  PYTHON :: "string list"
  VALGRIND_FOUND :: bool

section \<open>Jobs\<close>

record job =
  is_break :: bool
  is_skip :: bool
  is_example :: bool
  is_pyexample :: bool
  shell_command :: string
  display_name :: string
  basedir :: string
  tempdir :: string
  cwd :: string
  tmp_file_name :: string
  returncode :: int
  elapsed_time :: int
  build_path :: string

definition Job :: job where
  "Job = \<lparr>is_break = False, is_skip = False, is_example = False, is_pyexample = False,
     shell_command = [], display_name = [], basedir = [], tempdir = [], cwd = [], tmp_file_name = [],
     returncode = 0, elapsed_time = 0, build_path = []\<rparr>"

definition set_is_break :: "bool \<Rightarrow> job \<Rightarrow> job" where "set_is_break b j = j\<lparr>is_break := b\<rparr>"
definition set_is_skip :: "bool \<Rightarrow> job \<Rightarrow> job" where "set_is_skip b j = j\<lparr>is_skip := b\<rparr>"
definition set_is_example :: "bool \<Rightarrow> job \<Rightarrow> job" where "set_is_example b j = j\<lparr>is_example := b\<rparr>"
definition set_is_pyexample :: "bool \<Rightarrow> job \<Rightarrow> job" where "set_is_pyexample b j = j\<lparr>is_pyexample := b\<rparr>"
definition set_shell_command :: "string \<Rightarrow> job \<Rightarrow> job" where "set_shell_command s j = j\<lparr>shell_command := s\<rparr>"
definition set_build_path :: "string \<Rightarrow> job \<Rightarrow> job" where "set_build_path s j = j\<lparr>build_path := s\<rparr>"
definition set_display_name :: "string \<Rightarrow> job \<Rightarrow> job" where "set_display_name s j = j\<lparr>display_name := s\<rparr>"
definition set_basedir :: "string \<Rightarrow> job \<Rightarrow> job" where "set_basedir s j = j\<lparr>basedir := s\<rparr>"
definition set_tempdir :: "string \<Rightarrow> job \<Rightarrow> job" where "set_tempdir s j = j\<lparr>tempdir := s\<rparr>"
definition set_cwd :: "string \<Rightarrow> job \<Rightarrow> job" where "set_cwd s j = j\<lparr>cwd := s\<rparr>"
definition set_tmp_file_name :: "string \<Rightarrow> job \<Rightarrow> job" where "set_tmp_file_name s j = j\<lparr>tmp_file_name := s\<rparr>"
definition set_returncode :: "int \<Rightarrow> job \<Rightarrow> job" where "set_returncode r j = j\<lparr>returncode := r\<rparr>"
definition set_elapsed_time :: "int \<Rightarrow> job \<Rightarrow> job" where "set_elapsed_time t j = j\<lparr>elapsed_time := t\<rparr>"

lemmas job_setters = set_is_break_def set_is_skip_def set_is_example_def set_is_pyexample_def
  set_shell_command_def set_build_path_def set_display_name_def set_basedir_def set_tempdir_def
  set_cwd_def set_tmp_file_name_def set_returncode_def set_elapsed_time_def

lemma is_break_setters [simp]:
  "\<not> is_break Job" "is_break (set_is_break b j) = b" "is_break (set_is_skip b j) = is_break j"
  "is_break (set_is_example b j) = is_break j" "is_break (set_is_pyexample b j) = is_break j"
  "is_break (set_shell_command s j) = is_break j" "is_break (set_build_path s j) = is_break j"
  "is_break (set_display_name s j) = is_break j" "is_break (set_basedir s j) = is_break j"
  "is_break (set_tempdir s j) = is_break j" "is_break (set_cwd s j) = is_break j"
  "is_break (set_tmp_file_name s j) = is_break j" "is_break (set_returncode r j) = is_break j"
  "is_break (set_elapsed_time r j) = is_break j"
  by (simp_all add: Job_def job_setters)

section \<open>Running one job\<close>

type_synonym shell = "string \<Rightarrow> string \<Rightarrow> int \<times> string \<times> string \<times> int"

definition job_command :: "waf_config \<Rightarrow> string \<Rightarrow> bool \<Rightarrow> bool \<Rightarrow> string \<Rightarrow> py_exn + string" where
  "job_command cfg command valgrind is_python bpath =
     (let suppressions_path = path_join (NS3_BASEDIR cfg) ''testpy.supp''
      in py_bind (if is_python
                  then py_bind (py_index (PYTHON cfg) 0) (\<lambda>py.
                         Inr (py @ '' '' @ path_join (NS3_BASEDIR cfg) command))
                  else if bpath \<noteq> [] then Inr (path_join bpath command)
                  else Inr (path_join (NS3_BUILDDIR cfg) command))
           (\<lambda>path_cmd. Inr (if valgrind
              then ''valgrind --suppressions='' @ suppressions_path @
                   '' --leak-check=full --show-reachable=yes --error-exitcode=2 '' @ path_cmd
              else path_cmd)))"

definition run_job_synchronously ::
  "shell \<Rightarrow> waf_config \<Rightarrow> string \<Rightarrow> string \<Rightarrow> bool \<Rightarrow> bool \<Rightarrow> string \<Rightarrow> py_exn + (int \<times> string \<times> string \<times> int)" where
  "run_job_synchronously sh cfg command directory valgrind is_python bpath =
     py_bind (job_command cfg command valgrind is_python bpath) (\<lambda>cmd.
       case sh cmd directory of (retval, stdout_results, stderr_results, elapsed) \<Rightarrow>
         Inr (if valgrind \<and> retval = 0 \<and> is_substring ''== LEAK SUMMARY:'' stderr_results then 2 else retval,
              stdout_results, stderr_results, elapsed))"

text \<open>The part of \<open>worker_thread.run\<close> that runs a job which is neither a break nor skipped.\<close>

definition exec_job :: "shell \<Rightarrow> waf_config \<Rightarrow> test_options \<Rightarrow> job \<Rightarrow> py_exn + job" where
  "exec_job sh cfg opts j =
     py_bind (if is_example j \<or> is_pyexample j
              then run_job_synchronously sh cfg (shell_command j) (cwd j) (opt_valgrind opts)
                     (is_pyexample j) (build_path j)
              else run_job_synchronously sh cfg
                     (shell_command j @ '' --xml --tempdir='' @ tempdir j @ '' --out='' @ tmp_file_name j @ '' '' @
                        (if opt_update_data opts then ''--update-data'' else []))
                     (cwd j) (opt_valgrind opts) False [])
       (\<lambda>(rc, standard_out, standard_err, et). Inr (set_elapsed_time et (set_returncode rc j)))"

section \<open>Queues\<close>

text \<open>
  \<open>Queue.Queue(0)\<close> has no bound: \<open>put\<close> never blocks and \<open>get\<close> blocks (\<open>None\<close>) on an empty
  queue. The interface the test driver relies on: nothing is lost or invented, and what is
  put first is taken first.
\<close>

type_synonym job_queue = "job list"

definition queue_put :: "'a list \<Rightarrow> 'a \<Rightarrow> 'a list" where
  "queue_put q x = q @ [x]"

definition queue_get :: "'a list \<Rightarrow> ('a \<times> 'a list) option" where
  "queue_get q = (case q of [] \<Rightarrow> None | x # r \<Rightarrow> Some (x, r))"

locale fifo =
  fixes empty :: 'q
    and put :: "'q \<Rightarrow> 'a \<Rightarrow> 'q"
    and get :: "'q \<Rightarrow> ('a \<times> 'q) option"
    and items :: "'q \<Rightarrow> 'a list"
  assumes items_empty: "items empty = []"
    and items_put: "items (put q x) = items q @ [x]"
    and get_none: "get q = None \<longleftrightarrow> items q = []"
    and get_some: "get q = Some (x, r) \<Longrightarrow> items q = x # items r"
begin

lemma items_puts: "items (foldl put q xs) = items q @ xs"
  by (induction xs arbitrary: q) (simp_all add: items_put)

lemma get_mset: "get q = Some (x, r) \<Longrightarrow> mset (items q) = add_mset x (mset (items r))"
  by (simp add: get_some)

lemma get_nonempty: "items q \<noteq> [] \<Longrightarrow> \<exists>x r. get q = Some (x, r) \<and> items q = x # items r"
  by (metis get_none get_some not_None_eq surj_pair)

lemma get_puts: "get (foldl put empty (x # xs)) = Some (y, r) \<Longrightarrow> y = x \<and> items r = xs"
  using get_some [of "foldl put empty (x # xs)" y r] items_puts [of empty "x # xs"]
  by (simp add: items_empty)

end

interpretation jq: fifo "[]" queue_put queue_get "\<lambda>q. q"
  by unfold_locales (auto simp: queue_put_def queue_get_def split: list.splits)

section \<open>Threads and main thread as a step relation\<close>

text \<open>
  A worker is blocked on or about to read the input queue (\<open>Idle\<close>), running a job, has
  returned, or has died of an exception. The main thread first puts \<open>todo\<close> (the jobs and one
  break job per worker) and then takes as many results as it dispatched jobs. Any
  interleaving of these steps is possible, and the interrupt handler may set \<open>thread_exit\<close>
  at any time.
\<close>

datatype worker = Idle | Running job | Returned | Died

record pool =
  todo :: "job list"
  input_queue :: "job list"
  output_queue :: "job list"
  workers :: "worker list"
  left_to_get :: nat
  collected :: "job list"
  thread_exit :: bool

definition worker_take :: "job \<Rightarrow> bool \<Rightarrow> worker \<times> job list" where
  "worker_take j exiting =
     (if is_break j then (Returned, [])
      else if exiting then (Idle, [set_is_break True j])
      else if is_skip j then (Idle, [j])
      else (Running j, []))"

inductive pool_step :: "(job \<Rightarrow> py_exn + job) \<Rightarrow> pool \<Rightarrow> pool \<Rightarrow> bool" for ex where
  put: "todo p = j # r \<Longrightarrow>
    pool_step ex p (p\<lparr>todo := r, input_queue := queue_put (input_queue p) j\<rparr>)"
| take: "i < length (workers p) \<Longrightarrow> workers p ! i = Idle \<Longrightarrow> queue_get (input_queue p) = Some (j, q) \<Longrightarrow>
    worker_take j (thread_exit p) = (w, out) \<Longrightarrow>
    pool_step ex p (p\<lparr>input_queue := q, workers := (workers p)[i := w],
      output_queue := foldl queue_put (output_queue p) out\<rparr>)"
| finish: "i < length (workers p) \<Longrightarrow> workers p ! i = Running j \<Longrightarrow> ex j = Inr j' \<Longrightarrow>
    pool_step ex p (p\<lparr>workers := (workers p)[i := Idle], output_queue := queue_put (output_queue p) j'\<rparr>)"
| die: "i < length (workers p) \<Longrightarrow> workers p ! i = Running j \<Longrightarrow> ex j = Inl e \<Longrightarrow>
    pool_step ex p (p\<lparr>workers := (workers p)[i := Died]\<rparr>)"
| get: "todo p = [] \<Longrightarrow> left_to_get p = Suc n \<Longrightarrow> queue_get (output_queue p) = Some (j, q) \<Longrightarrow>
    pool_step ex p (p\<lparr>left_to_get := n, output_queue := q, collected := collected p @ [j]\<rparr>)"
| interrupt: "\<not> thread_exit p \<Longrightarrow> pool_step ex p (p\<lparr>thread_exit := True\<rparr>)"

definition break_job :: job where
  "break_job = set_is_break True Job"

definition start_pool :: "nat \<Rightarrow> job list \<Rightarrow> pool" where
  "start_pool processors jobs =
     \<lparr>todo = jobs @ replicate processors break_job, input_queue = [], output_queue = [],
      workers = replicate processors Idle, left_to_get = length jobs, collected = [], thread_exit = False\<rparr>"

definition finished :: "pool \<Rightarrow> bool" where
  "finished p \<longleftrightarrow> left_to_get p = 0 \<and> todo p = [] \<and> list_all (\<lambda>w. w = Returned) (workers p)"

subsection \<open>What is pending and what was reported\<close>

definition reported :: "(job \<Rightarrow> py_exn + job) \<Rightarrow> bool \<Rightarrow> job \<Rightarrow> job \<Rightarrow> bool" where
  "reported ex interrupted j r \<longleftrightarrow>
     (interrupted \<and> r = set_is_break True j) \<or> (is_skip j \<and> r = j) \<or> (\<not> is_skip j \<and> ex j = Inr r)"

definition real_jobs :: "job list \<Rightarrow> job list" where
  "real_jobs js = filter (\<lambda>j. \<not> is_break j) js"

definition break_count :: "job list \<Rightarrow> nat" where
  "break_count js = length (filter is_break js)"

fun in_worker :: "worker \<Rightarrow> job list" where
  "in_worker (Running j) = [j]"
| "in_worker w = []"

definition pending :: "pool \<Rightarrow> job multiset" where
  "pending p = mset (real_jobs (input_queue p @ todo p)) + mset (concat (map in_worker (workers p)))"

definition pool_inv :: "(job \<Rightarrow> py_exn + job) \<Rightarrow> nat \<Rightarrow> job list \<Rightarrow> pool \<Rightarrow> bool" where
  "pool_inv ex n jobs p \<longleftrightarrow>
     length (workers p) = n \<and>
     left_to_get p + length (collected p) = length jobs \<and>
     break_count (input_queue p @ todo p) = length (filter (\<lambda>w. w \<noteq> Returned) (workers p)) \<and>
     (\<exists>a b. input_queue p @ todo p = a @ b \<and> list_all (\<lambda>j. \<not> is_break j) a \<and> list_all is_break b) \<and>
     (Returned \<in> set (workers p) \<longrightarrow> real_jobs (input_queue p @ todo p) = []) \<and>
     (\<forall>j. Running j \<in> set (workers p) \<longrightarrow> \<not> is_break j \<and> \<not> is_skip j) \<and>
     Died \<notin> set (workers p) \<and>
     (\<exists>A. rel_mset (reported ex (thread_exit p)) A (mset (output_queue p) + mset (collected p)) \<and>
          A + pending p = mset jobs)"

lemma real_jobs_append [simp]: "real_jobs (a @ b) = real_jobs a @ real_jobs b"
  by (simp add: real_jobs_def)

lemma break_count_append [simp]: "break_count (a @ b) = break_count a + break_count b"
  by (simp add: break_count_def)

lemma real_jobs_Cons [simp]: "real_jobs (j # js) = (if is_break j then real_jobs js else j # real_jobs js)"
  by (simp add: real_jobs_def)

lemma break_count_Cons [simp]: "break_count (j # js) = (if is_break j then Suc (break_count js) else break_count js)"
  by (simp add: break_count_def)

lemma real_jobs_breaks: "list_all is_break js \<Longrightarrow> real_jobs js = []"
  by (simp add: real_jobs_def list_all_iff filter_empty_conv)

lemma break_count_zero: "break_count js = 0 \<Longrightarrow> real_jobs js = [] \<Longrightarrow> js = []"
  by (cases js) (auto split: if_splits)

lemma workers_update:
  assumes "i < length ws"
  shows "mset (concat (map in_worker (ws[i := w]))) + mset (in_worker (ws ! i))
      = mset (concat (map in_worker ws)) + mset (in_worker w)"
    "length (filter (\<lambda>w. w \<noteq> Returned) (ws[i := w])) + (if ws ! i \<noteq> Returned then 1 else 0)
      = length (filter (\<lambda>w. w \<noteq> Returned) ws) + (if w \<noteq> Returned then 1 else 0)"
proof -
  obtain a b where ws: "ws = a @ ws ! i # b" "length a = i"
    using assms id_take_nth_drop [OF assms] by (metis length_take min.absorb4)
  have upd: "ws[i := w] = a @ w # b" using ws by (metis list_update_length)
  have "mset (concat (map in_worker ws)) = mset (concat (map in_worker a)) + mset (in_worker (ws ! i)) +
      mset (concat (map in_worker b))" by (subst ws(1)) simp
  then show "mset (concat (map in_worker (ws[i := w]))) + mset (in_worker (ws ! i))
      = mset (concat (map in_worker ws)) + mset (in_worker w)" by (simp add: upd)
  have "length (filter (\<lambda>w. w \<noteq> Returned) ws) = length (filter (\<lambda>w. w \<noteq> Returned) a) +
      (if ws ! i \<noteq> Returned then 1 else 0) + length (filter (\<lambda>w. w \<noteq> Returned) b)" by (subst ws(1)) simp
  then show "length (filter (\<lambda>w. w \<noteq> Returned) (ws[i := w])) + (if ws ! i \<noteq> Returned then 1 else 0)
      = length (filter (\<lambda>w. w \<noteq> Returned) ws) + (if w \<noteq> Returned then 1 else 0)" by (simp add: upd)
qed

lemma reported_mono: "reported ex b j r \<Longrightarrow> reported ex True j r"
  by (auto simp: reported_def)

lemma rel_mset_add1:
  "rel_mset R A B \<Longrightarrow> R a b \<Longrightarrow> rel_mset R (add_mset a A) (add_mset b B)"
  by (rule rel_mset_Plus)

lemma pool_inv_start:
  assumes "list_all (\<lambda>j. \<not> is_break j) jobs"
  shows "pool_inv ex n jobs (start_pool n jobs)"
proof -
  have breaks: "list_all is_break (replicate n break_job)"
    by (simp add: list_all_iff break_job_def set_is_break_def)
  have "real_jobs jobs = jobs" using assms by (simp add: real_jobs_def list_all_iff)
  moreover have "break_count jobs = 0"
    using assms by (simp add: break_count_def list_all_iff filter_empty_conv)
  moreover have "break_count (replicate n break_job) = n" for n
    by (induction n) (simp_all add: break_count_def break_job_def set_is_break_def)
  moreover have "mset (concat (map in_worker (replicate n Idle))) = {#}" for n
    by (induction n) simp_all
  moreover have "\<exists>a b. jobs @ replicate n break_job = a @ b \<and> list_all (\<lambda>j. \<not> is_break j) a \<and> list_all is_break b"
    using assms breaks by blast
  moreover have "rel_mset (reported ex False) {#} {#}" by (rule rel_mset_Zero)
  ultimately show ?thesis
    using real_jobs_breaks [OF breaks] by (auto simp: pool_inv_def start_pool_def pending_def filter_replicate)
qed

lemma step_put:
  assumes "pool_inv ex n jobs p" "todo p = j # r"
  shows "pool_inv ex n jobs (p\<lparr>todo := r, input_queue := queue_put (input_queue p) j\<rparr>)"
  using assms by (simp add: pool_inv_def pending_def queue_put_def)

lemma step_take:
  assumes inv: "pool_inv ex n jobs p" and i: "i < length (workers p)" "workers p ! i = Idle"
    and g: "queue_get (input_queue p) = Some (j, q)"
    and t: "worker_take j (thread_exit p) = (w, out)"
  shows "pool_inv ex n jobs (p\<lparr>input_queue := q, workers := (workers p)[i := w],
    output_queue := foldl queue_put (output_queue p) out\<rparr>)" (is "pool_inv _ _ _ ?p")
proof -
  note upd = workers_update [OF i(1), of w]
  have q: "input_queue p = j # q" using g by (rule jq.get_some)
  obtain a b where ab: "j # q @ todo p = a @ b" "list_all (\<lambda>j. \<not> is_break j) a" "list_all is_break b"
    using inv q by (auto simp: pool_inv_def)
  have all_breaks: "is_break j \<Longrightarrow> a = []" using ab by (cases a) auto
  have order: "\<exists>a b. q @ todo p = a @ b \<and> list_all (\<lambda>j. \<not> is_break j) a \<and> list_all is_break b"
  proof (cases a)
    case Nil
    then have "list_all is_break (q @ todo p)" using ab by auto
    then show ?thesis by (intro exI [of _ "[]"] exI [of _ "q @ todo p"]) simp
  next
    case (Cons x a')
    then show ?thesis using ab by (intro exI [of _ a'] exI [of _ b]) auto
  qed
  have nobreak: "\<not> is_break j \<Longrightarrow> Returned \<notin> set (workers p)"
    using inv q by (auto simp: pool_inv_def)
  have set_upd: "set ((workers p)[i := w]) \<subseteq> insert w (set (workers p))" by (rule set_update_subset_insert)
  obtain A where A: "rel_mset (reported ex (thread_exit p)) A (mset (output_queue p) + mset (collected p))"
      "A + pending p = mset jobs"
    using inv by (auto simp: pool_inv_def)
  have out: "mset (output_queue ?p) = mset (output_queue p) + mset out"
    by (simp add: jq.items_puts)
  have w: "w = Returned \<longleftrightarrow> is_break j" "w \<noteq> Died" "\<And>k. w = Running k \<Longrightarrow> k = j \<and> \<not> is_break j \<and> \<not> is_skip j"
    using t by (auto simp: worker_take_def split: if_splits)
  have pend: "mset (concat (map in_worker ((workers p)[i := w]))) = mset (concat (map in_worker (workers p))) + mset (in_worker w)"
    using upd(1) i(2) by simp
  have "\<exists>A. rel_mset (reported ex (thread_exit p)) A (mset (output_queue ?p) + mset (collected p)) \<and>
      A + pending ?p = mset jobs"
  proof (cases out)
    case Nil
    then have "in_worker w = (if is_break j then [] else [j])"
      using t by (auto simp: worker_take_def split: if_splits)
    then have "pending ?p = pending p" by (simp add: pending_def q pend)
    then show ?thesis using A out Nil by (intro exI [of _ A]) simp
  next
    case (Cons r out')
    then have r: "reported ex (thread_exit p) j r" "out' = []" "in_worker w = []" "\<not> is_break j"
      using t by (auto simp: worker_take_def reported_def split: if_splits)
    then have "pending p = add_mset j (pending ?p)" by (simp add: pending_def q pend)
    then show ?thesis using A out Cons r rel_mset_add1 [OF A(1) r(1)]
      by (intro exI [of _ "add_mset j A"]) simp
  qed
  moreover have "break_count (q @ todo p) = length (filter (\<lambda>w. w \<noteq> Returned) ((workers p)[i := w]))"
    using inv q upd(2) i(2) w(1) by (auto simp: pool_inv_def split: if_splits)
  moreover have "Returned \<in> set ((workers p)[i := w]) \<longrightarrow> real_jobs (q @ todo p) = []"
  proof
    assume "Returned \<in> set ((workers p)[i := w])"
    then have "is_break j" using set_upd nobreak w(1) by blast
    then have "list_all is_break (j # q @ todo p)" using all_breaks ab by simp
    then have "list_all is_break (q @ todo p)" by simp
    then show "real_jobs (q @ todo p) = []" by (rule real_jobs_breaks)
  qed
  moreover have "\<forall>k. Running k \<in> set ((workers p)[i := w]) \<longrightarrow> \<not> is_break k \<and> \<not> is_skip k"
    using inv set_upd w(3) by (auto simp: pool_inv_def)
  moreover have "Died \<notin> set ((workers p)[i := w])" using inv set_upd w(2) by (auto simp: pool_inv_def)
  ultimately show ?thesis using inv order by (simp add: pool_inv_def)
qed

lemma step_finish:
  assumes inv: "pool_inv ex n jobs p" and i: "i < length (workers p)" "workers p ! i = Running j" and ex: "ex j = Inr j'"
  shows "pool_inv ex n jobs (p\<lparr>workers := (workers p)[i := Idle], output_queue := queue_put (output_queue p) j'\<rparr>)"
    (is "pool_inv _ _ _ ?p")
proof -
  note upd = workers_update [OF i(1), of Idle]
  have run: "\<not> is_break j" "\<not> is_skip j" using inv i by (auto simp: pool_inv_def in_set_conv_nth)
  have set_upd: "set ((workers p)[i := Idle]) \<subseteq> insert Idle (set (workers p))" by (rule set_update_subset_insert)
  obtain A where A: "rel_mset (reported ex (thread_exit p)) A (mset (output_queue p) + mset (collected p))"
      "A + pending p = mset jobs"
    using inv by (auto simp: pool_inv_def)
  have "reported ex (thread_exit p) j j'" using ex run by (simp add: reported_def)
  from rel_mset_add1 [OF A(1) this] have "rel_mset (reported ex (thread_exit p)) (add_mset j A)
      (mset (output_queue ?p) + mset (collected p))" by (simp add: jq.items_put)
  moreover have "pending p = add_mset j (pending ?p)" using upd(1) i(2) by (simp add: pending_def)
  ultimately have "\<exists>A. rel_mset (reported ex (thread_exit p)) A (mset (output_queue ?p) + mset (collected p)) \<and>
      A + pending ?p = mset jobs" using A(2) by (intro exI [of _ "add_mset j A"]) simp
  moreover have "Returned \<in> set ((workers p)[i := Idle]) \<Longrightarrow> Returned \<in> set (workers p)"
    "\<And>k. Running k \<in> set ((workers p)[i := Idle]) \<Longrightarrow> Running k \<in> set (workers p)"
    "Died \<in> set ((workers p)[i := Idle]) \<Longrightarrow> Died \<in> set (workers p)" using set_upd by auto
  ultimately show ?thesis using inv upd(2) i(2) by (auto simp: pool_inv_def)
qed

lemma step_get:
  assumes inv: "pool_inv ex n jobs p" and "left_to_get p = Suc m" and g: "queue_get (output_queue p) = Some (j, q)"
  shows "pool_inv ex n jobs (p\<lparr>left_to_get := m, output_queue := q, collected := collected p @ [j]\<rparr>)"
  using assms jq.get_some [OF g] by (simp add: pool_inv_def pending_def)

lemma step_interrupt:
  assumes "pool_inv ex n jobs p"
  shows "pool_inv ex n jobs (p\<lparr>thread_exit := True\<rparr>)"
proof -
  have "rel_mset (reported ex b) A B \<Longrightarrow> rel_mset (reported ex True) A B" for b A B
    by (erule multiset.rel_mono_strong) (rule reported_mono)
  then show ?thesis using assms by (auto simp: pool_inv_def pending_def)
qed

lemma pool_inv_step:
  assumes "pool_step ex p p'" "pool_inv ex n jobs p" "\<forall>j\<in>set jobs. \<not> is_skip j \<longrightarrow> (\<exists>r. ex j = Inr r)"
  shows "pool_inv ex n jobs p'"
  using assms
proof (induction rule: pool_step.induct)
  case (die i p j e)
  then have "\<not> is_skip j" by (auto simp: pool_inv_def in_set_conv_nth)
  have "j \<in># pending p" using die(1,2) by (force simp: pending_def intro: nth_mem)
  then have "j \<in> set jobs" using die(4) by (metis mset_subset_eqD mset_subset_eq_add_right pool_inv_def set_mset_mset)
  then show ?case using die(3,5) \<open>\<not> is_skip j\<close> by auto
qed (auto intro: step_put step_take step_finish step_get step_interrupt)

subsection \<open>No deadlock, no infinite run\<close>

definition pool_weight :: "pool \<Rightarrow> nat" where
  "pool_weight p = 4 * length (todo p) + 3 * length (input_queue p) +
     2 * length (concat (map in_worker (workers p))) + length (output_queue p) + (if thread_exit p then 0 else 1)"

lemma workers_update_length:
  "i < length ws \<Longrightarrow> length (concat (map in_worker (ws[i := w]))) + length (in_worker (ws ! i))
     = length (concat (map in_worker ws)) + length (in_worker w)"
  using arg_cong [OF workers_update(1) [of i ws w], of size] by simp

lemma pool_weight_step: "pool_step ex p p' \<Longrightarrow> pool_weight p' < pool_weight p"
proof (induction rule: pool_step.induct)
  case (put p j r)
  then show ?case by (simp add: pool_weight_def queue_put_def)
next
  case (take i p j q w out)
  then have "length (in_worker w) + length out \<le> 1" by (auto simp: worker_take_def split: if_splits)
  then show ?case using workers_update_length [OF take(1), of w] take(2) jq.get_some [OF take(3)]
    by (simp add: pool_weight_def jq.items_puts)
next
  case (finish i p j j')
  then show ?case using workers_update_length [OF finish(1), of Idle] by (simp add: pool_weight_def queue_put_def)
next
  case (die i p j e)
  then show ?case using workers_update_length [OF die(1), of Died] by (simp add: pool_weight_def)
next
  case (get p n j q)
  then show ?case using jq.get_some [OF get(3)] by (simp add: pool_weight_def)
qed (simp add: pool_weight_def)

lemma pool_balance:
  assumes "pool_inv ex n jobs p" "pending p = {#}"
  shows "length (output_queue p) = left_to_get p"
    "rel_mset (reported ex (thread_exit p)) (mset jobs) (mset (output_queue p) + mset (collected p))"
proof -
  obtain A where A: "rel_mset (reported ex (thread_exit p)) A (mset (output_queue p) + mset (collected p))"
      "A + pending p = mset jobs" using assms(1) by (auto simp: pool_inv_def)
  then show "rel_mset (reported ex (thread_exit p)) (mset jobs) (mset (output_queue p) + mset (collected p))"
    using assms(2) by simp
  then have "size (mset jobs) = size (mset (output_queue p) + mset (collected p))" by (rule rel_mset_size)
  then show "length (output_queue p) = left_to_get p" using assms(1) by (simp add: pool_inv_def)
qed

lemma pool_inv_breaks:
  assumes "pool_inv ex n jobs p"
  shows "break_count (input_queue p @ todo p) = length (filter (\<lambda>w. w \<noteq> Returned) (workers p))"
    "Returned \<in> set (workers p) \<Longrightarrow> real_jobs (input_queue p @ todo p) = []"
  using assms by (simp_all only: pool_inv_def)

lemma all_returned:
  assumes "pool_inv ex n jobs p" "0 < n" "todo p = []" "\<forall>w\<in>set (workers p). w = Returned"
  shows "input_queue p = []" "pending p = {#}"
proof -
  have "set (workers p) \<noteq> {}" using assms(1,2) by (auto simp: pool_inv_def)
  then have "Returned \<in> set (workers p)" using assms(4) by (metis ex_in_conv)
  moreover have "filter (\<lambda>w. w \<noteq> Returned) (workers p) = []" using assms(4) by (simp add: filter_empty_conv)
  moreover note pool_inv_breaks [OF assms(1)]
  ultimately show q: "input_queue p = []"
    using assms(3) break_count_zero [of "input_queue p"] by simp
  have "concat (map in_worker (workers p)) = []" using assms(4) by auto
  then show "pending p = {#}" using q assms(3) by (simp add: pending_def real_jobs_def)
qed

lemma pool_progress:
  assumes inv: "pool_inv ex n jobs p" and n: "0 < n" and fin: "\<not> finished p"
    and ok: "\<forall>j\<in>set jobs. \<not> is_skip j \<longrightarrow> (\<exists>r. ex j = Inr r)"
  shows "\<exists>p'. pool_step ex p p'"
proof (cases "todo p = [] \<and> (\<forall>w\<in>set (workers p). w = Returned)")
  case True
  then have all: "todo p = []" "\<forall>w\<in>set (workers p). w = Returned" by auto
  then have "left_to_get p \<noteq> 0" using fin by (auto simp: finished_def list_all_iff)
  moreover have "length (output_queue p) = left_to_get p"
    using pool_balance(1) [OF inv] all_returned(2) [OF inv n all] by blast
  ultimately obtain m j q where "left_to_get p = Suc m" "queue_get (output_queue p) = Some (j, q)"
    by (metis jq.get_nonempty list.size(3) not0_implies_Suc)
  then show ?thesis using pool_step.get [OF all(1)] by blast
next
  case False
  show ?thesis
  proof (cases "todo p")
    case (Cons j r)
    then show ?thesis using pool_step.put by blast
  next
    case Nil
    then obtain w where w: "w \<in> set (workers p)" "w \<noteq> Returned" using False by auto
    then obtain i where i: "i < length (workers p)" "workers p ! i = w" by (metis in_set_conv_nth)
    show ?thesis
    proof (cases w)
      case Idle
      have "length (filter (\<lambda>w. w \<noteq> Returned) (workers p)) \<noteq> 0" using w by (auto simp: filter_empty_conv)
      then have "input_queue p \<noteq> []" using inv Nil by (auto simp: pool_inv_def break_count_def)
      then obtain j q where "queue_get (input_queue p) = Some (j, q)" using jq.get_nonempty by blast
      moreover obtain w' out where "worker_take j (thread_exit p) = (w', out)" by fastforce
      ultimately show ?thesis using pool_step.take i Idle by blast
    next
      case (Running j)
      then show ?thesis using i pool_step.finish pool_step.die by (cases "ex j") blast+
    next
      case Died
      then show ?thesis using w inv by (simp add: pool_inv_def)
    qed (use w in simp)
  qed
qed

lemma pool_completes:
  assumes "pool_inv ex n jobs p" "0 < n" "\<forall>j\<in>set jobs. \<not> is_skip j \<longrightarrow> (\<exists>r. ex j = Inr r)"
  shows "\<exists>q. (pool_step ex)\<^sup>*\<^sup>* p q \<and> finished q"
  using assms(1)
proof (induction "pool_weight p" arbitrary: p rule: less_induct)
  case less
  show ?case
  proof (cases "finished p")
    case False
    then obtain p' where "pool_step ex p p'" using pool_progress [OF less.prems assms(2) _ assms(3)] by blast
    moreover from this obtain q where "(pool_step ex)\<^sup>*\<^sup>* p' q" "finished q"
      using less.hyps pool_weight_step pool_inv_step less.prems assms(3) by blast
    ultimately show ?thesis by (meson converse_rtranclp_into_rtranclp)
  qed blast
qed

definition outcome :: "(job \<Rightarrow> py_exn + job) \<Rightarrow> job \<Rightarrow> job" where
  "outcome ex j = (if is_skip j then j else projr (ex j))"

lemma reported_outcome: "reported ex False j r \<Longrightarrow> r = outcome ex j"
  by (auto simp: reported_def outcome_def)

lemma rel_mset_function:
  assumes "rel_mset R A B" "\<And>a b. R a b \<Longrightarrow> b = f a"
  shows "B = image_mset f A"
proof -
  have "rel_mset (\<lambda>a b. f a = b) A B"
    using assms(1) by (rule multiset.rel_mono_strong) (rule sym, rule assms(2))
  then have "rel_mset (=) (image_mset f A) B" by (simp only: multiset.rel_map)
  then show ?thesis by (simp add: multiset.rel_eq)
qed

lemma pool_reachable_inv:
  assumes "(pool_step ex)\<^sup>*\<^sup>* (start_pool n jobs) p" "list_all (\<lambda>j. \<not> is_break j) jobs"
    "\<forall>j\<in>set jobs. \<not> is_skip j \<longrightarrow> (\<exists>r. ex j = Inr r)"
  shows "pool_inv ex n jobs p"
  using assms(1)
proof (induction rule: rtranclp_induct)
  case base
  show ?case using assms(2) by (rule pool_inv_start)
next
  case (step y z)
  then show ?case using pool_inv_step assms(3) by blast
qed

lemma finished_collected:
  assumes inv: "pool_inv ex n jobs p" and "0 < n" "finished p"
  shows "rel_mset (reported ex (thread_exit p)) (mset jobs) (mset (collected p))"
proof -
  have all: "todo p = []" "\<forall>w\<in>set (workers p). w = Returned" "left_to_get p = 0"
    using assms(3) by (auto simp: finished_def list_all_iff)
  note pb = pool_balance [OF inv all_returned(2) [OF inv assms(2) all(1,2)]]
  then have "output_queue p = []" using all(3) by simp
  then show ?thesis using pb(2) by simp
qed

section \<open>Properties\<close>

text \<open>C11: However the worker threads, the main thread and an interrupt interleave, as long as
  running a job raises nothing: no step can be taken for ever, from every state that can be
  reached the run can be completed (all results taken, all threads returned), and in a
  completed run each dispatched job has been reported exactly once, as it is when skipped,
  with its result when run, or as a break only if there was an interrupt.\<close>

theorem pool_reports_every_job_once:
  assumes "0 < n" "list_all (\<lambda>j. \<not> is_break j) jobs"
    "\<forall>j\<in>set jobs. \<not> is_skip j \<longrightarrow> (\<exists>r. ex j = Inr r)"
    "(pool_step ex)\<^sup>*\<^sup>* (start_pool n jobs) p"
  shows "(\<forall>q. pool_step ex p q \<longrightarrow> pool_weight q < pool_weight p) \<and>
    (\<exists>q. (pool_step ex)\<^sup>*\<^sup>* p q \<and> finished q) \<and>
    (finished p \<longrightarrow> rel_mset (reported ex (thread_exit p)) (mset jobs) (mset (collected p))) \<and>
    (finished p \<and> \<not> thread_exit p \<longrightarrow> mset (collected p) = image_mset (outcome ex) (mset jobs))"
proof -
  have inv: "pool_inv ex n jobs p" using pool_reachable_inv assms(2-4) by blast
  have fin: "finished p \<Longrightarrow> rel_mset (reported ex (thread_exit p)) (mset jobs) (mset (collected p))"
    using finished_collected [OF inv assms(1)] .
  then have "finished p \<and> \<not> thread_exit p \<longrightarrow> mset (collected p) = image_mset (outcome ex) (mset jobs)"
    using rel_mset_function [of "reported ex False" _ _ "outcome ex"] reported_outcome by auto
  then show ?thesis using pool_weight_step pool_completes [OF inv assms(1,3)] fin by blast
qed

theorem pool_reports_every_job_once_witness:
  "\<exists>q. (pool_step (\<lambda>j. Inr (set_returncode 1 j)))\<^sup>*\<^sup>* (start_pool 2 [Job, set_is_skip True Job]) q \<and> finished q"
  using pool_reports_every_job_once [of 2 "[Job, set_is_skip True Job]" "\<lambda>j. Inr (set_returncode 1 j)"
      "start_pool 2 [Job, set_is_skip True Job]"]
  by (simp add: Job_def set_is_skip_def)

text \<open>A job that runs keeps everything but its return code and elapsed time. The return
  code is that of the command, except that a job under valgrind which would have passed gets
  2 when valgrind printed a leak summary; an example is run by its own command and a test
  suite is given the temporary directory and the name of its results file.\<close>

theorem exec_job_result:
  assumes "exec_job sh cfg opts j = Inr j'"
  shows "\<exists>command cmd rc out err et.
    command = (if is_example j \<or> is_pyexample j then shell_command j
       else shell_command j @ '' --xml --tempdir='' @ tempdir j @ '' --out='' @ tmp_file_name j @ '' '' @
              (if opt_update_data opts then ''--update-data'' else [])) \<and>
    job_command cfg command (opt_valgrind opts) (is_pyexample j)
      (if is_example j \<or> is_pyexample j then build_path j else []) = Inr cmd \<and>
    sh cmd (cwd j) = (rc, out, err, et) \<and>
    j' = j\<lparr>returncode := (if opt_valgrind opts \<and> rc = 0 \<and> (\<exists>a b. err = a @ ''== LEAK SUMMARY:'' @ b)
                          then 2 else rc), elapsed_time := et\<rparr>"
proof -
  define command where "command = (if is_example j \<or> is_pyexample j then shell_command j
     else shell_command j @ '' --xml --tempdir='' @ tempdir j @ '' --out='' @ tmp_file_name j @ '' '' @
            (if opt_update_data opts then ''--update-data'' else []))"
  define bpath where "bpath = (if is_example j \<or> is_pyexample j then build_path j else [])"
  have "exec_job sh cfg opts j =
      py_bind (run_job_synchronously sh cfg command (cwd j) (opt_valgrind opts) (is_pyexample j) bpath)
        (\<lambda>(rc, standard_out, standard_err, et). Inr (set_elapsed_time et (set_returncode rc j)))"
    by (simp add: exec_job_def command_def bpath_def)
  with assms obtain rc out err et
    where run: "run_job_synchronously sh cfg command (cwd j) (opt_valgrind opts) (is_pyexample j) bpath = Inr (rc, out, err, et)"
      and j': "j' = j\<lparr>returncode := rc, elapsed_time := et\<rparr>"
    by (auto simp: job_setters)
  obtain cmd where cmd: "job_command cfg command (opt_valgrind opts) (is_pyexample j) bpath = Inr cmd"
    using run by (auto simp: run_job_synchronously_def)
  obtain rc' out' err' et' where sh: "sh cmd (cwd j) = (rc', out', err', et')" by (metis prod_cases4)
  have "j' = j\<lparr>returncode := (if opt_valgrind opts \<and> rc' = 0 \<and> (\<exists>a b. err' = a @ ''== LEAK SUMMARY:'' @ b)
      then 2 else rc'), elapsed_time := et'\<rparr>"
    using run j' unfolding is_substring_iff [symmetric]
    by (auto simp: run_job_synchronously_def cmd sh)
  then show ?thesis using cmd sh unfolding command_def bpath_def by blast
qed

theorem exec_job_result_witness:
  "\<exists>cfg j'. exec_job (\<lambda>cmd dir. (0, [], ''== LEAK SUMMARY: 1'', 5)) cfg (default_options\<lparr>opt_valgrind := True\<rparr>) Job = Inr j' \<and>
     returncode j' = 2 \<and> elapsed_time j' = 5"
proof -
  define cfg where "cfg = \<lparr>NS3_BASEDIR = ''/b'', NS3_BUILDDIR = ''/b/build'', NS3_ENABLED_MODULES = [], NS3_MODULE_PATH = [],
    NSC_ENABLED = False, ENABLE_EXAMPLES = True, ENABLE_TESTS = True, ENABLE_PYTHON_BINDINGS = True,
    EXAMPLE_DIRECTORIES = [], APPNAME = ''ns'', BUILD_PROFILE = ''debug'', BUILD_PROFILE_SUFFIX = ''-debug'',
    VERSION = ''3'', PYTHON = [''python''], VALGRIND_FOUND = True\<rparr>"
  obtain j' where j': "exec_job (\<lambda>cmd dir. (0, [], ''== LEAK SUMMARY: 1'', 5)) cfg (default_options\<lparr>opt_valgrind := True\<rparr>) Job = Inr j'"
    by (simp add: exec_job_def run_job_synchronously_def job_command_def Job_def)
  have "\<exists>a b. ''== LEAK SUMMARY: 1'' = a @ ''== LEAK SUMMARY:'' @ b"
    by (intro exI [of _ "[]"] exI [of _ "'' 1''"]) simp
  moreover obtain command cmd rc out err et where
    "(0, [], ''== LEAK SUMMARY: 1'', 5) = (rc, out :: string, err, et)"
    "j' = Job\<lparr>returncode := (if opt_valgrind (default_options\<lparr>opt_valgrind := True\<rparr>) \<and> rc = 0 \<and>
       (\<exists>a b. err = a @ ''== LEAK SUMMARY:'' @ b) then 2 else rc), elapsed_time := et\<rparr>"
    using exec_job_result [OF j'] by blast
  ultimately have "returncode j' = 2 \<and> elapsed_time j' = 5" by simp
  then show ?thesis using j' by blast
qed

end
