(* ===== verification/Test_Driver.thy ===== *)
theory Test_Driver
  imports Test_Jobs Ns3rc "HOL-Library.List_Lexorder" "HOL-Library.Char_ord"
begin

text \<open>
  \<open>run_tests\<close> of \<open>src/test.py\<close> and what it calls besides the workers: the waf command, the
  environment of the tests, the examples to run, the choice of the suites, the jobs that are
  dispatched, and the collection of the results with the summary and the exit status.

  What the run reads from outside is the record \<open>test_world\<close>. The order in which results
  arrive is whatever the threads of \<open>Test_Jobs\<close> produce.
\<close>

section \<open>The world\<close>

record test_world =
  tw_shell :: shell
  tw_platform :: string
  tw_cwd :: string
  tw_time :: string
  tw_exists :: "string \<Rightarrow> bool"
  tw_files :: file_system
  tw_read :: "string \<Rightarrow> string option"
  tw_waf :: "string \<Rightarrow> int"
  tw_abspath :: "string \<Rightarrow> string"
  tw_eval_cpp :: "string \<Rightarrow> py_exn + (string \<times> string \<times> string) list"
  tw_eval_py :: "string \<Rightarrow> py_exn + (string \<times> string) list"
  tw_eval_names :: "string \<Rightarrow> py_exn + string list"
  tw_condition :: "string \<Rightarrow> py_exn + bool"

definition core_kinds :: "string list" where
  "core_kinds = [''bvt'', ''core'', ''performance'', ''system'', ''unit'']"

definition core_valgrind_skip_tests :: "string list" where
  "core_valgrind_skip_tests =
     [''ns3-tcp-cwnd'', ''nsc-tcp-loss'', ''ns3-tcp-interoperability'', ''routing-click'',
      ''lte-rr-ff-mac-scheduler'', ''lte-tdmt-ff-mac-scheduler'', ''lte-fdmt-ff-mac-scheduler'',
      ''lte-pf-ff-mac-scheduler'', ''lte-tta-ff-mac-scheduler'', ''lte-fdbet-ff-mac-scheduler'',
      ''lte-ttbet-ff-mac-scheduler'', ''lte-fdtbfq-ff-mac-scheduler'', ''lte-tdtbfq-ff-mac-scheduler'',
      ''lte-pss-ff-mac-scheduler'']"

definition core_nsc_missing_skip_tests :: "string list" where
  "core_nsc_missing_skip_tests = [''ns3-tcp-cwnd'', ''nsc-tcp-loss'', ''ns3-tcp-interoperability'']"

section \<open>Building, environment, examples\<close>

definition profile_suffix :: "waf_config \<Rightarrow> waf_config" where
  "profile_suffix cfg =
     cfg\<lparr>BUILD_PROFILE_SUFFIX := (if BUILD_PROFILE cfg = ''release'' then [] else ''-'' @ BUILD_PROFILE cfg)\<rparr>"

definition program_name :: "waf_config \<Rightarrow> string \<Rightarrow> string" where
  "program_name cfg nm = APPNAME cfg @ VERSION cfg @ ''-'' @ nm @ BUILD_PROFILE_SUFFIX cfg"

definition waf_cmd :: "test_options \<Rightarrow> string \<Rightarrow> string" where
  "waf_cmd opts platform =
     (let waf = (if platform = ''win32'' then ''waf'' else ''./waf'')
      in if opt_kinds opts \<or> opt_list opts \<or> (opt_constrain opts \<noteq> [] \<and> opt_constrain opts \<in> set core_kinds)
         then waf @ '' --target=test-runner''
         else if opt_example opts \<noteq> [] then waf @ '' --target='' @ basename (opt_example opts)
         else waf)"

text \<open>The environment; \<open>have_key\<close> is computed before \<open>PYTHONPATH\<close> is overwritten.\<close>

definition append_paths :: "string \<Rightarrow> string \<Rightarrow> string list \<Rightarrow> (string, string) dict \<Rightarrow> (string, string) dict" where
  "append_paths var sep paths env =
     (let env = (if has_key env var then env else dict_set env var [])
      in foldl (\<lambda>e path. dict_set e var (dict_getdefault e var [] @ sep @ path)) env paths)"

definition make_paths :: "waf_config \<Rightarrow> string \<Rightarrow> (string, string) dict \<Rightarrow> (string, string) dict" where
  "make_paths cfg platform env =
     (let have_PYTHONPATH = has_key env ''PYTHONPATH'';
          pypath = path_join (path_join (NS3_BUILDDIR cfg) ''bindings'') ''python'';
          env = dict_set env ''PYTHONPATH'' pypath;
          env = (if \<not> have_PYTHONPATH then dict_set env ''PYTHONPATH'' pypath
                 else dict_set env ''PYTHONPATH'' (dict_getdefault env ''PYTHONPATH'' [] @ '':'' @ pypath))
      in if platform = ''darwin'' then append_paths ''DYLD_LIBRARY_PATH'' '':'' (NS3_MODULE_PATH cfg) env
         else if platform = ''win32'' then append_paths ''PATH'' '';'' (NS3_MODULE_PATH cfg) env
         else if platform = ''cygwin'' then append_paths ''PATH'' '':'' (NS3_MODULE_PATH cfg) env
         else append_paths ''LD_LIBRARY_PATH'' '':'' (NS3_MODULE_PATH cfg) env)"

record example_lists =
  example_tests :: "(string \<times> string \<times> string) list"
  example_names_original :: "string list"
  python_tests :: "(string \<times> string) list"

definition split_arguments :: "string \<Rightarrow> string list" where
  "split_arguments nm = split_once (CHR '' '') nm"

definition add_cpp_example ::
  "test_world \<Rightarrow> waf_config \<Rightarrow> string \<Rightarrow> string \<times> string \<times> string \<Rightarrow> example_lists \<Rightarrow> example_lists" where
  "add_cpp_example w cfg dir ex acc =
     (case ex of (original, do_run, do_valgrind_run) \<Rightarrow>
        let parts = split_arguments original;
            path = path_join dir (program_name cfg (hd parts))
        in if tw_exists w path
           then acc\<lparr>example_tests := example_tests acc @
                        [(if length parts \<noteq> 1 then path @ '' '' @ parts ! 1 else path, do_run, do_valgrind_run)],
                      example_names_original := example_names_original acc @ [original]\<rparr>
           else acc)"

definition add_python_example ::
  "test_world \<Rightarrow> string \<Rightarrow> string \<times> string \<Rightarrow> example_lists \<Rightarrow> example_lists" where
  "add_python_example w dir ex acc =
     (case ex of (original, do_run) \<Rightarrow>
        let parts = split_arguments original;
            path = path_join dir (hd parts)
        in if tw_exists w path
           then acc\<lparr>python_tests := python_tests acc @
                        [(if length parts \<noteq> 1 then path @ '' '' @ parts ! 1 else path, do_run)]\<rparr>
           else acc)"

definition parse_examples_to_run_file ::
  "test_world \<Rightarrow> waf_config \<Rightarrow> string \<Rightarrow> string \<Rightarrow> string \<Rightarrow> example_lists \<Rightarrow> py_exn + example_lists" where
  "parse_examples_to_run_file w cfg path cpp_dir py_dir acc =
     (if tw_files w path = None then Inr acc
      else py_bind (get_list_from_file (tw_files w) (tw_eval_cpp w) path ''cpp_examples'') (\<lambda>cpp.
           let acc = fold (add_cpp_example w cfg cpp_dir) cpp acc
           in py_bind (get_list_from_file (tw_files w) (tw_eval_py w) path ''python_examples'') (\<lambda>py.
              Inr (fold (add_python_example w py_dir) py acc))))"

definition collect_examples :: "test_world \<Rightarrow> waf_config \<Rightarrow> py_exn + example_lists" where
  "collect_examples w cfg =
     py_bind (py_fold (\<lambda>directory.
        let example_directory = path_join ''examples'' directory
        in parse_examples_to_run_file w cfg (path_join example_directory ''examples-to-run.py'')
             (path_join (NS3_BUILDDIR cfg) example_directory) example_directory)
        (EXAMPLE_DIRECTORIES cfg) \<lparr>example_tests = [], example_names_original = [], python_tests = []\<rparr>)
     (py_fold (\<lambda>module_name.
        let module_directory = path_join ''src'' (drop 4 module_name);
            example_directory = path_join module_directory ''examples''
        in parse_examples_to_run_file w cfg
             (path_join (path_join module_directory ''test'') ''examples-to-run.py'')
             (path_join (NS3_BUILDDIR cfg) example_directory) example_directory)
        (NS3_ENABLED_MODULES cfg))"

section \<open>Which suites\<close>

definition ask_runner :: "test_world \<Rightarrow> waf_config \<Rightarrow> string \<Rightarrow> py_exn + string" where
  "ask_runner w cfg args =
     py_bind (run_job_synchronously (tw_shell w) cfg
                (path_join ''utils'' (program_name cfg ''test-runner'' @ args)) (tw_cwd w) False False [])
       (\<lambda>(rc, standard_out, standard_err, et). Inr standard_out)"

definition choose_suites :: "test_world \<Rightarrow> waf_config \<Rightarrow> test_options \<Rightarrow> py_exn + string" where
  "choose_suites w cfg opts =
     (if opt_suite opts \<noteq> []
      then py_bind (ask_runner w cfg '' --print-test-name-list'') (\<lambda>suites.
             if opt_suite opts \<in> set (split_on (CHR 0x0A) suites) then Inr (opt_suite opts @ newline)
             else Inl (SystemExit 2))
      else if opt_example opts = [] \<and> opt_pyexample opts = []
      then (if opt_constrain opts \<noteq> []
            then ask_runner w cfg ('' --print-test-name-list --test-type='' @ opt_constrain opts)
            else ask_runner w cfg '' --print-test-name-list'')
      else Inr [])"

definition remove_all :: "string list \<Rightarrow> string list \<Rightarrow> string list" where
  "remove_all performance suite_list =
     foldl (\<lambda>l t. if t \<in> set l then remove1 t l else l) suite_list performance"

definition suites_to_run :: "test_world \<Rightarrow> waf_config \<Rightarrow> test_options \<Rightarrow> py_exn + string list" where
  "suites_to_run w cfg opts =
     py_bind (choose_suites w cfg opts) (\<lambda>suites.
       let suite_list = split_on (CHR 0x0A) suites
       in if opt_constrain opts \<noteq> ''performance''
          then py_bind (ask_runner w cfg '' --print-test-name-list --test-type=performance'') (\<lambda>perf.
                 Inr (remove_all (split_on (CHR 0x0A) perf) suite_list))
          else Inr suite_list)"

section \<open>The jobs that are dispatched\<close>

definition output_dir :: "test_world \<Rightarrow> string" where
  "output_dir w = path_join ''testpy-output'' (tw_time w)"

definition suite_job :: "test_world \<Rightarrow> waf_config \<Rightarrow> test_options \<Rightarrow> string \<Rightarrow> job" where
  "suite_job w cfg opts test =
     (let multiple = (if opt_multiple opts then [] else '' --stop-on-failure'');
          fullness = (if opt_fullness opts \<noteq> [] then '' --fullness='' @ map char_upper (opt_fullness opts)
                      else '' --fullness=QUICK'');
          path_cmd = path_join ''utils''
            (program_name cfg ''test-runner'' @ '' --test-name='' @ test @ multiple @ fullness);
          job = set_shell_command path_cmd (set_tempdir (output_dir w) (set_basedir (tw_cwd w)
            (set_cwd (tw_cwd w) (set_tmp_file_name (path_join (output_dir w) (test @ ''.xml''))
              (set_display_name test (set_is_pyexample False (set_is_example False Job)))))));
          job = (if opt_valgrind opts \<and> test \<in> set core_valgrind_skip_tests then set_is_skip True job else job)
      in if \<not> NSC_ENABLED cfg \<and> test \<in> set core_nsc_missing_skip_tests then set_is_skip True job else job)"

definition suite_jobs :: "test_world \<Rightarrow> waf_config \<Rightarrow> test_options \<Rightarrow> string list \<Rightarrow> job list" where
  "suite_jobs w cfg opts suite_list =
     map (suite_job w cfg opts) (filter (\<lambda>t. t \<noteq> []) (map py_strip suite_list))"

definition example_job :: "test_world \<Rightarrow> bool \<Rightarrow> string \<Rightarrow> string \<Rightarrow> job" where
  "example_job w python command bpath =
     set_build_path bpath (set_shell_command command (set_tempdir (output_dir w) (set_basedir (tw_cwd w)
       (set_cwd (output_dir w) (set_tmp_file_name [] (set_display_name command
         (set_is_pyexample python (set_is_example (\<not> python) Job))))))))"

definition wants_all_examples :: "test_options \<Rightarrow> bool" where
  "wants_all_examples opts \<longleftrightarrow> opt_suite opts = [] \<and> opt_example opts = [] \<and> opt_pyexample opts = []"

definition cpp_example_jobs ::
  "test_world \<Rightarrow> waf_config \<Rightarrow> test_options \<Rightarrow> (string, string) dict \<Rightarrow> (string \<times> string \<times> string) list
     \<Rightarrow> py_exn + job list" where
  "cpp_example_jobs w cfg opts programs examples =
     (if wants_all_examples opts
      then if (opt_constrain opts = [] \<or> opt_constrain opts = ''example'') \<and> ENABLE_EXAMPLES cfg
           then py_fold (\<lambda>(test, do_run, do_valgrind_run) acc.
                  if \<not> has_key programs (basename (hd (split_once (CHR '' '') test))) then Inr acc
                  else py_bind (tw_condition w do_run) (\<lambda>run.
                    if \<not> run then Inr acc
                    else let job = example_job w False test (opt_buildpath opts)
                         in if opt_valgrind opts
                            then py_bind (tw_condition w do_valgrind_run) (\<lambda>vrun.
                                   Inr (acc @ [if vrun then job else set_is_skip True job]))
                            else Inr (acc @ [job]))) examples []
           else Inr []
      else if opt_example opts \<noteq> []
      then (case dict_get programs (program_name cfg (opt_example opts)) of
              None \<Rightarrow> Inr []
            | Some path \<Rightarrow> Inr [example_job w False (tw_abspath w path) (opt_buildpath opts)])
      else Inr [])"

definition python_example_jobs ::
  "test_world \<Rightarrow> waf_config \<Rightarrow> test_options \<Rightarrow> string list \<Rightarrow> (string \<times> string) list \<Rightarrow> py_exn + job list" where
  "python_example_jobs w cfg opts scripts examples =
     (if wants_all_examples opts
      then if (opt_constrain opts = [] \<or> opt_constrain opts = ''pyexample'') \<and> ENABLE_EXAMPLES cfg
           then py_fold (\<lambda>(test, do_run) acc.
                  if basename (hd (split_once (CHR '' '') test)) \<notin> set scripts then Inr acc
                  else py_bind (tw_condition w do_run) (\<lambda>run.
                    if \<not> run then Inr acc
                    else let job = example_job w True test [];
                             job = (if opt_valgrind opts then set_is_skip True job else job);
                             job = (if \<not> ENABLE_PYTHON_BINDINGS cfg then set_is_skip True job else job)
                         in Inr (acc @ [job]))) examples []
           else Inr []
      else if opt_pyexample opts \<noteq> []
      then (if basename (opt_pyexample opts) \<notin> set scripts then Inr []
            else Inr [example_job w True (opt_pyexample opts) []])
      else Inr [])"

definition program_dictionary :: "string list \<Rightarrow> (string, string) dict" where
  "program_dictionary programs = foldl (\<lambda>d p. dict_set d (basename p) p) [] programs"

text \<open>The build status and the examples, read before anything is listed or run.\<close>

definition read_build_status ::
  "test_world \<Rightarrow> waf_config \<Rightarrow> py_exn + (string list \<times> string list \<times> example_lists)" where
  "read_build_status w cfg =
     (let status_file = path_join (NS3_BUILDDIR cfg) ''build-status.py''
      in if tw_files w status_file = None then Inl (SystemExit 2)
         else py_bind (get_list_from_file (tw_files w) (tw_eval_names w) status_file ''ns3_runnable_programs'') (\<lambda>programs.
              py_bind (get_list_from_file (tw_files w) (tw_eval_names w) status_file ''ns3_runnable_scripts'') (\<lambda>scripts.
              py_bind (collect_examples w cfg) (\<lambda>acc. Inr (programs, scripts, acc)))))"

definition list_tests :: "test_world \<Rightarrow> waf_config \<Rightarrow> test_options \<Rightarrow> string list \<Rightarrow> py_exn + string list" where
  "list_tests w cfg opts names =
     py_bind (if opt_kinds opts
              then py_bind (ask_runner w cfg '' --print-test-type-list'') (\<lambda>out. Inr [out]) else Inr []) (\<lambda>kinds.
     py_bind (if \<not> opt_list opts then Inr []
              else py_bind (ask_runner w cfg ('' --print-test-name-list --print-test-types'' @
                     (if opt_constrain opts \<noteq> [] then '' --test-type='' @ opt_constrain opts else []))) (\<lambda>out.
                   Inr ([''Test Type    Test Name'', ''---------    ---------''] @
                        filter (\<lambda>item. py_strip item \<noteq> []) (sort (split_on (CHR 0x0A) out)) @
                        map (\<lambda>item. ''example      '' @ item) (sort names) @ [[]]))) (\<lambda>names_out.
       Inr (kinds @ names_out)))"

definition dispatched_jobs ::
  "test_world \<Rightarrow> waf_config \<Rightarrow> test_options \<Rightarrow> string list \<Rightarrow> string list \<Rightarrow> example_lists \<Rightarrow> py_exn + job list" where
  "dispatched_jobs w cfg opts programs scripts acc =
     py_bind (suites_to_run w cfg opts) (\<lambda>suite_list.
     py_bind (cpp_example_jobs w cfg opts (program_dictionary programs) (example_tests acc)) (\<lambda>cpp.
     py_bind (python_example_jobs w cfg opts scripts (python_tests acc)) (\<lambda>py.
       Inr (suite_jobs w cfg opts suite_list @ cpp @ py))))"

section \<open>Collecting the results\<close>

record summary =
  passed_tests :: nat
  failed_tests :: nat
  crashed_tests :: nat
  valgrind_errors :: nat
  skipped_tests :: nat
  printed :: "string list"
  xml_results :: string

definition three_decimals :: "int \<Rightarrow> string" where
  "three_decimals ms =
     (let s = dec_digits (nat (\<bar>ms\<bar> mod 1000))
      in (if ms < 0 then ''-'' else []) @ dec_digits (nat (\<bar>ms\<bar> div 1000)) @ ''.'' @
         replicate (3 - length s) (CHR ''0'') @ s)"

definition count_status :: "job \<Rightarrow> summary \<Rightarrow> string \<times> summary" where
  "count_status job st =
     (if is_skip job then (''SKIP'', st\<lparr>skipped_tests := Suc (skipped_tests st)\<rparr>)
      else if returncode job = 0 then (''PASS'', st\<lparr>passed_tests := Suc (passed_tests st)\<rparr>)
      else if returncode job = 1 then (''FAIL'', st\<lparr>failed_tests := Suc (failed_tests st)\<rparr>)
      else if returncode job = 2 then (''VALGR'', st\<lparr>valgrind_errors := Suc (valgrind_errors st)\<rparr>)
      else (''CRASH'', st\<lparr>crashed_tests := Suc (crashed_tests st)\<rparr>))"

definition status_line :: "test_options \<Rightarrow> string \<Rightarrow> job \<Rightarrow> string" where
  "status_line opts status job =
     (let kind = (if is_example job \<or> is_pyexample job then ''Example'' else ''TestSuite'')
      in if opt_duration opts \<or> opt_constrain opts = ''performance''
         then status @ '' ('' @ three_decimals (elapsed_time job) @ ''): '' @ kind @ '' '' @ display_name job
         else status @ '': '' @ kind @ '' '' @ display_name job)"

definition example_xml :: "string \<Rightarrow> job \<Rightarrow> string" where
  "example_xml status job =
     ''<Example>'' @ newline @ ''  <Name>'' @ display_name job @ ''</Name>'' @ newline @
     ''  <Result>'' @ (if status \<in> set [''PASS'', ''FAIL'', ''VALGR'', ''SKIP''] then status else ''CRASH'') @
     ''</Result>'' @ newline @
     ''  <Time real='' @ [CHR 0x22] @ three_decimals (elapsed_time job) @ [CHR 0x22] @ ''/>'' @ newline @
     ''</Example>'' @ newline"

definition test_xml :: "string \<Rightarrow> job \<Rightarrow> string" where
  "test_xml result_line job =
     ''<Test>'' @ newline @ ''  <Name>'' @ display_name job @ ''</Name>'' @ newline @
     result_line @ newline @ ''</Test>'' @ newline"

text \<open>
  The results of a suite: copied from its file for the return codes 0, 1 and 2; otherwise a
  crash entry is written and, inside the same branch, the code asks again for the return
  code 2.
\<close>

definition suite_xml :: "test_world \<Rightarrow> job \<Rightarrow> py_exn + string" where
  "suite_xml w job =
     (if is_skip job then Inr (test_xml ''  <Result>SKIP</Result>'' job)
      else if returncode job = 0 \<or> returncode job = 1 \<or> returncode job = 2
      then (case tw_read w (tmp_file_name job) of None \<Rightarrow> Inl (Exception ''IOError'') | Some s \<Rightarrow> Inr s)
      else Inr (test_xml ''  <Result>CRASH</Suite>'' job @
                (if returncode job = 2 then test_xml ''  <Result>VALGR</Result>'' job else [])))"

definition collect_job :: "test_world \<Rightarrow> test_options \<Rightarrow> job \<Rightarrow> summary \<Rightarrow> py_exn + summary" where
  "collect_job w opts job st =
     (if is_break job then Inr st
      else case count_status job st of (status, st) \<Rightarrow>
        let st = st\<lparr>printed := printed st @ [status_line opts status job]\<rparr>
        in py_bind (if is_example job \<or> is_pyexample job then Inr (example_xml status job) else suite_xml w job)
             (\<lambda>x. Inr (st\<lparr>xml_results := xml_results st @ x\<rparr>)))"

definition empty_summary :: summary where
  "empty_summary = \<lparr>passed_tests = 0, failed_tests = 0, crashed_tests = 0, valgrind_errors = 0,
     skipped_tests = 0, printed = [],
     xml_results = ''<?xml version='' @ [CHR 0x22] @ ''1.0'' @ [CHR 0x22] @ ''?>'' @ newline @ ''<Results>'' @ newline\<rparr>"

definition summary_line :: "nat \<Rightarrow> summary \<Rightarrow> string" where
  "summary_line n_total st =
     dec_digits (passed_tests st) @ '' of '' @ dec_digits n_total @ '' tests passed ('' @
     dec_digits (passed_tests st) @ '' passed, '' @ dec_digits (skipped_tests st) @ '' skipped, '' @
     dec_digits (failed_tests st) @ '' failed, '' @ dec_digits (crashed_tests st) @ '' crashed, '' @
     dec_digits (valgrind_errors st) @ '' valgrind errors)''"

text \<open>From the results collected by the main thread to the summary and the exit status.\<close>

definition report :: "test_world \<Rightarrow> test_options \<Rightarrow> nat \<Rightarrow> job list \<Rightarrow> py_exn + summary \<times> int" where
  "report w opts n_total results =
     py_bind (py_fold (collect_job w opts) results empty_summary) (\<lambda>st.
       let st = st\<lparr>xml_results := xml_results st @ ''</Results>'' @ newline,
                   printed := printed st @ [summary_line n_total st]\<rparr>
       in Inr (st, if passed_tests st + skipped_tests st = n_total then 0 else 1))"

text \<open>What is printed after the summary when tests, examples or valgrind are missing.\<close>

definition closing_notes :: "waf_config \<Rightarrow> test_options \<Rightarrow> string list" where
  "closing_notes cfg opts =
     (let q = [CHR 0x22];
          note_for = (\<lambda>what. [''***  Note: ns-3 '' @ what @ '' are currently disabled. Enable them by adding'',
             ''***  '' @ q @ ''--enable-'' @ what @ q @ '' to ./waf configure or modifying your .ns3rc file.'', []])
      in (if \<not> ENABLE_TESTS cfg \<or> \<not> ENABLE_EXAMPLES cfg
          then [] # (if \<not> ENABLE_TESTS cfg then note_for ''tests'' else []) @
                    (if \<not> ENABLE_EXAMPLES cfg then note_for ''examples'' else [])
          else []) @
         (if opt_valgrind opts \<and> \<not> VALGRIND_FOUND cfg
          then [[], ''***  Note: you are trying to use valgrind, but valgrind could not be found'',
                ''***  on your machine.  All tests and examples will crash or be skipped.'', []]
          else []))"

text \<open>
  \<open>run_tests\<close> with the results in the order \<open>arrive\<close> in which the threads deliver them: the
  lines printed (not the progress messages of \<open>--verbose\<close>), the summary when tests were run, and the value returned (\<open>None\<close> for the runs
  that only list kinds or names).
\<close>

definition run_tests ::
  "test_world \<Rightarrow> waf_config \<Rightarrow> test_options \<Rightarrow> (job list \<Rightarrow> job list)
     \<Rightarrow> py_exn + (string list \<times> summary option \<times> int option)" where
  "run_tests w cfg0 opts arrive =
     (let cfg = profile_suffix cfg0;
          waf_rc = (if opt_nowaf opts then 0 else tw_waf w (waf_cmd opts (tw_platform w)))
      in if waf_rc \<noteq> 0 then Inr ([''Waf died. Not running tests''], None, Some waf_rc)
         else py_bind (read_build_status w cfg) (\<lambda>(programs, scripts, acc).
              if opt_kinds opts \<or> opt_list opts
              then py_bind (list_tests w cfg opts (example_names_original acc)) (\<lambda>out. Inr (out, None, None))
              else py_bind (dispatched_jobs w cfg opts programs scripts acc) (\<lambda>jobs.
                   py_bind (report w opts (length jobs) (arrive jobs)) (\<lambda>(st, rc).
                     Inr (printed st @ closing_notes cfg opts, Some st, Some rc)))))"

section \<open>Counting\<close>

definition outcome_is :: "(int \<Rightarrow> bool) \<Rightarrow> job \<Rightarrow> bool" where
  "outcome_is P j \<longleftrightarrow> \<not> is_break j \<and> \<not> is_skip j \<and> P (returncode j)"

definition counts_of :: "job list \<Rightarrow> nat list" where
  "counts_of rs =
     [length (filter (outcome_is (\<lambda>r. r = 0)) rs), length (filter (outcome_is (\<lambda>r. r = 1)) rs),
      length (filter (outcome_is (\<lambda>r. r \<notin> {0, 1, 2})) rs), length (filter (outcome_is (\<lambda>r. r = 2)) rs),
      length (filter (\<lambda>j. \<not> is_break j \<and> is_skip j) rs)]"

definition summary_counts :: "summary \<Rightarrow> nat list" where
  "summary_counts st = [passed_tests st, failed_tests st, crashed_tests st, valgrind_errors st, skipped_tests st]"

lemma collect_job_counts:
  "collect_job w opts j st = Inr st' \<Longrightarrow> summary_counts st' = map2 (+) (summary_counts st) (counts_of [j])"
  by (auto simp: collect_job_def count_status_def counts_of_def summary_counts_def outcome_is_def Let_def
      split: if_splits)

lemma counts_of_Cons: "counts_of (j # rs) = map2 (+) (counts_of [j]) (counts_of rs)"
  by (simp add: counts_of_def)

lemma collect_counts:
  "py_fold (collect_job w opts) rs st = Inr st' \<Longrightarrow>
   summary_counts st' = map2 (+) (summary_counts st) (counts_of rs)"
proof (induction rs arbitrary: st)
  case Nil
  then show ?case by (simp add: summary_counts_def counts_of_def)
next
  case (Cons j rs)
  then obtain st1 where "collect_job w opts j st = Inr st1" "py_fold (collect_job w opts) rs st1 = Inr st'"
    by auto
  with Cons.IH have "summary_counts st' = map2 (+) (map2 (+) (summary_counts st) (counts_of [j])) (counts_of rs)"
    by (simp add: collect_job_counts)
  then show ?case unfolding counts_of_Cons [of j rs] by (simp add: summary_counts_def counts_of_def)
qed

lemma counts_of_mset: "mset rs = mset rs' \<Longrightarrow> counts_of rs = counts_of rs'"
proof -
  assume eq: "mset rs = mset rs'"
  have "length (filter P rs) = length (filter P rs')" for P
    using arg_cong [OF eq, of "\<lambda>M. size (filter_mset P M)"] by (simp flip: mset_filter)
  then show ?thesis by (simp add: counts_of_def)
qed

lemma report_counts:
  assumes "report w opts n_total rs = Inr (st, rc)"
  shows "summary_counts st = counts_of rs" "rc = (if passed_tests st + skipped_tests st = n_total then 0 else 1)"
proof -
  obtain st0 where st0: "py_fold (collect_job w opts) rs empty_summary = Inr st0"
      "summary_counts st = summary_counts st0" "rc = (if passed_tests st + skipped_tests st = n_total then 0 else 1)"
    using assms by (auto simp: report_def Let_def summary_counts_def)
  show "summary_counts st = counts_of rs"
    using collect_counts [OF st0(1)] st0(2) by (simp add: empty_summary_def summary_counts_def counts_of_def)
  show "rc = (if passed_tests st + skipped_tests st = n_total then 0 else 1)" by (rule st0(3))
qed

lemma good_count:
  "length (filter (outcome_is (\<lambda>r. r = 0)) rs) + length (filter (\<lambda>j. \<not> is_break j \<and> is_skip j) rs)
     = length (filter (\<lambda>j. \<not> is_break j \<and> (is_skip j \<or> returncode j = 0)) rs)"
  by (induction rs) (auto simp: outcome_is_def)

lemma all_counted:
  "length (filter P rs) = length rs \<longleftrightarrow> (\<forall>j\<in>set rs. P j)"
proof (induction rs)
  case (Cons j rs)
  have "length (filter P rs) \<noteq> Suc (length rs)" using length_filter_le [of P rs] by linarith
  with Cons show ?case by auto
qed simp

section \<open>Properties\<close>

text \<open>C15: The summary counts every result once by its kind (passed, failed, crashed, valgrind
  error, skipped, breaks not at all), in whatever order the results come, and the exit status
  is 0 exactly when every one of the dispatched jobs was skipped or returned 0.\<close>

theorem report_spec:
  assumes "report w opts (length rs) rs = Inr (st, rc)"
  shows "summary_counts st = counts_of rs \<and>
    (\<forall>rs' st' rc'. mset rs' = mset rs \<longrightarrow> report w opts (length rs) rs' = Inr (st', rc') \<longrightarrow>
       summary_counts st' = summary_counts st \<and> rc' = rc) \<and>
    (rc = 0 \<longleftrightarrow> (\<forall>j\<in>set rs. \<not> is_break j \<and> (is_skip j \<or> returncode j = 0))) \<and> (rc = 0 \<or> rc = 1)"
proof -
  note r = report_counts [OF assms]
  have ps: "passed_tests st = length (filter (outcome_is (\<lambda>r. r = 0)) rs)"
    "skipped_tests st = length (filter (\<lambda>j. \<not> is_break j \<and> is_skip j) rs)"
    using r(1) by (simp_all add: summary_counts_def counts_of_def)
  have "passed_tests st + skipped_tests st = length rs \<longleftrightarrow>
      (\<forall>j\<in>set rs. \<not> is_break j \<and> (is_skip j \<or> returncode j = 0))"
    unfolding ps good_count by (rule all_counted)
  moreover have "summary_counts st' = summary_counts st \<and> rc' = rc"
    if "mset rs' = mset rs" "report w opts (length rs) rs' = Inr (st', rc')" for rs' st' rc'
  proof -
    have eq: "summary_counts st' = summary_counts st"
      using report_counts(1) [OF that(2)] r(1) counts_of_mset [OF that(1)] by simp
    then show ?thesis using report_counts(2) [OF that(2)] r(2) by (simp add: summary_counts_def)
  qed
  ultimately show ?thesis using r by auto
qed

definition demo_world :: test_world where
  "demo_world = \<lparr>tw_shell = \<lambda>cmd dir. (0, [], [], 5), tw_platform = ''linux2'', tw_cwd = ''/ns3'', tw_time = ''now'',
     tw_exists = \<lambda>_. True, tw_files = \<lambda>_. Some [], tw_read = \<lambda>_. Some ''<Test/>'', tw_waf = \<lambda>_. 0,
     tw_abspath = \<lambda>p. p, tw_eval_cpp = \<lambda>_. Inr [], tw_eval_py = \<lambda>_. Inr [], tw_eval_names = \<lambda>_. Inr [],
     tw_condition = \<lambda>_. Inr True\<rparr>"

theorem report_spec_witness:
  "\<exists>st. report demo_world default_options 3
     [Job, set_returncode 139 (set_is_example True Job), set_is_skip True Job] = Inr (st, 1) \<and>
     summary_counts st = [1, 0, 1, 0, 1]"
proof -
  define rs where "rs = [Job, set_returncode 139 (set_is_example True Job), set_is_skip True Job]"
  obtain st where st: "report demo_world default_options (length rs) rs = Inr (st, 1)"
    by (simp add: rs_def report_def collect_job_def count_status_def suite_xml_def Let_def Job_def job_setters
        empty_summary_def demo_world_def)
  have "counts_of rs = [1, 0, 1, 0, 1]" by (simp add: rs_def counts_of_def outcome_is_def Job_def job_setters)
  then have "summary_counts st = [1, 0, 1, 0, 1]" using report_spec [OF st] by simp
  moreover have "length rs = 3" by (simp add: rs_def)
  ultimately show ?thesis using st unfolding rs_def by metis
qed

lemma mset_remove_all: "mset (remove_all perf l) = mset l - mset perf"
proof (induction perf arbitrary: l)
  case (Cons t perf)
  have "mset (if t \<in> set l then remove1 t l else l) = mset l - {#t#}" by simp
  with Cons show ?case by (simp add: remove_all_def)
qed (simp add: remove_all_def)

text \<open>Unless \<open>--constrain=performance\<close> is given, the suites dispatched are those chosen
  less, as multisets, all performance suites the test runner names. This holds as well for a
  suite asked for by name: when it is a performance suite no suite is run at all.\<close>

theorem performance_suites_removed:
  assumes "suites_to_run w cfg opts = Inr l" "opt_constrain opts \<noteq> ''performance''"
  shows "\<exists>chosen perf. choose_suites w cfg opts = Inr chosen \<and>
    ask_runner w cfg '' --print-test-name-list --test-type=performance'' = Inr perf \<and>
    mset l = mset (split_on (CHR 0x0A) chosen) - mset (split_on (CHR 0x0A) perf) \<and>
    (opt_suite opts \<noteq> [] \<longrightarrow> opt_suite opts \<in> set (split_on (CHR 0x0A) perf) \<longrightarrow> suite_jobs w cfg opts l = [])"
proof -
  obtain chosen perf where c: "choose_suites w cfg opts = Inr chosen"
      "ask_runner w cfg '' --print-test-name-list --test-type=performance'' = Inr perf"
      "l = remove_all (split_on (CHR 0x0A) perf) (split_on (CHR 0x0A) chosen)"
    using assms by (auto simp: suites_to_run_def)
  have "suite_jobs w cfg opts l = []" if s: "opt_suite opts \<noteq> []" "opt_suite opts \<in> set (split_on (CHR 0x0A) perf)"
  proof -
    have ch: "chosen = opt_suite opts @ CHR 0x0A # []"
      using c(1) s(1) by (auto simp: choose_suites_def newline_def split: if_splits)
    have "CHR 0x0A \<notin> set (opt_suite opts)" using s(2) split_on_pieces by metis
    then have "split_on (CHR 0x0A) chosen = [opt_suite opts, []]"
      unfolding ch by (subst split_on_append) simp_all
    moreover obtain M where "mset (split_on (CHR 0x0A) perf) = add_mset (opt_suite opts) M"
      using s(2) by (metis in_multiset_in_set multi_member_split)
    ultimately have "mset l = {#[]#} - M" unfolding c(3) mset_remove_all by simp
    then have "mset l \<subseteq># {#[]#}" by simp
    then have "set l \<subseteq> {[]}" by (metis set_mset_mset set_mset_mono set_mset_single)
    moreover have "py_strip [] = []" by (simp add: py_strip_def)
    ultimately have "\<forall>t\<in>set l. py_strip t = []" by auto
    then show ?thesis by (simp add: suite_jobs_def filter_empty_conv)
  qed
  then show ?thesis using c mset_remove_all by blast
qed

definition demo_config :: waf_config where
  "demo_config = \<lparr>NS3_BASEDIR = ''/ns3'', NS3_BUILDDIR = ''/ns3/build'', NS3_ENABLED_MODULES = [''ns3-core''],
     NS3_MODULE_PATH = [''/ns3/build/lib''], NSC_ENABLED = False, ENABLE_EXAMPLES = True, ENABLE_TESTS = True,
     ENABLE_PYTHON_BINDINGS = True, EXAMPLE_DIRECTORIES = [], APPNAME = ''ns'', BUILD_PROFILE = ''debug'',
     BUILD_PROFILE_SUFFIX = ''-debug'', VERSION = ''3'', PYTHON = [''python''], VALGRIND_FOUND = True\<rparr>"

theorem performance_suites_removed_witness:
  "suite_jobs (demo_world\<lparr>tw_shell := \<lambda>cmd dir. (0, ''p'' @ newline, [], 5)\<rparr>) demo_config
     (default_options\<lparr>opt_suite := ''p''\<rparr>) [[], []] = [] \<and>
   suites_to_run (demo_world\<lparr>tw_shell := \<lambda>cmd dir. (0, ''p'' @ newline, [], 5)\<rparr>) demo_config
     (default_options\<lparr>opt_suite := ''p''\<rparr>) = Inr []"
proof -
  define w where "w = demo_world\<lparr>tw_shell := \<lambda>cmd dir. (0, ''p'' @ newline, [], 5)\<rparr>"
  define opts where "opts = default_options\<lparr>opt_suite := ''p''\<rparr>"
  have ask: "ask_runner w cfg a = Inr (''p'' @ newline)" for cfg a
    by (simp add: ask_runner_def run_job_synchronously_def job_command_def w_def)
  have run: "suites_to_run w demo_config opts = Inr []"
    by (simp add: suites_to_run_def choose_suites_def ask remove_all_def newline_def opts_def default_options_def)
  have c: "opt_constrain opts \<noteq> ''performance''" by (simp add: opts_def default_options_def)
  obtain chosen where "mset ([]::string list) = mset (split_on (CHR 0x0A) chosen) - mset (split_on (CHR 0x0A) (''p'' @ newline))"
    using performance_suites_removed [OF run c] ask by auto
  moreover have "suite_jobs w demo_config opts [[], []] = []" by (simp add: suite_jobs_def py_strip_def)
  ultimately show ?thesis using run by (simp add: w_def opts_def)
qed

text \<open>What is appended to the results file for a suite: a skip entry; for the return codes
  0, 1 and 2 the suite's own file and nothing else, so that the valgrind entry announced for
  return code 2 is never written; for any other code an entry whose \<open>Result\<close> element is
  closed by a \<open>Suite\<close> tag.\<close>

theorem suite_xml_cases:
  assumes "suite_xml w job = Inr x"
  shows "(is_skip job \<longrightarrow> x = test_xml ''  <Result>SKIP</Result>'' job) \<and>
    (\<not> is_skip job \<and> returncode job \<in> {0, 1, 2} \<longrightarrow> tw_read w (tmp_file_name job) = Some x) \<and>
    (\<not> is_skip job \<and> returncode job \<notin> {0, 1, 2} \<longrightarrow>
       x = ''<Test>'' @ newline @ ''  <Name>'' @ display_name job @ ''</Name>'' @ newline @
           ''  <Result>CRASH</Suite>'' @ newline @ ''</Test>'' @ newline)"
  using assms by (auto simp: suite_xml_def test_xml_def split: if_splits option.splits)

theorem suite_xml_cases_witness:
  "suite_xml demo_world (set_returncode 2 Job) = Inr ''<Test/>'' \<and>
   tw_read demo_world (tmp_file_name (set_returncode 2 Job)) = Some ''<Test/>''"
proof -
  have x: "suite_xml demo_world (set_returncode 2 Job) = Inr ''<Test/>''"
    by (simp add: suite_xml_def Job_def job_setters demo_world_def)
  show ?thesis using suite_xml_cases [OF x] x by (simp add: Job_def job_setters)
qed

text \<open>On Linux \<open>make_paths\<close> extends \<open>LD_LIBRARY_PATH\<close> by every module path, but
  replaces a \<open>PYTHONPATH\<close> that was set instead of extending it: the new value is the path of
  the bindings twice.\<close>

theorem make_paths_linux:
  assumes "platform \<notin> {''darwin'', ''win32'', ''cygwin''}"
  shows "dict_get (make_paths cfg platform env) ''LD_LIBRARY_PATH'' =
      Some (dict_getdefault env ''LD_LIBRARY_PATH'' [] @ concat (map (\<lambda>p. '':'' @ p) (NS3_MODULE_PATH cfg))) \<and>
    dict_get (make_paths cfg platform env) ''PYTHONPATH'' =
      (let pypath = path_join (path_join (NS3_BUILDDIR cfg) ''bindings'') ''python''
       in Some (if has_key env ''PYTHONPATH'' then pypath @ '':'' @ pypath else pypath)) \<and>
    (\<forall>k. k \<noteq> ''LD_LIBRARY_PATH'' \<longrightarrow> k \<noteq> ''PYTHONPATH'' \<longrightarrow>
       dict_get (make_paths cfg platform env) k = dict_get env k)"
proof -
  have grow: "dict_get (foldl (\<lambda>e path. dict_set e var (dict_getdefault e var [] @ sep @ path)) e paths)
      = (dict_get e)(var \<mapsto> v @ concat (map (\<lambda>p. sep @ p) paths))"
    if "dict_get e var = Some v" for e var sep v and paths :: "string list"
    using that
  proof (induction paths arbitrary: e v)
    case Nil
    then show ?case by (simp add: map_upd_triv)
  next
    case (Cons a paths)
    have "dict_get (dict_set e var (dict_getdefault e var [] @ sep @ a)) var = Some (v @ sep @ a)"
      using Cons.prems by (simp add: dict_getdefault_def)
    from Cons.IH [OF this] show ?case by (auto simp: fun_eq_iff)
  qed
  have app: "dict_get (append_paths var sep paths e) =
      (dict_get e)(var \<mapsto> dict_getdefault e var [] @ concat (map (\<lambda>p. sep @ p) paths))"
    for e var sep and paths :: "string list"
  proof (cases "dict_get e var")
    case None
    then show ?thesis using grow [of "dict_set e var []" var "[]" sep paths]
      by (simp add: append_paths_def has_key_def dict_getdefault_def)
  next
    case (Some v)
    then show ?thesis using grow [OF Some] by (simp add: append_paths_def has_key_def dict_getdefault_def)
  qed
  show ?thesis using assms by (simp add: make_paths_def Let_def app dict_getdefault_def)
qed

theorem make_paths_linux_witness:
  "dict_get (make_paths demo_config ''linux2'' [(''PYTHONPATH'', ''/home/me'')]) ''PYTHONPATH''
     = Some ''/ns3/build/bindings/python:/ns3/build/bindings/python''"
  using make_paths_linux [of "''linux2''" demo_config "[(''PYTHONPATH'', ''/home/me'')]"]
  by (simp add: demo_config_def path_join_def starts_with_def ends_with_def has_key_def)

end
