(* ===== verification/Test_Report.thy ===== *)
theory Test_Report
  imports Py_Base
begin

text \<open>
  The two translators of \<open>src/test.py\<close> from the XML results to text and to HTML
  (\<open>read_test\<close>, \<open>node_to_text\<close>, \<open>translate_to_text\<close>, \<open>translate_to_html\<close>).

  The parsed document is the tree the standard library's \<open>ElementTree\<close> gives: an element
  with its tag, attributes, text and children; \<open>find\<close> and \<open>findall\<close> look at the children.
  \<open>find\<close> answers \<open>None\<close> for a child that is missing, and \<open>.text\<close> of \<open>None\<close> raises; the
  text of an empty element is \<open>None\<close>, which \<open>%s\<close> prints as the word None.
\<close>

section \<open>Elements\<close>

datatype element = Element (elem_tag: string) (attrib: "(string, string) dict") (elem_text: "string option")
  (elem_children: "element list")

definition findall :: "string \<Rightarrow> element \<Rightarrow> element list" where
  "findall tag e = filter (\<lambda>c. elem_tag c = tag) (elem_children e)"

definition find_child :: "string \<Rightarrow> element \<Rightarrow> element option" where
  "find_child tag e = find (\<lambda>c. elem_tag c = tag) (elem_children e)"

definition show_text :: "string option \<Rightarrow> string" where
  "show_text t = (case t of None \<Rightarrow> ''None'' | Some s \<Rightarrow> s)"

definition child_text :: "string \<Rightarrow> element \<Rightarrow> py_exn + string option" where
  "child_text tag e =
     (case find_child tag e of None \<Rightarrow> Inl AttributeError | Some c \<Rightarrow> Inr (elem_text c))"

lemma size_children [termination_simp]: "c \<in> set (findall tag e) \<Longrightarrow> size c < size e"
proof -
  assume "c \<in> set (findall tag e)"
  then have "c \<in> set (elem_children e)" by (simp add: findall_def)
  then have "size c \<le> size_list size (elem_children e)" by (rule size_list_estimation') simp
  then show ?thesis by (cases e) simp
qed

definition quote :: string where
  "quote = [CHR 0x22]"

definition nl :: string where
  "nl = [CHR 0x0A]"

section \<open>Text\<close>

definition read_test :: "element \<Rightarrow> py_exn + (string option \<times> string option \<times> string option)" where
  "read_test test =
     py_bind (child_text ''Result'' test) (\<lambda>result.
     py_bind (child_text ''Name'' test) (\<lambda>nm.
       Inr (result, nm, case find_child ''Time'' test of
                          None \<Rightarrow> Some [] | Some t \<Rightarrow> dict_get (attrib t) ''real'')))"

definition failure_text :: "element \<Rightarrow> py_exn + string list" where
  "failure_text details =
     py_bind (py_map (\<lambda>(label, tag). py_bind (child_text tag details) (\<lambda>t.
                Inr (''      '' @ label @ show_text t @ nl)))
        [(''Message:   '', ''Message''), (''Condition: '', ''Condition''), (''Actual:    '', ''Actual''),
         (''Limit:     '', ''Limit''), (''File:      '', ''File''), (''Line:      '', ''Line'')])
       (\<lambda>lines. Inr ((''    Details:'' @ nl) # lines))"

definition header_text :: "string \<Rightarrow> element \<Rightarrow> py_exn + string" where
  "header_text kind test =
     py_bind (read_test test) (\<lambda>(result, nm, time_real).
       Inr (show_text result @ '': '' @ kind @ '' '' @ quote @ show_text nm @ quote @
            '' ('' @ show_text time_real @ '')'' @ nl))"

text \<open>What \<open>node_to_text\<close> writes, one string for each call of \<open>f.write\<close>.\<close>

function node_to_text :: "element \<Rightarrow> py_exn + string list" where
  "node_to_text test =
     py_bind (header_text ''Test Suite'' test) (\<lambda>header.
     py_bind (py_map failure_text (findall ''FailureDetails'' test)) (\<lambda>failures.
     py_bind (py_map node_to_text (findall ''Test'' test)) (\<lambda>nested.
       Inr (header # concat failures @ concat nested))))"
  by auto
termination by (relation "measure size") (auto dest: size_children)

declare node_to_text.simps [simp del]

definition translate_to_text :: "element \<Rightarrow> py_exn + string list" where
  "translate_to_text results =
     py_bind (py_map node_to_text (findall ''Test'' results)) (\<lambda>tests.
     py_bind (py_map (header_text ''Example'') (findall ''Example'' results)) (\<lambda>examples.
       Inr (concat tests @ examples)))"

section \<open>HTML\<close>

definition cell :: "string \<Rightarrow> string" where
  "cell s = ''<td>'' @ s @ ''</td>'' @ nl"

definition coloured :: "string \<Rightarrow> string \<Rightarrow> string" where
  "coloured tag colour = ''<'' @ tag @ '' style='' @ quote @ ''color:'' @ colour @ quote @ ''>''"

definition suite_header :: "string option \<Rightarrow> string option \<Rightarrow> string option \<Rightarrow> string" where
  "suite_header result nm time =
     coloured ''h3'' (if result = Some ''PASS'' then ''green'' else if result = Some ''SKIP'' then ''#ff6600'' else ''red'') @
     show_text result @ '': '' @ show_text nm @ '' ('' @ show_text time @ '')</h3>'' @ nl"

definition failure_cell :: "element \<Rightarrow> py_exn + string list" where
  "failure_cell details =
     py_bind (py_map (\<lambda>(label, tag, after). py_bind (child_text tag details) (\<lambda>t.
                Inr (''<b>'' @ label @ ''</b>'' @ show_text t @ after)))
        [(''Message: '', ''Message'', '', ''), (''Condition: '', ''Condition'', '', ''),
         (''Actual: '', ''Actual'', '', ''), (''Limit: '', ''Limit'', '', ''),
         (''File: '', ''File'', '', ''), (''Line: '', ''Line'', [])])
       (\<lambda>parts. Inr ([''<td>''] @ parts @ [''</td>'' @ nl]))"

text \<open>The rows of a failed case; the code ends each with another end of cell.\<close>

fun failure_rows :: "string option \<Rightarrow> string option \<Rightarrow> string option \<Rightarrow> bool \<Rightarrow> element list \<Rightarrow> py_exn + string list" where
  "failure_rows result nm time first_row [] = Inr []"
| "failure_rows result nm time first_row (details # rest) =
     py_bind (failure_cell details) (\<lambda>cells.
     py_bind (failure_rows result nm time False rest) (\<lambda>rows.
       Inr ([''<tr>'' @ nl] @
            (if first_row
             then [coloured ''td'' ''red'' @ show_text result @ ''</td>'' @ nl, cell (show_text nm), cell (show_text time)]
             else [cell [], cell [], cell []]) @
            cells @ [''</td>'' @ nl] @ rows)))"

definition html_case :: "element \<Rightarrow> py_exn + string list" where
  "html_case test_case =
     py_bind (read_test test_case) (\<lambda>(result, nm, time).
       if result = Some ''FAIL'' then failure_rows result nm time True (findall ''FailureDetails'' test_case)
       else Inr [''<tr>'' @ nl, coloured ''td'' ''green'' @ show_text result @ ''</td>'' @ nl,
                 cell (show_text nm), cell (show_text time), cell [], ''</tr>'' @ nl])"

definition html_suite :: "element \<Rightarrow> py_exn + string list" where
  "html_suite suite =
     py_bind (read_test suite) (\<lambda>(result, nm, time).
       let start = [suite_header result nm time, ''<table border='' @ quote @ ''1'' @ quote @ ''>'' @ nl,
                    ''<th> Result </th>'' @ nl]
       in if result \<in> set [Some ''CRASH'', Some ''SKIP'', Some ''VALGR'']
          then Inr (start @ [''<tr>'' @ nl,
                 coloured ''td'' (if result = Some ''SKIP'' then ''#ff6600'' else ''red'') @ show_text result @ ''</td>'' @ nl,
                 ''</tr>'' @ nl, ''</table>'' @ nl])
          else py_bind (py_map html_case (findall ''Test'' suite)) (\<lambda>cases.
                 Inr (start @ [''<th>Test Case Name</th>'' @ nl, ''<th> Time </th>'' @ nl] @
                      (if result = Some ''FAIL'' then [''<th>Failure Details</th>'' @ nl] else []) @
                      concat cases @ [''</table>'' @ nl])))"

definition html_example :: "element \<Rightarrow> py_exn + string list" where
  "html_example example =
     py_bind (read_test example) (\<lambda>(result, nm, time).
       Inr [''<tr>'' @ nl,
            (if result = Some ''PASS'' then coloured ''td'' ''green'' @ show_text result @ ''</td>'' @ nl
             else if result = Some ''SKIP'' then coloured ''td'' ''#ff6600'' @ show_text result @ ''</fd>'' @ nl
             else coloured ''td'' ''red'' @ show_text result @ ''</td>'' @ nl),
            cell (show_text nm), cell (show_text time), ''</tr>'' @ nl])"

definition translate_to_html :: "element \<Rightarrow> py_exn + string list" where
  "translate_to_html results =
     py_bind (py_map html_suite (findall ''Test'' results)) (\<lambda>suites.
     py_bind (py_map html_example (findall ''Example'' results)) (\<lambda>examples.
       Inr ([''<html>'' @ nl, ''<body>'' @ nl, ''<center><h1>ns-3 Test Results</h1></center>'' @ nl,
             ''<h2>Test Suites</h2>'' @ nl] @ concat suites @
            [''<h2>Examples</h2>'' @ nl, ''<table border='' @ quote @ ''1'' @ quote @ ''>'' @ nl,
             ''<th> Result </th>'' @ nl, ''<th>Example Name</th>'' @ nl, ''<th>Elapsed Time</th>'' @ nl] @
            concat examples @ [''</table>'' @ nl, ''</body>'' @ nl, ''</html>'' @ nl])))"

section \<open>The text report in document order\<close>

function tests_of :: "element \<Rightarrow> element list" where
  "tests_of test = test # concat (map tests_of (findall ''Test'' test))"
  by auto
termination by (relation "measure size") (auto dest: size_children)

declare tests_of.simps [simp del]

definition test_entry :: "element \<Rightarrow> py_exn + string list" where
  "test_entry test =
     py_bind (header_text ''Test Suite'' test) (\<lambda>header.
     py_bind (py_map failure_text (findall ''FailureDetails'' test)) (\<lambda>failures.
       Inr (header # concat failures)))"

definition entries :: "element list \<Rightarrow> py_exn + string list" where
  "entries ts = py_bind (py_map test_entry ts) (\<lambda>es. Inr (concat es))"

lemma entries_append: "entries (a @ b) = py_bind (entries a) (\<lambda>x. py_bind (entries b) (\<lambda>y. Inr (x @ y)))"
  by (cases "py_map test_entry a"; cases "py_map test_entry b") (simp_all add: entries_def py_map_append)

lemma entries_concat:
  "py_bind (py_map f xs) (\<lambda>ys. Inr (concat ys)) = entries (concat (map g xs))"
  if "\<And>x. x \<in> set xs \<Longrightarrow> f x = entries (g x)"
  using that
proof (induction xs)
  case (Cons x xs)
  have "entries (concat (map g xs)) = py_bind (py_map f xs) (\<lambda>ys. Inr (concat ys))"
    using Cons by simp
  moreover have "f x = entries (g x)" using Cons.prems by simp
  ultimately show ?case
    by (cases "entries (g x)"; cases "py_map f xs") (simp_all add: entries_append)
qed (simp add: entries_def)

lemma node_to_text_entries: "node_to_text t = entries (tests_of t)"
proof (induction t rule: tests_of.induct)
  case (1 t)
  have nested: "py_bind (py_map node_to_text (findall ''Test'' t)) (\<lambda>ys. Inr (concat ys))
      = entries (concat (map tests_of (findall ''Test'' t)))"
    by (rule entries_concat) (rule 1)
  have "entries (tests_of t) = py_bind (test_entry t) (\<lambda>x.
      py_bind (entries (concat (map tests_of (findall ''Test'' t)))) (\<lambda>y. Inr (x @ y)))"
    using entries_append [of "[t]" "concat (map tests_of (findall ''Test'' t))"]
    by (cases "test_entry t") (simp_all add: tests_of.simps [of t] entries_def)
  then show ?case unfolding nested [symmetric]
    by (cases "header_text ''Test Suite'' t"; cases "py_map failure_text (findall ''FailureDetails'' t)";
        cases "py_map node_to_text (findall ''Test'' t)")
      (simp_all add: node_to_text.simps [of t] test_entry_def)
qed

section \<open>Rows of the HTML report\<close>

definition open_rows :: "string list \<Rightarrow> int" where
  "open_rows out = int (length (filter (\<lambda>s. s = ''<tr>'' @ nl) out)) - int (length (filter (\<lambda>s. s = ''</tr>'' @ nl) out))"

definition failed_rows :: "element \<Rightarrow> nat" where
  "failed_rows suite =
     (case child_text ''Result'' suite of
        Inr r \<Rightarrow>
          if r \<in> set [Some ''CRASH'', Some ''SKIP'', Some ''VALGR''] then 0
          else sum_list (map (\<lambda>c. length (findall ''FailureDetails'' c))
                 (filter (\<lambda>c. child_text ''Result'' c = Inr (Some ''FAIL'')) (findall ''Test'' suite)))
      | Inl _ \<Rightarrow> 0)"

lemma open_rows_append [simp]: "open_rows (a @ b) = open_rows a + open_rows b"
  by (simp add: open_rows_def)

lemma open_rows_Nil [simp]: "open_rows [] = 0"
  by (simp add: open_rows_def)

lemma open_rows_Cons:
  "open_rows (s # out) = (if s = ''<tr>'' @ nl then 1 else if s = ''</tr>'' @ nl then - 1 else 0) + open_rows out"
  by (simp add: open_rows_def nl_def)

lemmas report_tags = cell_def coloured_def suite_header_def nl_def quote_def

lemma open_rows_failure_cell: "failure_cell d = Inr cells \<Longrightarrow> open_rows cells = 0"
  by (auto simp: failure_cell_def open_rows_Cons nl_def)

lemma open_rows_failures:
  "failure_rows result nm time fr ds = Inr rows \<Longrightarrow> open_rows rows = int (length ds)"
  by (induction result nm time fr ds arbitrary: rows rule: failure_rows.induct)
    (auto simp: open_rows_Cons report_tags open_rows_failure_cell split: if_splits)

lemma read_test_result: "read_test t = Inr (r, n, m) \<Longrightarrow> child_text ''Result'' t = Inr r"
  by (auto simp: read_test_def)

lemma open_rows_case:
  "html_case c = Inr out \<Longrightarrow>
   open_rows out = (if child_text ''Result'' c = Inr (Some ''FAIL'') then int (length (findall ''FailureDetails'' c)) else 0)"
  by (auto simp: html_case_def open_rows_Cons report_tags dest: open_rows_failures read_test_result split: if_splits)

lemma open_rows_cases:
  "py_map html_case cs = Inr outs \<Longrightarrow>
   open_rows (concat outs) = int (sum_list (map (\<lambda>c. length (findall ''FailureDetails'' c))
     (filter (\<lambda>c. child_text ''Result'' c = Inr (Some ''FAIL'')) cs)))"
proof (induction cs arbitrary: outs)
  case (Cons c cs)
  then obtain out outs' where "html_case c = Inr out" "py_map html_case cs = Inr outs'" "outs = out # outs'"
    by auto
  with Cons.IH open_rows_case [of c out] show ?case by simp
qed simp

lemma open_rows_start:
  "open_rows [suite_header r n t, ''<table border='' @ quote @ ''1'' @ quote @ ''>'' @ nl, ''<th> Result </th>'' @ nl] = 0"
  "open_rows [''<th>Test Case Name</th>'' @ nl, ''<th> Time </th>'' @ nl] = 0"
  "open_rows [''<th>Failure Details</th>'' @ nl] = 0" "open_rows [''</table>'' @ nl] = 0"
  "open_rows [''<tr>'' @ nl, coloured ''td'' colour @ x, ''</tr>'' @ nl, ''</table>'' @ nl] = 0"
  by (simp_all add: open_rows_Cons report_tags)

lemma open_rows_suite:
  assumes "html_suite s = Inr out"
  shows "open_rows out = int (failed_rows s)"
proof -
  obtain result nm time where r: "read_test s = Inr (result, nm, time)"
    using assms by (auto simp: html_suite_def)
  define start where "start = [suite_header result nm time, ''<table border='' @ quote @ ''1'' @ quote @ ''>'' @ nl,
    ''<th> Result </th>'' @ nl]"
  have res: "child_text ''Result'' s = Inr result" using read_test_result [OF r] .
  show ?thesis
  proof (cases "result \<in> set [Some ''CRASH'', Some ''SKIP'', Some ''VALGR'']")
    case True
    obtain colour x where "out = start @ [''<tr>'' @ nl, coloured ''td'' colour @ x, ''</tr>'' @ nl, ''</table>'' @ nl]"
      using assms True by (simp only: html_suite_def r py_bind_simps prod.case Let_def if_True sum.inject flip: start_def) metis
    then have "open_rows out = 0" by (simp only: open_rows_append open_rows_start start_def)
    then show ?thesis using True res by (simp add: failed_rows_def)
  next
    case False
    obtain cases where c: "py_map html_case (findall ''Test'' s) = Inr cases"
        "out = start @ [''<th>Test Case Name</th>'' @ nl, ''<th> Time </th>'' @ nl] @
          (if result = Some ''FAIL'' then [''<th>Failure Details</th>'' @ nl] else []) @ concat cases @ [''</table>'' @ nl]"
      using assms False by (simp only: html_suite_def r py_bind_simps prod.case Let_def if_False flip: start_def)
        (auto simp only: py_bind_eq_Inr sum.inject)
    have "open_rows (if result = Some ''FAIL'' then [''<th>Failure Details</th>'' @ nl] else []) = 0"
      by (simp only: open_rows_start open_rows_Nil split: if_split) simp
    then have "open_rows out = open_rows (concat cases)"
      unfolding c(2) start_def by (simp only: open_rows_append open_rows_start)
    then show ?thesis using False res open_rows_cases [OF c(1)] unfolding failed_rows_def by (simp only: sum.case if_False)
  qed
qed

lemma open_rows_example: "html_example e = Inr out \<Longrightarrow> open_rows out = 0"
  by (auto simp: html_example_def open_rows_Cons report_tags split: if_splits)

lemma open_rows_concat:
  "py_map f xs = Inr outs \<Longrightarrow> (\<And>x out. x \<in> set xs \<Longrightarrow> f x = Inr out \<Longrightarrow> open_rows out = int (g x)) \<Longrightarrow>
   open_rows (concat outs) = int (sum_list (map g xs))"
  by (induction xs arbitrary: outs) auto

text \<open>Where the tests of a document are: a path gives the number of a child at each level, and every element on
  the way is a test.\<close>

fun descend :: "nat list \<Rightarrow> element \<Rightarrow> element option" where
  "descend [] e = Some e"
| "descend (i # path) e =
     (if i < length (elem_children e) \<and> elem_tag (elem_children e ! i) = ''Test'' then descend path (elem_children e ! i) else None)"

text \<open>The entry of a test, of which no part is missing.\<close>

definition has_children :: "string list \<Rightarrow> element \<Rightarrow> bool" where
  "has_children tags e \<longleftrightarrow> set tags \<subseteq> set (map elem_tag (elem_children e))"

definition detail_tags :: "string list" where
  "detail_tags = [''Message'', ''Condition'', ''Actual'', ''Limit'', ''File'', ''Line'']"

definition complete_test :: "element \<Rightarrow> bool" where
  "complete_test t \<longleftrightarrow> has_children [''Result'', ''Name''] t \<and> list_all (has_children detail_tags) (findall ''FailureDetails'' t)"

definition text_of :: "string \<Rightarrow> element \<Rightarrow> string" where
  "text_of tag e = show_text (elem_text (hd (findall tag e)))"

definition heading :: "string \<Rightarrow> element \<Rightarrow> string" where
  "heading kind t =
     text_of ''Result'' t @ '': '' @ kind @ '' '' @ quote @ text_of ''Name'' t @ quote @ '' ('' @
     (case findall ''Time'' t of [] \<Rightarrow> [] | time # _ \<Rightarrow> show_text (dict_get (attrib time) ''real'')) @ '')'' @ nl"

definition failure_lines :: "element \<Rightarrow> string list" where
  "failure_lines d =
     [''    Details:'' @ nl, ''      Message:   '' @ text_of ''Message'' d @ nl, ''      Condition: '' @ text_of ''Condition'' d @ nl,
      ''      Actual:    '' @ text_of ''Actual'' d @ nl, ''      Limit:     '' @ text_of ''Limit'' d @ nl,
      ''      File:      '' @ text_of ''File'' d @ nl, ''      Line:      '' @ text_of ''Line'' d @ nl]"

definition entry_lines :: "element \<Rightarrow> string list" where
  "entry_lines t = heading ''Test Suite'' t # concat (map failure_lines (findall ''FailureDetails'' t))"

lemma find_filter: "find P xs = (case filter P xs of [] \<Rightarrow> None | x # _ \<Rightarrow> Some x)"
  by (induction xs) simp_all

lemma find_child_findall: "find_child tag e = (case findall tag e of [] \<Rightarrow> None | c # _ \<Rightarrow> Some c)"
  unfolding find_child_def findall_def by (rule find_filter)

lemma child_text_eq:
  "child_text tag e = (if has_children [tag] e then Inr (elem_text (hd (findall tag e))) else Inl AttributeError)"
proof -
  have "has_children [tag] e \<longleftrightarrow> findall tag e \<noteq> []" by (auto simp: has_children_def findall_def filter_empty_conv)
  then show ?thesis by (cases "findall tag e") (simp_all add: child_text_def find_child_findall)
qed

lemma has_children_Cons: "has_children (t # ts) e \<longleftrightarrow> has_children [t] e \<and> has_children ts e"
  by (simp add: has_children_def)

lemma py_map_child_text:
  "py_map (\<lambda>(label, tag). py_bind (child_text tag e) (\<lambda>t. Inr (g label t))) ls =
    (if has_children (map snd ls) e then Inr (map (\<lambda>(label, tag). g label (elem_text (hd (findall tag e)))) ls) else Inl AttributeError)"
proof (induction ls)
  case (Cons l ls)
  then show ?case by (cases l) (auto simp: child_text_eq has_children_Cons [of _ "map snd ls"])
qed (simp add: has_children_def)

lemma failure_text_eq: "failure_text d = (if has_children detail_tags d then Inr (failure_lines d) else Inl AttributeError)"
proof -
  have tags: "map snd [(''Message:   '', ''Message''), (''Condition: '', ''Condition''), (''Actual:    '', ''Actual''),
      (''Limit:     '', ''Limit''), (''File:      '', ''File''), (''Line:      '', ''Line'')] = detail_tags"
    by (simp only: list.map snd_conv detail_tags_def)
  show ?thesis
    unfolding failure_text_def py_map_child_text tags by (simp add: failure_lines_def text_of_def)
qed

lemma header_text_eq:
  "header_text kind t = (if has_children [''Result'', ''Name''] t then Inr (heading kind t) else Inl AttributeError)"
  by (cases "findall ''Time'' t")
    (simp_all add: header_text_def read_test_def child_text_eq has_children_Cons [of "''Result''" "[''Name'']"] heading_def text_of_def
      find_child_findall show_text_def)

lemma py_map_total:
  "(\<And>x. x \<in> set xs \<Longrightarrow> f x = (if P x then Inr (g x) else Inl e)) \<Longrightarrow>
   py_map f xs = (if list_all P xs then Inr (map g xs) else Inl e)"
  by (induction xs) auto

lemma test_entry_eq: "test_entry t = (if complete_test t then Inr (entry_lines t) else Inl AttributeError)"
  using py_map_total [of "findall ''FailureDetails'' t" failure_text, OF failure_text_eq]
  by (simp add: test_entry_def header_text_eq complete_test_def entry_lines_def)

lemma entries_eq: "entries ts = (if list_all complete_test ts then Inr (concat (map entry_lines ts)) else Inl AttributeError)"
  using py_map_total [of ts test_entry, OF test_entry_eq] by (simp add: entries_def)

lemma translate_to_text_eq:
  "translate_to_text results =
    (let tests = concat (map tests_of (findall ''Test'' results)); examples = findall ''Example'' results in
     if list_all complete_test tests \<and> list_all (has_children [''Result'', ''Name'']) examples
     then Inr (concat (map entry_lines tests) @ map (heading ''Example'') examples) else Inl AttributeError)"
proof -
  have tests: "py_bind (py_map node_to_text (findall ''Test'' results)) (\<lambda>ys. Inr (concat ys)) =
      entries (concat (map tests_of (findall ''Test'' results)))"
    by (rule entries_concat) (rule node_to_text_entries)
  have examples: "py_map (header_text ''Example'') (findall ''Example'' results) =
      (if list_all (has_children [''Result'', ''Name'']) (findall ''Example'' results)
       then Inr (map (heading ''Example'') (findall ''Example'' results)) else Inl AttributeError)"
    by (rule py_map_total) (rule header_text_eq)
  show ?thesis
    using tests unfolding entries_eq translate_to_text_def examples Let_def
    by (cases "py_map node_to_text (findall ''Test'' results)") (auto split: if_splits)
qed

text \<open>The paths of the tests below an element, in document order.\<close>

function paths_of :: "element \<Rightarrow> nat list list" where
  "paths_of e =
     concat (map (\<lambda>i. if elem_tag (elem_children e ! i) = ''Test'' then map ((#) i) ([] # paths_of (elem_children e ! i)) else [])
       [0..<length (elem_children e)])"
  by auto
termination
proof (relation "measure size", simp)
  fix e i assume "i \<in> set [0..<length (elem_children e)]" "elem_tag (elem_children e ! i) = ''Test''"
  then show "(elem_children e ! i, e) \<in> measure size" using size_children [of "elem_children e ! i" "''Test''" e] by (simp add: findall_def)
qed

declare paths_of.simps [simp del]

lemma in_paths_of: "path \<in> set (paths_of e) \<longleftrightarrow> path \<noteq> [] \<and> descend path e \<noteq> None"
proof (induction path arbitrary: e)
  case Nil
  show ?case by (subst paths_of.simps) auto
next
  case (Cons i path)
  have "i # path \<in> set (paths_of e) \<longleftrightarrow> i < length (elem_children e) \<and> elem_tag (elem_children e ! i) = ''Test'' \<and>
      (path = [] \<or> path \<in> set (paths_of (elem_children e ! i)))"
    by (subst paths_of.simps) (auto split: if_splits)
  then show ?case using Cons by auto
qed

lemma sorted_wrt_concat:
  "sorted_wrt (\<lambda>x y. \<forall>a\<in>set (f x). \<forall>b\<in>set (f y). R a b) xs \<Longrightarrow> (\<And>x. x \<in> set xs \<Longrightarrow> sorted_wrt R (f x)) \<Longrightarrow>
   sorted_wrt R (concat (map f xs))"
  by (induction xs) (auto simp: sorted_wrt_append)

lemma paths_sorted: "sorted_wrt ord_class.lexordp (paths_of e)"
proof (induction e rule: paths_of.induct)
  case (1 e)
  let ?f = "\<lambda>i. if elem_tag (elem_children e ! i) = ''Test'' then map ((#) i) ([] # paths_of (elem_children e ! i)) else []"
  show ?case
    unfolding paths_of.simps [of e]
  proof (rule sorted_wrt_concat)
    show "sorted_wrt (\<lambda>x y. \<forall>a\<in>set (?f x). \<forall>b\<in>set (?f y). ord_class.lexordp a b) [0..<length (elem_children e)]"
      by (auto simp: sorted_wrt_iff_nth_less)
  next
    fix i assume i: "i \<in> set [0..<length (elem_children e)]"
    have "\<forall>p\<in>set (paths_of (elem_children e ! i)). ord_class.lexordp [] p" by (simp add: in_paths_of)
    then show "sorted_wrt ord_class.lexordp (?f i)"
      using 1 [OF i] by (simp add: sorted_wrt_map)
  qed
qed

lemma tests_below: "concat (map tests_of (findall ''Test'' e)) = map (\<lambda>path. the (descend path e)) (paths_of e)"
proof (induction e rule: paths_of.induct)
  case (1 e)
  let ?f = "\<lambda>i. if elem_tag (elem_children e ! i) = ''Test'' then map ((#) i) ([] # paths_of (elem_children e ! i)) else []"
  let ?g = "\<lambda>c. if elem_tag c = ''Test'' then tests_of c else []"
  have one: "?g (elem_children e ! i) = map (\<lambda>path. the (descend path e)) (?f i)" if "i \<in> set [0..<length (elem_children e)]" for i
    using 1 [OF that] that by (simp add: tests_of.simps [of "elem_children e ! i"])
  have filtered: "concat (map tests_of (filter P cs)) = concat (map (\<lambda>c. if P c then tests_of c else []) cs)" for P cs
    by (induction cs) simp_all
  have "concat (map tests_of (findall ''Test'' e)) = concat (map ?g (map ((!) (elem_children e)) [0..<length (elem_children e)]))"
    unfolding findall_def filtered map_nth ..
  also have "\<dots> = concat (map (\<lambda>i. map (\<lambda>path. the (descend path e)) (?f i)) [0..<length (elem_children e)])"
    unfolding map_map comp_def by (rule arg_cong [where f = concat]) (rule map_cong [OF refl one])
  finally show ?case
    by (subst paths_of.simps) (simp only: map_concat map_map comp_def)
qed

text \<open>C19: The text report of a document of results is, for every test of the document, at whatever depth it is nested in
  other tests, its header line and the seven lines of each of its failures, the tests in document order (the lexicographic order of
  their paths from the root), and then the header lines of the examples in order. When a test or an example has no
  \<open>Result\<close> or no \<open>Name\<close>, or a failure lacks one of its six fields, the translation raises \<open>AttributeError\<close>.\<close>

theorem text_report_document_order:
  "\<exists>paths. sorted_wrt ord_class.lexordp paths \<and> set paths = {path. path \<noteq> [] \<and> descend path results \<noteq> None} \<and>
    (let tests = map (\<lambda>path. the (descend path results)) paths; examples = findall ''Example'' results in
     translate_to_text results =
       (if list_all complete_test tests \<and> list_all (has_children [''Result'', ''Name'']) examples
        then Inr (concat (map entry_lines tests) @ map (heading ''Example'') examples) else Inl AttributeError))"
  using translate_to_text_eq [of results] by (intro exI [of _ "paths_of results"]) (simp add: paths_sorted in_paths_of tests_below set_eq_iff)

text \<open>In the HTML report every row that is opened is closed, except the rows of failure
  details: the report ends with one open row for each detail of a failed case of a suite that
  neither crashed nor was skipped.\<close>

theorem html_open_rows:
  assumes "translate_to_html results = Inr out"
  shows "open_rows out = int (sum_list (map failed_rows (findall ''Test'' results)))"
proof -
  obtain suites examples where s: "py_map html_suite (findall ''Test'' results) = Inr suites"
      "py_map html_example (findall ''Example'' results) = Inr examples"
      "open_rows out = open_rows (concat suites) + open_rows (concat examples)"
    using assms by (auto simp: translate_to_html_def open_rows_Cons report_tags)
  have "open_rows (concat suites) = int (sum_list (map failed_rows (findall ''Test'' results)))"
    using s(1) by (rule open_rows_concat) (rule open_rows_suite)
  moreover have "open_rows (concat examples) = int (sum_list (map (\<lambda>_. 0) (findall ''Example'' results)))"
    using s(2) by (rule open_rows_concat) (simp add: open_rows_example)
  ultimately show ?thesis using s(3) by simp
qed

definition demo_results :: element where
  "demo_results =
     (let leaf = (\<lambda>tag s. Element tag [] (Some s) []);
          details = Element ''FailureDetails'' [] None (map (\<lambda>t. leaf t ''x'')
            [''Message'', ''Condition'', ''Actual'', ''Limit'', ''File'', ''Line''])
      in Element ''Results'' [] None
           [Element ''Test'' [] None [leaf ''Result'' ''FAIL'', leaf ''Name'' ''suite'',
              Element ''Test'' [] None [leaf ''Result'' ''FAIL'', leaf ''Name'' ''case'', details]]])"

theorem html_open_rows_witness:
  "\<exists>out. translate_to_html demo_results = Inr out \<and> open_rows out = 1"
proof -
  have "\<exists>out. translate_to_html demo_results = Inr out"
    by (simp add: translate_to_html_def demo_results_def findall_def html_suite_def read_test_def child_text_def
        find_child_def html_case_def failure_cell_def Let_def)
  then obtain out where out: "translate_to_html demo_results = Inr out" by blast
  have "sum_list (map failed_rows (findall ''Test'' demo_results)) = 1"
    by (simp add: demo_results_def findall_def failed_rows_def child_text_def find_child_def Let_def)
  then show ?thesis using html_open_rows [OF out] out by auto
qed

end
