(* ===== verification/Timeline.thy ===== *)
theory Timeline
  imports Py_Base Complex_Main
begin

text \<open>
  The data of the timeline viewer \<open>src/utils/grid.py\<close>: ranges, events, the named
  timelines that hold them, the binary searches behind \<open>get_ranges\<close> and \<open>get_events\<close>,
  the bounds, the colours, and \<open>read_data\<close>, which fills them from a text file.

  A method that returns an object which the caller then changes (\<open>Timelines.get\<close>,
  \<open>get_range\<close> and the like) is modelled with the change: \<open>update_named\<close> applies it to the
  object that the method would return.
\<close>

section \<open>Data\<close>

record data_range =
  range_start :: int
  range_end :: int
  range_value :: string

datatype event_value = StrValue string | IntValue int

record event =
  event_at :: int
  event_value :: event_value

record timeline_data_range =
  dr_name :: string
  dr_ranges :: "data_range list"

record timeline_event =
  te_name :: string
  te_events :: "event list"

record timeline =
  tl_name :: string
  tl_ranges :: "timeline_data_range list"
  tl_event_str :: "timeline_event list"
  tl_event_int :: "timeline_event list"

section \<open>Searching\<close>

text \<open>
  The two loops only look at positions between the first and the last: \<open>xs ! nat i\<close> is
  never out of range when they start at 0 and the last index. The times of the data are
  integers; the time asked for may be a float, here a rational number.
\<close>

function range_search :: "data_range list \<Rightarrow> rat \<Rightarrow> int \<Rightarrow> int \<Rightarrow> int" where
  "range_search ranges key l u =
     (if l \<le> u
      then let i = (l + u) div 2
           in if rat_of_int (range_start (ranges ! nat i)) \<le> key \<and> key \<le> rat_of_int (range_end (ranges ! nat i)) then i
              else if key < rat_of_int (range_start (ranges ! nat i)) then range_search ranges key l (i - 1)
              else range_search ranges key (i + 1) u
      else - 1)"
  by auto
termination by (relation "measure (\<lambda>(ranges, key, l, u). nat (u - l + 1))") auto

function event_search :: "event list \<Rightarrow> rat \<Rightarrow> int \<Rightarrow> int \<Rightarrow> int" where
  "event_search events key l u =
     (if l \<le> u
      then let i = (l + u) div 2
           in if key = rat_of_int (event_at (events ! nat i)) then i
              else if key < rat_of_int (event_at (events ! nat i)) then event_search events key l (i - 1)
              else event_search events key (i + 1) u
      else l)"
  by auto
termination by (relation "measure (\<lambda>(events, key, l, u). nat (u - l + 1))") auto

declare range_search.simps [simp del] event_search.simps [simp del]

definition search_range :: "data_range list \<Rightarrow> rat \<Rightarrow> int" where
  "search_range ranges key = range_search ranges key 0 (int (length ranges) - 1)"

definition search_event :: "event list \<Rightarrow> rat \<Rightarrow> int" where
  "search_event events key = event_search events key 0 (int (length events) - 1)"

definition get_ranges_bounds :: "data_range list \<Rightarrow> rat \<Rightarrow> rat \<Rightarrow> int \<times> int" where
  "get_ranges_bounds ranges start stop =
     (let s = search_range ranges start; e = search_range ranges stop
      in if s = - 1 \<and> e = - 1 then (0, 0)
         else if s = - 1 then (0, e + 1)
         else if e = - 1 then (s, int (length ranges))
         else (s, e + 1))"

definition get_ranges :: "data_range list \<Rightarrow> rat \<Rightarrow> rat \<Rightarrow> data_range list" where
  "get_ranges ranges start stop =
     (let s = search_range ranges start; e = search_range ranges stop
      in if s = - 1 \<and> e = - 1 then []
         else if s = - 1 then py_slice ranges 0 (e + 1)
         else if e = - 1 then py_slice ranges s (int (length ranges))
         else py_slice ranges s (e + 1))"

definition get_events_bounds :: "event list \<Rightarrow> rat \<Rightarrow> rat \<Rightarrow> int \<times> int" where
  "get_events_bounds events start stop =
     (let s = search_event events start; e = search_event events stop in (s, e + 1))"

definition get_events :: "event list \<Rightarrow> rat \<Rightarrow> rat \<Rightarrow> event list" where
  "get_events events start stop =
     (let s = search_event events start; e = search_event events stop in py_slice events s (e + 1))"

text \<open>
  What both loops share: a probe in the middle, a hit, or the half that remains. The lemma
  inside holds for every such loop over a sequence in which the elements after the key come
  first and those before it last.
\<close>

locale bisection =
  fixes loop :: "'a list \<Rightarrow> 'k \<Rightarrow> int \<Rightarrow> int \<Rightarrow> int"
    and hit :: "'k \<Rightarrow> 'a \<Rightarrow> bool"
    and before :: "'k \<Rightarrow> 'a \<Rightarrow> bool"
    and missed :: "int \<Rightarrow> int"
  assumes loop_eq: "loop xs k l u =
    (if l \<le> u
     then let i = (l + u) div 2
          in if hit k (xs ! nat i) then i
             else if before k (xs ! nat i) then loop xs k l (i - 1)
             else loop xs k (i + 1) u
     else missed l)"
begin

lemma loop_result:
  assumes up: "\<And>i j. i \<le> j \<Longrightarrow> j < length xs \<Longrightarrow> before k (xs ! i) \<Longrightarrow> before k (xs ! j)"
    and down: "\<And>i j. i \<le> j \<Longrightarrow> j < length xs \<Longrightarrow> \<not> hit k (xs ! j) \<Longrightarrow> \<not> before k (xs ! j) \<Longrightarrow>
      \<not> hit k (xs ! i) \<and> \<not> before k (xs ! i)"
    and dj: "\<And>i. i < length xs \<Longrightarrow> before k (xs ! i) \<Longrightarrow> \<not> hit k (xs ! i)"
  shows "0 \<le> l \<Longrightarrow> u < int (length xs) \<Longrightarrow> l \<le> u + 1 \<Longrightarrow>
    (\<And>i. int i < l \<Longrightarrow> \<not> hit k (xs ! i) \<and> \<not> before k (xs ! i)) \<Longrightarrow>
    (\<And>i. u < int i \<Longrightarrow> i < length xs \<Longrightarrow> before k (xs ! i)) \<Longrightarrow>
    (\<exists>i < length xs. loop xs k l u = int i \<and> hit k (xs ! i)) \<or>
    (\<exists>i \<le> length xs. loop xs k l u = missed (int i) \<and>
       (\<forall>j < i. \<not> hit k (xs ! j) \<and> \<not> before k (xs ! j)) \<and>
       (\<forall>j < length xs. i \<le> j \<longrightarrow> before k (xs ! j) \<and> \<not> hit k (xs ! j)))"
proof (induction "nat (u - l + 1)" arbitrary: l u rule: less_induct)
  case less
  show ?case
  proof (cases "l \<le> u")
    case False
    then have "loop xs k l u = missed (int (nat l))" using less.prems by (subst loop_eq) simp
    then show ?thesis using False less.prems dj by (intro disjI2 exI [of _ "nat l"]) auto
  next
    case True
    define i where "i = (l + u) div 2"
    have i: "l \<le> i" "i \<le> u" using True by (auto simp: i_def)
    then have len: "nat i < length xs" using less.prems by simp
    have eq: "loop xs k l u = (if hit k (xs ! nat i) then i else if before k (xs ! nat i)
        then loop xs k l (i - 1) else loop xs k (i + 1) u)"
      using True by (subst loop_eq) (simp add: i_def Let_def)
    consider "hit k (xs ! nat i)" | "\<not> hit k (xs ! nat i)" "before k (xs ! nat i)"
      | "\<not> hit k (xs ! nat i)" "\<not> before k (xs ! nat i)" by blast
    then show ?thesis
    proof cases
      case 1
      then show ?thesis using eq len i less.prems by (intro disjI1 exI [of _ "nat i"]) auto
    next
      case 2
      have "before k (xs ! j)" if "i - 1 < int j" "j < length xs" for j
        using up [of "nat i" j] that 2(2) by (simp add: nat_le_iff)
      then show ?thesis using less.hyps [of "i - 1" l] less.prems i eq 2 by auto
    next
      case 3
      have "\<not> hit k (xs ! j) \<and> \<not> before k (xs ! j)" if "int j < i + 1" for j
        using down [of j "nat i"] that 3 len by (simp add: le_nat_iff)
      then show ?thesis using less.hyps [of u "i + 1"] less.prems i eq 3 by auto
    qed
  qed
qed

end

interpretation rs: bisection range_search "\<lambda>key r. rat_of_int (range_start r) \<le> key \<and> key \<le> rat_of_int (range_end r)"
  "\<lambda>key r. key < rat_of_int (range_start r)" "\<lambda>l. - 1"
  by unfold_locales (simp add: range_search.simps Let_def)

interpretation es: bisection event_search "\<lambda>key e. key = rat_of_int (event_at e)" "\<lambda>key e. key < rat_of_int (event_at e)" "\<lambda>l. l"
  by unfold_locales (simp add: event_search.simps Let_def)
section \<open>What the searches return\<close>

definition contains :: "data_range \<Rightarrow> rat \<Rightarrow> bool" where
  "contains r t \<longleftrightarrow> rat_of_int (range_start r) \<le> t \<and> t \<le> rat_of_int (range_end r)"

text \<open>Ranges that do not overlap, in order.\<close>

definition separated :: "data_range list \<Rightarrow> bool" where
  "separated rs \<longleftrightarrow> (\<forall>r\<in>set rs. range_start r \<le> range_end r) \<and> sorted_wrt (\<lambda>a b. range_end a < range_start b) rs"

lemma separated_nth:
  assumes "separated rs" "i < j" "j < length rs"
  shows "range_start (rs ! i) \<le> range_end (rs ! i)" "range_end (rs ! i) < range_start (rs ! j)"
    "range_start (rs ! j) \<le> range_end (rs ! j)"
  using assms by (auto simp: separated_def sorted_wrt_iff_nth_less)

lemma search_range_result:
  assumes "separated rs"
  shows "(\<exists>i < length rs. search_range rs t = int i \<and> contains (rs ! i) t) \<or>
    (search_range rs t = - 1 \<and> (\<forall>r\<in>set rs. \<not> contains r t))"
proof -
  have up: "t < rat_of_int (range_start (rs ! j))" if "i \<le> j" "j < length rs" "t < rat_of_int (range_start (rs ! i))" for i j
    using separated_nth [OF assms, of i j] that by (cases "i = j") auto
  have down: "\<not> contains (rs ! i) t \<and> \<not> t < rat_of_int (range_start (rs ! i))"
    if "i \<le> j" "j < length rs" "\<not> contains (rs ! j) t" "\<not> t < rat_of_int (range_start (rs ! j))" for i j
    using separated_nth [OF assms, of i j] that by (cases "i = j") (auto simp: contains_def)
  have "(\<exists>i < length rs. search_range rs t = int i \<and> contains (rs ! i) t) \<or>
    (\<exists>i \<le> length rs. search_range rs t = - 1 \<and>
       (\<forall>j < i. \<not> contains (rs ! j) t \<and> \<not> t < rat_of_int (range_start (rs ! j))) \<and>
       (\<forall>j < length rs. i \<le> j \<longrightarrow> t < rat_of_int (range_start (rs ! j)) \<and> \<not> contains (rs ! j) t))"
    unfolding search_range_def contains_def
    by (rule rs.loop_result) (use up down in \<open>auto simp: contains_def\<close>)
  then show ?thesis
  proof
    assume "\<exists>i \<le> length rs. search_range rs t = - 1 \<and>
       (\<forall>j < i. \<not> contains (rs ! j) t \<and> \<not> t < rat_of_int (range_start (rs ! j))) \<and>
       (\<forall>j < length rs. i \<le> j \<longrightarrow> t < rat_of_int (range_start (rs ! j)) \<and> \<not> contains (rs ! j) t)"
    then obtain i where "search_range rs t = - 1" "\<forall>j < i. \<not> contains (rs ! j) t"
      "\<forall>j < length rs. i \<le> j \<longrightarrow> \<not> contains (rs ! j) t" by blast
    then have "search_range rs t = - 1 \<and> (\<forall>j < length rs. \<not> contains (rs ! j) t)" by (meson not_le)
    then show ?thesis by (metis in_set_conv_nth)
  qed blast
qed

lemma filter_drop:
  assumes "i \<le> length xs" "\<And>j. j < i \<Longrightarrow> \<not> P (xs ! j)" "\<And>j. i \<le> j \<Longrightarrow> j < length xs \<Longrightarrow> P (xs ! j)"
  shows "filter P xs = drop i xs"
proof -
  have "filter P (take i xs) = []" using assms by (auto simp: filter_empty_conv in_set_conv_nth)
  moreover have "filter P (drop i xs) = drop i xs" using assms by (auto simp: filter_id_conv in_set_conv_nth)
  ultimately show ?thesis by (metis append_take_drop_id filter_append append_Nil)
qed

lemma filter_take:
  assumes "i \<le> length xs" "\<And>j. j < i \<Longrightarrow> P (xs ! j)" "\<And>j. i \<le> j \<Longrightarrow> j < length xs \<Longrightarrow> \<not> P (xs ! j)"
  shows "filter P xs = take i xs"
proof -
  have "filter P (take i xs) = take i xs" using assms by (auto simp: filter_id_conv in_set_conv_nth)
  moreover have "filter P (drop i xs) = []" using assms by (auto simp: filter_empty_conv in_set_conv_nth)
  ultimately show ?thesis by (metis append_take_drop_id filter_append append_Nil2)
qed

lemma ranges_from:
  assumes "separated rs" "i < length rs" "contains (rs ! i) t"
  shows "filter (\<lambda>r. t \<le> rat_of_int (range_end r)) rs = drop i rs"
proof (rule filter_drop)
  show "\<not> t \<le> rat_of_int (range_end (rs ! j))" if "j < i" for j
    using separated_nth [OF assms(1) that assms(2)] assms(3) by (simp add: contains_def)
  show "t \<le> rat_of_int (range_end (rs ! j))" if "i \<le> j" "j < length rs" for j
    using separated_nth [OF assms(1), of i j] that assms(3) by (cases "i = j") (auto simp: contains_def)
qed (use assms in simp)

lemma ranges_upto:
  assumes "separated rs" "i < length rs" "contains (rs ! i) t"
  shows "filter (\<lambda>r. rat_of_int (range_start r) \<le> t) rs = take (Suc i) rs"
proof (rule filter_take)
  show "rat_of_int (range_start (rs ! j)) \<le> t" if "j < Suc i" for j
    using separated_nth [OF assms(1), of j i] that assms(2,3) by (cases "i = j") (auto simp: contains_def)
  show "\<not> rat_of_int (range_start (rs ! j)) \<le> t" if "Suc i \<le> j" "j < length rs" for j
    using separated_nth [OF assms(1), of i j] that assms(3) by (auto simp: contains_def)
qed (use assms in simp)

lemma separated_filter: "separated rs \<Longrightarrow> separated (filter P rs)"
  by (simp add: separated_def sorted_wrt_filter)

lemma ranges_between:
  assumes "separated rs" "a \<le> b" "i < length rs" "contains (rs ! i) a" "j < length rs" "contains (rs ! j) b"
  shows "filter (\<lambda>r. a \<le> rat_of_int (range_end r) \<and> rat_of_int (range_start r) \<le> b) rs = drop i (take (Suc j) rs)"
proof -
  have "i \<le> j" using separated_nth [OF assms(1), of j i] assms(2-6) by (cases "j < i") (auto simp: contains_def)
  then have k: "take (Suc j) rs ! i = rs ! i" "i < length (take (Suc j) rs)" using assms(3) by auto
  have "filter (\<lambda>r. a \<le> rat_of_int (range_end r) \<and> rat_of_int (range_start r) \<le> b) rs = filter (\<lambda>r. a \<le> rat_of_int (range_end r)) (take (Suc j) rs)"
    using ranges_upto [OF assms(1,5,6)] by (metis (no_types, lifting) filter_filter filter_cong)
  also have "\<dots> = drop i (take (Suc j) rs)"
    using ranges_from [of "take (Suc j) rs" i a] k assms(4) separated_filter [OF assms(1), of "\<lambda>r. rat_of_int (range_start r) \<le> b"]
    by (simp add: ranges_upto [OF assms(1,5,6)])
  finally show ?thesis .
qed

text \<open>C22: Over ranges in order that do not overlap, \<open>get_ranges\<close> returns exactly those that
  meet the interval asked for only when both of its ends fall inside ranges. When only one
  end does, every range on the other side is returned, and when neither does, none, whatever
  lies in between. The bounds are those of the same slice.\<close>

theorem get_ranges_spec:
  assumes "separated rs" "a \<le> b"
  shows "get_ranges rs a b =
      (let in_a = (\<exists>r\<in>set rs. contains r a); in_b = (\<exists>r\<in>set rs. contains r b)
       in if in_a \<and> in_b then filter (\<lambda>r. a \<le> rat_of_int (range_end r) \<and> rat_of_int (range_start r) \<le> b) rs
          else if in_b then filter (\<lambda>r. rat_of_int (range_start r) \<le> b) rs
          else if in_a then filter (\<lambda>r. a \<le> rat_of_int (range_end r)) rs else []) \<and>
    get_ranges rs a b = (case get_ranges_bounds rs a b of (lo, hi) \<Rightarrow> py_slice rs lo hi)"
proof -
  have hit: "(search_range rs t = - 1) = (\<not> (\<exists>r\<in>set rs. contains r t))"
    "search_range rs t \<noteq> - 1 \<Longrightarrow> \<exists>i < length rs. search_range rs t = int i \<and> contains (rs ! i) t" for t
    using search_range_result [OF assms(1), of t] by auto
  have slice: "py_slice rs (int i) (int j) = drop i (take j rs)" if "i < length rs" "j \<le> length rs" for i j
    using that by (simp add: py_slice_def slice_upto_def min_def)
  have bounds: "get_ranges rs a b = (case get_ranges_bounds rs a b of (lo, hi) \<Rightarrow> py_slice rs lo hi)"
    by (simp add: get_ranges_def get_ranges_bounds_def Let_def py_slice_def slice_upto_def)
  let ?A = "\<exists>r\<in>set rs. contains r a" and ?B = "\<exists>r\<in>set rs. contains r b"
  have "get_ranges rs a b =
      (if ?A \<and> ?B then filter (\<lambda>r. a \<le> rat_of_int (range_end r) \<and> rat_of_int (range_start r) \<le> b) rs
       else if ?B then filter (\<lambda>r. rat_of_int (range_start r) \<le> b) rs
       else if ?A then filter (\<lambda>r. a \<le> rat_of_int (range_end r)) rs else [])"
  proof (cases ?A; cases ?B)
    assume ?A ?B
    then obtain i j where "i < length rs" "search_range rs a = int i" "contains (rs ! i) a"
      "j < length rs" "search_range rs b = int j" "contains (rs ! j) b" using hit by metis
    then show ?thesis using \<open>?A\<close> \<open>?B\<close> ranges_between [OF assms, of i j] slice [of i "Suc j"] by (simp add: get_ranges_def add.commute)
  next
    assume ?A "\<not> ?B"
    moreover obtain i where i: "i < length rs" "search_range rs a = int i" "contains (rs ! i) a"
      using hit \<open>?A\<close> by metis
    ultimately show ?thesis
      using hit(1) [of b] ranges_from [OF assms(1) i(1,3)] slice [of i "length rs"] by (simp add: get_ranges_def)
  next
    assume "\<not> ?A" ?B
    moreover obtain j where j: "j < length rs" "search_range rs b = int j" "contains (rs ! j) b"
      using hit \<open>?B\<close> by metis
    ultimately show ?thesis
      using hit(1) [of a] ranges_upto [OF assms(1) j(1,3)] slice [of 0 "Suc j"] by (cases rs) (simp_all add: get_ranges_def add.commute)
  next
    assume "\<not> ?A" "\<not> ?B"
    then show ?thesis using hit(1) [of a] hit(1) [of b] by (simp add: get_ranges_def)
  qed
  then show ?thesis using bounds by (simp only: Let_def)
qed

theorem get_ranges_spec_witness:
  "get_ranges [\<lparr>range_start = 1, range_end = 3, range_value = ''a''\<rparr>,
     \<lparr>range_start = 5, range_end = 6, range_value = ''b''\<rparr>] 0 7 = [] \<and>
   get_ranges [\<lparr>range_start = 1, range_end = 3, range_value = ''a''\<rparr>,
     \<lparr>range_start = 5, range_end = 6, range_value = ''b''\<rparr>] 2 5 =
     [\<lparr>range_start = 1, range_end = 3, range_value = ''a''\<rparr>, \<lparr>range_start = 5, range_end = 6, range_value = ''b''\<rparr>]"
  using get_ranges_spec [of "[\<lparr>range_start = 1, range_end = 3, range_value = ''a''\<rparr>,
     \<lparr>range_start = 5, range_end = 6, range_value = ''b''\<rparr>]" 0 7]
    get_ranges_spec [of "[\<lparr>range_start = 1, range_end = 3, range_value = ''a''\<rparr>,
     \<lparr>range_start = 5, range_end = 6, range_value = ''b''\<rparr>]" 2 5]
  by (simp add: separated_def contains_def)

lemma search_event_result:
  assumes "sorted_wrt (<) (map event_at events)"
  shows "\<exists>i \<le> length events. search_event events t = int i \<and>
    (\<forall>j < i. rat_of_int (event_at (events ! j)) < t) \<and> (\<forall>j < length events. i \<le> j \<longrightarrow> t \<le> rat_of_int (event_at (events ! j)))"
proof -
  have less: "event_at (events ! i) < event_at (events ! j)" if "i < j" "j < length events" for i j
    using assms that by (auto simp: sorted_wrt_iff_nth_less)
  have "(\<exists>i < length events. search_event events t = int i \<and> t = rat_of_int (event_at (events ! i))) \<or>
    (\<exists>i \<le> length events. search_event events t = int i \<and>
       (\<forall>j < i. t \<noteq> rat_of_int (event_at (events ! j)) \<and> \<not> t < rat_of_int (event_at (events ! j))) \<and>
       (\<forall>j < length events. i \<le> j \<longrightarrow> t < rat_of_int (event_at (events ! j)) \<and> t \<noteq> rat_of_int (event_at (events ! j))))"
    unfolding search_event_def
  proof (rule es.loop_result)
    show "t < rat_of_int (event_at (events ! j))" if "i \<le> j" "j < length events" "t < rat_of_int (event_at (events ! i))" for i j
      using less [of i j] that by (cases "i = j") auto
    show "t \<noteq> rat_of_int (event_at (events ! i)) \<and> \<not> t < rat_of_int (event_at (events ! i))"
      if "i \<le> j" "j < length events" "t \<noteq> rat_of_int (event_at (events ! j))" "\<not> t < rat_of_int (event_at (events ! j))" for i j
      using less [of i j] that by (cases "i = j") auto
  qed auto
  then show ?thesis
  proof
    assume "\<exists>i < length events. search_event events t = int i \<and> t = rat_of_int (event_at (events ! i))"
    then obtain i where "i < length events" "search_event events t = int i" "t = rat_of_int (event_at (events ! i))" by blast
    moreover have "event_at (events ! i) \<le> event_at (events ! j)" if "i \<le> j" "j < length events" for j
      using less [of i j] that by (cases "i = j") auto
    ultimately show ?thesis using less by (intro exI [of _ i]) auto
  qed (use not_le in fastforce)
qed

text \<open>Over events in strictly increasing order of time, \<open>get_events\<close> returns those of the
  interval before its end, and then one more: the first event at or after the end, which may
  lie outside the interval. The bounds are those of the same slice.\<close>

theorem get_events_spec:
  assumes "sorted_wrt (<) (map event_at events)" "a \<le> b"
  shows "get_events events a b =
      filter (\<lambda>e. a \<le> rat_of_int (event_at e) \<and> rat_of_int (event_at e) < b) events @ take 1 (filter (\<lambda>e. b \<le> rat_of_int (event_at e)) events) \<and>
    get_events events a b = (case get_events_bounds events a b of (lo, hi) \<Rightarrow> py_slice events lo hi)"
proof -
  obtain i where i: "i \<le> length events" "search_event events a = int i"
      "\<forall>j < i. rat_of_int (event_at (events ! j)) < a" "\<forall>j < length events. i \<le> j \<longrightarrow> a \<le> rat_of_int (event_at (events ! j))"
    using search_event_result [OF assms(1)] by blast
  obtain k where k: "k \<le> length events" "search_event events b = int k"
      "\<forall>j < k. rat_of_int (event_at (events ! j)) < b" "\<forall>j < length events. k \<le> j \<longrightarrow> b \<le> rat_of_int (event_at (events ! j))"
    using search_event_result [OF assms(1)] by blast
  have "i \<le> k"
  proof (rule ccontr)
    assume "\<not> i \<le> k"
    then have "rat_of_int (event_at (events ! k)) < a" "b \<le> rat_of_int (event_at (events ! k))" using i k by auto
    with assms(2) show False by simp
  qed
  have below: "filter (\<lambda>e. rat_of_int (event_at e) < b) events = take k events" using k by (intro filter_take) auto
  have above: "filter (\<lambda>e. b \<le> rat_of_int (event_at e)) events = drop k events" using k by (intro filter_drop) (auto simp: not_le)
  have inside: "filter (\<lambda>e. a \<le> rat_of_int (event_at e)) (take k events) = drop i (take k events)"
    using i \<open>i \<le> k\<close> by (intro filter_drop) (auto simp: not_le)
  have "py_slice events (int i) (int k + 1) = drop i (take (Suc k) events)"
    using i(1) k(1) by (simp add: py_slice_def slice_upto_def nat_add_distrib min_def not_le)
  also have "\<dots> = drop i (take k events) @ take 1 (drop k events)"
    using \<open>i \<le> k\<close> k(1) by (simp add: take_Suc_conv_app_nth take_add [of k 1 events, simplified])
  finally have "get_events events a b = drop i (take k events) @ take 1 (drop k events)"
    by (simp add: get_events_def i(2) k(2) add.commute)
  moreover have "drop i (take k events) = filter (\<lambda>e. a \<le> rat_of_int (event_at e) \<and> rat_of_int (event_at e) < b) events"
    using inside unfolding below [symmetric] filter_filter by (simp add: conj_commute)
  ultimately show ?thesis by (simp add: above get_events_def get_events_bounds_def)
qed

theorem get_events_spec_witness:
  "get_events [\<lparr>event_at = 1, event_value = IntValue 0\<rparr>, \<lparr>event_at = 9, event_value = IntValue 1\<rparr>] 0 4 =
     [\<lparr>event_at = 1, event_value = IntValue 0\<rparr>, \<lparr>event_at = 9, event_value = IntValue 1\<rparr>]"
  using get_events_spec [of "[\<lparr>event_at = 1, event_value = IntValue 0\<rparr>, \<lparr>event_at = 9, event_value = IntValue 1\<rparr>]" 0 4]
  by simp

section \<open>Bounds\<close>

definition sort_ranges :: "data_range list \<Rightarrow> data_range list" where
  "sort_ranges ranges = sort_key range_start ranges"

definition sort_events :: "event list \<Rightarrow> event list" where
  "sort_events events = sort_key event_at events"

definition range_bounds :: "data_range list \<Rightarrow> int \<times> int" where
  "range_bounds ranges =
     (if 0 < length ranges then (range_start (ranges ! 0), range_end (ranges ! (length ranges - 1))) else (0, 0))"

definition event_bounds :: "event list \<Rightarrow> int \<times> int" where
  "event_bounds events =
     (if 0 < length events then (event_at (events ! 0), event_at (last events)) else (0, 0))"

definition widen :: "int \<times> int \<Rightarrow> int \<times> int \<Rightarrow> int \<times> int" where
  "widen b acc =
     (case b of (lo', hi') \<Rightarrow> case acc of (lo, hi) \<Rightarrow> (if lo' < lo then lo' else lo, if hi' > hi then hi' else hi))"

definition timeline_bounds :: "timeline \<Rightarrow> int \<times> int" where
  "timeline_bounds t =
     fold (\<lambda>e. widen (event_bounds (te_events e))) (tl_event_int t)
       (fold (\<lambda>e. widen (event_bounds (te_events e))) (tl_event_str t)
         (fold (\<lambda>r. widen (range_bounds (dr_ranges r))) (tl_ranges t) (0, 0)))"

definition get_bounds :: "timeline list \<Rightarrow> int \<times> int" where
  "get_bounds timelines = fold (\<lambda>t. widen (timeline_bounds t)) timelines (0, 0)"

definition sort_timeline :: "timeline \<Rightarrow> timeline" where
  "sort_timeline t =
     t\<lparr>tl_ranges := map (\<lambda>r. r\<lparr>dr_ranges := sort_ranges (dr_ranges r)\<rparr>) (tl_ranges t),
       tl_event_int := map (\<lambda>e. e\<lparr>te_events := sort_events (te_events e)\<rparr>) (tl_event_int t),
       tl_event_str := map (\<lambda>e. e\<lparr>te_events := sort_events (te_events e)\<rparr>) (tl_event_str t)\<rparr>"

text \<open>The values of all ranges, in the order of the keys of a dict.\<close>

definition get_all_range_values :: "(string list \<Rightarrow> string list) \<Rightarrow> timeline list \<Rightarrow> string list" where
  "get_all_range_values ho timelines =
     ho (dict_keys (foldl (\<lambda>d r. dict_set d (range_value r) (1 :: int)) []
       (concat (map dr_ranges (concat (map tl_ranges timelines))))))"
section \<open>Named objects\<close>

fun update_named :: "('a \<Rightarrow> string) \<Rightarrow> (string \<Rightarrow> 'a) \<Rightarrow> string \<Rightarrow> ('a \<Rightarrow> 'a) \<Rightarrow> 'a list \<Rightarrow> 'a list" where
  "update_named nm mk key f [] = [f (mk key)]"
| "update_named nm mk key f (x # xs) = (if nm x = key then f x # xs else x # update_named nm mk key f xs)"

definition new_range :: "string \<Rightarrow> timeline_data_range" where
  "new_range nm = \<lparr>dr_name = nm, dr_ranges = []\<rparr>"

definition new_event :: "string \<Rightarrow> timeline_event" where
  "new_event nm = \<lparr>te_name = nm, te_events = []\<rparr>"

definition new_timeline :: "string \<Rightarrow> timeline" where
  "new_timeline nm = \<lparr>tl_name = nm, tl_ranges = [], tl_event_str = [], tl_event_int = []\<rparr>"

definition add_range :: "data_range \<Rightarrow> timeline_data_range \<Rightarrow> timeline_data_range" where
  "add_range r d = d\<lparr>dr_ranges := dr_ranges d @ [r]\<rparr>"

definition add_event :: "event \<Rightarrow> timeline_event \<Rightarrow> timeline_event" where
  "add_event e d = d\<lparr>te_events := te_events d @ [e]\<rparr>"

text \<open>\<open>timelines.get(t)\<close>, and on it \<open>get_range(n)\<close>, \<open>get_event_str(n)\<close> or
  \<open>get_event_int(n)\<close>, with what is added to the object.\<close>

definition on_timeline :: "string \<Rightarrow> (timeline \<Rightarrow> timeline) \<Rightarrow> timeline list \<Rightarrow> timeline list" where
  "on_timeline t f = update_named tl_name new_timeline t f"

definition on_range :: "string \<Rightarrow> (timeline_data_range \<Rightarrow> timeline_data_range) \<Rightarrow> timeline \<Rightarrow> timeline" where
  "on_range n f t = t\<lparr>tl_ranges := update_named dr_name new_range n f (tl_ranges t)\<rparr>"

definition on_event_str :: "string \<Rightarrow> (timeline_event \<Rightarrow> timeline_event) \<Rightarrow> timeline \<Rightarrow> timeline" where
  "on_event_str n f t = t\<lparr>tl_event_str := update_named te_name new_event n f (tl_event_str t)\<rparr>"

definition on_event_int :: "string \<Rightarrow> (timeline_event \<Rightarrow> timeline_event) \<Rightarrow> timeline \<Rightarrow> timeline" where
  "on_event_int n f t = t\<lparr>tl_event_int := update_named te_name new_event n f (tl_event_int t)\<rparr>"

definition named :: "('a \<Rightarrow> string) \<Rightarrow> (string \<Rightarrow> 'a) \<Rightarrow> string \<Rightarrow> 'a list \<Rightarrow> 'a" where
  "named nm mk key xs = (case find (\<lambda>x. nm x = key) xs of None \<Rightarrow> mk key | Some x \<Rightarrow> x)"

text \<open>The contract of a collection of named objects: an object made for a name has it, and a
  change keeps it. Then a later look at a name sees exactly the changes made under it.\<close>

locale named_objects =
  fixes nm :: "'a \<Rightarrow> string" and mk :: "string \<Rightarrow> 'a"
  assumes name_made: "nm (mk key) = key"
begin

lemma named_update:
  assumes "\<And>x. nm (f x) = nm x"
  shows "named nm mk k' (update_named nm mk k f xs) = (if k' = k then f (named nm mk k xs) else named nm mk k' xs)"
  by (induction xs) (auto simp: named_def name_made assms split: option.splits)

lemma names_distinct:
  assumes "\<And>x. nm (f x) = nm x"
  shows "distinct (map nm xs) \<Longrightarrow> distinct (map nm (update_named nm mk k f xs))"
proof -
  have "set (map nm (update_named nm mk k f xs)) = insert k (nm ` set xs)" for xs
    by (induction xs) (auto simp: name_made assms)
  then show "distinct (map nm xs) \<Longrightarrow> distinct (map nm (update_named nm mk k f xs))"
    by (induction xs) (auto simp: assms)
qed

lemma named_map:
  "(\<And>x. nm (f x) = nm x) \<Longrightarrow> f (mk k) = mk k \<Longrightarrow> named nm mk k (map f xs) = f (named nm mk k xs)"
  by (induction xs) (auto simp: named_def split: option.splits)

lemma named_Nil: "named nm mk k [] = mk k"
  by (simp add: named_def)

end

interpretation tls: named_objects tl_name new_timeline
  by unfold_locales (simp add: new_timeline_def)

interpretation drs: named_objects dr_name new_range
  by unfold_locales (simp add: new_range_def)

interpretation tes: named_objects te_name new_event
  by unfold_locales (simp add: new_event_def)

section \<open>Colours\<close>

record color =
  red :: int
  green :: int
  blue :: int

record colors =
  color_table :: "(string, color) dict"
  default_colors :: "color list"

definition new_colors :: colors where
  "new_colors =
     \<lparr>color_table = [],
      default_colors = map (\<lambda>(r, g, b). \<lparr>red = r, green = g, blue = b\<rparr>)
        [(1, 0, 0), (0, 1, 0), (0, 0, 1), (1, 1, 0), (1, 0, 1), (0, 1, 1)]\<rparr>"

definition add_color :: "string \<Rightarrow> color \<Rightarrow> colors \<Rightarrow> colors" where
  "add_color nm c cs = cs\<lparr>color_table := dict_set (color_table cs) nm c\<rparr>"

text \<open>The default colours are taken from the end of one list; \<open>pop\<close> of the empty list
  raises.\<close>

definition lookup_color :: "string \<Rightarrow> colors \<Rightarrow> py_exn + (color \<times> colors)" where
  "lookup_color nm cs =
     (case dict_get (color_table cs) nm of
        Some c \<Rightarrow> Inr (c, cs)
      | None \<Rightarrow>
          (if default_colors cs = [] then Inl IndexError
           else let c = last (default_colors cs)
                in Inr (c, add_color nm c (cs\<lparr>default_colors := butlast (default_colors cs)\<rparr>))))"

definition range_colors :: "string list \<Rightarrow> colors \<Rightarrow> py_exn + (color list \<times> colors)" where
  "range_colors values cs =
     py_fold (\<lambda>v (out, cs). py_bind (lookup_color v cs) (\<lambda>(c, cs). Inr (out @ [c], cs))) values ([], cs)"

section \<open>Reading the file\<close>

datatype entry =
    RangeEntry string string data_range
  | EventStrEntry string string event
  | EventIntEntry string string event
  | ColorEntry string color

text \<open>\<open>([^ ]+) \<close>: the longest run of characters other than a space, then a space.\<close>

definition match_word :: "string \<Rightarrow> (string \<times> string) option" where
  "match_word s =
     (let w = takeWhile (\<lambda>c. c \<noteq> CHR '' '') s
      in if w \<noteq> [] \<and> length w < length s then Some (w, drop (Suc (length w)) s) else None)"

definition match_space :: "string \<Rightarrow> string option" where
  "match_space s = (case s of CHR '' '' # r \<Rightarrow> Some r | _ \<Rightarrow> None)"

definition hex_value :: "char \<Rightarrow> int" where
  "hex_value c = (if is_digit c then digit_value c else int (of_char (char_lower c)) - 87)"

definition is_hex :: "char \<Rightarrow> bool" where
  "is_hex c = (c \<in> set ''0123456789abcdefABCDEF'')"
definition match_hex_pair :: "string \<Rightarrow> (int \<times> string) option" where
  "match_hex_pair s =
     (case s of a # b # r \<Rightarrow> if is_hex a \<and> is_hex b then Some (16 * hex_value a + hex_value b, r) else None
      | _ \<Rightarrow> None)"

definition match_range :: "string \<Rightarrow> entry option" where
  "match_range line =
     (if starts_with line ''range ''
      then Option.bind (match_word (drop 6 line)) (\<lambda>(t, s).
           Option.bind (match_word s) (\<lambda>(n, s).
           Option.bind (match_word s) (\<lambda>(v, s).
           Option.bind (match_number s) (\<lambda>(a, s).
           Option.bind (match_space s) (\<lambda>s.
           Option.bind (match_number s) (\<lambda>(b, s).
             Some (RangeEntry t n \<lparr>range_start = a, range_end = b, range_value = v\<rparr>)))))))
      else None)"

definition match_event_str :: "string \<Rightarrow> entry option" where
  "match_event_str line =
     (if starts_with line ''event-str ''
      then Option.bind (match_word (drop 10 line)) (\<lambda>(t, s).
           Option.bind (match_word s) (\<lambda>(n, s).
           Option.bind (match_word s) (\<lambda>(v, s).
           Option.bind (match_number s) (\<lambda>(a, s).
             Some (EventStrEntry t n \<lparr>event_at = a, event_value = StrValue v\<rparr>)))))
      else None)"

definition match_event_int :: "string \<Rightarrow> entry option" where
  "match_event_int line =
     (if starts_with line ''event-int ''
      then Option.bind (match_word (drop 10 line)) (\<lambda>(t, s).
           Option.bind (match_word s) (\<lambda>(n, s).
           Option.bind (match_number s) (\<lambda>(v, s).
           Option.bind (match_space s) (\<lambda>s.
           Option.bind (match_number s) (\<lambda>(a, s).
             Some (EventIntEntry t n \<lparr>event_at = a, event_value = IntValue v\<rparr>))))))
      else None)"

text \<open>The components are divided as integers.\<close>

definition match_color :: "string \<Rightarrow> entry option" where
  "match_color line =
     (if starts_with line ''color ''
      then Option.bind (match_word (drop 6 line)) (\<lambda>(n, s).
           Option.bind (case s of CHR ''#'' # r \<Rightarrow> Some r | _ \<Rightarrow> None) (\<lambda>s.
           Option.bind (match_hex_pair s) (\<lambda>(r, s).
           Option.bind (match_hex_pair s) (\<lambda>(g, s).
           Option.bind (match_hex_pair s) (\<lambda>(b, s).
             Some (ColorEntry n \<lparr>red = r div 255, green = g div 255, blue = b div 255\<rparr>))))))
      else None)"

definition read_line :: "string \<Rightarrow> entry option" where
  "read_line line =
     (case match_range line of Some e \<Rightarrow> Some e
      | None \<Rightarrow> (case match_event_str line of Some e \<Rightarrow> Some e
      | None \<Rightarrow> (case match_event_int line of Some e \<Rightarrow> Some e
      | None \<Rightarrow> match_color line)))"

definition store_entry :: "entry \<Rightarrow> colors \<times> timeline list \<Rightarrow> colors \<times> timeline list" where
  "store_entry e acc =
     (case acc of (cs, ts) \<Rightarrow>
       case e of
         RangeEntry t n r \<Rightarrow> (cs, on_timeline t (on_range n (add_range r)) ts)
       | EventStrEntry t n v \<Rightarrow> (cs, on_timeline t (on_event_str n (add_event v)) ts)
       | EventIntEntry t n v \<Rightarrow> (cs, on_timeline t (on_event_int n (add_event v)) ts)
       | ColorEntry n c \<Rightarrow> (add_color n c cs, ts))"

definition entries_of :: "string list \<Rightarrow> entry list" where
  "entries_of lines = List.map_filter read_line lines"

definition read_data :: "string list \<Rightarrow> colors \<times> timeline list" where
  "read_data lines =
     (case fold store_entry (entries_of lines) (new_colors, []) of (cs, ts) \<Rightarrow> (cs, map sort_timeline ts))"

subsection \<open>Lines\<close>

definition is_word :: "string \<Rightarrow> bool" where
  "is_word w \<longleftrightarrow> w \<noteq> [] \<and> CHR '' '' \<notin> set w"

lemma match_word_append [simp]: "is_word w \<Longrightarrow> match_word (w @ CHR '' '' # s) = Some (w, s)"
proof -
  assume "is_word w"
  then have "takeWhile (\<lambda>c. c \<noteq> CHR '' '') (w @ CHR '' '' # s) = w" "w \<noteq> []"
    by (auto simp: is_word_def takeWhile_append2 takeWhile_append)
  then show ?thesis by (simp add: match_word_def)
qed

lemma no_digit_space [simp]: "no_digit_first (CHR '' '' # s)"
  by (simp add: no_digit_first_def is_digit_def)

lemma match_space_Cons [simp]: "match_space (CHR '' '' # s) = Some s"
  by (simp add: match_space_def)

lemma hex_pair:
  assumes "is_hex x" "is_hex y"
  shows "match_hex_pair (x # y # s) = Some (16 * hex_value x + hex_value y, s)"
    "(16 * hex_value x + hex_value y) div 255 = of_bool (map char_lower [x, y] = ''ff'')"
proof -
  have "list_all (\<lambda>x. 0 \<le> hex_value x \<and> hex_value x \<le> 15 \<and> (hex_value x = 15 \<longleftrightarrow> char_lower x = CHR ''f''))
    ''0123456789abcdefABCDEF''" by code_simp
  then have one: "0 \<le> hex_value x \<and> hex_value x \<le> 15 \<and> (hex_value x = 15 \<longleftrightarrow> char_lower x = CHR ''f'')"
    if "is_hex x" for x
    using that unfolding is_hex_def list_all_iff by blast
  have "(16 * hex_value x + hex_value y) div 255 = of_bool (hex_value x = 15 \<and> hex_value y = 15)"
    using one [OF assms(1)] one [OF assms(2)] by (cases "hex_value x = 15 \<and> hex_value y = 15") auto
  then show "(16 * hex_value x + hex_value y) div 255 = of_bool (map char_lower [x, y] = ''ff'')"
    using assms one by simp
  show "match_hex_pair (x # y # s) = Some (16 * hex_value x + hex_value y, s)"
    using assms by (simp add: match_hex_pair_def)
qed

lemma read_range:
  assumes "is_word t" "is_word n" "is_word v" "no_digit_first rest"
  shows "read_line (''range '' @ t @ '' '' @ n @ '' '' @ v @ '' '' @ dec_digits a @ '' '' @ dec_digits b @ rest) =
    Some (RangeEntry t n \<lparr>range_start = int a, range_end = int b, range_value = v\<rparr>)"
  using assms by (simp add: read_line_def match_range_def starts_with_def)

lemma read_event_str:
  assumes "is_word t" "is_word n" "is_word v" "no_digit_first rest"
  shows "read_line (''event-str '' @ t @ '' '' @ n @ '' '' @ v @ '' '' @ dec_digits a @ rest) =
    Some (EventStrEntry t n \<lparr>event_at = int a, event_value = StrValue v\<rparr>)"
  using assms by (simp add: read_line_def match_range_def match_event_str_def starts_with_def)

lemma read_event_int:
  assumes "is_word t" "is_word n" "no_digit_first rest"
  shows "read_line (''event-int '' @ t @ '' '' @ n @ '' '' @ dec_digits b @ '' '' @ dec_digits a @ rest) =
    Some (EventIntEntry t n \<lparr>event_at = int a, event_value = IntValue (int b)\<rparr>)"
  using assms by (simp add: read_line_def match_range_def match_event_str_def match_event_int_def starts_with_def)

lemma read_color:
  assumes "is_word n" "list_all is_hex [r1, r2, g1, g2, b1, b2]"
  shows "read_line (''color '' @ n @ '' #'' @ [r1, r2, g1, g2, b1, b2] @ rest) =
    Some (ColorEntry n \<lparr>red = of_bool (map char_lower [r1, r2] = ''ff''),
        green = of_bool (map char_lower [g1, g2] = ''ff''), blue = of_bool (map char_lower [b1, b2] = ''ff'')\<rparr>)"
proof -
  have h: "is_hex r1" "is_hex r2" "is_hex g1" "is_hex g2" "is_hex b1" "is_hex b2" using assms(2) by simp_all
  have "read_line (''color '' @ n @ '' #'' @ [r1, r2, g1, g2, b1, b2] @ rest) =
    Some (ColorEntry n \<lparr>red = (16 * hex_value r1 + hex_value r2) div 255,
        green = (16 * hex_value g1 + hex_value g2) div 255, blue = (16 * hex_value b1 + hex_value b2) div 255\<rparr>)"
    using assms(1) h
    by (simp add: read_line_def match_range_def match_event_str_def match_event_int_def match_color_def
        starts_with_def hex_pair(1))
  then show ?thesis by (simp only: hex_pair(2) h)
qed

text \<open>C24: The lines that the format describes are read back: a range or an event printed with
  its names, value and decimal times is parsed to itself whatever follows the last number,
  and a colour loses everything but which of its components are \<open>ff\<close>.\<close>

theorem read_line_roundtrip:
  assumes "is_word t" "is_word n" "is_word v" "no_digit_first rest" "list_all is_hex [r1, r2, g1, g2, b1, b2]"
  shows "read_line (''range '' @ t @ '' '' @ n @ '' '' @ v @ '' '' @ dec_digits a @ '' '' @ dec_digits b @ rest) =
      Some (RangeEntry t n \<lparr>range_start = int a, range_end = int b, range_value = v\<rparr>) \<and>
    read_line (''event-str '' @ t @ '' '' @ n @ '' '' @ v @ '' '' @ dec_digits a @ rest) =
      Some (EventStrEntry t n \<lparr>event_at = int a, event_value = StrValue v\<rparr>) \<and>
    read_line (''event-int '' @ t @ '' '' @ n @ '' '' @ dec_digits b @ '' '' @ dec_digits a @ rest) =
      Some (EventIntEntry t n \<lparr>event_at = int a, event_value = IntValue (int b)\<rparr>) \<and>
    read_line (''color '' @ n @ '' #'' @ [r1, r2, g1, g2, b1, b2] @ rest) =
      Some (ColorEntry n \<lparr>red = of_bool (map char_lower [r1, r2] = ''ff''),
        green = of_bool (map char_lower [g1, g2] = ''ff''), blue = of_bool (map char_lower [b1, b2] = ''ff'')\<rparr>)"
  using read_range [OF assms(1-4)] read_event_str [OF assms(1-4)] read_event_int [OF assms(1,2,4)]
    read_color [OF assms(2,5)] by blast

theorem read_line_roundtrip_witness:
  "read_line (''range node tx busy 10 20'' @ [CHR 0x0A]) =
     Some (RangeEntry ''node'' ''tx'' \<lparr>range_start = 10, range_end = 20, range_value = ''busy''\<rparr>)"
proof -
  have "dec_digits 10 = ''10''" "dec_digits 20 = ''20''" by (simp_all add: dec_digits.simps)
  then show ?thesis
    using read_line_roundtrip [of "''node''" "''tx''" "''busy''" "[CHR 0x0A]" "CHR ''0''" "CHR ''0''" "CHR ''0''"
        "CHR ''0''" "CHR ''0''" "CHR ''0''" 10 20]
    by (simp add: is_word_def no_digit_first_def is_digit_def is_hex_def)
qed
subsection \<open>What the file leaves\<close>

definition ranges_of :: "timeline list \<Rightarrow> string \<Rightarrow> string \<Rightarrow> data_range list" where
  "ranges_of ts t n = dr_ranges (named dr_name new_range n (tl_ranges (named tl_name new_timeline t ts)))"

definition event_strs_of :: "timeline list \<Rightarrow> string \<Rightarrow> string \<Rightarrow> event list" where
  "event_strs_of ts t n = te_events (named te_name new_event n (tl_event_str (named tl_name new_timeline t ts)))"

definition event_ints_of :: "timeline list \<Rightarrow> string \<Rightarrow> string \<Rightarrow> event list" where
  "event_ints_of ts t n = te_events (named te_name new_event n (tl_event_int (named tl_name new_timeline t ts)))"

definition range_entry :: "string \<Rightarrow> string \<Rightarrow> entry \<Rightarrow> data_range option" where
  "range_entry t n e = (case e of RangeEntry t' n' r \<Rightarrow> if t' = t \<and> n' = n then Some r else None | _ \<Rightarrow> None)"

definition event_str_entry :: "string \<Rightarrow> string \<Rightarrow> entry \<Rightarrow> event option" where
  "event_str_entry t n e = (case e of EventStrEntry t' n' v \<Rightarrow> if t' = t \<and> n' = n then Some v else None | _ \<Rightarrow> None)"

definition event_int_entry :: "string \<Rightarrow> string \<Rightarrow> entry \<Rightarrow> event option" where
  "event_int_entry t n e = (case e of EventIntEntry t' n' v \<Rightarrow> if t' = t \<and> n' = n then Some v else None | _ \<Rightarrow> None)"

definition color_entry :: "entry \<Rightarrow> (string \<times> color) option" where
  "color_entry e = (case e of ColorEntry n c \<Rightarrow> Some (n, c) | _ \<Rightarrow> None)"

lemmas of_defs = ranges_of_def event_strs_of_def event_ints_of_def
lemmas on_defs = on_timeline_def on_range_def on_event_str_def on_event_int_def add_range_def add_event_def
lemmas entry_defs = range_entry_def event_str_entry_def event_int_entry_def color_entry_def

lemma store_ranges:
  "ranges_of (snd (store_entry e (cs, ts))) t n = ranges_of ts t n @ (case range_entry t n e of None \<Rightarrow> [] | Some r \<Rightarrow> [r])"
  by (cases e) (auto simp: store_entry_def of_defs on_defs entry_defs tls.named_update drs.named_update)

lemma store_event_strs:
  "event_strs_of (snd (store_entry e (cs, ts))) t n =
     event_strs_of ts t n @ (case event_str_entry t n e of None \<Rightarrow> [] | Some v \<Rightarrow> [v])"
  by (cases e) (auto simp: store_entry_def of_defs on_defs entry_defs tls.named_update tes.named_update)

lemma store_event_ints:
  "event_ints_of (snd (store_entry e (cs, ts))) t n =
     event_ints_of ts t n @ (case event_int_entry t n e of None \<Rightarrow> [] | Some v \<Rightarrow> [v])"
  by (cases e) (auto simp: store_entry_def of_defs on_defs entry_defs tls.named_update tes.named_update)

lemma store_color:
  "dict_get (color_table (fst (store_entry e (cs, ts)))) =
     (case color_entry e of None \<Rightarrow> dict_get (color_table cs) | Some (n, c) \<Rightarrow> (dict_get (color_table cs))(n \<mapsto> c))"
  by (cases e) (auto simp: store_entry_def add_color_def entry_defs)

lemma stored:
  assumes "fold store_entry es (cs, ts) = (cs', ts')"
  shows "ranges_of ts' t n = ranges_of ts t n @ List.map_filter (range_entry t n) es \<and>
    event_strs_of ts' t n = event_strs_of ts t n @ List.map_filter (event_str_entry t n) es \<and>
    event_ints_of ts' t n = event_ints_of ts t n @ List.map_filter (event_int_entry t n) es \<and>
    dict_get (color_table cs') = dict_get (color_table cs) ++ map_of (rev (List.map_filter color_entry es))"
  using assms
proof (induction es arbitrary: cs ts)
  case Nil
  then show ?case by (simp add: map_filter_simps)
next
  case (Cons e es)
  obtain cs1 ts1 where s: "store_entry e (cs, ts) = (cs1, ts1)" by (cases "store_entry e (cs, ts)")
  then show ?case
    using Cons.IH [of cs1 ts1] Cons.prems store_ranges [of e cs ts t n] store_event_strs [of e cs ts t n]
      store_event_ints [of e cs ts t n] store_color [of e cs ts]
    by (auto simp: map_filter_simps map_add_assoc [symmetric] split: option.splits)
qed

lemma sorted_objects:
  "ranges_of (map sort_timeline ts) t n = sort_ranges (ranges_of ts t n)"
  "event_strs_of (map sort_timeline ts) t n = sort_events (event_strs_of ts t n)"
  "event_ints_of (map sort_timeline ts) t n = sort_events (event_ints_of ts t n)"
  by (simp_all add: of_defs tls.named_map drs.named_map tes.named_map sort_timeline_def new_timeline_def
      new_range_def new_event_def sort_ranges_def sort_events_def)

text \<open>C25: After \<open>read_data\<close>, what is found under a timeline and a name is exactly what the lines
  of the file put there, in the order of time and, for equal times, of the file; a name is
  shared by the ranges, the string events and the integer events without mixing them. A colour
  is the one of the last line that sets it.\<close>

theorem read_data_groups:
  "ranges_of (snd (read_data lines)) t n =
      sort_key range_start (List.map_filter (range_entry t n) (entries_of lines)) \<and>
   event_strs_of (snd (read_data lines)) t n =
      sort_key event_at (List.map_filter (event_str_entry t n) (entries_of lines)) \<and>
   event_ints_of (snd (read_data lines)) t n =
      sort_key event_at (List.map_filter (event_int_entry t n) (entries_of lines)) \<and>
   dict_get (color_table (fst (read_data lines))) = map_of (rev (List.map_filter color_entry (entries_of lines)))"
proof -
  obtain cs ts where r: "fold store_entry (entries_of lines) (new_colors, []) = (cs, ts)" by fastforce
  then have "read_data lines = (cs, map sort_timeline ts)" by (simp add: read_data_def)
  moreover have "ranges_of [] t n = []" "event_strs_of [] t n = []" "event_ints_of [] t n = []"
    by (simp_all add: of_defs named_def new_timeline_def new_range_def new_event_def)
  moreover have "color_table new_colors = []" by (simp add: new_colors_def)
  ultimately show ?thesis using stored [OF r, of t n] by (simp add: sorted_objects sort_ranges_def sort_events_def)
qed

text \<open>When the ranges read for a name do not overlap, the list is in the form the searches
  rely on.\<close>

lemma sorted_separated:
  assumes "\<forall>r\<in>set rs. range_start r \<le> range_end r" "distinct rs"
    "\<forall>r\<in>set rs. \<forall>q\<in>set rs. r \<noteq> q \<longrightarrow> range_end r < range_start q \<or> range_end q < range_start r"
  shows "separated (sort_ranges rs)"
proof -
  let ?s = "sort_ranges rs"
  have set: "set ?s = set rs" and dist: "distinct ?s" using assms(2) by (simp_all add: sort_ranges_def)
  have "range_end (?s ! i) < range_start (?s ! j)" if "i < j" "j < length ?s" for i j
  proof -
    have "?s ! i \<noteq> ?s ! j" using dist that by (simp add: nth_eq_iff_index_eq)
    moreover have "range_start (?s ! i) \<le> range_start (?s ! j)"
      using sorted_sort_key [of range_start rs] that by (auto simp: sort_ranges_def sorted_iff_nth_mono_less)
    moreover have in_rs: "?s ! i \<in> set rs" "?s ! j \<in> set rs" unfolding set [symmetric] using that by simp_all
    ultimately have "range_end (?s ! i) < range_start (?s ! j) \<or> range_end (?s ! j) < range_start (?s ! i)"
      using assms(3) by blast
    moreover have "range_start (?s ! j) \<le> range_end (?s ! j)" using assms(1) in_rs by blast
    ultimately show ?thesis using \<open>range_start (?s ! i) \<le> range_start (?s ! j)\<close> by linarith
  qed
  then show ?thesis using assms(1) by (auto simp: separated_def sorted_wrt_iff_nth_less set)
qed
subsection \<open>The bounds cover the data\<close>

lemma widen_min_max: "widen b acc = (min (fst b) (fst acc), max (snd b) (snd acc))"
  by (simp add: widen_def split: prod.splits)

lemma fold_widen:
  fixes f :: "'a \<Rightarrow> int \<times> int"
  shows "fst (fold (\<lambda>x. widen (f x)) xs acc) \<le> fst acc \<and> snd acc \<le> snd (fold (\<lambda>x. widen (f x)) xs acc) \<and>
    (\<forall>x\<in>set xs. fst (fold (\<lambda>x. widen (f x)) xs acc) \<le> fst (f x) \<and> snd (f x) \<le> snd (fold (\<lambda>x. widen (f x)) xs acc)) \<and>
    fst (fold (\<lambda>x. widen (f x)) xs acc) \<in> insert (fst acc) (fst ` f ` set xs) \<and>
    snd (fold (\<lambda>x. widen (f x)) xs acc) \<in> insert (snd acc) (snd ` f ` set xs)"
proof (induction xs arbitrary: acc)
  case (Cons x xs)
  show ?case using Cons.IH [of "widen (f x) acc"]
    by (auto simp: widen_min_max min_def max_def split: if_splits)
qed simp

lemma range_bounds_cover:
  assumes "separated rs" "r \<in> set rs"
  shows "fst (range_bounds rs) \<le> range_start r \<and> range_end r \<le> snd (range_bounds rs)"
proof -
  obtain i where i: "i < length rs" "r = rs ! i" using assms(2) by (metis in_set_conv_nth)
  have "range_start (rs ! 0) \<le> range_start (rs ! i)"
    using separated_nth [OF assms(1), of 0 i] i by (cases "i = 0") auto
  moreover have "range_end (rs ! i) \<le> range_end (rs ! (length rs - 1))"
  proof (cases "i = length rs - 1")
    case False
    then show ?thesis using separated_nth [OF assms(1), of i "length rs - 1"] i by linarith
  qed simp
  ultimately show ?thesis using i by (auto simp: range_bounds_def)
qed

lemma event_bounds_cover:
  assumes "sorted (map event_at es)" "e \<in> set es"
  shows "fst (event_bounds es) \<le> event_at e \<and> event_at e \<le> snd (event_bounds es)"
proof -
  obtain i where i: "i < length es" "e = es ! i" using assms(2) by (metis in_set_conv_nth)
  have "event_at (es ! 0) \<le> event_at (es ! i)" "event_at (es ! i) \<le> event_at (es ! (length es - 1))"
    using assms(1) i by (auto simp: sorted_iff_nth_mono)
  then show ?thesis using i by (auto simp: event_bounds_def last_conv_nth)
qed

definition all_ranges :: "timeline list \<Rightarrow> data_range set" where
  "all_ranges ts = (\<Union>t\<in>set ts. \<Union>d\<in>set (tl_ranges t). set (dr_ranges d))"

definition all_events :: "timeline list \<Rightarrow> event set" where
  "all_events ts = (\<Union>t\<in>set ts. \<Union>d\<in>set (tl_event_str t) \<union> set (tl_event_int t). set (te_events d))"

lemma timeline_bounds_cover:
  "(\<forall>d\<in>set (tl_ranges t). fst (timeline_bounds t) \<le> fst (range_bounds (dr_ranges d)) \<and>
      snd (range_bounds (dr_ranges d)) \<le> snd (timeline_bounds t)) \<and>
   (\<forall>d\<in>set (tl_event_str t) \<union> set (tl_event_int t). fst (timeline_bounds t) \<le> fst (event_bounds (te_events d)) \<and>
      snd (event_bounds (te_events d)) \<le> snd (timeline_bounds t))"
proof -
  define a where "a = fold (\<lambda>r. widen (range_bounds (dr_ranges r))) (tl_ranges t) (0, 0)"
  define b where "b = fold (\<lambda>e. widen (event_bounds (te_events e))) (tl_event_str t) a"
  have t: "timeline_bounds t = fold (\<lambda>e. widen (event_bounds (te_events e))) (tl_event_int t) b"
    by (simp add: timeline_bounds_def a_def b_def)
  note fa = fold_widen [of "\<lambda>r. range_bounds (dr_ranges r)" "tl_ranges t" "(0, 0)", folded a_def]
  note fb = fold_widen [of "\<lambda>e. event_bounds (te_events e)" "tl_event_str t" a, folded b_def]
  note fc = fold_widen [of "\<lambda>e. event_bounds (te_events e)" "tl_event_int t" b, folded t]
  have le: "fst (timeline_bounds t) \<le> fst b" "snd b \<le> snd (timeline_bounds t)" "fst b \<le> fst a" "snd a \<le> snd b"
    using fb fc by simp_all
  show ?thesis
  proof (intro conjI ballI)
    fix d
    assume d: "d \<in> set (tl_ranges t)"
    then have "fst a \<le> fst (range_bounds (dr_ranges d))" "snd (range_bounds (dr_ranges d)) \<le> snd a"
      using fa by simp_all
    then show "fst (timeline_bounds t) \<le> fst (range_bounds (dr_ranges d))"
      "snd (range_bounds (dr_ranges d)) \<le> snd (timeline_bounds t)" using le by linarith+
  next
    fix d
    assume "d \<in> set (tl_event_str t) \<union> set (tl_event_int t)"
    then consider "d \<in> set (tl_event_str t)" | "d \<in> set (tl_event_int t)" by blast
    then have "fst (timeline_bounds t) \<le> fst (event_bounds (te_events d)) \<and>
      snd (event_bounds (te_events d)) \<le> snd (timeline_bounds t)"
    proof cases
      case 1
      then have "fst b \<le> fst (event_bounds (te_events d))" "snd (event_bounds (te_events d)) \<le> snd b"
        using fb by simp_all
      then show ?thesis using le by linarith
    qed (use fc in simp)
    then show "fst (timeline_bounds t) \<le> fst (event_bounds (te_events d))"
      "snd (event_bounds (te_events d)) \<le> snd (timeline_bounds t)" by simp_all
  qed
qed

text \<open>The bounds given to the viewer include 0 and every range and event of sorted timelines
  whose ranges do not overlap.\<close>

theorem get_bounds_cover:
  assumes "\<forall>t\<in>set ts. \<forall>d\<in>set (tl_ranges t). separated (dr_ranges d)"
    "\<forall>t\<in>set ts. \<forall>d\<in>set (tl_event_str t) \<union> set (tl_event_int t). sorted (map event_at (te_events d))"
    "get_bounds ts = (lo, hi)"
  shows "lo \<le> 0 \<and> 0 \<le> hi \<and> (\<forall>r\<in>all_ranges ts. lo \<le> range_start r \<and> range_end r \<le> hi) \<and>
    (\<forall>e\<in>all_events ts. lo \<le> event_at e \<and> event_at e \<le> hi)"
proof -
  have b: "lo \<le> 0" "0 \<le> hi" "\<And>t. t \<in> set ts \<Longrightarrow> lo \<le> fst (timeline_bounds t) \<and> snd (timeline_bounds t) \<le> hi"
    using fold_widen [of timeline_bounds ts "(0, 0)"] assms(3) by (simp_all add: get_bounds_def)
  have "lo \<le> range_start r \<and> range_end r \<le> hi" if r: "r \<in> all_ranges ts" for r
  proof -
    obtain t d where x: "t \<in> set ts" "d \<in> set (tl_ranges t)" "r \<in> set (dr_ranges d)"
      using r unfolding all_ranges_def by blast
    then show ?thesis
      using b(3) [OF x(1)] timeline_bounds_cover [THEN conjunct1, THEN bspec, OF x(2)]
        range_bounds_cover [OF assms(1) [rule_format, OF x(1,2)] x(3)] by linarith
  qed
  moreover have "lo \<le> event_at e \<and> event_at e \<le> hi" if e: "e \<in> all_events ts" for e
  proof -
    obtain t d where x: "t \<in> set ts" "d \<in> set (tl_event_str t) \<union> set (tl_event_int t)" "e \<in> set (te_events d)"
      using e unfolding all_events_def by blast
    then show ?thesis
      using b(3) [OF x(1)] timeline_bounds_cover [THEN conjunct2, THEN bspec, OF x(2)]
        event_bounds_cover [OF assms(2) [rule_format, OF x(1,2)] x(3)] by linarith
  qed
  ultimately show ?thesis using b by blast
qed

theorem get_bounds_cover_witness:
  "get_bounds [new_timeline ''t''\<lparr>tl_ranges := [new_range ''a''\<lparr>dr_ranges :=
     [\<lparr>range_start = 5, range_end = 8, range_value = ''v''\<rparr>]\<rparr>]\<rparr>] = (0, 8) \<and> (0 :: int) \<le> 5"
proof -
  define ts where "ts = [new_timeline ''t''\<lparr>tl_ranges := [new_range ''a''\<lparr>dr_ranges :=
     [\<lparr>range_start = 5, range_end = 8, range_value = ''v''\<rparr>]\<rparr>]\<rparr>]"
  have b: "get_bounds ts = (0, 8)"
    by (simp add: ts_def get_bounds_def timeline_bounds_def widen_def range_bounds_def new_timeline_def new_range_def)
  have "\<forall>r\<in>all_ranges ts. 0 \<le> range_start r"
    using get_bounds_cover [OF _ _ b] by (simp add: ts_def new_timeline_def new_range_def separated_def)
  then show ?thesis using b by (simp add: ts_def all_ranges_def new_timeline_def new_range_def)
qed

end
