(* ===== verification/Grid_View.thy ===== *)
theory Grid_View
  imports Timeline Complex_Main
begin

text \<open>
  The renderers of \<open>src/utils/grid.py\<close>: the legend, the timelines, the scale, the range of
  time shown by \<open>GraphicRenderer\<close>, and the mouse handling of \<open>GtkGraphicRenderer\<close>.

  Coordinates, which the program keeps in Python numbers and floats, are rational numbers;
  the rounding of floats is not modelled. The scale is modelled on integers, which its
  bounds are for the scale of the whole file. The extents of a text, which cairo computes,
  are the parameter \<open>ext\<close>: width and height.
\<close>

type_synonym extents = "string \<Rightarrow> rat \<times> rat"

section \<open>The legend\<close>

datatype draw_op =
    Rectangle rat rat rat rat
  | SetSource color
  | SetLineWidth int
  | StrokePreserve
  | Fill
  | MoveTo rat rat
  | ShowText string

record legend_state =
  line_height :: rat
  total_height :: rat
  line_used :: rat

definition legend_start :: "rat \<Rightarrow> legend_state" where
  "legend_start padding = \<lparr>line_height = 0, total_height = padding, line_used = padding\<rparr>"

definition item_width :: "extents \<Rightarrow> rat \<Rightarrow> string \<Rightarrow> rat" where
  "item_width ext padding legend = padding + padding + fst (ext legend) + padding"

definition item_height :: "extents \<Rightarrow> rat \<Rightarrow> string \<Rightarrow> rat" where
  "item_height ext padding legend = snd (ext legend) + padding"

definition place_legend :: "extents \<Rightarrow> rat \<Rightarrow> rat \<Rightarrow> string \<Rightarrow> legend_state \<Rightarrow> legend_state" where
  "place_legend ext padding width legend st =
     (let w = item_width ext padding legend; h = item_height ext padding legend;
          st = (if h > line_height st then st\<lparr>line_height := h\<rparr> else st)
      in if line_used st + w > width
         then st\<lparr>line_used := padding + w, total_height := total_height st + line_height st\<rparr>
         else st\<lparr>line_used := line_used st + w\<rparr>)"

definition legend_x :: "extents \<Rightarrow> rat \<Rightarrow> string \<Rightarrow> legend_state \<Rightarrow> rat" where
  "legend_x ext padding legend st = line_used st - item_width ext padding legend"

text \<open>\<open>layout\<close>: the height that the legend takes.\<close>

definition legend_layout :: "extents \<Rightarrow> rat \<Rightarrow> rat \<Rightarrow> string list \<Rightarrow> rat" where
  "legend_layout ext padding width legends =
     (let st = fold (place_legend ext padding width) legends (legend_start padding)
      in total_height st + line_height st)"

definition black :: color where
  "black = \<lparr>red = 0, green = 0, blue = 0\<rparr>"

fun draw_legends ::
  "extents \<Rightarrow> rat \<Rightarrow> rat \<Rightarrow> color list \<Rightarrow> string list \<Rightarrow> nat \<Rightarrow> legend_state \<Rightarrow> py_exn + draw_op list" where
  "draw_legends ext padding width colors [] i st = Inr []"
| "draw_legends ext padding width colors (legend # rest) i st =
     (let st = place_legend ext padding width legend st; x = legend_x ext padding legend st; y = total_height st
      in py_bind (py_index colors (int i)) (\<lambda>c.
         py_bind (draw_legends ext padding width colors rest (Suc i) st) (\<lambda>ops.
           Inr ([Rectangle x y padding padding, SetSource black, SetLineWidth 2, StrokePreserve, SetSource c, Fill,
                 MoveTo (x + padding * 2) (y + snd (ext legend)), SetSource black, ShowText legend] @ ops))))"

definition draw_legend :: "extents \<Rightarrow> rat \<Rightarrow> rat \<Rightarrow> color list \<Rightarrow> string list \<Rightarrow> py_exn + draw_op list" where
  "draw_legend ext padding width colors legends =
     draw_legends ext padding width colors legends 0 (legend_start padding)"

text \<open>Where the items are: the box of each, with the space the layout keeps for it.\<close>

record box =
  box_x :: rat
  box_y :: rat
  box_w :: rat
  box_h :: rat

fun legend_boxes :: "extents \<Rightarrow> rat \<Rightarrow> rat \<Rightarrow> string list \<Rightarrow> legend_state \<Rightarrow> box list" where
  "legend_boxes ext padding width [] st = []"
| "legend_boxes ext padding width (legend # rest) st =
     (let st = place_legend ext padding width legend st
      in \<lparr>box_x = legend_x ext padding legend st, box_y = total_height st,
          box_w = item_width ext padding legend, box_h = item_height ext padding legend\<rparr>
         # legend_boxes ext padding width rest st)"

definition swatches :: "draw_op list \<Rightarrow> (rat \<times> rat) list" where
  "swatches ops = List.map_filter (\<lambda>p. case p of Rectangle x y w h \<Rightarrow> Some (x, y) | _ \<Rightarrow> None) ops"

definition after_box :: "box \<Rightarrow> box \<Rightarrow> bool" where
  "after_box a b \<longleftrightarrow> (box_y a = box_y b \<and> box_x a + box_w a \<le> box_x b) \<or> box_y a + box_h a \<le> box_y b"

lemma swatches_boxes:
  "draw_legends ext padding width colors legends i st = Inr ops \<Longrightarrow>
   swatches ops = map (\<lambda>b. (box_x b, box_y b)) (legend_boxes ext padding width legends st)"
  by (induction legends arbitrary: i st ops) (auto simp: swatches_def map_filter_simps Let_def)

definition legend_ok :: "rat \<Rightarrow> legend_state \<Rightarrow> bool" where
  "legend_ok padding st \<longleftrightarrow> 0 \<le> line_height st \<and> padding \<le> total_height st \<and> padding \<le> line_used st"

definition passed :: "legend_state \<Rightarrow> box \<Rightarrow> bool" where
  "passed st b \<longleftrightarrow> (box_y b = total_height st \<and> box_x b + box_w b \<le> line_used st \<and> box_h b \<le> line_height st) \<or>
     box_y b + box_h b \<le> total_height st"

definition sizes_ok :: "extents \<Rightarrow> bool" where
  "sizes_ok ext \<longleftrightarrow> (\<forall>s. 0 \<le> fst (ext s) \<and> 0 \<le> snd (ext s))"

lemma place_legend_cases:
  fixes legend :: string and width :: rat and padding :: rat and ext :: extents and st :: legend_state
  assumes "sizes_ok ext" "0 \<le> padding" "legend_ok padding st"
  defines "st' \<equiv> place_legend ext padding width legend st"
  shows "legend_ok padding st'" "item_height ext padding legend \<le> line_height st'"
    "line_height st \<le> line_height st'" "total_height st \<le> total_height st'"
    "padding \<le> legend_x ext padding legend st'"
    "padding + item_width ext padding legend \<le> width \<Longrightarrow> line_used st' \<le> width"
    "passed st b \<Longrightarrow> passed st' b"
    "passed st b \<Longrightarrow> after_box b \<lparr>box_x = legend_x ext padding legend st', box_y = total_height st', box_w = w, box_h = h\<rparr>"
proof -
  have w: "0 \<le> item_width ext padding legend" "0 \<le> item_height ext padding legend"
    using assms(1,2) by (simp_all add: sizes_ok_def item_width_def item_height_def)
  show "legend_ok padding st'" "item_height ext padding legend \<le> line_height st'"
    "line_height st \<le> line_height st'" "total_height st \<le> total_height st'"
    "padding \<le> legend_x ext padding legend st'"
    "padding + item_width ext padding legend \<le> width \<Longrightarrow> line_used st' \<le> width"
    "passed st b \<Longrightarrow> passed st' b"
    "passed st b \<Longrightarrow> after_box b \<lparr>box_x = legend_x ext padding legend st', box_y = total_height st', box_w = w, box_h = h\<rparr>"
    using w assms(2,3)
    by (auto simp: st'_def place_legend_def legend_x_def legend_ok_def passed_def after_box_def Let_def split: if_splits)
qed

lemma legend_fold_mono:
  assumes "sizes_ok ext" "0 \<le> padding"
  shows "legend_ok padding st \<Longrightarrow>
    total_height st + line_height st \<le> total_height (fold (place_legend ext padding width) legends st) +
      line_height (fold (place_legend ext padding width) legends st)"
proof (induction legends arbitrary: st)
  case (Cons l legends)
  have "legend_ok padding (place_legend ext padding width l st)"
    using place_legend_cases(1) [OF assms Cons.prems] .
  from Cons.IH [OF this] show ?case
    using place_legend_cases(3,4) [OF assms Cons.prems, where width = width and legend = l] by simp
qed simp

lemma legend_boxes_props:
  assumes "sizes_ok ext" "0 \<le> padding"
  shows "legend_ok padding st \<Longrightarrow>
    sorted_wrt after_box (legend_boxes ext padding width legends st) \<and>
    (\<forall>b\<in>set (legend_boxes ext padding width legends st).
       padding \<le> box_x b \<and> padding \<le> box_y b \<and>
       box_y b + box_h b \<le> total_height (fold (place_legend ext padding width) legends st) +
         line_height (fold (place_legend ext padding width) legends st) \<and>
       (padding + box_w b \<le> width \<longrightarrow> box_x b + box_w b \<le> width) \<and>
       (\<forall>p. passed st p \<longrightarrow> after_box p b))"
proof (induction legends arbitrary: st)
  case (Cons l legends)
  define st' where "st' = place_legend ext padding width l st"
  define b where "b = \<lparr>box_x = legend_x ext padding l st', box_y = total_height st',
    box_w = item_width ext padding l, box_h = item_height ext padding l\<rparr>"
  note pc = place_legend_cases [OF assms Cons.prems, where width = width and legend = l, folded st'_def]
  note ih = Cons.IH [OF pc(1)]
  have eq: "legend_boxes ext padding width (l # legends) st = b # legend_boxes ext padding width legends st'"
    by (simp add: st'_def b_def Let_def)
  have "passed st' b" using pc(2) by (simp add: passed_def b_def legend_x_def)
  then have "\<forall>c\<in>set (legend_boxes ext padding width legends st'). after_box b c" using ih by blast
  then have "sorted_wrt after_box (b # legend_boxes ext padding width legends st')" using ih by simp
  moreover have "padding \<le> box_x b \<and> padding \<le> box_y b \<and>
      box_y b + box_h b \<le> total_height (fold (place_legend ext padding width) legends st') +
        line_height (fold (place_legend ext padding width) legends st') \<and>
      (padding + box_w b \<le> width \<longrightarrow> box_x b + box_w b \<le> width)"
    using pc(1,2,5,6) legend_fold_mono [OF assms pc(1), of width legends]
    by (simp add: b_def legend_ok_def legend_x_def)
  moreover have "\<forall>p. passed st p \<longrightarrow> after_box p b" using pc(8) by (simp add: b_def)
  moreover have "\<forall>p. passed st p \<longrightarrow> passed st' p" using pc(7) by blast
  ultimately show ?case using ih unfolding eq by (simp add: st'_def [symmetric])
qed simp

text \<open>C27: The legend is laid out without overlap and drawn where it is laid out: with
  extents that are not negative and a colour for each legend, \<open>draw\<close> paints one square per
  legend at the corner of its box; each box lies right of or below every earlier one, below
  the padding, and within the height that \<open>layout\<close> reports; and it lies within the width if
  the item fits on a line at all.\<close>

theorem legend_drawn_as_laid_out:
  assumes "sizes_ok ext" "0 \<le> padding" "length legends \<le> length colors"
  shows "\<exists>ops bs. draw_legend ext padding width colors legends = Inr ops \<and>
    swatches ops = map (\<lambda>b. (box_x b, box_y b)) bs \<and>
    map box_w bs = map (item_width ext padding) legends \<and> map box_h bs = map (item_height ext padding) legends \<and>
    sorted_wrt after_box bs \<and>
    (\<forall>b\<in>set bs. padding \<le> box_x b \<and> padding \<le> box_y b \<and> box_y b + box_h b \<le> legend_layout ext padding width legends \<and>
       (padding + box_w b \<le> width \<longrightarrow> box_x b + box_w b \<le> width))"
proof -
  have draws: "\<exists>ops. draw_legends ext padding width colors ls i st = Inr ops" if "i + length ls \<le> length colors" for ls i st
    using that
  proof (induction ls arbitrary: i st)
    case (Cons l ls)
    then have "Suc i + length ls \<le> length colors" "i < length colors" by simp_all
    then show ?case using Cons.IH [of "Suc i"] by (simp add: Let_def)
  qed simp
  have "\<exists>ops. draw_legend ext padding width colors legends = Inr ops"
    unfolding draw_legend_def using assms(3) by (intro draws) simp
  then obtain ops where ops: "draw_legend ext padding width colors legends = Inr ops" by blast
  have "legend_ok padding (legend_start padding)" by (simp add: legend_ok_def legend_start_def)
  note props = legend_boxes_props [OF assms(1,2) this, of width legends]
  have dims: "map box_w (legend_boxes ext padding width ls st) = map (item_width ext padding) ls \<and>
      map box_h (legend_boxes ext padding width ls st) = map (item_height ext padding) ls" for ls st
    by (induction ls arbitrary: st) (simp_all add: Let_def)
  have "swatches ops = map (\<lambda>b. (box_x b, box_y b)) (legend_boxes ext padding width legends (legend_start padding))"
    using ops unfolding draw_legend_def by (rule swatches_boxes)
  then show ?thesis using ops props dims [of legends "legend_start padding"]
    by (intro exI [of _ ops] exI [of _ "legend_boxes ext padding width legends (legend_start padding)"])
      (simp add: legend_layout_def Let_def)
qed

theorem legend_drawn_as_laid_out_witness:
  "\<exists>ops. draw_legend (\<lambda>s. (of_nat (6 * length s), 8)) 10 100 [black, black] [''tx'', ''busy''] = Inr ops \<and>
     length (swatches ops) = 2"
proof -
  define e :: extents where "e = (\<lambda>s. (of_nat (6 * length s), 8))"
  define ls where "ls = [''tx'', ''busy'']"
  have "sizes_ok e" "0 \<le> (10 :: rat)" "length ls \<le> length [black, black]" by (simp_all add: sizes_ok_def e_def ls_def)
  from legend_drawn_as_laid_out [OF this, of 100]
  obtain ops and bs :: "box list" where ops: "draw_legend e 10 100 [black, black] ls = Inr ops"
    and bs: "swatches ops = map (\<lambda>b. (box_x b, box_y b)) bs" "map box_w bs = map (item_width e 10) ls"
    by blast
  have "length bs = length ls" using bs(2) by (metis length_map)
  then show ?thesis using ops bs(1) by (simp add: e_def ls_def)
qed
section \<open>The scale\<close>

text \<open>The loop starts at 1; the guard only makes the function total.\<close>

function closest_power :: "int \<Rightarrow> int \<Rightarrow> int" where
  "closest_power closest data_delta =
     (if 0 < closest \<and> closest * 10 < data_delta then closest_power (closest * 10) data_delta else closest)"
  by auto
termination by (relation "measure (\<lambda>(c, d). nat (d - c))") auto

declare closest_power.simps [simp del]

definition scale_delta :: "int \<Rightarrow> int \<Rightarrow> int" where
  "scale_delta lo hi =
     (let data_delta = hi - lo; closest = closest_power 1 data_delta
      in if data_delta div closest = 0 then closest
         else if data_delta div closest = 1 then closest div 10
         else closest)"

text \<open>\<open>layout\<close>: the distance of the ticks; the modulo by it raises when it is 0.\<close>

definition scale_layout :: "int \<Rightarrow> int \<Rightarrow> py_exn + int" where
  "scale_layout lo hi = (let delta = scale_delta lo hi in if delta = 0 then Inl ZeroDivisionError else Inr delta)"

definition py_range :: "int \<Rightarrow> int \<Rightarrow> int \<Rightarrow> int list" where
  "py_range start stop step = map (\<lambda>k. start + int k * step) [0..<nat ((stop - start + step - 1) div step)]"

definition scale_ticks :: "int \<Rightarrow> int \<Rightarrow> int \<Rightarrow> int list" where
  "scale_ticks lo hi delta =
     (let start = lo - (lo mod delta) + delta; stop = hi - (hi mod delta) in py_range start (stop + delta) delta)"

definition scale_subticks :: "int \<Rightarrow> int \<Rightarrow> int \<Rightarrow> int list" where
  "scale_subticks lo hi delta =
     (let delta = delta div 10
      in if delta > 0
         then let start = lo - (lo mod delta) + delta; stop = hi - (hi mod delta) in py_range start (stop + delta) delta
         else [])"

text \<open>\<open>get_position\<close>, on integers.\<close>

definition scale_position :: "int \<Rightarrow> int \<Rightarrow> int \<Rightarrow> int \<Rightarrow> py_exn + int" where
  "scale_position lo hi width x =
     (if hi - lo = 0 then Inl ZeroDivisionError else Inr ((x - lo) * width div (hi - lo)))"

lemma closest_power_result:
  assumes "0 < c"
  shows "\<exists>k. closest_power c d = c * 10 ^ k \<and> d \<le> 10 * closest_power c d \<and> (closest_power c d = c \<or> closest_power c d < d)"
  using assms
proof (induction c d rule: closest_power.induct)
  case (1 c d)
  show ?case
  proof (cases "c * 10 < d")
    case True
    then have eq: "closest_power c d = closest_power (c * 10) d" using 1(2) by (simp add: closest_power.simps)
    obtain k where "closest_power (c * 10) d = c * 10 * 10 ^ k" "d \<le> 10 * closest_power (c * 10) d"
      "closest_power (c * 10) d = c * 10 \<or> closest_power (c * 10) d < d"
      using 1 True by auto
    then show ?thesis using True unfolding eq by (intro exI [of _ "Suc k"]) auto
  next
    case False
    then have "closest_power c d = c" by (simp add: closest_power.simps)
    then show ?thesis using False by (intro exI [of _ 0]) simp
  qed
qed

lemma int_le_div: "0 < q \<Longrightarrow> m \<le> n div q \<longleftrightarrow> m * q \<le> n" for m n q :: int
proof
  assume q: "0 < q" and "m \<le> n div q"
  then have "m * q \<le> (n div q) * q" by (simp add: mult_right_mono)
  also have "\<dots> \<le> n" using q by (metis add_increasing2 div_mult_mod_eq order_refl pos_mod_sign)
  finally show "m * q \<le> n" .
next
  assume q: "0 < q" and "m * q \<le> n"
  then have "(m * q) div q \<le> n div q" by (intro zdiv_mono1)
  then show "m \<le> n div q" using q by simp
qed

lemma length_py_range: "0 < step \<Longrightarrow> length (py_range start stop step) = nat ((stop - start + step - 1) div step)"
  by (simp add: py_range_def)

lemma set_py_range:
  assumes "0 < step"
  shows "set (py_range start stop step) = {x. start \<le> x \<and> x < stop \<and> step dvd (x - start)}"
proof -
  have lt: "start + int k * step < stop \<longleftrightarrow> k < nat ((stop - start + step - 1) div step)" for k
  proof -
    have "start + int k * step < stop \<longleftrightarrow> (int k + 1) * step \<le> stop - start + step - 1" by (simp add: algebra_simps) linarith
    also have "\<dots> \<longleftrightarrow> int k + 1 \<le> (stop - start + step - 1) div step" using assms by (simp add: int_le_div)
    finally show ?thesis by (simp add: zless_nat_eq_int_zless) linarith
  qed
  show ?thesis
  proof (intro subset_antisym subsetI)
    fix x assume "x \<in> set (py_range start stop step)"
    then obtain k where "x = start + int k * step" "k \<in> set [0..<nat ((stop - start + step - 1) div step)]"
      unfolding py_range_def set_map by blast
    then show "x \<in> {x. start \<le> x \<and> x < stop \<and> step dvd (x - start)}" using lt [of k] assms by simp
  next
    fix x assume x: "x \<in> {x. start \<le> x \<and> x < stop \<and> step dvd (x - start)}"
    then obtain m where "x - start = step * m" by (auto elim: dvdE)
    moreover have "0 \<le> m" using x calculation assms by (simp add: zero_le_mult_iff) (metis mult_less_0_iff not_le diff_ge_0_iff_ge)
    ultimately have xm: "x = start + int (nat m) * step" by (simp add: algebra_simps)
    then have "nat m < nat ((stop - start + step - 1) div step)" using lt [of "nat m"] x by blast
    then show "x \<in> set (py_range start stop step)"
      unfolding py_range_def set_map set_upt using xm by (intro image_eqI [where x = "nat m"]) simp_all
  qed
qed
lemma scale_delta_cases:
  assumes "lo \<le> hi"
  shows "(scale_delta lo hi = 0 \<longleftrightarrow> hi - lo = 1) \<and>
    (scale_delta lo hi \<noteq> 0 \<longrightarrow> 0 < scale_delta lo hi \<and> (\<exists>k. scale_delta lo hi = 10 ^ k) \<and> hi - lo < 20 * scale_delta lo hi)"
proof -
  define c where "c = closest_power 1 (hi - lo)"
  obtain k where k: "c = 10 ^ k" "hi - lo \<le> 10 * c" "c = 1 \<or> c < hi - lo"
    using closest_power_result [of 1 "hi - lo"] by (auto simp: c_def)
  have pos: "0 < c" using k(1) by simp
  have d: "scale_delta lo hi = (if (hi - lo) div c = 0 then c else if (hi - lo) div c = 1 then c div 10 else c)"
    by (simp add: scale_delta_def c_def Let_def)
  have q1: "(hi - lo) div c = 1 \<longleftrightarrow> c \<le> hi - lo \<and> hi - lo < 2 * c"
    using int_le_div [OF pos, of 1 "hi - lo"] int_le_div [OF pos, of 2 "hi - lo"] by auto
  show ?thesis
  proof (cases k)
    case 0
    then have "c = 1" using k by simp
    then show ?thesis unfolding d using k(2) assms by (auto intro: exI [of _ 0])
  next
    case (Suc n)
    have "1 \<le> (10 :: int) ^ n" by simp
    moreover have c10: "c = 10 * 10 ^ n" using k(1) Suc by simp
    ultimately have "c \<noteq> 1" by linarith
    define m where "m = c div 10"
    have m: "c = 10 * m" "0 < m" "\<exists>j. m = 10 ^ j" using c10 by (auto simp: m_def)
    have "\<exists>j. c = 10 ^ j" using k(1) by blast
    show ?thesis unfolding d m_def [symmetric] using m(1,2) k(2,3) q1 \<open>c \<noteq> 1\<close> 
        \<open>\<exists>j. c = 10 ^ j\<close> m(3) by simp
  qed
qed

text \<open>The scale of an interval of integers raises \<open>ZeroDivisionError\<close> exactly for an
  interval of length 1. Otherwise the ticks are a power of ten apart, they are exactly the
  multiples of it that lie in the interval, the lower end excluded, and there are at most
  twenty of them, however long the interval is.\<close>

theorem scale_ticks_spec:
  assumes "lo \<le> hi"
  shows "(scale_layout lo hi = Inl ZeroDivisionError \<longleftrightarrow> hi - lo = 1) \<and>
    (hi - lo \<noteq> 1 \<longrightarrow> (\<exists>delta. scale_layout lo hi = Inr delta \<and> (\<exists>k. delta = 10 ^ k) \<and>
       set (scale_ticks lo hi delta) = {x. lo < x \<and> x \<le> hi \<and> delta dvd x} \<and> length (scale_ticks lo hi delta) \<le> 20))"
proof -
  define d where "d = scale_delta lo hi"
  note dc = scale_delta_cases [OF assms, folded d_def]
  have "set (scale_ticks lo hi d) = {x. lo < x \<and> x \<le> hi \<and> d dvd x} \<and> length (scale_ticks lo hi d) \<le> 20"
    if "hi - lo \<noteq> 1"
  proof -
    have pos: "0 < d" and small: "hi - lo < 20 * d" using dc that by auto
    define l where "l = lo div d"
    define h where "h = hi div d"
    have l: "lo - lo mod d + d = d * (l + 1)" and h: "hi - hi mod d = d * h"
      by (simp_all add: l_def h_def minus_mod_eq_mult_div algebra_simps)
    have ticks: "scale_ticks lo hi d = py_range (d * (l + 1)) (d * (h + 1)) d"
      unfolding scale_ticks_def Let_def l h by (simp add: algebra_simps)
    have mem: "x \<in> set (scale_ticks lo hi d) \<longleftrightarrow> lo < x \<and> x \<le> hi \<and> d dvd x" for x
    proof -
      have dv: "d dvd x - d * (l + 1) \<longleftrightarrow> d dvd x" by (simp add: dvd_diff_left_iff)
      have "d * (l + 1) \<le> d * m \<and> d * m < d * (h + 1) \<longleftrightarrow> lo < d * m \<and> d * m \<le> hi" for m
        using pos int_le_div [OF pos, of m lo] int_le_div [OF pos, of m hi] by (auto simp: l_def h_def mult.commute)
      then have "d dvd x \<Longrightarrow> d * (l + 1) \<le> x \<and> x < d * (h + 1) \<longleftrightarrow> lo < x \<and> x \<le> hi" by blast
      then show ?thesis unfolding ticks set_py_range [OF pos] mem_Collect_eq dv by blast
    qed
    have len: "length (scale_ticks lo hi d) = nat (h - l)"
    proof -
      have e: "d * (h + 1) - d * (l + 1) + d - 1 = (d - 1) + (h - l) * d" by (simp add: algebra_simps)
      have "((d - 1) + (h - l) * d) div d = (h - l) + (d - 1) div d" using pos by (intro div_mult_self1) simp
      then show ?thesis unfolding ticks length_py_range [OF pos] e using pos by (simp add: div_pos_pos_trivial)
    qed
    have "h - l \<le> 20"
    proof -
      have "h * d \<le> hi" using int_le_div [OF pos, of h hi] by (simp add: h_def)
      moreover have "lo < (l + 1) * d" using int_le_div [OF pos, of "l + 1" lo] by (simp add: l_def not_le)
      ultimately have "(h - l) * d < 21 * d" using small by (simp add: algebra_simps)
      then show ?thesis using pos by simp
    qed
    then show ?thesis unfolding len using mem by (intro conjI set_eqI) simp_all
  qed
  moreover have "scale_layout lo hi = (if d = 0 then Inl ZeroDivisionError else Inr d)"
    by (simp add: scale_layout_def Let_def d_def)
  ultimately show ?thesis using dc by (cases "hi - lo = 1") simp_all
qed

theorem scale_ticks_spec_witness:
  "scale_layout 3 4 = Inl ZeroDivisionError \<and> (\<exists>delta. scale_layout 0 250 = Inr delta \<and> length (scale_ticks 0 250 delta) \<le> 20)"
  using scale_ticks_spec [of 3 4, THEN conjunct1] scale_ticks_spec [of 0 250, THEN conjunct2] by fastforce
section \<open>Drawing the timelines\<close>

text \<open>\<open>int(x)\<close> of a float: towards zero.\<close>

definition py_trunc :: "rat \<Rightarrow> int" where
  "py_trunc x = (if 0 \<le> x then \<lfloor>x\<rfloor> else \<lceil>x\<rceil>)"

text \<open>The pixel of a time, in a strip that starts at \<open>x\<close> and is \<open>width\<close> wide.\<close>

definition time_pixel :: "rat \<Rightarrow> rat \<Rightarrow> rat \<Rightarrow> rat \<Rightarrow> rat \<Rightarrow> int" where
  "time_pixel start stop x width t = py_trunc (x + (t - start) * width / (stop - start))"

text \<open>The loop of \<open>draw_ranges\<close>: position, width and colour of every rectangle.\<close>

fun range_rects ::
  "rat \<Rightarrow> rat \<Rightarrow> rat \<Rightarrow> rat \<Rightarrow> data_range list \<Rightarrow> int \<Rightarrow> colors \<Rightarrow> py_exn + ((int \<times> int \<times> color) list \<times> colors)" where
  "range_rects start stop x width [] last_x_drawn cs = Inr ([], cs)"
| "range_rects start stop x width (r # rest) last_x_drawn cs =
     (if stop - start = 0 then Inl ZeroDivisionError
      else let s = max (rat_of_int (range_start r)) start;
               e = min (rat_of_int (range_end r)) stop;
               x_start = time_pixel start stop x width s;
               x_end = time_pixel start stop x width e
           in if x_end > last_x_drawn
              then py_bind (lookup_color (range_value r) cs) (\<lambda>(c, cs).
                   py_bind (range_rects start stop x width rest x_end cs) (\<lambda>(rects, cs).
                     Inr ((x_start, x_end - x_start, c) # rects, cs)))
              else range_rects start stop x width rest last_x_drawn cs)"

text \<open>Every second strip has a background: \<open>grey_background\<close> counts the strips.\<close>

definition background :: "int \<Rightarrow> rat \<Rightarrow> rat \<Rightarrow> rat \<Rightarrow> rat \<Rightarrow> (rat \<times> rat \<times> rat \<times> rat) list" where
  "background grey_background x y width height =
     (if grey_background mod 2 = 0 then [(x, y - 5, width, height + 10)] else [])"

definition draw_ranges ::
  "rat \<Rightarrow> rat \<Rightarrow> data_range list \<Rightarrow> rat \<Rightarrow> rat \<Rightarrow> rat \<Rightarrow> rat \<Rightarrow> int \<Rightarrow> colors
     \<Rightarrow> py_exn + ((rat \<times> rat \<times> rat \<times> rat) list \<times> (int \<times> int \<times> color) list \<times> int \<times> colors)" where
  "draw_ranges start stop ranges x y width height grey_background cs =
     (case get_ranges_bounds ranges start stop of (lo, hi) \<Rightarrow>
        py_bind (range_rects start stop x width (py_slice ranges lo hi) (py_trunc (x - 1)) cs) (\<lambda>(rects, cs).
          Inr (background grey_background x y width height, rects, grey_background + 1, cs)))"

text \<open>The loop of \<open>draw_events\<close>: the pixel and the value of every event drawn.\<close>

fun event_marks :: "rat \<Rightarrow> rat \<Rightarrow> rat \<Rightarrow> rat \<Rightarrow> event list \<Rightarrow> int \<Rightarrow> py_exn + (int \<times> event_value) list" where
  "event_marks start stop x width [] last_x_drawn = Inr []"
| "event_marks start stop x width (e # rest) last_x_drawn =
     (if stop - start = 0 then Inl ZeroDivisionError
      else let real_x = time_pixel start stop x width (rat_of_int (event_at e))
           in if real_x > last_x_drawn + 2
              then py_bind (event_marks start stop x width rest real_x) (\<lambda>marks.
                     Inr ((real_x, event_value e) # marks))
              else event_marks start stop x width rest last_x_drawn)"

definition draw_events ::
  "rat \<Rightarrow> rat \<Rightarrow> event list \<Rightarrow> rat \<Rightarrow> rat \<Rightarrow> rat \<Rightarrow> rat \<Rightarrow> int
     \<Rightarrow> py_exn + ((rat \<times> rat \<times> rat \<times> rat) list \<times> (int \<times> event_value) list \<times> int)" where
  "draw_events start stop events x y width height grey_background =
     (case get_events_bounds events start stop of (lo, hi) \<Rightarrow>
        py_bind (event_marks start stop x width (py_slice events lo hi) (py_trunc x)) (\<lambda>marks.
          Inr (background grey_background x y width height, marks, grey_background + 1)))"

lemma py_trunc_mono: "a \<le> b \<Longrightarrow> py_trunc a \<le> py_trunc b"
proof -
  have "\<lceil>a\<rceil> \<le> 0 \<and> 0 \<le> \<lfloor>b\<rfloor>" if "\<not> 0 \<le> a" "0 \<le> b" using that by (simp add: ceiling_le_zero)
  then have "\<lceil>a\<rceil> \<le> \<lfloor>b\<rfloor>" if "\<not> 0 \<le> a" "0 \<le> b" using that by linarith
  then show "a \<le> b \<Longrightarrow> py_trunc a \<le> py_trunc b"
    by (simp add: py_trunc_def floor_mono ceiling_mono)
qed

lemma time_pixel_mono:
  assumes "start < stop" "0 \<le> width" "s \<le> t"
  shows "time_pixel start stop x width s \<le> time_pixel start stop x width t"
  unfolding time_pixel_def using assms
  by (intro py_trunc_mono add_left_mono divide_right_mono mult_right_mono) auto

lemma time_pixel_ends:
  assumes "start < stop"
  shows "time_pixel start stop x width start = py_trunc x" "time_pixel start stop x width stop = py_trunc (x + width)"
  using assms by (simp_all add: time_pixel_def)

text \<open>A row of rectangles in a strip: each starts no earlier than the ones before it end and
  has no negative width; only the last may be drawn backwards from beyond the right end.\<close>

fun rects_ok :: "int \<Rightarrow> int \<Rightarrow> (int \<times> int \<times> color) list \<Rightarrow> bool" where
  "rects_ok lo hi [] = True"
| "rects_ok lo hi ((a, w, c) # rest) =
     (if 0 \<le> w then lo \<le> a \<and> a + w \<le> hi \<and> rects_ok (a + w) hi rest else hi < a \<and> a + w = hi \<and> rest = [])"

abbreviation start_pixel :: "rat \<Rightarrow> rat \<Rightarrow> rat \<Rightarrow> rat \<Rightarrow> data_range \<Rightarrow> int" where
  "start_pixel start stop x width r \<equiv> time_pixel start stop x width (max (rat_of_int (range_start r)) start)"

abbreviation end_pixel :: "rat \<Rightarrow> rat \<Rightarrow> rat \<Rightarrow> rat \<Rightarrow> data_range \<Rightarrow> int" where
  "end_pixel start stop x width r \<equiv> time_pixel start stop x width (min (rat_of_int (range_end r)) stop)"

lemma no_rects:
  "start < stop \<Longrightarrow> \<forall>r\<in>set rs. end_pixel start stop x width r \<le> lst \<Longrightarrow> range_rects start stop x width rs lst cs = Inr ([], cs)"
  by (induction rs) (auto simp: Let_def not_less)

lemma end_pixel_le:
  "start < stop \<Longrightarrow> 0 \<le> width \<Longrightarrow> end_pixel start stop x width r \<le> py_trunc (x + width)"
  using time_pixel_mono [of start stop width "min (rat_of_int (range_end r)) stop" stop x] time_pixel_ends(2) [of start stop x width]
  by simp

lemma range_rects_ok:
  fixes x :: rat
  assumes "start < stop" "0 \<le> width"
  defines "hi \<equiv> py_trunc (x + width)" and "s \<equiv> start_pixel start stop x width" and "e \<equiv> end_pixel start stop x width"
  shows "range_rects start stop x width rs lst cs = Inr (rects, cs') \<Longrightarrow> separated rs \<Longrightarrow>
    (\<forall>r\<in>set rs. e r \<le> lst \<or> (lo \<le> s r \<and> s r \<le> e r) \<or> (hi < s r \<and> e r = hi)) \<Longrightarrow> rects_ok lo hi rects"
proof (induction rs arbitrary: lst cs rects cs' lo)
  case (Cons r rs)
  have sep: "separated rs" using Cons.prems(2) by (simp add: separated_def)
  show ?case
  proof (cases "e r > lst")
    case True
    then obtain c cs1 rects1 where c: "range_rects start stop x width rs (e r) cs1 = Inr (rects1, cs')"
      "rects = (s r, e r - s r, c) # rects1"
      using Cons.prems(1) assms(1) by (auto simp: Let_def s_def e_def split: if_splits)
    consider "lo \<le> s r" "s r \<le> e r" | "hi < s r" "e r = hi" using Cons.prems(3) True by auto
    then show ?thesis
    proof cases
      case 1
      have "e r \<le> hi" unfolding e_def hi_def by (rule end_pixel_le [OF assms(1,2)])
      moreover have "rects_ok (e r) hi rects1"
      proof (rule Cons.IH [OF c(1) sep], rule ballI)
        fix q assume q: "q \<in> set rs"
        then have "range_end r < range_start q" using Cons.prems(2) by (simp add: separated_def)
        then have "min (rat_of_int (range_end r)) stop \<le> max (rat_of_int (range_start q)) start" by simp
        then have "e r \<le> s q" unfolding e_def s_def by (rule time_pixel_mono [OF assms(1,2)])
        moreover have "e q \<le> lst \<or> s q \<le> e q \<or> (hi < s q \<and> e q = hi)" using Cons.prems(3) q by auto
        ultimately show "e q \<le> e r \<or> (e r \<le> s q \<and> s q \<le> e q) \<or> (hi < s q \<and> e q = hi)"
          using True by linarith
      qed
      ultimately show ?thesis using 1 by (simp add: c(2))
    next
      case 2
      have "range_rects start stop x width rs (e r) cs1 = Inr ([], cs1)"
        using end_pixel_le [OF assms(1,2)] 2(2) by (intro no_rects [OF assms(1)]) (simp add: hi_def)
      then show ?thesis using c 2 by simp
    qed
  next
    case False
    then have "range_rects start stop x width rs lst cs = Inr (rects, cs')"
      using Cons.prems(1) assms(1) by (simp add: e_def Let_def)
    then show ?thesis using Cons.prems(3) sep Cons.IH [of lst cs rects cs' lo] by simp
  qed
qed simp

text \<open>What \<open>draw_ranges\<close> paints for ranges that do not overlap: rectangles from left to right
  inside the strip, none over another and none of negative width, except that a last one may
  be drawn backwards from beyond the right end of the strip.\<close>

theorem draw_ranges_in_strip:
  assumes "start < stop" "0 \<le> width" "1 \<le> x" "separated ranges"
    "draw_ranges start stop ranges x y width height grey cs = Inr (bg, rects, grey', cs')"
  shows "rects_ok (py_trunc x) (py_trunc (x + width)) rects"
proof -
  obtain lo hi where b: "get_ranges_bounds ranges start stop = (lo, hi)" by fastforce
  then have r: "range_rects start stop x width (py_slice ranges lo hi) (py_trunc (x - 1)) cs = Inr (rects, cs')"
    using assms(5) by (auto simp: draw_ranges_def)
  have sep: "separated (py_slice ranges lo hi)"
    using assms(4) by (auto simp: py_slice_def slice_upto_def separated_def sorted_wrt_take sorted_wrt_drop
        dest: in_set_dropD in_set_takeD)
  show ?thesis
  proof (rule range_rects_ok [OF assms(1,2) r sep], rule ballI)
    fix r
    let ?s = "start_pixel start stop x width r" and ?e = "end_pixel start stop x width r"
    assume "r \<in> set (py_slice ranges lo hi)"
    then have le: "range_start r \<le> range_end r" using sep by (simp add: separated_def)
    then have le': "rat_of_int (range_start r) \<le> rat_of_int (range_end r)" by simp
    have s: "py_trunc x \<le> ?s"
      using time_pixel_mono [OF assms(1,2), of start "max (rat_of_int (range_start r)) start" x] time_pixel_ends(1) [OF assms(1), of x width]
      by simp
    have x1: "py_trunc (x - 1) + 1 = py_trunc x" using assms(3) by (simp add: py_trunc_def)
    consider "max (rat_of_int (range_start r)) start \<le> min (rat_of_int (range_end r)) stop"
      | "rat_of_int (range_end r) < start" | "stop < rat_of_int (range_start r)"
      using le' assms(1) by (meson max.boundedI min.boundedI not_le less_imp_le)
    then show "?e \<le> py_trunc (x - 1) \<or> (py_trunc x \<le> ?s \<and> ?s \<le> ?e) \<or> (py_trunc (x + width) < ?s \<and> ?e = py_trunc (x + width))"
    proof cases
      case 1
      then show ?thesis using s time_pixel_mono [OF assms(1,2)] by blast
    next
      case 2
      then have "rat_of_int (range_start r) < start" using le by (meson of_int_le_iff order.strict_trans1)
      then have "?s = py_trunc x" using time_pixel_ends(1) [OF assms(1)] by (simp add: max_def)
      then show ?thesis using x1 by linarith
    next
      case 3
      then have "stop < rat_of_int (range_end r)" using le by (meson of_int_le_iff order.strict_trans2)
      then have e: "?e = py_trunc (x + width)" using time_pixel_ends(2) [OF assms(1)] by (simp add: min_def)
      have "py_trunc (x + width) \<le> ?s"
        using time_pixel_mono [OF assms(1,2), of stop "max (rat_of_int (range_start r)) start" x] 3 time_pixel_ends(2) [OF assms(1), of x width]
        by simp
      then show ?thesis using e s by linarith
    qed
  qed
qed

theorem draw_ranges_in_strip_witness:
  "\<exists>c cs'. draw_ranges 0 10 [\<lparr>range_start = 0, range_end = 2, range_value = ''a''\<rparr>,
       \<lparr>range_start = 20, range_end = 30, range_value = ''a''\<rparr>] 5 0 100 10 1 new_colors =
     Inr ([], [(5, 20, c), (205, - 100, c)], 2, cs') \<and>
     rects_ok 5 105 [(5, 20, c), (205, - 100, c)]"
proof -
  define rs where "rs = [\<lparr>range_start = 0, range_end = 2, range_value = ''a''\<rparr>,
       \<lparr>range_start = 20, range_end = 30, range_value = ''a''\<rparr>]"
  have b: "get_ranges_bounds rs 0 10 = (0, 2)"
    by (simp add: get_ranges_bounds_def search_range_def range_search.simps rs_def)
  have "py_slice rs 0 2 = rs" by (simp add: py_slice_def slice_upto_def rs_def)
  then obtain c cs' where d: "draw_ranges 0 10 rs 5 0 100 10 1 new_colors = Inr ([], [(5, 20, c), (205, - 100, c)], 2, cs')"
    unfolding draw_ranges_def b
    by (simp add: time_pixel_def py_trunc_def background_def lookup_color_def new_colors_def add_color_def rs_def Let_def)
  have "separated rs" by (simp add: rs_def separated_def)
  then have "rects_ok (py_trunc 5) (py_trunc (5 + 100)) [(5, 20, c), (205, - 100, c)]"
    using draw_ranges_in_strip [OF _ _ _ _ d] by simp
  then show ?thesis using d by (simp add: py_trunc_def rs_def)
qed
text \<open>\<open>TimelinesRenderer.layout\<close>: the widths of the two columns of names and the height.\<close>

record timelines_layout =
  left_width :: rat
  right_width :: rat
  max_text_height :: rat
  tl_width :: rat
  tl_height :: rat

definition all_letters :: string where
  "all_letters = ''ABCDEFGHIJKLMNOPQRSTUVWXYZabcedefghijklmnopqrstuvwxyz0123456789''"

definition right_names :: "timeline \<Rightarrow> string list" where
  "right_names t = map dr_name (tl_ranges t) @ map te_name (tl_event_int t) @ map te_name (tl_event_str t)"

definition max_width :: "extents \<Rightarrow> string list \<Rightarrow> rat" where
  "max_width ext names = foldl (\<lambda>w n. max w (fst (ext n))) 0 names"

definition timelines_layout :: "extents \<Rightarrow> rat \<Rightarrow> timeline list \<Rightarrow> timelines_layout" where
  "timelines_layout ext width timelines =
     (let text = snd (ext all_letters);
          left_n_lines = rat_of_nat (length timelines);
          range_n = rat_of_nat (length (concat (map tl_ranges timelines)));
          events_n = rat_of_nat (length (concat (map tl_event_int timelines)) + length (concat (map tl_event_str timelines)));
          right_n_lines = range_n + events_n;
          left_height = left_n_lines * text + (left_n_lines - 1) * 10;
          right_height = (right_n_lines - 1) * 10 + right_n_lines * text;
          right_data_height = events_n * (text + 5) + range_n * 10 + (right_n_lines - 1) * 10
      in \<lparr>left_width = max_width ext (map tl_name timelines),
          right_width = max_width ext (concat (map right_names timelines)),
          max_text_height = text, tl_width = width,
          tl_height = max (max left_height right_height) right_data_height + 10\<rparr>)"

definition data_x_start :: "timelines_layout \<Rightarrow> rat" where
  "data_x_start l = 5 + left_width l + 10 + right_width l + 5"

text \<open>\<open>TimelinesRenderer.draw\<close>: where each strip starts, and what is drawn in it.\<close>

datatype strip =
    EventStrip string rat "(rat \<times> rat \<times> rat \<times> rat) list" "(int \<times> event_value) list"
  | RangeStrip string rat "(rat \<times> rat \<times> rat \<times> rat) list" "(int \<times> int \<times> color) list"

record pen =
  cur_y :: rat
  grey_background :: int
  pen_colors :: colors
  strips :: "strip list"

definition draw_event_strip :: "timelines_layout \<Rightarrow> rat \<Rightarrow> rat \<Rightarrow> timeline_event \<Rightarrow> pen \<Rightarrow> py_exn + pen" where
  "draw_event_strip l start stop te p =
     (let x = data_x_start l
      in py_bind (draw_events start stop (te_events te) x (cur_y p) (tl_width l - x) (max_text_height l + 5)
                    (grey_background p)) (\<lambda>(bg, marks, grey).
           Inr (p\<lparr>cur_y := cur_y p + max_text_height l + 5 + 10, grey_background := grey,
                  strips := strips p @ [EventStrip (te_name te) (cur_y p) bg marks]\<rparr>)))"

definition draw_range_strip :: "timelines_layout \<Rightarrow> rat \<Rightarrow> rat \<Rightarrow> timeline_data_range \<Rightarrow> pen \<Rightarrow> py_exn + pen" where
  "draw_range_strip l start stop dr p =
     (let x = data_x_start l
      in py_bind (draw_ranges start stop (dr_ranges dr) x (cur_y p) (tl_width l - x) 10 (grey_background p) (pen_colors p))
           (\<lambda>(bg, rects, grey, cs).
             Inr (p\<lparr>cur_y := cur_y p + max_text_height l + 10, grey_background := grey, pen_colors := cs,
                    strips := strips p @ [RangeStrip (dr_name dr) (cur_y p) bg rects]\<rparr>)))"

definition draw_timeline :: "timelines_layout \<Rightarrow> rat \<Rightarrow> rat \<Rightarrow> timeline \<Rightarrow> pen \<Rightarrow> py_exn + pen" where
  "draw_timeline l start stop t p =
     py_bind (py_fold (draw_event_strip l start stop) (tl_event_int t) p) (\<lambda>p.
     py_bind (py_fold (draw_event_strip l start stop) (tl_event_str t) p)
       (py_fold (draw_range_strip l start stop) (tl_ranges t)))"

definition draw_timelines :: "timelines_layout \<Rightarrow> rat \<Rightarrow> rat \<Rightarrow> timeline list \<Rightarrow> colors \<Rightarrow> py_exn + pen" where
  "draw_timelines l start stop timelines cs =
     py_fold (draw_timeline l start stop) timelines
       \<lparr>cur_y = 5, grey_background = 1, pen_colors = cs, strips = []\<rparr>"

section \<open>The range shown and the mouse\<close>

text \<open>
  \<open>GraphicRenderer\<close> with what \<open>layout\<close> computed last: its width, the height of the legend, the columns and the height
  of the data, the height of the scale of the range shown, the width and the height of the scale of the whole file. \<open>layout\<close>
  lays these out in this order, and an exception of a scale leaves what comes after as it was. The parts of the
  picture that do not change are the record \<open>graphic\<close>; the padding of the legend is 10.
\<close>

record graphic =
  gr_ext :: extents
  gr_legends :: "string list"
  gr_timelines :: "timeline list"

record range_view =
  rv_start :: rat
  rv_end :: rat
  rv_r_start :: rat
  rv_r_end :: rat
  rv_width :: rat
  rv_legend_height :: rat
  rv_data :: timelines_layout
  rv_mid_height :: rat
  rv_bot_width :: rat
  rv_bot_height :: rat

definition py_div :: "rat \<Rightarrow> rat \<Rightarrow> py_exn + rat" where
  "py_div a b = (if b = 0 then Inl ZeroDivisionError else Inr (a / b))"

text \<open>The scale of the range shown has float bounds: its distance of ticks is computed without
  rounding the quotients.\<close>

function closest_power_float :: "int \<Rightarrow> rat \<Rightarrow> int" where
  "closest_power_float closest data_delta =
     (if 0 < closest \<and> rat_of_int (closest * 10) < data_delta then closest_power_float (closest * 10) data_delta else closest)"
  by auto
termination by (relation "measure (\<lambda>(c, d). nat (\<lceil>d\<rceil> - c))") (auto, linarith)

declare closest_power_float.simps [simp del]

definition scale_delta_float :: "rat \<Rightarrow> rat \<Rightarrow> int" where
  "scale_delta_float lo hi =
     (let data_delta = hi - lo; closest = closest_power_float 1 data_delta
      in if data_delta / rat_of_int closest = 0 then closest
         else if data_delta / rat_of_int closest = 1 then closest div 10
         else closest)"

text \<open>\<open>layout\<close>: the view it leaves, and its exception.\<close>

definition layout :: "graphic \<Rightarrow> rat \<Rightarrow> range_view \<Rightarrow> range_view \<times> py_exn option" where
  "layout gr width v =
     (let scale_height = snd (gr_ext gr all_letters) + 10;
          v = v\<lparr>rv_width := width, rv_legend_height := legend_layout (gr_ext gr) 10 width (gr_legends gr),
                rv_data := timelines_layout (gr_ext gr) width (gr_timelines gr)\<rparr>
      in if scale_delta_float (rv_r_start v) (rv_r_end v) = 0 then (v, Some ZeroDivisionError)
         else let v = v\<lparr>rv_mid_height := scale_height\<rparr>
         in if scale_delta_float (rv_start v) (rv_end v) = 0 then (v, Some ZeroDivisionError)
         else (v\<lparr>rv_bot_width := width, rv_bot_height := scale_height\<rparr>, None))"

definition set_range :: "graphic \<Rightarrow> rat \<Rightarrow> rat \<Rightarrow> range_view \<Rightarrow> range_view \<times> py_exn option" where
  "set_range gr start stop v =
     (let s = min start stop; e = max start stop;
          start = max (rv_start v) s; stop = min (rv_end v) e
      in layout gr (rv_width v) (v\<lparr>rv_r_start := start, rv_r_end := stop\<rparr>))"

definition get_range :: "range_view \<Rightarrow> rat \<times> rat" where
  "get_range v = (rv_r_start v, rv_r_end v)"

definition get_data_rectangle :: "range_view \<Rightarrow> rat \<times> rat \<times> rat \<times> rat" where
  "get_data_rectangle v =
     (let x_start = data_x_start (rv_data v) in (x_start, rv_legend_height v, rv_width v - x_start, tl_height (rv_data v)))"

definition scale_data :: "range_view \<Rightarrow> rat \<Rightarrow> py_exn + rat" where
  "scale_data v x = py_bind (py_div x (rv_width v - data_x_start (rv_data v))) (\<lambda>q. Inr (q * (rv_r_end v - rv_r_start v)))"

definition bot_position :: "range_view \<Rightarrow> rat \<Rightarrow> py_exn + rat" where
  "bot_position v x = py_div ((x - rv_start v) * rv_bot_width v) (rv_end v - rv_start v)"

definition get_selection_rectangle :: "range_view \<Rightarrow> py_exn + (rat \<times> rat \<times> rat \<times> rat)" where
  "get_selection_rectangle v =
     (let y_start = rv_legend_height v + tl_height (rv_data v) + rv_mid_height v + 20;
          y_height = rv_bot_height v + 20
      in py_bind (bot_position v (rv_r_start v)) (\<lambda>x_start.
         py_bind (bot_position v (rv_r_end v)) (\<lambda>x_end.
           Inr (x_start, y_start, x_end - x_start, y_height))))"

definition scale_selection :: "range_view \<Rightarrow> rat \<Rightarrow> py_exn + rat" where
  "scale_selection v x = py_bind (py_div x (rv_width v)) (\<lambda>q. Inr (q * (rv_end v - rv_start v)))"

text \<open>What of \<open>GraphicRenderer.draw\<close> can raise: the drawing of the data and the two ends of the selection. The
  colours of all values were looked up for the legend before the window is shown.\<close>

definition draw_graphic :: "graphic \<Rightarrow> range_view \<Rightarrow> colors \<Rightarrow> py_exn + colors" where
  "draw_graphic gr v cs =
     py_bind (draw_timelines (rv_data v) (rv_r_start v) (rv_r_end v) (gr_timelines gr) cs) (\<lambda>p.
     py_bind (bot_position v (rv_r_start v)) (\<lambda>select_start.
     py_bind (bot_position v (rv_r_end v)) (\<lambda>select_end. Inr (pen_colors p))))"

text \<open>
  \<open>GtkGraphicRenderer\<close>. Attributes that the constructor does not set are options; the code sets
  \<open>moving_right\<close> to the width at one place, which is true unless it is 0. \<open>g_buffer\<close> tells whether the buffer was
  created. A handler that raises leaves the state it has reached: its result is that state and the exception, which gtk
  prints before it goes on with the next event.
\<close>

datatype cursor = SB_H_DOUBLE_ARROW | FLEUR | Default_Cursor

record gui =
  g_view :: range_view
  g_colors :: colors
  g_width :: rat
  moving_left :: bool
  moving_right :: bool
  moving_both :: bool
  moving_top :: bool
  moving_left_cur :: "rat option"
  moving_right_cur :: "rat option"
  moving_both_start :: "rat option"
  moving_both_cur :: "rat option"
  moving_top_start :: "rat option"
  moving_top_cur :: "rat option"
  force_full_redraw :: bool
  g_buffer :: bool
  g_cursor :: cursor

type_synonym gui_result = "gui \<times> py_exn option"

definition new_gui :: "range_view \<Rightarrow> colors \<Rightarrow> gui" where
  "new_gui v cs =
     \<lparr>g_view = v, g_colors = cs, g_width = rv_width v, moving_left = False, moving_right = False, moving_both = False,
      moving_top = False, moving_left_cur = None, moving_right_cur = None, moving_both_start = None, moving_both_cur = None,
      moving_top_start = None, moving_top_cur = None, force_full_redraw = True, g_buffer = False, g_cursor = Default_Cursor\<rparr>"

definition attribute :: "'a option \<Rightarrow> py_exn + 'a" where
  "attribute a = (case a of None \<Rightarrow> Inl AttributeError | Some x \<Rightarrow> Inr x)"

text \<open>Going on with a value, or ending the handler with its exception.\<close>

definition going_on :: "py_exn + 'a \<Rightarrow> gui \<Rightarrow> ('a \<Rightarrow> gui_result) \<Rightarrow> gui_result" where
  "going_on r g k = (case r of Inl e \<Rightarrow> (g, Some e) | Inr x \<Rightarrow> k x)"

definition redraw_range :: "graphic \<Rightarrow> rat \<Rightarrow> rat \<Rightarrow> gui \<Rightarrow> gui_result" where
  "redraw_range gr start stop g =
     (case set_range gr start stop (g_view g) of
        (v, Some e) \<Rightarrow> (g\<lparr>g_view := v\<rparr>, Some e)
      | (v, None) \<Rightarrow> (g\<lparr>g_view := v, force_full_redraw := True\<rparr>, None))"

definition set_smaller_zoom :: "graphic \<Rightarrow> gui \<Rightarrow> gui_result" where
  "set_smaller_zoom gr g =
     (case get_range (g_view g) of (start, stop) \<Rightarrow> redraw_range gr start (start + (stop - start) * 2) g)"

definition set_bigger_zoom :: "graphic \<Rightarrow> gui \<Rightarrow> gui_result" where
  "set_bigger_zoom gr g =
     (case get_range (g_view g) of (start, stop) \<Rightarrow> redraw_range gr start (start + (stop - start) / 2) g)"

definition button_press :: "rat \<Rightarrow> rat \<Rightarrow> gui \<Rightarrow> gui_result" where
  "button_press ex ey g =
     going_on (get_selection_rectangle (g_view g)) g (\<lambda>(x, y, width, height).
       case get_data_rectangle (g_view g) of (d_x, d_y, d_width, d_height) \<Rightarrow>
         (if ey > y \<and> ey < y + height \<and> \<bar>ex - x\<bar> < 5 then g\<lparr>moving_left := True\<rparr>
          else if ey > y \<and> ey < y + height \<and> \<bar>ex - (x + width)\<bar> < 5 then g\<lparr>moving_right := True\<rparr>
          else if ey > y \<and> ey < y + height \<and> ex > x \<and> ex < x + width
          then g\<lparr>moving_both := True, moving_both_start := Some ex, moving_both_cur := Some ex\<rparr>
          else if ey > d_y \<and> ey < d_y + d_height \<and> ex > d_x \<and> ex < d_x + d_width
          then g\<lparr>moving_top := True, moving_top_start := Some ex, moving_top_cur := Some ex\<rparr>
          else g, None))"

definition button_release :: "graphic \<Rightarrow> gui \<Rightarrow> gui_result" where
  "button_release gr g =
     (let v = g_view g
      in if moving_left g
         then let g = g\<lparr>moving_left := False\<rparr> in
              going_on (py_bind (attribute (moving_left_cur g)) (scale_selection v)) g (\<lambda>left. redraw_range gr left (rv_r_end v) g)
         else if moving_right g
         then let g = g\<lparr>moving_right := False\<rparr> in
              going_on (py_bind (attribute (moving_right_cur g)) (scale_selection v)) g (\<lambda>right. redraw_range gr (rv_r_start v) right g)
         else if moving_both g
         then let g = g\<lparr>moving_both := False\<rparr> in
              going_on (py_bind (attribute (moving_both_cur g)) (\<lambda>c. py_bind (attribute (moving_both_start g)) (\<lambda>s. scale_selection v (c - s)))) g
                (\<lambda>delta. redraw_range gr (rv_r_start v + delta) (rv_r_end v + delta) g)
         else (g\<lparr>moving_top := False\<rparr>, None))"

definition pointer_cursor :: "rat \<Rightarrow> rat \<Rightarrow> rat \<times> rat \<times> rat \<times> rat \<Rightarrow> range_view \<Rightarrow> cursor" where
  "pointer_cursor ex ey sel v =
     (case sel of (x, y, width, height) \<Rightarrow> case get_data_rectangle v of (d_x, d_y, d_width, d_height) \<Rightarrow>
        if ey > y \<and> ey < y + height \<and> (\<bar>ex - x\<bar> < 5 \<or> \<bar>ex - (x + width)\<bar> < 5) then SB_H_DOUBLE_ARROW
        else if ey > y \<and> ey < y + height \<and> ex > x \<and> ex < x + width then FLEUR
        else if ey > d_y \<and> ey < d_y + d_height \<and> ex > d_x \<and> ex < d_x + d_width then FLEUR
        else Default_Cursor)"

definition motion_notify :: "graphic \<Rightarrow> rat \<Rightarrow> rat \<Rightarrow> gui \<Rightarrow> gui_result" where
  "motion_notify gr ex ey g =
     going_on (get_selection_rectangle (g_view g)) g (\<lambda>sel. case sel of (x, y, width, height) \<Rightarrow>
       if moving_left g
       then (g\<lparr>moving_left_cur := Some (if ex \<le> 0 then 0 else if ex \<ge> x + width then x + width else ex)\<rparr>, None)
       else if moving_right g
       then (if ex \<ge> g_width g then g\<lparr>moving_right := (g_width g \<noteq> 0)\<rparr>
             else g\<lparr>moving_right_cur := Some (if ex < x then x else ex)\<rparr>, None)
       else if moving_both g
       then going_on (attribute (moving_both_start g)) g (\<lambda>s.
            let cur_e = g_width g - (x + width - s); cur_s = s - x
            in (g\<lparr>moving_both_cur := Some (if ex < cur_s then cur_s else if ex > cur_e then cur_e else ex)\<rparr>, None))
       else if moving_top g
       then let g = g\<lparr>moving_top_cur := Some ex\<rparr> in
            going_on (py_bind (attribute (moving_top_start g)) (\<lambda>s. scale_data (g_view g) (s - ex))) g (\<lambda>delta.
              case redraw_range gr (rv_r_start (g_view g) + delta) (rv_r_end (g_view g) + delta) g of
                (g, Some e) \<Rightarrow> (g, Some e)
              | (g, None) \<Rightarrow> (g\<lparr>moving_top_start := Some ex\<rparr>, None))
       else (g\<lparr>g_cursor := pointer_cursor ex ey sel (g_view g)\<rparr>, None))"

definition size_allocate :: "graphic \<Rightarrow> rat \<Rightarrow> gui \<Rightarrow> gui_result" where
  "size_allocate gr width g =
     (case layout gr width (g_view g) of
        (v, Some e) \<Rightarrow> (g\<lparr>g_width := width, g_view := v\<rparr>, Some e)
      | (v, None) \<Rightarrow> (g\<lparr>g_width := width, g_view := v, force_full_redraw := True\<rparr>, None))"

text \<open>The graphic is drawn to the buffer when a full redraw is due; the handles that are being moved are drawn over it.\<close>

definition expose :: "graphic \<Rightarrow> gui \<Rightarrow> gui_result" where
  "expose gr g =
     (let over = (\<lambda>g. going_on (get_selection_rectangle (g_view g)) g (\<lambda>sel.
            going_on (if moving_left g then attribute (moving_left_cur g) else Inr 0) g (\<lambda>left.
            going_on (if moving_right g then attribute (moving_right_cur g) else Inr 0) g (\<lambda>right.
            going_on (if moving_both g then py_bind (attribute (moving_both_cur g)) (\<lambda>c. py_bind (attribute (moving_both_start g)) (\<lambda>s. Inr (c - s)))
                      else Inr 0) g (\<lambda>delta. (g, None))))))
      in if force_full_redraw g
         then let g = g\<lparr>g_buffer := True\<rparr> in
              going_on (draw_graphic gr (g_view g) (g_colors g)) g (\<lambda>cs. over (g\<lparr>g_colors := cs, force_full_redraw := False\<rparr>))
         else over g)"

text \<open>\<open>output_png\<close> draws to the buffer of the window; the surface it writes stays empty.\<close>

definition output_png :: "graphic \<Rightarrow> gui \<Rightarrow> gui_result" where
  "output_png gr g =
     (if g_buffer g then going_on (draw_graphic gr (g_view g) (g_colors g)) g (\<lambda>cs. (g\<lparr>g_colors := cs\<rparr>, None))
      else (g, Some AttributeError))"

datatype gui_event =
    Press rat rat
  | Release
  | Motion rat rat
  | Zoom_Out
  | Zoom_In
  | Allocate rat
  | Expose
  | Output_Png

fun gui_handler :: "graphic \<Rightarrow> gui_event \<Rightarrow> gui \<Rightarrow> gui_result" where
  "gui_handler gr (Press ex ey) g = button_press ex ey g"
| "gui_handler gr Release g = button_release gr g"
| "gui_handler gr (Motion ex ey) g = motion_notify gr ex ey g"
| "gui_handler gr Zoom_Out g = set_smaller_zoom gr g"
| "gui_handler gr Zoom_In g = set_bigger_zoom gr g"
| "gui_handler gr (Allocate width) g = size_allocate gr width g"
| "gui_handler gr Expose g = expose gr g"
| "gui_handler gr Output_Png g = output_png gr g"

definition gui_step :: "graphic \<Rightarrow> gui_event \<Rightarrow> gui \<times> py_exn list \<Rightarrow> gui \<times> py_exn list" where
  "gui_step gr ev ge =
     (case gui_handler gr ev (fst ge) of
        (g, None) \<Rightarrow> (g, snd ge)
      | (g, Some e) \<Rightarrow> (g, snd ge @ [e]))"

text \<open>The range shown: inside the data, or dragged beyond one end of the data. In this case its other end is that end of
  the data, and the range is turned round.\<close>

definition range_ok :: "rat \<Rightarrow> rat \<Rightarrow> rat \<times> rat \<Rightarrow> bool" where
  "range_ok lo hi r \<longleftrightarrow>
     lo \<le> fst r \<and> fst r \<le> snd r \<and> snd r \<le> hi \<or> hi < fst r \<and> snd r = hi \<or> snd r < lo \<and> fst r = lo"

definition gui_inv :: "rat \<Rightarrow> rat \<Rightarrow> gui \<Rightarrow> bool" where
  "gui_inv lo hi g \<longleftrightarrow>
     rv_start (g_view g) = lo \<and> rv_end (g_view g) = hi \<and> range_ok lo hi (get_range (g_view g)) \<and>
     (moving_both g \<longrightarrow> moving_both_start g \<noteq> None \<and> moving_both_cur g \<noteq> None) \<and>
     (moving_top g \<longrightarrow> moving_top_start g \<noteq> None)"

lemma layout_view:
  "rv_start (fst (layout gr width v)) = rv_start v" "rv_end (fst (layout gr width v)) = rv_end v"
  "get_range (fst (layout gr width v)) = get_range v" "snd (layout gr width v) \<noteq> Some AttributeError"
  by (simp_all add: layout_def Let_def get_range_def)

lemma set_range_view:
  assumes "rv_start v \<le> rv_end v"
  shows "rv_start (fst (set_range gr a b v)) = rv_start v" "rv_end (fst (set_range gr a b v)) = rv_end v"
    "range_ok (rv_start v) (rv_end v) (get_range (fst (set_range gr a b v)))" "snd (set_range gr a b v) \<noteq> Some AttributeError"
  using assms by (auto simp: set_range_def Let_def layout_view range_ok_def get_range_def [of "range_view.rv_r_end_update _ _"] max_def min_def)

lemma redraw_range_inv:
  assumes "gui_inv lo hi g" "lo \<le> hi"
  shows "gui_inv lo hi (fst (redraw_range gr a b g)) \<and> snd (redraw_range gr a b g) \<noteq> Some AttributeError"
proof -
  obtain v e where v: "set_range gr a b (g_view g) = (v, e)" by fastforce
  then show ?thesis using set_range_view [of "g_view g" gr a b] assms by (auto simp: redraw_range_def gui_inv_def split: option.split)
qed

lemma going_on_simps [simp]:
  "going_on (Inl e) g k = (g, Some e)" "going_on (Inr x) g k = k x"
  by (simp_all add: going_on_def)

lemma going_on_cases:
  assumes "\<And>e. r = Inl e \<Longrightarrow> P (g, Some e)" "\<And>x. r = Inr x \<Longrightarrow> P (k x)"
  shows "P (going_on r g k)"
  using assms by (cases r) simp_all

lemma gui_inv_fields:
  "gui_inv lo hi (g\<lparr>moving_left := a\<rparr>) = gui_inv lo hi g" "gui_inv lo hi (g\<lparr>moving_right := a\<rparr>) = gui_inv lo hi g"
  "gui_inv lo hi (g\<lparr>moving_left_cur := c\<rparr>) = gui_inv lo hi g" "gui_inv lo hi (g\<lparr>moving_right_cur := c\<rparr>) = gui_inv lo hi g"
  "gui_inv lo hi (g\<lparr>moving_top_cur := c\<rparr>) = gui_inv lo hi g" "gui_inv lo hi (g\<lparr>g_cursor := k\<rparr>) = gui_inv lo hi g"
  "gui_inv lo hi (g\<lparr>g_buffer := a\<rparr>) = gui_inv lo hi g"
  "gui_inv lo hi (g\<lparr>g_colors := cs\<rparr>) = gui_inv lo hi g" "gui_inv lo hi (g\<lparr>force_full_redraw := a\<rparr>) = gui_inv lo hi g"
  "gui_inv lo hi (g\<lparr>g_width := w\<rparr>) = gui_inv lo hi g"
  "gui_inv lo hi g \<Longrightarrow> gui_inv lo hi (g\<lparr>moving_both := False\<rparr>)" "gui_inv lo hi g \<Longrightarrow> gui_inv lo hi (g\<lparr>moving_top := False\<rparr>)"
  "gui_inv lo hi g \<Longrightarrow> gui_inv lo hi (g\<lparr>moving_both_cur := Some x\<rparr>)" "gui_inv lo hi g \<Longrightarrow> gui_inv lo hi (g\<lparr>moving_top_start := Some x\<rparr>)"
  "gui_inv lo hi g \<Longrightarrow> gui_inv lo hi (g\<lparr>moving_both := a, moving_both_start := Some x, moving_both_cur := Some y\<rparr>)"
  "gui_inv lo hi g \<Longrightarrow> gui_inv lo hi (g\<lparr>moving_top := a, moving_top_start := Some x\<rparr>)"
  by (simp_all add: gui_inv_def)

lemmas gui_errors = py_div_def bot_position_def scale_data_def scale_selection_def get_selection_rectangle_def attribute_def

lemma no_attribute_error:
  "scale_selection v c \<noteq> Inl AttributeError" "scale_data v c \<noteq> Inl AttributeError"
  "get_selection_rectangle v \<noteq> Inl AttributeError" "bot_position v c \<noteq> Inl AttributeError"
  by (auto simp: gui_errors py_bind_def Let_def split: sum.splits if_splits)

lemma press_inv:
  assumes "gui_inv lo hi g"
  shows "gui_inv lo hi (fst (button_press ex ey g)) \<and> snd (button_press ex ey g) \<noteq> Some AttributeError"
  unfolding button_press_def
proof (rule going_on_cases)
  fix e assume "get_selection_rectangle (g_view g) = Inl e"
  then show "gui_inv lo hi (fst (g, Some e)) \<and> snd (g, Some e) \<noteq> Some AttributeError"
    using assms no_attribute_error(3) [of "g_view g"] by auto
qed (simp add: assms gui_inv_fields split: prod.split if_split)

lemma release_inv:
  assumes "gui_inv lo hi g" "lo \<le> hi"
  shows "gui_inv lo hi (fst (button_release gr g)) \<and>
    (snd (button_release gr g) = Some AttributeError \<longleftrightarrow>
       (if moving_left g then moving_left_cur g = None else moving_right g \<and> moving_right_cur g = None))"
proof -
  have moved: "gui_inv lo hi (fst (going_on (scale_selection v c) h (\<lambda>d. redraw_range gr (a d) (b d) h))) \<and>
      snd (going_on (scale_selection v c) h (\<lambda>d. redraw_range gr (a d) (b d) h)) \<noteq> Some AttributeError"
    if "gui_inv lo hi h" for v c h a b
    using redraw_range_inv [OF that assms(2)] no_attribute_error(1) [of v c] that by (cases "scale_selection v c") auto
  note i = gui_inv_fields(1,2) gui_inv_fields(11,12) [OF assms(1)]
  have both: "moving_both g \<Longrightarrow> \<exists>s c. moving_both_start g = Some s \<and> moving_both_cur g = Some c"
    using assms(1) by (auto simp: gui_inv_def)
  consider "moving_left g" | "\<not> moving_left g" "moving_right g" | "\<not> moving_left g" "\<not> moving_right g" "moving_both g"
    | "\<not> moving_left g" "\<not> moving_right g" "\<not> moving_both g" by blast
  then show ?thesis
  proof cases
    case 1
    then show ?thesis using moved i(1) assms(1) by (cases "moving_left_cur g") (simp_all add: button_release_def attribute_def Let_def)
  next
    case 2
    then show ?thesis using moved i(2) assms(1) by (cases "moving_right_cur g") (simp_all add: button_release_def attribute_def Let_def)
  next
    case 3
    then show ?thesis using both moved i(3) by (auto simp: button_release_def attribute_def Let_def)
  next
    case 4
    then show ?thesis using i(4) by (simp add: button_release_def)
  qed
qed

text \<open>The drag of the data, once the handler has kept the pointer in \<open>h\<close>.\<close>

lemma drag_data_inv:
  assumes "gui_inv lo hi h" "lo \<le> hi"
    "r = going_on (scale_data v c) h (\<lambda>d. case redraw_range gr (a d) (b d) h of (g, Some e) \<Rightarrow> (g, Some e)
        | (g, None) \<Rightarrow> (g\<lparr>moving_top_start := Some ex\<rparr>, None))"
  shows "gui_inv lo hi (fst r) \<and> snd r \<noteq> Some AttributeError"
  unfolding assms(3)
proof (rule going_on_cases)
  fix d
  show "gui_inv lo hi (fst (case redraw_range gr (a d) (b d) h of (g, Some e) \<Rightarrow> (g, Some e)
      | (g, None) \<Rightarrow> (g\<lparr>moving_top_start := Some ex\<rparr>, None))) \<and>
    snd (case redraw_range gr (a d) (b d) h of (g, Some e) \<Rightarrow> (g, Some e)
      | (g, None) \<Rightarrow> (g\<lparr>moving_top_start := Some ex\<rparr>, None)) \<noteq> Some AttributeError"
    using redraw_range_inv [OF assms(1,2), of gr "a d" "b d"]
    by (cases "redraw_range gr (a d) (b d) h") (auto simp: gui_inv_fields split: option.split)
qed (use assms(1) no_attribute_error(2) in auto)

lemma motion_inv:
  assumes "gui_inv lo hi g" "lo \<le> hi"
  shows "gui_inv lo hi (fst (motion_notify gr ex ey g)) \<and> snd (motion_notify gr ex ey g) \<noteq> Some AttributeError"
proof (cases "get_selection_rectangle (g_view g)")
  case (Inl e)
  then show ?thesis using assms no_attribute_error(3) [of "g_view g"] by (auto simp: motion_notify_def)
next
  case (Inr sel)
  obtain x y width height where sel: "get_selection_rectangle (g_view g) = Inr (x, y, width, height)" using Inr by (cases sel) simp
  consider "moving_left g" | "\<not> moving_left g" "moving_right g" | "\<not> moving_left g" "\<not> moving_right g" "moving_both g"
    | "\<not> moving_left g" "\<not> moving_right g" "\<not> moving_both g" "moving_top g"
    | "\<not> moving_left g" "\<not> moving_right g" "\<not> moving_both g" "\<not> moving_top g" by blast
  then show ?thesis
  proof cases
    case 1
    then show ?thesis using assms(1) by (simp add: motion_notify_def sel gui_inv_fields)
  next
    case 2
    then show ?thesis using assms(1) by (simp add: motion_notify_def sel gui_inv_fields split: if_split)
  next
    case 3
    then obtain s where "moving_both_start g = Some s" using assms(1) by (auto simp: gui_inv_def)
    then show ?thesis using 3 assms(1) by (simp add: motion_notify_def sel attribute_def gui_inv_fields Let_def)
  next
    case 4
    then obtain s where s: "moving_top_start g = Some s" using assms(1) by (auto simp: gui_inv_def)
    have "gui_inv lo hi (g\<lparr>moving_top_cur := Some ex\<rparr>)" using assms(1) by (simp add: gui_inv_fields)
    from drag_data_inv [OF this assms(2) refl] show ?thesis
      using 4 s by (simp add: motion_notify_def sel attribute_def Let_def)
  next
    case 5
    then show ?thesis using assms(1) by (simp add: motion_notify_def sel gui_inv_fields)
  qed
qed

text \<open>Drawing the data raises no \<open>AttributeError\<close>.\<close>

lemma bind_not: "py_bind r k \<noteq> Inl e \<longleftrightarrow> r \<noteq> Inl e \<and> (\<forall>x. r = Inr x \<longrightarrow> k x \<noteq> Inl e)"
  by (cases r) simp_all

lemma py_fold_not: "(\<And>x s. f x s \<noteq> Inl e) \<Longrightarrow> py_fold f xs s \<noteq> Inl e"
  by (induction xs arbitrary: s) (simp_all add: bind_not)

lemma event_marks_not: "event_marks start stop x width es drawn \<noteq> Inl AttributeError"
  by (induction es arbitrary: drawn) (simp_all add: Let_def bind_not)

lemma range_rects_not: "range_rects start stop x width rs drawn cs \<noteq> Inl AttributeError"
proof -
  have "lookup_color n cs \<noteq> Inl AttributeError" for n cs by (simp add: lookup_color_def Let_def split: option.split)
  then show ?thesis
    by (induction rs arbitrary: drawn cs) (simp_all add: Let_def bind_not split: prod.split)
qed

lemma draw_timelines_not: "draw_timelines l start stop ts cs \<noteq> Inl AttributeError"
proof -
  have "draw_event_strip l start stop te p \<noteq> Inl AttributeError" for te p
    by (simp add: event_marks_not draw_event_strip_def draw_events_def Let_def bind_not split: prod.split)
  moreover have "draw_range_strip l start stop dr p \<noteq> Inl AttributeError" for dr p
    by (simp add: range_rects_not draw_range_strip_def draw_ranges_def Let_def bind_not split: prod.split)
  ultimately show ?thesis by (simp add: draw_timelines_def draw_timeline_def bind_not py_fold_not)
qed

lemma draw_graphic_not: "draw_graphic gr v cs \<noteq> Inl AttributeError"
  by (simp add: draw_graphic_def bind_not draw_timelines_not no_attribute_error)

text \<open>Whether \<open>expose\<close> comes as far as the handles.\<close>

definition handles_drawn :: "graphic \<Rightarrow> gui \<Rightarrow> bool" where
  "handles_drawn gr g \<longleftrightarrow> rv_start (g_view g) \<noteq> rv_end (g_view g) \<and>
     (force_full_redraw g \<longrightarrow> \<not> isl (draw_graphic gr (g_view g) (g_colors g)))"

lemma expose_inv:
  assumes "gui_inv lo hi g"
  shows "gui_inv lo hi (fst (expose gr g)) \<and>
    (snd (expose gr g) = Some AttributeError \<longleftrightarrow>
       handles_drawn gr g \<and> (moving_left g \<and> moving_left_cur g = None \<or> moving_right g \<and> moving_right_cur g = None))"
proof -
  have sel: "(\<exists>e. get_selection_rectangle v = Inl e \<and> e \<noteq> AttributeError) \<and> rv_start v = rv_end v \<or>
      (\<exists>s. get_selection_rectangle v = Inr s) \<and> rv_start v \<noteq> rv_end v" for v
    by (simp add: gui_errors)
  have both: "moving_both g \<Longrightarrow> \<exists>s c. moving_both_start g = Some s \<and> moving_both_cur g = Some c"
    using assms by (auto simp: gui_inv_def)
  show ?thesis
  proof (cases "force_full_redraw g")
    case True
    show ?thesis
    proof (cases "draw_graphic gr (g_view g) (g_colors g)")
      case (Inl e)
      then show ?thesis using True assms draw_graphic_not [of gr "g_view g" "g_colors g"]
        by (auto simp: expose_def handles_drawn_def gui_inv_fields)
    next
      case (Inr cs)
      then show ?thesis using True assms sel [of "g_view g"] both
        by (cases "moving_left_cur g"; cases "moving_right_cur g")
          (auto simp: expose_def handles_drawn_def gui_inv_fields attribute_def)
    qed
  next
    case False
    then show ?thesis using assms sel [of "g_view g"] both
      by (cases "moving_left_cur g"; cases "moving_right_cur g")
        (auto simp: expose_def handles_drawn_def gui_inv_fields attribute_def)
  qed
qed

lemma allocate_inv:
  assumes "gui_inv lo hi g"
  shows "gui_inv lo hi (fst (size_allocate gr width g)) \<and> snd (size_allocate gr width g) \<noteq> Some AttributeError"
  using assms layout_view [of gr width "g_view g"]
  by (cases "layout gr width (g_view g)") (auto simp: size_allocate_def gui_inv_def split: option.split)

lemma output_png_inv:
  assumes "gui_inv lo hi g"
  shows "gui_inv lo hi (fst (output_png gr g)) \<and> (snd (output_png gr g) = Some AttributeError \<longleftrightarrow> \<not> g_buffer g)"
  using assms draw_graphic_not [of gr "g_view g" "g_colors g"]
  by (cases "draw_graphic gr (g_view g) (g_colors g)") (auto simp: output_png_def gui_inv_fields)

lemma gui_handler_inv:
  assumes "gui_inv lo hi g" "lo \<le> hi"
  shows "gui_inv lo hi (fst (gui_handler gr ev g))"
  using press_inv [OF assms(1)] release_inv [OF assms, of gr] motion_inv [OF assms, of gr] redraw_range_inv [OF assms, of gr]
    allocate_inv [OF assms(1), of gr] expose_inv [OF assms(1), of gr] output_png_inv [OF assms(1), of gr]
  by (cases ev) (simp_all add: set_smaller_zoom_def set_bigger_zoom_def get_range_def)

lemma gui_run_inv:
  assumes "gui_inv lo hi g" "lo \<le> hi"
  shows "gui_inv lo hi (fst (fold (gui_step gr) events (g, es)))"
  using assms(1)
proof (induction events arbitrary: g es)
  case (Cons ev events)
  obtain g' e where step: "gui_handler gr ev g = (g', e)" by fastforce
  then have "gui_inv lo hi g'" using gui_handler_inv [OF Cons.prems assms(2), of gr ev] by simp
  then show ?case using Cons.IH step by (cases e) (simp_all add: gui_step_def)
qed simp

text \<open>C30: Whatever the user does and whatever raises on the way, the bounds of the data stay as they are and the range
  shown is in order and inside the data, unless it was dragged beyond one end of the data: then it is turned round,
  its other end is that end of the data, and its first end is beyond the data at the end or its last one before the start. A handler
  asks for an attribute that was never set exactly in these cases: a button is released, or the window is exposed (and the drawing comes as far as
  the handles), while an edge is grabbed that the pointer has not moved to a position, and a picture is written before the first
  exposure.\<close>

theorem gui_range_after_events:
  assumes "rv_start v \<le> rv_end v" "range_ok (rv_start v) (rv_end v) (get_range v)"
  shows "let g = fst (fold (gui_step gr) events (new_gui v cs, [])) in
    rv_start (g_view g) = rv_start v \<and> rv_end (g_view g) = rv_end v \<and>
    (rv_start v \<le> rv_r_start (g_view g) \<and> rv_r_start (g_view g) \<le> rv_r_end (g_view g) \<and> rv_r_end (g_view g) \<le> rv_end v \<or>
     rv_end v < rv_r_start (g_view g) \<and> rv_r_end (g_view g) = rv_end v \<or>
     rv_r_end (g_view g) < rv_start v \<and> rv_r_start (g_view g) = rv_start v) \<and>
    (snd (gui_handler gr ev g) = Some AttributeError \<longleftrightarrow>
      (case ev of
         Release \<Rightarrow> if moving_left g then moving_left_cur g = None else moving_right g \<and> moving_right_cur g = None
       | Expose \<Rightarrow> handles_drawn gr g \<and> (moving_left g \<and> moving_left_cur g = None \<or> moving_right g \<and> moving_right_cur g = None)
       | Output_Png \<Rightarrow> \<not> g_buffer g
       | _ \<Rightarrow> False))"
proof -
  define g where "g = fst (fold (gui_step gr) events (new_gui v cs, []))"
  have "gui_inv (rv_start v) (rv_end v) (new_gui v cs)" using assms by (simp add: gui_inv_def new_gui_def)
  then have inv: "gui_inv (rv_start v) (rv_end v) g" unfolding g_def using assms(1) by (rule gui_run_inv)
  note step = press_inv [OF inv] release_inv [OF inv assms(1), of gr] motion_inv [OF inv assms(1), of gr]
    redraw_range_inv [OF inv assms(1), of gr] allocate_inv [OF inv, of gr] expose_inv [OF inv, of gr] output_png_inv [OF inv, of gr]
  have "snd (gui_handler gr ev g) = Some AttributeError \<longleftrightarrow>
      (case ev of
         Release \<Rightarrow> if moving_left g then moving_left_cur g = None else moving_right g \<and> moving_right_cur g = None
       | Expose \<Rightarrow> handles_drawn gr g \<and> (moving_left g \<and> moving_left_cur g = None \<or> moving_right g \<and> moving_right_cur g = None)
       | Output_Png \<Rightarrow> \<not> g_buffer g
       | _ \<Rightarrow> False)"
    using step by (cases ev) (simp_all add: set_smaller_zoom_def set_bigger_zoom_def get_range_def)
  then show ?thesis using inv unfolding g_def [symmetric] Let_def by (simp add: gui_inv_def range_ok_def get_range_def)
qed

text \<open>A window on data from 0 to 100 that shows 40 to 60; two timelines without data, and letters of no size.\<close>

definition demo_graphic :: graphic where
  "demo_graphic = \<lparr>gr_ext = \<lambda>s. (0, 0), gr_legends = [],
     gr_timelines = replicate 2 \<lparr>tl_name = [], tl_ranges = [], tl_event_str = [], tl_event_int = []\<rparr>\<rparr>"

definition demo_view :: range_view where
  "demo_view = \<lparr>rv_start = 0, rv_end = 100, rv_r_start = 40, rv_r_end = 60, rv_width = 200, rv_legend_height = 10,
     rv_data = timelines_layout (\<lambda>s. (0, 0)) 200 (gr_timelines demo_graphic), rv_mid_height = 10, rv_bot_width = 200, rv_bot_height = 10\<rparr>"

lemma demo_geometry:
  "get_selection_rectangle demo_view = Inr (80, 60, 40, 30)" "get_data_rectangle demo_view = (20, 10, 180, 20)"
  by (simp_all add: get_selection_rectangle_def get_data_rectangle_def bot_position_def py_div_def demo_view_def timelines_layout_def
      max_width_def data_x_start_def right_names_def demo_graphic_def eval_nat_numeral Let_def)

theorem gui_range_after_events_witness:
  "\<exists>g. fold (gui_step demo_graphic) [Press 80 70] (new_gui demo_view new_colors, []) = (g, []) \<and>
     snd (gui_handler demo_graphic Release g) = Some AttributeError"
proof -
  have v: "rv_start demo_view \<le> rv_end demo_view" "range_ok (rv_start demo_view) (rv_end demo_view) (get_range demo_view)"
    by (simp_all add: demo_view_def range_ok_def get_range_def)
  define g where "g = new_gui demo_view new_colors\<lparr>moving_left := True\<rparr>"
  have g: "fold (gui_step demo_graphic) [Press 80 70] (new_gui demo_view new_colors, []) = (g, [])"
    by (simp add: gui_step_def button_press_def new_gui_def demo_geometry g_def)
  moreover have "moving_left g" "moving_left_cur g = None" by (simp_all add: g_def new_gui_def)
  ultimately show ?thesis
    using gui_range_after_events [OF v, of demo_graphic "[Press 80 70]" new_colors Release] by (simp add: Let_def)
qed

text \<open>A drag of the data to the left shows a range that starts behind the data.\<close>

lemma range_dragged_off:
  "range_ok 0 100 (get_range (g_view (fst (fold (gui_step demo_graphic) [Press 190 15, Motion (-700) 15] (new_gui demo_view new_colors, []))))) \<and>
   100 < fst (get_range (g_view (fst (fold (gui_step demo_graphic) [Press 190 15, Motion (-700) 15] (new_gui demo_view new_colors, [])))))"
proof -
  have press: "gui_step demo_graphic (Press 190 15) (new_gui demo_view new_colors, []) =
      (new_gui demo_view new_colors\<lparr>moving_top := True, moving_top_start := Some 190, moving_top_cur := Some 190\<rparr>, [])" (is "_ = (?g, [])")
    by (simp add: gui_step_def button_press_def new_gui_def demo_geometry)
  have view: "rv_start demo_view = 0" "rv_end demo_view = 100" "rv_r_start demo_view = 40" "rv_r_end demo_view = 60" "rv_width demo_view = 200"
    "data_x_start (rv_data demo_view) = 20"
    by (simp_all add: demo_view_def timelines_layout_def max_width_def data_x_start_def right_names_def demo_graphic_def eval_nat_numeral Let_def)
  define r where "r = set_range demo_graphic (1250 / 9) (1430 / 9) demo_view"
  have r: "get_range (fst r) = (1250 / 9, 100)"
    by (simp add: r_def set_range_def view layout_view) (simp add: get_range_def)
  have "get_range (g_view (fst (gui_step demo_graphic (Motion (-700) 15) (?g, [])))) = get_range (fst r)"
    by (cases r; cases "snd r") (simp_all add: gui_step_def motion_notify_def demo_geometry new_gui_def attribute_def scale_data_def py_div_def view
        redraw_range_def r_def [symmetric] Let_def)
  then show ?thesis unfolding fold.simps comp_def press id_def by (simp add: r range_ok_def)
qed

text \<open>In a new window the edges of the selection cannot be grabbed safely: a click on the left
  edge without a movement, and a drag of the right edge to or past the right border of the
  window, both end in \<open>AttributeError\<close> when the button is released.\<close>

lemma grabbing_an_edge_raises:
  assumes "get_selection_rectangle v = Inr (x, y, width, height)" "y < ey" "ey < y + height" "rv_width v \<noteq> 0"
  shows "\<bar>ex - x\<bar> < 5 \<Longrightarrow> snd (fold (gui_step gr) [Press ex ey, Release] (new_gui v cs, [])) = [AttributeError]"
    "\<not> \<bar>ex - x\<bar> < 5 \<Longrightarrow> \<bar>ex - (x + width)\<bar> < 5 \<Longrightarrow> rv_width v \<le> mx \<Longrightarrow>
       snd (fold (gui_step gr) [Press ex ey, Motion mx my, Release] (new_gui v cs, [])) = [AttributeError]"
proof -
  obtain d where d: "get_data_rectangle v = d" by simp
  have pressed: "snd (gui_step gr Release (new_gui v cs\<lparr>moving_left := True\<rparr>, [])) = [AttributeError]"
    "snd (gui_step gr Release (new_gui v cs\<lparr>moving_right := True\<rparr>, [])) = [AttributeError]"
    by (simp_all add: gui_step_def button_release_def attribute_def new_gui_def Let_def)
  show "snd (fold (gui_step gr) [Press ex ey, Release] (new_gui v cs, [])) = [AttributeError]" if "\<bar>ex - x\<bar> < 5"
  proof -
    have "gui_step gr (Press ex ey) (new_gui v cs, []) = (new_gui v cs\<lparr>moving_left := True\<rparr>, [])"
      using assms that by (cases d) (simp add: gui_step_def button_press_def new_gui_def d)
    then show ?thesis using pressed(1) by simp
  qed
  show "snd (fold (gui_step gr) [Press ex ey, Motion mx my, Release] (new_gui v cs, [])) = [AttributeError]"
    if "\<not> \<bar>ex - x\<bar> < 5" "\<bar>ex - (x + width)\<bar> < 5" "rv_width v \<le> mx"
  proof -
    have "gui_step gr (Press ex ey) (new_gui v cs, []) = (new_gui v cs\<lparr>moving_right := True\<rparr>, [])"
      using assms that by (cases d) (simp add: gui_step_def button_press_def new_gui_def d)
    moreover have "gui_step gr (Motion mx my) (new_gui v cs\<lparr>moving_right := True\<rparr>, []) = (new_gui v cs\<lparr>moving_right := True\<rparr>, [])"
      using assms that(3) by (simp add: gui_step_def motion_notify_def new_gui_def)
    ultimately show ?thesis using pressed(2) by simp
  qed
qed

end
