(* ===== verification/Check_Style.thy ===== *)
theory Check_Style
  imports Py_Base
begin

text \<open>
  \<open>src/utils/check-style.py\<close>: the uncrustify configuration, patches and their parser, the
  removal of changes that only strip trailing white space, and the comparison of files.

  The file system is a record \<open>style_world\<close>: the files, and what \<open>uncrustify\<close>,
  \<open>difflib.unified_diff\<close>, \<open>patch\<close> and \<open>hg\<close> answer. Paths given by \<open>mkstemp\<close> are fresh
  names that the model does not show; the functions that return such a path return the
  contents.

  The lines of a chunk are shared objects: a line that belongs to both sides is seen from
  both, and a change through one list shows in the other. A chunk is the list of its lines
  and the two sides are lists of positions in it.
\<close>

section \<open>The configuration of uncrustify\<close>

definition unlines :: "string list \<Rightarrow> string" where
  "unlines ls = concat (map (\<lambda>l. l @ [CHR 0x0A]) ls)"

definition level2 :: string where
  "level2 = unlines [[],
     ''nl_collapse_empty_body=False'', ''nl_if_brace=Add'', ''nl_brace_else=Add'', ''nl_elseif_brace=Add'',
     ''nl_else_brace=Add'', ''nl_while_brace=Add'', ''nl_do_brace=Add'', ''nl_for_brace=Add'',
     ''nl_brace_while=Add'', ''nl_switch_brace=Add'', ''nl_after_case=True'', ''nl_namespace_brace=Remove'',
     ''nl_after_brace_open=True'', ''nl_class_leave_one_liners=False'', ''nl_enum_leave_one_liners=False'',
     ''nl_func_leave_one_liners=False'', ''nl_if_leave_one_liners=False'', ''nl_class_colon=Ignore'',
     ''nl_after_access_spec=1'', ''nl_after_semicolon=True'', ''pos_class_colon=Lead'', ''pos_class_comma=Trail'',
     ''pos_bool=Lead'', ''nl_class_init_args=Add'', ''nl_template_class=Add'', ''nl_class_brace=Add'',
     ''# does not work very well'', ''nl_func_type_name=Ignore'', ''nl_func_scope_name=Ignore'',
     ''nl_func_type_name_class=Ignore'', ''nl_func_proto_type_name=Ignore'',
     ''# function'' @ [CHR 0x5C] @ ''n('', ''nl_func_paren=Remove'', ''nl_fdef_brace=Add'', ''nl_struct_brace=Add'',
     ''nl_enum_brace=Add'', ''nl_union_brace=Add'', ''mod_full_brace_do=Add'', ''mod_full_brace_for=Add'',
     ''mod_full_brace_if=Add'', ''mod_full_brace_while=Add'', ''mod_full_brace_for=Add'',
     ''mod_remove_extra_semicolon=True'', ''# max code width'', ''#code_width=128'', ''#ls_for_split_full=True'',
     ''#ls_func_split_full=True'']"

definition level1 :: string where
  "level1 = unlines [[],
     ''# extra spaces here and there'', ''sp_brace_typedef=Add'', ''sp_enum_assign=Add'', ''sp_before_sparen=Add'',
     ''sp_after_semi_for=Add'', ''sp_arith=Add'', ''sp_assign=Add'', ''sp_compare=Add'', ''sp_func_class_paren=Add'',
     ''sp_after_type=Add'', ''sp_type_func=Add'', ''sp_angle_paren=Add'']"

definition level0 :: string where
  "level0 = unlines [[],
     ''sp_func_proto_paren=Add'', ''sp_func_def_paren=Add'', ''sp_func_call_paren=Add'', ''sp_after_semi_for=Ignore'',
     ''sp_before_sparen=Ignore'', ''sp_type_func=Ignore'', ''sp_after_type=Ignore'', ''nl_class_leave_one_liners=True'',
     ''nl_enum_leave_one_liners=True'', ''nl_func_leave_one_liners=True'', ''nl_assign_leave_one_liners=True'',
     ''#nl_collapse_empty_body=False'', ''nl_getset_leave_one_liners=True'', ''nl_if_leave_one_liners=True'',
     ''nl_fdef_brace=Ignore'', ''# finally, indentation configuration'', ''indent_with_tabs=0'',
     ''indent_namespace=false'', ''indent_columns=2'', ''indent_brace=2'', ''indent_case_brace=2'',
     ''indent_class=true'', ''indent_class_colon=True'', ''# alignment'', ''indent_align_assign=False'',
     ''align_left_shift=True'', ''# comment reformating disabled'',
     ''cmt_reflow_mode=1 # do not touch comments at all'',
     ''cmt_indent_multi=False # really, do not touch them'']"

definition uncrustify_config :: "int \<Rightarrow> string" where
  "uncrustify_config level =
     level0 @ (if level \<ge> 1 then level1 else []) @ (if level \<ge> 2 then level2 else [])"

section \<open>Patches\<close>

datatype line_type = Unset | Src | Dst | Both

record patch_line =
  pl_type :: line_type
  pl_line :: string

definition new_line :: patch_line where
  "new_line = \<lparr>pl_type = Unset, pl_line = []\<rparr>"

definition set_src :: "string \<Rightarrow> patch_line \<Rightarrow> patch_line" where "set_src s l = l\<lparr>pl_type := Src, pl_line := s\<rparr>"
definition set_dst :: "string \<Rightarrow> patch_line \<Rightarrow> patch_line" where "set_dst s l = l\<lparr>pl_type := Dst, pl_line := s\<rparr>"
definition set_both :: "string \<Rightarrow> patch_line \<Rightarrow> patch_line" where "set_both s l = l\<lparr>pl_type := Both, pl_line := s\<rparr>"
definition append_to_line :: "string \<Rightarrow> patch_line \<Rightarrow> patch_line" where "append_to_line s l = l\<lparr>pl_line := pl_line l @ s\<rparr>"
definition is_src :: "patch_line \<Rightarrow> bool" where "is_src l \<longleftrightarrow> pl_type l = Src \<or> pl_type l = Both"
definition is_dst :: "patch_line \<Rightarrow> bool" where "is_dst l \<longleftrightarrow> pl_type l = Dst \<or> pl_type l = Both"

lemmas line_defs = new_line_def set_src_def set_dst_def set_both_def append_to_line_def is_src_def is_dst_def

definition write_line :: "patch_line \<Rightarrow> py_exn + string" where
  "write_line l =
     (case pl_type l of
        Src \<Rightarrow> Inr (''-'' @ pl_line l @ newline)
      | Dst \<Rightarrow> Inr (''+'' @ pl_line l @ newline)
      | Both \<Rightarrow> Inr ('' '' @ pl_line l @ newline)
      | Unset \<Rightarrow> Inl (Exception ''invalid patch''))"

record chunk =
  src_pos :: nat
  dst_pos :: nat
  chunk_lines :: "patch_line list"

definition new_chunk :: "nat \<Rightarrow> nat \<Rightarrow> chunk" where
  "new_chunk s d = \<lparr>src_pos = s, dst_pos = d, chunk_lines = []\<rparr>"

definition add_line :: "patch_line \<Rightarrow> chunk \<Rightarrow> chunk" where
  "add_line l c = c\<lparr>chunk_lines := chunk_lines c @ [l]\<rparr>"

text \<open>\<open>src()\<close> and \<open>dst()\<close>: the positions of the lines of either side.\<close>

definition chunk_src :: "chunk \<Rightarrow> nat list" where
  "chunk_src c = filter (\<lambda>i. is_src (chunk_lines c ! i)) [0..<length (chunk_lines c)]"

definition chunk_dst :: "chunk \<Rightarrow> nat list" where
  "chunk_dst c = filter (\<lambda>i. is_dst (chunk_lines c ! i)) [0..<length (chunk_lines c)]"

definition chunk_header :: "chunk \<Rightarrow> string" where
  "chunk_header c =
     ''@@ -'' @ dec_digits (src_pos c) @ '','' @ dec_digits (length (chunk_src c)) @
     '' +'' @ dec_digits (dst_pos c) @ '','' @ dec_digits (length (chunk_dst c)) @ '' @@'' @ newline"

text \<open>What is written, one string for each call of \<open>write\<close>.\<close>

definition write_chunk :: "chunk \<Rightarrow> py_exn + string list" where
  "write_chunk c = py_bind (py_map write_line (chunk_lines c)) (\<lambda>ls. Inr (chunk_header c # ls))"

record patch =
  patch_src :: string
  patch_dst :: string
  patch_chunks :: "chunk list"

definition new_patch :: patch where
  "new_patch = \<lparr>patch_src = [], patch_dst = [], patch_chunks = []\<rparr>"

definition add_chunk :: "chunk \<Rightarrow> patch \<Rightarrow> patch" where
  "add_chunk c p = p\<lparr>patch_chunks := patch_chunks p @ [c]\<rparr>"

definition write_patch :: "patch \<Rightarrow> py_exn + string list" where
  "write_patch p =
     py_bind (py_map write_chunk (patch_chunks p)) (\<lambda>cs.
       Inr ([''--- '' @ patch_src p @ newline, ''+++ '' @ patch_dst p @ newline] @ concat cs))"
section \<open>Parsing a patch\<close>

text \<open>\<open>(.*)$\<close> after a prefix: everything up to the end or to a final newline.\<close>

definition rest_of_line :: "string \<Rightarrow> string \<Rightarrow> string option" where
  "rest_of_line pre line =
     (if starts_with line pre
      then let r = drop (length pre) line; body = takeWhile (\<lambda>c. c \<noteq> CHR 0x0A) r
           in if drop (length body) r = [] \<or> drop (length body) r = newline then Some body else None
      else None)"

definition match_text :: "string \<Rightarrow> string \<Rightarrow> string option" where
  "match_text p s = (if starts_with s p then Some (drop (length p) s) else None)"

definition match_chunk :: "string \<Rightarrow> (nat \<times> nat) option" where
  "match_chunk line =
     Option.bind (match_text ''@@ -'' line) (\<lambda>s.
     Option.bind (match_number s) (\<lambda>(a, s).
     Option.bind (match_text '','' s) (\<lambda>s.
     Option.bind (match_number s) (\<lambda>(b, s).
     Option.bind (match_text '' +'' s) (\<lambda>s.
     Option.bind (match_number s) (\<lambda>(c, s).
     Option.bind (match_text '','' s) (\<lambda>s.
     Option.bind (match_number s) (\<lambda>(d, s).
     Option.bind (match_text '' @@'' s) (\<lambda>s. Some (nat a, nat c))))))))))"

text \<open>
  \<open>current_patch\<close> is the last of \<open>patchset\<close>, \<open>None\<close> when there is none; \<open>current_chunk\<close> is
  unbound at first and afterwards refers to a chunk of some patch, by its positions.
\<close>

record patch_parser =
  patchset :: "patch list"
  current_chunk :: "(nat \<times> nat) option"

definition to_chunk :: "patch_line \<Rightarrow> patch_parser \<Rightarrow> py_exn + patch_parser" where
  "to_chunk l st =
     (case current_chunk st of
        None \<Rightarrow> Inl NameError
      | Some (i, j) \<Rightarrow>
          let p = patchset st ! i
          in Inr (st\<lparr>patchset := (patchset st)[i := p\<lparr>patch_chunks := (patch_chunks p)[j := add_line l (patch_chunks p ! j)]\<rparr>]\<rparr>))"

definition on_patch :: "(patch \<Rightarrow> patch) \<Rightarrow> patch_parser \<Rightarrow> py_exn + patch_parser" where
  "on_patch f st =
     (if patchset st = [] then Inl AttributeError
      else Inr (st\<lparr>patchset := butlast (patchset st) @ [f (last (patchset st))]\<rparr>))"

definition parse_line :: "string \<Rightarrow> patch_parser \<Rightarrow> py_exn + patch_parser" where
  "parse_line line st =
     (case rest_of_line ''--- '' line of
        Some f \<Rightarrow> Inr (st\<lparr>patchset := patchset st @ [new_patch\<lparr>patch_src := f\<rparr>]\<rparr>)
      | None \<Rightarrow>
     (case rest_of_line ''+++ '' line of
        Some f \<Rightarrow> on_patch (\<lambda>p. p\<lparr>patch_dst := f\<rparr>) st
      | None \<Rightarrow>
     (case match_chunk line of
        Some (s, d) \<Rightarrow>
          py_bind (on_patch (add_chunk (new_chunk s d)) st) (\<lambda>st.
            Inr (st\<lparr>current_chunk :=
              Some (length (patchset st) - 1, length (patch_chunks (last (patchset st))) - 1)\<rparr>))
      | None \<Rightarrow>
     (case rest_of_line ''-'' line of
        Some t \<Rightarrow> to_chunk (set_src t new_line) st
      | None \<Rightarrow>
     (case rest_of_line ''+'' line of
        Some t \<Rightarrow> to_chunk (set_dst t new_line) st
      | None \<Rightarrow>
     (case rest_of_line '' '' line of
        Some t \<Rightarrow> to_chunk (set_both t new_line) st
      | None \<Rightarrow> Inl (Exception [])))))))"

definition parse_patchset :: "string list \<Rightarrow> py_exn + patch list" where
  "parse_patchset lines =
     py_bind (py_fold parse_line lines \<lparr>patchset = [], current_chunk = None\<rparr>) (\<lambda>st. Inr (patchset st))"

subsection \<open>Written patches are read back\<close>

definition line_ok :: "patch_line \<Rightarrow> bool" where
  "line_ok l \<longleftrightarrow> pl_type l \<noteq> Unset \<and> CHR 0x0A \<notin> set (pl_line l) \<and>
     (pl_type l = Src \<longrightarrow> \<not> starts_with (pl_line l) ''-- '') \<and>
     (pl_type l = Dst \<longrightarrow> \<not> starts_with (pl_line l) ''++ '')"

definition patch_ok :: "patch \<Rightarrow> bool" where
  "patch_ok p \<longleftrightarrow> CHR 0x0A \<notin> set (patch_src p) \<and> CHR 0x0A \<notin> set (patch_dst p) \<and>
     (\<forall>c\<in>set (patch_chunks p). \<forall>l\<in>set (chunk_lines c). line_ok l)"

lemma rest_of_line_written:
  "CHR 0x0A \<notin> set s \<Longrightarrow> rest_of_line pre (pre @ s @ newline) = Some s"
proof -
  assume "CHR 0x0A \<notin> set s"
  then have "takeWhile (\<lambda>c. c \<noteq> CHR 0x0A) (s @ newline) = s" by (induction s) (auto simp: newline_def)
  then show ?thesis by (simp add: rest_of_line_def Let_def)
qed

lemma rest_of_line_other: "\<not> starts_with line pre \<Longrightarrow> rest_of_line pre line = None"
  by (simp add: rest_of_line_def)

lemma match_chunk_other: "\<not> starts_with line ''@@ -'' \<Longrightarrow> match_chunk line = None"
  by (simp add: match_chunk_def match_text_def)

lemma match_text_append [simp]: "match_text p (p @ s) = Some s"
  by (simp add: match_text_def)

lemma no_digit_first_Cons: "\<not> is_digit c \<Longrightarrow> no_digit_first (c # s)"
  by (simp add: no_digit_first_def)

lemma match_chunk_header: "match_chunk (chunk_header c) = Some (src_pos c, dst_pos c)"
proof -
  have nd: "no_digit_first ('','' @ s)" "no_digit_first ('' +'' @ s)" "no_digit_first ('' @@'' @ s)" for s
    by (simp_all add: no_digit_first_def is_digit_def)
  show ?thesis unfolding match_chunk_def chunk_header_def
    by (simp only: match_text_append match_number_append nd Option.bind.bind_lunit prod.case nat_int)
qed

lemma on_last:
  "xs \<noteq> [] \<Longrightarrow> butlast xs @ [f (last xs)] = xs[length xs - 1 := f (last xs)]"
  by (cases xs rule: rev_cases) simp_all
lemma parse_written_line:
  assumes "line_ok l" "write_line l = Inr t"
  shows "parse_line t st = to_chunk l st"
proof -
  obtain ty s where l: "l = \<lparr>pl_type = ty, pl_line = s\<rparr>" by (cases l)
  have nl: "CHR 0x0A \<notin> set s" using assms(1) by (simp add: line_ok_def l)
  note rw = rest_of_line_written [OF nl]
  consider "ty = Src" | "ty = Dst" | "ty = Both" using assms(1) by (cases ty) (auto simp: line_ok_def l)
  then show ?thesis
  proof cases
    case 1
    then have t: "t = ''-'' @ s @ newline" and ok: "\<not> starts_with s ''-- ''" using assms by (simp_all add: l write_line_def line_ok_def)
    have "\<not> starts_with t ''--- ''"
    proof
      assume "starts_with t ''--- ''"
      then obtain r where "s @ newline = ''-- '' @ r" unfolding starts_with_iff t by auto
      then have "\<exists>q. s = ''-- '' @ q" using nl by (cases s; cases "tl s"; cases "tl (tl s)") (auto simp: newline_def)
      with ok show False by (auto simp: starts_with_iff)
    qed
    then show ?thesis using 1 rw [of "''-''", folded t]
      by (simp add: parse_line_def rest_of_line_other match_chunk_other t starts_with_def line_defs l)
  next
    case 2
    then have t: "t = ''+'' @ s @ newline" and ok: "\<not> starts_with s ''++ ''" using assms by (simp_all add: l write_line_def line_ok_def)
    have "\<not> starts_with t ''+++ ''"
    proof
      assume "starts_with t ''+++ ''"
      then obtain r where "s @ newline = ''++ '' @ r" unfolding starts_with_iff t by auto
      then have "\<exists>q. s = ''++ '' @ q" using nl by (cases s; cases "tl s"; cases "tl (tl s)") (auto simp: newline_def)
      with ok show False by (auto simp: starts_with_iff)
    qed
    then show ?thesis using 2 rw [of "''+''", folded t]
      by (simp add: parse_line_def rest_of_line_other match_chunk_other t starts_with_def line_defs l)
  next
    case 3
    then have t: "t = '' '' @ s @ newline" using assms by (simp add: l write_line_def)
    then show ?thesis using 3 rw [of "'' ''", folded t]
      by (simp add: parse_line_def rest_of_line_other match_chunk_other t starts_with_def line_defs l)
  qed
qed

lemma line_writes: "line_ok l \<Longrightarrow> \<exists>t. write_line l = Inr t"
  by (cases "pl_type l") (auto simp: line_ok_def write_line_def)

lemma parse_written_lines:
  "(\<forall>l\<in>set ls. line_ok l) \<Longrightarrow> py_map write_line ls = Inr ts \<Longrightarrow>
   py_fold parse_line ts \<lparr>patchset = qs @ [p\<lparr>patch_chunks := cs @ [c]\<rparr>], current_chunk = Some (length qs, length cs)\<rparr> =
   Inr \<lparr>patchset = qs @ [p\<lparr>patch_chunks := cs @ [c\<lparr>chunk_lines := chunk_lines c @ ls\<rparr>]\<rparr>],
       current_chunk = Some (length qs, length cs)\<rparr>"
proof (induction ls arbitrary: ts c)
  case (Cons l ls)
  obtain t us where t: "write_line l = Inr t" "py_map write_line ls = Inr us" "ts = t # us" using Cons.prems(2) by auto
  then show ?case using Cons.IH [of us "add_line l c"] Cons.prems(1)
    by (simp add: parse_written_line [OF _ t(1)] to_chunk_def add_line_def)
qed simp

lemma parse_header:
  "parse_line (chunk_header c) \<lparr>patchset = qs @ [p], current_chunk = x\<rparr> =
   Inr \<lparr>patchset = qs @ [p\<lparr>patch_chunks := patch_chunks p @ [new_chunk (src_pos c) (dst_pos c)]\<rparr>],
       current_chunk = Some (length qs, length (patch_chunks p))\<rparr>"
proof -
  have "rest_of_line ''--- '' (chunk_header c) = None" "rest_of_line ''+++ '' (chunk_header c) = None"
    by (simp_all add: rest_of_line_def chunk_header_def starts_with_def)
  then show ?thesis by (simp add: parse_line_def match_chunk_header on_patch_def add_chunk_def)
qed

lemma parse_written_chunk:
  assumes "\<forall>l\<in>set (chunk_lines c). line_ok l" "write_chunk c = Inr ts"
  shows "py_fold parse_line ts \<lparr>patchset = qs @ [p], current_chunk = x\<rparr> =
    Inr \<lparr>patchset = qs @ [p\<lparr>patch_chunks := patch_chunks p @ [c]\<rparr>], current_chunk = Some (length qs, length (patch_chunks p))\<rparr>"
proof -
  obtain us where u: "py_map write_line (chunk_lines c) = Inr us" "ts = chunk_header c # us"
    using assms(2) by (auto simp: write_chunk_def)
  have "new_chunk (src_pos c) (dst_pos c)\<lparr>chunk_lines := chunk_lines c\<rparr> = c" by (cases c) (simp add: new_chunk_def)
  then show ?thesis
    using parse_written_lines [OF assms(1) u(1), where qs = qs and p = p and cs = "patch_chunks p"
        and c = "new_chunk (src_pos c) (dst_pos c)"]
    by (simp add: u(2) parse_header) (simp add: new_chunk_def)
qed

lemma parse_written_chunks:
  "(\<forall>c\<in>set cs. \<forall>l\<in>set (chunk_lines c). line_ok l) \<Longrightarrow> py_map write_chunk cs = Inr tss \<Longrightarrow>
   \<exists>y. py_fold parse_line (concat tss) \<lparr>patchset = qs @ [p], current_chunk = x\<rparr> =
     Inr \<lparr>patchset = qs @ [p\<lparr>patch_chunks := patch_chunks p @ cs\<rparr>], current_chunk = y\<rparr>"
proof (induction cs arbitrary: tss p x)
  case (Cons c cs)
  obtain t us where t: "write_chunk c = Inr t" "py_map write_chunk cs = Inr us" "tss = t # us" using Cons.prems(2) by auto
  have "\<forall>l\<in>set (chunk_lines c). line_ok l" using Cons.prems(1) by simp
  note pc = parse_written_chunk [OF this t(1), of qs p x]
  show ?case
    using Cons.IH [of us "p\<lparr>patch_chunks := patch_chunks p @ [c]\<rparr>"] Cons.prems(1) t(2)
    by (simp add: t(3) py_fold_append pc)
qed simp

lemma parse_written_patch:
  assumes "patch_ok p" "write_patch p = Inr ts"
  shows "\<exists>y. py_fold parse_line ts \<lparr>patchset = qs, current_chunk = x\<rparr> = Inr \<lparr>patchset = qs @ [p], current_chunk = y\<rparr>"
proof -
  obtain tss where t: "py_map write_chunk (patch_chunks p) = Inr tss"
    "ts = [''--- '' @ patch_src p @ newline, ''+++ '' @ patch_dst p @ newline] @ concat tss"
    using assms(2) by (auto simp: write_patch_def)
  have nl: "CHR 0x0A \<notin> set (patch_src p)" "CHR 0x0A \<notin> set (patch_dst p)"
    and ok: "\<forall>c\<in>set (patch_chunks p). \<forall>l\<in>set (chunk_lines c). line_ok l"
    using assms(1) by (auto simp: patch_ok_def)
  have 1: "parse_line (''--- '' @ patch_src p @ newline) \<lparr>patchset = qs, current_chunk = x\<rparr> =
      Inr \<lparr>patchset = qs @ [new_patch\<lparr>patch_src := patch_src p\<rparr>], current_chunk = x\<rparr>"
    unfolding parse_line_def rest_of_line_written [OF nl(1)] by simp
  have "rest_of_line ''--- '' (''+++ '' @ patch_dst p @ newline) = None" by (simp add: rest_of_line_def starts_with_def)
  then have 2: "parse_line (''+++ '' @ patch_dst p @ newline) \<lparr>patchset = qs @ [q], current_chunk = x\<rparr> =
      Inr \<lparr>patchset = qs @ [q\<lparr>patch_dst := patch_dst p\<rparr>], current_chunk = x\<rparr>" for q
    unfolding parse_line_def rest_of_line_written [OF nl(2)] by (simp add: on_patch_def)
  have p_eq: "\<lparr>patch_src = patch_src p, patch_dst = patch_dst p, patch_chunks = patch_chunks p\<rparr> = p" by simp
  then show ?thesis
    using parse_written_chunks [OF ok t(1), of qs "new_patch\<lparr>patch_src := patch_src p, patch_dst := patch_dst p\<rparr>" x]
    unfolding t(2) py_fold_append py_fold.simps 1 2 py_bind_simps by (simp add: new_patch_def p_eq del: patch.surjective)
qed

lemma short_header_raises: "parse_line (''@@ -'' @ dec_digits a @ '' +'' @ rest) st = Inl (Exception [])"
proof -
  have "no_digit_first ('' +'' @ rest)" by (simp add: no_digit_first_def is_digit_def)
  note m = match_number_append [OF this, of a]
  have "match_chunk (''@@ -'' @ dec_digits a @ '' +'' @ rest) = None"
    unfolding match_chunk_def match_text_append Option.bind.bind_lunit m prod.case
    by (simp add: match_text_def starts_with_def)
  then show ?thesis by (simp add: parse_line_def rest_of_line_def starts_with_def)
qed

text \<open>C32: A patch set that is written is parsed back to itself, whatever its file names, chunks
  and lines, provided that no text holds a newline, every line is of one of the three kinds,
  no line of the source side starts with \<open>-- \<close> and none of the destination side with \<open>++ \<close>,
  which would read as the name of a file. A chunk header that leaves out the length of the
  source side, as unified diffs do for a length of one, is not accepted: parsing raises.\<close>

theorem patch_roundtrip:
  assumes "\<forall>p\<in>set ps. patch_ok p"
  shows "(\<exists>tss. py_map write_patch ps = Inr tss \<and> parse_patchset (concat tss) = Inr ps) \<and>
    parse_patchset [''--- '' @ f @ newline, ''+++ '' @ g @ newline, ''@@ -'' @ dec_digits a @ '' +'' @ rest] \<noteq> Inr qs"
proof (intro conjI)
  show "parse_patchset [''--- '' @ f @ newline, ''+++ '' @ g @ newline, ''@@ -'' @ dec_digits a @ '' +'' @ rest] \<noteq> Inr qs"
    by (auto simp: parse_patchset_def short_header_raises simp del: append_Cons)
next
  have "\<exists>ts. py_map write_line ls = Inr ts" if "\<forall>l\<in>set ls. line_ok l" for ls
    using that by (induction ls) (auto dest!: line_writes)
  then have "\<exists>ts. write_chunk c = Inr ts" if "\<forall>l\<in>set (chunk_lines c). line_ok l" for c
    using that by (auto simp: write_chunk_def)
  then have "\<exists>ts. py_map write_chunk cs = Inr ts" if "\<forall>c\<in>set cs. \<forall>l\<in>set (chunk_lines c). line_ok l" for cs
    using that by (induction cs) auto
  then have w: "\<exists>ts. write_patch p = Inr ts" if "patch_ok p" for p
    using that by (auto simp: write_patch_def patch_ok_def)
  have "\<exists>tss. py_map write_patch ps = Inr tss \<and>
      (\<exists>y. py_fold parse_line (concat tss) \<lparr>patchset = qs, current_chunk = x\<rparr> = Inr \<lparr>patchset = qs @ ps, current_chunk = y\<rparr>)"
    for qs x using assms
  proof (induction ps arbitrary: qs x)
    case (Cons p ps)
    obtain ts where t: "write_patch p = Inr ts" using w Cons.prems by auto
    then obtain y where y: "py_fold parse_line ts \<lparr>patchset = qs, current_chunk = x\<rparr> = Inr \<lparr>patchset = qs @ [p], current_chunk = y\<rparr>"
      using parse_written_patch Cons.prems by fastforce
    obtain tss z where "py_map write_patch ps = Inr tss"
      "py_fold parse_line (concat tss) \<lparr>patchset = qs @ [p], current_chunk = y\<rparr> = Inr \<lparr>patchset = (qs @ [p]) @ ps, current_chunk = z\<rparr>"
      using Cons.IH [of "qs @ [p]" y] Cons.prems by auto
    then show ?case using t y by (simp add: py_fold_append)
  qed simp
  from this [of "[]" None] show "\<exists>tss. py_map write_patch ps = Inr tss \<and> parse_patchset (concat tss) = Inr ps"
    by (auto simp: parse_patchset_def)
qed

theorem patch_roundtrip_witness:
  "\<exists>tss. py_map write_patch [\<lparr>patch_src = ''a.cc'', patch_dst = ''b.cc'',
      patch_chunks = [\<lparr>src_pos = 3, dst_pos = 3, chunk_lines = [set_both ''x;'' new_line, set_src ''y; '' new_line, set_dst ''y;'' new_line]\<rparr>]\<rparr>]
      = Inr tss \<and> length (concat tss) = 6"
proof -
  define ps where "ps = [\<lparr>patch_src = ''a.cc'', patch_dst = ''b.cc'',
      patch_chunks = [\<lparr>src_pos = 3, dst_pos = 3, chunk_lines = [set_both ''x;'' new_line, set_src ''y; '' new_line, set_dst ''y;'' new_line]\<rparr>]\<rparr>]"
  have "\<forall>p\<in>set ps. patch_ok p" by (simp add: ps_def patch_ok_def line_ok_def line_defs starts_with_def)
  then obtain tss where "py_map write_patch ps = Inr tss" using patch_roundtrip by blast
  then show ?thesis unfolding ps_def by (auto simp: write_patch_def write_chunk_def write_line_def line_defs)
qed


section \<open>Changes of trailing white space\<close>

text \<open>\<open>^(.*)([ \t]+)$\<close> on a text without newline: the first group is greedy and leaves the
  second group the last character only.\<close>

definition match_whitespace :: "string \<Rightarrow> (string \<times> string) option" where
  "match_whitespace s =
     (if s \<noteq> [] \<and> last s \<in> set [CHR '' '', CHR 0x09] then Some (butlast s, [last s]) else None)"

definition restore_whitespace :: "nat \<Rightarrow> nat \<Rightarrow> patch_line list \<Rightarrow> patch_line list" where
  "restore_whitespace s d ls =
     (case match_whitespace (pl_line (ls ! s)) of
        Some (a, b) \<Rightarrow> (if a = pl_line (ls ! d) then ls[d := append_to_line b (ls ! d)] else ls)
      | None \<Rightarrow> ls)"

text \<open>The loop over the source side; the flag says that it ended with an \<open>IndexError\<close>.\<close>

fun strip_chunk :: "nat list \<Rightarrow> nat list \<Rightarrow> patch_line list \<Rightarrow> patch_line list \<times> bool" where
  "strip_chunk [] ds ls = (ls, False)"
| "strip_chunk (s # ss) [] ls = (ls, True)"
| "strip_chunk (s # ss) (d # ds) ls = strip_chunk ss ds (restore_whitespace s d ls)"

fun strip_chunks :: "chunk list \<Rightarrow> chunk list \<times> bool" where
  "strip_chunks [] = ([], False)"
| "strip_chunks (c # cs) =
     (case strip_chunk (chunk_src c) (chunk_dst c) (chunk_lines c) of
        (ls, True) \<Rightarrow> (c\<lparr>chunk_lines := ls\<rparr> # cs, True)
      | (ls, False) \<Rightarrow> (case strip_chunks cs of (cs, stopped) \<Rightarrow> (c\<lparr>chunk_lines := ls\<rparr> # cs, stopped)))"

fun strip_patches :: "patch list \<Rightarrow> patch list" where
  "strip_patches [] = []"
| "strip_patches (p # ps) =
     (case strip_chunks (patch_chunks p) of
        (cs, True) \<Rightarrow> p\<lparr>patch_chunks := cs\<rparr> # ps
      | (cs, False) \<Rightarrow> p\<lparr>patch_chunks := cs\<rparr> # strip_patches ps)"

definition remove_trailing_whitespace_changes :: "string list \<Rightarrow> py_exn + patch list" where
  "remove_trailing_whitespace_changes lines = py_bind (parse_patchset lines) (\<lambda>ps. Inr (strip_patches ps))"

text \<open>A line after the removal: the same, or a destination line with one character more.\<close>

definition restored :: "patch_line \<Rightarrow> patch_line \<Rightarrow> bool" where
  "restored l m \<longleftrightarrow> m = l \<or> (is_dst l \<and> (\<exists>c\<in>{CHR '' '', CHR 0x09}. m = append_to_line [c] l))"
definition restore_line :: "patch_line \<Rightarrow> patch_line \<Rightarrow> patch_line" where
  "restore_line s d =
     (if \<exists>w\<in>{CHR '' '', CHR 0x09}. pl_line s = pl_line d @ [w] then d\<lparr>pl_line := pl_line s\<rparr> else d)"

lemma restore_whitespace_line:
  "d < length ls \<Longrightarrow> restore_whitespace s d ls = ls[d := restore_line (ls ! s) (ls ! d)]"
proof -
  assume d: "d < length ls"
  let ?s = "pl_line (ls ! s)"
  show ?thesis
  proof (cases "\<exists>w\<in>{CHR '' '', CHR 0x09}. ?s = pl_line (ls ! d) @ [w]")
    case True
    then obtain w where w: "w \<in> {CHR '' '', CHR 0x09}" "?s = pl_line (ls ! d) @ [w]" by blast
    then have "match_whitespace ?s = Some (pl_line (ls ! d), [w])" by (auto simp: match_whitespace_def)
    then show ?thesis using True w by (simp add: restore_whitespace_def restore_line_def append_to_line_def)
  next
    case False
    have "restore_whitespace s d ls = ls"
    proof (cases "match_whitespace ?s")
      case (Some p)
      then have p: "p = (butlast ?s, [last ?s])" "?s \<noteq> []" "last ?s \<in> {CHR '' '', CHR 0x09}"
        by (simp_all add: match_whitespace_def split: if_split_asm)
      have "butlast ?s \<noteq> pl_line (ls ! d)"
      proof
        assume "butlast ?s = pl_line (ls ! d)"
        then have "?s = pl_line (ls ! d) @ [last ?s]" using append_butlast_last_id [OF p(2)] by simp
        with False p(3) show False by blast
      qed
      then show ?thesis by (simp add: restore_whitespace_def Some p(1))
    qed (simp add: restore_whitespace_def)
    moreover have "restore_line (ls ! s) (ls ! d) = ls ! d" using False by (simp add: restore_line_def)
    ultimately show ?thesis by simp
  qed
qed

lemma restored_restore_line: "is_dst d \<Longrightarrow> restored d (restore_line s d)"
  by (auto simp: restored_def restore_line_def append_to_line_def)

lemma strip_chunk_lines:
  "strip_chunk ss ds ls = (ls', b) \<Longrightarrow> distinct ds \<Longrightarrow> \<forall>d\<in>set ds. d < length ls \<and> is_dst (ls ! d) \<Longrightarrow>
   length ls' = length ls \<and>
   (\<forall>i < length ls. (i \<in> set ds \<longrightarrow> restored (ls ! i) (ls' ! i)) \<and> (i \<notin> set ds \<longrightarrow> ls' ! i = ls ! i))"
proof (induction ss ds ls rule: strip_chunk.induct)
  case (3 s ss d ds ls)
  have d: "d < length ls" "is_dst (ls ! d)" "d \<notin> set ds" using 3(3,4) by auto
  define ms where "ms = ls[d := restore_line (ls ! s) (ls ! d)]"
  have ms: "restore_whitespace s d ls = ms" using restore_whitespace_line [OF d(1)] by (simp add: ms_def)
  have "length ls' = length ms \<and> (\<forall>i < length ms. (i \<in> set ds \<longrightarrow> restored (ms ! i) (ls' ! i)) \<and> (i \<notin> set ds \<longrightarrow> ls' ! i = ms ! i))"
    using 3 d(3) by (intro 3(1) [unfolded ms]) (auto simp: ms ms_def nth_list_update)
  then have len: "length ls' = length ls" and ms_ls': "i < length ls \<Longrightarrow> (i \<in> set ds \<longrightarrow> restored (ms ! i) (ls' ! i)) \<and> (i \<notin> set ds \<longrightarrow> ls' ! i = ms ! i)" for i
    by (simp_all add: ms_def)
  have "(i \<in> set (d # ds) \<longrightarrow> restored (ls ! i) (ls' ! i)) \<and> (i \<notin> set (d # ds) \<longrightarrow> ls' ! i = ls ! i)" if "i < length ls" for i
  proof (cases "i = d")
    case True
    then show ?thesis using ms_ls' [OF that] d restored_restore_line [OF d(2), of "ls ! s"] by (simp add: ms_def)
  next
    case False
    then show ?thesis using ms_ls' [OF that] by (simp add: ms_def)
  qed
  then show ?case using len by blast
qed (auto simp: restored_def)

lemma strip_chunk_exact:
  "strip_chunk ss ds ls = (ls', b) \<Longrightarrow> distinct ds \<Longrightarrow> set ss \<inter> set ds = {} \<Longrightarrow>
   \<forall>d\<in>set ds. d < length ls \<and> is_dst (ls ! d) \<Longrightarrow> k < length ds \<Longrightarrow>
   ls' ! (ds ! k) = (if k < length ss then restore_line (ls ! (ss ! k)) (ls ! (ds ! k)) else ls ! (ds ! k))"
proof (induction ss ds ls arbitrary: k rule: strip_chunk.induct)
  case (3 s ss d ds ls)
  have d: "d < length ls" "is_dst (ls ! d)" "d \<notin> set ds" using 3(3,5) by auto
  define ms where "ms = ls[d := restore_line (ls ! s) (ls ! d)]"
  have ms: "restore_whitespace s d ls = ms" using restore_whitespace_line [OF d(1)] by (simp add: ms_def)
  have rest: "strip_chunk ss ds ms = (ls', b)" using 3(2) by (simp add: ms)
  have dst: "\<forall>e\<in>set ds. e < length ms \<and> is_dst (ms ! e)" using 3(5) d(3) by (auto simp: ms_def nth_list_update)
  show ?case
  proof (cases k)
    case 0
    have "ls' ! d = ms ! d" using strip_chunk_lines [OF rest _ dst] 3(3) d by (simp add: ms_def)
    then show ?thesis using 0 d(1) by (simp add: ms_def)
  next
    case (Suc j)
    have j: "j < length ds" using 3(6) Suc by simp
    then have e: "ds ! j \<noteq> d" using d(3) nth_mem by metis
    have s: "ss ! j \<noteq> d" if "j < length ss" using 3(4) that nth_mem by fastforce
    have "ls' ! (ds ! j) = (if j < length ss then restore_line (ms ! (ss ! j)) (ms ! (ds ! j)) else ms ! (ds ! j))"
      using 3(1) [unfolded ms, OF rest _ _ dst j] 3(3,4) by auto
    then show ?thesis using Suc e s by (cases "j < length ss") (simp_all add: ms_def)
  qed
qed auto

definition restored_chunk :: "chunk \<Rightarrow> chunk \<Rightarrow> bool" where
  "restored_chunk c d \<longleftrightarrow>
     src_pos d = src_pos c \<and> dst_pos d = dst_pos c \<and> list_all2 restored (chunk_lines c) (chunk_lines d)"

definition restored_patch :: "patch \<Rightarrow> patch \<Rightarrow> bool" where
  "restored_patch p q \<longleftrightarrow>
     patch_src q = patch_src p \<and> patch_dst q = patch_dst p \<and> list_all2 restored_chunk (patch_chunks p) (patch_chunks q)"

lemma restored_refl: "restored l l" "restored_chunk c c" "restored_patch p p"
  by (simp_all add: restored_def restored_chunk_def restored_patch_def list_all2_same)

lemma chunk_dst_props:
  "distinct (chunk_dst c)" "\<forall>d\<in>set (chunk_dst c). d < length (chunk_lines c) \<and> is_dst (chunk_lines c ! d)"
  by (auto simp: chunk_dst_def)

lemma strip_chunks_restored: "strip_chunks cs = (ds, b) \<Longrightarrow> list_all2 restored_chunk cs ds"
proof (induction cs arbitrary: ds b)
  case (Cons c cs)
  obtain ls s where s: "strip_chunk (chunk_src c) (chunk_dst c) (chunk_lines c) = (ls, s)" by fastforce
  have "list_all2 restored (chunk_lines c) ls"
    using strip_chunk_lines [OF s chunk_dst_props] by (auto simp: list_all2_conv_all_nth restored_refl)
  then have "restored_chunk c (c\<lparr>chunk_lines := ls\<rparr>)" by (simp add: restored_chunk_def)
  then show ?case using Cons s by (cases s) (auto simp: list_all2_same restored_refl split: prod.splits)
qed simp

lemma strip_patches_restored: "list_all2 restored_patch ps (strip_patches ps)"
proof (induction ps)
  case (Cons p ps)
  obtain cs b where c: "strip_chunks (patch_chunks p) = (cs, b)" by fastforce
  have "restored_patch p (p\<lparr>patch_chunks := cs\<rparr>)" using strip_chunks_restored [OF c] by (simp add: restored_patch_def)
  then show ?case using Cons c by (cases b) (auto simp: list_all2_same restored_refl)
qed simp

text \<open>C33: Removing the changes of trailing white space keeps every file name, position, chunk and
  line, except that a destination line may get one blank or tab back. In a chunk without
  common lines the k-th destination line becomes the k-th source line exactly when that is the
  same text followed by one blank or tab; a change that strips two or more stays.\<close>

theorem trailing_whitespace_restored:
  "list_all2 restored_patch ps (strip_patches ps) \<and>
   ((\<forall>l\<in>set (chunk_lines c). pl_type l \<noteq> Both) \<and> k < length (chunk_dst c) \<longrightarrow>
      fst (strip_chunk (chunk_src c) (chunk_dst c) (chunk_lines c)) ! (chunk_dst c ! k) =
        (let d = chunk_lines c ! (chunk_dst c ! k)
         in if k < length (chunk_src c) then restore_line (chunk_lines c ! (chunk_src c ! k)) d else d))"
proof (intro conjI impI)
  show "list_all2 restored_patch ps (strip_patches ps)" by (rule strip_patches_restored)
  assume a: "(\<forall>l\<in>set (chunk_lines c). pl_type l \<noteq> Both) \<and> k < length (chunk_dst c)"
  obtain ls b where s: "strip_chunk (chunk_src c) (chunk_dst c) (chunk_lines c) = (ls, b)" by fastforce
  have "set (chunk_src c) \<inter> set (chunk_dst c) = {}"
    using a by (auto simp: chunk_src_def chunk_dst_def is_src_def is_dst_def)
  from strip_chunk_exact [OF s chunk_dst_props(1) this chunk_dst_props(2)] a
  show "fst (strip_chunk (chunk_src c) (chunk_dst c) (chunk_lines c)) ! (chunk_dst c ! k) =
        (let d = chunk_lines c ! (chunk_dst c ! k)
         in if k < length (chunk_src c) then restore_line (chunk_lines c ! (chunk_src c ! k)) d else d)"
    by (simp add: s Let_def)
qed

definition demo_chunk :: chunk where
  "demo_chunk = \<lparr>src_pos = 1, dst_pos = 1, chunk_lines = [set_src ''a '' new_line, set_src ''b  '' new_line,
     set_dst ''a'' new_line, set_dst ''b'' new_line]\<rparr>"

theorem trailing_whitespace_restored_witness:
  "fst (strip_chunk (chunk_src demo_chunk) (chunk_dst demo_chunk) (chunk_lines demo_chunk)) ! 2 = set_dst ''a '' new_line \<and>
   fst (strip_chunk (chunk_src demo_chunk) (chunk_dst demo_chunk) (chunk_lines demo_chunk)) ! 3 = set_dst ''b'' new_line"
proof -
  have c: "chunk_src demo_chunk = [0, 1]" "chunk_dst demo_chunk = [2, 3]"
    by (simp_all add: chunk_src_def chunk_dst_def demo_chunk_def line_defs upt_rec)
  show ?thesis
    using trailing_whitespace_restored [of "[]" demo_chunk 0] trailing_whitespace_restored [of "[]" demo_chunk 1]
    unfolding c by (simp add: demo_chunk_def line_defs restore_line_def)
qed
section \<open>Indenting and comparing files\<close>

text \<open>
  The world: the contents of files; the lines that \<open>hg st -nma\<close> prints; \<open>uncrustify\<close> as a
  function from configuration and source to its output, \<open>None\<close> when it is not installed; the
  unified diff of two sequences of lines with the two names; \<open>patch\<close> as a function from a
  diff and a text to a text.
\<close>

record style_world =
  sw_files :: "string \<Rightarrow> string option"
  sw_hg :: "string list"
  sw_uncrustify :: "(string \<Rightarrow> string \<Rightarrow> string) option"
  sw_diff :: "string list \<Rightarrow> string list \<Rightarrow> string \<Rightarrow> string \<Rightarrow> string list"
  sw_patch :: "string \<Rightarrow> string \<Rightarrow> string"
  sw_temp :: string

definition hg_modified_files :: "style_world \<Rightarrow> string list" where
  "hg_modified_files w = map py_strip (sw_hg w)"

text \<open>\<open>readlines\<close>: the lines with their newlines.\<close>

fun readlines :: "string \<Rightarrow> string list" where
  "readlines [] = []"
| "readlines (c # s) =
     (if c = CHR 0x0A then [c] # readlines s
      else (case readlines s of [] \<Rightarrow> [[c]] | l # ls \<Rightarrow> (c # l) # ls))"

definition read_file :: "style_world \<Rightarrow> string \<Rightarrow> py_exn + string" where
  "read_file w path = (case sw_files w path of None \<Rightarrow> Inl (Exception ''IOError'') | Some s \<Rightarrow> Inr s)"

text \<open>The difference is a generator: with \<open>debug\<close> it is written to a file first, and is
  empty when it is read again.\<close>

definition indent :: "style_world \<Rightarrow> string \<Rightarrow> bool \<Rightarrow> int \<Rightarrow> py_exn + string" where
  "indent w source debug level =
     (case sw_uncrustify w of
        None \<Rightarrow> Inl (Exception ''uncrustify not installed'')
      | Some uncrustify \<Rightarrow>
          py_bind (read_file w source) (\<lambda>contents.
          let output = uncrustify (uncrustify_config level) contents;
              diff = sw_diff w (readlines contents) (readlines output) source (sw_temp w);
              diff = (if debug then [] else diff)
          in py_bind (if level < 3
                      then py_bind (remove_trailing_whitespace_changes diff) (\<lambda>ps.
                             if ps \<noteq> [] then py_bind (write_patch (hd ps)) (\<lambda>ls. Inr (concat ls)) else Inr [])
                      else Inr (concat diff))
               (\<lambda>final_diff. Inr (sw_patch w final_diff contents))))"

definition report_failed :: "style_world \<Rightarrow> bool \<Rightarrow> (string \<times> string) list \<Rightarrow> py_exn + string list" where
  "report_failed w diff failed =
     (if \<not> diff
      then Inr ((''Found '' @ dec_digits (length failed) @ '' badly indented files:'') # map (\<lambda>(src, dst). ''  '' @ src) failed)
      else py_bind (py_map (\<lambda>(src, dst). py_bind (read_file w src) (\<lambda>s.
             Inr (sw_diff w (readlines s) (readlines dst) src (sw_temp w)))) failed) (\<lambda>ds. Inr (concat ds)))"

text \<open>What is printed, the value returned, and the files.\<close>

definition indent_files ::
  "style_world \<Rightarrow> string list \<Rightarrow> bool \<Rightarrow> bool \<Rightarrow> int \<Rightarrow> bool \<Rightarrow> py_exn + (string list \<times> bool \<times> (string \<Rightarrow> string option))" where
  "indent_files w files diff debug level inplace =
     py_bind (py_map (\<lambda>f. py_bind (indent w f debug level) (\<lambda>dst. Inr (f, dst))) files) (\<lambda>output.
       if inplace then Inr ([], True, foldl (\<lambda>fs (src, dst). fs(src \<mapsto> dst)) (sw_files w) output)
       else let failed = filter (\<lambda>(src, dst). sw_files w src \<noteq> Some dst) output
            in if failed \<noteq> [] then py_bind (report_failed w diff failed) (\<lambda>out. Inr (out, False, sw_files w))
               else Inr ([], True, sw_files w))"

definition run_as_hg_hook :: "style_world \<Rightarrow> py_exn + bool" where
  "run_as_hg_hook w =
     py_bind (indent_files w (hg_modified_files w) False False 0 False) (\<lambda>(out, ok, fs). Inr (\<not> ok))"

record style_options =
  so_debug :: bool
  so_level :: int
  so_hg_hook :: bool
  so_hg :: bool
  so_file :: string
  so_diff :: bool
  so_in_place :: bool

text \<open>What is printed, the exit status, and the files.\<close>

definition run_as_main :: "style_world \<Rightarrow> style_options \<Rightarrow> py_exn + (string list \<times> int \<times> (string \<Rightarrow> string option))" where
  "run_as_main w opts =
     (if so_hg_hook opts
      then py_bind (indent_files w (hg_modified_files w) False (so_debug opts) (so_level opts) False) (\<lambda>(out, ok, fs).
             Inr (out, if ok then 0 else 1, fs))
      else if so_hg opts
      then py_bind (indent_files w (hg_modified_files w) (so_diff opts) (so_debug opts) (so_level opts) (so_in_place opts))
             (\<lambda>(out, ok, fs). Inr (out, 0, fs))
      else if so_file opts \<noteq> []
      then if sw_files w (so_file opts) = None
           then Inr ([''file '' @ so_file opts @ '' does not exist''], 1, sw_files w)
           else py_bind (indent_files w [so_file opts] (so_diff opts) (so_debug opts) (so_level opts) (so_in_place opts))
                  (\<lambda>(out, ok, fs). Inr (out, 0, fs))
      else Inr ([], 0, sw_files w))"

lemma py_map_pairs:
  "py_map (\<lambda>f. py_bind (g f) (\<lambda>y. Inr (f, y))) xs = Inr ps \<Longrightarrow> map fst ps = xs \<and> (\<forall>(f, y)\<in>set ps. g f = Inr y)"
  by (induction xs arbitrary: ps) auto

lemma indent_debug:
  "indent w f True level = Inr out \<Longrightarrow> \<exists>s. sw_files w f = Some s \<and> out = sw_patch w [] s"
  by (auto simp: indent_def read_file_def remove_trailing_whitespace_changes_def parse_patchset_def Let_def
      split: option.splits if_splits)

text \<open>As a commit hook the script exits with 1 exactly when the indented form of some
  modified file differs from the file. With \<open>--debug\<close>, provided that an empty patch changes
  nothing, it never does, because the difference has been used up by the debugging output;
  asked for one file or without the hook it exits with 0 whatever it finds.\<close>

theorem style_exit_status:
  assumes "run_as_main w opts = Inr (out, rc, fs)"
  shows "(so_hg_hook opts \<longrightarrow>
      (rc = 1 \<longleftrightarrow> (\<exists>f\<in>set (hg_modified_files w). \<exists>dst. indent w f (so_debug opts) (so_level opts) = Inr dst \<and> sw_files w f \<noteq> Some dst)) \<and>
      ((\<forall>s. sw_patch w [] s = s) \<and> so_debug opts \<longrightarrow> rc = 0) \<and> fs = sw_files w) \<and>
    (\<not> so_hg_hook opts \<and> (so_hg opts \<or> so_file opts = [] \<or> sw_files w (so_file opts) \<noteq> None) \<longrightarrow> rc = 0)"
proof (intro conjI impI)
  assume hook: "so_hg_hook opts"
  define ps where "ps = filter (\<lambda>(src, dst). sw_files w src \<noteq> Some dst)"
  obtain outs where o: "py_map (\<lambda>f. py_bind (indent w f (so_debug opts) (so_level opts)) (\<lambda>dst. Inr (f, dst))) (hg_modified_files w) = Inr outs"
    and rc: "rc = (if ps outs = [] then 0 else 1)" and files: "fs = sw_files w"
    using assms hook by (auto simp: run_as_main_def indent_files_def Let_def ps_def split: if_splits)
  note op = py_map_pairs [OF o]
  have files_set: "set (hg_modified_files w) = fst ` set outs" using op by (metis set_map)
  show bad: "rc = 1 \<longleftrightarrow> (\<exists>f\<in>set (hg_modified_files w). \<exists>dst. indent w f (so_debug opts) (so_level opts) = Inr dst \<and> sw_files w f \<noteq> Some dst)"
  proof
    assume "rc = 1"
    then obtain f dst where "(f, dst) \<in> set outs" "sw_files w f \<noteq> Some dst"
      using rc by (auto simp: ps_def filter_empty_conv split: if_splits)
    then show "\<exists>f\<in>set (hg_modified_files w). \<exists>dst. indent w f (so_debug opts) (so_level opts) = Inr dst \<and> sw_files w f \<noteq> Some dst"
      using op files_set by force
  next
    assume "\<exists>f\<in>set (hg_modified_files w). \<exists>dst. indent w f (so_debug opts) (so_level opts) = Inr dst \<and> sw_files w f \<noteq> Some dst"
    then obtain f dst where f: "f \<in> set (hg_modified_files w)" "indent w f (so_debug opts) (so_level opts) = Inr dst" "sw_files w f \<noteq> Some dst"
      by blast
    then obtain d where "(f, d) \<in> set outs" using files_set by auto
    moreover then have "d = dst" using op f(2) by auto
    ultimately show "rc = 1" using f(3) rc by (auto simp: ps_def filter_empty_conv)
  qed
  assume d: "(\<forall>s. sw_patch w [] s = s) \<and> so_debug opts"
  then have "\<not> (\<exists>f dst. indent w f (so_debug opts) (so_level opts) = Inr dst \<and> sw_files w f \<noteq> Some dst)"
    using indent_debug [of w _ "so_level opts"] by fastforce
  then show "rc = 0" using bad rc by (auto split: if_splits)
qed (use assms in \<open>auto simp: run_as_main_def indent_files_def Let_def split: if_splits\<close>)

definition demo_style_world :: style_world where
  "demo_style_world = \<lparr>sw_files = [''a.cc'' \<mapsto> ''x ;''], sw_hg = [''a.cc'' @ newline], sw_uncrustify = Some (\<lambda>cfg s. ''x;''),
     sw_diff = \<lambda>a b f g. [''@''], sw_patch = \<lambda>d s. if d = [] then s else ''x;'', sw_temp = ''tmp''\<rparr>"

definition demo_style_options :: "bool \<Rightarrow> style_options" where
  "demo_style_options debug = \<lparr>so_debug = debug, so_level = 3, so_hg_hook = True, so_hg = False, so_file = [],
     so_diff = False, so_in_place = False\<rparr>"

theorem style_exit_status_witness:
  "\<exists>out fs out' fs'. run_as_main demo_style_world (demo_style_options False) = Inr (out, 1, fs) \<and>
     run_as_main demo_style_world (demo_style_options True) = Inr (out', 0, fs') \<and> fs' = sw_files demo_style_world"
proof -
  have files: "hg_modified_files demo_style_world = [''a.cc'']"
    by (simp add: hg_modified_files_def demo_style_world_def py_strip_def newline_def is_space_def)
  have ind: "indent demo_style_world ''a.cc'' debug 3 = Inr (if debug then ''x ;'' else ''x;'')" for debug
    by (simp add: indent_def demo_style_world_def read_file_def)
  have "run_as_main demo_style_world (demo_style_options False) =
      Inr ([''Found '' @ dec_digits 1 @ '' badly indented files:'', ''  a.cc''], 1, sw_files demo_style_world)"
    by (simp add: run_as_main_def indent_files_def demo_style_options_def files ind)
      (simp add: demo_style_world_def report_failed_def ex_bool_eq)
  moreover have b: "run_as_main demo_style_world (demo_style_options True) = Inr ([], 0, sw_files demo_style_world)"
    by (simp add: run_as_main_def indent_files_def demo_style_options_def files ind) (simp add: demo_style_world_def ex_bool_eq)
  moreover have "so_debug (demo_style_options True) \<and> (\<forall>s. sw_patch demo_style_world [] s = s)"
    by (simp add: demo_style_options_def demo_style_world_def)
  ultimately show ?thesis using style_exit_status [OF b] by blast
qed

end
