(* ===== verification/Fct_Stats.thy ===== *)
theory Fct_Stats
  imports Py_Base Complex_Main
begin

text \<open>
  \<open>src/mix/get_victim_others_fct.py\<close> and \<open>get_victim_others_fct0-100kb.py\<close>: the flow completion
  times and slowdowns of the flows that share a switch with the incast (victims) and of the
  others, as averages and percentiles.

  A results file is the list of its rows, as \<open>pandas.read_csv\<close> parses them. Of pandas the
  scripts use the selection of rows by a condition, sorting by a column, and a look-up by
  label in a column whose labels are 0, 1, ...: a label that is not there raises \<open>KeyError\<close>.
  Numbers are rational; the products of the percentiles with the number of flows round to
  the same integers as those of floats for up to two million flows. \<open>show\<close> is Python's
  \<open>str\<close> on numbers.
\<close>

record flow_row =
  srcid :: int
  dstid :: int
  flow_size :: rat
  fct :: rat
  slowdown :: rat

definition victims :: "flow_row list \<Rightarrow> flow_row list" where
  "victims rows = filter (\<lambda>r. (1 \<le> dstid r \<and> dstid r \<le> 15) \<or> (0 \<le> srcid r \<and> srcid r \<le> 15)) rows"

definition others :: "flow_row list \<Rightarrow> flow_row list" where
  "others rows = filter (\<lambda>r. (16 \<le> dstid r \<and> dstid r \<le> 159) \<and> (16 \<le> srcid r \<and> srcid r \<le> 159)) rows"

definition small_flows :: "flow_row list \<Rightarrow> flow_row list" where
  "small_flows rows = filter (\<lambda>r. flow_size r \<le> 100000) rows"

text \<open>The scripts run under both versions of Python (the other scripts of the directory are started with \<open>python3\<close>), which
  round differently: Python 2 takes halves away from zero, Python 3 to the even neighbour.\<close>

datatype python_version = Python_2 | Python_3

fun py_round :: "python_version \<Rightarrow> rat \<Rightarrow> int" where
  "py_round Python_2 x = (if 0 \<le> x then \<lfloor>x + 1 / 2\<rfloor> else - \<lfloor>- x + 1 / 2\<rfloor>)"
| "py_round Python_3 x =
     (let f = \<lfloor>x\<rfloor>; d = x - rat_of_int f
      in if d < 1 / 2 then f else if 1 / 2 < d then f + 1 else if even f then f else f + 1)"

definition series_at :: "rat list \<Rightarrow> int \<Rightarrow> py_exn + rat" where
  "series_at col label = (if 0 \<le> label \<and> label < int (length col) then Inr (col ! nat label) else Inl KeyError)"

definition percentiles :: "rat list" where
  "percentiles = [25 / 100, 50 / 100, 90 / 100, 95 / 100, 99 / 100]"

definition percentile :: "python_version \<Rightarrow> rat list \<Rightarrow> rat \<Rightarrow> py_exn + rat" where
  "percentile ver col q = series_at col (py_round ver (q * rat_of_nat (length col)) - 1)"

definition column_stats :: "python_version \<Rightarrow> rat list \<Rightarrow> py_exn + rat list" where
  "column_stats ver col =
     py_bind (py_map (percentile ver col) percentiles) (\<lambda>ps. Inr (sum_list col * 1 / rat_of_nat (length col) # ps))"

definition stats_text :: "python_version \<Rightarrow> (rat \<Rightarrow> string) \<Rightarrow> string \<Rightarrow> rat list \<Rightarrow> py_exn + string list" where
  "stats_text ver show title col =
     py_bind (column_stats ver (sort col)) (\<lambda>vs. Inr ((title @ [CHR 0x0A]) # map (\<lambda>v. show v @ [CHR 0x0A]) vs))"

definition group_text ::
  "python_version \<Rightarrow> (rat \<Rightarrow> string) \<Rightarrow> string \<Rightarrow> string \<Rightarrow> (flow_row \<Rightarrow> rat) \<Rightarrow> flow_row list \<Rightarrow> flow_row list \<Rightarrow> py_exn + string list" where
  "group_text ver show ff what col vs os =
     py_bind (stats_text ver show (''poisson victime avg 25th 50th 90th 95th 99th '' @ what @ '':'') (map col vs)) (\<lambda>a.
     py_bind (stats_text ver show (''poisson others avg 25th 50th 90th 95th 99th '' @ what @ '':'') (map col os)) (\<lambda>b.
       Inr ((ff @ ''=================================='' @ [CHR 0x0A]) # a @ b)))"

text \<open>What one results file adds to the two output files.\<close>

definition groups_report ::
  "python_version \<Rightarrow> (rat \<Rightarrow> string) \<Rightarrow> string \<Rightarrow> flow_row list \<Rightarrow> flow_row list \<Rightarrow> py_exn + (string list \<times> string list)" where
  "groups_report ver show ff vs os =
     (if length os = 0 \<or> length vs = 0 then Inr ([], [])
      else py_bind (group_text ver show ff ''fct'' fct vs os) (\<lambda>a.
           py_bind (group_text ver show ff ''slowdown'' slowdown vs os) (\<lambda>b. Inr (a, b))))"

definition file_report :: "python_version \<Rightarrow> (rat \<Rightarrow> string) \<Rightarrow> string \<Rightarrow> flow_row list \<Rightarrow> py_exn + (string list \<times> string list)" where
  "file_report ver show ff rows = groups_report ver show ff (victims rows) (others rows)"

definition file_report_0_100kb :: "python_version \<Rightarrow> (rat \<Rightarrow> string) \<Rightarrow> string \<Rightarrow> flow_row list \<Rightarrow> py_exn + (string list \<times> string list)" where
  "file_report_0_100kb ver show ff rows =
     groups_report ver show ff (small_flows (victims rows)) (small_flows (others rows))"

definition all_reports ::
  "(string \<Rightarrow> flow_row list \<Rightarrow> py_exn + (string list \<times> string list)) \<Rightarrow> string \<Rightarrow> (string \<times> flow_row list) list
     \<Rightarrow> py_exn + (string list \<times> string list)" where
  "all_reports report pattern files =
     py_fold (\<lambda>(ff, rows) (a, b). py_bind (report ff rows) (\<lambda>(x, y). Inr (a @ x, b @ y)))
       (filter (\<lambda>(ff, rows). is_substring pattern ff) files) ([], [])"

definition get_victim_others_fct ::
  "python_version \<Rightarrow> (rat \<Rightarrow> string) \<Rightarrow> string \<Rightarrow> (string \<times> flow_row list) list \<Rightarrow> py_exn + (string list \<times> string list)" where
  "get_victim_others_fct ver show = all_reports (file_report ver show)"

definition get_victim_others_fct0_100kb ::
  "python_version \<Rightarrow> (rat \<Rightarrow> string) \<Rightarrow> string \<Rightarrow> (string \<times> flow_row list) list \<Rightarrow> py_exn + (string list \<times> string list)" where
  "get_victim_others_fct0_100kb ver show = all_reports (file_report_0_100kb ver show)"

section \<open>Percentiles are order statistics\<close>

text \<open>The groups for which the first percentile asks for the row before the first.\<close>

definition too_few :: "python_version \<Rightarrow> nat \<Rightarrow> bool" where
  "too_few ver n \<longleftrightarrow> n = 1 \<or> ver = Python_3 \<and> n = 2"

lemma rank_bounds:
  assumes "n \<noteq> 0" "\<not> too_few ver n" "q \<in> set percentiles"
  shows "1 \<le> py_round ver (q * rat_of_nat n) \<and> py_round ver (q * rat_of_nat n) \<le> int n"
proof -
  define x where "x = q * rat_of_nat n"
  have q: "1 / 4 \<le> q" "q \<le> 99 / 100" using assms(3) by (auto simp: percentiles_def)
  have "0 < rat_of_nat n" using assms(1) by simp
  then have "q * rat_of_nat n < 1 * rat_of_nat n" using q by (intro mult_strict_right_mono) auto
  then have hi: "\<lfloor>x\<rfloor> < int n" unfolding x_def floor_less_iff by simp
  have lo: "1 / 4 * rat_of_nat n \<le> x" unfolding x_def using q by (intro mult_right_mono) auto
  have x0: "0 \<le> x" using q by (simp add: x_def)
  show ?thesis
  proof (cases ver)
    case Python_2
    then have "2 \<le> n" using assms(1,2) by (simp add: too_few_def)
    then have "(2 :: rat) \<le> rat_of_nat n" by (metis of_nat_le_iff of_nat_numeral)
    then have "1 \<le> \<lfloor>x + 1 / 2\<rfloor>" using lo by (simp add: le_floor_iff)
    moreover have "\<lfloor>x + 1 / 2\<rfloor> \<le> \<lfloor>x\<rfloor> + 1" by linarith
    ultimately show ?thesis using hi Python_2 x0 by (simp add: x_def [symmetric])
  next
    case Python_3
    then have "3 \<le> n" using assms(1,2) by (simp add: too_few_def)
    then have "(3 :: rat) \<le> rat_of_nat n" by (metis of_nat_le_iff of_nat_numeral)
    then have "1 / 2 < x" using lo by linarith
    then have "1 \<le> \<lfloor>x\<rfloor> \<or> \<lfloor>x\<rfloor> = 0 \<and> 1 / 2 < x - rat_of_int \<lfloor>x\<rfloor>" by linarith
    moreover have "1 \<le> \<lfloor>x\<rfloor> \<or> \<lfloor>x\<rfloor> = 0 \<Longrightarrow> \<lfloor>x\<rfloor> + 1 \<le> int n" using hi by linarith
    ultimately show ?thesis using hi unfolding x_def [symmetric] Python_3 py_round.simps Let_def by (simp del: le_floor_iff one_le_floor) auto
  qed
qed

text \<open>A value of rank k: at least k values are no greater, fewer than k are smaller.\<close>

definition has_rank :: "rat list \<Rightarrow> nat \<Rightarrow> rat \<Rightarrow> bool" where
  "has_rank col k v \<longleftrightarrow> v \<in> set col \<and> k \<le> length (filter (\<lambda>x. x \<le> v) col) \<and> length (filter (\<lambda>x. x < v) col) < k"

lemma sorted_rank:
  assumes "sorted xs" "i < length xs"
  shows "has_rank xs (Suc i) (xs ! i)"
proof -
  have "filter (\<lambda>x. x \<le> xs ! i) (take (Suc i) xs) = take (Suc i) xs"
    using assms by (auto simp: filter_id_conv in_set_conv_nth sorted_nth_mono)
  then have "length (take (Suc i) xs) \<le> length (filter (\<lambda>x. x \<le> xs ! i) (take (Suc i) xs @ drop (Suc i) xs))"
    by (simp only: filter_append length_append)
  then have 1: "Suc i \<le> length (filter (\<lambda>x. x \<le> xs ! i) xs)" using assms(2) by simp
  have "filter (\<lambda>x. x < xs ! i) (drop i xs) = []"
    using assms by (auto simp: filter_empty_conv in_set_conv_nth not_less sorted_nth_mono)
  then have "length (filter (\<lambda>x. x < xs ! i) (take i xs @ drop i xs)) = length (filter (\<lambda>x. x < xs ! i) (take i xs))"
    by (simp only: filter_append) simp
  then have "length (filter (\<lambda>x. x < xs ! i) xs) \<le> i" by (metis append_take_drop_id length_filter_le length_take min.bounded_iff)
  then show ?thesis using 1 assms(2) by (simp add: has_rank_def)
qed

lemma has_rank_sort: "has_rank (sort xs) k v = has_rank xs k v"
proof -
  have "length (filter P (sort xs)) = length (filter P xs)" for P
    by (metis filter_sort length_sort)
  then show ?thesis by (simp add: has_rank_def)
qed

lemma py_map_list_all2: "list_all2 (\<lambda>x y. f x = Inr y) xs ys \<Longrightarrow> py_map f xs = Inr ys"
  by (induction rule: list_all2_induct) simp_all

lemma column_stats_ranks:
  assumes "length col \<noteq> 0" "\<not> too_few ver (length col)"
  shows "\<exists>ps. column_stats ver (sort col) = Inr (sum_list col / rat_of_nat (length col) # ps) \<and>
    list_all2 (\<lambda>q v. has_rank col (nat (py_round ver (q * rat_of_nat (length col)))) v) percentiles ps"
proof -
  define k where "k q = nat (py_round ver (q * rat_of_nat (length col)))" for q
  define ps where "ps = map (\<lambda>q. sort col ! (k q - 1)) percentiles"
  have one: "percentile ver (sort col) q = Inr (sort col ! (k q - 1)) \<and> has_rank col (k q) (sort col ! (k q - 1))"
    if "q \<in> set percentiles" for q
  proof -
    have r: "1 \<le> py_round ver (q * rat_of_nat (length col))" "py_round ver (q * rat_of_nat (length col)) \<le> int (length col)"
      using rank_bounds [OF assms that] by simp_all
    then have "k q = Suc (k q - 1)" "k q - 1 < length (sort col)" by (auto simp: k_def)
    then have "has_rank col (k q) (sort col ! (k q - 1))"
      using sorted_rank [of "sort col" "k q - 1"] by (simp add: has_rank_sort)
    moreover have "percentile ver (sort col) q = Inr (sort col ! (k q - 1))"
      using r by (simp add: percentile_def series_at_def k_def nat_diff_distrib)
    ultimately show ?thesis by blast
  qed
  have "py_map (percentile ver (sort col)) percentiles = Inr ps"
    unfolding ps_def by (rule py_map_Inr) (use one in blast)
  moreover have "sum_list (sort col) = sum_list col" by (metis mset_sort sum_mset_sum_list)
  moreover have "list_all2 (\<lambda>q v. has_rank col (k q) v) percentiles ps"
    unfolding ps_def list_all2_map2 list_all2_same using one by blast
  ultimately show ?thesis by (simp add: column_stats_def k_def)
qed

lemma first_rank_few: "too_few ver n \<Longrightarrow> py_round ver (25 / 100 * rat_of_nat n) = 0"
proof -
  have "\<lfloor>1 / 4 :: rat\<rfloor> = 0" "\<lfloor>1 / 2 :: rat\<rfloor> = 0" "\<lfloor>3 / 4 :: rat\<rfloor> = 0" by (simp_all add: floor_eq_iff)
  then show "too_few ver n \<Longrightarrow> py_round ver (25 / 100 * rat_of_nat n) = 0"
    by (cases ver) (auto simp: too_few_def)
qed

lemma column_stats_few: "too_few ver (length col) \<Longrightarrow> column_stats ver col = Inl KeyError"
proof -
  assume "too_few ver (length col)"
  then have "percentile ver col (25 / 100) = Inl KeyError" by (simp only: percentile_def first_rank_few) (simp add: series_at_def)
  then show ?thesis by (simp only: column_stats_def percentiles_def py_map.simps py_bind_simps)
qed

section \<open>The report on one results file\<close>

definition is_stats :: "python_version \<Rightarrow> rat list \<Rightarrow> rat list \<Rightarrow> bool" where
  "is_stats ver col vs \<longleftrightarrow> (\<exists>ps. vs = sum_list col / rat_of_nat (length col) # ps \<and>
     list_all2 (\<lambda>q v. has_rank col (nat (py_round ver (q * rat_of_nat (length col)))) v) percentiles ps)"

definition report_lines :: "(rat \<Rightarrow> string) \<Rightarrow> string \<Rightarrow> string \<Rightarrow> rat list \<Rightarrow> rat list \<Rightarrow> string list" where
  "report_lines show ff what vs os =
     (ff @ ''=================================='' @ [CHR 0x0A])
     # (''poisson victime avg 25th 50th 90th 95th 99th '' @ what @ '':'' @ [CHR 0x0A]) # map (\<lambda>v. show v @ [CHR 0x0A]) vs
     @ (''poisson others avg 25th 50th 90th 95th 99th '' @ what @ '':'' @ [CHR 0x0A]) # map (\<lambda>v. show v @ [CHR 0x0A]) os"

lemma column_stats_is_stats:
  "length col \<noteq> 0 \<Longrightarrow> \<not> too_few ver (length col) \<Longrightarrow> \<exists>vs. column_stats ver (sort col) = Inr vs \<and> is_stats ver col vs"
  using column_stats_ranks [of col ver] by (auto simp: is_stats_def)

lemma group_text_lines:
  assumes "vs \<noteq> []" "os \<noteq> []" "\<not> too_few ver (length vs)" "\<not> too_few ver (length os)"
  shows "\<exists>a b. group_text ver show ff what col vs os = Inr (report_lines show ff what a b) \<and>
    is_stats ver (map col vs) a \<and> is_stats ver (map col os) b"
proof -
  obtain a b where "column_stats ver (sort (map col vs)) = Inr a" "is_stats ver (map col vs) a"
      "column_stats ver (sort (map col os)) = Inr b" "is_stats ver (map col os) b"
    using column_stats_is_stats [of "map col vs" ver] column_stats_is_stats [of "map col os" ver] assms by auto
  then show ?thesis by (auto simp: group_text_def stats_text_def report_lines_def)
qed

lemma group_text_few:
  assumes "vs \<noteq> []" "os \<noteq> []" "too_few ver (length vs) \<or> too_few ver (length os)"
  shows "group_text ver show ff what col vs os = Inl KeyError"
proof (cases "too_few ver (length vs)")
  case True
  then show ?thesis by (simp add: group_text_def stats_text_def column_stats_few)
next
  case False
  then obtain w where "column_stats ver (sort (map col vs)) = Inr w"
    using column_stats_is_stats [of "map col vs" ver] assms(1) by auto
  then show ?thesis using False assms(3) by (simp add: group_text_def stats_text_def column_stats_few)
qed

lemma groups_disjoint: "set (victims rows) \<inter> set (others rows) = {}"
  by (auto simp: victims_def others_def)

lemma small_groups:
  "small_flows (victims rows) = victims (small_flows rows)" "small_flows (others rows) = others (small_flows rows)"
  by (auto simp: small_flows_def victims_def others_def intro: filter_cong)

text \<open>C35: No flow is counted both as a victim and among the others. A results file in which
  either group is empty adds nothing; one in which both have flows and one of them a single flow, or under Python 3 two flows
  (a quarter of which rounds to 0 there),
  stops the script with \<open>KeyError\<close>, the row before the first being asked for; otherwise the
  two outputs get, for each group, the average of the column and the five percentiles, each
  one a value of the rank asked for, as the version of Python rounds it. The second script reports what the first would on the
  flows of at most 100 kB.\<close>

theorem fct_report:
  "set (victims rows) \<inter> set (others rows) = {} \<and>
   (victims rows = [] \<or> others rows = [] \<longrightarrow> file_report ver show_num ff rows = Inr ([], [])) \<and>
   (victims rows \<noteq> [] \<and> others rows \<noteq> [] \<longrightarrow>
     (if too_few ver (length (victims rows)) \<or> too_few ver (length (others rows)) then file_report ver show_num ff rows = Inl KeyError
      else \<exists>a b c d.
        is_stats ver (map fct (victims rows)) a \<and> is_stats ver (map fct (others rows)) b \<and>
        is_stats ver (map slowdown (victims rows)) c \<and> is_stats ver (map slowdown (others rows)) d \<and>
        file_report ver show_num ff rows = Inr (report_lines show_num ff ''fct'' a b, report_lines show_num ff ''slowdown'' c d))) \<and>
   file_report_0_100kb ver show_num ff rows = file_report ver show_num ff (small_flows rows)"
proof (intro conjI impI)
  assume some: "victims rows \<noteq> [] \<and> others rows \<noteq> []"
  show "if too_few ver (length (victims rows)) \<or> too_few ver (length (others rows)) then file_report ver show_num ff rows = Inl KeyError
      else \<exists>a b c d.
        is_stats ver (map fct (victims rows)) a \<and> is_stats ver (map fct (others rows)) b \<and>
        is_stats ver (map slowdown (victims rows)) c \<and> is_stats ver (map slowdown (others rows)) d \<and>
        file_report ver show_num ff rows = Inr (report_lines show_num ff ''fct'' a b, report_lines show_num ff ''slowdown'' c d)"
  proof (cases "too_few ver (length (victims rows)) \<or> too_few ver (length (others rows))")
    case True
    then show ?thesis using some group_text_few by (simp add: file_report_def groups_report_def)
  next
    case False
    obtain a b c d where ab: "group_text ver show_num ff ''fct'' fct (victims rows) (others rows) = Inr (report_lines show_num ff ''fct'' a b)"
        "is_stats ver (map fct (victims rows)) a" "is_stats ver (map fct (others rows)) b"
      and cd: "group_text ver show_num ff ''slowdown'' slowdown (victims rows) (others rows) = Inr (report_lines show_num ff ''slowdown'' c d)"
        "is_stats ver (map slowdown (victims rows)) c" "is_stats ver (map slowdown (others rows)) d"
      using group_text_lines False some by metis
    have "file_report ver show_num ff rows = Inr (report_lines show_num ff ''fct'' a b, report_lines show_num ff ''slowdown'' c d)"
      using some ab(1) cd(1) by (auto simp: file_report_def groups_report_def)
    then show ?thesis unfolding if_not_P [OF False] using ab cd by blast
  qed
qed (auto simp: file_report_def groups_report_def groups_disjoint file_report_0_100kb_def small_groups)

definition demo_flow :: "int \<Rightarrow> int \<Rightarrow> rat \<Rightarrow> flow_row" where
  "demo_flow s d t = \<lparr>srcid = s, dstid = d, flow_size = 1000, fct = t, slowdown = t / 2\<rparr>"

theorem fct_report_witness:
  "(\<exists>r. file_report Python_2 (\<lambda>_. ''n'') ''f'' [demo_flow 3 20 9, demo_flow 20 7 4, demo_flow 30 31 8, demo_flow 40 41 6] = Inr r) \<and>
   file_report Python_3 (\<lambda>_. ''n'') ''f'' [demo_flow 3 20 9, demo_flow 20 7 4, demo_flow 30 31 8, demo_flow 40 41 6] = Inl KeyError \<and>
   file_report Python_2 (\<lambda>_. ''n'') ''f'' [demo_flow 3 20 9] = Inr ([], [])"
proof (intro conjI)
  let ?rows = "[demo_flow 3 20 9, demo_flow 20 7 4, demo_flow 30 31 8, demo_flow 40 41 6]"
  show "\<exists>r. file_report Python_2 (\<lambda>_. ''n'') ''f'' ?rows = Inr r"
    using fct_report [of ?rows Python_2 "\<lambda>_. ''n''" "''f''"]
    by (fastforce simp: victims_def others_def demo_flow_def too_few_def)
  show "file_report Python_3 (\<lambda>_. ''n'') ''f'' ?rows = Inl KeyError"
    using fct_report [of ?rows Python_3 "\<lambda>_. ''n''" "''f''"]
    by (simp add: victims_def others_def demo_flow_def too_few_def)
  show "file_report Python_2 (\<lambda>_. ''n'') ''f'' [demo_flow 3 20 9] = Inr ([], [])"
    using fct_report [of "[demo_flow 3 20 9]" Python_2 "\<lambda>_. ''n''" "''f''"]
    by (simp add: victims_def others_def demo_flow_def)
qed

end
