(* ===== verification/Run_Config.thy ===== *)
theory Run_Config
  imports Py_Base Complex_Main
begin

text \<open>
  \<open>src/run.py\<close>: writes the configuration of one simulation from its template, with the
  parameters of the congestion control asked for, and starts the simulator on it.

  \<open>str.format\<close> is modelled with the mark-up the template uses: fields that are plain names, and
  doubled braces. \<open>show_float\<close> is Python's text for the quotient of two numbers. The files
  are a map from names to contents, and what is run is the command given to the shell.
\<close>

section \<open>The template\<close>

definition config_lines :: "string list" where
  "config_lines =
    [''ENABLE_QCN 1'',
     ''USE_DYNAMIC_PFC_THRESHOLD 1'',
     '''',
     ''PACKET_PAYLOAD_SIZE 1000'',
     '''',
     ''TOPOLOGY_FILE mix/{topo}.txt'',
     ''FLOW_FILE mix/{trace}.txt'',
     ''TRACE_FILE mix/trace.txt'',
     ''TRACE_OUTPUT_FILE mix/mix_{topo}_{trace}_{cc}{failure}.tr'',
     ''FCT_OUTPUT_FILE mix/fct_{topo}_{trace}_{cc}{failure}.txt'',
     ''PFC_OUTPUT_FILE mix/pfc_{topo}_{trace}_{cc}{failure}.txt'',
     '''',
     ''SIMULATOR_STOP_TIME 4.00'',
     '''',
     ''CC_MODE {mode}'',
     ''ALPHA_RESUME_INTERVAL {t_alpha}'',
     ''RATE_DECREASE_INTERVAL {t_dec}'',
     ''CLAMP_TARGET_RATE 0'',
     ''RP_TIMER {t_inc}'',
     ''EWMA_GAIN {g}'',
     ''FAST_RECOVERY_TIMES 1'',
     ''RATE_AI {ai}Mb/s'',
     ''RATE_HAI {hai}Mb/s'',
     ''MIN_RATE 100Mb/s'',
     ''DCTCP_RATE_AI {dctcp_ai}Mb/s'',
     '''',
     ''ERROR_RATE_PER_LINK 0.0000'',
     ''L2_CHUNK_SIZE 4000'',
     ''L2_ACK_INTERVAL 1'',
     ''L2_BACK_TO_ZERO 0'',
     '''',
     ''HAS_WIN {has_win}'',
     ''GLOBAL_T 1'',
     ''VAR_WIN {vwin}'',
     ''FAST_REACT {us}'',
     ''U_TARGET {u_tgt}'',
     ''MI_THRESH {mi}'',
     ''INT_MULTI {int_multi}'',
     ''MULTI_RATE 0'',
     ''SAMPLE_FEEDBACK 0'',
     '''',
     ''RATE_BOUND 1'',
     '''',
     ''ACK_HIGH_PRIO {ack_prio}'',
     '''',
     ''LINK_DOWN {link_down}'',
     '''',
     ''ENABLE_TRACE 1'',
     '''',
     ''KMAX_MAP {kmax_map}'',
     ''KMIN_MAP {kmin_map}'',
     ''PMAX_MAP {pmax_map}'',
     ''BUFFER_SIZE {buffer_size}'',
     ''QLEN_MON_FILE mix/qlen_{topo}_{trace}_{cc}{failure}.txt'',
     ''QLEN_MON_START 2000000000'',
     ''QLEN_MON_END 3000000000'']"

definition config_template :: string where
  "config_template = concat (map (\<lambda>l. l @ newline) config_lines)"

function format_str :: "string \<Rightarrow> (string, string) dict \<Rightarrow> py_exn + string" where
  "format_str [] kw = Inr []"
| "format_str (c # s) kw =
     (if c = CHR ''{'' \<or> c = CHR ''}'' then
        if s \<noteq> [] \<and> hd s = c then py_bind (format_str (tl s) kw) (\<lambda>r. Inr (c # r))
        else if c = CHR ''}'' \<or> CHR ''}'' \<notin> set s then Inl ValueError
        else py_bind (dict_lookup kw (takeWhile (\<lambda>x. x \<noteq> CHR ''}'') s)) (\<lambda>v.
             py_bind (format_str (tl (dropWhile (\<lambda>x. x \<noteq> CHR ''}'') s)) kw) (\<lambda>r. Inr (v @ r)))
      else py_bind (format_str s kw) (\<lambda>r. Inr (c # r)))"
  by pat_completeness auto
termination
  by (relation "measure (length \<circ> fst)") (auto simp: less_Suc_eq_le intro: order.trans [OF diff_le_self length_dropWhile_le])

section \<open>The parameters of each congestion control\<close>

record run_args =
  cc :: string
  trace :: string
  bw_text :: string
  down :: string
  topo :: string
  utgt :: int
  mi :: int
  hpai :: int

definition default_args :: run_args where
  "default_args = \<lparr>cc = ''hp'', trace = ''flow'', bw_text = ''50'', down = ''0 0 0'', topo = ''fat'', utgt = 95, mi = 0, hpai = 0\<rparr>"

record cc_setting =
  cc_name :: string
  mode :: int
  t_alpha :: int
  t_dec :: int
  t_inc :: int
  ewma_g :: string
  ai :: int
  hai :: int
  dctcp_ai :: int
  has_win :: int
  vwin :: int
  us :: int
  int_multi :: int
  ack_prio :: int
  kmax_map :: string
  kmin_map :: string
  pmax_map :: string

definition failure :: "run_args \<Rightarrow> string" where
  "failure args = (if down args \<noteq> ''0 0 0'' then ''_down'' else [])"

definition config_name :: "run_args \<Rightarrow> string \<Rightarrow> string" where
  "config_name args name =
     ''mix/config_'' @ topo args @ ''_'' @ trace args @ ''_'' @ name @ failure args @ ''.txt''"

text \<open>\<open>"2 %d %d %d %d"\<close>: for the two link speeds, a threshold each.\<close>

definition threshold_map :: "int \<Rightarrow> int \<Rightarrow> int \<Rightarrow> string" where
  "threshold_map bw k k' =
     ''2 '' @ str_int (bw * 1000000000) @ '' '' @ str_int k @ '' '' @ str_int (bw * 4 * 1000000000) @ '' '' @ str_int k'"

definition probability_map :: "int \<Rightarrow> string \<Rightarrow> string" where
  "probability_map bw p = ''2 '' @ str_int (bw * 1000000000) @ '' '' @ p @ '' '' @ str_int (bw * 4 * 1000000000) @ '' '' @ p"

definition common_setting :: "run_args \<Rightarrow> int \<Rightarrow> cc_setting" where
  "common_setting args bw =
     \<lparr>cc_name = cc args, mode = 1, t_alpha = 1, t_dec = 4, t_inc = 300, ewma_g = ''0.00390625'', ai = 0, hai = 0, dctcp_ai = 1000,
      has_win = 0, vwin = 0, us = 0, int_multi = 1, ack_prio = 1,
      kmax_map = threshold_map bw (400 * bw div 25) (400 * bw * 4 div 25),
      kmin_map = threshold_map bw (100 * bw div 25) (100 * bw * 4 div 25),
      pmax_map = probability_map bw ''0.20''\<rparr>"

definition dcqcn_setting :: "run_args \<Rightarrow> int \<Rightarrow> cc_setting option" where
  "dcqcn_setting args bw =
     (let s = (common_setting args bw)\<lparr>ai := 5 * bw div 25, hai := 50 * bw div 25\<rparr>
      in if cc args = ''dcqcn'' then Some s
         else if cc args = ''dcqcn_paper'' then Some (s\<lparr>t_alpha := 50, t_dec := 50, t_inc := 55\<rparr>)
         else if cc args = ''dcqcn_vwin'' then Some (s\<lparr>has_win := 1, vwin := 1, ack_prio := 0\<rparr>)
         else if cc args = ''dcqcn_paper_vwin''
           then Some (s\<lparr>t_alpha := 50, t_dec := 50, t_inc := 55, has_win := 1, vwin := 1, ack_prio := 0\<rparr>)
         else None)"

definition hp_setting :: "run_args \<Rightarrow> int \<Rightarrow> cc_setting" where
  "hp_setting args bw =
     (let a = (if hpai args > 0 then hpai args else 10 * bw div 25);
          name = cc args @ str_int (utgt args);
          name = (if mi args > 0 then name @ ''mi'' @ str_int (mi args) else name);
          name = (if hpai args > 0 then name @ ''ai'' @ str_int a else name)
      in (common_setting args bw)\<lparr>cc_name := name, mode := 3, ai := a, hai := a, int_multi := bw div 25,
           has_win := 1, vwin := 1, us := 1, ack_prio := 0\<rparr>)"

definition dctcp_setting :: "run_args \<Rightarrow> int \<Rightarrow> cc_setting" where
  "dctcp_setting args bw =
     (common_setting args bw)\<lparr>mode := 8, ewma_g := ''0.0625'', ai := 10, hai := 10, dctcp_ai := 615, has_win := 1, vwin := 1,
       ack_prio := 0,
       kmax_map := threshold_map bw (30 * bw div 10) (30 * bw * 4 div 10),
       kmin_map := threshold_map bw (30 * bw div 10) (30 * bw * 4 div 10),
       pmax_map := probability_map bw ''1.00''\<rparr>"

definition timely_setting :: "run_args \<Rightarrow> int \<Rightarrow> cc_setting" where
  "timely_setting args bw =
     (let s = (common_setting args bw)\<lparr>mode := 7, ai := 10 * bw div 10, hai := 50 * bw div 10\<rparr>
      in if cc args = ''timely'' then s else s\<lparr>has_win := 1, vwin := 1\<rparr>)"

definition config_kwargs :: "(rat \<Rightarrow> string) \<Rightarrow> run_args \<Rightarrow> int \<Rightarrow> cc_setting \<Rightarrow> (string, string) dict" where
  "config_kwargs show_float args bw s =
     [(''bw'', str_int bw), (''trace'', trace args), (''topo'', topo args), (''cc'', cc_name s), (''mode'', str_int (mode s)),
      (''t_alpha'', str_int (t_alpha s)), (''t_dec'', str_int (t_dec s)), (''t_inc'', str_int (t_inc s)), (''g'', ewma_g s),
      (''ai'', str_int (ai s)), (''hai'', str_int (hai s)), (''dctcp_ai'', str_int (dctcp_ai s)),
      (''has_win'', str_int (has_win s)), (''vwin'', str_int (vwin s)), (''us'', str_int (us s)),
      (''u_tgt'', show_float (of_int (utgt args) / 100)), (''mi'', str_int (mi args)), (''int_multi'', str_int (int_multi s)),
      (''ack_prio'', str_int (ack_prio s)), (''link_down'', down args), (''failure'', failure args),
      (''kmax_map'', kmax_map s), (''kmin_map'', kmin_map s), (''pmax_map'', pmax_map s),
      (''buffer_size'', str_int (16 * bw div 50))]"

text \<open>
  The branch on \<open>args.cc\<close>: \<open>None\<close> is the variable \<open>config\<close> left unbound, by the
  inner branches that have no \<open>else\<close>.
\<close>

definition choose_setting :: "run_args \<Rightarrow> int \<Rightarrow> py_exn + cc_setting option" where
  "choose_setting args bw =
     (if starts_with (cc args) ''dcqcn'' then Inr (dcqcn_setting args bw)
      else if cc args = ''hp'' then Inr (Some (hp_setting args bw))
      else if cc args = ''dctcp'' then Inr (Some (dctcp_setting args bw))
      else if cc args = ''timely'' \<or> cc args = ''timely_vwin'' then Inr (Some (timely_setting args bw))
      else Inl (SystemExit 1))"

text \<open>The exception or the command run, and the files. The file is opened, and so emptied,
  before the variable is looked up.\<close>

definition run_simulation ::
  "(rat \<Rightarrow> string) \<Rightarrow> run_args \<Rightarrow> (string \<Rightarrow> string option) \<Rightarrow> (py_exn + string) \<times> (string \<Rightarrow> string option)" where
  "run_simulation show_float args files =
     (case py_int (bw_text args) of
        Inl e \<Rightarrow> (Inl e, files)
      | Inr bw \<Rightarrow> (case choose_setting args bw of
            Inl e \<Rightarrow> (Inl e, files)
          | Inr None \<Rightarrow> (Inl NameError, files(config_name args (cc args) \<mapsto> []))
          | Inr (Some s) \<Rightarrow> (case format_str config_template (config_kwargs show_float args bw s) of
                Inl e \<Rightarrow> (Inl e, files)
              | Inr config \<Rightarrow>
                  (Inr (''./waf --run '' @ [CHR 0x27] @ ''scratch/third '' @ config_name args (cc_name s) @ [CHR 0x27]),
                   files(config_name args (cc_name s) \<mapsto> config)))))"

section \<open>Formatting the template\<close>

datatype piece = Lit string | Fld string

fun piece_text :: "piece \<Rightarrow> string" where
  "piece_text (Lit s) = s"
| "piece_text (Fld n) = ''{'' @ n @ ''}''"

fun piece_ok :: "piece \<Rightarrow> bool" where
  "piece_ok (Lit s) = list_all (\<lambda>c. c \<noteq> CHR ''{'' \<and> c \<noteq> CHR ''}'') s"
| "piece_ok (Fld n) = (n \<noteq> [] \<and> list_all (\<lambda>c. c \<noteq> CHR ''{'' \<and> c \<noteq> CHR ''}'') n)"

fun fill_piece :: "(string, string) dict \<Rightarrow> piece \<Rightarrow> py_exn + string" where
  "fill_piece kw (Lit s) = Inr s"
| "fill_piece kw (Fld n) = dict_lookup kw n"

lemma format_lit:
  "list_all (\<lambda>c. c \<noteq> CHR ''{'' \<and> c \<noteq> CHR ''}'') p \<Longrightarrow> format_str (p @ s) kw = py_bind (format_str s kw) (\<lambda>r. Inr (p @ r))"
proof (induction p)
  case Nil
  show ?case by (cases "format_str s kw") simp_all
next
  case (Cons c p)
  then show ?case by (cases "format_str s kw") simp_all
qed

lemma takeWhile_until: "list_all P n \<Longrightarrow> \<not> P c \<Longrightarrow> takeWhile P (n @ c # s) = n \<and> dropWhile P (n @ c # s) = c # s"
  by (induction n) simp_all

lemma format_fld:
  assumes "piece_ok (Fld n)"
  shows "format_str (''{'' @ n @ ''}'' @ s) kw = py_bind (dict_lookup kw n) (\<lambda>v. py_bind (format_str s kw) (\<lambda>r. Inr (v @ r)))"
proof -
  have "list_all (\<lambda>x. x \<noteq> CHR ''}'') n" "hd (n @ CHR ''}'' # s) \<noteq> CHR ''{''"
    using assms by (cases n; auto simp: list_all_iff)+
  then show ?thesis using takeWhile_until [of "\<lambda>x. x \<noteq> CHR ''}''" n "CHR ''}''" s] by simp
qed

lemma format_pieces:
  "list_all piece_ok ps \<Longrightarrow>
   format_str (concat (map piece_text ps)) kw = py_bind (py_map (fill_piece kw) ps) (\<lambda>ts. Inr (concat ts))"
proof (induction ps)
  case (Cons p ps)
  show ?case
  proof (cases p)
    case (Lit s)
    then show ?thesis using Cons format_lit [of s "concat (map piece_text ps)" kw]
      by (cases "py_map (fill_piece kw) ps") simp_all
  next
    case (Fld n)
    then show ?thesis using Cons format_fld [of n "concat (map piece_text ps)" kw]
      by (cases "dict_lookup kw n"; cases "py_map (fill_piece kw) ps") simp_all
  qed
qed simp

definition line_pieces :: "piece list list" where
  "line_pieces =
    [[Lit ''ENABLE_QCN 1''],
     [Lit ''USE_DYNAMIC_PFC_THRESHOLD 1''],
     [],
     [Lit ''PACKET_PAYLOAD_SIZE 1000''],
     [],
     [Lit ''TOPOLOGY_FILE mix/'', Fld ''topo'', Lit ''.txt''],
     [Lit ''FLOW_FILE mix/'', Fld ''trace'', Lit ''.txt''],
     [Lit ''TRACE_FILE mix/trace.txt''],
     [Lit ''TRACE_OUTPUT_FILE mix/mix_'', Fld ''topo'', Lit ''_'', Fld ''trace'', Lit ''_'', Fld ''cc'', Fld ''failure'', Lit ''.tr''],
     [Lit ''FCT_OUTPUT_FILE mix/fct_'', Fld ''topo'', Lit ''_'', Fld ''trace'', Lit ''_'', Fld ''cc'', Fld ''failure'', Lit ''.txt''],
     [Lit ''PFC_OUTPUT_FILE mix/pfc_'', Fld ''topo'', Lit ''_'', Fld ''trace'', Lit ''_'', Fld ''cc'', Fld ''failure'', Lit ''.txt''],
     [],
     [Lit ''SIMULATOR_STOP_TIME 4.00''],
     [],
     [Lit ''CC_MODE '', Fld ''mode''],
     [Lit ''ALPHA_RESUME_INTERVAL '', Fld ''t_alpha''],
     [Lit ''RATE_DECREASE_INTERVAL '', Fld ''t_dec''],
     [Lit ''CLAMP_TARGET_RATE 0''],
     [Lit ''RP_TIMER '', Fld ''t_inc''],
     [Lit ''EWMA_GAIN '', Fld ''g''],
     [Lit ''FAST_RECOVERY_TIMES 1''],
     [Lit ''RATE_AI '', Fld ''ai'', Lit ''Mb/s''],
     [Lit ''RATE_HAI '', Fld ''hai'', Lit ''Mb/s''],
     [Lit ''MIN_RATE 100Mb/s''],
     [Lit ''DCTCP_RATE_AI '', Fld ''dctcp_ai'', Lit ''Mb/s''],
     [],
     [Lit ''ERROR_RATE_PER_LINK 0.0000''],
     [Lit ''L2_CHUNK_SIZE 4000''],
     [Lit ''L2_ACK_INTERVAL 1''],
     [Lit ''L2_BACK_TO_ZERO 0''],
     [],
     [Lit ''HAS_WIN '', Fld ''has_win''],
     [Lit ''GLOBAL_T 1''],
     [Lit ''VAR_WIN '', Fld ''vwin''],
     [Lit ''FAST_REACT '', Fld ''us''],
     [Lit ''U_TARGET '', Fld ''u_tgt''],
     [Lit ''MI_THRESH '', Fld ''mi''],
     [Lit ''INT_MULTI '', Fld ''int_multi''],
     [Lit ''MULTI_RATE 0''],
     [Lit ''SAMPLE_FEEDBACK 0''],
     [],
     [Lit ''RATE_BOUND 1''],
     [],
     [Lit ''ACK_HIGH_PRIO '', Fld ''ack_prio''],
     [],
     [Lit ''LINK_DOWN '', Fld ''link_down''],
     [],
     [Lit ''ENABLE_TRACE 1''],
     [],
     [Lit ''KMAX_MAP '', Fld ''kmax_map''],
     [Lit ''KMIN_MAP '', Fld ''kmin_map''],
     [Lit ''PMAX_MAP '', Fld ''pmax_map''],
     [Lit ''BUFFER_SIZE '', Fld ''buffer_size''],
     [Lit ''QLEN_MON_FILE mix/qlen_'', Fld ''topo'', Lit ''_'', Fld ''trace'', Lit ''_'', Fld ''cc'', Fld ''failure'', Lit ''.txt''],
     [Lit ''QLEN_MON_START 2000000000''],
     [Lit ''QLEN_MON_END 3000000000'']]"

definition config_pieces :: "piece list" where
  "config_pieces = concat (map (\<lambda>ps. ps @ [Lit newline]) line_pieces)"

lemma config_pieces_ok: "list_all piece_ok config_pieces"
  by (simp add: config_pieces_def line_pieces_def newline_def)

lemma config_template_pieces: "config_template = concat (map piece_text config_pieces)"
  by (simp add: config_template_def config_lines_def config_pieces_def line_pieces_def newline_def)

definition filled_line :: "(string, string) dict \<Rightarrow> piece list \<Rightarrow> string" where
  "filled_line kw ps = concat (map (\<lambda>p. case p of Lit s \<Rightarrow> s | Fld n \<Rightarrow> the (dict_get kw n)) ps)"

lemma concat_lines: "concat (concat (map (\<lambda>x. f x @ [y]) xs)) = concat (map (\<lambda>x. concat (f x) @ y) xs)"
  by (induction xs) simp_all

lemma config_format:
  assumes "\<And>n. Fld n \<in> set config_pieces \<Longrightarrow> dict_get kw n \<noteq> None"
  shows "format_str config_template kw = Inr (concat (map (\<lambda>ps. filled_line kw ps @ newline) line_pieces))"
proof -
  let ?f = "\<lambda>p. case p of Lit s \<Rightarrow> s | Fld n \<Rightarrow> the (dict_get kw n)"
  have "py_map (fill_piece kw) config_pieces = Inr (map ?f config_pieces)"
    by (rule py_map_Inr) (use assms in \<open>fastforce simp: dict_lookup_def split: piece.splits\<close>)
  then have "format_str config_template kw = Inr (concat (map ?f config_pieces))"
    by (simp add: config_template_pieces format_pieces [OF config_pieces_ok])
  also have "map ?f config_pieces = concat (map (\<lambda>ps. map ?f ps @ [newline]) line_pieces)"
    by (simp add: config_pieces_def map_concat comp_def)
  also have "concat \<dots> = concat (map (\<lambda>ps. filled_line kw ps @ newline) line_pieces)"
    by (simp add: concat_lines filled_line_def)
  finally show ?thesis .
qed

definition config_fields :: "string list" where
  "config_fields = [''bw'', ''trace'', ''topo'', ''cc'', ''mode'', ''t_alpha'', ''t_dec'', ''t_inc'', ''g'', ''ai'', ''hai'', ''dctcp_ai'',
     ''has_win'', ''vwin'', ''us'', ''u_tgt'', ''mi'', ''int_multi'', ''ack_prio'', ''link_down'', ''failure'', ''kmax_map'',
     ''kmin_map'', ''pmax_map'', ''buffer_size'']"

lemma fields_known: "list_all (\<lambda>p. case p of Lit s \<Rightarrow> True | Fld n \<Rightarrow> n \<in> set config_fields) config_pieces"
  by (simp add: config_pieces_def line_pieces_def config_fields_def)

lemma kwargs_complete:
  assumes "Fld n \<in> set config_pieces"
  shows "dict_get (config_kwargs show_float args bw s) n \<noteq> None"
proof -
  have "n \<in> set config_fields" using fields_known assms by (fastforce simp: list_all_iff)
  moreover have "fst ` set (config_kwargs show_float args bw s) = set config_fields"
    by (simp add: config_kwargs_def config_fields_def)
  ultimately show ?thesis by (simp add: map_of_eq_None_iff)
qed

text \<open>The names of the output files and of the configuration have a common part.\<close>

definition run_ident :: "run_args \<Rightarrow> string \<Rightarrow> string" where
  "run_ident args name = topo args @ ''_'' @ trace args @ ''_'' @ name @ failure args"

definition known_cc :: "string list" where
  "known_cc = [''dcqcn'', ''dcqcn_paper'', ''dcqcn_vwin'', ''dcqcn_paper_vwin'', ''hp'', ''dctcp'', ''timely'', ''timely_vwin'']"

lemma choose_known:
  "cc args \<in> set known_cc \<longleftrightarrow> (\<exists>s. choose_setting args bw = Inr (Some s))"
  by (auto simp: known_cc_def choose_setting_def dcqcn_setting_def Let_def starts_with_def)

text \<open>What a configuration written for the simulator must say, parameter by parameter. The windows are for the variants
  with \<open>vwin\<close>, for HPCC and for DCTCP, the slow timers for the variants with \<open>paper\<close>.\<close>

definition run_name :: "run_args \<Rightarrow> string" where
  "run_name args =
     (if cc args = ''hp''
      then ''hp'' @ str_int (utgt args) @ (if 0 < mi args then ''mi'' @ str_int (mi args) else []) @
           (if 0 < hpai args then ''ai'' @ str_int (hpai args) else [])
      else cc args)"

definition has_window :: "run_args \<Rightarrow> bool" where
  "has_window args \<longleftrightarrow> cc args \<in> set [''dcqcn_vwin'', ''dcqcn_paper_vwin'', ''timely_vwin'', ''hp'', ''dctcp'']"

definition from_paper :: "run_args \<Rightarrow> bool" where
  "from_paper args \<longleftrightarrow> cc args \<in> set [''dcqcn_paper'', ''dcqcn_paper_vwin'']"

definition is_timely :: "run_args \<Rightarrow> bool" where
  "is_timely args \<longleftrightarrow> cc args \<in> set [''timely'', ''timely_vwin'']"

definition expected_setting :: "run_args \<Rightarrow> int \<Rightarrow> cc_setting" where
  "expected_setting args bw =
     \<lparr>cc_name = run_name args,
      mode = (if cc args = ''hp'' then 3 else if cc args = ''dctcp'' then 8 else if is_timely args then 7 else 1),
      t_alpha = (if from_paper args then 50 else 1), t_dec = (if from_paper args then 50 else 4), t_inc = (if from_paper args then 55 else 300),
      ewma_g = (if cc args = ''dctcp'' then ''0.0625'' else ''0.00390625''),
      ai = (if cc args = ''hp'' then if 0 < hpai args then hpai args else 2 * bw div 5
            else if cc args = ''dctcp'' then 10 else if is_timely args then bw else bw div 5),
      hai = (if cc args = ''hp'' then if 0 < hpai args then hpai args else 2 * bw div 5
             else if cc args = ''dctcp'' then 10 else if is_timely args then 5 * bw else 2 * bw),
      dctcp_ai = (if cc args = ''dctcp'' then 615 else 1000),
      has_win = of_bool (has_window args), vwin = of_bool (has_window args), us = of_bool (cc args = ''hp''),
      int_multi = (if cc args = ''hp'' then bw div 25 else 1),
      ack_prio = of_bool (\<not> has_window args \<or> is_timely args),
      kmax_map = (if cc args = ''dctcp'' then threshold_map bw (3 * bw) (12 * bw) else threshold_map bw (16 * bw) (64 * bw)),
      kmin_map = (if cc args = ''dctcp'' then threshold_map bw (3 * bw) (12 * bw) else threshold_map bw (4 * bw) (16 * bw)),
      pmax_map = probability_map bw (if cc args = ''dctcp'' then ''1.00'' else ''0.20'')\<rparr>"

definition expected_values :: "(rat \<Rightarrow> string) \<Rightarrow> run_args \<Rightarrow> int \<Rightarrow> (string \<times> string) list" where
  "expected_values show_float args bw =
     (let s = expected_setting args bw; ident = run_ident args (run_name args) in
      [(''TOPOLOGY_FILE'', ''mix/'' @ topo args @ ''.txt''), (''FLOW_FILE'', ''mix/'' @ trace args @ ''.txt''),
       (''TRACE_OUTPUT_FILE'', ''mix/mix_'' @ ident @ ''.tr''), (''FCT_OUTPUT_FILE'', ''mix/fct_'' @ ident @ ''.txt''),
       (''PFC_OUTPUT_FILE'', ''mix/pfc_'' @ ident @ ''.txt''), (''QLEN_MON_FILE'', ''mix/qlen_'' @ ident @ ''.txt''),
       (''CC_MODE'', str_int (mode s)), (''ALPHA_RESUME_INTERVAL'', str_int (t_alpha s)), (''RATE_DECREASE_INTERVAL'', str_int (t_dec s)),
       (''RP_TIMER'', str_int (t_inc s)), (''EWMA_GAIN'', ewma_g s), (''RATE_AI'', str_int (ai s) @ ''Mb/s''),
       (''RATE_HAI'', str_int (hai s) @ ''Mb/s''), (''DCTCP_RATE_AI'', str_int (dctcp_ai s) @ ''Mb/s''),
       (''HAS_WIN'', str_int (has_win s)), (''VAR_WIN'', str_int (vwin s)), (''FAST_REACT'', str_int (us s)),
       (''U_TARGET'', show_float (of_int (utgt args) / 100)), (''MI_THRESH'', str_int (mi args)), (''INT_MULTI'', str_int (int_multi s)),
       (''ACK_HIGH_PRIO'', str_int (ack_prio s)), (''LINK_DOWN'', down args), (''KMAX_MAP'', kmax_map s), (''KMIN_MAP'', kmin_map s),
       (''PMAX_MAP'', pmax_map s), (''BUFFER_SIZE'', str_int (8 * bw div 25))])"

text \<open>The lines: those without a field are as in the template, the others are the parameter and its value.\<close>

definition parameter_of :: "string \<Rightarrow> string" where
  "parameter_of l = takeWhile (\<lambda>c. c \<noteq> CHR '' '') l"

definition expected_config :: "(rat \<Rightarrow> string) \<Rightarrow> run_args \<Rightarrow> int \<Rightarrow> string list" where
  "expected_config show_float args bw =
     map (\<lambda>l. if CHR ''{'' \<in> set l then parameter_of l @ '' '' @ the (map_of (expected_values show_float args bw) (parameter_of l)) else l)
       config_lines"

lemma quotients:
  "5 * (bw :: int) div 25 = bw div 5"
  "50 * bw div 25 = 2 * bw"
  "10 * bw div 25 = 2 * bw div 5"
  "10 * bw div 10 = bw"
  "50 * bw div 10 = 5 * bw"
  "400 * bw div 25 = 16 * bw"
  "400 * bw * 4 div 25 = 64 * bw"
  "100 * bw div 25 = 4 * bw"
  "100 * bw * 4 div 25 = 16 * bw"
  "30 * bw div 10 = 3 * bw"
  "30 * bw * 4 div 10 = 12 * bw"
  "16 * bw div 50 = 8 * bw div 25"
proof -
  show "5 * bw div 25 = bw div 5" using div_mult_mult1 [of 5 bw 5] by simp
  show "50 * bw div 25 = 2 * bw" using nonzero_mult_div_cancel_left [of "25 :: int" "2 * bw"] by simp
  show "10 * bw div 25 = 2 * bw div 5" using div_mult_mult1 [of 5 "2 * bw" 5] by simp
  show "10 * bw div 10 = bw" using nonzero_mult_div_cancel_left [of 10 bw] by simp
  show "50 * bw div 10 = 5 * bw" using nonzero_mult_div_cancel_left [of "10 :: int" "5 * bw"] by simp
  show "400 * bw div 25 = 16 * bw" using nonzero_mult_div_cancel_left [of "25 :: int" "16 * bw"] by simp
  show "400 * bw * 4 div 25 = 64 * bw" using nonzero_mult_div_cancel_left [of "25 :: int" "64 * bw"] by simp
  show "100 * bw div 25 = 4 * bw" using nonzero_mult_div_cancel_left [of "25 :: int" "4 * bw"] by simp
  show "100 * bw * 4 div 25 = 16 * bw" using nonzero_mult_div_cancel_left [of "25 :: int" "16 * bw"] by simp
  show "30 * bw div 10 = 3 * bw" using nonzero_mult_div_cancel_left [of "10 :: int" "3 * bw"] by simp
  show "30 * bw * 4 div 10 = 12 * bw" using nonzero_mult_div_cancel_left [of "10 :: int" "12 * bw"] by simp
  show "16 * bw div 50 = 8 * bw div 25" using div_mult_mult1 [of 2 "8 * bw" 25] by simp
qed

lemma choose_expected:
  assumes "choose_setting args bw = Inr (Some s)"
  shows "s = expected_setting args bw"
proof -
  have "cc args \<in> set known_cc" using assms choose_known by blast
  then consider "cc args = ''dcqcn''" | "cc args = ''dcqcn_paper''" | "cc args = ''dcqcn_vwin''" | "cc args = ''dcqcn_paper_vwin''"
    | "cc args = ''hp''" | "cc args = ''dctcp''" | "cc args = ''timely''" | "cc args = ''timely_vwin''" by (auto simp: known_cc_def)
  note cc = this
  note defs = choose_setting_def starts_with_def dcqcn_setting_def hp_setting_def dctcp_setting_def timely_setting_def common_setting_def
    expected_setting_def run_name_def has_window_def from_paper_def is_timely_def quotients Let_def
  show ?thesis
    using assms by (cases rule: cc) (auto simp: defs)
qed

text \<open>The template, parameter by parameter.\<close>

lemma template_parts:
  "map (\<lambda>l. if CHR ''{'' \<in> set l then Inl (parameter_of l) else Inr l) config_lines =
    [Inr ''ENABLE_QCN 1'', Inr ''USE_DYNAMIC_PFC_THRESHOLD 1'', Inr '''', Inr ''PACKET_PAYLOAD_SIZE 1000'',
     Inr '''', Inl ''TOPOLOGY_FILE'', Inl ''FLOW_FILE'', Inr ''TRACE_FILE mix/trace.txt'',
     Inl ''TRACE_OUTPUT_FILE'', Inl ''FCT_OUTPUT_FILE'', Inl ''PFC_OUTPUT_FILE'', Inr '''',
     Inr ''SIMULATOR_STOP_TIME 4.00'', Inr '''', Inl ''CC_MODE'', Inl ''ALPHA_RESUME_INTERVAL'',
     Inl ''RATE_DECREASE_INTERVAL'', Inr ''CLAMP_TARGET_RATE 0'', Inl ''RP_TIMER'', Inl ''EWMA_GAIN'',
     Inr ''FAST_RECOVERY_TIMES 1'', Inl ''RATE_AI'', Inl ''RATE_HAI'', Inr ''MIN_RATE 100Mb/s'',
     Inl ''DCTCP_RATE_AI'', Inr '''', Inr ''ERROR_RATE_PER_LINK 0.0000'', Inr ''L2_CHUNK_SIZE 4000'',
     Inr ''L2_ACK_INTERVAL 1'', Inr ''L2_BACK_TO_ZERO 0'', Inr '''', Inl ''HAS_WIN'',
     Inr ''GLOBAL_T 1'', Inl ''VAR_WIN'', Inl ''FAST_REACT'', Inl ''U_TARGET'',
     Inl ''MI_THRESH'', Inl ''INT_MULTI'', Inr ''MULTI_RATE 0'', Inr ''SAMPLE_FEEDBACK 0'',
     Inr '''', Inr ''RATE_BOUND 1'', Inr '''', Inl ''ACK_HIGH_PRIO'',
     Inr '''', Inl ''LINK_DOWN'', Inr '''', Inr ''ENABLE_TRACE 1'',
     Inr '''', Inl ''KMAX_MAP'', Inl ''KMIN_MAP'', Inl ''PMAX_MAP'',
     Inl ''BUFFER_SIZE'', Inl ''QLEN_MON_FILE'', Inr ''QLEN_MON_START 2000000000'', Inr ''QLEN_MON_END 3000000000'']"
  by code_simp

lemma expected_config_parts:
  "expected_config show_float args bw =
    map (case_sum (\<lambda>k. k @ '' '' @ the (map_of (expected_values show_float args bw) k)) (\<lambda>l. l))
      (map (\<lambda>l. if CHR ''{'' \<in> set l then Inl (parameter_of l) else Inr l) config_lines)"
  unfolding expected_config_def map_map by (rule map_cong [OF refl]) simp

lemma expected_lookups:
  "map_of (expected_values show_float args bw) ''TOPOLOGY_FILE'' = Some (''mix/'' @ topo args @ ''.txt'')"
  "map_of (expected_values show_float args bw) ''FLOW_FILE'' = Some (''mix/'' @ trace args @ ''.txt'')"
  "map_of (expected_values show_float args bw) ''TRACE_OUTPUT_FILE'' = Some (''mix/mix_'' @ run_ident args (run_name args) @ ''.tr'')"
  "map_of (expected_values show_float args bw) ''FCT_OUTPUT_FILE'' = Some (''mix/fct_'' @ run_ident args (run_name args) @ ''.txt'')"
  "map_of (expected_values show_float args bw) ''PFC_OUTPUT_FILE'' = Some (''mix/pfc_'' @ run_ident args (run_name args) @ ''.txt'')"
  "map_of (expected_values show_float args bw) ''CC_MODE'' = Some (str_int (mode (expected_setting args bw)))"
  "map_of (expected_values show_float args bw) ''ALPHA_RESUME_INTERVAL'' = Some (str_int (t_alpha (expected_setting args bw)))"
  "map_of (expected_values show_float args bw) ''RATE_DECREASE_INTERVAL'' = Some (str_int (t_dec (expected_setting args bw)))"
  "map_of (expected_values show_float args bw) ''RP_TIMER'' = Some (str_int (t_inc (expected_setting args bw)))"
  "map_of (expected_values show_float args bw) ''EWMA_GAIN'' = Some (ewma_g (expected_setting args bw))"
  "map_of (expected_values show_float args bw) ''RATE_AI'' = Some (str_int (ai (expected_setting args bw)) @ ''Mb/s'')"
  "map_of (expected_values show_float args bw) ''RATE_HAI'' = Some (str_int (hai (expected_setting args bw)) @ ''Mb/s'')"
  "map_of (expected_values show_float args bw) ''DCTCP_RATE_AI'' = Some (str_int (dctcp_ai (expected_setting args bw)) @ ''Mb/s'')"
  "map_of (expected_values show_float args bw) ''HAS_WIN'' = Some (str_int (has_win (expected_setting args bw)))"
  "map_of (expected_values show_float args bw) ''VAR_WIN'' = Some (str_int (vwin (expected_setting args bw)))"
  "map_of (expected_values show_float args bw) ''FAST_REACT'' = Some (str_int (us (expected_setting args bw)))"
  "map_of (expected_values show_float args bw) ''U_TARGET'' = Some (show_float (of_int (utgt args) / 100))"
  "map_of (expected_values show_float args bw) ''MI_THRESH'' = Some (str_int (mi args))"
  "map_of (expected_values show_float args bw) ''INT_MULTI'' = Some (str_int (int_multi (expected_setting args bw)))"
  "map_of (expected_values show_float args bw) ''ACK_HIGH_PRIO'' = Some (str_int (ack_prio (expected_setting args bw)))"
  "map_of (expected_values show_float args bw) ''LINK_DOWN'' = Some (down args)"
  "map_of (expected_values show_float args bw) ''KMAX_MAP'' = Some (kmax_map (expected_setting args bw))"
  "map_of (expected_values show_float args bw) ''KMIN_MAP'' = Some (kmin_map (expected_setting args bw))"
  "map_of (expected_values show_float args bw) ''PMAX_MAP'' = Some (pmax_map (expected_setting args bw))"
  "map_of (expected_values show_float args bw) ''BUFFER_SIZE'' = Some (str_int (8 * bw div 25))"
  "map_of (expected_values show_float args bw) ''QLEN_MON_FILE'' = Some (''mix/qlen_'' @ run_ident args (run_name args) @ ''.txt'')"
  by (simp_all add: expected_values_def Let_def)

lemma kwargs_lookups:
  "dict_get (config_kwargs show_float args bw s) ''ack_prio'' = Some (str_int (ack_prio s))"
  "dict_get (config_kwargs show_float args bw s) ''ai'' = Some (str_int (ai s))"
  "dict_get (config_kwargs show_float args bw s) ''buffer_size'' = Some (str_int (16 * bw div 50))"
  "dict_get (config_kwargs show_float args bw s) ''cc'' = Some (cc_name s)"
  "dict_get (config_kwargs show_float args bw s) ''dctcp_ai'' = Some (str_int (dctcp_ai s))"
  "dict_get (config_kwargs show_float args bw s) ''failure'' = Some (failure args)"
  "dict_get (config_kwargs show_float args bw s) ''g'' = Some (ewma_g s)"
  "dict_get (config_kwargs show_float args bw s) ''hai'' = Some (str_int (hai s))"
  "dict_get (config_kwargs show_float args bw s) ''has_win'' = Some (str_int (has_win s))"
  "dict_get (config_kwargs show_float args bw s) ''int_multi'' = Some (str_int (int_multi s))"
  "dict_get (config_kwargs show_float args bw s) ''kmax_map'' = Some (kmax_map s)"
  "dict_get (config_kwargs show_float args bw s) ''kmin_map'' = Some (kmin_map s)"
  "dict_get (config_kwargs show_float args bw s) ''link_down'' = Some (down args)"
  "dict_get (config_kwargs show_float args bw s) ''mi'' = Some (str_int (mi args))"
  "dict_get (config_kwargs show_float args bw s) ''mode'' = Some (str_int (mode s))"
  "dict_get (config_kwargs show_float args bw s) ''pmax_map'' = Some (pmax_map s)"
  "dict_get (config_kwargs show_float args bw s) ''t_alpha'' = Some (str_int (t_alpha s))"
  "dict_get (config_kwargs show_float args bw s) ''t_dec'' = Some (str_int (t_dec s))"
  "dict_get (config_kwargs show_float args bw s) ''t_inc'' = Some (str_int (t_inc s))"
  "dict_get (config_kwargs show_float args bw s) ''topo'' = Some (topo args)"
  "dict_get (config_kwargs show_float args bw s) ''trace'' = Some (trace args)"
  "dict_get (config_kwargs show_float args bw s) ''u_tgt'' = Some (show_float (of_int (utgt args) / 100))"
  "dict_get (config_kwargs show_float args bw s) ''us'' = Some (str_int (us s))"
  "dict_get (config_kwargs show_float args bw s) ''vwin'' = Some (str_int (vwin s))"
  by (simp_all add: config_kwargs_def)

lemma filled_config:
  assumes "choose_setting args bw = Inr (Some s)"
  shows "map (filled_line (config_kwargs show_float args bw s)) line_pieces = expected_config show_float args bw"
proof -
  have s: "s = expected_setting args bw" using choose_expected [OF assms] .
  have name: "cc_name (expected_setting args bw) = run_name args" by (simp add: expected_setting_def)
  show ?thesis
    unfolding expected_config_parts template_parts line_pieces_def filled_line_def s
    by (simp only: list.map piece.case sum.case expected_lookups kwargs_lookups option.sel concat.simps append_Nil append_Nil2 name quotients)
      (simp add: run_ident_def)
qed

text \<open>C36: The script runs the simulator for exactly the eight congestion controls it knows and a
  bandwidth that is a number. It then writes one file, the one it names in the command: every line of the template without
  a field, and for every parameter with a field the value that the congestion control, the bandwidth and the other arguments
  ask for (\<open>expected_values\<close>: mode, timers, gain, rates, windows, thresholds, buffer, and the names of the output files). An
  unknown name exits with 1 and writes nothing, except one that starts with dcqcn, which empties
  the configuration file before the variable is found to have no value.\<close>

theorem run_simulation_spec:
  "(py_int (bw_text args) = Inr bw \<and> cc args \<in> set known_cc \<longrightarrow>
     run_simulation show_float args files =
       (Inr (''./waf --run '' @ [CHR 0x27] @ ''scratch/third mix/config_'' @ run_ident args (run_name args) @ ''.txt'' @ [CHR 0x27]),
        files(''mix/config_'' @ run_ident args (run_name args) @ ''.txt'' \<mapsto>
          concat (map (\<lambda>l. l @ newline) (expected_config show_float args bw))))) \<and>
   (py_int (bw_text args) = Inr bw \<and> cc args \<notin> set known_cc \<longrightarrow>
     run_simulation show_float args files =
       (if starts_with (cc args) ''dcqcn'' then (Inl NameError, files(''mix/config_'' @ run_ident args (cc args) @ ''.txt'' \<mapsto> []))
        else (Inl (SystemExit 1), files))) \<and>
   (py_int (bw_text args) = Inl e \<longrightarrow> run_simulation show_float args files = (Inl e, files))"
proof (intro conjI impI)
  assume a: "py_int (bw_text args) = Inr bw \<and> cc args \<in> set known_cc"
  then obtain s where s: "choose_setting args bw = Inr (Some s)" using choose_known by blast
  have name: "cc_name s = run_name args" using choose_expected [OF s] by (simp add: expected_setting_def)
  have "format_str config_template (config_kwargs show_float args bw s) = Inr (concat (map (\<lambda>l. l @ newline) (expected_config show_float args bw)))"
    unfolding filled_config [OF s, symmetric] map_map comp_def by (rule config_format [OF kwargs_complete])
  then show "run_simulation show_float args files =
       (Inr (''./waf --run '' @ [CHR 0x27] @ ''scratch/third mix/config_'' @ run_ident args (run_name args) @ ''.txt'' @ [CHR 0x27]),
        files(''mix/config_'' @ run_ident args (run_name args) @ ''.txt'' \<mapsto>
          concat (map (\<lambda>l. l @ newline) (expected_config show_float args bw))))"
    using a s name by (simp add: run_simulation_def config_name_def run_ident_def)
next
  assume a: "py_int (bw_text args) = Inr bw \<and> cc args \<notin> set known_cc"
  then show "run_simulation show_float args files =
       (if starts_with (cc args) ''dcqcn'' then (Inl NameError, files(''mix/config_'' @ run_ident args (cc args) @ ''.txt'' \<mapsto> []))
        else (Inl (SystemExit 1), files))"
    by (auto simp: run_simulation_def known_cc_def choose_setting_def dcqcn_setting_def Let_def config_name_def run_ident_def)
qed (simp add: run_simulation_def)

theorem run_simulation_spec_witness:
  "(\<exists>config. snd (run_simulation (\<lambda>_. ''0.95'') default_args Map.empty) ''mix/config_fat_flow_hp95.txt'' = Some (concat (map (\<lambda>l. l @ newline) config)) \<and>
     ''CC_MODE 3'' \<in> set config \<and> ''RATE_AI 20Mb/s'' \<in> set config) \<and>
   fst (run_simulation (\<lambda>_. ''0.95'') (default_args\<lparr>cc := ''dcqcn2''\<rparr>) Map.empty) = Inl NameError \<and>
   run_simulation (\<lambda>_. ''0.95'') (default_args\<lparr>bw_text := ''50G''\<rparr>) Map.empty = (Inl ValueError, Map.empty)"
proof (intro conjI)
  have n: "py_int (bw_text default_args) = Inr 50"
    by (simp add: default_args_def py_int_def py_sign_def py_strip_def is_space_def starts_with_def is_digit_def decimal_def digit_value_def)
  define config where "config = expected_config (\<lambda>_. ''0.95'') default_args 50"
  have ident: "run_ident default_args (run_name default_args) = ''fat_flow_hp95''" by code_simp
  have "snd (run_simulation (\<lambda>_. ''0.95'') default_args Map.empty) ''mix/config_fat_flow_hp95.txt'' = Some (concat (map (\<lambda>l. l @ newline) config))"
    using run_simulation_spec [of default_args 50 "\<lambda>_. ''0.95''" Map.empty] n
    by (simp add: ident config_def) (simp add: default_args_def known_cc_def)
  moreover have member: "k @ '' '' @ the (map_of (expected_values (\<lambda>_. ''0.95'') default_args 50) k) \<in> set config"
    if "Inl k \<in> set (map (\<lambda>l. if CHR ''{'' \<in> set l then Inl (parameter_of l) else Inr l) config_lines)" for k
    using that unfolding config_def expected_config_parts set_map [of "case_sum _ _"] by (intro image_eqI [where x = "Inl k"]) simp_all
  have keys: "Inl ''CC_MODE'' \<in> set (map (\<lambda>l. if CHR ''{'' \<in> set l then Inl (parameter_of l) else Inr l) config_lines)"
    "Inl ''RATE_AI'' \<in> set (map (\<lambda>l. if CHR ''{'' \<in> set l then Inl (parameter_of l) else Inr l) config_lines)"
    unfolding template_parts by simp_all
  have fields: "mode (expected_setting default_args 50) = 3" "ai (expected_setting default_args 50) = 20"
    by (simp_all add: expected_setting_def default_args_def)
  have texts: "str_int 3 = ''3''" "str_int 20 = ''20''" by code_simp+
  have "''CC_MODE 3'' \<in> set config" "''RATE_AI 20Mb/s'' \<in> set config"
    using member [OF keys(1)] member [OF keys(2)] unfolding expected_lookups option.sel fields texts by simp_all
  ultimately show "\<exists>config. snd (run_simulation (\<lambda>_. ''0.95'') default_args Map.empty) ''mix/config_fat_flow_hp95.txt'' = Some (concat (map (\<lambda>l. l @ newline) config)) \<and>
     ''CC_MODE 3'' \<in> set config \<and> ''RATE_AI 20Mb/s'' \<in> set config"
    by blast
  show "fst (run_simulation (\<lambda>_. ''0.95'') (default_args\<lparr>cc := ''dcqcn2''\<rparr>) Map.empty) = Inl NameError"
    using run_simulation_spec [of "default_args\<lparr>cc := ''dcqcn2''\<rparr>" 50 "\<lambda>_. ''0.95''" Map.empty] n
    by (simp add: known_cc_def starts_with_def)
  have "py_int (bw_text (default_args\<lparr>bw_text := ''50G''\<rparr>)) = Inl ValueError"
    by (simp add: py_int_def py_sign_def py_strip_def is_space_def starts_with_def is_digit_def)
  then show "run_simulation (\<lambda>_. ''0.95'') (default_args\<lparr>bw_text := ''50G''\<rparr>) Map.empty = (Inl ValueError, Map.empty)"
    using run_simulation_spec [of "default_args\<lparr>bw_text := ''50G''\<rparr>" 0 "\<lambda>_. ''0.95''" Map.empty ValueError] by simp
qed

end
