(* ===== verification/Cflags.thy ===== *)
theory Cflags
  imports Py_Base
begin

text \<open>
  \<open>src/waf-tools/cflags.py\<close>: the compiler flags of a build profile and the configuration step
  that puts them into the build environment.

  The environment is waf's: reading a compiler (\<open>compiler\<close>) and a list of flags (\<open>flags\<close>),
  and \<open>append_value\<close>, are parameters; a flag list that a method left out is \<open>None\<close>. What the
  step relies on is \<open>waf_env\<close>.
\<close>

section \<open>Compiler traits\<close>

datatype traits = GccTraits | IccTraits | MsvcTraits

definition gcc_warnings_flags :: "string list list" where
  "gcc_warnings_flags = []"

definition icc_warnings_flags :: "string list list" where
  "icc_warnings_flags = [[], [], [''-Wall'']]"

definition msvc_warnings_flags :: "string list list" where
  "msvc_warnings_flags = [[''/W2''], [''/WX''], [''/Wall'']]"

definition warnings_flags :: "traits \<Rightarrow> string list list" where
  "warnings_flags t =
     (case t of GccTraits \<Rightarrow> gcc_warnings_flags | IccTraits \<Rightarrow> icc_warnings_flags | MsvcTraits \<Rightarrow> msvc_warnings_flags)"

fun warnings_loop :: "string list list \<Rightarrow> nat list \<Rightarrow> string list \<Rightarrow> string list" where
  "warnings_loop wfs [] warnings = warnings"
| "warnings_loop wfs (l # ls) warnings =
     (if l < length wfs then warnings_loop wfs ls (warnings @ wfs ! l) else warnings)"

definition get_warnings_flags :: "traits \<Rightarrow> int \<Rightarrow> string list" where
  "get_warnings_flags t level = warnings_loop (warnings_flags t) [0..<nat level] []"

definition gcc_optimization_flags :: "int \<Rightarrow> string list option" where
  "gcc_optimization_flags level =
     (if level = 0 then Some [''-O0''] else if level = 1 then Some [''-O''] else if level = 2 then Some [''-O2'']
      else if level = 3 then Some [''-O3''] else None)"

definition icc_optimization_flags :: "int \<Rightarrow> string list option" where
  "icc_optimization_flags level =
     (if level = 0 then Some [''-O0''] else if level = 1 then Some [''-O''] else if level = 2 then Some [''-O2'']
      else if level = 3 then Some [''-O3''] else None)"

definition msvc_optimization_flags :: "int \<Rightarrow> string list option" where
  "msvc_optimization_flags level =
     (if level = 0 then Some [''/Od''] else if level = 1 then Some [] else if level = 2 then Some [''/O2'']
      else if level = 3 then Some [''/Ox''] else None)"

definition get_optimization_flags :: "traits \<Rightarrow> int \<Rightarrow> string list option" where
  "get_optimization_flags t =
     (case t of GccTraits \<Rightarrow> gcc_optimization_flags | IccTraits \<Rightarrow> icc_optimization_flags | MsvcTraits \<Rightarrow> msvc_optimization_flags)"

definition gcc_debug_flags :: "int \<Rightarrow> (string list \<times> string list) option" where
  "gcc_debug_flags level =
     (if level = 0 then Some ([''-g0''], [''NDEBUG'']) else if level = 1 then Some ([''-g''], [])
      else if level \<ge> 2 then Some ([''-ggdb'', ''-g3''], [''_DEBUG'']) else None)"

definition icc_debug_flags :: "int \<Rightarrow> (string list \<times> string list) option" where
  "icc_debug_flags level =
     (if level = 0 then Some ([''-g0''], [''NDEBUG'']) else if level = 1 then Some ([''-g''], [])
      else if level \<ge> 2 then Some ([''-ggdb'', ''-g3''], [''_DEBUG'']) else None)"

definition msvc_debug_flags :: "int \<Rightarrow> (string list \<times> string list) option" where
  "msvc_debug_flags level =
     (if level = 0 then Some ([], [''NDEBUG'']) else if level = 1 then Some ([''/ZI'', ''/RTC1''], [])
      else if level \<ge> 2 then Some ([''/ZI'', ''/RTC1''], [''_DEBUG'']) else None)"

definition get_debug_flags :: "traits \<Rightarrow> int \<Rightarrow> (string list \<times> string list) option" where
  "get_debug_flags t =
     (case t of GccTraits \<Rightarrow> gcc_debug_flags | IccTraits \<Rightarrow> icc_debug_flags | MsvcTraits \<Rightarrow> msvc_debug_flags)"

text \<open>Only one of the classes defines the method, and the base class does not.\<close>

definition get_cxx_version_flags :: "traits \<Rightarrow> py_exn + string list" where
  "get_cxx_version_flags t = (case t of GccTraits \<Rightarrow> Inr [''-std=gnu++11''] | _ \<Rightarrow> Inl AttributeError)"

definition compiler_mapping :: "(string, traits) dict" where
  "compiler_mapping =
     [(''gcc'', GccTraits), (''g++'', GccTraits), (''msvc'', MsvcTraits), (''icc'', IccTraits), (''icpc'', IccTraits)]"

definition profiles :: "(string, int \<times> int \<times> int) dict" where
  "profiles = [(''default'', 2, 1, 1), (''debug'', 0, 2, 3), (''release'', 3, 1, 0)]"

definition default_profile :: string where
  "default_profile = ''default''"

text \<open>What \<open>options\<close> registers: the default of \<open>--build-profile\<close> and the values it may have, in
  the order of the dict.\<close>

definition options :: "(string list \<Rightarrow> string list) \<Rightarrow> py_exn + string \<times> string list" where
  "options ho = (if has_key profiles default_profile then Inr (default_profile, ho (dict_keys profiles)) else Inl AssertionError)"

section \<open>The configuration step\<close>

record 'e waf_ops =
  compiler :: "'e \<Rightarrow> string \<Rightarrow> string"
  flags :: "'e \<Rightarrow> string \<Rightarrow> string list"
  append_value :: "'e \<Rightarrow> string \<Rightarrow> string list option \<Rightarrow> py_exn + 'e"

definition or_none :: "string \<Rightarrow> string option" where
  "or_none s = (if s = [] then None else Some s)"

definition map_compiler :: "string option \<Rightarrow> traits option" where
  "map_compiler c = (case c of None \<Rightarrow> None | Some s \<Rightarrow> dict_get compiler_mapping s)"

definition append_values :: "'e waf_ops \<Rightarrow> (string \<times> string list option) list \<Rightarrow> 'e \<Rightarrow> py_exn + 'e" where
  "append_values ops = py_fold (\<lambda>(key, val) env. append_value ops env key val)"

definition configure :: "'e waf_ops \<Rightarrow> string \<Rightarrow> 'e \<Rightarrow> py_exn + 'e" where
  "configure ops build_profile env =
     (let cc = or_none (compiler ops env ''COMPILER_CC''); cxx = or_none (compiler ops env ''COMPILER_CXX'')
      in if cc = None \<and> cxx = None
         then Inl (Exception ''neither COMPILER_CC nor COMPILER_CXX are defined; maybe the compiler_cc or compiler_cxx tool has not been configured yet?'')
         else case (case map_compiler cc of Some t \<Rightarrow> Some t | None \<Rightarrow> map_compiler cxx) of
           None \<Rightarrow> Inr env
         | Some t \<Rightarrow>
             py_bind (dict_lookup profiles build_profile) (\<lambda>(opt_level, warn_level, dbg_level).
             let optimizations = get_optimization_flags t opt_level
             in case get_debug_flags t dbg_level of
                  None \<Rightarrow> Inl TypeError
                | Some (debug, debug_defs) \<Rightarrow>
                    let warnings = get_warnings_flags t warn_level
                    in py_bind (get_cxx_version_flags t) (\<lambda>cxx_version.
                       py_bind (if cc \<noteq> None \<and> flags ops env ''CCFLAGS'' = []
                                then append_values ops [(''CCFLAGS'', optimizations), (''CCFLAGS'', Some debug),
                                       (''CCFLAGS'', Some warnings), (''CCDEFINES'', Some debug_defs)] env
                                else Inr env) (\<lambda>env.
                       if cxx \<noteq> None \<and> flags ops env ''CXXFLAGS'' = []
                       then append_values ops [(''CXXFLAGS'', optimizations), (''CXXFLAGS'', Some debug), (''CXXFLAGS'', Some warnings),
                              (''CXXFLAGS'', Some cxx_version), (''CXXDEFINES'', Some debug_defs)] env
                       else Inr env))))"

section \<open>What the step leaves in the environment\<close>

text \<open>The warnings are cumulative: the first \<open>level\<close> entries.\<close>

lemma warnings_loop_take:
  "warnings_loop wfs [i..<n] ws = ws @ concat (take (n - i) (drop i wfs))"
proof (induction "n - i" arbitrary: i ws)
  case (Suc k)
  then have "[i..<n] = i # [Suc i..<n]" "n - i = Suc (n - Suc i)" by (simp_all add: upt_conv_Cons)
  then show ?case using Suc(1) [of "Suc i"] Suc(2) Cons_nth_drop_Suc [of i wfs, symmetric]
    by (cases "i < length wfs") simp_all
qed simp

lemma get_warnings_flags_take: "get_warnings_flags t level = concat (take (nat level) (warnings_flags t))"
  by (simp add: get_warnings_flags_def warnings_loop_take)

text \<open>What is assumed of waf's environment: appending a list adds it to the flags of that name
  and touches nothing else.\<close>

definition waf_env :: "'e waf_ops \<Rightarrow> bool" where
  "waf_env ops \<longleftrightarrow> (\<forall>env k v. \<exists>env'. append_value ops env k (Some v) = Inr env' \<and>
     (\<forall>k'. flags ops env' k' = flags ops env k' @ (if k' = k then v else [])) \<and> compiler ops env' = compiler ops env)"

lemma append_values_flags:
  assumes "waf_env ops"
  shows "\<exists>env'. append_values ops (map (\<lambda>(k, v). (k, Some v)) kvs) env = Inr env' \<and>
    (\<forall>k'. flags ops env' k' = flags ops env k' @ concat (map snd (filter (\<lambda>(k, v). k = k') kvs))) \<and> compiler ops env' = compiler ops env"
proof (induction kvs arbitrary: env)
  case (Cons kv kvs)
  obtain k v where kv: "kv = (k, v)" by (cases kv)
  obtain env1 where e1: "append_value ops env k (Some v) = Inr env1"
      "\<forall>k'. flags ops env1 k' = flags ops env k' @ (if k' = k then v else [])" "compiler ops env1 = compiler ops env"
    using assms unfolding waf_env_def by blast
  from Cons [of env1] obtain env' where "append_values ops (map (\<lambda>(k, v). (k, Some v)) kvs) env1 = Inr env'"
      "\<forall>k'. flags ops env' k' = flags ops env1 k' @ concat (map snd (filter (\<lambda>(k, v). k = k') kvs))" "compiler ops env' = compiler ops env1"
    by blast
  then show ?case using e1 kv by (auto simp: append_values_def)
qed (simp add: append_values_def)

text \<open>The flags of each profile with gcc, and the macros.\<close>

definition gcc_profile :: "string \<Rightarrow> string list \<times> string list" where
  "gcc_profile p =
     (if p = ''debug'' then ([''-O0'', ''-ggdb'', ''-g3''], [''_DEBUG''])
      else if p = ''release'' then ([''-O3'', ''-g0''], [''NDEBUG''])
      else ([''-O2'', ''-g''], []))"

definition added :: "bool \<Rightarrow> bool \<Rightarrow> string \<Rightarrow> string \<Rightarrow> string list" where
  "added c cxx p k =
     (if c \<and> k = ''CCFLAGS'' then fst (gcc_profile p) else if c \<and> k = ''CCDEFINES'' then snd (gcc_profile p)
      else if cxx \<and> k = ''CXXFLAGS'' then fst (gcc_profile p) @ [''-std=gnu++11'']
      else if cxx \<and> k = ''CXXDEFINES'' then snd (gcc_profile p) else [])"
lemma profile_cases:
  "p \<in> fst ` set profiles \<longleftrightarrow> p = ''default'' \<or> p = ''debug'' \<or> p = ''release''"
  by (auto simp: profiles_def)

lemma profile_flags:
  assumes "p \<in> fst ` set profiles"
  shows "\<exists>ol wl dl opt d. dict_lookup profiles p = Inr (ol, wl, dl) \<and> get_optimization_flags GccTraits ol = Some opt \<and>
    get_debug_flags GccTraits dl = Some (d, snd (gcc_profile p)) \<and> opt @ d = fst (gcc_profile p) \<and>
    get_warnings_flags GccTraits wl = [] \<and> (\<forall>t. get_debug_flags t dl \<noteq> None)"
  using assms unfolding profile_cases
  by (elim disjE) (simp_all add: profiles_def dict_lookup_def get_optimization_flags_def gcc_optimization_flags_def
      get_debug_flags_def gcc_debug_flags_def icc_debug_flags_def msvc_debug_flags_def gcc_profile_def get_warnings_flags_take
      warnings_flags_def gcc_warnings_flags_def split: traits.split)

lemma configure_gcc:
  assumes "or_none (compiler ops env ''COMPILER_CC'') = cc" "or_none (compiler ops env ''COMPILER_CXX'') = cxx" "cc \<noteq> None \<or> cxx \<noteq> None"
    and "(case map_compiler cc of Some t \<Rightarrow> Some t | None \<Rightarrow> map_compiler cxx) = Some GccTraits"
    and "dict_lookup profiles p = Inr (ol, wl, dl)" "get_optimization_flags GccTraits ol = Some opt"
    and "get_debug_flags GccTraits dl = Some (d, ds)" "get_warnings_flags GccTraits wl = []"
  shows "configure ops p env =
    py_bind (append_values ops (map (\<lambda>(k, v). (k, Some v)) (if cc \<noteq> None \<and> flags ops env ''CCFLAGS'' = []
      then [(''CCFLAGS'', opt), (''CCFLAGS'', d), (''CCFLAGS'', []), (''CCDEFINES'', ds)] else [])) env) (\<lambda>env.
    append_values ops (map (\<lambda>(k, v). (k, Some v)) (if cxx \<noteq> None \<and> flags ops env ''CXXFLAGS'' = []
      then [(''CXXFLAGS'', opt), (''CXXFLAGS'', d), (''CXXFLAGS'', []), (''CXXFLAGS'', [''-std=gnu++11'']), (''CXXDEFINES'', ds)] else [])) env)"
proof -
  have "append_values ops [] e = Inr e" for e by (simp add: append_values_def)
  moreover have "\<not> (cc = None \<and> cxx = None)" using assms(3) by blast
  ultimately show ?thesis
    unfolding configure_def Let_def assms(1,2) assms(4)
    by (simp only: assms(5-8) py_bind_simps option.case prod.case get_cxx_version_flags_def traits.case if_False)
      (intro py_bind_cong; simp)
qed

lemma configure_gcc_flags:
  assumes ops: "waf_env ops" and cc: "or_none (compiler ops env ''COMPILER_CC'') = cc" and cxx: "or_none (compiler ops env ''COMPILER_CXX'') = cxx"
    and some: "cc \<noteq> None \<or> cxx \<noteq> None" and gcc: "(case map_compiler cc of Some t \<Rightarrow> Some t | None \<Rightarrow> map_compiler cxx) = Some GccTraits"
    and pf: "dict_lookup profiles p = Inr (ol, wl, dl)" "get_optimization_flags GccTraits ol = Some opt"
      "get_debug_flags GccTraits dl = Some (d, snd (gcc_profile p))" "get_warnings_flags GccTraits wl = []" "opt @ d = fst (gcc_profile p)"
    and c: "c \<longleftrightarrow> cc \<noteq> None \<and> flags ops env ''CCFLAGS'' = []" and x: "x \<longleftrightarrow> cxx \<noteq> None \<and> flags ops env ''CXXFLAGS'' = []"
  shows "\<exists>env'. configure ops p env = Inr env' \<and> compiler ops env' = compiler ops env \<and>
    (\<forall>k. flags ops env' k = flags ops env k @ added c x p k)"
proof -
  define cfl where "cfl = (if c then [(''CCFLAGS'', opt), (''CCFLAGS'', d), (''CCFLAGS'', []), (''CCDEFINES'', snd (gcc_profile p))] else [])"
  define xfl where "xfl = (if x then [(''CXXFLAGS'', opt), (''CXXFLAGS'', d), (''CXXFLAGS'', []), (''CXXFLAGS'', [''-std=gnu++11'']),
    (''CXXDEFINES'', snd (gcc_profile p))] else [])"
  obtain env1 where e1: "append_values ops (map (\<lambda>(k, v). (k, Some v)) cfl) env = Inr env1"
      "\<forall>k'. flags ops env1 k' = flags ops env k' @ concat (map snd (filter (\<lambda>(k, v). k = k') cfl))"
      "compiler ops env1 = compiler ops env"
    using append_values_flags [OF ops] by blast
  obtain env2 where e2: "append_values ops (map (\<lambda>(k, v). (k, Some v)) xfl) env1 = Inr env2"
      "\<forall>k'. flags ops env2 k' = flags ops env1 k' @ concat (map snd (filter (\<lambda>(k, v). k = k') xfl))"
      "compiler ops env2 = compiler ops env1"
    using append_values_flags [OF ops] by blast
  have "flags ops env1 ''CXXFLAGS'' = flags ops env ''CXXFLAGS''" using e1(2) by (simp add: cfl_def)
  then have "configure ops p env = Inr env2"
    unfolding configure_gcc [OF cc cxx some gcc pf(1-4)]
    using e1(1) e2(1) unfolding cfl_def xfl_def c x by simp
  moreover have "flags ops env2 k = flags ops env k @ added c x p k" for k
    using e1(2) e2(2) pf(5) by (auto simp: cfl_def xfl_def added_def)
  ultimately show ?thesis using e1(3) e2(3) by auto
qed

text \<open>The profile a user may choose is one of the table.\<close>

lemma options_profiles:
  "hash_order ho \<Longrightarrow> \<exists>choices. options ho = Inr (default_profile, choices) \<and> set choices = fst ` set profiles \<and> default_profile \<in> set choices"
  by (simp add: options_def profiles_def default_profile_def has_key_def dict_keys_def)

text \<open>With a compiler of the gcc family and a known profile the step adds the flags and macros
  of the profile, those of C when there is a C compiler with no flags of its own, those of C++
  with the language version likewise, and nothing else. With the Intel and Microsoft compilers of
  the table it raises \<open>AttributeError\<close>, for C programs too; with compilers that are not in the table
  it leaves the environment alone.\<close>

theorem configure_spec:
  fixes ops :: "'e waf_ops"
  assumes ops: "waf_env ops" and p: "p \<in> fst ` set profiles"
    and cc: "or_none (compiler ops env ''COMPILER_CC'') = cc" and cxx: "or_none (compiler ops env ''COMPILER_CXX'') = cxx"
    and some: "cc \<noteq> None \<or> cxx \<noteq> None"
    and t: "(case map_compiler cc of Some t \<Rightarrow> Some t | None \<Rightarrow> map_compiler cxx) = t"
  shows "(t = Some GccTraits \<longrightarrow> (\<exists>env'. configure ops p env = Inr env' \<and> compiler ops env' = compiler ops env \<and>
      (\<forall>k. flags ops env' k = flags ops env k @
         added (cc \<noteq> None \<and> flags ops env ''CCFLAGS'' = []) (cxx \<noteq> None \<and> flags ops env ''CXXFLAGS'' = []) p k))) \<and>
    (t = Some IccTraits \<or> t = Some MsvcTraits \<longrightarrow> configure ops p env = Inl AttributeError) \<and>
    (t = None \<longrightarrow> configure ops p env = Inr env)"
proof (intro conjI impI)
  obtain ol wl dl o' d where pf: "dict_lookup profiles p = Inr (ol, wl, dl)" "get_optimization_flags GccTraits ol = Some o'"
      "get_debug_flags GccTraits dl = Some (d, snd (gcc_profile p))" "o' @ d = fst (gcc_profile p)"
      "get_warnings_flags GccTraits wl = []" "\<forall>t. get_debug_flags t dl \<noteq> None"
    using profile_flags [OF p] by blast
  {
    assume gcc: "t = Some GccTraits"
    show "\<exists>env'. configure ops p env = Inr env' \<and> compiler ops env' = compiler ops env \<and>
      (\<forall>k. flags ops env' k = flags ops env k @
         added (cc \<noteq> None \<and> flags ops env ''CCFLAGS'' = []) (cxx \<noteq> None \<and> flags ops env ''CXXFLAGS'' = []) p k)"
      by (rule configure_gcc_flags [OF ops cc cxx some t [unfolded gcc] pf(1-3) pf(5) pf(4) refl refl])
  next
    assume "t = Some IccTraits \<or> t = Some MsvcTraits"
    then obtain tr where tr: "t = Some tr" "get_cxx_version_flags tr = Inl AttributeError"
      by (auto simp: get_cxx_version_flags_def)
    obtain d ds where "get_debug_flags tr dl = Some (d, ds)" using pf(6) by (metis option.exhaust prod.exhaust)
    then show "configure ops p env = Inl AttributeError"
      using some tr(2) unfolding configure_def Let_def cc cxx t tr(1) pf(1) by auto
  next
    assume "t = None"
    then show "configure ops p env = Inr env" using some t unfolding configure_def Let_def cc cxx by auto
  }
qed

definition demo_waf :: "(string, string list) dict waf_ops" where
  "demo_waf = \<lparr>compiler = \<lambda>env k. concat (dict_getdefault env (''-'' @ k) []), flags = \<lambda>env k. dict_getdefault env (''+'' @ k) [],
     append_value = \<lambda>env k v. case v of None \<Rightarrow> Inl TypeError
       | Some xs \<Rightarrow> Inr (dict_set env (''+'' @ k) (dict_getdefault env (''+'' @ k) [] @ xs))\<rparr>"

lemma demo_waf_env: "waf_env demo_waf"
  by (auto simp: waf_env_def demo_waf_def dict_getdefault_def fun_eq_iff split: option.splits)

theorem configure_spec_witness:
  "(\<exists>env'. configure demo_waf ''debug'' [(''-COMPILER_CXX'', [''g++''])] = Inr env' \<and>
      flags demo_waf env' ''CXXFLAGS'' = [''-O0'', ''-ggdb'', ''-g3'', ''-std=gnu++11''] \<and> flags demo_waf env' ''CCFLAGS'' = []) \<and>
   configure demo_waf ''debug'' [(''-COMPILER_CC'', [''icc''])] = Inl AttributeError"
proof (intro conjI)
  have p: "''debug'' \<in> fst ` set profiles" by (simp add: profiles_def)
  let ?e = "[(''-COMPILER_CXX'', [''g++''])]" and ?f = "[(''-COMPILER_CC'', [''icc''])]"
  have "or_none (compiler demo_waf ?e ''COMPILER_CC'') = None" "or_none (compiler demo_waf ?e ''COMPILER_CXX'') = Some ''g++''"
      "flags demo_waf ?e k = []" for k
    by (simp_all add: demo_waf_def dict_getdefault_def or_none_def)
  then show "\<exists>env'. configure demo_waf ''debug'' ?e = Inr env' \<and>
      flags demo_waf env' ''CXXFLAGS'' = [''-O0'', ''-ggdb'', ''-g3'', ''-std=gnu++11''] \<and> flags demo_waf env' ''CCFLAGS'' = []"
    using configure_spec [OF demo_waf_env p, of ?e None "Some ''g++''" "Some GccTraits"]
    by (auto simp: map_compiler_def compiler_mapping_def added_def gcc_profile_def dict_getdefault_def)
  have "or_none (compiler demo_waf ?f ''COMPILER_CC'') = Some ''icc''" "or_none (compiler demo_waf ?f ''COMPILER_CXX'') = None"
    by (simp_all add: demo_waf_def dict_getdefault_def or_none_def)
  then show "configure demo_waf ''debug'' ?f = Inl AttributeError"
    using configure_spec [OF demo_waf_env p, of ?f "Some ''icc''" None "Some IccTraits"]
    by (simp add: map_compiler_def compiler_mapping_def)
qed

end
