(* ===== verification/Wutils.thy ===== *)
theory Wutils
  imports Py_Base
begin

text \<open>
  \<open>src/wutils.py\<close>: how \<open>./waf --run\<close> finds a program of the build, makes its command line and
  environment, runs it and reports how it ended.

  The record \<open>wutils_world\<close> holds what the functions read: waf's options, the build
  environment and the programs of the build, the process's directory, platform and
  environment, and the table of signals. \<open>Popen(...).wait()\<close> is its function
  \<open>w_popen\<close>, which gives the exit status and the lines on the standard error. Of the paths the
  posix module is modelled, and of \<open>\%\<close> on strings the conversions \<open>\%s\<close> and \<open>\%\%\<close>.
\<close>

section \<open>Paths\<close>

definition norm_step :: "nat \<Rightarrow> string list \<Rightarrow> string \<Rightarrow> string list" where
  "norm_step initial_slashes new_comps c =
     (if c = [] \<or> c = ''.'' then new_comps
      else if c \<noteq> ''..'' \<or> initial_slashes = 0 \<and> new_comps = [] \<or> new_comps \<noteq> [] \<and> List.last new_comps = ''..''
      then new_comps @ [c] else butlast new_comps)"

definition initial_slashes :: "string \<Rightarrow> nat" where
  "initial_slashes path =
     (if starts_with path ''/'' then if starts_with path ''//'' \<and> \<not> starts_with path ''///'' then 2 else 1 else 0)"

definition normpath :: "string \<Rightarrow> string" where
  "normpath path =
     (let n = initial_slashes path;
          p = replicate n (CHR ''/'') @ join_with ''/'' (foldl (norm_step n) [] (split_on (CHR ''/'') path))
      in if path = [] \<or> p = [] then ''.'' else p)"

definition abspath :: "string \<Rightarrow> string \<Rightarrow> string" where
  "abspath cwd path = normpath (if starts_with path ''/'' then path else path_join cwd path)"

text \<open>\<open>os.path.commonprefix\<close> of two lists.\<close>

fun commonprefix :: "'a list \<Rightarrow> 'a list \<Rightarrow> 'a list" where
  "commonprefix (x # xs) (y # ys) = (if x = y then x # commonprefix xs ys else [])"
| "commonprefix xs ys = []"

definition rel_list :: "string list \<Rightarrow> string list \<Rightarrow> string list" where
  "rel_list start_list path_list =
     (let i = length (commonprefix start_list path_list)
      in replicate (length start_list - i) ''..'' @ drop i path_list)"

definition relpath :: "string \<Rightarrow> string \<Rightarrow> string \<Rightarrow> py_exn + string" where
  "relpath cwd path start =
     (if path = [] then Inl ValueError
      else let rel = rel_list (split_on (CHR ''/'') (abspath cwd start)) (split_on (CHR ''/'') (abspath cwd path))
           in if rel = [] then Inr ''.'' else Inr (foldl path_join (hd rel) (tl rel)))"

section \<open>Command lines\<close>

text \<open>\<open>shlex.split\<close>: between words, in a word, in quotes, after a backslash (in quotes or not).\<close>

datatype lex_state = LBlank | LWord | LQuote char | LEscape "char option"

fun shlex :: "lex_state \<Rightarrow> string \<Rightarrow> string list \<Rightarrow> string \<Rightarrow> py_exn + string list" where
  "shlex LBlank token acc [] = Inr acc"
| "shlex LWord token acc [] = Inr (acc @ [token])"
| "shlex (LQuote q) token acc [] = Inl ValueError"
| "shlex (LEscape e) token acc [] = Inl ValueError"
| "shlex LBlank token acc (c # s) =
     (if c \<in> {CHR '' '', CHR 0x09, CHR 0x0D, CHR 0x0A} then shlex LBlank [] acc s
      else if c = CHR 0x5C then shlex (LEscape None) [] acc s
      else if c = CHR 0x27 \<or> c = CHR 0x22 then shlex (LQuote c) [] acc s
      else shlex LWord [c] acc s)"
| "shlex LWord token acc (c # s) =
     (if c \<in> {CHR '' '', CHR 0x09, CHR 0x0D, CHR 0x0A} then shlex LBlank [] (acc @ [token]) s
      else if c = CHR 0x27 \<or> c = CHR 0x22 then shlex (LQuote c) token acc s
      else if c = CHR 0x5C then shlex (LEscape None) token acc s
      else shlex LWord (token @ [c]) acc s)"
| "shlex (LQuote q) token acc (c # s) =
     (if c = q then shlex LWord token acc s
      else if c = CHR 0x5C \<and> q = CHR 0x22 then shlex (LEscape (Some q)) token acc s
      else shlex (LQuote q) (token @ [c]) acc s)"
| "shlex (LEscape None) token acc (c # s) = shlex LWord (token @ [c]) acc s"
| "shlex (LEscape (Some q)) token acc (c # s) =
     shlex (LQuote q) (if c \<noteq> CHR 0x5C \<and> c \<noteq> q then token @ [CHR 0x5C, c] else token @ [c]) acc s"

definition shlex_split :: "string \<Rightarrow> py_exn + string list" where
  "shlex_split s = shlex LBlank [] [] s"

text \<open>\<open>template % (arg,)\<close>: exactly one argument has to be used.\<close>

fun percent :: "string \<Rightarrow> string list \<Rightarrow> py_exn + string" where
  "percent [] args = (if args = [] then Inr [] else Inl TypeError)"
| "percent (c # s) args =
     (if c \<noteq> CHR ''%'' then py_bind (percent s args) (\<lambda>r. Inr (c # r))
      else case s of
        [] \<Rightarrow> Inl ValueError
      | d # s' \<Rightarrow>
          if d = CHR ''%'' then py_bind (percent s' args) (\<lambda>r. Inr (c # r))
          else if d = CHR ''s'' then (case args of [] \<Rightarrow> Inl TypeError
                 | a # as \<Rightarrow> py_bind (percent s' as) (\<lambda>r. Inr (a @ r)))
          else Inl ValueError)"

definition double_backslashes :: "string \<Rightarrow> string" where
  "double_backslashes s = concat (map (\<lambda>c. if c = CHR 0x5C then [c, c] else [c]) s)"

definition get_command_template :: "string \<Rightarrow> string list \<Rightarrow> string" where
  "get_command_template option_template arguments =
     foldl (\<lambda>cmd arg. cmd @ '' '' @ arg) (if option_template = [] then ''%s'' else option_template) arguments"

section \<open>Programs of the build\<close>

record task_gen =
  is_ns3_program :: bool
  tg_name :: string
  tg_path :: string
  tg_bld :: string
  tg_node :: string

record wutils_world =
  w_cwd :: string
  w_launch_dir :: string
  w_options_cwd_launch :: string
  w_cwd_launch :: string
  w_platform :: string
  w_environ :: "(string, string) dict"
  w_template :: string
  w_valgrind :: bool
  w_valgrind_program :: string
  w_module_path :: "string list"
  w_executable_path :: "string list"
  w_pymoddir :: string
  w_pyvizdir :: string
  w_python :: string
  w_programs :: "task_gen list"
  w_signals :: "(string \<times> int) list"
  w_popen :: "string list \<Rightarrow> (string, string) dict \<Rightarrow> string option \<Rightarrow> int \<times> string list"

datatype run_error =
    PyError py_exn
  | ProgramNotFound string "string list"
  | NoPathSpecified
  | ConflictingOptions
  | NoValgrind
  | TerminatedBySignal "string list" string
  | ExitedWith "string list" int

definition py_try :: "py_exn + 'a \<Rightarrow> run_error + 'a" where
  "py_try m = (case m of Inl e \<Rightarrow> Inl (PyError e) | Inr x \<Rightarrow> Inr x)"

text \<open>The \<open>ValueError\<close> of \<open>relpath\<close> in the search, which the callers turn into a \<open>WafError\<close>.\<close>

definition path_try :: "py_exn + 'a \<Rightarrow> run_error + 'a" where
  "path_try m = (case m of Inl e \<Rightarrow> Inl NoPathSpecified | Inr x \<Rightarrow> Inr x)"

fun find_loop :: "wutils_world \<Rightarrow> string \<Rightarrow> string \<Rightarrow> string list \<Rightarrow> task_gen list \<Rightarrow> run_error + task_gen" where
  "find_loop w launch_dir program_name found_programs [] = Inl (ProgramNotFound program_name found_programs)"
| "find_loop w launch_dir program_name found_programs (obj # objs) =
     (if \<not> is_ns3_program obj then find_loop w launch_dir program_name found_programs objs
      else if \<not> (starts_with (tg_path obj) launch_dir \<or> starts_with (tg_bld obj) launch_dir)
      then find_loop w launch_dir program_name found_programs objs
      else py_bind (path_try (relpath (w_cwd w) (tg_path obj) launch_dir)) (\<lambda>rel.
        let names = [tg_name obj, path_join rel (tg_name obj)]
        in if program_name \<in> set names then Inr obj
           else find_loop w launch_dir program_name (found_programs @ names) objs))"

definition find_program :: "wutils_world \<Rightarrow> string \<Rightarrow> run_error + task_gen" where
  "find_program w program_name = find_loop w (abspath (w_cwd w) (w_launch_dir w)) program_name [] (w_programs w)"

definition pathsep :: "wutils_world \<Rightarrow> string" where
  "pathsep w = (if w_platform w = ''win32'' then '';'' else '':'')"

definition pathvar :: "wutils_world \<Rightarrow> string" where
  "pathvar w =
     (if w_platform w = ''linux2'' then ''LD_LIBRARY_PATH''
      else if w_platform w = ''darwin'' then ''DYLD_LIBRARY_PATH''
      else if w_platform w = ''win32'' \<or> w_platform w = ''cygwin'' then ''PATH''
      else ''LD_LIBRARY_PATH'')"

definition prepend_path :: "wutils_world \<Rightarrow> string list \<Rightarrow> string \<Rightarrow> (string, string) dict \<Rightarrow> (string, string) dict" where
  "prepend_path w dirs var proc_env =
     (case dict_get proc_env var of
        Some v \<Rightarrow> dict_set proc_env var (join_with (pathsep w) (dirs @ [v]))
      | None \<Rightarrow> dict_set proc_env var (join_with (pathsep w) dirs))"

definition get_proc_env :: "wutils_world \<Rightarrow> (string, string) dict option \<Rightarrow> (string, string) dict" where
  "get_proc_env w os_env =
     (let proc_env = (case os_env of None \<Rightarrow> w_environ w | Some e \<Rightarrow> dict_update (w_environ w) e);
          proc_env = prepend_path w (w_module_path w) (pathvar w) proc_env;
          proc_env = prepend_path w [w_pymoddir w, w_pyvizdir w] ''PYTHONPATH'' proc_env
      in prepend_path w (w_executable_path w) ''PATH'' proc_env)"

section \<open>Running\<close>

definition find_signal :: "wutils_world \<Rightarrow> int \<Rightarrow> string option" where
  "find_signal w retval =
     map_option fst (List.find (\<lambda>(name, val). 3 < length name \<and> take 3 name = ''SIG'' \<and> name ! 3 \<noteq> CHR ''_'' \<and> val = - retval)
       (w_signals w))"

definition check_retval :: "wutils_world \<Rightarrow> string list \<Rightarrow> int \<Rightarrow> run_error + int" where
  "check_retval w argv retval =
     (if retval = 0 then Inr retval
      else case (if retval < 0 then find_signal w retval else None) of
        Some signame \<Rightarrow> Inl (TerminatedBySignal argv signame)
      | None \<Rightarrow> Inl (ExitedWith argv retval))"

definition run_argv ::
  "wutils_world \<Rightarrow> string list \<Rightarrow> (string, string) dict option \<Rightarrow> string option \<Rightarrow> bool \<Rightarrow> run_error + int" where
  "run_argv w argv os_env cwd force_no_valgrind =
     (let proc_env = get_proc_env w os_env
      in if w_valgrind w \<and> \<not> force_no_valgrind
         then if w_template w \<noteq> [] then Inl ConflictingOptions
              else if w_valgrind_program w = [] then Inl NoValgrind
              else let argv = [w_valgrind_program w, ''--leak-check=full'', ''--show-reachable=yes'', ''--error-exitcode=1''] @ argv;
                       (retval, stderr) = w_popen w argv proc_env cwd;
                       error = list_ex (is_substring ''== LEAK SUMMARY'') stderr;
                       retval = (if retval = 0 \<and> error then 1 else retval)
                   in check_retval w argv retval
         else check_retval w argv (fst (w_popen w argv proc_env cwd)))"

definition get_run_program :: "wutils_world \<Rightarrow> string \<Rightarrow> string option \<Rightarrow> run_error + (string \<times> string list)" where
  "get_run_program w program_string command_template =
     (if command_template \<in> {None, Some ''%s''} then
        py_bind (py_try (shlex_split program_string)) (\<lambda>argv.
        py_bind (py_try (py_index argv 0)) (\<lambda>program_name.
        py_bind (find_program w program_name) (\<lambda>obj. Inr (program_name, tg_node obj # tl argv))))
      else
        py_bind (find_program w program_string) (\<lambda>obj.
        py_bind (py_try (percent (the command_template) [tg_node obj])) (\<lambda>t.
        py_bind (py_try (shlex_split (double_backslashes t))) (\<lambda>execvec. Inr (program_string, execvec)))))"

definition visualize_option :: string where
  "visualize_option = ''--SimulatorImplementationType=ns3::VisualSimulatorImpl''"

definition launch_cwd :: "wutils_world \<Rightarrow> string" where
  "launch_cwd w = (if w_options_cwd_launch w \<noteq> [] then w_options_cwd_launch w else w_cwd_launch w)"

definition run_program :: "wutils_world \<Rightarrow> string \<Rightarrow> string option \<Rightarrow> string option \<Rightarrow> bool \<Rightarrow> run_error + int" where
  "run_program w program_string command_template cwd visualize =
     py_bind (get_run_program w program_string command_template) (\<lambda>(name, execvec).
       run_argv w (if visualize then execvec @ [visualize_option] else execvec) None
         (case cwd of None \<Rightarrow> Some (launch_cwd w) | Some d \<Rightarrow> Some d) False)"

definition run_python_program :: "wutils_world \<Rightarrow> string \<Rightarrow> bool \<Rightarrow> run_error + int" where
  "run_python_program w program_string visualize =
     py_bind (py_try (shlex_split program_string)) (\<lambda>execvec.
       run_argv w (w_python w # (if visualize then execvec @ [visualize_option] else execvec)) None (Some (launch_cwd w)) False)"
section \<open>A relative path leads back\<close>

definition comps :: "string \<Rightarrow> string list" where
  "comps path = filter (\<lambda>c. c \<noteq> [] \<and> c \<noteq> ''.'') (split_on (CHR ''/'') path)"

definition clean :: "string \<Rightarrow> bool" where
  "clean c \<longleftrightarrow> c \<noteq> [] \<and> c \<noteq> ''.'' \<and> c \<noteq> ''..'' \<and> CHR ''/'' \<notin> set c"

definition root_path :: "string list \<Rightarrow> string" where
  "root_path cs = ''/'' @ join_with ''/'' cs"

lemma comps_slash: "comps (a @ ''/'' @ b) = comps a @ comps b"
  by (simp add: comps_def split_on_sep)

lemma comps_join: "\<not> starts_with b ''/'' \<Longrightarrow> comps (path_join a b) = comps a @ comps b"
proof -
  assume b: "\<not> starts_with b ''/''"
  have "comps (a @ b) = comps a @ comps b" if "ends_with a ''/''"
  proof -
    from that obtain a' where "a = a' @ ''/''" unfolding ends_with_iff by blast
    then show ?thesis using comps_slash [of a' b] comps_slash [of a' "[]"] by (simp add: comps_def)
  qed
  moreover have "comps [] = []" by (simp add: comps_def)
  ultimately show ?thesis using b comps_slash [of a b] by (auto simp: path_join_def)
qed

lemma comps_joins:
  "\<forall>b\<in>set bs. \<not> starts_with b ''/'' \<Longrightarrow> comps (foldl path_join a bs) = comps a @ concat (map comps bs)"
  by (induction bs arbitrary: a) (simp_all add: comps_join)

lemma joins_relative:
  "\<not> starts_with a ''/'' \<Longrightarrow> \<forall>b\<in>set bs. \<not> starts_with b ''/'' \<Longrightarrow> \<not> starts_with (foldl path_join a bs) ''/''"
proof (induction bs arbitrary: a)
  case (Cons b bs)
  have "\<not> starts_with (path_join a b) ''/''"
    using Cons(2,3) by (cases a) (auto simp: path_join_def starts_with_def)
  then show ?case using Cons by simp
qed simp

lemma clean_comps: "clean c \<Longrightarrow> comps c = [c]" "comps [] = []" "comps ''..'' = [''..'']"
  by (auto simp: comps_def clean_def split_on_no_sep)

lemma clean_not_abs: "clean c \<Longrightarrow> \<not> starts_with c ''/''"
  by (cases c) (auto simp: clean_def starts_with_def)

lemma fold_comps: "foldl (norm_step n) st (split_on (CHR ''/'') path) = foldl (norm_step n) st (comps path)"
proof -
  have "foldl (norm_step n) st cs = foldl (norm_step n) st (filter (\<lambda>c. c \<noteq> [] \<and> c \<noteq> ''.'') cs)" for cs
    by (induction cs arbitrary: st) (auto simp: norm_step_def)
  then show ?thesis by (simp add: comps_def)
qed

lemma fold_clean: "list_all clean cs \<Longrightarrow> foldl (norm_step n) st cs = st @ cs"
  by (induction cs arbitrary: st) (auto simp: norm_step_def clean_def)

lemma fold_up: "list_all clean a \<Longrightarrow> foldl (norm_step 1) (st @ a) (replicate (length a) ''..'') = st"
proof (induction a rule: rev_induct)
  case (snoc x a)
  then have "norm_step 1 (st @ a @ [x]) ''..'' = st @ a"
    by (auto simp: norm_step_def clean_def butlast_append)
  then show ?case using snoc by simp
qed simp

lemma root_split: "list_all clean cs \<Longrightarrow> split_on (CHR ''/'') (root_path cs) = [] # (if cs = [] then [[]] else cs)"
  using split_on_join [of cs "CHR ''/''"] by (auto simp: root_path_def clean_def list_all_iff)

lemma root_comps: "list_all clean cs \<Longrightarrow> comps (root_path cs) = cs"
  by (auto simp: comps_def root_split clean_def list_all_iff intro!: filter_True)

definition no_slash_first :: "string \<Rightarrow> bool" where
  "no_slash_first q \<longleftrightarrow> (q = [] \<or> hd q \<noteq> CHR ''/'')"

lemma initial_one: "no_slash_first q \<Longrightarrow> initial_slashes (CHR ''/'' # q) = 1"
  by (cases q) (auto simp: no_slash_first_def initial_slashes_def starts_with_def)

lemma no_slash_first_iff: "no_slash_first q \<longleftrightarrow> \<not> starts_with q ''/''"
  by (cases q) (auto simp: no_slash_first_def starts_with_def)

lemma clean_join_first: "list_all clean cs \<Longrightarrow> no_slash_first (join_with ''/'' cs)"
  by (cases cs; cases "tl cs") (auto simp: no_slash_first_def clean_def dest: hd_in_set)

lemma root_initial:
  assumes "list_all clean cs" "\<not> starts_with r ''/''"
  shows "initial_slashes (path_join (root_path cs) r) = 1 \<and> initial_slashes (root_path cs) = 1"
proof -
  define q where "q = join_with ''/'' cs"
  have q: "no_slash_first q" using clean_join_first [OF assms(1)] by (simp add: q_def)
  have "path_join (root_path cs) r = CHR ''/'' # (if q = [] then r else if ends_with (CHR ''/'' # q) ''/'' then q @ r else q @ ''/'' @ r)"
    using assms(2) by (simp add: path_join_def root_path_def q_def [symmetric]) (simp add: ends_with_def)
  moreover have "no_slash_first (if q = [] then r else if ends_with (CHR ''/'' # q) ''/'' then q @ r else q @ ''/'' @ r)"
    using q assms(2) no_slash_first_iff [of r] by (auto simp: no_slash_first_def)
  ultimately have "initial_slashes (path_join (root_path cs) r) = 1" by (simp only: initial_one)
  then show ?thesis using q by (simp add: root_path_def q_def initial_one)
qed

lemma normpath_root:
  assumes "initial_slashes p = 1" "foldl (norm_step 1) [] (comps p) = cs" "p \<noteq> []"
  shows "normpath p = root_path cs"
  using assms by (simp add: normpath_def fold_comps root_path_def)

lemma root_path_abs: "starts_with (root_path cs) ''/''" "root_path cs \<noteq> []"
  by (simp_all add: root_path_def starts_with_def)

lemma abspath_root: "list_all clean cs \<Longrightarrow> abspath cwd (root_path cs) = root_path cs"
  using normpath_root [of "root_path cs" cs] root_initial [of cs "[]"] fold_clean [of cs 1 "[]"]
  by (simp add: abspath_def root_path_abs root_comps) (simp add: starts_with_def)

lemma commonprefix_split: "\<exists>a b. xs = commonprefix xs ys @ a \<and> ys = commonprefix xs ys @ b"
  by (induction xs ys rule: commonprefix.induct) auto

lemma rel_list_split: "\<exists>pre a b. xs = pre @ a \<and> ys = pre @ b \<and> rel_list xs ys = replicate (length a) ''..'' @ b \<and> pre = commonprefix xs ys"
proof -
  obtain a b where ab: "xs = commonprefix xs ys @ a" "ys = commonprefix xs ys @ b" using commonprefix_split by blast
  have "length xs - length (commonprefix xs ys) = length a" using ab(1) by (metis add_diff_cancel_left' length_append)
  moreover have "drop (length (commonprefix xs ys)) ys = b" using ab(2) by (metis append_eq_conv_conj)
  ultimately show ?thesis using ab by (auto simp: rel_list_def Let_def)
qed

lemma concat_comps: "list_all (\<lambda>c. clean c \<or> c = []) b \<Longrightarrow> concat (map comps b) = filter (\<lambda>c. c \<noteq> []) b"
  by (induction b) (auto simp: clean_comps clean_def)

lemma concat_ups: "concat (map comps (replicate n ''..'')) = replicate n ''..''"
  by (induction n) (simp_all add: clean_comps)

lemma fold_root_up: "foldl (norm_step 1) [] (replicate n ''..'') = []"
  by (induction n) (simp_all add: norm_step_def)

text \<open>Going up what is left of the start and down what is left of the path.\<close>

lemma fold_rel:
  assumes ss: "list_all clean ss" and ps: "list_all clean ps"
    and s: "[] # (if ss = [] then [[]] else ss) = pre @ a" and p: "[] # (if ps = [] then [[]] else ps) = pre @ b"
    and pre: "pre = commonprefix ([] # (if ss = [] then [[]] else ss)) ([] # (if ps = [] then [[]] else ps))"
  shows "foldl (norm_step 1) ss (concat (map comps (replicate (length a) ''..'' @ b))) = ps"
proof -
  obtain pre' where pre': "pre = [] # pre'" using pre by simp
  have b: "list_all (\<lambda>c. clean c \<or> c = []) b" "filter (\<lambda>c. c \<noteq> []) (pre' @ b) = ps"
    using p ps by (auto simp: pre' clean_def list_all_iff filter_id_conv Cons_eq_append_conv split: if_splits)
  have clean_b: "list_all clean (filter (\<lambda>c. c \<noteq> []) b)" using b(1) by (auto simp: list_all_iff)
  have up: "foldl (norm_step 1) ss (replicate (length a) ''..'') = filter (\<lambda>c. c \<noteq> []) pre'"
  proof (cases "ss = []")
    case True
    then have "pre' = [] \<or> pre' = [[]]" using s by (auto simp: pre' Cons_eq_append_conv)
    then show ?thesis using True fold_root_up by auto
  next
    case False
    then have "ss = pre' @ a" using s by (simp add: pre')
    moreover then have "filter (\<lambda>c. c \<noteq> []) pre' = pre'" using ss by (auto simp: list_all_iff clean_def filter_id_conv)
    ultimately show ?thesis using fold_up [of a pre'] ss by simp
  qed
  have "foldl (norm_step 1) ss (concat (map comps (replicate (length a) ''..'' @ b)))
      = foldl (norm_step 1) (filter (\<lambda>c. c \<noteq> []) pre') (filter (\<lambda>c. c \<noteq> []) b)"
    by (simp only: map_append concat_append concat_ups foldl_append up concat_comps [OF b(1)])
  also have "\<dots> = ps" using b(2) by (simp add: fold_clean [OF clean_b])
  finally show ?thesis .
qed

lemma relpath_resolves:
  assumes ss: "list_all clean ss" and ps: "list_all clean ps"
  shows "\<exists>rel. relpath cwd (root_path ps) (root_path ss) = Inr rel \<and> normpath (path_join (root_path ss) rel) = root_path ps"
proof -
  let ?s = "[] # (if ss = [] then [[]] else ss)" and ?p = "[] # (if ps = [] then [[]] else ps)"
  obtain pre a b where sp: "?s = pre @ a" "?p = pre @ b" "rel_list ?s ?p = replicate (length a) ''..'' @ b" "pre = commonprefix ?s ?p"
    using rel_list_split by blast
  define r where "r = replicate (length a) ''..'' @ b"
  define rel where "rel = (if r = [] then ''.'' else foldl path_join (hd r) (tl r))"
  have rp: "relpath cwd (root_path ps) (root_path ss) = Inr rel"
    using sp(3) by (simp add: relpath_def abspath_root ss ps root_split root_path_abs r_def rel_def Let_def)
  have "list_all (\<lambda>c. clean c \<or> c = []) b"
  proof -
    have "b = tl ?p \<or> (\<exists>k. b = drop k ?p)" using sp(2) by (metis append_eq_conv_conj)
    moreover have "pre \<noteq> []" using sp(4) by simp
    then have "set b \<subseteq> set (tl ?p)" using sp(2) by (cases pre) auto
    ultimately show ?thesis using ps by (auto simp: list_all_iff split: if_splits)
  qed
  then have rel_ok: "\<forall>c\<in>set r. \<not> starts_with c ''/''" using clean_not_abs by (auto simp: r_def list_all_iff starts_with_def)
  have abs: "\<not> starts_with rel ''/''"
    using joins_relative [of "hd r" "tl r"] rel_ok by (cases r) (auto simp: rel_def starts_with_def)
  have "comps rel = concat (map comps r)"
    using comps_joins [of "tl r" "hd r"] rel_ok by (cases r) (simp_all add: rel_def comps_def)
  then have "comps (path_join (root_path ss) rel) = ss @ concat (map comps r)"
    by (simp add: comps_join [OF abs] root_comps ss)
  then have "foldl (norm_step 1) [] (comps (path_join (root_path ss) rel)) = ps"
    using fold_rel [OF ss ps sp(1,2,4)] fold_clean [OF ss, of 1 "[]"] by (simp add: r_def)
  moreover have "path_join (root_path ss) rel \<noteq> []" by (auto simp: path_join_def root_path_def starts_with_def)
  ultimately have "normpath (path_join (root_path ss) rel) = root_path ps"
    using root_initial [OF ss abs] normpath_root by blast
  then show ?thesis using rp by blast
qed

section \<open>Running a program\<close>

lemma find_loop_Inr:
  "find_loop w dir name found objs = Inr obj \<Longrightarrow>
   obj \<in> set objs \<and> is_ns3_program obj \<and> (starts_with (tg_path obj) dir \<or> starts_with (tg_bld obj) dir) \<and>
   (\<exists>rel. relpath (w_cwd w) (tg_path obj) dir = Inr rel \<and> (name = tg_name obj \<or> name = path_join rel (tg_name obj)))"
proof (induction objs arbitrary: found)
  case (Cons x objs)
  show ?case
  proof (cases "is_ns3_program x \<and> (starts_with (tg_path x) dir \<or> starts_with (tg_bld x) dir)")
    case True
    then obtain rel where rel: "relpath (w_cwd w) (tg_path x) dir = Inr rel"
      using Cons.prems by (cases "relpath (w_cwd w) (tg_path x) dir") (auto simp: path_try_def)
    show ?thesis
    proof (cases "name = tg_name x \<or> name = path_join rel (tg_name x)")
      case hit: True
      then have "obj = x" using Cons.prems True rel by (auto simp: path_try_def Let_def)
      then show ?thesis using True rel hit by auto
    next
      case False
      then have "find_loop w dir name (found @ [tg_name x, path_join rel (tg_name x)]) objs = Inr obj"
        using Cons.prems True rel by (auto simp: path_try_def Let_def)
      then show ?thesis using Cons.IH by fastforce
    qed
  next
    case False
    then have "find_loop w dir name found objs = Inr obj" using Cons.prems by (auto split: if_splits)
    then show ?thesis using Cons.IH by fastforce
  qed
qed simp

lemma check_retval_Inr: "check_retval w argv retval = Inr r \<longleftrightarrow> retval = 0 \<and> r = 0"
  by (auto simp: check_retval_def split: option.splits)

text \<open>What running a command line means, under valgrind or not.\<close>

definition ran_well :: "wutils_world \<Rightarrow> string list \<Rightarrow> string option \<Rightarrow> bool" where
  "ran_well w argv cwd \<longleftrightarrow>
     (if w_valgrind w
      then w_template w = [] \<and> w_valgrind_program w \<noteq> [] \<and>
        (\<exists>err. w_popen w ([w_valgrind_program w, ''--leak-check=full'', ''--show-reachable=yes'', ''--error-exitcode=1''] @ argv)
           (get_proc_env w None) cwd = (0, err) \<and> \<not> list_ex (is_substring ''== LEAK SUMMARY'') err)
      else fst (w_popen w argv (get_proc_env w None) cwd) = 0)"

lemma run_argv_Inr: "run_argv w argv None cwd False = Inr r \<longleftrightarrow> r = 0 \<and> ran_well w argv cwd"
  by (auto simp: run_argv_def ran_well_def Let_def check_retval_Inr split: prod.splits)

lemma prepend_path_get:
  "dict_get (prepend_path w dirs var e) k = (if k = var then Some (join_with (pathsep w) (dirs @ (case dict_get e var of None \<Rightarrow> [] | Some v \<Rightarrow> [v])))
     else dict_get e k)"
  by (auto simp: prepend_path_def split: option.splits)

lemma proc_env_get:
  "dict_get (get_proc_env w None) k =
     (if k \<in> {pathvar w, ''PYTHONPATH'', ''PATH''} then dict_get (get_proc_env w None) k else dict_get (w_environ w) k)"
  by (simp add: get_proc_env_def prepend_path_get Let_def)

lemma proc_env_path:
  "pathvar w \<noteq> ''PATH'' \<Longrightarrow> dict_get (get_proc_env w None) ''PATH'' =
     Some (join_with (pathsep w) (w_executable_path w @ (case dict_get (w_environ w) ''PATH'' of None \<Rightarrow> [] | Some v \<Rightarrow> [v])))"
  by (simp add: get_proc_env_def prepend_path_get Let_def)

text \<open>What it means for a directory to begin with the text of the launch directory: it is below it, or below a directory beside it
  whose name begins with that of the launch directory.\<close>

lemma starts_with_component:
  assumes "CHR ''/'' \<notin> set a" "a \<noteq> []" "CHR ''/'' \<notin> set c"
  shows "(\<exists>t. c @ ''/'' @ s = a @ t) \<longleftrightarrow> (\<exists>ext. c = a @ ext)" "(\<exists>t. c @ ''/'' @ s = a @ ''/'' @ t) \<longleftrightarrow> c = a \<and> (\<exists>t. s = t)"
  using assms by (auto simp: append_eq_append_conv2 append_eq_Cons_conv Cons_eq_append_conv)

lemma join_prefix:
  assumes "list_all clean ls" "list_all clean cs" "ls \<noteq> []"
  shows "(\<exists>t. join_with ''/'' cs = join_with ''/'' ls @ t) \<longleftrightarrow> (\<exists>ext rest. cs = butlast ls @ (last ls @ ext) # rest)"
  using assms
proof (induction ls arbitrary: cs)
  case (Cons a ls)
  have a: "a \<noteq> []" "CHR ''/'' \<notin> set a" using Cons.prems(1) by (simp_all add: clean_def)
  show ?case
  proof (cases cs)
    case Nil
    then show ?thesis using a by (cases ls) simp_all
  next
    case (Cons c rest)
    have "clean c" and rest: "list_all clean rest" using Cons Cons.prems(2) by simp_all
    then have c: "c \<noteq> []" "CHR ''/'' \<notin> set c" by (simp_all add: clean_def)
    show ?thesis
    proof (cases ls)
      case Nil
      then show ?thesis using Cons a c by (cases rest) (auto simp: append_eq_append_conv2 append_eq_Cons_conv Cons_eq_append_conv)
    next
      case (Cons b ls')
      have "(\<exists>t. join_with ''/'' (c # rest) = join_with ''/'' (a # b # ls') @ t) \<longleftrightarrow>
          c = a \<and> rest \<noteq> [] \<and> (\<exists>t. join_with ''/'' rest = join_with ''/'' (b # ls') @ t)"
        using a c by (cases rest) (auto simp: append_eq_append_conv2 append_eq_Cons_conv Cons_eq_append_conv)
      then show ?thesis using Cons \<open>cs = c # rest\<close> Cons.IH [of rest] Cons.prems(1) rest by auto
    qed
  qed
qed simp

lemma starts_with_root:
  assumes "list_all clean ls" "list_all clean cs"
  shows "starts_with (root_path cs) (root_path ls) \<longleftrightarrow> ls = [] \<or> (\<exists>ext rest. cs = butlast ls @ (last ls @ ext) # rest)"
  using join_prefix [OF assms] by (cases "ls = []") (simp_all add: starts_with_iff root_path_def)

text \<open>C38: When \<open>./waf --run\<close> succeeds, without a command template, its exit status is 0 and what it ran
  is a program of the build whose directory in the source or in the build begins with the text of the launch directory: a directory below the
  launch directory, or below one beside it whose name only begins with the same text. The first word of the command is the
  program's name, or a path that leads from the launch directory to it; the other words are its
  arguments, with the visualizer's option last if asked for; the directories of the build come
  before the search path and no other variable of the environment but the three paths changes.\<close>

theorem run_program_spec:
  assumes dirs: "abspath (w_cwd w) (w_launch_dir w) = root_path ls" "list_all clean ls"
      "\<forall>obj\<in>set (w_programs w). \<exists>cs bs. list_all clean cs \<and> tg_path obj = root_path cs \<and> list_all clean bs \<and> tg_bld obj = root_path bs"
    and ok: "run_program w program_string None cwd visualize = Inr r"
  shows "r = 0 \<and> (\<exists>name args obj rel. shlex_split program_string = Inr (name # args) \<and>
      obj \<in> set (w_programs w) \<and> is_ns3_program obj \<and>
      (\<exists>cs ext rest. root_path cs \<in> {tg_path obj, tg_bld obj} \<and> (ls = [] \<or> cs = butlast ls @ (last ls @ ext) # rest)) \<and>
      (name = tg_name obj \<or> name = path_join rel (tg_name obj) \<and> normpath (path_join (root_path ls) rel) = tg_path obj) \<and>
      ran_well w (tg_node obj # args @ (if visualize then [visualize_option] else []))
        (case cwd of None \<Rightarrow> Some (launch_cwd w) | Some d \<Rightarrow> Some d)) \<and>
    (\<forall>k. k \<notin> {pathvar w, ''PYTHONPATH'', ''PATH''} \<longrightarrow> dict_get (get_proc_env w None) k = dict_get (w_environ w) k) \<and>
    (pathvar w \<noteq> ''PATH'' \<longrightarrow> dict_get (get_proc_env w None) ''PATH'' =
       Some (join_with (pathsep w) (w_executable_path w @ (case dict_get (w_environ w) ''PATH'' of None \<Rightarrow> [] | Some v \<Rightarrow> [v]))))"
proof -
  obtain words name obj where words: "shlex_split program_string = Inr words" "py_index words 0 = Inr name"
      and found: "find_program w name = Inr obj"
      and ran: "run_argv w (if visualize then (tg_node obj # tl words) @ [visualize_option] else tg_node obj # tl words) None
        (case cwd of None \<Rightarrow> Some (launch_cwd w) | Some d \<Rightarrow> Some d) False = Inr r"
    using ok by (fastforce simp: run_program_def get_run_program_def py_try_def split: sum.splits)
  have "words = name # tl words" using words(2) by (cases words) (auto simp: py_index_def)
  then have w1: "shlex_split program_string = Inr (name # tl words)" using words(1) by simp
  obtain rel where obj: "obj \<in> set (w_programs w)" "is_ns3_program obj"
      "starts_with (tg_path obj) (root_path ls) \<or> starts_with (tg_bld obj) (root_path ls)"
      "relpath (w_cwd w) (tg_path obj) (root_path ls) = Inr rel" "name = tg_name obj \<or> name = path_join rel (tg_name obj)"
    using find_loop_Inr [OF found [unfolded find_program_def dirs(1)]] by blast
  obtain cs bs where cs: "list_all clean cs" "tg_path obj = root_path cs" "list_all clean bs" "tg_bld obj = root_path bs"
    using obj(1) dirs(3) by blast
  have near: "\<exists>cs ext rest. root_path cs \<in> {tg_path obj, tg_bld obj} \<and> (ls = [] \<or> cs = butlast ls @ (last ls @ ext) # rest)"
    using obj(3) unfolding cs(2,4) starts_with_root [OF dirs(2) cs(1)] starts_with_root [OF dirs(2) cs(3)] by blast
  have "normpath (path_join (root_path ls) rel) = tg_path obj"
    using relpath_resolves [OF dirs(2) cs(1), of "w_cwd w"] obj(4) cs(2) by auto
  then have path: "name = tg_name obj \<or> name = path_join rel (tg_name obj) \<and> normpath (path_join (root_path ls) rel) = tg_path obj"
    using obj(5) by blast
  have well: "r = 0" "ran_well w (tg_node obj # tl words @ (if visualize then [visualize_option] else []))
        (case cwd of None \<Rightarrow> Some (launch_cwd w) | Some d \<Rightarrow> Some d)"
    using ran unfolding run_argv_Inr by (auto split: if_splits)
  have env: "\<forall>k. k \<notin> {pathvar w, ''PYTHONPATH'', ''PATH''} \<longrightarrow> dict_get (get_proc_env w None) k = dict_get (w_environ w) k"
    using proc_env_get [of w] by presburger
  show ?thesis
    by (intro conjI well(1) env impI proc_env_path exI [of _ name] exI [of _ "tl words"] exI [of _ obj] exI [of _ rel] w1 obj(1,2) near path well(2))
qed

definition demo_build :: wutils_world where
  "demo_build = \<lparr>w_cwd = ''/ns3'', w_launch_dir = ''/ns3'', w_options_cwd_launch = [], w_cwd_launch = ''/ns3'',
     w_platform = ''linux2'', w_environ = [(''HOME'', ''/root'')], w_template = [], w_valgrind = False, w_valgrind_program = [],
     w_module_path = [''/ns3/build''], w_executable_path = [''/ns3/build/utils''], w_pymoddir = ''/p'', w_pyvizdir = ''/v'',
     w_python = ''/usr/bin/python'',
     w_programs = [\<lparr>is_ns3_program = True, tg_name = ''third'', tg_path = ''/ns3/scratch'', tg_bld = ''/ns3/build/scratch'',
       tg_node = ''/ns3/build/scratch/third''\<rparr>],
     w_signals = [], w_popen = \<lambda>argv env cwd. (0, [])\<rparr>"

theorem run_program_spec_witness:
  "run_program demo_build ''scratch/third a'' None None False = Inr 0 \<and>
   dict_get (get_proc_env demo_build None) ''HOME'' = Some ''/root''"
proof -
  have dirs: "abspath (w_cwd demo_build) (w_launch_dir demo_build) = root_path [''ns3'']"
    by (simp add: demo_build_def abspath_def normpath_def initial_slashes_def starts_with_def norm_step_def root_path_def)
  have clean: "list_all clean [''ns3'']" "list_all clean [''ns3'', ''scratch'']" "list_all clean [''ns3'', ''build'', ''scratch'']" by (simp_all add: clean_def)
  have progs: "\<forall>obj\<in>set (w_programs demo_build). \<exists>cs bs. list_all clean cs \<and> tg_path obj = root_path cs \<and> list_all clean bs \<and> tg_bld obj = root_path bs"
    using clean(2,3) by (simp add: demo_build_def root_path_def)
      (rule exI [of _ "[''ns3'', ''scratch'']"], rule conjI, simp, rule conjI, simp, rule exI [of _ "[''ns3'', ''build'', ''scratch'']"], simp)
  have rel: "relpath ''/ns3'' ''/ns3/scratch'' (root_path [''ns3'']) = Inr ''scratch''"
    by (simp add: relpath_def rel_list_def abspath_def normpath_def initial_slashes_def starts_with_def norm_step_def root_path_def Let_def)
  have found: "find_program demo_build ''scratch/third'' = Inr (hd (w_programs demo_build))"
    unfolding find_program_def dirs
    by (simp add: demo_build_def rel path_try_def path_join_def starts_with_def ends_with_def root_path_def [of "[''ns3'']"] rel [unfolded root_path_def, simplified])
  have split: "shlex_split ''scratch/third a'' = Inr [''scratch/third'', ''a'']" by (simp add: shlex_split_def)
  have "run_program demo_build ''scratch/third a'' None None False = Inr 0"
    by (simp add: run_program_def get_run_program_def split py_try_def py_index_def found run_argv_Inr)
      (simp add: ran_well_def demo_build_def)
  then show ?thesis
    using run_program_spec [OF dirs clean(1) progs] by (fastforce simp: demo_build_def pathvar_def)
qed

text \<open>Launched from \<open>/ns3/scr\<close>, a program of \<open>/ns3/scratch\<close>, which is not below it, is found and run.\<close>

lemma program_beside_launch_dir: "run_program (demo_build\<lparr>w_launch_dir := ''/ns3/scr''\<rparr>) ''third'' None None False = Inr 0"
proof -
  let ?w = "demo_build\<lparr>w_launch_dir := ''/ns3/scr''\<rparr>"
  have dir: "abspath (w_cwd ?w) (w_launch_dir ?w) = ''/ns3/scr''"
    by (simp add: demo_build_def abspath_def normpath_def initial_slashes_def starts_with_def norm_step_def)
  have rel: "relpath ''/ns3'' ''/ns3/scratch'' ''/ns3/scr'' = Inr ''../scratch''"
    by (simp add: relpath_def rel_list_def abspath_def normpath_def initial_slashes_def starts_with_def norm_step_def path_join_def ends_with_def Let_def)
  have "find_program ?w ''third'' = Inr (hd (w_programs demo_build))"
    unfolding find_program_def dir by (simp add: demo_build_def rel path_try_def starts_with_def)
  moreover have "shlex_split ''third'' = Inr [''third'']" by (simp add: shlex_split_def)
  ultimately show ?thesis
    by (simp add: run_program_def get_run_program_def py_try_def py_index_def run_argv_Inr) (simp add: ran_well_def demo_build_def)
qed

end
