(* ===== verification/Build_Modules.thy ===== *)
theory Build_Modules
  imports Wutils "HOL-Library.List_Lexorder" "HOL-Library.Char_ord"
begin

text \<open>
  \<open>src/wscript\<close> and \<open>src/src/wscript\<close>: which modules of the simulator are built, and what of the build is left
  out with the others.

  A task generator of waf is a \<open>tgen\<close>, the record of \<open>Wutils\<close> with the attributes these scripts set; an attribute
  an object may lack is an option, and \<open>tg_id\<close> is the identity of the object. \<open>features\<close> is the string the
  scripts pass, so that \<open>in\<close> is a test for a substring. What waf does itself is a parameter: \<open>by_name\<close> is
  \<open>get_tgen_by_name\<close>, and a fresh object made by \<open>bld(...)\<close> is an argument of the functions that fill it in.
  The generators made by the \<open>wscript\<close> files of the modules and examples are arguments too. A local variable
  that may be unbound is an option.
\<close>

section \<open>Task generators\<close>

record tgen = task_gen +
  tg_id :: nat
  tg_features :: string
  tg_target :: string
  tg_use :: "string list"
  tg_module :: "string option"
  tg_headers :: "string list"
  tg_mode :: "string option"
  tg_deps :: "string list"
  is_ns3_module :: bool
  test_library_of :: "string option"
  ns3_module_dependencies :: "string list option"
  tg_install :: "string option"
  tg_static :: bool
  tg_test :: bool
  tg_flags :: "(string \<times> string list) list"

definition has_feature :: "tgen \<Rightarrow> string \<Rightarrow> bool" where
  "has_feature obj f = is_substring f (tg_features obj)"

definition ns3_name :: "string \<Rightarrow> string" where
  "ns3_name m = ''ns3-'' @ m"

record build_env =
  be_version :: string
  be_suffix :: string
  be_static :: bool
  be_darwin :: bool
  be_cxx_name :: string
  be_cc_name :: string
  be_soname :: bool
  be_elf :: bool
  be_tests :: bool
  be_shlib_flags :: "string list"
  be_library :: "string \<Rightarrow> string"
  be_cwd :: string
  be_launch_dir :: string

text \<open>\<open>create_ns3_module\<close>: \<open>module\<close> and \<open>pc\<close> are the new objects, \<open>up\<close> the way from the module to the top directory.\<close>

definition create_ns3_module :: "build_env \<Rightarrow> string \<Rightarrow> tgen \<Rightarrow> tgen \<Rightarrow> string \<Rightarrow> string list \<Rightarrow> bool \<Rightarrow> tgen \<times> tgen" where
  "create_ns3_module env up module pc n dependencies test =
     (let static = be_static env;
          library = ''ns'' @ be_version env @ ''-'' @ n @ be_suffix env;
          cxxflags = (if static then [] else be_shlib_flags env);
          linkflags = (if \<not> static \<and> be_cxx_name env \<in> {''gcc'', ''icc''} \<and> be_soname env then [''-Wl,--soname='' @ be_library env library] else [])
      in (module\<lparr>tg_features := if static then ''cxx cxxstlib ns3module'' else ''cxx cxxshlib ns3module'',
            tg_target := up @ ''/'' @ library,
            tg_flags := tg_flags module @ [(''CXXFLAGS'', cxxflags), (''CCFLAGS'', cxxflags), (''LINKFLAGS'', linkflags),
              (''CXXDEFINES'', [''NS3_MODULE_COMPILATION'']), (''CCDEFINES'', [''NS3_MODULE_COMPILATION'']), (''INCLUDES'', [''#''])],
            tg_static := static, tg_deps := dependencies, tg_install := Some ''${LIBDIR}'', tg_name := ns3_name n,
            tg_use := map ns3_name dependencies, tg_test := test, is_ns3_module := True\<rparr>,
          pc\<lparr>tg_features := ''ns3pcfile'', tg_module := Some (ns3_name n)\<rparr>))"

text \<open>\<open>create_ns3_module_test_library\<close>, with the pair it adds to the list of test libraries.\<close>

definition create_ns3_module_test_library ::
  "build_env \<Rightarrow> string \<Rightarrow> string \<Rightarrow> tgen \<Rightarrow> tgen \<Rightarrow> string \<Rightarrow> (tgen \<times> tgen) \<times> string \<times> string" where
  "create_ns3_module_test_library env up include module pc n =
     (let (library, pc) = create_ns3_module env up module pc (n @ ''-test'') [n] True;
          library = library\<lparr>tg_features := tg_features library @ '' ns3testlib'', is_ns3_module := False,
            test_library_of := Some (ns3_name n),
            tg_flags := tg_flags library @ [(''CXXFLAGS'', [''-I'' @ include]), (''CCFLAGS'', [''-I'' @ include])]\<rparr>
      in ((library, pc), ns3_name n, tg_name library))"

definition object_name :: "build_env \<Rightarrow> string \<Rightarrow> string" where
  "object_name env n = ''ns'' @ be_version env @ ''-'' @ n @ be_suffix env"

definition create_ns3_program :: "build_env \<Rightarrow> tgen \<Rightarrow> string \<Rightarrow> string list \<Rightarrow> tgen" where
  "create_ns3_program env program n dependencies =
     (let markers = (if be_static env
                     then (if be_darwin env then [(''STLIB_MARKER'', [''-Wl,-all_load''])]
                           else [(''STLIB_MARKER'', [''-Wl,-Bstatic,--whole-archive'']), (''SHLIB_MARKER'', [''-Wl,-Bdynamic,--no-whole-archive''])])
                     else if be_elf env \<and> ''gcc'' \<in> {be_cxx_name env, be_cc_name env} then [(''SHLIB_MARKER'', [''-Wl,--no-as-needed''])] else [])
      in program\<lparr>tg_features := ''cxx cxxprogram'', is_ns3_program := True, tg_name := n, tg_target := object_name env n,
           ns3_module_dependencies := Some (map ns3_name dependencies), tg_use := map ns3_name dependencies,
           tg_flags := tg_flags program @ markers\<rparr>)"

definition register_ns3_script :: "string \<Rightarrow> string list \<Rightarrow> (string \<times> string list) list \<Rightarrow> (string \<times> string list) list" where
  "register_ns3_script n dependencies scripts = scripts @ [(n, map ns3_name dependencies)]"

text \<open>
  \<open>add_scratch_programs\<close>: the entries of the directory \<open>scratch\<close>, each with whether it is a directory and the
  object \<open>bld(...)\<close> makes for it. The node of the object is the one \<open>find_dir\<close> gives, \<open>node\<close>.
\<close>

definition hidden :: "string \<Rightarrow> bool" where
  "hidden entry \<longleftrightarrow> starts_with entry ''.'' \<or> entry = ''CVS''"

definition scratch_program :: "build_env \<Rightarrow> string list \<Rightarrow> (string \<Rightarrow> tgen \<Rightarrow> tgen) \<Rightarrow> string \<times> bool \<times> tgen \<Rightarrow> tgen list" where
  "scratch_program env all_modules node e =
     (let (entry, isdir, fresh) = e;
          program = (\<lambda>n dir. (node dir (create_ns3_program env fresh n all_modules))\<lparr>tg_target := n, tg_name := n, tg_install := None\<rparr>)
      in if hidden entry then []
         else if isdir then [program entry (''scratch/'' @ entry)]
         else if ends_with entry ''.cc'' then [program (slice_upto entry (- 3)) ''scratch'']
         else [])"

definition add_scratch_programs ::
  "build_env \<Rightarrow> string list \<Rightarrow> (string \<Rightarrow> tgen \<Rightarrow> tgen) \<Rightarrow> (string \<times> bool \<times> tgen) list \<Rightarrow> tgen list" where
  "add_scratch_programs env enabled node entries = concat (map (scratch_program env (map (drop 4) enabled) node) entries)"

section \<open>The modules chosen by configure\<close>

text \<open>The modules of the tree: the visible directories below \<open>src\<close> with a \<open>wscript\<close>.\<close>

definition list_modules :: "(string \<Rightarrow> bool) \<Rightarrow> (string \<Rightarrow> bool) \<Rightarrow> string list \<Rightarrow> string list" where
  "list_modules isdir exists entries =
     sort (filter (\<lambda>d. \<not> hidden d \<and> isdir (path_join ''src'' d) \<and> exists (path_join (path_join ''src'' d) ''wscript'')) entries)"

definition ns3_modules :: "string list \<Rightarrow> string list" where
  "ns3_modules all_modules = map (\<lambda>m. ns3_name (last (split_on CHR ''/'' m))) all_modules"

text \<open>
  \<open>NS3_ENABLED_MODULES\<close>, and whether it is the very list \<open>NS3_MODULES\<close>: then what is removed from it below is
  removed from the other as well.
\<close>

definition select_modules :: "string option \<Rightarrow> string list \<Rightarrow> string list \<Rightarrow> py_exn + string list \<times> bool" where
  "select_modules enable_modules modules_enabled modules =
     (if enable_modules \<notin> {None, Some []}
      then Inr (map ns3_name (split_on CHR '','' (the enable_modules)), False)
      else py_bind (py_index modules_enabled 0) (\<lambda>m.
        Inr (if m = ''all_modules'' then (modules, True) else (map ns3_name modules_enabled, False))))"

fun drop_not_built :: "string list \<Rightarrow> string list \<Rightarrow> py_exn + string list" where
  "drop_not_built [] enabled = Inr enabled"
| "drop_not_built (n # ns) enabled =
     (if ns3_name n \<in> set enabled
      then let enabled = remove1 (ns3_name n) enabled
           in if enabled = [] then Inl (Exception (''Exiting because the '' @ n @ '' module can not be built and it was the only one enabled.''))
              else drop_not_built ns enabled
      else drop_not_built ns enabled)"

record module_choice =
  mc_modules :: "string list"
  mc_enabled :: "string list"
  mc_not_built :: "string list"

definition configure_modules ::
  "bool \<Rightarrow> bool \<Rightarrow> string option \<Rightarrow> string list \<Rightarrow> string list \<Rightarrow> string list \<Rightarrow> py_exn + module_choice" where
  "configure_modules static darwin enable_modules modules_enabled modules not_built =
     py_bind (select_modules enable_modules modules_enabled modules) (\<lambda>(enabled, shared).
       let not_built = (if static \<and> darwin then not_built @ [''template''] else not_built)
       in py_bind (drop_not_built not_built enabled) (\<lambda>enabled.
            Inr \<lparr>mc_modules = if shared then enabled else modules, mc_enabled = enabled, mc_not_built = not_built\<rparr>))"

text \<open>The loop of \<open>build\<close> in \<open>src/src/wscript\<close>: the modules whose directories are read.\<close>

definition remove_module :: "string list \<Rightarrow> string \<Rightarrow> string list" where
  "remove_module all_modules not_built =
     (let n = (if not_built = ''ns3tcp'' \<or> not_built = ''ns3wifi'' then ''test/'' @ not_built else not_built)
      in remove1 n all_modules)"

definition modules_read :: "string list \<Rightarrow> string list \<Rightarrow> string list" where
  "modules_read not_built all_modules = foldl remove_module all_modules not_built"

section \<open>Dependencies\<close>

text \<open>One pass over the growing list of modules, and the passes until nothing changes.\<close>

definition add_dep :: "string \<Rightarrow> string list \<times> bool \<Rightarrow> string list \<times> bool" where
  "add_dep dep st =
     (case st of (modules, changed) \<Rightarrow>
        if \<not> starts_with dep ''ns3-'' then (modules, changed)
        else if dep \<notin> set modules then (modules @ [dep], True) else (modules, changed))"

partial_function (option) scan_modules ::
  "(string \<Rightarrow> py_exn + tgen option) \<Rightarrow> nat \<Rightarrow> string list \<times> bool \<Rightarrow> (py_exn + string list \<times> bool) option" where
  "scan_modules by_name i st =
     (if i < length (fst st)
      then (case by_name (fst st ! i) of
              Inl e \<Rightarrow> Some (Inl e)
            | Inr None \<Rightarrow> Some (Inl ValueError)
            | Inr (Some obj) \<Rightarrow> scan_modules by_name (Suc i) (fold add_dep (tg_use obj) st))
      else Some (Inr st))"

partial_function (option) enable_dependencies ::
  "(string \<Rightarrow> py_exn + tgen option) \<Rightarrow> string list \<Rightarrow> (py_exn + string list) option" where
  "enable_dependencies by_name modules =
     Option.bind (scan_modules by_name 0 (modules, False)) (\<lambda>r. case r of
       Inl e \<Rightarrow> Some (Inl e)
     | Inr (modules, changed) \<Rightarrow> if changed then enable_dependencies by_name modules else Some (Inr modules))"

definition test_libraries :: "bool \<Rightarrow> (string \<times> string) list \<Rightarrow> string list \<Rightarrow> string list" where
  "test_libraries tests with_tests enabled = (if tests then map snd (filter (\<lambda>(m, testlib). m \<in> set enabled) with_tests) else [])"

section \<open>What is left out\<close>

type_synonym groups = "tgen list list"

definition all_task_gen :: "groups \<Rightarrow> tgen list" where
  "all_task_gen gs = concat gs"

fun exclude_taskgen :: "nat \<Rightarrow> groups \<Rightarrow> groups" where
  "exclude_taskgen i [] = []"
| "exclude_taskgen i (g # gs) =
     (if i \<in> tg_id ` set g then (takeWhile (\<lambda>x. tg_id x \<noteq> i) g @ tl (dropWhile (\<lambda>x. tg_id x \<noteq> i) g)) # gs
      else g # exclude_taskgen i gs)"

definition find_ns3_module :: "groups \<Rightarrow> string \<Rightarrow> py_exn + tgen" where
  "find_ns3_module gs n =
     (case List.find (\<lambda>obj. is_ns3_module obj \<and> tg_name obj = n) (all_task_gen gs) of None \<Rightarrow> Inl KeyError | Some obj \<Rightarrow> Inr obj)"

definition set_mode :: "nat \<Rightarrow> groups \<Rightarrow> groups" where
  "set_mode i gs = map (map (\<lambda>x. if tg_id x = i then x\<lparr>tg_mode := Some ''remove''\<rparr> else x)) gs"

definition get_attr :: "'a option \<Rightarrow> py_exn + 'a" where
  "get_attr a = (case a of None \<Rightarrow> Inl AttributeError | Some x \<Rightarrow> Inr x)"

record build =
  b_groups :: groups
  b_programs :: "string list"

definition on_groups :: "(groups \<Rightarrow> groups) \<Rightarrow> build \<Rightarrow> build" where
  "on_groups f b = b\<lparr>b_groups := f (b_groups b)\<rparr>"

definition program_path :: "build_env \<Rightarrow> tgen \<Rightarrow> py_exn + string" where
  "program_path env obj =
     py_bind (relpath (be_cwd env) (tg_bld obj) (abspath (be_cwd env) (be_launch_dir env))) (\<lambda>rel.
       Inr (path_join rel (object_name env (tg_name obj))))"

text \<open>The tests on one object, in the order of the loop.\<close>

definition remove_header :: "string \<Rightarrow> string list \<Rightarrow> tgen \<Rightarrow> build \<Rightarrow> py_exn + build" where
  "remove_header feature modules obj b =
     (if has_feature obj feature
      then py_bind (get_attr (tg_module obj)) (\<lambda>m. Inr (if ns3_name m \<notin> set modules then on_groups (set_mode (tg_id obj)) b else b))
      else Inr b)"

definition check_program :: "build_env \<Rightarrow> string list \<Rightarrow> tgen \<Rightarrow> build \<Rightarrow> py_exn + build" where
  "check_program env modules obj b =
     (case ns3_module_dependencies obj of
        None \<Rightarrow> Inr b
      | Some deps \<Rightarrow>
          if \<not> list_all (\<lambda>dep. dep \<in> set modules) deps then Inr (on_groups (exclude_taskgen (tg_id obj)) b)
          else py_bind (program_path env obj) (\<lambda>p. Inr (b\<lparr>b_programs := b_programs b @ [p]\<rparr>)))"

definition check_module :: "string list \<Rightarrow> tgen \<Rightarrow> build \<Rightarrow> build" where
  "check_module modules obj b =
     (if is_ns3_module obj \<and> tg_name obj \<notin> set modules then on_groups (exclude_taskgen (tg_id obj)) b else b)"

definition check_test_library :: "bool \<Rightarrow> string list \<Rightarrow> tgen \<Rightarrow> build \<Rightarrow> build" where
  "check_test_library tests modules obj b =
     (case test_library_of obj of
        None \<Rightarrow> b
      | Some m \<Rightarrow> if \<not> tests \<or> m \<notin> set modules then on_groups (exclude_taskgen (tg_id obj)) b else b)"

definition check_pcfile :: "string list \<Rightarrow> tgen \<Rightarrow> build \<Rightarrow> py_exn + build" where
  "check_pcfile modules obj b =
     (if has_feature obj ''ns3pcfile''
      then py_bind (get_attr (tg_module obj)) (\<lambda>m. Inr (if m \<notin> set modules then on_groups (exclude_taskgen (tg_id obj)) b else b))
      else Inr b)"

definition check_object :: "build_env \<Rightarrow> string list \<Rightarrow> tgen \<Rightarrow> build \<Rightarrow> py_exn + build" where
  "check_object env modules obj b =
     py_bind (remove_header ''ns3moduleheader'' modules obj b) (\<lambda>b.
     py_bind (check_program env modules obj b) (\<lambda>b.
     py_bind (remove_header ''ns3header'' modules obj (check_test_library (be_tests env) modules obj (check_module modules obj b))) (\<lambda>b.
     check_pcfile modules obj b)))"

definition exclude_disabled :: "build_env \<Rightarrow> string list \<Rightarrow> build \<Rightarrow> py_exn + build" where
  "exclude_disabled env modules b = py_fold (check_object env modules) (all_task_gen (b_groups b)) b"

text \<open>The scripts that can run; without enabled modules the variable is unbound.\<close>

fun script_loop :: "string list option \<Rightarrow> (string \<times> string list) list \<Rightarrow> py_exn + string list" where
  "script_loop modules [] = Inr []"
| "script_loop modules ((script, deps) # rest) =
     (if deps = [] then py_bind (script_loop modules rest) (\<lambda>r. Inr (script # r))
      else case modules of
        None \<Rightarrow> Inl NameError
      | Some ms \<Rightarrow> py_bind (script_loop modules rest) (\<lambda>r. Inr (if list_all (\<lambda>dep. dep \<in> set ms) deps then script # r else r)))"

section \<open>The build\<close>

record built =
  bt_enabled :: "string list"
  bt_test_libraries :: "string list"
  bt_groups :: groups
  bt_programs :: "string list"
  bt_scripts :: "string list"

text \<open>
  \<open>build\<close>, from the end of \<open>bld.recurse('src')\<close> to that of the loop over the scripts. \<open>add\<close> gives the groups with
  the programs of the examples and of the scratch directory, which are made once the modules are known.
\<close>

definition build_modules ::
  "build_env \<Rightarrow> (string \<Rightarrow> py_exn + tgen option) \<Rightarrow> (string list \<Rightarrow> groups) \<Rightarrow> string list \<Rightarrow> (string \<times> string) list \<Rightarrow>
     (string \<times> string list) list \<Rightarrow> (py_exn + built) option" where
  "build_modules env by_name add enabled with_tests scripts =
     (if enabled = []
      then Some (py_bind (script_loop None scripts) (\<lambda>s.
             Inr \<lparr>bt_enabled = [], bt_test_libraries = [], bt_groups = add [], bt_programs = [], bt_scripts = s\<rparr>))
      else map_option (\<lambda>r. py_bind r (\<lambda>modules.
             py_bind (exclude_disabled env modules \<lparr>b_groups = add modules, b_programs = []\<rparr>) (\<lambda>b.
             py_bind (script_loop (Some modules) scripts) (\<lambda>s.
               Inr \<lparr>bt_enabled = modules, bt_test_libraries = test_libraries (be_tests env) with_tests modules,
                 bt_groups = b_groups b, bt_programs = b_programs b, bt_scripts = s\<rparr>))))
             (enable_dependencies by_name enabled))"

section \<open>The enabled modules\<close>

text \<open>The dependencies of a module that waf knows.\<close>

definition found :: "(string \<Rightarrow> py_exn + tgen option) \<Rightarrow> string \<Rightarrow> bool" where
  "found by_name m \<longleftrightarrow> (\<exists>obj. by_name m = Inr (Some obj))"

definition dep_edges :: "(string \<Rightarrow> py_exn + tgen option) \<Rightarrow> (string \<times> string) set" where
  "dep_edges by_name = {(m, d). \<exists>obj. by_name m = Inr (Some obj) \<and> d \<in> set (tg_use obj) \<and> starts_with d ''ns3-''}"

abbreviation needed :: "(string \<Rightarrow> py_exn + tgen option) \<Rightarrow> string list \<Rightarrow> string set" where
  "needed by_name modules \<equiv> (dep_edges by_name)\<^sup>* `` set modules"

text \<open>What one pass does: it only appends, without repeating, and closes the list.\<close>

lemma add_deps:
  "\<exists>new. fold add_dep deps (ms, c) = (ms @ new, c \<or> new \<noteq> []) \<and> distinct new \<and>
     set new = {d \<in> set deps. starts_with d ''ns3-''} - set ms"
proof (induction deps arbitrary: ms c)
  case (Cons d deps)
  show ?case
  proof (cases "starts_with d ''ns3-'' \<and> d \<notin> set ms")
    case True
    then have step: "add_dep d (ms, c) = (ms @ [d], True)" by (simp add: add_dep_def)
    from Cons [of "ms @ [d]" True] obtain new where "fold add_dep deps (ms @ [d], True) = ((ms @ [d]) @ new, True)"
      "distinct new" "set new = {d \<in> set deps. starts_with d ''ns3-''} - set (ms @ [d])" by auto
    then show ?thesis using True by (intro exI [of _ "d # new"]) (auto simp: step)
  next
    case False
    then have "add_dep d (ms, c) = (ms, c)" by (auto simp: add_dep_def)
    then show ?thesis using Cons [of ms c] False by auto
  qed
qed simp

definition closed_upto :: "(string \<Rightarrow> py_exn + tgen option) \<Rightarrow> nat \<Rightarrow> string list \<Rightarrow> bool" where
  "closed_upto by_name i ms \<longleftrightarrow> (\<forall>j<i. j < length ms \<longrightarrow> found by_name (ms ! j) \<and> dep_edges by_name `` {ms ! j} \<subseteq> set ms)"

lemma closed_upto_Suc:
  assumes "closed_upto by_name i ms" "by_name (ms ! i) = Inr (Some obj)" "i < length ms"
    "{d \<in> set (tg_use obj). starts_with d ''ns3-''} \<subseteq> set (ms @ new)"
  shows "closed_upto by_name (Suc i) (ms @ new)"
  unfolding closed_upto_def
proof (intro allI impI)
  fix j assume "j < Suc i" "j < length (ms @ new)"
  then have "(ms @ new) ! j = ms ! j" "j < i \<or> j = i" using assms(3) by (auto simp: nth_append)
  then show "found by_name ((ms @ new) ! j) \<and> dep_edges by_name `` {(ms @ new) ! j} \<subseteq> set (ms @ new)"
    using assms by (fastforce simp: closed_upto_def found_def dep_edges_def)
qed

lemma scan_modules_result:
  assumes "finite R" "set ms \<subseteq> R" "dep_edges by_name `` R \<subseteq> R" "closed_upto by_name i ms" "i \<le> length ms"
  shows "(\<exists>e. scan_modules by_name i (ms, c) = Some (Inl e)) \<and> (\<exists>m\<in>R. \<not> found by_name m) \<or>
    (\<exists>new. scan_modules by_name i (ms, c) = Some (Inr (ms @ new, c \<or> new \<noteq> [])) \<and> distinct new \<and> set ms \<inter> set new = {} \<and>
       set new \<subseteq> R \<and> closed_upto by_name (length (ms @ new)) (ms @ new))"
  using assms(2,4,5)
proof (induction "length ms + card (R - set ms) - i" arbitrary: ms i c rule: less_induct)
  case less
  show ?case
  proof (cases "i < length ms")
    case False
    then show ?thesis using less(2-4) by (subst scan_modules.simps) (auto intro!: exI [of _ "[]"])
  next
    case True
    then have mem: "ms ! i \<in> R" using less(2) by (meson nth_mem subsetD)
    show ?thesis
    proof (cases "found by_name (ms ! i)")
      case False
      then have "\<exists>e. scan_modules by_name i (ms, c) = Some (Inl e)"
        using True by (subst scan_modules.simps) (auto simp: found_def split: sum.splits option.splits)
      then show ?thesis using False mem by blast
    next
      case found: True
      then obtain obj where obj: "by_name (ms ! i) = Inr (Some obj)" by (auto simp: found_def)
      obtain a where a: "fold add_dep (tg_use obj) (ms, c) = (ms @ a, c \<or> a \<noteq> [])" "distinct a"
        "set a = {d \<in> set (tg_use obj). starts_with d ''ns3-''} - set ms" using add_deps by blast
      have step: "scan_modules by_name i (ms, c) = scan_modules by_name (Suc i) (ms @ a, c \<or> a \<noteq> [])"
        using True by (subst scan_modules.simps) (simp add: obj a)
      have in_R: "set a \<subseteq> R" using a(3) assms(3) mem obj by (fastforce simp: dep_edges_def)
      have "card (R - set ms) = card (R - set (ms @ a)) + length a"
      proof -
        have "R - set ms = (R - set (ms @ a)) \<union> set a" using in_R a(3) by auto
        moreover have "card ((R - set (ms @ a)) \<union> set a) = card (R - set (ms @ a)) + card (set a)"
          using assms(1) by (intro card_Un_disjoint) auto
        ultimately show ?thesis using a(2) by (simp add: distinct_card)
      qed
      then have "length (ms @ a) + card (R - set (ms @ a)) - Suc i < length ms + card (R - set ms) - i" using True by auto
      moreover have "closed_upto by_name (Suc i) (ms @ a)"
        using closed_upto_Suc [OF less(3) obj True] a(3) by auto
      ultimately have "(\<exists>e. scan_modules by_name (Suc i) (ms @ a, c \<or> a \<noteq> []) = Some (Inl e)) \<and> (\<exists>m\<in>R. \<not> found by_name m) \<or>
        (\<exists>new. scan_modules by_name (Suc i) (ms @ a, c \<or> a \<noteq> []) = Some (Inr ((ms @ a) @ new, (c \<or> a \<noteq> []) \<or> new \<noteq> [])) \<and>
           distinct new \<and> set (ms @ a) \<inter> set new = {} \<and> set new \<subseteq> R \<and> closed_upto by_name (length ((ms @ a) @ new)) ((ms @ a) @ new))"
        using less(2) in_R True by (intro less(1)) auto
      then show ?thesis
      proof (elim disjE exE conjE)
        fix new assume r: "scan_modules by_name (Suc i) (ms @ a, c \<or> a \<noteq> []) = Some (Inr ((ms @ a) @ new, (c \<or> a \<noteq> []) \<or> new \<noteq> []))"
          "distinct new" "set (ms @ a) \<inter> set new = {}" "set new \<subseteq> R" "closed_upto by_name (length ((ms @ a) @ new)) ((ms @ a) @ new)"
        then show ?thesis using a in_R step by (intro disjI2 exI [of _ "a @ new"]) auto
      qed (auto simp: step)
    qed
  qed
qed

lemma needed_closed: "dep_edges by_name `` needed by_name ms \<subseteq> needed by_name ms"
  by (auto intro: rtrancl_into_rtrancl)

lemma closed_needed:
  assumes "closed_upto by_name (length ms) ms" "set start \<subseteq> set ms"
  shows "needed by_name start \<subseteq> set ms" "\<forall>m\<in>set ms. found by_name m"
proof -
  show "\<forall>m\<in>set ms. found by_name m" using assms(1) by (auto simp: closed_upto_def in_set_conv_nth)
  have "d \<in> set ms" if "(m, d) \<in> (dep_edges by_name)\<^sup>*" "m \<in> set ms" for m d
    using that
  proof (induction rule: rtrancl_induct)
    case (step x y)
    then obtain j where "j < length ms" "ms ! j = x" by (auto simp: in_set_conv_nth)
    then show ?case using assms(1) step(2) by (auto simp: closed_upto_def)
  qed
  then show "needed by_name start \<subseteq> set ms" using assms(2) by auto
qed

text \<open>The passes end: the second one finds nothing to add.\<close>

lemma enable_dependencies_result:
  assumes "finite (needed by_name ms)"
  shows "if \<forall>m\<in>needed by_name ms. found by_name m
    then \<exists>new. enable_dependencies by_name ms = Some (Inr (ms @ new)) \<and> distinct new \<and> set ms \<inter> set new = {} \<and>
           set (ms @ new) = needed by_name ms
    else \<exists>e. enable_dependencies by_name ms = Some (Inl e)"
proof -
  let ?R = "needed by_name ms"
  note start = scan_modules_result [OF assms _ needed_closed]
  have sub: "set ms \<subseteq> ?R" by auto
  have "closed_upto by_name 0 ms" by (simp add: closed_upto_def)
  from start [OF sub this le0, of False] show ?thesis
  proof (elim disjE exE conjE)
    fix e assume "scan_modules by_name 0 (ms, False) = Some (Inl e)" "\<exists>m\<in>?R. \<not> found by_name m"
    then show ?thesis by (subst (1 2) enable_dependencies.simps) auto
  next
    fix new assume new: "scan_modules by_name 0 (ms, False) = Some (Inr (ms @ new, False \<or> new \<noteq> []))" "distinct new"
      "set ms \<inter> set new = {}" "set new \<subseteq> ?R" "closed_upto by_name (length (ms @ new)) (ms @ new)"
    have all: "set (ms @ new) = ?R" "\<forall>m\<in>set (ms @ new). found by_name m"
      using closed_needed [OF new(5), of ms] new(4) by auto
    have "enable_dependencies by_name (ms @ new) = Some (Inr (ms @ new))"
    proof -
      have "set (ms @ new) \<subseteq> ?R" using all by simp
      moreover have "closed_upto by_name 0 (ms @ new)" by (simp add: closed_upto_def)
      ultimately have "(\<exists>new'. scan_modules by_name 0 (ms @ new, False) = Some (Inr ((ms @ new) @ new', False \<or> new' \<noteq> [])) \<and>
          set (ms @ new) \<inter> set new' = {} \<and> set new' \<subseteq> ?R)"
        using start [of "ms @ new" 0 False] all by auto
      then have "scan_modules by_name 0 (ms @ new, False) = Some (Inr (ms @ new, False))" using all(1) by (metis append_Nil2 inf.absorb_iff2 set_empty)
      then show ?thesis by (subst enable_dependencies.simps) simp
    qed
    then have "enable_dependencies by_name ms = Some (Inr (ms @ new))"
      using new(1) by (subst enable_dependencies.simps) (cases "new = []", auto)
    then show ?thesis using new all by auto
  qed
qed

section \<open>What remains\<close>

text \<open>The objects that stay, those whose mode changes, and the programs that are listed.\<close>

definition dependencies_met :: "string list \<Rightarrow> tgen \<Rightarrow> bool" where
  "dependencies_met modules x \<longleftrightarrow> (\<exists>deps. ns3_module_dependencies x = Some deps \<and> set deps \<subseteq> set modules)"

definition stays :: "bool \<Rightarrow> string list \<Rightarrow> tgen \<Rightarrow> bool" where
  "stays tests modules x \<longleftrightarrow>
     (is_ns3_module x \<longrightarrow> tg_name x \<in> set modules) \<and>
     (ns3_module_dependencies x \<noteq> None \<longrightarrow> dependencies_met modules x) \<and>
     (test_library_of x \<noteq> None \<longrightarrow> tests \<and> the (test_library_of x) \<in> set modules) \<and>
     (has_feature x ''ns3pcfile'' \<longrightarrow> the (tg_module x) \<in> set modules)"

definition stale :: "string list \<Rightarrow> tgen \<Rightarrow> bool" where
  "stale modules x \<longleftrightarrow>
     (has_feature x ''ns3moduleheader'' \<or> has_feature x ''ns3header'') \<and> ns3_name (the (tg_module x)) \<notin> set modules"

definition final_mode :: "string list \<Rightarrow> tgen \<Rightarrow> tgen" where
  "final_mode modules x = (if stale modules x then x\<lparr>tg_mode := Some ''remove''\<rparr> else x)"

text \<open>The attributes the loop reads are there.\<close>

definition complete :: "tgen \<Rightarrow> bool" where
  "complete x \<longleftrightarrow>
     (has_feature x ''ns3moduleheader'' \<or> has_feature x ''ns3header'' \<or> has_feature x ''ns3pcfile'' \<longrightarrow> tg_module x \<noteq> None) \<and>
     (ns3_module_dependencies x \<noteq> None \<longrightarrow> tg_bld x \<noteq> [])"

definition distinct_objects :: "groups \<Rightarrow> bool" where
  "distinct_objects gs = distinct (map tg_id (all_task_gen gs))"

lemma remove_by_id:
  "distinct (map f g) \<Longrightarrow> takeWhile (\<lambda>x. f x \<noteq> i) g @ tl (dropWhile (\<lambda>x. f x \<noteq> i) g) = filter (\<lambda>x. f x \<noteq> i) g"
proof (induction g)
  case (Cons x g)
  have "\<forall>y\<in>set g. f y \<noteq> f x" using Cons(2) by (simp add: image_iff) metis
  then have "filter (\<lambda>y. f y \<noteq> f x) g = g" by (rule filter_True)
  then show ?case using Cons by (cases "f x = i") simp_all
qed simp

lemma exclude_taskgen_filter:
  "distinct_objects gs \<Longrightarrow> exclude_taskgen i gs = map (filter (\<lambda>x. tg_id x \<noteq> i)) gs"
proof (induction gs)
  case (Cons g gs)
  have g: "distinct (map tg_id g)" using Cons(2) by (simp add: distinct_objects_def all_task_gen_def)
  have gs: "distinct_objects gs" using Cons(2) by (simp add: distinct_objects_def all_task_gen_def)
  show ?case
  proof (cases "i \<in> tg_id ` set g")
    case True
    moreover have "tg_id ` set g \<inter> tg_id ` set (concat gs) = {}"
      using Cons(2) by (simp only: distinct_objects_def all_task_gen_def concat.simps map_append distinct_append set_map)
    ultimately have "\<forall>h\<in>set gs. \<forall>x\<in>set h. tg_id x \<noteq> i" by (simp add: disjoint_iff) blast
    then have "map (filter (\<lambda>x. tg_id x \<noteq> i)) gs = gs" by (simp add: map_idI)
    then show ?thesis using True remove_by_id [OF g, of i] by simp
  next
    case False
    then have "filter (\<lambda>x. tg_id x \<noteq> i) g = g" by (auto intro!: filter_True)
    then show ?thesis using False Cons.IH [OF gs] by simp
  qed
qed simp

lemma objects_map_filter:
  "all_task_gen (map (\<lambda>g. map f (filter P g)) gs) = map f (filter P (all_task_gen gs))"
  by (simp add: all_task_gen_def map_concat filter_concat comp_def)

lemma distinct_objects_filter:
  "distinct_objects gs \<Longrightarrow> (\<And>x. tg_id (f x) = tg_id x) \<Longrightarrow> distinct_objects (map (\<lambda>g. map f (filter P g)) gs)"
  unfolding distinct_objects_def objects_map_filter
  by (simp add: comp_def distinct_map_filter)

text \<open>The groups after the objects in \<open>D\<close> have been looked at.\<close>

definition looked_at :: "bool \<Rightarrow> string list \<Rightarrow> nat set \<Rightarrow> groups \<Rightarrow> groups" where
  "looked_at tests modules D gs =
     map (\<lambda>g. map (\<lambda>x. if tg_id x \<in> D then final_mode modules x else x) (filter (\<lambda>x. tg_id x \<in> D \<longrightarrow> stays tests modules x) g)) gs"

lemma final_mode_id [simp]: "tg_id (final_mode modules x) = tg_id x"
  by (simp add: final_mode_def)

lemma looked_at_distinct: "distinct_objects gs \<Longrightarrow> distinct_objects (looked_at tests modules D gs)"
  unfolding looked_at_def by (rule distinct_objects_filter) auto

lemma looked_at_step:
  assumes "distinct_objects gs" "obj \<in> set (all_task_gen gs)" "tg_id obj \<notin> D"
  shows "looked_at tests modules (insert (tg_id obj) D) gs =
    (if stays tests modules obj then if stale modules obj then set_mode (tg_id obj) (looked_at tests modules D gs) else looked_at tests modules D gs
     else map (filter (\<lambda>x. tg_id x \<noteq> tg_id obj)) (looked_at tests modules D gs))"
proof -
  have same: "x = obj" if "x \<in> set g" "g \<in> set gs" "tg_id x = tg_id obj" for x g
    using assms(1,2) that unfolding distinct_objects_def all_task_gen_def
    by (metis (no_types, lifting) distinct_map inj_onD UN_I set_concat)
  have row: "map (\<lambda>x. if tg_id x \<in> insert (tg_id obj) D then final_mode modules x else x)
        (filter (\<lambda>x. tg_id x \<in> insert (tg_id obj) D \<longrightarrow> stays tests modules x) g) =
      (let h = map (\<lambda>x. if tg_id x \<in> D then final_mode modules x else x) (filter (\<lambda>x. tg_id x \<in> D \<longrightarrow> stays tests modules x) g)
       in if stays tests modules obj
          then if stale modules obj then map (\<lambda>x. if tg_id x = tg_id obj then x\<lparr>tg_mode := Some ''remove''\<rparr> else x) h else h
          else filter (\<lambda>x. tg_id x \<noteq> tg_id obj) h)" if "\<forall>x\<in>set g. tg_id x = tg_id obj \<longrightarrow> x = obj" for g
    using that
  proof (induction g)
    case (Cons x g)
    have "tg_id x \<noteq> tg_id obj \<or> x = obj" using Cons(2) by auto
    then show ?case using Cons assms(3) by (auto simp: Let_def final_mode_def)
  qed simp
  show ?thesis
    unfolding looked_at_def set_mode_def using row same by (auto simp: Let_def comp_def)
qed

lemma set_mode_without:
  "set_mode i (map (filter (\<lambda>x. tg_id x \<noteq> i)) gs) = map (filter (\<lambda>x. tg_id x \<noteq> i)) gs"
  "map (filter (\<lambda>x. tg_id x \<noteq> i)) (set_mode i gs) = map (filter (\<lambda>x. tg_id x \<noteq> i)) gs"
  "set_mode i (set_mode i gs) = set_mode i gs"
  "map (filter (\<lambda>x. tg_id x \<noteq> i)) (map (filter (\<lambda>x. tg_id x \<noteq> i)) gs) = map (filter (\<lambda>x. tg_id x \<noteq> i)) gs"
proof -
  have "map (\<lambda>x. if tg_id x = i then x\<lparr>tg_mode := Some ''remove''\<rparr> else x) (filter (\<lambda>x. tg_id x \<noteq> i) g) = filter (\<lambda>x. tg_id x \<noteq> i) g"
    "filter (\<lambda>x. tg_id x \<noteq> i) (map (\<lambda>x. if tg_id x = i then x\<lparr>tg_mode := Some ''remove''\<rparr> else x) g) = filter (\<lambda>x. tg_id x \<noteq> i) g"
    for g :: "tgen list" by (induction g) auto
  then show "set_mode i (map (filter (\<lambda>x. tg_id x \<noteq> i)) gs) = map (filter (\<lambda>x. tg_id x \<noteq> i)) gs"
    "map (filter (\<lambda>x. tg_id x \<noteq> i)) (set_mode i gs) = map (filter (\<lambda>x. tg_id x \<noteq> i)) gs" by (simp_all add: set_mode_def)
qed (simp_all add: set_mode_def comp_def)

lemma distinct_without: "distinct_objects gs \<Longrightarrow> distinct_objects (map (filter (\<lambda>x. tg_id x \<noteq> i)) gs)"
  using distinct_objects_filter [of gs id] by simp

lemma distinct_set_mode: "distinct_objects gs \<Longrightarrow> distinct_objects (set_mode i gs)"
  unfolding set_mode_def using distinct_objects_filter [of gs "\<lambda>x. if tg_id x = i then x\<lparr>tg_mode := Some ''remove''\<rparr> else x" "\<lambda>_. True"]
  by simp

lemma program_path_ok: "tg_bld x \<noteq> [] \<Longrightarrow> \<exists>p. program_path env x = Inr p"
  by (simp add: program_path_def relpath_def Let_def)

definition listed_path :: "build_env \<Rightarrow> tgen \<Rightarrow> string" where
  "listed_path env x = projr (program_path env x)"

lemma listed_path: "tg_bld x \<noteq> [] \<Longrightarrow> program_path env x = Inr (listed_path env x)"
  using program_path_ok [of x env] by (auto simp: listed_path_def)

lemma remove_header_ok:
  "(has_feature obj f \<longrightarrow> tg_module obj \<noteq> None) \<Longrightarrow> remove_header f modules obj b =
     Inr (if has_feature obj f \<and> ns3_name (the (tg_module obj)) \<notin> set modules then on_groups (set_mode (tg_id obj)) b else b)"
  by (cases "tg_module obj") (simp_all add: remove_header_def get_attr_def del: py_bind_eq_Inr)

lemma check_pcfile_ok:
  "(has_feature obj ''ns3pcfile'' \<longrightarrow> tg_module obj \<noteq> None) \<Longrightarrow> check_pcfile modules obj b =
     Inr (if has_feature obj ''ns3pcfile'' \<and> the (tg_module obj) \<notin> set modules then on_groups (exclude_taskgen (tg_id obj)) b else b)"
  by (cases "tg_module obj") (simp_all add: check_pcfile_def get_attr_def del: py_bind_eq_Inr)

lemma check_program_ok:
  "(ns3_module_dependencies obj \<noteq> None \<longrightarrow> tg_bld obj \<noteq> []) \<Longrightarrow> check_program env modules obj b =
     Inr (if dependencies_met modules obj then b\<lparr>b_programs := b_programs b @ [listed_path env obj]\<rparr>
          else if ns3_module_dependencies obj \<noteq> None then on_groups (exclude_taskgen (tg_id obj)) b else b)"
  using listed_path [of obj env] by (auto simp: check_program_def dependencies_met_def list_all_iff split: option.splits)

lemma on_groups_simps:
  "on_groups f \<lparr>b_groups = gs, b_programs = ps\<rparr> = \<lparr>b_groups = f gs, b_programs = ps\<rparr>"
  "check_module modules obj \<lparr>b_groups = gs, b_programs = ps\<rparr> =
     \<lparr>b_groups = if is_ns3_module obj \<and> tg_name obj \<notin> set modules then exclude_taskgen (tg_id obj) gs else gs, b_programs = ps\<rparr>"
  "check_test_library tests modules obj \<lparr>b_groups = gs, b_programs = ps\<rparr> =
     \<lparr>b_groups = if test_library_of obj \<noteq> None \<and> (\<not> tests \<or> the (test_library_of obj) \<notin> set modules) then exclude_taskgen (tg_id obj) gs else gs, b_programs = ps\<rparr>"
  by (auto simp: on_groups_def check_module_def check_test_library_def split: option.splits)

lemma check_object_step:
  assumes "distinct_objects gs" "complete obj"
  shows "check_object env modules obj \<lparr>b_groups = gs, b_programs = ps\<rparr> = Inr
    \<lparr>b_groups = (if stays (be_tests env) modules obj then if stale modules obj then set_mode (tg_id obj) gs else gs
                 else map (filter (\<lambda>x. tg_id x \<noteq> tg_id obj)) gs),
     b_programs = (if dependencies_met modules obj then ps @ [listed_path env obj] else ps)\<rparr>"
proof -
  have c: "has_feature obj ''ns3moduleheader'' \<longrightarrow> tg_module obj \<noteq> None" "has_feature obj ''ns3header'' \<longrightarrow> tg_module obj \<noteq> None"
    "has_feature obj ''ns3pcfile'' \<longrightarrow> tg_module obj \<noteq> None" "ns3_module_dependencies obj \<noteq> None \<longrightarrow> tg_bld obj \<noteq> []"
    using assms(2) by (auto simp: complete_def)
  let ?i = "tg_id obj" and ?W = "map (filter (\<lambda>x. tg_id x \<noteq> tg_id obj)) gs"
  have x: "exclude_taskgen ?i gs = ?W" "exclude_taskgen ?i ?W = ?W" "exclude_taskgen ?i (set_mode ?i gs) = ?W" "set_mode ?i ?W = ?W"
    "set_mode ?i (set_mode ?i gs) = set_mode ?i gs"
    using assms(1) by (simp_all add: exclude_taskgen_filter distinct_without distinct_set_mode set_mode_without del: map_map)
  define A where "A \<longleftrightarrow> has_feature obj ''ns3moduleheader'' \<and> ns3_name (the (tg_module obj)) \<notin> set modules"
  define H where "H \<longleftrightarrow> has_feature obj ''ns3header'' \<and> ns3_name (the (tg_module obj)) \<notin> set modules"
  define F where "F \<longleftrightarrow> has_feature obj ''ns3pcfile'' \<and> the (tg_module obj) \<notin> set modules"
  define M where "M \<longleftrightarrow> is_ns3_module obj \<and> tg_name obj \<notin> set modules"
  define T where "T \<longleftrightarrow> test_library_of obj \<noteq> None \<and> (\<not> be_tests env \<or> the (test_library_of obj) \<notin> set modules)"
  define P where "P \<longleftrightarrow> dependencies_met modules obj"
  define Q where "Q \<longleftrightarrow> ns3_module_dependencies obj \<noteq> None"
  have PQ: "P \<Longrightarrow> Q" by (auto simp: P_def Q_def dependencies_met_def)
  have s: "stays (be_tests env) modules obj = (\<not> M \<and> (Q \<longrightarrow> P) \<and> \<not> T \<and> \<not> F)" "stale modules obj = (A \<or> H)"
    by (auto simp: stays_def stale_def M_def Q_def P_def T_def F_def A_def H_def)
  have "check_object env modules obj \<lparr>b_groups = gs, b_programs = ps\<rparr> =
    (let b = (if A then on_groups (set_mode ?i) \<lparr>b_groups = gs, b_programs = ps\<rparr> else \<lparr>b_groups = gs, b_programs = ps\<rparr>);
         b = (if P then b\<lparr>b_programs := b_programs b @ [listed_path env obj]\<rparr> else if Q then on_groups (exclude_taskgen ?i) b else b);
         b = check_test_library (be_tests env) modules obj (check_module modules obj b);
         b = (if H then on_groups (set_mode ?i) b else b)
     in Inr (if F then on_groups (exclude_taskgen ?i) b else b))"
    by (simp only: check_object_def remove_header_ok [OF c(1)] remove_header_ok [OF c(2)] check_pcfile_ok [OF c(3)]
        check_program_ok [OF c(4)] py_bind_simps Let_def A_def H_def F_def P_def Q_def)
  moreover have "check_test_library (be_tests env) modules obj (check_module modules obj \<lparr>b_groups = g, b_programs = q\<rparr>) =
      \<lparr>b_groups = (let g = (if M then exclude_taskgen ?i g else g) in if T then exclude_taskgen ?i g else g), b_programs = q\<rparr>" for g q
    by (simp only: on_groups_simps M_def T_def Let_def)
  ultimately show ?thesis using PQ
    by (cases A; cases P; cases Q; cases M; cases T; cases H; cases F)
      (simp_all add: s P_def [symmetric] on_groups_simps x Let_def del: map_map)
qed

lemma looked_at_none [simp]: "looked_at tests modules {} gs = gs"
  by (simp add: looked_at_def)

lemma exclude_disabled_result:
  assumes "distinct_objects gs" "\<forall>x\<in>set (all_task_gen gs). complete x"
  shows "exclude_disabled env modules \<lparr>b_groups = gs, b_programs = []\<rparr> = Inr
    \<lparr>b_groups = map (\<lambda>g. map (final_mode modules) (filter (stays (be_tests env) modules) g)) gs,
     b_programs = map (listed_path env) (filter (dependencies_met modules) (all_task_gen gs))\<rparr>"
proof -
  let ?L = "looked_at (be_tests env) modules"
  have run: "py_fold (check_object env modules) xs \<lparr>b_groups = ?L D gs, b_programs = ps\<rparr> = Inr
      \<lparr>b_groups = ?L (D \<union> tg_id ` set xs) gs, b_programs = ps @ map (listed_path env) (filter (dependencies_met modules) xs)\<rparr>"
    if "set xs \<subseteq> set (all_task_gen gs)" "distinct (map tg_id xs)" "D \<inter> tg_id ` set xs = {}" for xs D ps
    using that
  proof (induction xs arbitrary: D ps)
    case (Cons x xs)
    have "check_object env modules x \<lparr>b_groups = ?L D gs, b_programs = ps\<rparr> =
        Inr \<lparr>b_groups = ?L (insert (tg_id x) D) gs, b_programs = (if dependencies_met modules x then ps @ [listed_path env x] else ps)\<rparr>"
      using Cons.prems assms(2) looked_at_step [OF assms(1), of x D] by (subst check_object_step [OF looked_at_distinct [OF assms(1)]]) auto
    moreover have "insert (tg_id x) D \<inter> tg_id ` set xs = {}" using Cons.prems by auto
    ultimately show ?case using Cons.IH [of "insert (tg_id x) D"] Cons.prems by (simp add: insert_commute Un_insert_left)
  qed simp
  have "?L (tg_id ` set (all_task_gen gs)) gs = map (\<lambda>g. map (final_mode modules) (filter (stays (be_tests env) modules) g)) gs"
    unfolding looked_at_def by (intro map_cong refl) (auto simp: all_task_gen_def intro!: filter_cong map_cong)
  then show ?thesis using run [of "all_task_gen gs" "{}" "[]"] assms(1) by (simp add: exclude_disabled_def distinct_objects_def)
qed

lemma script_loop_result:
  "script_loop (Some ms) scripts = Inr (map fst (filter (\<lambda>(s, deps). set deps \<subseteq> set ms) scripts))"
  "script_loop None scripts = (if \<forall>(s, deps)\<in>set scripts. deps = [] then Inr (map fst scripts) else Inl NameError)"
proof -
  show "script_loop (Some ms) scripts = Inr (map fst (filter (\<lambda>(s, deps). set deps \<subseteq> set ms) scripts))"
    by (induction scripts) (simp_all add: list_all_iff subset_iff split: prod.splits)
  show "script_loop None scripts = (if \<forall>(s, deps)\<in>set scripts. deps = [] then Inr (map fst scripts) else Inl NameError)"
    by (induction scripts) auto
qed

text \<open>A generator \<open>create_ns3_module\<close> made: a module is neither a program nor a test library nor a file of \<open>pkg-config\<close>.\<close>

definition plain_module :: "tgen \<Rightarrow> bool" where
  "plain_module x \<longleftrightarrow> ns3_module_dependencies x = None \<and> test_library_of x = None \<and> \<not> has_feature x ''ns3pcfile''"

definition modules_of :: "groups \<Rightarrow> tgen list" where
  "modules_of gs = filter is_ns3_module (all_task_gen gs)"

text \<open>waf finds every module by its name, and what a module uses of the simulator is a module.\<close>

definition modules_known :: "(string \<Rightarrow> py_exn + tgen option) \<Rightarrow> groups \<Rightarrow> bool" where
  "modules_known by_name gs \<longleftrightarrow> (\<forall>x\<in>set (modules_of gs). plain_module x \<and> by_name (tg_name x) = Inr (Some x) \<and>
     (\<forall>d\<in>set (tg_use x). starts_with d ''ns3-'' \<longrightarrow> d \<in> tg_name ` set (modules_of gs)))"

lemma create_ns3_module_plain:
  assumes "ns3_module_dependencies m = None" "test_library_of m = None"
  shows "plain_module (fst (create_ns3_module env up m pc n deps test))"
  using assms by (simp add: create_ns3_module_def Let_def plain_module_def has_feature_def starts_with_def)

lemma needed_known:
  assumes "modules_known by_name gs" "set enabled \<subseteq> tg_name ` set (modules_of gs)"
  shows "needed by_name enabled \<subseteq> tg_name ` set (modules_of gs)"
proof -
  have "d \<in> tg_name ` set (modules_of gs)" if "(m, d) \<in> (dep_edges by_name)\<^sup>*" "m \<in> tg_name ` set (modules_of gs)" for m d
    using that
  proof (induction rule: rtrancl_induct)
    case (step y z)
    then obtain x where "x \<in> set (modules_of gs)" "y = tg_name x" by auto
    then show ?case using step(2) assms(1) by (auto simp: dep_edges_def modules_known_def)
  qed
  then show ?thesis using assms(2) by auto
qed

lemma needed_found:
  assumes "modules_known by_name gs" "set enabled \<subseteq> tg_name ` set (modules_of gs)"
  shows "finite (needed by_name enabled)" "\<forall>m\<in>needed by_name enabled. found by_name m"
  using needed_known [OF assms] assms(1) by (auto simp: found_def modules_known_def intro: finite_subset [OF _ finite_imageI])

lemma final_mode_keeps [simp]:
  "is_ns3_module (final_mode ms x) = is_ns3_module x" "tg_name (final_mode ms x) = tg_name x" "tg_use (final_mode ms x) = tg_use x"
  "ns3_module_dependencies (final_mode ms x) = ns3_module_dependencies x"
  by (simp_all add: final_mode_def)

lemma modules_of_kept:
  "set (modules_of (map (\<lambda>g. map (final_mode ms) (filter P g)) hs)) = final_mode ms ` {x \<in> set (modules_of hs). P x}"
  unfolding modules_of_def objects_map_filter by auto

text \<open>The modules that stay are those needed, and what stays links against them.\<close>

lemma modules_that_stay:
  assumes "modules_known by_name gs" "set enabled \<subseteq> tg_name ` set (modules_of gs)" "set ms = needed by_name enabled"
    "modules_of hs = modules_of gs"
  shows "tg_name ` set (modules_of (map (\<lambda>g. map (final_mode ms) (filter (stays tests ms) g)) hs)) = set ms"
proof -
  have "stays tests ms x \<longleftrightarrow> tg_name x \<in> set ms" if "x \<in> set (modules_of hs)" for x
  proof -
    have "plain_module x" using that assms(1,4) unfolding modules_known_def by metis
    moreover have "is_ns3_module x" using that by (simp add: modules_of_def)
    ultimately show ?thesis by (simp add: plain_module_def stays_def)
  qed
  moreover have "tg_name ` set (modules_of (map (\<lambda>g. map (final_mode ms) (filter (stays tests ms) g)) hs)) =
      tg_name ` {x \<in> set (modules_of hs). stays tests ms x}"
    by (simp add: modules_of_kept image_image)
  ultimately have "tg_name ` set (modules_of (map (\<lambda>g. map (final_mode ms) (filter (stays tests ms) g)) hs)) =
      tg_name ` set (modules_of hs) \<inter> set ms" by auto
  then show ?thesis using needed_known [OF assms(1,2)] assms(3,4) by auto
qed

text \<open>C1: The build of a selection of modules. It ends, and never raises when waf knows the modules: the modules enabled
  are those selected, in their order, followed by everything they need, once each. What stays of the build is what a
  simple test on each object says, in the order it was made; the headers of the other modules are set to be removed.
  So whatever a module or a program that stays uses of the simulator is a module that stays. The programs and scripts
  listed as runnable are those all of whose modules are built.\<close>

theorem build_keeps_what_is_needed:
  assumes "modules_known by_name gs" "enabled \<noteq> []" "set enabled \<subseteq> tg_name ` set (modules_of gs)"
    "\<And>ms. set ms = needed by_name enabled \<Longrightarrow> distinct_objects (add ms) \<and> (\<forall>x\<in>set (all_task_gen (add ms)). complete x) \<and>
       modules_of (add ms) = modules_of gs"
  shows "\<exists>new b. let ms = enabled @ new; rest = all_task_gen (bt_groups b) in
    build_modules env by_name add enabled with_tests scripts = Some (Inr b) \<and>
    bt_enabled b = ms \<and> set ms = needed by_name enabled \<and> distinct new \<and> set enabled \<inter> set new = {} \<and>
    bt_test_libraries b = (if be_tests env then map snd (filter (\<lambda>(m, t). m \<in> set ms) with_tests) else []) \<and>
    bt_groups b = map (\<lambda>g. map (final_mode ms) (filter (stays (be_tests env) ms) g)) (add ms) \<and>
    tg_name ` set (modules_of (bt_groups b)) = set ms \<and>
    (\<forall>x\<in>set (modules_of (bt_groups b)). \<forall>d\<in>set (tg_use x). starts_with d ''ns3-'' \<longrightarrow> d \<in> tg_name ` set (modules_of (bt_groups b))) \<and>
    (\<forall>x\<in>set rest. \<forall>deps. ns3_module_dependencies x = Some deps \<longrightarrow> set deps \<subseteq> tg_name ` set (modules_of (bt_groups b))) \<and>
    bt_programs b = map (listed_path env) (filter (dependencies_met ms) (all_task_gen (add ms))) \<and>
    bt_scripts b = map fst (filter (\<lambda>(s, deps). set deps \<subseteq> set ms) scripts)"
proof -
  obtain new where new: "enable_dependencies by_name enabled = Some (Inr (enabled @ new))" "distinct new"
    "set enabled \<inter> set new = {}" "set (enabled @ new) = needed by_name enabled"
    using enable_dependencies_result [OF needed_found(1) [OF assms(1,3)]] needed_found(2) [OF assms(1,3)] by auto
  let ?ms = "enabled @ new"
  let ?gs = "map (\<lambda>g. map (final_mode ?ms) (filter (stays (be_tests env) ?ms) g)) (add ?ms)"
  note add = assms(4) [OF new(4)]
  define B where "B = \<lparr>bt_enabled = ?ms, bt_test_libraries = test_libraries (be_tests env) with_tests ?ms, bt_groups = ?gs,
        bt_programs = map (listed_path env) (filter (dependencies_met ?ms) (all_task_gen (add ?ms))),
        bt_scripts = map fst (filter (\<lambda>(s, deps). set deps \<subseteq> set ?ms) scripts)\<rparr>"
  have "exclude_disabled env ?ms \<lparr>b_groups = add ?ms, b_programs = []\<rparr> = Inr \<lparr>b_groups = ?gs,
      b_programs = map (listed_path env) (filter (dependencies_met ?ms) (all_task_gen (add ?ms)))\<rparr>"
    using add by (intro exclude_disabled_result) simp_all
  then have built: "build_modules env by_name add enabled with_tests scripts = Some (Inr B)"
    using assms(2) by (simp add: build_modules_def new(1) script_loop_result(1) B_def del: set_append append_is_Nil_conv)
  have names: "tg_name ` set (modules_of ?gs) = set ?ms"
    using modules_that_stay [OF assms(1,3) new(4)] add by simp
  have uses: "d \<in> set ?ms" if x: "x \<in> set (modules_of ?gs)" and d: "d \<in> set (tg_use x)" "starts_with d ''ns3-''" for x d
  proof -
    have "tg_name x \<in> set ?ms" using x names by blast
    moreover obtain y where y: "x = final_mode ?ms y" "y \<in> set (modules_of gs)"
      using x add by (auto simp: modules_of_kept)
    moreover have "by_name (tg_name y) = Inr (Some y)" using y(2) assms(1) by (simp add: modules_known_def)
    then have "(tg_name y, d) \<in> dep_edges by_name" using d y(1) by (auto simp: dep_edges_def)
    ultimately have "tg_name y \<in> needed by_name enabled" "(tg_name y, d) \<in> dep_edges by_name" using new(4) by auto
    then have "d \<in> needed by_name enabled" by (meson ImageI needed_closed subsetD)
    then show ?thesis using new(4) by simp
  qed
  have deps: "set deps \<subseteq> set ?ms" if "x \<in> set (all_task_gen ?gs)" "ns3_module_dependencies x = Some deps" for x deps
    using that unfolding objects_map_filter by (auto simp: stays_def dependencies_met_def)
  have B: "bt_enabled B = ?ms" "bt_groups B = ?gs" "bt_test_libraries B = test_libraries (be_tests env) with_tests ?ms"
    "bt_programs B = map (listed_path env) (filter (dependencies_met ?ms) (all_task_gen (add ?ms)))"
    "bt_scripts B = map fst (filter (\<lambda>(s, deps). set deps \<subseteq> set ?ms) scripts)" by (simp_all add: B_def)
  show ?thesis
    unfolding Let_def
    by (intro exI [of _ new] exI [of _ B] conjI ballI allI impI)
      (use built names uses deps new in \<open>simp_all only: B test_libraries_def\<close>)
qed

section \<open>Configuring, and the scratch directory\<close>

lemma drop_not_built_result:
  "distinct enabled \<Longrightarrow> enabled \<noteq> [] \<Longrightarrow>
     (if set enabled \<subseteq> ns3_name ` set ns then \<exists>msg. drop_not_built ns enabled = Inl (Exception msg)
      else drop_not_built ns enabled = Inr (filter (\<lambda>m. m \<notin> ns3_name ` set ns) enabled))"
proof (induction ns arbitrary: enabled)
  case (Cons n ns)
  let ?e = "filter (\<lambda>m. m \<noteq> ns3_name n) enabled"
  have r: "remove1 (ns3_name n) enabled = ?e" using Cons(2) by (simp add: distinct_remove1_removeAll removeAll_filter_not_eq)
       (metis (mono_tags) filter_cong)
  show ?case
  proof (cases "ns3_name n \<in> set enabled \<and> ?e = []")
    case True
    then have "\<forall>m\<in>set enabled. m = ns3_name n" by (simp add: filter_empty_conv)
    then have "set enabled \<subseteq> ns3_name ` set (n # ns)" by auto
    then show ?thesis using True r by (simp add: Let_def)
  next
    case False
    have step: "drop_not_built (n # ns) enabled = drop_not_built ns ?e"
    proof (cases "ns3_name n \<in> set enabled")
      case True
      then show ?thesis using False r by (simp add: Let_def)
    next
      case notin: False
      then have "?e = enabled" by (intro filter_True) auto
      then show ?thesis using notin by simp
    qed
    have "?e \<noteq> []" using False Cons(3) by (auto simp: filter_empty_conv) (metis list.set_intros(1) list.exhaust)
    then have ih: "if set ?e \<subseteq> ns3_name ` set ns then \<exists>msg. drop_not_built ns ?e = Inl (Exception msg)
      else drop_not_built ns ?e = Inr (filter (\<lambda>m. m \<notin> ns3_name ` set ns) ?e)" using Cons by simp
    have "set ?e \<subseteq> ns3_name ` set ns \<longleftrightarrow> set enabled \<subseteq> ns3_name ` set (n # ns)" by auto
    moreover have "filter (\<lambda>m. m \<notin> ns3_name ` set ns) ?e = filter (\<lambda>m. m \<notin> ns3_name ` set (n # ns)) enabled"
      by (simp add: conj_commute)
    ultimately show ?thesis using ih unfolding step by simp
  qed
qed auto

lemma modules_read_result:
  assumes "distinct all_modules" "\<forall>m\<in>set all_modules. CHR ''/'' \<notin> set m" "''ns3tcp'' \<notin> set all_modules" "''ns3wifi'' \<notin> set all_modules"
  shows "modules_read not_built all_modules = filter (\<lambda>m. m \<notin> set not_built) all_modules"
  using assms
proof (induction not_built arbitrary: all_modules)
  case Nil
  then show ?case by (simp add: modules_read_def)
next
  case (Cons n ns)
  have one: "remove_module all_modules n = filter (\<lambda>m. m \<noteq> n) all_modules"
  proof (cases "n = ''ns3tcp'' \<or> n = ''ns3wifi''")
    case True
    then have "''test/'' @ n \<notin> set all_modules" "n \<notin> set all_modules" using Cons(3-5) by auto
    then have "filter (\<lambda>m. m \<noteq> n) all_modules = all_modules" by (intro filter_True) auto
    then show ?thesis using True \<open>''test/'' @ n \<notin> set all_modules\<close> by (auto simp: remove_module_def Let_def remove1_idem)
  next
    case False
    then show ?thesis using Cons(2) by (auto simp: remove_module_def Let_def distinct_remove1_removeAll removeAll_filter_not_eq intro: filter_cong)
  qed
  have "modules_read (n # ns) all_modules = modules_read ns (remove_module all_modules n)" by (simp add: modules_read_def)
  also have "\<dots> = filter (\<lambda>m. m \<notin> set ns) (filter (\<lambda>m. m \<noteq> n) all_modules)"
    unfolding one using Cons.prems by (intro Cons.IH) auto
  finally show ?case by (simp add: conj_commute)
qed

lemma select_modules_nonempty:
  "select_modules enable_modules modules_enabled modules = Inr (chosen, shared) \<Longrightarrow> modules \<noteq> [] \<Longrightarrow> chosen \<noteq> []"
  by (auto simp: select_modules_def py_index_def split: if_splits)
text \<open>C37: The modules enabled by configure, when none is chosen twice, are those chosen that can be built, in their
  order; if there are none, configure stops with an error. All of them that are modules of the tree are among the
  directories the build reads. A module chosen twice on the command line is removed once, and stays enabled although
  its directory is not read.\<close>

theorem configure_modules_spec:
  assumes "select_modules enable_modules modules_enabled modules = Inr (chosen, shared)" "distinct chosen" "modules \<noteq> []"
    "nb = (if static \<and> darwin then not_built @ [''template''] else not_built)"
    "modules = ns3_modules all_modules" "distinct all_modules" "\<forall>m\<in>set all_modules. CHR ''/'' \<notin> set m"
    "{''ns3tcp'', ''ns3wifi''} \<inter> set all_modules = {}"
  shows "(if set chosen \<subseteq> ns3_name ` set nb
     then \<exists>msg. configure_modules static darwin enable_modules modules_enabled modules not_built = Inl (Exception msg)
     else \<exists>c. configure_modules static darwin enable_modules modules_enabled modules not_built = Inr c \<and>
       mc_not_built c = nb \<and> mc_enabled c = filter (\<lambda>m. m \<notin> ns3_name ` set nb) chosen \<and> mc_enabled c \<noteq> [] \<and>
       set (mc_enabled c) \<inter> set modules \<subseteq> ns3_name ` set (modules_read nb all_modules)) \<and>
    (\<exists>c. configure_modules static False (Some ''emu,emu'') modules_enabled modules [''emu''] = Inr c \<and>
       mc_enabled c = [''ns3-emu''] \<and> ''emu'' \<notin> set (modules_read (mc_not_built c) all_modules))"
proof
  have ne: "chosen \<noteq> []" using select_modules_nonempty assms(1,3) by blast
  note drop = drop_not_built_result [OF assms(2) ne, of nb]
  have read: "modules_read ns all_modules = filter (\<lambda>m. m \<notin> set ns) all_modules" for ns
    using modules_read_result [OF assms(6,7)] assms(8) by simp
  have names: "set modules = ns3_name ` set all_modules"
    using assms(5,7) by (auto simp: ns3_modules_def split_on_no_sep image_iff)
  have "m \<in> ns3_name ` set (modules_read nb all_modules)" if "m \<in> set modules" "m \<notin> ns3_name ` set nb" for m
    using that by (auto simp: names read)
  moreover have "filter (\<lambda>m. m \<notin> ns3_name ` set nb) chosen \<noteq> []" if "\<not> set chosen \<subseteq> ns3_name ` set nb"
    using that by (auto simp: filter_empty_conv)
  ultimately show "if set chosen \<subseteq> ns3_name ` set nb
     then \<exists>msg. configure_modules static darwin enable_modules modules_enabled modules not_built = Inl (Exception msg)
     else \<exists>c. configure_modules static darwin enable_modules modules_enabled modules not_built = Inr c \<and>
       mc_not_built c = nb \<and> mc_enabled c = filter (\<lambda>m. m \<notin> ns3_name ` set nb) chosen \<and> mc_enabled c \<noteq> [] \<and>
       set (mc_enabled c) \<inter> set modules \<subseteq> ns3_name ` set (modules_read nb all_modules)"
    using drop by (auto simp: configure_modules_def assms(1) assms(4) [symmetric] Let_def split: if_splits)
  show "\<exists>c. configure_modules static False (Some ''emu,emu'') modules_enabled modules [''emu''] = Inr c \<and>
       mc_enabled c = [''ns3-emu''] \<and> ''emu'' \<notin> set (modules_read (mc_not_built c) all_modules)"
    by (simp add: configure_modules_def select_modules_def ns3_name_def read)
qed

theorem configure_modules_spec_witness:
  "\<exists>c. configure_modules True True None [''all_modules''] (ns3_modules [''core'', ''template'', ''emu'']) [''emu''] = Inr c \<and>
     mc_enabled c = [''ns3-core'']"
proof -
  have "if set (ns3_modules [''core'', ''template'', ''emu'']) \<subseteq> ns3_name ` set [''emu'', ''template'']
     then \<exists>msg. configure_modules True True None [''all_modules''] (ns3_modules [''core'', ''template'', ''emu'']) [''emu''] = Inl (Exception msg)
     else \<exists>c. configure_modules True True None [''all_modules''] (ns3_modules [''core'', ''template'', ''emu'']) [''emu''] = Inr c \<and>
       mc_not_built c = [''emu'', ''template''] \<and>
       mc_enabled c = filter (\<lambda>m. m \<notin> ns3_name ` set [''emu'', ''template'']) (ns3_modules [''core'', ''template'', ''emu'']) \<and> mc_enabled c \<noteq> [] \<and>
       set (mc_enabled c) \<inter> set (ns3_modules [''core'', ''template'', ''emu'']) \<subseteq>
         ns3_name ` set (modules_read [''emu'', ''template''] [''core'', ''template'', ''emu''])"
    by (rule configure_modules_spec [where shared = True, THEN conjunct1])
      (simp_all add: select_modules_def py_index_def ns3_modules_def ns3_name_def)
  then show ?thesis by (auto simp: ns3_modules_def ns3_name_def)
qed

text \<open>A program of the scratch directory is built under its plain name, but listed, like the others, under the full one.\<close>

theorem scratch_program_listed_wrong:
  "x \<in> set (add_scratch_programs env enabled node entries) \<Longrightarrow> tg_target x \<noteq> object_name env (tg_name x)"
  by (auto simp: add_scratch_programs_def scratch_program_def object_name_def Let_def split: if_splits)

theorem scratch_program_listed_wrong_witness:
  "\<forall>x\<in>set (add_scratch_programs env [''ns3-core''] (\<lambda>d x. x) [(''third.cc'', False, fresh)]). tg_target x = ''third'' \<and> tg_name x = ''third''"
  by (simp add: add_scratch_programs_def scratch_program_def hidden_def starts_with_def ends_with_def slice_upto_def slice_bound_neg)

text \<open>What is listed names the programs of the scratch directory whenever the enabled modules are modules of the simulator.\<close>

lemma scratch_program_dependencies:
  assumes "x \<in> set (add_scratch_programs env enabled node entries)" "\<forall>m\<in>set enabled. starts_with m ''ns3-''"
    "\<And>d y. ns3_module_dependencies (node d y) = ns3_module_dependencies y"
  shows "dependencies_met enabled x"
proof -
  have "map ns3_name (map (drop 4) enabled) = enabled"
    using assms(2) by (auto simp: ns3_name_def starts_with_iff intro!: map_idI)
  then show ?thesis using assms(1,3)
    by (auto simp: add_scratch_programs_def scratch_program_def create_ns3_program_def dependencies_met_def Let_def split: if_splits)
qed

section \<open>An example\<close>

text \<open>Three modules in a row, with the headers and the test library of the last and a program for each of two.\<close>

definition fresh :: "nat \<Rightarrow> tgen" where
  "fresh i = \<lparr>is_ns3_program = False, tg_name = [], tg_path = ''/ns'', tg_bld = ''/ns/build'', tg_node = [], tg_id = i, tg_features = [],
     tg_target = [], tg_use = [], tg_module = None, tg_headers = [], tg_mode = None, tg_deps = [], is_ns3_module = False,
     test_library_of = None, ns3_module_dependencies = None, tg_install = None, tg_static = False, tg_test = False, tg_flags = []\<rparr>"

definition example_env :: build_env where
  "example_env = \<lparr>be_version = ''3.17'', be_suffix = ''-debug'', be_static = False, be_darwin = False, be_cxx_name = ''gcc'', be_cc_name = ''gcc'',
     be_soname = True, be_elf = True, be_tests = True, be_shlib_flags = [''-fPIC''], be_library = (\<lambda>n. ''lib'' @ n @ ''.so''), be_cwd = ''/ns'',
     be_launch_dir = ''/ns''\<rparr>"

definition example_module :: "nat \<Rightarrow> string \<Rightarrow> string list \<Rightarrow> tgen list" where
  "example_module i n deps = (let (m, pc) = create_ns3_module example_env ''..'' (fresh i) (fresh (i + 1)) n deps False in [m, pc])"

definition example_groups :: groups where
  "example_groups =
     [example_module 0 ''core'' [], example_module 2 ''network'' [''core''], example_module 4 ''wifi'' [''network''] @
      [(fresh 6)\<lparr>tg_features := ''ns3header'', tg_module := Some ''wifi''\<rparr>,
       fst (fst (create_ns3_module_test_library example_env ''..'' ''.'' (fresh 7) (fresh 8) ''wifi'')),
       create_ns3_program example_env (fresh 9) ''first'' [''network''], create_ns3_program example_env (fresh 10) ''third'' [''wifi'']]]"

definition example_find :: "string \<Rightarrow> py_exn + tgen option" where
  "example_find n = Inr (List.find (\<lambda>x. tg_name x = n) (all_task_gen example_groups))"

lemmas example_defs = example_groups_def example_module_def example_env_def fresh_def create_ns3_module_def
  create_ns3_module_test_library_def create_ns3_program_def all_task_gen_def ns3_name_def Let_def

lemma example_known: "modules_known example_find example_groups"
  by (simp add: modules_known_def modules_of_def plain_module_def example_find_def has_feature_def example_defs starts_with_def)

lemma example_complete: "distinct_objects example_groups" "\<forall>x\<in>set (all_task_gen example_groups). complete x"
  by (simp_all add: distinct_objects_def complete_def has_feature_def example_defs starts_with_def)

lemma dependencies_met_code [code]:
  "dependencies_met modules x = (case ns3_module_dependencies x of None \<Rightarrow> False | Some deps \<Rightarrow> set deps \<subseteq> set modules)"
  by (auto simp: dependencies_met_def split: option.splits)

lemma depends_image:
  "dep_edges by_name `` {m} = (case by_name m of Inr (Some obj) \<Rightarrow> {d \<in> set (tg_use obj). starts_with d ''ns3-''} | _ \<Rightarrow> {})"
  by (auto simp: dep_edges_def split: sum.splits option.splits)

lemma example_uses:
  "map_option tg_use (projr (example_find ''ns3-network'')) = Some [''ns3-core'']"
  "map_option tg_use (projr (example_find ''ns3-core'')) = Some []"
  "map tg_name (modules_of example_groups) = [''ns3-core'', ''ns3-network'', ''ns3-wifi'']"
  by code_simp+

lemma example_needed: "needed example_find [''ns3-network''] = {''ns3-network'', ''ns3-core''}"
proof -
  have dep: "dep_edges example_find `` {''ns3-network''} = {''ns3-core''}" "dep_edges example_find `` {''ns3-core''} = {}"
    using example_uses(1,2) by (auto simp: depends_image example_find_def starts_with_def)
  have "d \<in> {''ns3-network'', ''ns3-core''}" if "(m, d) \<in> (dep_edges example_find)\<^sup>*" "m = ''ns3-network''" for m d
    using that by (induction rule: rtrancl_induct) (use dep in auto)
  moreover have "(''ns3-network'', ''ns3-core'') \<in> dep_edges example_find" using dep(1) by auto
  ultimately show ?thesis by auto
qed

lemma example_result:
  "map (map tg_id) (map (\<lambda>g. map (final_mode [''ns3-network'', ''ns3-core''])
     (filter (stays (be_tests example_env) [''ns3-network'', ''ns3-core'']) g)) example_groups) = [[0, 1], [2, 3], [6, 9]]"
  by code_simp

theorem build_keeps_what_is_needed_witness:
  "\<exists>b. build_modules example_env example_find (\<lambda>ms. example_groups) [''ns3-network''] [(''ns3-wifi'', ''ns3-wifi-test'')]
     [(''wifi.py'', [''ns3-wifi'']), (''first.py'', [''ns3-core''])] = Some (Inr b) \<and> bt_enabled b = [''ns3-network'', ''ns3-core''] \<and>
     bt_test_libraries b = [] \<and> bt_scripts b = [''first.py''] \<and> map (map tg_id) (bt_groups b) = [[0, 1], [2, 3], [6, 9]]"
proof -
  have "''ns3-network'' \<in> set (map tg_name (modules_of example_groups))" unfolding example_uses(3) by simp
  then have names: "set [''ns3-network''] \<subseteq> tg_name ` set (modules_of example_groups)" by simp
  have "\<exists>new b. let ms = [''ns3-network''] @ new; rest = all_task_gen (bt_groups b) in
    build_modules example_env example_find (\<lambda>ms. example_groups) [''ns3-network''] [(''ns3-wifi'', ''ns3-wifi-test'')]
      [(''wifi.py'', [''ns3-wifi'']), (''first.py'', [''ns3-core''])] = Some (Inr b) \<and>
    bt_enabled b = ms \<and> set ms = needed example_find [''ns3-network''] \<and> distinct new \<and> set [''ns3-network''] \<inter> set new = {} \<and>
    bt_test_libraries b = (if be_tests example_env then map snd (filter (\<lambda>(m, t). m \<in> set ms) [(''ns3-wifi'', ''ns3-wifi-test'')]) else []) \<and>
    bt_groups b = map (\<lambda>g. map (final_mode ms) (filter (stays (be_tests example_env) ms) g)) example_groups \<and>
    tg_name ` set (modules_of (bt_groups b)) = set ms \<and>
    (\<forall>x\<in>set (modules_of (bt_groups b)). \<forall>d\<in>set (tg_use x). starts_with d ''ns3-'' \<longrightarrow> d \<in> tg_name ` set (modules_of (bt_groups b))) \<and>
    (\<forall>x\<in>set rest. \<forall>deps. ns3_module_dependencies x = Some deps \<longrightarrow> set deps \<subseteq> tg_name ` set (modules_of (bt_groups b))) \<and>
    bt_programs b = map (listed_path example_env) (filter (dependencies_met ms) (all_task_gen example_groups)) \<and>
    bt_scripts b = map fst (filter (\<lambda>(s, deps). set deps \<subseteq> set ms) [(''wifi.py'', [''ns3-wifi'']), (''first.py'', [''ns3-core''])])"
    (is "\<exists>new b. ?R new b") by (rule build_keeps_what_is_needed [where add = "\<lambda>ms. example_groups", OF example_known _ names]) (use example_complete in \<open>blast+\<close>)
  then obtain new b where r: "?R new b" by (elim exE)
  note b = r [unfolded Let_def example_needed]
  have diff: "A \<inter> N = {} \<Longrightarrow> N = (A \<union> N) - A" for A N :: "string set" by auto
  have "set new = set ([''ns3-network''] @ new) - set [''ns3-network'']" using b unfolding set_append by (elim conjE) (rule diff)
  also have "\<dots> = {''ns3-core''}" using b by (elim conjE) simp
  finally have new: "set new = {''ns3-core''}" .
  have "length new = 1" using b distinct_card [of new] unfolding new by simp
  then have new: "new = [''ns3-core'']" using new by (cases new) simp_all
  have "map (map tg_id) (bt_groups b) = [[0, 1], [2, 3], [6, 9]]" using b example_result unfolding new by simp
  then show ?thesis using b unfolding new by (intro exI [of _ b]) simp
qed

end
