(* ===== verification/Build_Files.thy ===== *)
theory Build_Files
  imports Build_Modules Ns3rc
begin

text \<open>
  \<open>src/wscript\<close>, \<open>src/src/wscript\<close> and \<open>src/bindings/python/wscript\<close>: what the build writes and prints - the list of
  what can be run that \<open>test.py\<close> reads, the table of modules, the header of a module and its file for
  \<open>pkg-config\<close> - and the small functions around them.

  Python's \<open>eval\<close>, with which the list is read, is modelled on displays of string literals; on any other text it is
  the parameter \<open>other\<close>.
\<close>

section \<open>Lists of strings as text\<close>

definition str_list :: "string list \<Rightarrow> string" where
  "str_list xs = ''['' @ join_with '', '' (map py_repr xs) @ '']''"

definition hex_code :: "char \<Rightarrow> nat option" where
  "hex_code c = map_of (zip ''0123456789abcdefABCDEF'' ([0..<16] @ [10..<16])) c"

definition simple_escape :: "char \<Rightarrow> char option" where
  "simple_escape c = map_of
     [(CHR 0x5C, CHR 0x5C), (CHR 0x27, CHR 0x27), (CHR 0x22, CHR 0x22), (CHR ''a'', CHR 0x07), (CHR ''b'', CHR 0x08), (CHR ''f'', CHR 0x0C),
      (CHR ''n'', CHR 0x0A), (CHR ''r'', CHR 0x0D), (CHR ''t'', CHR 0x09), (CHR ''v'', CHR 0x0B)] c"

definition is_octal :: "char \<Rightarrow> bool" where
  "is_octal c \<longleftrightarrow> c \<in> set ''01234567''"

text \<open>What follows a backslash in a literal: the characters it stands for, and the rest.\<close>

definition read_escape :: "string \<Rightarrow> (string \<times> string) option" where
  "read_escape s =
     (case s of
        [] \<Rightarrow> None
      | c # r \<Rightarrow>
          if c = CHR 0x0A then Some ([], r)
          else case simple_escape c of
            Some d \<Rightarrow> Some ([d], r)
          | None \<Rightarrow>
              if c = CHR ''x''
              then (case r of
                      a # b # r' \<Rightarrow> (case (hex_code a, hex_code b) of (Some h, Some l) \<Rightarrow> Some ([char_of (16 * h + l)], r') | _ \<Rightarrow> None)
                    | _ \<Rightarrow> None)
              else if is_octal c
              then let d = takeWhile is_octal (take 3 s)
                   in Some ([char_of (foldl (\<lambda>n c. 8 * n + nat (digit_value c)) 0 d)], drop (length d) s)
              else Some ([CHR 0x5C, c], r))"

lemma read_escape_shorter: "read_escape s = Some (t, r) \<Longrightarrow> length r < length s"
  by (auto simp: read_escape_def Let_def split: list.splits option.splits if_splits)

text \<open>A literal after its opening quote.\<close>

function read_string :: "char \<Rightarrow> string \<Rightarrow> (string \<times> string) option" where
  "read_string q [] = None"
| "read_string q (c # s) =
     (if c = q then Some ([], s)
      else if c = CHR 0x0A then None
      else if c = CHR 0x5C
      then (case read_escape s of None \<Rightarrow> None | Some (t, r) \<Rightarrow> map_option (\<lambda>(u, r'). (t @ u, r')) (read_string q r))
      else map_option (\<lambda>(u, r). (c # u, r)) (read_string q s))"
  by pat_completeness auto
termination
  by (relation "measure (\<lambda>(q, s). length s)") (auto dest: read_escape_shorter)

lemma read_string_shorter: "read_string q s = Some (t, r) \<Longrightarrow> length r < length s"
proof (induction q s arbitrary: t r rule: read_string.induct)
  case (2 q c s)
  then show ?case
    by (auto split: if_splits option.splits dest!: read_escape_shorter) (meson less_SucI less_trans)+
qed simp

lemma dropWhile_shorter: "dropWhile P s = c # r \<Longrightarrow> length r < length s"
  by (metis Suc_le_lessD length_Cons length_dropWhile_le)

text \<open>The items of a display, after its bracket or a comma.\<close>

function read_items :: "string \<Rightarrow> string list option" where
  "read_items s =
     (case dropWhile is_space s of
        [] \<Rightarrow> None
      | q # r \<Rightarrow>
          if q \<noteq> CHR 0x27 \<and> q \<noteq> CHR 0x22 then None
          else case read_string q r of
            None \<Rightarrow> None
          | Some (t, r') \<Rightarrow>
              (case dropWhile is_space r' of
                 [] \<Rightarrow> None
               | c # r'' \<Rightarrow>
                   if c = CHR '','' then map_option (\<lambda>ts. t # ts) (read_items r'')
                   else if c = CHR '']'' \<and> list_all is_space r'' then Some [t] else None))"
  by pat_completeness auto
termination
  by (relation "measure length") (auto dest!: dropWhile_shorter read_string_shorter)

declare read_items.simps [simp del]

definition read_list :: "string \<Rightarrow> string list option" where
  "read_list s =
     (case s of
        [] \<Rightarrow> None
      | c # r \<Rightarrow>
          if c \<noteq> CHR ''['' then None
          else case dropWhile is_space r of
            [] \<Rightarrow> None
          | d # e \<Rightarrow> if d = CHR '']'' then (if list_all is_space e then Some [] else None) else read_items r)"

definition eval_names :: "(string \<Rightarrow> py_exn + string list) \<Rightarrow> string \<Rightarrow> py_exn + string list" where
  "eval_names other s = (case read_list s of Some xs \<Rightarrow> Inr xs | None \<Rightarrow> other s)"

section \<open>The list of what can be run\<close>

definition build_status :: "string list \<Rightarrow> string list \<Rightarrow> string list" where
  "build_status programs scripts =
     [''#! /usr/bin/env python'' @ newline, newline, ''# Programs that are runnable.'' @ newline,
      ''ns3_runnable_programs = '' @ str_list programs @ newline, newline, ''# Scripts that are runnable.'' @ newline,
      ''ns3_runnable_scripts = '' @ str_list scripts @ newline, newline]"

text \<open>The lines Python reads from a file with a given text.\<close>

fun file_lines :: "string \<Rightarrow> string list" where
  "file_lines [] = []"
| "file_lines (c # s) =
     (if c = CHR 0x0A then newline # file_lines s
      else case file_lines s of [] \<Rightarrow> [[c]] | l # ls \<Rightarrow> (c # l) # ls)"

section \<open>Reading back\<close>

lemma hex_code_char: "k < 16 \<Longrightarrow> hex_code (hex_char k) = Some k"
proof -
  have "list_all (\<lambda>k. hex_code (hex_char k) = Some k) [0..<16]" by code_simp
  then show "k < 16 \<Longrightarrow> hex_code (hex_char k) = Some k" by (simp add: list_all_iff)
qed

lemma read_escape_simple: "c \<noteq> CHR 0x0A \<Longrightarrow> simple_escape c = Some d \<Longrightarrow> read_escape (c # r) = Some ([d], r)"
  by (simp add: read_escape_def)

lemma read_escape_hex: "read_escape (CHR ''x'' # hex_char (of_char c div 16) # hex_char (of_char c mod 16) # r) = Some ([c], r)"
proof -
  have "(of_char c :: nat) div 16 < 16" using nat_of_char_less_256 [of c] by (simp add: less_mult_imp_div_less del: nat_of_char_less_256)
  then show ?thesis by (simp add: read_escape_def simple_escape_def hex_code_char)
qed

lemma read_string_escape:
  "q \<noteq> CHR 0x5C \<Longrightarrow> read_escape (a @ rest) = Some ([c], rest) \<Longrightarrow> read_string q rest = Some (s, r) \<Longrightarrow>
   read_string q (CHR 0x5C # a @ rest) = Some (c # s, r)"
  by simp

lemma read_repr_char:
  assumes "q = CHR 0x27 \<or> q = CHR 0x22" "read_string q rest = Some (s, r)"
  shows "read_string q (repr_char q c @ rest) = Some (c # s, r)"
proof -
  have q: "q \<noteq> CHR 0x5C" "q \<noteq> CHR 0x0A" "simple_escape q = Some q" using assms(1) by (auto simp: simple_escape_def)
  have e: "simple_escape CHR 0x5C = Some CHR 0x5C" "simple_escape CHR ''n'' = Some CHR 0x0A" "simple_escape CHR ''r'' = Some CHR 0x0D"
    "simple_escape CHR ''t'' = Some CHR 0x09" by (simp_all add: simple_escape_def)
  note esc = read_string_escape [OF q(1) _ assms(2)] read_string_escape [OF q(1) _ assms(2), of "[x]" for x, simplified]
  consider "c = q \<or> c = CHR 0x5C" | "c = CHR 0x0A" | "c = CHR 0x0D" | "c = CHR 0x09"
    | "c \<notin> {q, CHR 0x5C, CHR 0x0A, CHR 0x0D, CHR 0x09}" by blast
  then show ?thesis
  proof cases
    case 1
    then have "c \<noteq> CHR 0x0A" "simple_escape c = Some c" using q e(1) by auto
    then show ?thesis using 1 esc(2) [OF read_escape_simple] by (auto simp: repr_char_def Let_def)
  next
    case 5
    show ?thesis
    proof (cases "(of_char c :: nat) < 32 \<or> 127 \<le> (of_char c :: nat)")
      case True
      then have "repr_char q c = CHR 0x5C # [CHR ''x'', hex_char (of_char c div 16), hex_char (of_char c mod 16)]"
        using 5 by (simp add: repr_char_def Let_def)
      then show ?thesis using esc(1) [of "[CHR ''x'', hex_char (of_char c div 16), hex_char (of_char c mod 16)]" c] read_escape_hex [of c rest]
        by simp
    next
      case False
      then show ?thesis using 5 assms(2) by (simp add: repr_char_def Let_def)
    qed
  qed (use q e esc(2) [OF read_escape_simple] in \<open>auto simp: repr_char_def Let_def\<close>)
qed

lemma read_repr:
  assumes "q = CHR 0x27 \<or> q = CHR 0x22"
  shows "read_string q (concat (map (repr_char q) s) @ q # r) = Some (s, r)"
  by (induction s) (simp_all add: read_repr_char [OF assms])

lemma read_items_blank: "read_items (CHR '' '' # s) = read_items s"
  by (subst (1 2) read_items.simps) (simp add: is_space_def)

lemma read_items_repr:
  "xs \<noteq> [] \<Longrightarrow> read_items (join_with '', '' (map py_repr xs) @ '']'') = Some xs"
proof (induction xs)
  case (Cons x xs)
  define q where "q = (if CHR 0x27 \<in> set x \<and> CHR 0x22 \<notin> set x then CHR 0x22 else CHR 0x27)"
  have q: "q = CHR 0x27 \<or> q = CHR 0x22" by (simp add: q_def)
  have sp: "\<not> is_space q" using q by (auto simp: is_space_def)
  have x: "py_repr x = q # concat (map (repr_char q) x) @ [q]" by (simp add: py_repr_def q_def Let_def)
  show ?case
  proof (cases xs)
    case Nil
    then show ?thesis using read_repr [OF q, of x "'']''"] q sp
      by (subst read_items.simps) (auto simp: x is_space_def)
  next
    case (Cons y ys)
    then have "read_items ('' '' @ join_with '', '' (map py_repr xs) @ '']'') = Some xs"
      using Cons.IH by (simp add: read_items_blank)
    then show ?thesis using Cons read_repr [OF q, of x "'','' @ '' '' @ join_with '', '' (map py_repr xs) @ '']''"] q sp
      by (subst read_items.simps) (auto simp: x is_space_def)
  qed
qed simp

lemma eval_str_list: "eval_names other (str_list xs) = Inr xs"
proof (cases xs)
  case Nil
  then show ?thesis by (simp add: eval_names_def str_list_def read_list_def is_space_def)
next
  case (Cons x ys)
  then have "\<exists>q t. join_with '', '' (map py_repr xs) @ '']'' = q # t \<and> \<not> is_space q \<and> q \<noteq> CHR '']''"
    by (cases ys) (auto simp: py_repr_def Let_def is_space_def)
  then show ?thesis using read_items_repr [of xs] Cons
    by (auto simp: eval_names_def str_list_def read_list_def)
qed

text \<open>The characters of a representation.\<close>

lemma hex_char_digit: "k < 16 \<Longrightarrow> hex_char k \<in> set ''0123456789abcdef''"
  unfolding hex_char_def by (rule nth_mem) simp

lemma repr_char_chars:
  assumes "x \<in> set (repr_char q c)"
  shows "x = c \<and> c \<noteq> CHR 0x0A \<or> x = q \<or> x \<in> set (CHR 0x5C # ''nrtx0123456789abcdef'')"
proof -
  have "hex_char (of_char c mod 16) \<in> set ''0123456789abcdef''" by (rule hex_char_digit) simp
  moreover have "hex_char (of_char c div 16) \<in> set ''0123456789abcdef''"
    using nat_of_char_less_256 [of c] by (intro hex_char_digit) (simp add: less_mult_imp_div_less del: nat_of_char_less_256)
  moreover have "x = c \<and> c \<noteq> CHR 0x0A \<or> x = q \<or> x \<in> set (CHR 0x5C # ''nrtx'') \<or> x = hex_char (of_char c mod 16) \<or> x = hex_char (of_char c div 16)"
    using assms unfolding repr_char_def Let_def by (simp split: if_splits) blast+
  ultimately show ?thesis by auto
qed

definition repr_chars :: "char set" where
  "repr_chars = set (CHR 0x5C # CHR 0x27 # CHR 0x22 # ''nrtx0123456789abcdef'')"

lemma repr_chars: "CHR ''#'' \<notin> repr_chars" "CHR 0x0A \<notin> repr_chars" "CHR 0x27 \<in> repr_chars" "CHR 0x22 \<in> repr_chars"
  "set (CHR 0x5C # ''nrtx0123456789abcdef'') \<subseteq> repr_chars"
  unfolding repr_chars_def by simp_all

lemma py_repr_chars: "x \<in> set (py_repr s) \<Longrightarrow> x \<in> set s \<and> x \<noteq> CHR 0x0A \<or> x \<in> repr_chars"
proof -
  define q where "q = (if CHR 0x27 \<in> set s \<and> CHR 0x22 \<notin> set s then CHR 0x22 else CHR 0x27)"
  have q: "q \<in> repr_chars" using repr_chars(3,4) by (simp add: q_def)
  assume "x \<in> set (py_repr s)"
  then consider "x = q" | c where "c \<in> set s" "x \<in> set (repr_char q c)" unfolding py_repr_def Let_def q_def [symmetric] by (simp, blast)
  then show ?thesis
  proof cases
    case (2 c)
    then show ?thesis using repr_char_chars [OF 2(2)] q repr_chars(5) by blast
  qed (simp add: q)
qed

lemma repr_no_hash: "CHR ''#'' \<notin> set s \<Longrightarrow> CHR ''#'' \<notin> set (py_repr s)"
  using py_repr_chars repr_chars(1) by blast

lemma repr_no_newline: "CHR 0x0A \<notin> set (py_repr s)"
  using py_repr_chars repr_chars(2) by blast

lemma set_join: "set (join_with sep xs) \<subseteq> set sep \<union> \<Union> (set ` set xs)"
  by (induction sep xs rule: join_with.induct) auto

lemma str_list_no_hash: "\<forall>x\<in>set xs. CHR ''#'' \<notin> set x \<Longrightarrow> CHR ''#'' \<notin> set (str_list xs)"
  using set_join [of "'', ''" "map py_repr xs"] by (auto simp: str_list_def repr_no_hash)

lemma str_list_strip: "py_strip ('' '' @ str_list xs @ newline) = str_list xs"
proof -
  obtain t where t: "str_list xs = CHR ''['' # t @ [CHR '']'']" by (simp add: str_list_def)
  show ?thesis unfolding t by (simp add: py_strip_def newline_def is_space_def)
qed

lemma eval_status_line:
  assumes "CHR ''='' \<notin> set n"
  shows "eval_assigned (eval_names other) (n @ '' = '' @ str_list xs @ newline) = Inr xs"
proof -
  have "split_once CHR ''='' ((n @ '' '') @ CHR ''='' # ('' '' @ str_list xs @ newline)) = [n @ '' '', '' '' @ str_list xs @ newline]"
    using assms by (intro split_once_append) simp
  then show ?thesis using str_list_strip [of xs] by (simp add: eval_assigned_def py_index_def eval_str_list del: split_once_append)
qed

lemma file_lines_line: "CHR 0x0A \<notin> set l \<Longrightarrow> file_lines (l @ newline @ s) = (l @ newline) # file_lines s"
  by (induction l) (auto simp: newline_def)

lemma build_status_lines: "file_lines (concat (build_status programs scripts)) = build_status programs scripts"
proof -
  have "CHR 0x0A \<notin> set (str_list xs)" for xs
    using set_join [of "'', ''" "map py_repr xs"] repr_no_newline by (auto simp: str_list_def)
  then have list_line: "file_lines ((n @ str_list xs) @ newline @ s) = ((n @ str_list xs) @ newline) # file_lines s" if "CHR 0x0A \<notin> set n" for n xs s
    using that by (intro file_lines_line) auto
  have blank: "file_lines (newline @ s) = newline # file_lines s" for s using file_lines_line [of "[]" s] by simp
  have "file_lines (''#! /usr/bin/env python'' @ newline @ s) = (''#! /usr/bin/env python'' @ newline) # file_lines s"
    "file_lines (''# Programs that are runnable.'' @ newline @ s) = (''# Programs that are runnable.'' @ newline) # file_lines s"
    "file_lines (''# Scripts that are runnable.'' @ newline @ s) = (''# Scripts that are runnable.'' @ newline) # file_lines s" for s
    by (rule file_lines_line, simp)+
  moreover have "file_lines (''ns3_runnable_programs = '' @ str_list programs @ newline @ s) = (''ns3_runnable_programs = '' @ str_list programs @ newline) # file_lines s"
    "file_lines (''ns3_runnable_scripts = '' @ str_list scripts @ newline @ s) = (''ns3_runnable_scripts = '' @ str_list scripts @ newline) # file_lines s" for s
    using list_line [of "''ns3_runnable_programs = ''" programs s] list_line [of "''ns3_runnable_scripts = ''" scripts s] by simp_all
  ultimately show ?thesis using blank blank [of "[]"]
    by (simp only: build_status_def concat.simps append_assoc append_Nil2 file_lines.simps)
qed

lemma find_list_first:
  assumes "remove_comment l = l" "is_substring n l" "CHR '']'' \<in> set l"
  shows "find_list ev n [] False (l # rest) = eval_assigned ev l"
  using assms by (simp add: Let_def)

lemma is_substring_prefix: "is_substring p (p @ s)"
  by (auto simp: is_substring_iff intro: exI [of _ "[]"])

lemma build_status_before:
  "\<forall>l\<in>set [''#! /usr/bin/env python'' @ newline, newline, ''# Programs that are runnable.'' @ newline, ''# Scripts that are runnable.'' @ newline].
     \<not> is_substring ''ns3_runnable_programs'' (remove_comment l) \<and> \<not> is_substring ''ns3_runnable_scripts'' (remove_comment l)"
  by (simp add: remove_comment_def split_once_def starts_with_def newline_def)

text \<open>C4: The list of what can be run survives the way from the build to \<open>test.py\<close>: the two lists \<open>shutdown\<close> writes into
  \<open>build-status.py\<close>, with any characters in the names, are the ones \<open>get_list_from_file\<close> reads, if no name holds the
  sign of a comment and the programs do not hold the name of the second list.\<close>

theorem build_status_roundtrip:
  assumes "fs file_path = Some (file_lines (concat (build_status programs scripts)))"
    "\<forall>x\<in>set programs \<union> set scripts. CHR ''#'' \<notin> set x"
    "\<not> is_substring ''ns3_runnable_scripts'' (''ns3_runnable_programs = '' @ str_list programs @ newline)"
  shows "get_list_from_file fs (eval_names other) file_path ''ns3_runnable_programs'' = Inr programs \<and>
    get_list_from_file fs (eval_names other) file_path ''ns3_runnable_scripts'' = Inr scripts"
proof -
  have hash: "CHR ''#'' \<notin> set (str_list programs)" "CHR ''#'' \<notin> set (str_list scripts)"
    using assms(2) by (simp_all add: str_list_no_hash)
  let ?p = "''ns3_runnable_programs = '' @ str_list programs @ newline" and ?s = "''ns3_runnable_scripts = '' @ str_list scripts @ newline"
  have plain: "remove_comment ?p = ?p" "remove_comment ?s = ?s" "remove_comment newline = newline"
    using hash by (simp_all add: remove_comment_def newline_def)
  have bracket: "CHR '']'' \<in> set ?p" "CHR '']'' \<in> set ?s" by (simp_all add: str_list_def)
  have inside: "is_substring ''ns3_runnable_programs'' ?p" "is_substring ''ns3_runnable_scripts'' ?s"
    using is_substring_prefix [of "''ns3_runnable_programs''" "'' = '' @ str_list programs @ newline"]
      is_substring_prefix [of "''ns3_runnable_scripts''" "'' = '' @ str_list scripts @ newline"] by (simp_all only: append_assoc [symmetric], simp_all)
  have fs: "fs file_path = Some (build_status programs scripts)" using assms(1) by (simp only: build_status_lines)
  have "find_list ev ''ns3_runnable_programs'' [] False (build_status programs scripts) = eval_assigned ev ?p" for ev :: "string \<Rightarrow> py_exn + string list"
  proof -
    have "build_status programs scripts = [''#! /usr/bin/env python'' @ newline, newline, ''# Programs that are runnable.'' @ newline] @
        (?p # [newline, ''# Scripts that are runnable.'' @ newline, ?s, newline])" by (simp only: build_status_def append.simps)
    then show ?thesis using build_status_before find_list_first [OF plain(1) inside(1) bracket(1)] by (simp only: find_list_skip) simp
  qed
  moreover have "find_list ev ''ns3_runnable_scripts'' [] False (build_status programs scripts) = eval_assigned ev ?s" for ev :: "string \<Rightarrow> py_exn + string list"
  proof -
    have "build_status programs scripts = [''#! /usr/bin/env python'' @ newline, newline, ''# Programs that are runnable.'' @ newline,
        ?p, newline, ''# Scripts that are runnable.'' @ newline] @ (?s # [newline])" by (simp only: build_status_def append.simps)
    then show ?thesis using build_status_before find_list_first [OF plain(2) inside(2) bracket(2)] assms(3) plain(1) by (simp only: find_list_skip) simp
  qed
  ultimately show ?thesis
    using eval_status_line [of "''ns3_runnable_programs''" other programs] eval_status_line [of "''ns3_runnable_scripts''" other scripts]
    by (simp add: get_list_from_file_def fs)
qed

theorem build_status_roundtrip_witness:
  "(let fs = (\<lambda>p. Some (file_lines (concat (build_status [CHR 0x27 # ''it'', ''a, b]''] [''first.py'']))));
        read = get_list_from_file fs (eval_names (\<lambda>s. Inl NameError)) ''build-status.py''
    in read ''ns3_runnable_programs'' = Inr [CHR 0x27 # ''it'', ''a, b]''] \<and> read ''ns3_runnable_scripts'' = Inr [''first.py''])"
  unfolding Let_def
  by (rule build_status_roundtrip, rule refl)
    (simp_all add: str_list_def py_repr_def repr_char_def starts_with_def newline_def Let_def)

section \<open>The table of modules\<close>

definition ljust :: "nat \<Rightarrow> string \<Rightarrow> string" where
  "ljust n s = s @ replicate (n - length s) CHR '' ''"

text \<open>The loop: \<open>i\<close> is the next column, \<open>soft\<close> whether a blank goes before the next name, as \<open>print\<close> with a comma leaves it.\<close>

fun print_columns :: "nat \<Rightarrow> bool \<Rightarrow> string list \<Rightarrow> string" where
  "print_columns i soft [] = (if i \<noteq> 1 then newline else [])"
| "print_columns i soft (n # ns) =
     (if soft then '' '' else []) @ ljust 25 n @ (if i = 3 then newline @ print_columns 1 False ns else print_columns (i + 1) True ns)"

definition print_module_names :: "string list \<Rightarrow> string" where
  "print_module_names names = print_columns 1 False (sort names)"

definition built_names :: "string list \<Rightarrow> string list \<Rightarrow> string list" where
  "built_names enabled modular = map (\<lambda>n. drop 4 n @ (if n \<notin> set modular then '' (no Python)'' else [])) enabled"

definition shutdown_tables :: "bool \<Rightarrow> string list \<Rightarrow> string list \<Rightarrow> string list \<Rightarrow> string" where
  "shutdown_tables print_at_end enabled modular not_built =
     (if \<not> print_at_end then []
      else newline @ ''Modules built:'' @ newline @ print_module_names (built_names enabled modular) @ newline @
        (if not_built \<noteq> []
         then ''Modules not built (see ns-3 tutorial for explanation):'' @ newline @ print_module_names not_built @ newline else []))"

section \<open>Configuration\<close>

text \<open>\<open>_check_compilation_flag\<close>: the flags of the message. Python 2 orders every string after every number.\<close>

definition string_greater :: "string \<Rightarrow> int \<Rightarrow> bool" where
  "string_greater s n = True"

definition flag_list :: "string \<Rightarrow> (string + string list) option \<Rightarrow> string list" where
  "flag_list flag linkflags =
     (if flag \<noteq> [] then [flag] else []) @
     (case linkflags of None \<Rightarrow> [] | Some (Inl s) \<Rightarrow> if s \<noteq> [] then [s] else [] | Some (Inr ls) \<Rightarrow> ls)"

definition flag_message :: "string \<Rightarrow> (string + string list) option \<Rightarrow> string" where
  "flag_message flag linkflags =
     (let l = flag_list flag linkflags;
          flag_str = (if length l > 1 then ''flags '' else ''flag '') @ join_with '' '' l;
          flag_str = (if string_greater flag_str 28 then take 28 flag_str @ ''...'' else flag_str)
      in ''Checking for compilation '' @ flag_str @ '' support'')"

type_synonym feature = "string \<times> string \<times> bool \<times> string"

definition report_optional_feature :: "feature \<Rightarrow> feature list \<Rightarrow> feature list" where
  "report_optional_feature f features = features @ [f]"

definition check_optional_feature :: "feature list \<Rightarrow> string \<Rightarrow> py_exn + bool" where
  "check_optional_feature features n =
     (case List.find (\<lambda>(n1, caption, was_enabled, reason). n1 = n) features of None \<Rightarrow> Inl KeyError | Some (n1, caption, b, reason) \<Rightarrow> Inr b)"

definition feature_line :: "(string \<Rightarrow> string) \<Rightarrow> feature \<Rightarrow> string" where
  "feature_line color f =
     (case f of (n, caption, was_enabled, reason) \<Rightarrow>
        ljust 30 caption @ '': '' @ color (if was_enabled then ''GREEN'' else ''RED'') @
        (if was_enabled then ''enabled'' else ''not enabled ('' @ reason @ '')'') @ color ''NORMAL'')"

text \<open>The loop of \<open>src/bindings/python/wscript\<close> that removes the architectures from a list of flags.\<close>

fun remove_arch :: "string list \<Rightarrow> py_exn + string list" where
  "remove_arch [] = Inr []"
| "remove_arch (f # fs) =
     (if f = ''-arch'' then (case fs of [] \<Rightarrow> Inl IndexError | a # r \<Rightarrow> remove_arch r)
      else py_bind (remove_arch fs) (\<lambda>r. Inr (f # r)))"

section \<open>The shell\<close>

definition shell_env :: "wutils_world \<Rightarrow> (string, string) dict" where
  "shell_env w = [(''NS3_MODULE_PATH'', join_with (pathsep w) (w_module_path w)), (''NS3_EXECUTABLE_PATH'', join_with (pathsep w) (w_executable_path w))]"

definition ns3_shell :: "wutils_world \<Rightarrow> run_error + int" where
  "ns3_shell w =
     run_argv w [if w_platform w = ''win32'' then dict_getdefault (w_environ w) ''COMSPEC'' ''cmd.exe''
                 else dict_getdefault (w_environ w) ''SHELL'' ''/bin/sh''] (Some (shell_env w)) None False"

definition check_shell :: "wutils_world \<Rightarrow> py_exn + unit" where
  "check_shell w =
     (case (dict_get (w_environ w) ''NS3_MODULE_PATH'', dict_get (w_environ w) ''NS3_EXECUTABLE_PATH'') of
        (Some found_modpath, Some found_execpath) \<Rightarrow>
          if found_modpath \<noteq> join_with (pathsep w) (w_module_path w) \<or> join_with (pathsep w) (w_executable_path w) \<noteq> found_execpath
          then Inl (Exception ''Detected shell (./waf shell) with incorrect configuration'') else Inr ()
      | _ \<Rightarrow> Inr ())"

section \<open>Headers\<close>

text \<open>Which module a header belongs to, and where a module is, for the scan of the bindings.\<close>

definition header_sources :: "tgen \<Rightarrow> (string, string) dict \<Rightarrow> py_exn + (string, string) dict" where
  "header_sources obj d =
     (if has_feature obj ''ns3header''
      then py_bind (get_attr (tg_module obj)) (\<lambda>m.
             Inr (if ends_with m ''-test'' then d else foldl (\<lambda>d h. dict_set d (basename h) m) d (tg_headers obj)))
      else Inr d)"

definition get_headers_map :: "groups \<Rightarrow> py_exn + (string, string) dict" where
  "get_headers_map gs = py_fold header_sources (all_task_gen gs) []"

fun find_module_path :: "string \<Rightarrow> tgen list \<Rightarrow> py_exn + string" where
  "find_module_path m [] = Inl ValueError"
| "find_module_path m (obj # objs) =
     (if has_feature obj ''ns3header''
      then py_bind (get_attr (tg_module obj)) (\<lambda>n. if n = m then Inr (tg_path obj) else find_module_path m objs)
      else find_module_path m objs)"

definition get_module_path :: "groups \<Rightarrow> string \<Rightarrow> py_exn + string" where
  "get_module_path gs m = find_module_path m (all_task_gen gs)"

text \<open>\<open>apply_ns3moduleheader\<close>: the task that writes the header of a module or removes it.\<close>

datatype header_task = Install_Header "string list" string "string list" | Remove_Header string

fun header_inputs :: "string \<Rightarrow> tgen list \<Rightarrow> bool \<times> string list \<Rightarrow> py_exn + bool \<times> string list" where
  "header_inputs m [] st = Inr st"
| "header_inputs m (obj # objs) st =
     (if has_feature obj ''ns3header''
      then py_bind (get_attr (tg_module obj)) (\<lambda>n.
             if n \<noteq> m then header_inputs m objs st else header_inputs m objs (True, snd st @ map basename (tg_headers obj)))
      else header_inputs m objs st)"

definition apply_ns3moduleheader :: "(string \<Rightarrow> py_exn + tgen option) \<Rightarrow> groups \<Rightarrow> tgen \<Rightarrow> py_exn + header_task option" where
  "apply_ns3moduleheader by_name gs self =
     py_bind (get_attr (tg_module self)) (\<lambda>m.
     py_bind (header_inputs m (all_task_gen gs) (False, [])) (\<lambda>(found, inputs).
       if \<not> found then Inl (Exception (''error finding headers for module '' @ m))
       else if inputs = [] then Inr None
       else case by_name (ns3_name m) of
         Inl (Exception e) \<Rightarrow> Inr None
       | Inl e \<Rightarrow> Inl e
       | Inr obj \<Rightarrow>
           if (case tg_mode self of None \<Rightarrow> True | Some mode \<Rightarrow> mode = ''install'')
           then (case obj of None \<Rightarrow> Inl AssertionError | Some x \<Rightarrow> Inr (Some (Install_Header inputs (m @ ''-module.h'') (tg_deps x))))
           else Inr (Some (Remove_Header (m @ ''-module.h'')))))"

text \<open>The text of the header of a module.\<close>

definition guard_name :: "string \<Rightarrow> string" where
  "guard_name m = map (\<lambda>c. if c = CHR ''-'' then CHR ''_'' else c) (map char_upper m)"

definition module_header :: "string \<Rightarrow> string list \<Rightarrow> string list" where
  "module_header m inputs =
     [[], ''#ifdef NS3_MODULE_COMPILATION'',
      ''# error '' @ [CHR 0x22] @ ''Do not include ns3 module aggregator headers from other modules; these are meant only for end user scripts.'' @ [CHR 0x22],
      ''#endif'', [], ''#ifndef NS3_MODULE_'' @ guard_name m, ''    '', [], ''// Module headers:''] @
     map (\<lambda>h. ''#include '' @ [CHR 0x22] @ h @ [CHR 0x22]) (sort (map basename inputs)) @ [''#endif'']"

text \<open>The module \<open>ns3.py\<close> that imports all others.\<close>

definition compat_module :: "string list \<Rightarrow> string list" where
  "compat_module modules =
     [''import warnings'',
      ''warnings.warn('' @ [CHR 0x22] @ ''the ns3 module is a compatibility layer and should not be used in newly written code'' @ [CHR 0x22] @
        '', DeprecationWarning, stacklevel=2)'', []] @
     map (\<lambda>m. ''from ns.'' @ map (\<lambda>c. if c = CHR ''-'' then CHR ''_'' else c) m @ '' import *'') modules"

section \<open>Files for pkg-config\<close>

text \<open>The environment of waf the file is made from: patterns with \<open>\%s\<close>, and lists for each dependency.\<close>

record pc_env =
  pe_static :: bool
  pe_pattern :: "string \<Rightarrow> string"
  pe_marker :: "string \<Rightarrow> string"
  pe_list :: "string \<Rightarrow> string list"
  pe_libs :: "string list"
  pe_prefix :: string
  pe_libdir :: string
  pe_includedir :: string
  pe_version :: string
  pe_suffix :: string

definition fmt :: "pc_env \<Rightarrow> string \<Rightarrow> string \<Rightarrow> py_exn + string" where
  "fmt env key x = percent (pe_pattern env key) [x]"

definition self_libs :: "pc_env \<Rightarrow> string \<Rightarrow> string \<Rightarrow> py_exn + string list" where
  "self_libs env n libdir =
     (let path_st = (if pe_static env then ''STLIBPATH_ST'' else ''LIBPATH_ST'');
          lib_st = (if pe_static env then ''STLIB_ST'' else ''LIB_ST'');
          marker = pe_marker env (if pe_static env then ''STLIB_MARKER'' else ''SHLIB_MARKER'')
      in py_bind (fmt env path_st libdir) (\<lambda>p. py_bind (fmt env lib_st n) (\<lambda>l.
           Inr ([p] @ (if marker \<noteq> [] then [marker] else []) @ [l]))))"

definition dep_libs :: "pc_env \<Rightarrow> string \<Rightarrow> py_exn + string list" where
  "dep_libs env dep =
     py_bind (py_map (\<lambda>p. py_bind (fmt env ''LIBPATH_ST'' p) (\<lambda>s. Inr (s # pe_list env (''LINKFLAGS_'' @ dep)))) (pe_list env (''LIBPATH_'' @ dep))) (\<lambda>ps.
     py_bind (py_map (fmt env ''LIB_ST'') (pe_list env (''LIB_'' @ dep))) (\<lambda>ls. Inr (concat ps @ ls)))"

definition dep_cflags :: "pc_env \<Rightarrow> string \<Rightarrow> py_exn + string list" where
  "dep_cflags env dep =
     py_bind (py_map (fmt env ''DEFINES_ST'') (pe_list env (''DEFINES_'' @ dep))) (\<lambda>ds.
     py_bind (py_map (fmt env ''CPPPATH_ST'') (pe_list env (''INCLUDES_'' @ dep))) (\<lambda>is.
       Inr (pe_list env (''CFLAGS_'' @ dep) @ pe_list env (''CXXFLAGS_'' @ dep) @ ds @ is)))"

text \<open>Adding a string to a list, as the loop over \<open>env.LIBS\<close> does, adds its characters.\<close>

definition global_libs :: "pc_env \<Rightarrow> py_exn + string list" where
  "global_libs env = py_bind (py_map (fmt env ''LIB_ST'') (pe_libs env)) (\<lambda>ls. Inr (concat (map (map (\<lambda>c. [c])) ls)))"

definition pc_requires :: "pc_env \<Rightarrow> string list \<Rightarrow> string list" where
  "pc_requires env use =
     map (\<lambda>dep. ''libns'' @ pe_version env @ ''-'' @ drop 4 dep @ pe_suffix env) (filter (\<lambda>dep. starts_with dep ''ns3-'') use)"

definition generate_pcfile :: "pc_env \<Rightarrow> string \<Rightarrow> string list \<Rightarrow> py_exn + string list" where
  "generate_pcfile env n use =
     py_bind (self_libs env (''ns'' @ pe_version env @ ''-'' @ drop 4 n @ pe_suffix env) ''${libdir}'') (\<lambda>own.
     py_bind (py_map (dep_libs env) use) (\<lambda>dl.
     py_bind (global_libs env) (\<lambda>gl.
     py_bind (fmt env ''CPPPATH_ST'' ''${includedir}'') (\<lambda>inc.
     py_bind (py_map (dep_cflags env) use) (\<lambda>cf.
       Inr [''prefix='' @ pe_prefix env, ''libdir='' @ pe_libdir env, ''includedir='' @ pe_includedir env, [],
            ''Name: lib'' @ n, ''Description: ns-3 module '' @ n, ''Version: '' @ pe_version env,
            ''Libs: '' @ join_with '' '' (own @ concat dl @ gl), ''Cflags: '' @ join_with '' '' (inc # concat cf),
            ''Requires: '' @ join_with '' '' (pc_requires env use)])))))"
section \<open>What is printed and written\<close>

fun rows :: "'a list \<Rightarrow> 'a list list" where
  "rows (a # b # c # xs) = [a, b, c] # rows xs"
| "rows [] = []"
| "rows xs = [xs]"

lemma print_columns_rows:
  "print_columns 1 False names = concat (map (\<lambda>r. join_with '' '' (map (ljust 25) r) @ newline) (rows names))"
  by (induction names rule: rows.induct) (simp_all add: numeral_eq_Suc)

lemma concat_rows: "concat (rows xs) = xs" "\<forall>r\<in>set (rows xs). r \<noteq> [] \<and> length r \<le> 3"
  by (induction xs rule: rows.induct) auto

text \<open>The table of modules: all names in order, up to three in a row, each padded to its column.\<close>

theorem module_table:
  "\<exists>rs. print_module_names names = text_of (map (\<lambda>r. join_with '' '' (map (ljust 25) r)) rs) \<and> concat rs = sort names \<and>
     (\<forall>r\<in>set rs. r \<noteq> [] \<and> length r \<le> 3)"
  using concat_rows [of "sort names"]
  by (intro exI [of _ "rows (sort names)"]) (simp add: print_module_names_def print_columns_rows text_of_def comp_def del: One_nat_def)

text \<open>The message about a compiler flag never shows more than the first 28 characters, and always says that it was cut.\<close>

theorem flag_message_cut:
  "flag_message ''-Wall'' None = ''Checking for compilation flag -Wall... support''"
  by (simp add: flag_message_def flag_list_def string_greater_def)

lemma remove_arch_result:
  "remove_arch flags = (if list_all (\<lambda>f. f \<noteq> ''-arch'') flags then Inr flags else remove_arch flags)"
  "''-arch'' \<notin> set a \<Longrightarrow> remove_arch (a @ ''-arch'' # x # b) = py_bind (remove_arch b) (\<lambda>r. Inr (a @ r))"
  "''-arch'' \<notin> set a \<Longrightarrow> remove_arch (a @ [''-arch'']) = Inl IndexError"
proof -
  show "remove_arch flags = (if list_all (\<lambda>f. f \<noteq> ''-arch'') flags then Inr flags else remove_arch flags)"
    by (induction flags) auto
  show "''-arch'' \<notin> set a \<Longrightarrow> remove_arch (a @ ''-arch'' # x # b) = py_bind (remove_arch b) (\<lambda>r. Inr (a @ r))"
    by (induction a; cases "remove_arch b") auto
  show "''-arch'' \<notin> set a \<Longrightarrow> remove_arch (a @ [''-arch'']) = Inl IndexError"
    by (induction a) auto
qed

lemma prepend_path_other: "k \<noteq> var \<Longrightarrow> dict_get (prepend_path w dirs var e) k = dict_get e k"
  by (auto simp: prepend_path_def split: option.splits)

lemma shell_env_kept:
  "dict_get (get_proc_env w (Some (shell_env w))) ''NS3_MODULE_PATH'' = Some (join_with (pathsep w) (w_module_path w))"
  "dict_get (get_proc_env w (Some (shell_env w))) ''NS3_EXECUTABLE_PATH'' = Some (join_with (pathsep w) (w_executable_path w))"
proof -
  have "pathvar w \<in> {''LD_LIBRARY_PATH'', ''DYLD_LIBRARY_PATH'', ''PATH''}" by (auto simp: pathvar_def)
  then have "''NS3_MODULE_PATH'' \<noteq> pathvar w" "''NS3_EXECUTABLE_PATH'' \<noteq> pathvar w" by auto
  then show "dict_get (get_proc_env w (Some (shell_env w))) ''NS3_MODULE_PATH'' = Some (join_with (pathsep w) (w_module_path w))"
    "dict_get (get_proc_env w (Some (shell_env w))) ''NS3_EXECUTABLE_PATH'' = Some (join_with (pathsep w) (w_executable_path w))"
    by (simp_all add: get_proc_env_def Let_def prepend_path_other dict_get_update shell_env_def map_add_def)
qed

text \<open>A build in the shell of a tree \<open>w\<close> accepts exactly the trees with the same two paths.\<close>

theorem shell_recognised:
  "check_shell (w'\<lparr>w_environ := get_proc_env w (Some (shell_env w))\<rparr>) = Inr () \<longleftrightarrow>
     join_with (pathsep w) (w_module_path w) = join_with (pathsep w') (w_module_path w') \<and>
     join_with (pathsep w) (w_executable_path w) = join_with (pathsep w') (w_executable_path w')"
  by (auto simp: check_shell_def shell_env_kept pathsep_def)

text \<open>The guard of the header of a module is tested and never defined.\<close>

theorem module_header_guard:
  "(''#ifndef NS3_MODULE_'' @ guard_name m) \<in> set (module_header m inputs)"
  "\<forall>l\<in>set (module_header m inputs). \<not> starts_with l ''#define''"
  by (auto simp: module_header_def starts_with_def)

text \<open>The libraries every program needs appear in the file character by character.\<close>

theorem global_libs_in_pieces:
  "pe_pattern env ''LIB_ST'' = ''-l%s'' \<Longrightarrow> pe_libs env = [''rt''] \<Longrightarrow> global_libs env = Inr [''-'', ''l'', ''r'', ''t'']"
  by (simp add: global_libs_def fmt_def)

theorem global_libs_in_pieces_witness:
  "let env = \<lparr>pe_static = False, pe_pattern = (\<lambda>k. ''-l%s''), pe_marker = (\<lambda>k. []), pe_list = (\<lambda>k. []), pe_libs = [''rt''], pe_prefix = [],
     pe_libdir = [], pe_includedir = [], pe_version = [], pe_suffix = []\<rparr> in global_libs env = Inr [''-'', ''l'', ''r'', ''t'']"
  unfolding Let_def by (rule global_libs_in_pieces) simp_all

text \<open>The module of a header is the last one that names it; headers of test modules do not count.\<close>

definition header_pairs :: "tgen \<Rightarrow> (string \<times> string) list" where
  "header_pairs obj =
     (if has_feature obj ''ns3header'' \<and> \<not> ends_with (the (tg_module obj)) ''-test''
      then map (\<lambda>h. (basename h, the (tg_module obj))) (tg_headers obj) else [])"

lemma get_headers_map_result:
  assumes "\<forall>x\<in>set (all_task_gen gs). has_feature x ''ns3header'' \<longrightarrow> tg_module x \<noteq> None"
  shows "\<exists>d. get_headers_map gs = Inr d \<and> dict_get d = map_of (rev (concat (map header_pairs (all_task_gen gs))))"
proof -
  have "\<exists>d. py_fold header_sources xs e = Inr d \<and> dict_get d = dict_get e ++ map_of (rev (concat (map header_pairs xs)))"
    if "\<forall>x\<in>set xs. has_feature x ''ns3header'' \<longrightarrow> tg_module x \<noteq> None" for xs e
    using that
  proof (induction xs arbitrary: e)
    case (Cons x xs)
    have "header_sources x e = Inr (foldl (\<lambda>a (k, v). dict_set a k v) e (header_pairs x))"
      using Cons(2) by (auto simp: header_sources_def header_pairs_def get_attr_def foldl_map)
    moreover obtain d where "py_fold header_sources xs (foldl (\<lambda>a (k, v). dict_set a k v) e (header_pairs x)) = Inr d"
      "dict_get d = dict_get (foldl (\<lambda>a (k, v). dict_set a k v) e (header_pairs x)) ++ map_of (rev (concat (map header_pairs xs)))"
      using Cons by fastforce
    ultimately show ?case by (simp add: pd.get_puts map_add_assoc)
  qed simp
  from this [OF assms, of "[]"] show ?thesis by (simp add: get_headers_map_def)
qed

end
