(* ===== verification/Flow_Monitor.thy ===== *)
theory Flow_Monitor
  imports Py_Base Complex_Main
begin

text \<open>
  \<open>src/src/flow-monitor/examples/flowmon-parse-results.py\<close>: the statistics of a simulation, read
  back from the XML file the flow monitor wrote, and their report.

  A document is the tree that the XML parser builds. Numbers are rational. Python's \<open>float\<close> of a
  string and the conversion \<open>\%.2f\<close> are parameters (\<open>to_float\<close>, \<open>show2\<close>). Flows are
  objects that two containers share: \<open>flows\<close> holds them, \<open>flow_map\<close> their positions.
  The documents the theorem speaks of, \<open>written_document\<close>, are those that \<open>SerializeToXmlStream\<close> of the
  flow monitor writes, at the default resolution of times, nanoseconds.
\<close>

section \<open>Documents\<close>

datatype xml = Elem (tag: string) (attrib: "(string, string) dict") (children: "xml list")

definition findall :: "string \<Rightarrow> xml list \<Rightarrow> xml list" where
  "findall name els = filter (\<lambda>e. tag e = name) (concat (map children els))"

definition attr :: "xml \<Rightarrow> string \<Rightarrow> py_exn + string" where
  "attr el k = (case dict_get (attrib el) k of None \<Rightarrow> Inl TypeError | Some s \<Rightarrow> Inr s)"

definition attr_int :: "xml \<Rightarrow> string \<Rightarrow> py_exn + int" where
  "attr_int el k = py_bind (attr el k) py_int"

definition attr_long :: "xml \<Rightarrow> string \<Rightarrow> py_exn + int" where
  "attr_long el k = py_bind (attr el k) py_long"

text \<open>\<open>long(el.get(k)[:-2])\<close>.\<close>

definition attr_time :: "xml \<Rightarrow> string \<Rightarrow> py_exn + int" where
  "attr_time el k = py_bind (attr el k) (\<lambda>s. py_long (slice_upto s (- 2)))"

definition parse_time_ns :: "string option \<Rightarrow> py_exn + int" where
  "parse_time_ns tm =
     (case tm of None \<Rightarrow> Inl AttributeError
      | Some s \<Rightarrow> if ends_with s ''ns'' then py_long (slice_upto s (- 2)) else Inl ValueError)"

section \<open>Flows\<close>

record five_tuple =
  sourceAddress :: "string option"
  destinationAddress :: "string option"
  sourcePort :: int
  destinationPort :: int
  protocol :: int

definition new_five_tuple :: "xml \<Rightarrow> py_exn + five_tuple" where
  "new_five_tuple el =
     py_bind (attr_int el ''sourcePort'') (\<lambda>sp.
     py_bind (attr_int el ''destinationPort'') (\<lambda>dp.
     py_bind (attr_int el ''protocol'') (\<lambda>pr.
       Inr \<lparr>sourceAddress = dict_get (attrib el) ''sourceAddress'', destinationAddress = dict_get (attrib el) ''destinationAddress'',
            sourcePort = sp, destinationPort = dp, protocol = pr\<rparr>)))"

definition new_histogram :: "(string \<Rightarrow> py_exn + rat) \<Rightarrow> xml \<Rightarrow> py_exn + (rat \<times> rat \<times> int) list" where
  "new_histogram to_float el =
     py_map (\<lambda>b. py_bind (py_bind (attr b ''start'') to_float) (\<lambda>s.
       py_bind (py_bind (attr b ''width'') to_float) (\<lambda>wd.
       py_bind (attr_int b ''count'') (\<lambda>n. Inr (s, wd, n))))) (findall ''bin'' [el])"

record probe_flow_stats =
  probeId :: int
  packets :: int
  bytes :: int
  delayFromFirstProbe :: rat

record flow =
  flowId :: int
  delayMean :: "rat option"
  packetLossRatio :: "rat option"
  rxBitrate :: "rat option"
  txBitrate :: "rat option"
  fiveTuple :: "five_tuple option"
  packetSizeMean :: "rat option"
  probe_stats_unsorted :: "probe_flow_stats list"
  hopCount :: rat
  flowInterruptionsHistogram :: "(rat \<times> rat \<times> int) list option"
  rx_duration :: rat

definition bitrate :: "xml \<Rightarrow> string \<Rightarrow> rat \<Rightarrow> py_exn + rat option" where
  "bitrate el k duration =
     (if duration > 0 then py_bind (attr_long el k) (\<lambda>b. Inr (Some (of_int b * 8 / duration))) else Inr None)"

definition new_flow :: "(string \<Rightarrow> py_exn + rat) \<Rightarrow> xml \<Rightarrow> py_exn + flow" where
  "new_flow to_float el =
     py_bind (attr_int el ''flowId'') (\<lambda>fid.
     py_bind (attr_long el ''rxPackets'') (\<lambda>rxPackets.
     py_bind (attr_long el ''txPackets'') (\<lambda>txPackets.
     py_bind (attr_time el ''timeLastTxPacket'') (\<lambda>t1.
     py_bind (attr_time el ''timeFirstTxPacket'') (\<lambda>t2.
     py_bind (attr_time el ''timeLastRxPacket'') (\<lambda>t3.
     py_bind (attr_time el ''timeFirstRxPacket'') (\<lambda>t4.
     let tx_dur = of_int (t1 - t2) / 10 ^ 9; rx_dur = of_int (t3 - t4) / 10 ^ 9
     in py_bind (if rxPackets \<noteq> 0 then py_bind (py_bind (attr el ''timesForwarded'') to_float) (\<lambda>f. Inr (f / of_int rxPackets + 1))
                 else Inr (- 1000)) (\<lambda>hops.
        py_bind (if rxPackets \<noteq> 0
                 then py_bind (py_bind (attr el ''delaySum'') (\<lambda>s. to_float (slice_upto s (- 2)))) (\<lambda>ds.
                      py_bind (py_bind (attr el ''rxBytes'') to_float) (\<lambda>b.
                        Inr (Some (ds / of_int rxPackets / 10 ^ 9), Some (b / of_int rxPackets))))
                 else Inr (None, None)) (\<lambda>(delay, size_mean).
        py_bind (bitrate el ''rxBytes'' rx_dur) (\<lambda>rxb.
        py_bind (bitrate el ''txBytes'' tx_dur) (\<lambda>txb.
        py_bind (py_bind (attr el ''lostPackets'') to_float) (\<lambda>lost.
        py_bind (if rxPackets = 0 then Inr None
                 else if of_int rxPackets + lost = 0 then Inl ZeroDivisionError
                 else Inr (Some (lost / (of_int rxPackets + lost)))) (\<lambda>loss.
        py_bind (case findall ''flowInterruptionsHistogram'' [el] of
                   [] \<Rightarrow> Inr None
                 | h # _ \<Rightarrow> py_bind (new_histogram to_float h) (\<lambda>b. Inr (Some b))) (\<lambda>hist.
          Inr \<lparr>flowId = fid, delayMean = delay, packetLossRatio = loss, rxBitrate = rxb, txBitrate = txb, fiveTuple = None,
               packetSizeMean = size_mean, probe_stats_unsorted = [], hopCount = hops, flowInterruptionsHistogram = hist,
               rx_duration = rx_dur\<rparr>))))))))))))))"

section \<open>A simulation\<close>

definition new_probe_stats :: "int \<Rightarrow> xml \<Rightarrow> py_exn + (int \<times> probe_flow_stats)" where
  "new_probe_stats pid el =
     py_bind (attr_int el ''flowId'') (\<lambda>fid.
     py_bind (attr_int el ''packets'') (\<lambda>n.
     py_bind (attr_long el ''bytes'') (\<lambda>b.
     py_bind (if n > 0 then py_bind (parse_time_ns (dict_get (attrib el) ''delayFromFirstProbeSum'')) (\<lambda>d. Inr (of_int d / of_int n))
              else Inr 0) (\<lambda>d.
       Inr (fid, \<lparr>probeId = pid, packets = n, bytes = b, delayFromFirstProbe = d\<rparr>)))))"

type_synonym flow_table = "flow list \<times> (int \<Rightarrow> nat option)"

definition update_flow :: "int \<Rightarrow> (flow \<Rightarrow> flow) \<Rightarrow> flow_table \<Rightarrow> py_exn + flow_table" where
  "update_flow fid f tab =
     (case snd tab fid of None \<Rightarrow> Inl KeyError | Some i \<Rightarrow> Inr ((fst tab)[i := f (fst tab ! i)], snd tab))"

definition add_flow :: "(string \<Rightarrow> py_exn + rat) \<Rightarrow> xml \<Rightarrow> flow_table \<Rightarrow> py_exn + flow_table" where
  "add_flow to_float el tab =
     py_bind (new_flow to_float el) (\<lambda>fl. Inr (fst tab @ [fl], (snd tab)(flowId fl \<mapsto> length (fst tab))))"

definition classify_flow :: "xml \<Rightarrow> flow_table \<Rightarrow> py_exn + flow_table" where
  "classify_flow el tab =
     py_bind (attr_int el ''flowId'') (\<lambda>fid.
     py_bind (new_five_tuple el) (\<lambda>t. update_flow fid (\<lambda>fl. fl\<lparr>fiveTuple := Some t\<rparr>) tab))"

definition add_probe_stats :: "xml \<Rightarrow> flow_table \<Rightarrow> py_exn + flow_table" where
  "add_probe_stats probe tab =
     py_bind (attr_int probe ''index'') (\<lambda>pid.
       py_fold (\<lambda>el tab. py_bind (new_probe_stats pid el) (\<lambda>(fid, s).
         update_flow fid (\<lambda>fl. fl\<lparr>probe_stats_unsorted := probe_stats_unsorted fl @ [s]\<rparr>) tab)) (findall ''FlowStats'' [probe]) tab)"

definition new_simulation :: "(string \<Rightarrow> py_exn + rat) \<Rightarrow> xml \<Rightarrow> py_exn + flow list" where
  "new_simulation to_float el =
     (case findall ''Ipv4FlowClassifier'' [el] of
        [classifier] \<Rightarrow>
          py_bind (py_fold (add_flow to_float) (findall ''Flow'' (findall ''FlowStats'' [el])) ([], Map.empty)) (\<lambda>tab.
          py_bind (py_fold classify_flow (findall ''Flow'' [classifier]) tab) (\<lambda>tab.
          py_bind (py_fold add_probe_stats (findall ''FlowProbe'' (findall ''FlowProbes'' [el])) tab) (\<lambda>tab. Inr (fst tab))))
      | _ \<Rightarrow> Inl ValueError)"

section \<open>The script\<close>

datatype xml_event = Start xml | End xml

fun xml_events :: "xml \<Rightarrow> xml_event list" where
  "xml_events (Elem t as cs) = Start (Elem t as cs) # concat (map xml_events cs) @ [End (Elem t as cs)]"

text \<open>\<open>iterparse\<close>: only elements that end at the outermost level are simulations.\<close>

fun read_loop :: "(string \<Rightarrow> py_exn + rat) \<Rightarrow> int \<Rightarrow> flow list list \<Rightarrow> xml_event list \<Rightarrow> py_exn + flow list list" where
  "read_loop to_float level sims [] = Inr sims"
| "read_loop to_float level sims (Start e # evs) = read_loop to_float (level + 1) sims evs"
| "read_loop to_float level sims (End e # evs) =
     (if level - 1 = 0 \<and> tag e = ''FlowMonitor''
      then py_bind (new_simulation to_float e) (\<lambda>sim. read_loop to_float (level - 1) (sims @ [sim]) evs)
      else read_loop to_float (level - 1) sims evs)"

text \<open>What is printed, and the exception that stopped it.\<close>

definition print_value :: "(rat \<Rightarrow> string) \<Rightarrow> string \<Rightarrow> rat option \<Rightarrow> rat \<Rightarrow> string \<Rightarrow> py_exn + string" where
  "print_value show2 label v factor unit =
     (case v of None \<Rightarrow> Inl TypeError | Some x \<Rightarrow> Inr ([CHR 0x09] @ label @ '': '' @ show2 (x * factor) @ '' '' @ unit))"

definition str_opt :: "string option \<Rightarrow> string" where
  "str_opt s = (case s of None \<Rightarrow> ''None'' | Some t \<Rightarrow> t)"

definition print_first :: "flow \<Rightarrow> py_exn + string" where
  "print_first fl =
     (case fiveTuple fl of
        None \<Rightarrow> Inl AttributeError
      | Some t \<Rightarrow> py_bind (dict_lookup [(6, ''TCP''), (17, ''UDP'')] (protocol t)) (\<lambda>proto.
          Inr (''FlowID: '' @ str_int (flowId fl) @ '' ('' @ proto @ '' '' @ str_opt (sourceAddress t) @ ''/'' @ str_int (sourcePort t)
            @ '' --> '' @ str_opt (destinationAddress t) @ ''/'' @ str_int (destinationPort t) @ '')'')))"

definition flow_prints :: "(rat \<Rightarrow> string) \<Rightarrow> flow \<Rightarrow> (py_exn + string) list" where
  "flow_prints show2 fl =
     [print_first fl,
      print_value show2 ''TX bitrate'' (txBitrate fl) (1 / 1000) ''kbit/s'',
      print_value show2 ''RX bitrate'' (rxBitrate fl) (1 / 1000) ''kbit/s'',
      print_value show2 ''Mean Delay'' (delayMean fl) 1000 ''ms'',
      print_value show2 ''Packet Loss Ratio'' (packetLossRatio fl) 100 ''%'']"

fun print_all :: "(py_exn + string) list \<Rightarrow> string list \<times> py_exn option" where
  "print_all [] = ([], None)"
| "print_all (Inl e # ps) = ([], Some e)"
| "print_all (Inr l # ps) = (let (ls, e) = print_all ps in (l # ls, e))"

definition flowmon_main :: "(string \<Rightarrow> py_exn + rat) \<Rightarrow> (rat \<Rightarrow> string) \<Rightarrow> xml \<Rightarrow> string list \<times> py_exn option" where
  "flowmon_main to_float show2 doc =
     (case read_loop to_float 0 [] (xml_events doc) of
        Inl e \<Rightarrow> ([''Reading XML file''], Some e)
      | Inr sims \<Rightarrow>
          let (ls, e) = print_all (concat (map (\<lambda>sim. concat (map (flow_prints show2) sim)) sims))
          in ((''Reading XML file '' @ concat (map (\<lambda>_. ''.'') sims) @ '' done.'') # ls, e))"
section \<open>The times of the simulator\<close>

text \<open>
  A time as the simulator prints it (\<open>operator<<\<close> in \<open>src/src/core/model/time.cc\<close>): the sign, the
  nanoseconds, and \<open>.0ns\<close>. Without the fraction it is what the script was written for.
\<close>

definition printed_time :: "bool \<Rightarrow> int \<Rightarrow> string" where
  "printed_time point v = (if v < 0 then ''-'' else ''+'') @ dec_digits (nat \<bar>v\<bar>) @ (if point then ''.0'' else []) @ ''ns''"

lemma slice_upto_2: "slice_upto (s @ [a, b]) (- 2) = s"
  by (simp add: slice_upto_def slice_bound_neg)

lemma py_long_form:
  assumes "py_strip s = s" "py_sign s = (sign, d @ r)" "d \<noteq> []" "list_all is_digit d" "r = [] \<or> \<not> is_digit (hd r)"
  shows "py_long s = (if r = [] \<or> r = ''L'' \<or> r = ''l'' then Inr (sign * decimal d) else Inl ValueError)"
proof -
  have "\<not> is_space (hd (d @ r))" using assms(3,4) digit_not_space by (cases d) auto
  then have "dropWhile is_space (d @ r) = d @ r" by (intro dropWhile_id) simp
  moreover have "takeWhile is_digit (d @ r) = d"
    using assms(4,5) by (cases r) (auto simp: list_all_iff takeWhile_eq_all_conv takeWhile_append)
  ultimately have "py_long s = (if d \<noteq> [] \<and> (r = [] \<or> hd r \<in> {CHR ''L'', CHR ''l''} \<and> tl r = []) then Inr (sign * decimal d) else Inl ValueError)"
    unfolding py_long_def assms(1,2) Let_def prod.case by simp
  then show ?thesis using assms(3) by (cases r) auto
qed

lemma py_long_digits:
  assumes "r = [] \<or> \<not> is_digit (hd r) \<and> \<not> is_space (List.last r)"
  shows "py_long ((if v < 0 then ''-'' else ''+'') @ dec_digits (nat \<bar>v\<bar>) @ r) =
    (if r = [] \<or> r = ''L'' \<or> r = ''l'' then Inr v else Inl ValueError)"
proof -
  let ?d = "dec_digits (nat \<bar>v\<bar>)"
  have "\<not> is_space (List.last (?d @ r))"
    using assms dec_digits_digit(2) [of "nat \<bar>v\<bar>"] digit_not_space by (auto simp: last_append)
  then have "py_strip ((if v < 0 then ''-'' else ''+'') @ ?d @ r) = (if v < 0 then ''-'' else ''+'') @ ?d @ r"
    by (intro py_strip_id) (simp add: is_space_def)
  moreover have "py_sign ((if v < 0 then ''-'' else ''+'') @ ?d @ r) = (if v < 0 then - 1 else 1, ?d @ r)"
    by (simp add: py_sign_def starts_with_def)
  ultimately show ?thesis
    using py_long_form [of _ _ ?d r] assms dec_digits_props [of "nat \<bar>v\<bar>"] by auto
qed

lemma printed_time_slice: "slice_upto (printed_time point v) (- 2) = (if v < 0 then ''-'' else ''+'') @ dec_digits (nat \<bar>v\<bar>) @ (if point then ''.0'' else [])"
  using slice_upto_2 [of "(if v < 0 then ''-'' else ''+'') @ dec_digits (nat \<bar>v\<bar>) @ (if point then ''.0'' else [])"]
  by (simp add: printed_time_def)

lemma py_long_time: "py_long (slice_upto (printed_time point v) (- 2)) = (if point then Inl ValueError else Inr v)"
  unfolding printed_time_slice by (subst py_long_digits) (auto simp: is_digit_def is_space_def)

lemma py_long_digits_only: "py_long (dec_digits n) = Inr (int n)"
  using py_long_form [of "dec_digits n" 1 "dec_digits n" "[]"] dec_digits_plain [of n] dec_digits_props [of n] by simp

text \<open>
  What the flow monitor knows of a flow, and the element it writes of it
  (\<open>SerializeToXmlStream\<close> in \<open>src/src/flow-monitor/model/flow-monitor.cc\<close> and \<open>histogram.cc\<close>): the
  attributes in their order, an element per reason of dropped packets and bytes, and the histograms
  when they are enabled. \<open>show_double\<close> is the text C++ prints for a number.
\<close>

record written_bins =
  bin_width :: rat
  bin_counts :: "nat list"

record flow_stats =
  fs_id :: nat
  fs_times :: "int \<times> int \<times> int \<times> int"
  fs_delay :: int
  fs_jitter :: int
  fs_last_delay :: int
  fs_tx :: "nat \<times> nat"
  fs_rx :: "nat \<times> nat"
  fs_lost :: nat
  fs_forwarded :: nat
  fs_dropped :: "nat list \<times> nat list"
  fs_delay_bins :: written_bins
  fs_jitter_bins :: written_bins
  fs_size_bins :: written_bins
  fs_interruption_bins :: written_bins

definition written_histogram :: "(rat \<Rightarrow> string) \<Rightarrow> string \<Rightarrow> written_bins \<Rightarrow> xml" where
  "written_histogram show_double name h =
     Elem name [(''nBins'', dec_digits (length (bin_counts h)))]
       (map (\<lambda>(i, n). Elem ''bin''
          [(''index'', dec_digits i), (''start'', show_double (of_nat i * bin_width h)),
           (''width'', show_double (bin_width h)), (''count'', dec_digits n)] [])
         (filter (\<lambda>(i, n). n \<noteq> 0) (List.enumerate 0 (bin_counts h))))"

definition written_drops :: "nat list \<times> nat list \<Rightarrow> xml list" where
  "written_drops d =
     map (\<lambda>(i, n). Elem ''packetsDropped'' [(''reasonCode'', dec_digits i), (''number'', dec_digits n)] []) (List.enumerate 0 (fst d)) @
     map (\<lambda>(i, n). Elem ''bytesDropped'' [(''reasonCode'', dec_digits i), (''bytes'', dec_digits n)] []) (List.enumerate 0 (snd d))"

definition written_flow :: "(rat \<Rightarrow> string) \<Rightarrow> bool \<Rightarrow> bool \<Rightarrow> flow_stats \<Rightarrow> xml" where
  "written_flow show_double histograms point s =
     (case fs_times s of (ft, fr, lt, lr) \<Rightarrow>
      Elem ''Flow''
       [(''flowId'', dec_digits (fs_id s)), (''timeFirstTxPacket'', printed_time point ft), (''timeFirstRxPacket'', printed_time point fr),
        (''timeLastTxPacket'', printed_time point lt), (''timeLastRxPacket'', printed_time point lr),
        (''delaySum'', printed_time point (fs_delay s)), (''jitterSum'', printed_time point (fs_jitter s)),
        (''lastDelay'', printed_time point (fs_last_delay s)), (''txBytes'', dec_digits (snd (fs_tx s))),
        (''rxBytes'', dec_digits (snd (fs_rx s))), (''txPackets'', dec_digits (fst (fs_tx s))),
        (''rxPackets'', dec_digits (fst (fs_rx s))), (''lostPackets'', dec_digits (fs_lost s)),
        (''timesForwarded'', dec_digits (fs_forwarded s))]
       (written_drops (fs_dropped s) @
        (if histograms
         then [written_histogram show_double ''delayHistogram'' (fs_delay_bins s),
               written_histogram show_double ''jitterHistogram'' (fs_jitter_bins s),
               written_histogram show_double ''packetSizeHistogram'' (fs_size_bins s),
               written_histogram show_double ''flowInterruptionsHistogram'' (fs_interruption_bins s)]
         else [])))"

text \<open>
  The classifier (\<open>ipv4-flow-classifier.cc\<close>) writes an element per classified flow, a probe
  (\<open>flow-probe.cc\<close>) one per flow it saw.
\<close>

record classified_flow =
  cl_id :: nat
  cl_source :: string
  cl_destination :: string
  cl_protocol :: nat
  cl_ports :: "nat \<times> nat"

record probed_flow =
  pf_id :: nat
  pf_packets :: nat
  pf_bytes :: nat
  pf_delay :: int
  pf_dropped :: "nat list \<times> nat list"

definition written_class :: "classified_flow \<Rightarrow> xml" where
  "written_class c =
     Elem ''Flow''
       [(''flowId'', dec_digits (cl_id c)), (''sourceAddress'', cl_source c), (''destinationAddress'', cl_destination c),
        (''protocol'', dec_digits (cl_protocol c)), (''sourcePort'', dec_digits (fst (cl_ports c))),
        (''destinationPort'', dec_digits (snd (cl_ports c)))] []"

definition written_probe :: "bool \<Rightarrow> nat \<times> probed_flow list \<Rightarrow> xml" where
  "written_probe point =
     (\<lambda>(i, ps). Elem ''FlowProbe'' [(''index'', dec_digits i)]
       (map (\<lambda>p. Elem ''FlowStats''
          [(''flowId'', dec_digits (pf_id p)), (''packets'', dec_digits (pf_packets p)), (''bytes'', dec_digits (pf_bytes p)),
           (''delayFromFirstProbeSum'', printed_time point (pf_delay p))] (written_drops (pf_dropped p))) ps))"

text \<open>The document; \<open>None\<close> for the probes when they are not enabled.\<close>

definition written_document ::
  "(rat \<Rightarrow> string) \<Rightarrow> bool \<Rightarrow> bool \<Rightarrow> flow_stats list \<Rightarrow> classified_flow list \<Rightarrow> probed_flow list list option \<Rightarrow> xml" where
  "written_document show_double histograms point flows classes probes =
     Elem ''FlowMonitor'' []
       ([Elem ''FlowStats'' [] (map (written_flow show_double histograms point) flows),
         Elem ''Ipv4FlowClassifier'' [] (map written_class classes)] @
        (case probes of None \<Rightarrow> []
         | Some ps \<Rightarrow> [Elem ''FlowProbes'' [] (map (written_probe point) (List.enumerate 0 ps))]))"

lemma attr_written:
  assumes "fs_times s = (ft, fr, lt, lr)"
  shows "attr (written_flow show_double hs p s) ''flowId'' = Inr (dec_digits (fs_id s))"
    "attr (written_flow show_double hs p s) ''timeFirstTxPacket'' = Inr (printed_time p ft)"
    "attr (written_flow show_double hs p s) ''timeFirstRxPacket'' = Inr (printed_time p fr)"
    "attr (written_flow show_double hs p s) ''timeLastTxPacket'' = Inr (printed_time p lt)"
    "attr (written_flow show_double hs p s) ''timeLastRxPacket'' = Inr (printed_time p lr)"
    "attr (written_flow show_double hs p s) ''delaySum'' = Inr (printed_time p (fs_delay s))"
    "attr (written_flow show_double hs p s) ''txBytes'' = Inr (dec_digits (snd (fs_tx s)))"
    "attr (written_flow show_double hs p s) ''rxBytes'' = Inr (dec_digits (snd (fs_rx s)))"
    "attr (written_flow show_double hs p s) ''txPackets'' = Inr (dec_digits (fst (fs_tx s)))"
    "attr (written_flow show_double hs p s) ''rxPackets'' = Inr (dec_digits (fst (fs_rx s)))"
    "attr (written_flow show_double hs p s) ''lostPackets'' = Inr (dec_digits (fs_lost s))"
    "attr (written_flow show_double hs p s) ''timesForwarded'' = Inr (dec_digits (fs_forwarded s))"
  using assms by (simp_all add: attr_def written_flow_def)

lemma findall_drops: "name \<noteq> ''packetsDropped'' \<Longrightarrow> name \<noteq> ''bytesDropped'' \<Longrightarrow> filter (\<lambda>e. tag e = name) (written_drops d) = []"
  by (auto simp: written_drops_def filter_empty_conv)

lemma interruptions_written:
  "findall ''flowInterruptionsHistogram'' [written_flow show_double hs p s] =
     (if hs then [written_histogram show_double ''flowInterruptionsHistogram'' (fs_interruption_bins s)] else [])"
  by (cases "fs_times s") (simp add: findall_def written_flow_def findall_drops written_histogram_def)

lemma new_flow_fraction: "new_flow to_float (written_flow show_double hs True s) = Inl ValueError"
proof -
  obtain ft fr lt lr where t: "fs_times s = (ft, fr, lt, lr)" by (cases "fs_times s")
  show ?thesis
    by (simp add: new_flow_def attr_int_def attr_long_def attr_time_def attr_written [OF t] py_int_digits py_long_digits_only py_long_time)
qed

section \<open>What the script makes of a document\<close>

lemma read_inner:
  "1 \<le> level \<Longrightarrow> read_loop to_float level sims (xml_events e @ evs) = read_loop to_float level sims evs"
proof (induction e arbitrary: level evs)
  case (Elem t as cs)
  have "read_loop to_float (level + 1) sims (concat (map xml_events cs') @ rest) = read_loop to_float (level + 1) sims rest"
    if "set cs' \<subseteq> set cs" for cs' rest
    using that by (induction cs' arbitrary: rest) (use Elem in auto)
  from this [of cs] show ?case using Elem.prems by simp
qed

text \<open>One simulation for a document whose root is a \<open>FlowMonitor\<close>, none for another, whatever is below.\<close>

lemma read_document:
  "read_loop to_float 0 [] (xml_events doc) =
     (if tag doc = ''FlowMonitor'' then py_bind (new_simulation to_float doc) (\<lambda>sim. Inr [sim]) else Inr [])"
proof (cases doc)
  case (Elem t as cs)
  have "read_loop to_float 1 [] (concat (map xml_events cs') @ rest) = read_loop to_float 1 [] rest" for cs' rest
    by (induction cs' arbitrary: rest) (simp_all add: read_inner)
  then show ?thesis by (simp add: Elem)
qed

text \<open>
  \<open>float\<close> on what C++ prints: digits, signed digits, and a number, of which it gives what is left of
  its precision, \<open>rounded\<close>.
\<close>

definition float_ok :: "(string \<Rightarrow> py_exn + rat) \<Rightarrow> (rat \<Rightarrow> string) \<Rightarrow> (rat \<Rightarrow> rat) \<Rightarrow> bool" where
  "float_ok to_float show_double rounded \<longleftrightarrow> (\<forall>n. to_float (dec_digits n) = Inr (of_nat n)) \<and>
     (\<forall>v. to_float ((if v < 0 then ''-'' else ''+'') @ dec_digits (nat \<bar>v\<bar>)) = Inr (of_int v)) \<and>
     (\<forall>x. to_float (show_double x) = Inr (rounded x))"

definition rate :: "nat \<Rightarrow> int \<Rightarrow> rat option" where
  "rate b ns = (if ns > 0 then Some (of_nat b * 8 / (of_int ns / 10 ^ 9)) else None)"

definition bins_of :: "(rat \<Rightarrow> rat) \<Rightarrow> written_bins \<Rightarrow> (rat \<times> rat \<times> int) list" where
  "bins_of rounded h =
     [(rounded (of_nat i * bin_width h), rounded (bin_width h), int (bin_counts h ! i)). i \<leftarrow> [0..<length (bin_counts h)], bin_counts h ! i \<noteq> 0]"

definition flow_of :: "(rat \<Rightarrow> rat) \<Rightarrow> bool \<Rightarrow> flow_stats \<Rightarrow> flow" where
  "flow_of rounded histograms s =
     (case fs_times s of (ft, fr, lt, lr) \<Rightarrow>
      let rx = fst (fs_rx s)
      in \<lparr>flowId = int (fs_id s),
          delayMean = (if rx = 0 then None else Some (of_int (fs_delay s) / of_nat rx / 10 ^ 9)),
          packetLossRatio = (if rx = 0 then None else Some (of_nat (fs_lost s) / (of_nat rx + of_nat (fs_lost s)))),
          rxBitrate = rate (snd (fs_rx s)) (lr - fr), txBitrate = rate (snd (fs_tx s)) (lt - ft), fiveTuple = None,
          packetSizeMean = (if rx = 0 then None else Some (of_nat (snd (fs_rx s)) / of_nat rx)),
          probe_stats_unsorted = [],
          hopCount = (if rx = 0 then - 1000 else of_nat (fs_forwarded s) / of_nat rx + 1),
          flowInterruptionsHistogram = (if histograms then Some (bins_of rounded (fs_interruption_bins s)) else None),
          rx_duration = of_int (lr - fr) / 10 ^ 9\<rparr>)"

lemma filtered_comprehension: "concat (map (\<lambda>i. if P i then [f i] else []) xs) = map f (filter P xs)"
  by (induction xs) auto

lemma bins_of_enumerate:
  "bins_of rounded h = map (\<lambda>(i, n). (rounded (of_nat i * bin_width h), rounded (bin_width h), int n))
     (filter (\<lambda>(i, n). n \<noteq> 0) (List.enumerate 0 (bin_counts h)))"
proof -
  have "List.enumerate 0 (bin_counts h) = map (\<lambda>i. (i, bin_counts h ! i)) [0..<length (bin_counts h)]"
    by (rule nth_equalityI) (simp_all add: nth_enumerate_eq)
  then show ?thesis
    unfolding bins_of_def by (simp add: filter_map comp_def filtered_comprehension)
qed

lemma py_map_over: "py_map f (map g xs) = py_map (f \<circ> g) xs"
  by (induction xs) auto

lemma new_histogram_written:
  assumes "float_ok to_float show_double rounded"
  shows "new_histogram to_float (written_histogram show_double name h) = Inr (bins_of rounded h)"
proof -
  have "findall ''bin'' [written_histogram show_double name h] =
      map (\<lambda>(i, n). Elem ''bin''
          [(''index'', dec_digits i), (''start'', show_double (of_nat i * bin_width h)),
           (''width'', show_double (bin_width h)), (''count'', dec_digits n)] [])
         (filter (\<lambda>(i, n). n \<noteq> 0) (List.enumerate 0 (bin_counts h)))"
    by (auto simp: findall_def written_histogram_def filter_id_conv)
  then show ?thesis
    using assms
    by (simp add: new_histogram_def bins_of_enumerate py_map_over comp_def split_beta attr_def attr_int_def py_int_digits float_ok_def py_map_Inr)
qed

lemma new_flow_plain:
  assumes "float_ok to_float show_double rounded"
  shows "new_flow to_float (written_flow show_double hs False s) = Inr (flow_of rounded hs s)"
proof -
  obtain ft fr lt lr where t: "fs_times s = (ft, fr, lt, lr)" by (cases "fs_times s")
  have fl: "to_float (dec_digits n) = Inr (of_nat n)" "to_float (slice_upto (printed_time False v) (- 2)) = Inr (of_int v)" for n v
    using assms by (simp_all add: float_ok_def printed_time_slice)
  have pos: "0 < n \<Longrightarrow> of_int (int n) + (of_nat m :: rat) \<noteq> 0" for n m :: nat
    by (metis add_pos_nonneg less_irrefl of_int_of_nat_eq of_nat_0_le_iff of_nat_0_less_iff)
  have div_pos: "0 < (of_int d / 10 ^ 9 :: rat) \<longleftrightarrow> 0 < d" for d
    by (simp add: zero_less_divide_iff)
  show ?thesis
    using pos [of "fst (fs_rx s)" "fs_lost s"]
    by (simp add: new_flow_def attr_int_def attr_long_def attr_time_def attr_written [OF t] py_int_digits py_long_digits_only
        py_long_time fl bitrate_def flow_of_def t rate_def div_pos Let_def interruptions_written new_histogram_written [OF assms])
qed

text \<open>What the script finds in a document.\<close>

lemma tag_document: "tag (written_document show_double hs p flows classes probes) = ''FlowMonitor''"
  by (simp add: written_document_def)

lemma classifier_written:
  "findall ''Ipv4FlowClassifier'' [written_document show_double hs p flows classes probes] = [Elem ''Ipv4FlowClassifier'' [] (map written_class classes)]"
  by (simp add: findall_def written_document_def split: option.split)

lemma flows_written:
  "findall ''Flow'' (findall ''FlowStats'' [written_document show_double hs p flows classes probes]) = map (written_flow show_double hs p) flows"
proof -
  have "tag (written_flow show_double hs p g) = ''Flow''" for g by (cases "fs_times g") (simp add: written_flow_def)
  then show ?thesis by (simp add: findall_def written_document_def filter_id_conv split: option.split)
qed

lemma print_all_error:
  "snd (print_all ps) = None \<longleftrightarrow> (\<forall>p\<in>set ps. \<exists>l. p = Inr l)"
  by (induction ps rule: print_all.induct) (auto split: prod.splits)

lemma flow_report:
  assumes "protocol t = 6 \<or> protocol t = 17" "fs_times s = (ft, fr, lt, lr)"
  shows "snd (print_all (flow_prints show2 ((flow_of rounded hs s)\<lparr>fiveTuple := Some t\<rparr>))) =
    (if lt - ft \<le> 0 \<or> lr - fr \<le> 0 \<or> fst (fs_rx s) = 0 then Some TypeError else None)"
  using assms by (auto simp: flow_prints_def print_first_def dict_lookup_def print_value_def flow_of_def rate_def Let_def)

text \<open>C39: On every document the flow monitor writes, with or without histograms and probes, with at
  least one flow, the script stops with \<open>ValueError\<close> before it reports anything, because the
  simulator prints times with a fraction. On times without one it computes the flow's statistics
  exactly, the histogram of the interruptions from its bins that count something included, and the
  report of a TCP or UDP flow goes through to its end unless the flow received no packet or was sent
  or received in no time: then it stops with \<open>TypeError\<close>.\<close>

theorem flowmon_report:
  fixes s :: flow_stats
  shows "(flows \<noteq> [] \<longrightarrow>
      flowmon_main to_float show2 (written_document show_double histograms True flows classes probes) = ([''Reading XML file''], Some ValueError)) \<and>
    (float_ok to_float show_double rounded \<longrightarrow>
      new_flow to_float (written_flow show_double histograms False s) = Inr (flow_of rounded histograms s) \<and>
      (\<forall>t ft fr lt lr. (protocol t = 6 \<or> protocol t = 17) \<and> fs_times s = (ft, fr, lt, lr) \<longrightarrow>
         snd (print_all (flow_prints show2 ((flow_of rounded histograms s)\<lparr>fiveTuple := Some t\<rparr>))) =
           (if lt - ft \<le> 0 \<or> lr - fr \<le> 0 \<or> fst (fs_rx s) = 0 then Some TypeError else None)))"
proof (intro conjI impI allI)
  let ?doc = "written_document show_double histograms True flows classes probes"
  assume "flows \<noteq> []"
  then obtain f fs where f: "flows = f # fs" by (cases flows) auto
  have "new_simulation to_float ?doc = Inl ValueError"
    by (simp add: new_simulation_def classifier_written flows_written f add_flow_def new_flow_fraction)
  then show "flowmon_main to_float show2 ?doc = ([''Reading XML file''], Some ValueError)"
    by (simp add: flowmon_main_def read_document tag_document del: xml_events.simps)
qed (use new_flow_plain flow_report in \<open>blast+\<close>)

definition demo_stats :: flow_stats where
  "demo_stats = (let none = \<lparr>bin_width = 1, bin_counts = []\<rparr> in
     \<lparr>fs_id = 1, fs_times = (0, 5, 0, 5), fs_delay = 5, fs_jitter = 0, fs_last_delay = 5, fs_tx = (1, 100), fs_rx = (1, 100),
      fs_lost = 0, fs_forwarded = 0, fs_dropped = ([2], [80]), fs_delay_bins = none, fs_jitter_bins = none,
      fs_size_bins = none, fs_interruption_bins = \<lparr>bin_width = 2, bin_counts = [0, 3]\<rparr>\<rparr>)"

text \<open>\<open>float\<close> on the numbers the monitor writes, for the example, where they are whole.\<close>

definition demo_float :: "string \<Rightarrow> py_exn + rat" where
  "demo_float s = py_bind (py_long s) (\<lambda>v. Inr (of_int v))"

definition demo_show :: "rat \<Rightarrow> string" where
  "demo_show x = dec_digits (nat \<lfloor>x\<rfloor>)"

lemma demo_float_ok: "float_ok demo_float demo_show (\<lambda>x. of_nat (nat \<lfloor>x\<rfloor>))"
  using py_long_digits [of "[]"] by (simp add: float_ok_def demo_float_def demo_show_def py_long_digits_only)

theorem flowmon_report_witness:
  "flowmon_main demo_float (\<lambda>_. ''n'') (written_document demo_show True True [demo_stats] [] (Some [[]]))
     = ([''Reading XML file''], Some ValueError) \<and>
   new_flow demo_float (written_flow demo_show True False demo_stats) = Inr (flow_of (\<lambda>x. of_nat (nat \<lfloor>x\<rfloor>)) True demo_stats) \<and>
   flowInterruptionsHistogram (flow_of (\<lambda>x. of_nat (nat \<lfloor>x\<rfloor>)) True demo_stats) = Some [(2, 2, 3)] \<and>
   snd (print_all (flow_prints (\<lambda>_. ''n'') ((flow_of (\<lambda>x. of_nat (nat \<lfloor>x\<rfloor>)) True demo_stats)\<lparr>fiveTuple := Some
     \<lparr>sourceAddress = None, destinationAddress = None, sourcePort = 1, destinationPort = 2, protocol = 17\<rparr>\<rparr>))) = Some TypeError"
proof -
  have "flowInterruptionsHistogram (flow_of (\<lambda>x. of_nat (nat \<lfloor>x\<rfloor>)) True demo_stats) = Some [(2, 2, 3)]"
    by (simp add: flow_of_def demo_stats_def Let_def bins_of_def upt_rec)
  then show ?thesis
    using flowmon_report [of "[demo_stats]" demo_float "\<lambda>_. ''n''" demo_show True "[]" "Some [[]]" "\<lambda>x. of_nat (nat \<lfloor>x\<rfloor>)" demo_stats]
      demo_float_ok
    by (simp add: demo_stats_def Let_def del: xml_events.simps)
qed

end
