(* ===== verification/Create_Module.thy ===== *)
theory Create_Module
  imports Py_Base
begin

text \<open>
  \<open>src/src/create-module.py\<close>: writes the skeleton of a new module from templates. Python's \<open>%\<close> on a
  string and a dict is modelled with what the templates use: named fields as text or as their representation, and
  the doubled sign. What the script does to the file system is the list of its actions; whether the directory of the
  module exists is a parameter.
\<close>

section \<open>Formatting\<close>

text \<open>The next part of a format: a character, or a field with its key and conversion; and what follows it.\<close>

datatype format_part = Plain char | Field string char

definition next_part :: "char \<Rightarrow> string \<Rightarrow> py_exn + format_part \<times> string" where
  "next_part c s =
     (if c \<noteq> CHR ''%'' then Inr (Plain c, s)
      else case s of
        [] \<Rightarrow> Inl ValueError
      | k # s' \<Rightarrow>
          if k = CHR ''%'' then Inr (Plain k, s')
          else if k = CHR ''('' then
            (case dropWhile (\<lambda>x. x \<noteq> CHR '')'') s' of
               _ # conv # rest \<Rightarrow> Inr (Field (takeWhile (\<lambda>x. x \<noteq> CHR '')'') s') conv, rest)
             | _ \<Rightarrow> Inl ValueError)
          else Inl TypeError)"

definition part_text :: "(string, string) dict \<Rightarrow> format_part \<Rightarrow> py_exn + string" where
  "part_text d p = (case p of
     Plain c \<Rightarrow> Inr [c]
   | Field key conv \<Rightarrow> py_bind (dict_lookup d key) (\<lambda>v.
       if conv = CHR ''s'' then Inr v else if conv = CHR ''r'' then Inr (py_repr v) else Inl ValueError))"

lemma next_part_shorter: "next_part c s = Inr (p, rest) \<Longrightarrow> length rest \<le> length s"
  using length_dropWhile_le [of "\<lambda>x. x \<noteq> CHR '')''" "tl s"] by (auto simp: next_part_def split: if_splits list.splits)

function percent_fill :: "(string, string) dict \<Rightarrow> string \<Rightarrow> py_exn + string" where
  "percent_fill d [] = Inr []"
| "percent_fill d (c # s) =
     (case next_part c s of
        Inl e \<Rightarrow> Inl e
      | Inr (p, rest) \<Rightarrow> py_bind (part_text d p) (\<lambda>t. py_bind (percent_fill d rest) (\<lambda>u. Inr (t @ u))))"
  by pat_completeness auto
termination
  by (relation "measure (\<lambda>(d, s). length s)") (auto dest: next_part_shorter)

declare percent_fill.simps(2) [simp del]

section \<open>The templates\<close>

definition WSCRIPT_lines :: "string list" where
  \<open>WSCRIPT_lines =
    [''# -*- Mode: python; py-indent-offset: 4; indent-tabs-mode: nil; coding: utf-8; -*-'',
     '''',
     ''# def options(opt):'',
     ''#     pass'',
     '''',
     ''# def configure(conf):'',
     ''#     conf.check_nonfatal(header_name='stdint.h', define_name='HAVE_STDINT_H')'',
     '''',
     ''def build(bld):'',
     ''    module = bld.create_ns3_module(%(MODULE)r, ['core'])'',
     ''    module.source = ['',
     ''        'model/%(MODULE)s.cc','',
     ''        'helper/%(MODULE)s-helper.cc','',
     ''        ]'',
     '''',
     ''    module_test = bld.create_ns3_module_test_library('%(MODULE)s')'',
     ''    module_test.source = ['',
     ''        'test/%(MODULE)s-test-suite.cc','',
     ''        ]'',
     '''',
     ''    headers = bld.new_task_gen(features=['ns3header'])'',
     ''    headers.module = %(MODULE)r'',
     ''    headers.source = ['',
     ''        'model/%(MODULE)s.h','',
     ''        'helper/%(MODULE)s-helper.h','',
     ''        ]'',
     '''',
     ''    if bld.env.ENABLE_EXAMPLES:'',
     ''        bld.add_subdirs('examples')'',
     '''',
     ''    # bld.ns3_python_bindings()'',
     '''']\<close>

definition WSCRIPT_TEMPLATE :: string where
  "WSCRIPT_TEMPLATE = text_of WSCRIPT_lines"

definition MODEL_CC_lines :: "string list" where
  \<open>MODEL_CC_lines =
    [''/* -*- Mode:C++; c-file-style:"gnu"; indent-tabs-mode:nil; -*- */'',
     '''',
     ''#include "%(MODULE)s.h"'',
     '''',
     ''namespace ns3 {'',
     '''',
     ''/* ... */'',
     '''',
     '''',
     ''}'',
     '''']\<close>

definition MODEL_CC_TEMPLATE :: string where
  "MODEL_CC_TEMPLATE = text_of MODEL_CC_lines"

definition MODEL_H_lines :: "string list" where
  \<open>MODEL_H_lines =
    [''/* -*- Mode:C++; c-file-style:"gnu"; indent-tabs-mode:nil; -*- */'',
     ''#ifndef %(INCLUDE_GUARD)s'',
     ''#define %(INCLUDE_GUARD)s'',
     '''',
     ''namespace ns3 {'',
     '''',
     ''/* ... */'',
     '''',
     ''}'',
     '''',
     ''#endif /* %(INCLUDE_GUARD)s */'',
     '''']\<close>

definition MODEL_H_TEMPLATE :: string where
  "MODEL_H_TEMPLATE = text_of MODEL_H_lines"

definition HELPER_CC_lines :: "string list" where
  \<open>HELPER_CC_lines =
    [''/* -*- Mode:C++; c-file-style:"gnu"; indent-tabs-mode:nil; -*- */'',
     '''',
     ''#include "%(MODULE)s-helper.h"'',
     '''',
     ''namespace ns3 {'',
     '''',
     ''/* ... */'',
     '''',
     '''',
     ''}'',
     '''']\<close>

definition HELPER_CC_TEMPLATE :: string where
  "HELPER_CC_TEMPLATE = text_of HELPER_CC_lines"

definition HELPER_H_lines :: "string list" where
  \<open>HELPER_H_lines =
    [''/* -*- Mode:C++; c-file-style:"gnu"; indent-tabs-mode:nil; -*- */'',
     ''#ifndef %(INCLUDE_GUARD)s'',
     ''#define %(INCLUDE_GUARD)s'',
     '''',
     ''#include "ns3/%(MODULE)s.h"'',
     '''',
     ''namespace ns3 {'',
     '''',
     ''/* ... */'',
     '''',
     ''}'',
     '''',
     ''#endif /* %(INCLUDE_GUARD)s */'',
     '''']\<close>

definition HELPER_H_TEMPLATE :: string where
  "HELPER_H_TEMPLATE = text_of HELPER_H_lines"

definition EXAMPLES_WSCRIPT_lines :: "string list" where
  \<open>EXAMPLES_WSCRIPT_lines =
    [''# -*- Mode: python; py-indent-offset: 4; indent-tabs-mode: nil; coding: utf-8; -*-'',
     '''',
     ''def build(bld):'',
     ''    obj = bld.create_ns3_program('%(MODULE)s-example', [%(MODULE)r])'',
     ''    obj.source = '%(MODULE)s-example.cc'' @ [CHR 0x27],
     '''']\<close>

definition EXAMPLES_WSCRIPT_TEMPLATE :: string where
  "EXAMPLES_WSCRIPT_TEMPLATE = text_of EXAMPLES_WSCRIPT_lines"

definition EXAMPLE_CC_lines :: "string list" where
  \<open>EXAMPLE_CC_lines =
    [''/* -*- Mode:C++; c-file-style:"gnu"; indent-tabs-mode:nil; -*- */'',
     '''',
     ''#include "ns3/core-module.h"'',
     ''#include "ns3/%(MODULE)s-helper.h"'',
     '''',
     ''using namespace ns3;'',
     '''',
     '''',
     ''int '',
     ''main (int argc, char *argv[])'',
     ''{'',
     ''  bool verbose = true;'',
     '''',
     ''  CommandLine cmd;'',
     ''  cmd.AddValue ("verbose", "Tell application to log if true", verbose);'',
     '''',
     ''  cmd.Parse (argc,argv);'',
     '''',
     ''  /* ... */'',
     '''',
     ''  Simulator::Run ();'',
     ''  Simulator::Destroy ();'',
     ''  return 0;'',
     ''}'',
     '''',
     '''']\<close>

definition EXAMPLE_CC_TEMPLATE :: string where
  "EXAMPLE_CC_TEMPLATE = text_of EXAMPLE_CC_lines"

definition TEST_CC_lines :: "string list" where
  \<open>TEST_CC_lines =
    [''/* -*- Mode:C++; c-file-style:"gnu"; indent-tabs-mode:nil; -*- */'',
     '''',
     ''// Include a header file from your module to test.'',
     ''#include "ns3/%(MODULE)s.h"'',
     '''',
     ''// An essential include is test.h'',
     ''#include "ns3/test.h"'',
     '''',
     ''// Do not put your test classes in namespace ns3.  You may find it useful'',
     ''// to use the using directive to access the ns3 namespace directly'',
     ''using namespace ns3;'',
     '''',
     ''// This is an example TestCase.'',
     ''class %(CAPITALIZED)sTestCase1 : public TestCase'',
     ''{'',
     ''public:'',
     ''  %(CAPITALIZED)sTestCase1 ();'',
     ''  virtual ~%(CAPITALIZED)sTestCase1 ();'',
     '''',
     ''private:'',
     ''  virtual void DoRun (void);'',
     ''};'',
     '''',
     ''// Add some help text to this case to describe what it is intended to test'',
     ''%(CAPITALIZED)sTestCase1::%(CAPITALIZED)sTestCase1 ()'',
     ''  : TestCase ("%(CAPITALIZED)s test case (does nothing)")'',
     ''{'',
     ''}'',
     '''',
     ''// This destructor does nothing but we include it as a reminder that'',
     ''// the test case should clean up after itself'',
     ''%(CAPITALIZED)sTestCase1::~%(CAPITALIZED)sTestCase1 ()'',
     ''{'',
     ''}'',
     '''',
     ''//'',
     ''// This method is the pure virtual method from class TestCase that every'',
     ''// TestCase must implement'',
     ''//'',
     ''void'',
     ''%(CAPITALIZED)sTestCase1::DoRun (void)'',
     ''{'',
     ''  // A wide variety of test macros are available in src/core/test.h'',
     ''  NS_TEST_ASSERT_MSG_EQ (true, true, "true doesn't equal true for some reason");'',
     ''  // Use this one for floating point comparisons'',
     ''  NS_TEST_ASSERT_MSG_EQ_TOL (0.01, 0.01, 0.001, "Numbers are not equal within tolerance");'',
     ''}'',
     '''',
     ''// The TestSuite class names the TestSuite, identifies what type of TestSuite,'',
     ''// and enables the TestCases to be run.  Typically, only the constructor for'',
     ''// this class must be defined'',
     ''//'',
     ''class %(CAPITALIZED)sTestSuite : public TestSuite'',
     ''{'',
     ''public:'',
     ''  %(CAPITALIZED)sTestSuite ();'',
     ''};'',
     '''',
     ''%(CAPITALIZED)sTestSuite::%(CAPITALIZED)sTestSuite ()'',
     ''  : TestSuite ("%(MODULE)s", UNIT)'',
     ''{'',
     ''  AddTestCase (new %(CAPITALIZED)sTestCase1);'',
     ''}'',
     '''',
     ''// Do not forget to allocate an instance of this TestSuite'',
     ''static %(CAPITALIZED)sTestSuite %(MODULE)sTestSuite;'',
     '''']\<close>

definition TEST_CC_TEMPLATE :: string where
  "TEST_CC_TEMPLATE = text_of TEST_CC_lines"

definition DOC_RST_lines :: "string list" where
  \<open>DOC_RST_lines =
    [''Example Module Documentation'',
     ''----------------------------'',
     '''',
     ''.. heading hierarchy:'',
     ''   ------------- Chapter'',
     ''   ************* Section (#.#)'',
     ''   ============= Subsection (#.#.#)'',
     ''   ############# Paragraph (no number)'',
     '''',
     ''This is a suggested outline for adding new module documentation to ns-3.'',
     ''See ``src/click/doc/click.rst`` for an example.'',
     '''',
     ''The introductory paragraph is for describing what this code is trying to'',
     ''model.'',
     '''',
     ''Model Description'',
     ''*****************'',
     '''',
     ''The source code for the new module lives in the directory ``src/%(MODULE)s``.'',
     '''',
     ''Add here a basic description of what is being modeled.'',
     '''',
     ''Design'',
     ''======'',
     '''',
     ''Briefly describe the software design of the model and how it fits into '',
     ''the existing ns-3 architecture. '',
     '''',
     ''Scope and Limitations'',
     ''====================='',
     '''',
     ''What can the model do?  What can it not do?  Please use this section to'',
     ''describe the scope and limitations of the model.'',
     '''',
     ''References'',
     ''=========='',
     '''',
     ''Add academic citations here, such as if you published a paper on this'',
     ''model, or if readers should read a particular specification or other work.'',
     '''',
     ''Usage'',
     ''*****'',
     '''',
     ''This section is principally concerned with the usage of your model, using'',
     ''the public API.  Focus first on most common usage patterns, then go'',
     ''into more advanced topics.'',
     '''',
     ''Building New Module'',
     ''==================='',
     '''',
     ''Include this subsection only if there are special build instructions or'',
     ''platform limitations.'',
     '''',
     ''Helpers'',
     ''======='',
     '''',
     ''What helper API will users typically use?  Describe it here.'',
     '''',
     ''Attributes'',
     ''=========='',
     '''',
     ''What classes hold attributes, and what are the key ones worth mentioning?'',
     '''',
     ''Output'',
     ''======'',
     '''',
     ''What kind of data does the model generate?  What are the key trace'',
     ''sources?   What kind of logging output can be enabled?'',
     '''',
     ''Advanced Usage'',
     ''=============='',
     '''',
     ''Go into further details (such as using the API outside of the helpers)'',
     ''in additional sections, as needed.'',
     '''',
     ''Examples'',
     ''========'',
     '''',
     ''What examples using this new code are available?  Describe them here.'',
     '''',
     ''Troubleshooting'',
     ''==============='',
     '''',
     ''Add any tips for avoiding pitfalls, etc.'',
     '''',
     ''Validation'',
     ''**********'',
     '''',
     ''Describe how the model has been tested/validated.  What tests run in the'',
     ''test suite?  How much API and code is covered by the tests?  Again, '',
     ''references to outside published work may help here.'']\<close>

definition DOC_RST_TEMPLATE :: string where
  "DOC_RST_TEMPLATE = text_of DOC_RST_lines"

section \<open>The script\<close>

datatype fs_step = Make_Dir string | Make_File string string "(string, string) dict"

datatype fs_action = Dir_Made string | File_Written string string

text \<open>A file is opened, and so made empty, before its text is computed.\<close>

fun run_steps :: "fs_step list \<Rightarrow> fs_action list \<times> py_exn option" where
  "run_steps [] = ([], None)"
| "run_steps (Make_Dir p # steps) = (case run_steps steps of (acts, e) \<Rightarrow> (Dir_Made p # acts, e))"
| "run_steps (Make_File p template d # steps) =
     (case percent_fill d template of
        Inl e \<Rightarrow> ([File_Written p []], Some e)
      | Inr t \<Rightarrow> (case run_steps steps of (acts, e) \<Rightarrow> (File_Written p t # acts, e)))"

definition to_upper :: "string \<Rightarrow> string" where
  "to_upper s = map char_upper s"

definition py_capitalize :: "string \<Rightarrow> string" where
  "py_capitalize s = (case s of [] \<Rightarrow> [] | c # cs \<Rightarrow> char_upper c # map char_lower cs)"

definition guard_fields :: "string \<Rightarrow> string \<Rightarrow> (string, string) dict" where
  "guard_fields modname part =
     [(''MODULE'', modname), (''INCLUDE_GUARD'', ''__'' @ to_upper modname @ part @ ''_H__'')]"

definition module_steps :: "string \<Rightarrow> string \<Rightarrow> fs_step list" where
  "module_steps moduledir modname =
     (let file = (\<lambda>sub name. path_join (path_join moduledir sub) (modname @ name)); dir = path_join moduledir;
          fields = [(''MODULE'', modname)]
      in [Make_Dir moduledir,
          Make_File (path_join moduledir ''wscript'') WSCRIPT_TEMPLATE fields,
          Make_Dir (dir ''model''),
          Make_File (file ''model'' ''.cc'') MODEL_CC_TEMPLATE fields,
          Make_File (file ''model'' ''.h'') MODEL_H_TEMPLATE (guard_fields modname []),
          Make_Dir (dir ''test''),
          Make_File (file ''test'' ''-test-suite.cc'') TEST_CC_TEMPLATE (fields @ [(''CAPITALIZED'', py_capitalize modname)]),
          Make_Dir (dir ''helper''),
          Make_File (file ''helper'' ''-helper.cc'') HELPER_CC_TEMPLATE fields,
          Make_File (file ''helper'' ''-helper.h'') HELPER_H_TEMPLATE (guard_fields modname ''_HELPER''),
          Make_Dir (dir ''examples''),
          Make_File (path_join (dir ''examples'') ''wscript'') EXAMPLES_WSCRIPT_TEMPLATE fields,
          Make_File (file ''examples'' ''-example.cc'') EXAMPLE_CC_TEMPLATE fields,
          Make_Dir (dir ''doc''),
          Make_File (file ''doc'' ''.rst'') DOC_RST_TEMPLATE fields])"

text \<open>\<open>main\<close>, after the options were parsed; \<open>base\<close> is the directory of the script.\<close>

definition create_module :: "(string \<Rightarrow> bool) \<Rightarrow> string \<Rightarrow> string list \<Rightarrow> (py_exn + int) \<times> fs_action list" where
  "create_module exists base args =
     (case args of
        [modname] \<Rightarrow>
          if CHR ''/'' \<in> set modname then (Inl AssertionError, [])
          else
            let moduledir = path_join base modname in
            if exists moduledir then (Inr 2, [])
            else (case run_steps (module_steps moduledir modname) of
                    (acts, Some e) \<Rightarrow> (Inl e, acts) | (acts, None) \<Rightarrow> (Inr 0, acts))
      | _ \<Rightarrow> (Inr 1, []))"

section \<open>Filling a template\<close>

lemma dropWhile_tail:
  "dropWhile P xs = y # ys \<Longrightarrow> dropWhile P (xs @ b) = y # ys @ b \<and> takeWhile P (xs @ b) = takeWhile P xs"
  by (induction xs) (auto split: if_splits)

lemma next_part_cases:
  "c \<noteq> CHR ''%'' \<Longrightarrow> next_part c s = Inr (Plain c, s)"
  "next_part (CHR ''%'') [] = Inl ValueError"
  "next_part (CHR ''%'') (CHR ''%'' # s) = Inr (Plain (CHR ''%''), s)"
  "next_part (CHR ''%'') (CHR ''('' # s) = (case dropWhile (\<lambda>x. x \<noteq> CHR '')'') s of
     _ # conv # rest \<Rightarrow> Inr (Field (takeWhile (\<lambda>x. x \<noteq> CHR '')'') s) conv, rest) | _ \<Rightarrow> Inl ValueError)"
  "k \<noteq> CHR ''%'' \<Longrightarrow> k \<noteq> CHR ''('' \<Longrightarrow> next_part (CHR ''%'') (k # s) = Inl TypeError"
  by (simp_all add: next_part_def)

lemma next_part_append:
  assumes "next_part c s = Inr (p, rest)"
  shows "next_part c (s @ b) = Inr (p, rest @ b)"
proof -
  consider "c \<noteq> CHR ''%''" | "c = CHR ''%''" "s = []" | s' where "c = CHR ''%''" "s = CHR ''%'' # s'"
    | s' where "c = CHR ''%''" "s = CHR ''('' # s'" | k s' where "c = CHR ''%''" "s = k # s'" "k \<noteq> CHR ''%''" "k \<noteq> CHR ''(''"
    by (metis list.exhaust)
  then show ?thesis
  proof cases
    case (4 s')
    show ?thesis
    proof (cases "dropWhile (\<lambda>x. x \<noteq> CHR '')'') s'")
      case Nil
      with assms 4 have False by (simp only: next_part_cases list.case sum.simps)
      then show ?thesis ..
    next
      case (Cons y ys)
      then obtain conv r where ys: "ys = conv # r" using assms 4 by (cases ys) (simp_all only: next_part_cases list.case sum.simps)
      then show ?thesis using assms 4 Cons dropWhile_tail [OF Cons, of b] by (simp add: next_part_cases(4))
    qed
  qed (use assms in \<open>simp_all add: next_part_cases\<close>)
qed

lemma percent_fill_append:
  "percent_fill d a = Inr t \<Longrightarrow> percent_fill d (a @ b) = py_bind (percent_fill d b) (\<lambda>u. Inr (t @ u))"
proof (induction d a arbitrary: t rule: percent_fill.induct)
  case (2 d c s)
  obtain p rest where np: "next_part c s = Inr (p, rest)"
    using "2.prems" by (auto simp: percent_fill.simps(2) split: sum.splits)
  obtain v u where vu: "part_text d p = Inr v" "percent_fill d rest = Inr u" "t = v @ u"
    using "2.prems" np by (auto simp: percent_fill.simps(2))
  show ?case
    using "2.IH" [OF np refl vu(1) vu(2)] next_part_append [OF np] vu by (cases "percent_fill d b") (simp_all add: percent_fill.simps(2))
next
  case (1 d)
  then show ?case by (cases "percent_fill d b") simp_all
qed

lemma percent_fill_plain: "CHR ''%'' \<notin> set s \<Longrightarrow> percent_fill d s = Inr s"
  by (induction s) (auto simp: percent_fill.simps(2) next_part_def part_text_def)

text \<open>A field with the text around it.\<close>

lemma percent_fill_field:
  assumes "CHR '')'' \<notin> set key" "dict_get d key = Some v"
  shows "percent_fill d (CHR ''%'' # CHR ''('' # key @ CHR '')'' # CHR ''s'' # rest) = py_bind (percent_fill d rest) (\<lambda>u. Inr (v @ u))"
    "percent_fill d (CHR ''%'' # CHR ''('' # key @ CHR '')'' # CHR ''r'' # rest) = py_bind (percent_fill d rest) (\<lambda>u. Inr (py_repr v @ u))"
proof -
  have "dropWhile (\<lambda>x. x \<noteq> CHR '')'') (key @ CHR '')'' # r) = CHR '')'' # r"
    "takeWhile (\<lambda>x. x \<noteq> CHR '')'') (key @ CHR '')'' # r) = key" for r
    using assms(1) by (induction key) auto
  then show "percent_fill d (CHR ''%'' # CHR ''('' # key @ CHR '')'' # CHR ''s'' # rest) = py_bind (percent_fill d rest) (\<lambda>u. Inr (v @ u))"
    "percent_fill d (CHR ''%'' # CHR ''('' # key @ CHR '')'' # CHR ''r'' # rest) = py_bind (percent_fill d rest) (\<lambda>u. Inr (py_repr v @ u))"
    using assms(2) by (simp_all add: percent_fill.simps(2) next_part_def part_text_def dict_lookup_def)
qed

text \<open>Whether a line can be filled depends on the keys only.\<close>

definition fillable :: "string list \<Rightarrow> string \<Rightarrow> bool" where
  "fillable keys l = (case percent_fill (map (\<lambda>k. (k, [])) keys) l of Inl e \<Rightarrow> False | Inr t \<Rightarrow> True)"

definition line_text :: "(string, string) dict \<Rightarrow> string \<Rightarrow> string" where
  "line_text d l = (case percent_fill d l of Inl e \<Rightarrow> [] | Inr t \<Rightarrow> t)"

lemma dict_get_keys: "dict_get (map (\<lambda>k. (k, [])) (dict_keys d)) k = map_option (\<lambda>v. []) (dict_get d k)"
  by (induction d) (auto simp: dict_keys_def)

lemma fillable_text: "fillable (dict_keys d) l \<Longrightarrow> percent_fill d l = Inr (line_text d l)"
proof -
  have "(\<exists>t. percent_fill (map (\<lambda>k. (k, [])) (dict_keys d)) l = Inr t) \<Longrightarrow> \<exists>t. percent_fill d l = Inr t"
  proof (induction d l rule: percent_fill.induct)
    case (2 d c s)
    obtain p rest where np: "next_part c s = Inr (p, rest)"
      using "2.prems" by (auto simp: percent_fill.simps(2) split: sum.splits)
    have "\<exists>v. part_text d p = Inr v"
      using "2.prems" np
      by (cases p) (auto simp: percent_fill.simps(2) part_text_def dict_lookup_def dict_get_keys split: if_splits option.splits)
    then obtain v where v: "part_text d p = Inr v" by blast
    have "\<exists>t. percent_fill (map (\<lambda>k. (k, [])) (dict_keys d)) rest = Inr t"
      using "2.prems" np by (auto simp: percent_fill.simps(2))
    then show ?case using "2.IH" [OF np refl v] np v by (auto simp: percent_fill.simps(2))
  qed simp
  moreover assume "fillable (dict_keys d) l"
  ultimately show ?thesis by (auto simp: fillable_def line_text_def split: sum.splits)
qed

lemma template_text:
  "\<forall>l\<in>set ls. fillable (dict_keys d) l \<Longrightarrow> percent_fill d (text_of ls) = Inr (text_of (map (line_text d) ls))"
proof (induction ls)
  case (Cons l ls)
  have "percent_fill d newline = Inr newline" by (rule percent_fill_plain) (simp add: newline_def)
  then have "percent_fill d (newline @ text_of ls) = Inr (newline @ text_of (map (line_text d) ls))"
    using Cons percent_fill_append [of d newline newline "text_of ls"] by simp
  moreover have "percent_fill d l = Inr (line_text d l)" using Cons.prems by (simp add: fillable_text)
  ultimately show ?case using percent_fill_append [of d l "line_text d l" "newline @ text_of ls"] by (simp add: text_of_def)
qed (simp add: text_of_def)

lemma fillable_WSCRIPT: "list_all (fillable [''MODULE'']) WSCRIPT_lines"
  by code_simp

lemma fillable_MODEL_CC: "list_all (fillable [''MODULE'']) MODEL_CC_lines"
  by code_simp

lemma fillable_MODEL_H: "list_all (fillable [''MODULE'', ''INCLUDE_GUARD'']) MODEL_H_lines"
  by code_simp

lemma fillable_TEST_CC: "list_all (fillable [''MODULE'', ''CAPITALIZED'']) TEST_CC_lines"
  by code_simp

lemma fillable_HELPER_CC: "list_all (fillable [''MODULE'']) HELPER_CC_lines"
  by code_simp

lemma fillable_HELPER_H: "list_all (fillable [''MODULE'', ''INCLUDE_GUARD'']) HELPER_H_lines"
  by code_simp

lemma fillable_EXAMPLES_WSCRIPT: "list_all (fillable [''MODULE'']) EXAMPLES_WSCRIPT_lines"
  by code_simp

lemma fillable_EXAMPLE_CC: "list_all (fillable [''MODULE'']) EXAMPLE_CC_lines"
  by code_simp

lemma fillable_DOC_RST: "list_all (fillable [''MODULE'']) DOC_RST_lines"
  by code_simp

lemmas fillable_lines = fillable_WSCRIPT fillable_MODEL_CC fillable_MODEL_H fillable_TEST_CC fillable_HELPER_CC fillable_HELPER_H fillable_EXAMPLES_WSCRIPT fillable_EXAMPLE_CC fillable_DOC_RST

definition fields_of :: "string \<Rightarrow> (string, string) dict" where
  "fields_of name = [(''MODULE'', name)]"

definition test_fields :: "string \<Rightarrow> (string, string) dict" where
  "test_fields name = [(''MODULE'', name), (''CAPITALIZED'', py_capitalize name)]"

lemma templates_filled:
  "percent_fill (fields_of name) WSCRIPT_TEMPLATE = Inr (text_of (map (line_text (fields_of name)) WSCRIPT_lines))"
  "percent_fill (fields_of name) MODEL_CC_TEMPLATE = Inr (text_of (map (line_text (fields_of name)) MODEL_CC_lines))"
  "percent_fill (guard_fields name g) MODEL_H_TEMPLATE = Inr (text_of (map (line_text (guard_fields name g)) MODEL_H_lines))"
  "percent_fill (test_fields name) TEST_CC_TEMPLATE = Inr (text_of (map (line_text (test_fields name)) TEST_CC_lines))"
  "percent_fill (fields_of name) HELPER_CC_TEMPLATE = Inr (text_of (map (line_text (fields_of name)) HELPER_CC_lines))"
  "percent_fill (guard_fields name g) HELPER_H_TEMPLATE = Inr (text_of (map (line_text (guard_fields name g)) HELPER_H_lines))"
  "percent_fill (fields_of name) EXAMPLES_WSCRIPT_TEMPLATE = Inr (text_of (map (line_text (fields_of name)) EXAMPLES_WSCRIPT_lines))"
  "percent_fill (fields_of name) EXAMPLE_CC_TEMPLATE = Inr (text_of (map (line_text (fields_of name)) EXAMPLE_CC_lines))"
  "percent_fill (fields_of name) DOC_RST_TEMPLATE = Inr (text_of (map (line_text (fields_of name)) DOC_RST_lines))"
  unfolding WSCRIPT_TEMPLATE_def MODEL_CC_TEMPLATE_def MODEL_H_TEMPLATE_def TEST_CC_TEMPLATE_def HELPER_CC_TEMPLATE_def HELPER_H_TEMPLATE_def
    EXAMPLES_WSCRIPT_TEMPLATE_def EXAMPLE_CC_TEMPLATE_def DOC_RST_TEMPLATE_def
  using fillable_lines by (auto intro!: template_text simp: list_all_iff fields_of_def test_fields_def guard_fields_def dict_keys_def)

section \<open>The module created\<close>

text \<open>The names a line refers to, with the field filled in.\<close>

lemma source_line:
  assumes "CHR ''%'' \<notin> set a" "CHR ''%'' \<notin> set b"
  shows "line_text (fields_of name) (a @ ''%(MODULE)s'' @ b) = a @ name @ b"
proof -
  have "percent_fill (fields_of name) (''%(MODULE)s'' @ b) = Inr (name @ b)"
    using percent_fill_field(1) [of "''MODULE''" "fields_of name" name b] percent_fill_plain [OF assms(2)] by (simp add: fields_of_def)
  then have "percent_fill (fields_of name) (a @ ''%(MODULE)s'' @ b) = Inr (a @ name @ b)"
    using percent_fill_append [OF percent_fill_plain [OF assms(1)], of "fields_of name" "''%(MODULE)s'' @ b"] by simp
  then show ?thesis by (simp add: line_text_def)
qed

lemma guard_line: "line_text (guard_fields name g) (MODEL_H_lines ! 1) = ''#ifndef __'' @ to_upper name @ g @ ''_H__''"
proof -
  have "percent_fill (guard_fields name g) ''%(INCLUDE_GUARD)s'' = Inr (''__'' @ to_upper name @ g @ ''_H__'')"
    using percent_fill_field(1) [of "''INCLUDE_GUARD''" "guard_fields name g" "''__'' @ to_upper name @ g @ ''_H__''" "[]"] by (simp add: guard_fields_def)
  moreover have "percent_fill (guard_fields name g) ''#ifndef '' = Inr ''#ifndef ''" by (rule percent_fill_plain) simp
  ultimately show ?thesis
    using percent_fill_append [of "guard_fields name g" "''#ifndef ''" "''#ifndef ''" "''%(INCLUDE_GUARD)s''"] by (simp add: MODEL_H_lines_def line_text_def)
qed

lemma path_join_below: "a \<noteq> [] \<Longrightarrow> List.last a \<noteq> CHR ''/'' \<Longrightarrow> \<not> starts_with b ''/'' \<Longrightarrow> path_join a b = a @ ''/'' @ b"
  by (cases a rule: rev_cases) (auto simp: path_join_def ends_with_def)

lemma module_dir:
  assumes "name \<noteq> []" "CHR ''/'' \<notin> set name"
  shows "path_join base name \<noteq> []" "List.last (path_join base name) \<noteq> CHR ''/''"
proof -
  have "List.last name \<noteq> CHR ''/''" using assms last_in_set by metis
  then show "path_join base name \<noteq> []" "List.last (path_join base name) \<noteq> CHR ''/''"
    using assms(1) by (auto simp: path_join_def)
qed

fun action_path :: "fs_action \<Rightarrow> string" where
  "action_path (Dir_Made p) = p"
| "action_path (File_Written p t) = p"

text \<open>What the script does for a new module, with the texts of the templates.\<close>

definition module_actions :: "string \<Rightarrow> string \<Rightarrow> fs_action list" where
  "module_actions dir name =
     (let text = (\<lambda>d ls. text_of (map (line_text d) ls)) in
      [Dir_Made dir, File_Written (dir @ ''/wscript'') (text (fields_of name) WSCRIPT_lines),
       Dir_Made (dir @ ''/model''), File_Written (dir @ ''/model/'' @ name @ ''.cc'') (text (fields_of name) MODEL_CC_lines),
       File_Written (dir @ ''/model/'' @ name @ ''.h'') (text (guard_fields name []) MODEL_H_lines),
       Dir_Made (dir @ ''/test''), File_Written (dir @ ''/test/'' @ name @ ''-test-suite.cc'') (text (test_fields name) TEST_CC_lines),
       Dir_Made (dir @ ''/helper''), File_Written (dir @ ''/helper/'' @ name @ ''-helper.cc'') (text (fields_of name) HELPER_CC_lines),
       File_Written (dir @ ''/helper/'' @ name @ ''-helper.h'') (text (guard_fields name ''_HELPER'') HELPER_H_lines),
       Dir_Made (dir @ ''/examples''), File_Written (dir @ ''/examples/wscript'') (text (fields_of name) EXAMPLES_WSCRIPT_lines),
       File_Written (dir @ ''/examples/'' @ name @ ''-example.cc'') (text (fields_of name) EXAMPLE_CC_lines),
       Dir_Made (dir @ ''/doc''), File_Written (dir @ ''/doc/'' @ name @ ''.rst'') (text (fields_of name) DOC_RST_lines)])"

lemma create_module_result:
  assumes "name \<noteq> []" "CHR ''/'' \<notin> set name" "\<not> exists (path_join base name)"
  shows "create_module exists base [name] = (Inr 0, module_actions (path_join base name) name)"
proof -
  define dir where "dir = path_join base name"
  have dir: "dir \<noteq> []" "List.last dir \<noteq> CHR ''/''" using module_dir [OF assms(1,2)] by (simp_all add: dir_def)
  have nm: "\<not> starts_with (name @ b) ''/''" for b using assms(1,2) by (cases name) (auto simp: starts_with_def)
  have joined: "path_join (dir @ ''/'' @ sub) (name @ b) = dir @ ''/'' @ sub @ ''/'' @ name @ b" if "sub \<noteq> []" "List.last sub \<noteq> CHR ''/''" for sub b
    using path_join_below [of "dir @ ''/'' @ sub"] that nm by simp
  have steps: "path_join dir sub = dir @ ''/'' @ sub" if "\<not> starts_with sub ''/''" for sub
    using path_join_below [OF dir that] .
  have fields: "[(''MODULE'', name)] = fields_of name" "fields_of name @ [(''CAPITALIZED'', py_capitalize name)] = test_fields name"
    by (simp_all add: fields_of_def test_fields_def)
  have "run_steps (module_steps dir name) = (module_actions dir name, None)"
    unfolding module_steps_def Let_def fields module_actions_def
    by (simp add: steps joined [of "''model''", simplified] joined [of "''test''", simplified] joined [of "''helper''", simplified]
        joined [of "''examples''", simplified] joined [of "''doc''", simplified] path_join_below starts_with_def templates_filled)
  then show ?thesis using assms(2,3) by (simp add: create_module_def Let_def dir_def)
qed

text \<open>An identifier of C.\<close>

definition c_identifier :: "string \<Rightarrow> bool" where
  "c_identifier s \<longleftrightarrow> s \<noteq> [] \<and> \<not> is_digit (hd s) \<and> list_all name_char s"

lemma letters:
  "map char_of [97..<123::nat] = ''abcdefghijklmnopqrstuvwxyz''"
  "map (\<lambda>n. char_of (n - 32)) [97..<123::nat] = ''ABCDEFGHIJKLMNOPQRSTUVWXYZ''"
  by (simp_all add: upt_conv_Cons char_of_def bit_Suc_0_iff)

lemma name_char_upper: "name_char (char_upper c) = name_char c"
proof (cases "of_char c \<in> set [97..<123::nat]")
  case True
  let ?n = "of_char c :: nat"
  have "char_of ?n \<in> set (map char_of [97..<123::nat])" "char_of (?n - 32) \<in> set (map (\<lambda>n. char_of (n - 32)) [97..<123::nat])"
    unfolding set_map using True by (auto simp only: intro: imageI)
  then have "c \<in> set ''abcdefghijklmnopqrstuvwxyz''" "char_of (?n - 32) \<in> set ''ABCDEFGHIJKLMNOPQRSTUVWXYZ''"
    unfolding letters by simp_all
  moreover have "char_upper c = char_of (?n - 32)" using True by (auto simp only: char_upper_def Let_def set_upt atLeastLessThan_iff split: if_split)
  moreover have "list_all name_char ''abcdefghijklmnopqrstuvwxyz''" "list_all name_char ''ABCDEFGHIJKLMNOPQRSTUVWXYZ''"
    by (simp_all add: name_char_def)
  ultimately show ?thesis unfolding list_all_iff by metis
next
  case False
  then have "char_upper c = c" by (auto simp only: char_upper_def Let_def set_upt atLeastLessThan_iff split: if_split)
  then show ?thesis by simp
qed

text \<open>C10: For a name that is not taken the script makes the directory of the module, five below it and nine files, each
  directory before what is in it, and returns 0. The files the \<open>wscript\<close> names as sources and headers are among
  them. The include guards come from the name in capitals, so they are identifiers only if the name has no character
  but letters, digits and underscores, which the names of modules like \<open>point-to-point\<close> are not.\<close>

theorem create_module_spec:
  assumes "name \<noteq> []" "CHR ''/'' \<notin> set name" "\<not> exists (path_join base name)"
  shows "\<exists>acts. create_module exists base [name] = (Inr 0, acts) \<and>
    (let dir = path_join base name in
     map action_path acts = map (\<lambda>p. dir @ p)
       ['''', ''/wscript'', ''/model'', ''/model/'' @ name @ ''.cc'', ''/model/'' @ name @ ''.h'', ''/test'',
        ''/test/'' @ name @ ''-test-suite.cc'', ''/helper'', ''/helper/'' @ name @ ''-helper.cc'', ''/helper/'' @ name @ ''-helper.h'',
        ''/examples'', ''/examples/wscript'', ''/examples/'' @ name @ ''-example.cc'', ''/doc'', ''/doc/'' @ name @ ''.rst''] \<and>
     (\<exists>ls. File_Written (dir @ ''/wscript'') (text_of ls) \<in> set acts \<and>
       (\<forall>f\<in>{''model/'' @ name @ ''.cc'', ''helper/'' @ name @ ''-helper.cc'', ''test/'' @ name @ ''-test-suite.cc'',
             ''model/'' @ name @ ''.h'', ''helper/'' @ name @ ''-helper.h''}.
          replicate 8 CHR '' '' @ [CHR 0x27] @ f @ [CHR 0x27] @ '','' \<in> set ls \<and> (\<exists>t. File_Written (dir @ ''/'' @ f) t \<in> set acts))) \<and>
     (\<exists>ls. File_Written (dir @ ''/model/'' @ name @ ''.h'') (text_of ls) \<in> set acts \<and> ls ! 1 = ''#ifndef __'' @ to_upper name @ ''_H__'') \<and>
     (c_identifier (''__'' @ to_upper name @ ''_H__'') \<longleftrightarrow> list_all name_char name))"
proof -
  define dir where "dir = path_join base name"
  let ?ws = "map (line_text (fields_of name)) WSCRIPT_lines" and ?h = "map (line_text (guard_fields name [])) MODEL_H_lines"
  have line: "replicate 8 CHR '' '' @ [CHR 0x27] @ a @ name @ b @ [CHR 0x27] @ '','' \<in> set ?ws"
    if "replicate 8 CHR '' '' @ [CHR 0x27] @ a @ ''%(MODULE)s'' @ b @ [CHR 0x27] @ '','' \<in> set WSCRIPT_lines"
      "CHR ''%'' \<notin> set a" "CHR ''%'' \<notin> set b" for a b
  proof -
    have "line_text (fields_of name) ((replicate 8 CHR '' '' @ [CHR 0x27] @ a) @ ''%(MODULE)s'' @ (b @ [CHR 0x27] @ '','')) =
        (replicate 8 CHR '' '' @ [CHR 0x27] @ a) @ name @ (b @ [CHR 0x27] @ '','')"
      using that(2,3) by (intro source_line) (simp_all add: numeral_eq_Suc)
    then show ?thesis using that(1) by (auto intro!: image_eqI)
  qed
  have listed: "replicate 8 CHR '' '' @ [CHR 0x27] @ ''model/'' @ name @ ''.cc'' @ [CHR 0x27] @ '','' \<in> set ?ws"
    "replicate 8 CHR '' '' @ [CHR 0x27] @ ''helper/'' @ name @ ''-helper.cc'' @ [CHR 0x27] @ '','' \<in> set ?ws"
    "replicate 8 CHR '' '' @ [CHR 0x27] @ ''test/'' @ name @ ''-test-suite.cc'' @ [CHR 0x27] @ '','' \<in> set ?ws"
    "replicate 8 CHR '' '' @ [CHR 0x27] @ ''model/'' @ name @ ''.h'' @ [CHR 0x27] @ '','' \<in> set ?ws"
    "replicate 8 CHR '' '' @ [CHR 0x27] @ ''helper/'' @ name @ ''-helper.h'' @ [CHR 0x27] @ '','' \<in> set ?ws"
    by (rule line; simp add: WSCRIPT_lines_def numeral_eq_Suc)+
  have guard: "?h ! 1 = ''#ifndef __'' @ to_upper name @ ''_H__''"
    using guard_line [of name "[]"] by (simp add: MODEL_H_lines_def)
  have ident: "c_identifier (''__'' @ to_upper name @ ''_H__'') \<longleftrightarrow> list_all name_char name"
    by (simp add: c_identifier_def to_upper_def list_all_iff name_char_upper) (simp add: is_digit_def name_char_def)
  have acts: "create_module exists base [name] = (Inr 0, module_actions dir name)"
    using create_module_result [of name exists base] assms by (simp add: dir_def)
  have written: "File_Written (dir @ ''/wscript'') (text_of ?ws) \<in> set (module_actions dir name)"
    "File_Written (dir @ ''/model/'' @ name @ ''.h'') (text_of ?h) \<in> set (module_actions dir name)"
    by (simp_all add: module_actions_def Let_def)
  have files: "\<exists>t. File_Written (dir @ ''/'' @ f) t \<in> set (module_actions dir name)"
    if "f \<in> {''model/'' @ name @ ''.cc'', ''helper/'' @ name @ ''-helper.cc'', ''test/'' @ name @ ''-test-suite.cc'',
             ''model/'' @ name @ ''.h'', ''helper/'' @ name @ ''-helper.h''}" for f
    using that by (elim insertE emptyE) (simp_all add: module_actions_def Let_def)
  have sources: "replicate 8 CHR '' '' @ [CHR 0x27] @ f @ [CHR 0x27] @ '','' \<in> set ?ws"
    if "f \<in> {''model/'' @ name @ ''.cc'', ''helper/'' @ name @ ''-helper.cc'', ''test/'' @ name @ ''-test-suite.cc'',
             ''model/'' @ name @ ''.h'', ''helper/'' @ name @ ''-helper.h''}" for f
    using that listed by (elim insertE emptyE) (simp_all only: append_assoc)
  have paths: "map action_path (module_actions dir name) = map (\<lambda>p. dir @ p)
       ['''', ''/wscript'', ''/model'', ''/model/'' @ name @ ''.cc'', ''/model/'' @ name @ ''.h'', ''/test'',
        ''/test/'' @ name @ ''-test-suite.cc'', ''/helper'', ''/helper/'' @ name @ ''-helper.cc'', ''/helper/'' @ name @ ''-helper.h'',
        ''/examples'', ''/examples/wscript'', ''/examples/'' @ name @ ''-example.cc'', ''/doc'', ''/doc/'' @ name @ ''.rst'']"
    by (simp add: module_actions_def Let_def)
  have wscript: "\<exists>ls. File_Written (dir @ ''/wscript'') (text_of ls) \<in> set (module_actions dir name) \<and>
       (\<forall>f\<in>{''model/'' @ name @ ''.cc'', ''helper/'' @ name @ ''-helper.cc'', ''test/'' @ name @ ''-test-suite.cc'',
             ''model/'' @ name @ ''.h'', ''helper/'' @ name @ ''-helper.h''}.
          replicate 8 CHR '' '' @ [CHR 0x27] @ f @ [CHR 0x27] @ '','' \<in> set ls \<and> (\<exists>t. File_Written (dir @ ''/'' @ f) t \<in> set (module_actions dir name)))"
    by (intro exI [of _ ?ws] conjI ballI written sources files)
  have header: "\<exists>ls. File_Written (dir @ ''/model/'' @ name @ ''.h'') (text_of ls) \<in> set (module_actions dir name) \<and>
      ls ! 1 = ''#ifndef __'' @ to_upper name @ ''_H__''"
    by (intro exI [of _ ?h] conjI written guard)
  show ?thesis
    unfolding Let_def dir_def [symmetric] by (intro exI [of _ "module_actions dir name"] conjI acts paths wscript header ident)
qed

theorem create_module_spec_witness:
  "\<exists>acts ls. create_module (\<lambda>p. False) ''src'' [''p-q''] = (Inr 0, acts) \<and>
    File_Written ''src/p-q/model/p-q.h'' (text_of ls) \<in> set acts \<and> ls ! 1 = ''#ifndef __P-Q_H__'' \<and> \<not> c_identifier ''__P-Q_H__''"
proof -
  have dir: "path_join ''src'' ''p-q'' = ''src/p-q''" by (simp add: path_join_def starts_with_def ends_with_def)
  have up: "to_upper ''p-q'' = ''P-Q''" by (simp add: to_upper_def char_upper_def char_of_def bit_Suc_0_iff)
  have "\<not> list_all name_char ''p-q''" by (simp add: name_char_def)
  then show ?thesis
    using create_module_spec [of "''p-q''" "\<lambda>p. False" "''src''"] unfolding Let_def dir up by auto
qed

end
