(* ===== verification/Module_Scan.thy ===== *)
theory Module_Scan
  imports Topsort "HOL-Library.List_Lexorder" "HOL-Library.Char_ord"
begin

text \<open>
  \<open>src/bindings/python/ns3modulescan.py\<close>: which sections the scan of the headers writes, in what
  order, to which section a declaration goes, and how declarations are annotated before they are
  scanned.

  pygccxml's declarations are the record \<open>cpp_decl\<close>; the parser that calls the hook and the classifier
  is not modelled. The table of annotations is shared and the hook changes it, so it is passed
  along. A path search that does not end is \<open>None\<close>. The modules are the dict read from the standard
  input, from names to dependencies and headers.
\<close>

section \<open>The path of a header\<close>

definition os_path_split :: "string \<Rightarrow> string \<times> string" where
  "os_path_split p =
     (let raw = rev (dropWhile (\<lambda>c. c \<noteq> CHR ''/'') (rev p));
          tail = rev (takeWhile (\<lambda>c. c \<noteq> CHR ''/'') (rev p))
      in (if list_all (\<lambda>c. c = CHR ''/'') raw then raw else rev (dropWhile (\<lambda>c. c = CHR ''/'') (rev raw)), tail))"

definition join_all :: "string list \<Rightarrow> py_exn + string" where
  "join_all l = (case l of [] \<Rightarrow> Inl TypeError | x # xs \<Rightarrow> Inr (foldl path_join x xs))"

partial_function (option) relative_loop :: "string list \<Rightarrow> string \<Rightarrow> (py_exn + string) option" where
  "relative_loop l head =
     (if head = [] then Some (Inl AssertionError)
      else let (head', tail) = os_path_split head
           in if tail = ''ns3'' then Some (join_all l) else relative_loop (tail # l) head')"

definition get_ns3_relative_path :: "string \<Rightarrow> (py_exn + string) option" where
  "get_ns3_relative_path path = relative_loop [] path"

text \<open>
  The same search in \<open>ns3modulescan-modular.py\<close>, which looks whether the head changes and therefore
  always ends.
\<close>

lemma split_head_prefix:
  assumes "os_path_split head = (h, t)" "h \<noteq> head"
  shows "length h < length head"
proof -
  define raw where "raw = rev (dropWhile (\<lambda>c. c \<noteq> CHR ''/'') (rev head))"
  have raw: "length raw \<le> length head" "raw = head \<or> length raw < length head"
  proof -
    have "rev head = takeWhile (\<lambda>c. c \<noteq> CHR ''/'') (rev head) @ rev raw" by (simp add: raw_def)
    then have "head = raw @ rev (takeWhile (\<lambda>c. c \<noteq> CHR ''/'') (rev head))" by (metis rev_append rev_rev_ident)
    then have "\<exists>r. head = raw @ r" by blast
    then show "length raw \<le> length head" "raw = head \<or> length raw < length head" by auto
  qed
  show ?thesis
  proof (cases "list_all (\<lambda>c. c = CHR ''/'') raw")
    case True
    then show ?thesis using assms raw by (auto simp: os_path_split_def raw_def Let_def)
  next
    case False
    then have h: "h = rev (dropWhile (\<lambda>c. c = CHR ''/'') (rev raw))" using assms(1) by (simp add: os_path_split_def raw_def Let_def)
    have "rev raw = takeWhile (\<lambda>c. c = CHR ''/'') (rev raw) @ rev h" by (simp add: h)
    then have "\<exists>r. raw = h @ r" by (metis rev_append rev_rev_ident)
    then show ?thesis using raw assms(2) by auto
  qed
qed

function modular_loop :: "string list \<Rightarrow> string \<Rightarrow> py_exn + string" where
  "modular_loop l head =
     (if head = [] then Inl AssertionError
      else let (new_head, tail) = os_path_split head
           in if new_head = head then Inl ValueError
              else if tail = ''ns3'' then join_all l
              else modular_loop (tail # l) new_head)"
  by pat_completeness auto
termination
  by (relation "measure (length \<circ> snd)") (auto dest: split_head_prefix [OF sym])

declare modular_loop.simps [simp del]

definition modular_relative_path :: "string \<Rightarrow> py_exn + string" where
  "modular_relative_path path = modular_loop [] path"

section \<open>Annotations\<close>

datatype annotation = ANone | ATrue | AStr string | AParams "(string, (string, string) dict) dict"

type_synonym annotations = "(string, annotation) dict"

definition type_annotations :: "(string, annotations) dict" where
  "type_annotations =
    [(''::ns3::AttributeChecker'',
        [(''automatic_type_narrowing'', AStr ''true''), (''allow_subclassing'', AStr ''false'')]),
     (''::ns3::AttributeValue'',
        [(''automatic_type_narrowing'', AStr ''true''), (''allow_subclassing'', AStr ''false'')]),
     (''::ns3::CommandLine'',
        [(''allow_subclassing'', AStr ''true'')]),
     (''::ns3::NscTcpL4Protocol'',
        [(''ignore'', AStr ''true'')]),
     (''ns3::RandomVariable::RandomVariable(ns3::RandomVariableBase const & variable) [constructor]'',
        [(''ignore'', ANone)]),
     (''ns3::RandomVariableBase * ns3::RandomVariable::Peek() const [member function]'',
        [(''ignore'', ANone)]),
     (''void ns3::RandomVariable::GetSeed(uint32_t * seed) const [member function]'',
        [(''params'', AParams [(''seed'', [(''direction'', ''out''), (''array_length'', ''6'')])])]),
     (''bool ns3::TypeId::LookupAttributeByName(std::string name, ns3::TypeId::AttributeInformation * info) const [member function]'',
        [(''params'', AParams [(''info'', [(''transfer_ownership'', ''false'')])])]),
     (''static bool ns3::TypeId::LookupByNameFailSafe(std::string name, ns3::TypeId * tid) [member function]'',
        [(''ignore'', ANone)]),
     (''bool ns3::TraceSourceAccessor::ConnectWithoutContext(ns3::ObjectBase * obj, ns3::CallbackBase const & cb) const [member function]'',
        [(''params'', AParams [(''obj'', [(''transfer_ownership'', ''false'')])])]),
     (''bool ns3::TraceSourceAccessor::Connect(ns3::ObjectBase * obj, std::string context, ns3::CallbackBase const & cb) const [member function]'',
        [(''params'', AParams [(''obj'', [(''transfer_ownership'', ''false'')])])]),
     (''bool ns3::TraceSourceAccessor::DisconnectWithoutContext(ns3::ObjectBase * obj, ns3::CallbackBase const & cb) const [member function]'',
        [(''params'', AParams [(''obj'', [(''transfer_ownership'', ''false'')])])]),
     (''bool ns3::TraceSourceAccessor::Disconnect(ns3::ObjectBase * obj, std::string context, ns3::CallbackBase const & cb) const [member function]'',
        [(''params'', AParams [(''obj'', [(''transfer_ownership'', ''false'')])])]),
     (''bool ns3::AttributeAccessor::Set(ns3::ObjectBase * object, ns3::AttributeValue const & value) const [member function]'',
        [(''params'', AParams [(''object'', [(''transfer_ownership'', ''false'')])])]),
     (''ns3::EmpiricalVariable::EmpiricalVariable(ns3::RandomVariableBase const & variable) [constructor]'',
        [(''ignore'', ANone)]),
     (''static ns3::AttributeList * ns3::AttributeList::GetGlobal() [member function]'',
        [(''caller_owns_return'', AStr ''false'')]),
     (''void ns3::CommandLine::Parse(int argc, char * * argv) const [member function]'',
        [(''ignore'', ANone)]),
     (''extern void ns3::PythonCompleteConstruct(ns3::Ptr<ns3::Object> object, ns3::TypeId typeId, ns3::AttributeList const & attributes) [free function]'',
        [(''ignore'', ANone)]),
     (''ns3::Ptr<ns3::Ipv4RoutingProtocol> ns3::Ipv4ListRouting::GetRoutingProtocol(uint32_t index, int16_t & priority) const [member function]'',
        [(''params'', AParams [(''priority'', [(''direction'', ''out'')])])]),
     (''ns3::Ipv4RoutingTableEntry * ns3::GlobalRouter::GetInjectedRoute(uint32_t i) [member function]'',
        [(''params'', AParams [(''return'', [(''caller_owns_return'', ''false'')])])]),
     (''ns3::Ipv4RoutingTableEntry * ns3::Ipv4GlobalRouting::GetRoute(uint32_t i) const [member function]'',
        [(''params'', AParams [(''return'', [(''caller_owns_return'', ''false'')])])]),
     (''::ns3::TestCase'',
        [(''ignore'', AStr ''true'')]),
     (''::ns3::TestRunner'',
        [(''ignore'', AStr ''true'')]),
     (''::ns3::TestSuite'',
        [(''ignore'', AStr ''true'')])]"

datatype decl_kind = ClassT | EnumerationT | FreeFunctionT | MemberFunctionT | ConstructorT | OtherT

record cpp_decl =
  d_kind :: decl_kind
  d_file :: string
  d_name :: string
  d_str :: string
  d_parent :: string
  d_template_args :: "string list"
  d_decl_string :: string
  d_defaults :: "string option list"

definition is_calldef :: "cpp_decl \<Rightarrow> bool" where
  "is_calldef d = (d_kind d \<in> {FreeFunctionT, MemberFunctionT, ConstructorT})"

definition fix_default :: "string option \<Rightarrow> string option" where
  "fix_default v =
     (case v of None \<Rightarrow> None
      | Some s \<Rightarrow> Some (let s = (if s = ''ns3::MilliSeconds( )'' then ''ns3::MilliSeconds(0)'' else s)
                        in if s = ''ns3::Seconds( )'' then ''ns3::Seconds(0)'' else s))"

text \<open>What the hook works on: the shared table, the declaration, and the two dicts it fills.\<close>

record hook_state =
  h_table :: "(string, annotations) dict"
  h_decl :: cpp_decl
  h_global :: annotations
  h_params :: "(string, (string, string) dict) dict"

definition annotate :: "string \<Rightarrow> annotation \<Rightarrow> hook_state \<Rightarrow> hook_state" where
  "annotate k v st = st\<lparr>h_global := dict_set (h_global st) k v\<rparr>"

definition member_hooks :: "hook_state \<Rightarrow> hook_state" where
  "member_hooks st =
     (let d = h_decl st; member = (d_kind d = MemberFunctionT);
          st = (if member \<and> d_parent d = ''Object'' \<and> d_name d = ''GetObject'' \<and> d_template_args d = [''ns3::Object'']
                then annotate ''template_instance_names'' (AStr ''ns3::Object=>GetObject'') st else st);
          st = (if member \<and> d_parent d = ''Simulator'' \<and> starts_with (d_name d) ''Schedule''
                then annotate ''ignore'' ANone st else st)
      in if member \<and> d_parent d = ''Simulator'' \<and> d_name d = ''Run'' then annotate ''ignore'' ATrue st else st)"

definition fix_defaults :: "hook_state \<Rightarrow> hook_state" where
  "fix_defaults st =
     (if is_calldef (h_decl st) then st\<lparr>h_decl := (h_decl st)\<lparr>d_defaults := map fix_default (d_defaults (h_decl st))\<rparr>\<rparr> else st)"

text \<open>The customisation of classes; the flag says that the hook returns at once.\<close>

definition class_hook :: "hook_state \<Rightarrow> hook_state \<times> bool" where
  "class_hook st =
     (let s = d_decl_string (h_decl st)
      in if starts_with s ''::ns3::SimpleRefCount<''
         then (annotate ''automatic_type_narrowing'' (AStr ''true'') (annotate ''peekref_method'' (AStr ''GetReferenceCount'')
                (annotate ''decref_method'' (AStr ''Unref'') (annotate ''incref_method'' (AStr ''Ref'') st))), True)
         else if starts_with s ''::ns3::Callback<'' then (annotate ''ignore'' ANone st, True)
         else if starts_with s ''::ns3::TracedCallback<'' then (annotate ''ignore'' ANone st, True)
         else if starts_with s ''::ns3::Ptr<'' then (annotate ''ignore'' ANone st, True)
         else case dict_get (h_table st) s of
           None \<Rightarrow> (st, False)
         | Some as \<Rightarrow> (st\<lparr>h_global := dict_update (h_global st) as\<rparr>, False))"

definition table_hook :: "hook_state \<Rightarrow> hook_state" where
  "table_hook st =
     (let k = d_str (h_decl st)
      in case dict_get (h_table st) k of
           None \<Rightarrow> st
         | Some as \<Rightarrow>
             let st = (case dict_get as ''params'' of
                   Some (AParams ps) \<Rightarrow> st\<lparr>h_params := dict_update (h_params st) ps, h_table := dict_set (h_table st) k (dict_del as ''params'')\<rparr>
                 | _ \<Rightarrow> st)
             in st\<lparr>h_global := dict_update (h_global st) (dict_getdefault (h_table st) k [])\<rparr>)"

definition pre_scan_body :: "string \<Rightarrow> hook_state \<Rightarrow> hook_state" where
  "pre_scan_body ns3_header st =
     (let st = annotate ''pygen_comment'' (AStr (ns3_header @ '': '' @ d_str (h_decl st))) st;
          st = fix_defaults (member_hooks st);
          (st, return) = (if d_kind (h_decl st) = ClassT then class_hook st else (st, False))
      in if return then st
         else if d_kind (h_decl st) = FreeFunctionT \<and> d_name (h_decl st) = ''PeekPointer'' then annotate ''ignore'' ANone st
         else if is_calldef (h_decl st) then table_hook st
         else st)"

definition pre_scan_hook :: "hook_state \<Rightarrow> (py_exn + hook_state) option" where
  "pre_scan_hook st =
     (case get_ns3_relative_path (d_file (h_decl st)) of
        None \<Rightarrow> None
      | Some r \<Rightarrow> Some (py_bind r (\<lambda>ns3_header. Inr (pre_scan_body ns3_header st))))"

section \<open>Sections\<close>

type_synonym module_dict = "(string, string list \<times> string list) dict"

datatype scan_error = SortError "string top_exn" | ScanError py_exn

definition module_graph :: "module_dict \<Rightarrow> (string \<times> string) list" where
  "module_graph modules =
     concat (map (\<lambda>name. map (\<lambda>dep. (dep, name)) (sort (fst (the (dict_get modules name))))) (sort (dict_keys modules)))"

definition section_name :: "string \<Rightarrow> string" where
  "section_name m = ''ns3_module_'' @ map (\<lambda>c. if c = CHR ''-'' then CHR ''_'' else c) m"

record scan_sections =
  s_sections :: "string list"
  s_headers :: "(string, string) dict"
  s_precedences :: "(string, int) dict"

definition add_section :: "module_dict \<Rightarrow> int \<times> string \<Rightarrow> scan_sections \<Rightarrow> scan_error + scan_sections" where
  "add_section modules pm st =
     (case pm of (prec, m) \<Rightarrow>
        (case dict_get modules m of
           None \<Rightarrow> Inl (ScanError KeyError)
         | Some (deps, headers) \<Rightarrow>
             Inr \<lparr>s_sections = s_sections st @ [section_name m],
                  s_headers = foldl (\<lambda>hm h. dict_set hm h (section_name m)) (s_headers st) headers,
                  s_precedences = dict_set (s_precedences st) (section_name m) prec\<rparr>))"

definition module_sections :: "(string list \<Rightarrow> string list) \<Rightarrow> module_dict \<Rightarrow> scan_error + scan_sections" where
  "module_sections ho modules =
     (case topsort ho (module_graph modules) of
        Inl e \<Rightarrow> Inl (SortError e)
      | Inr ms \<Rightarrow> py_fold (add_section modules) (zip (map int [0..<length ms]) ms)
          \<lparr>s_sections = [''__main__''], s_headers = [], s_precedences = []\<rparr>)"

definition classify :: "scan_sections \<Rightarrow> string \<Rightarrow> string" where
  "classify st file_name =
     (case dict_get (s_headers st) (snd (os_path_split file_name)) of Some s \<Rightarrow> s | None \<Rightarrow> ''__main__'')"

definition get_section_precedence :: "scan_sections \<Rightarrow> string \<Rightarrow> py_exn + int" where
  "get_section_precedence st s = (if s = ''__main__'' then Inr (- 1) else dict_lookup (s_precedences st) s)"

text \<open>The list of callback classes written beside the sections; \<open>show_list\<close> is the text of a list.\<close>

record callback_class =
  cb_name :: string
  cb_instantiation :: bool
  cb_parameters :: "string list"

definition scan_callback_classes :: "(string list \<Rightarrow> string) \<Rightarrow> callback_class list \<Rightarrow> py_exn + string list" where
  "scan_callback_classes show_list classes =
     py_bind (py_fold (\<lambda>cls out.
         if \<not> starts_with (cb_name cls) ''Callback<'' then Inr out
         else if \<not> cb_instantiation cls then Inl AssertionError
         else Inr (out @ [''    '' @ show_list (cb_parameters cls) @ '','' @ newline])) classes [''callback_classes = ['' @ newline])
       (\<lambda>out. Inr (out @ ['']'' @ newline]))"
section \<open>Searching a path\<close>

lemma split_no_slash: "CHR ''/'' \<notin> set p \<Longrightarrow> os_path_split p = ([], p)"
proof -
  assume "CHR ''/'' \<notin> set p"
  then have "\<forall>c\<in>set (rev p). c \<noteq> CHR ''/''" by auto
  then show ?thesis unfolding os_path_split_def by (simp add: takeWhile_eq_all_conv [THEN iffD2] dropWhile_eq_Nil_conv [THEN iffD2])
qed

lemma split_slash:
  assumes "CHR ''/'' \<notin> set t"
  shows "os_path_split (x @ ''/'' @ t) =
    (if list_all (\<lambda>c. c = CHR ''/'') x then x @ ''/'' else rev (dropWhile (\<lambda>c. c = CHR ''/'') (rev x)), t)"
proof -
  have "\<forall>c\<in>set (rev t). c \<noteq> CHR ''/''" using assms by auto
  then have "dropWhile (\<lambda>c. c \<noteq> CHR ''/'') (rev t @ ''/'' @ rev x) = ''/'' @ rev x"
    "takeWhile (\<lambda>c. c \<noteq> CHR ''/'') (rev t @ ''/'' @ rev x) = rev t"
    by (simp_all add: dropWhile_append3 takeWhile_append2 takeWhile_tail)
  then show ?thesis by (simp add: os_path_split_def)
qed

lemma slash_cases:
  obtains "CHR ''/'' \<notin> set p" | x t where "p = x @ ''/'' @ t" "CHR ''/'' \<notin> set t"
  using split_list_last [of "CHR ''/''" p] by auto

lemma rstrip_split: "\<exists>k. x = rev (dropWhile (\<lambda>c. c = d) (rev x)) @ replicate k d"
proof -
  have "rev x = takeWhile (\<lambda>c. c = d) (rev x) @ dropWhile (\<lambda>c. c = d) (rev x)" by simp
  moreover have "takeWhile (\<lambda>c. c = d) (rev x) = replicate (length (takeWhile (\<lambda>c. c = d) (rev x))) d"
    by (rule replicate_eqI) (auto dest: set_takeWhileD)
  ultimately show ?thesis by (metis rev_append rev_replicate rev_rev_ident)
qed

lemma split_on_stripped: "set (split_on c (a @ replicate k c @ [c] @ b)) \<supseteq> set (split_on c a)"
  by (cases k) (simp_all add: split_on_sep)

text \<open>One step of the search: the head keeps its first character and loses parts only.\<close>

lemma split_step:
  assumes "head \<noteq> []" "os_path_split head = (h, t)"
  shows "t \<in> set (split_on (CHR ''/'') head) \<and> set (split_on (CHR ''/'') h) \<subseteq> insert [] (set (split_on (CHR ''/'') head)) \<and>
    starts_with h ''/'' = starts_with head ''/'' \<and> (\<not> starts_with head ''/'' \<longrightarrow> length h < length head)"
proof (cases rule: slash_cases [of head])
  case 1
  then have "h = []" "t = head" using assms(2) split_no_slash by auto
  then show ?thesis using 1 assms(1) by (cases head) (auto simp: split_on_no_sep starts_with_def)
next
  case (2 x u)
  note sp = assms(2) [unfolded 2(1) split_slash [OF 2(2)]]
  then have u: "u = t" by simp
  have t: "t \<in> set (split_on (CHR ''/'') head)" using 2 u by (simp add: split_on_sep split_on_no_sep)
  show ?thesis
  proof (cases "list_all (\<lambda>c. c = CHR ''/'') x")
    case True
    then have ht: "h = x @ ''/''" using sp by simp
    have "starts_with (x @ ''/'' @ r) ''/''" for r using True by (cases x) (auto simp: starts_with_def)
    then have "starts_with head ''/''" "starts_with h ''/''" using 2(1) ht by (metis append_Nil2)+
    moreover have "set (split_on (CHR ''/'') (x @ ''/'')) = {[]}" using True by (induction x) auto
    ultimately show ?thesis using t ht by simp
  next
    case False
    then obtain k where k: "x = h @ replicate k (CHR ''/'')" using sp rstrip_split [of x "CHR ''/''"] by auto
    then have head: "head = h @ replicate k (CHR ''/'') @ ''/'' @ t" using 2(1) u by simp
    have "h \<noteq> []" using False k by (auto simp: list_all_iff)
    then have "starts_with h ''/'' = starts_with head ''/''" unfolding head by (cases h) (simp_all add: starts_with_def)
    moreover have "set (split_on (CHR ''/'') h) \<subseteq> set (split_on (CHR ''/'') head)"
      unfolding head using split_on_stripped [of "CHR ''/''" h k t] by simp
    moreover have "length h < length head" unfolding head by simp
    ultimately show ?thesis using t by blast
  qed
qed

lemma relative_path_diverges:
  assumes "relative_loop l head = Some y"
  shows "\<not> (starts_with head ''/'' \<and> ''ns3'' \<notin> set (split_on (CHR ''/'') head))"
proof (rule relative_loop.raw_induct [OF _ assms, where P = "\<lambda>l head y. \<not> (starts_with head ''/'' \<and> ''ns3'' \<notin> set (split_on (CHR ''/'') head))"])
  fix loop :: "string list \<Rightarrow> string \<Rightarrow> (py_exn + string) option" and l head y
  assume IH: "\<And>l head y. loop l head = Some y \<Longrightarrow> \<not> (starts_with head ''/'' \<and> ''ns3'' \<notin> set (split_on (CHR ''/'') head))"
    and st: "(if head = [] then Some (Inl AssertionError)
      else let (head', tail) = os_path_split head in if tail = ''ns3'' then Some (join_all l) else loop (tail # l) head') = Some y"
  show "\<not> (starts_with head ''/'' \<and> ''ns3'' \<notin> set (split_on (CHR ''/'') head))"
  proof
    assume a: "starts_with head ''/'' \<and> ''ns3'' \<notin> set (split_on (CHR ''/'') head)"
    then have ne: "head \<noteq> []" by (auto simp: starts_with_def)
    obtain h t where ht: "os_path_split head = (h, t)" by (cases "os_path_split head")
    note step = split_step [OF ne ht]
    then have "t \<noteq> ''ns3''" using a by auto
    then have "loop (t # l) h = Some y" using st ne ht by simp
    then have "\<not> (starts_with h ''/'' \<and> ''ns3'' \<notin> set (split_on (CHR ''/'') h))" by (rule IH)
    then show False using step a by auto
  qed
qed

lemma relative_path_raises:
  "\<not> starts_with head ''/'' \<Longrightarrow> ''ns3'' \<notin> set (split_on (CHR ''/'') head) \<Longrightarrow> relative_loop l head = Some (Inl AssertionError)"
proof (induction "length head" arbitrary: head l rule: less_induct)
  case less
  show ?case
  proof (cases "head = []")
    case False
    obtain h t where ht: "os_path_split head = (h, t)" by (cases "os_path_split head")
    note st = split_step [OF False ht]
    then have "relative_loop (t # l) h = Some (Inl AssertionError)" using less by auto
    then show ?thesis using False ht st less.prems by (subst relative_loop.simps) auto
  qed (simp add: relative_loop.simps)
qed

definition header_part :: "string \<Rightarrow> bool" where
  "header_part c \<longleftrightarrow> c \<noteq> [] \<and> CHR ''/'' \<notin> set c \<and> c \<noteq> ''ns3''"

definition below :: "string \<Rightarrow> string list \<Rightarrow> string" where
  "below y cs = foldl (\<lambda>a c. a @ ''/'' @ c) y cs"

lemma below_snoc: "below y (cs @ [c]) = below y cs @ ''/'' @ c"
  by (simp add: below_def)

lemma below_last: "y \<noteq> [] \<Longrightarrow> List.last y \<noteq> CHR ''/'' \<Longrightarrow> list_all header_part cs \<Longrightarrow> below y cs \<noteq> [] \<and> List.last (below y cs) \<noteq> CHR ''/''"
  by (induction cs rule: rev_induct) (auto simp: below_def header_part_def last_append dest: last_in_set)

lemma relative_path_found:
  assumes "y = ''ns3'' \<or> (\<exists>z. y = z @ ''/ns3'')"
  shows "list_all header_part cs \<Longrightarrow> relative_loop l (below y cs) = Some (join_all (cs @ l))"
proof (induction cs arbitrary: l rule: rev_induct)
  case Nil
  have "snd (os_path_split y) = ''ns3''" using assms split_no_slash [of "''ns3''"] split_slash [of "''ns3''"] by auto
  then show ?case using assms by (subst relative_loop.simps) (auto simp: below_def split: prod.splits)
next
  case (snoc c cs)
  have y: "y \<noteq> [] \<and> List.last y \<noteq> CHR ''/''" using assms by auto
  let ?x = "below y cs"
  have x: "?x \<noteq> []" "List.last ?x \<noteq> CHR ''/''" using below_last [of y cs] y snoc.prems by simp_all
  obtain a z where az: "?x = a @ [z]" "z \<noteq> CHR ''/''" using x by (metis append_butlast_last_id)
  then have "\<not> list_all (\<lambda>c. c = CHR ''/'') ?x" by simp
  moreover have "dropWhile (\<lambda>c. c = CHR ''/'') (rev ?x) = rev ?x" using az by simp
  moreover have c: "CHR ''/'' \<notin> set c" "c \<noteq> ''ns3''" "list_all header_part cs"
    using snoc.prems by (simp_all add: header_part_def [of c])
  ultimately have split: "os_path_split (below y (cs @ [c])) = (?x, c)"
    unfolding below_snoc using split_slash [of c ?x] by simp
  have "below y (cs @ [c]) \<noteq> []" by (simp add: below_snoc)
  then have "relative_loop l (below y (cs @ [c])) = relative_loop (c # l) ?x"
    using split c(2) relative_loop.simps [of l "below y (cs @ [c])"] by simp
  then show ?case using snoc.IH [OF c(3)] by simp
qed

lemma join_parts: "list_all header_part (c # cs) \<Longrightarrow> join_all (c # cs) = Inr (below c cs)"
proof -
  have "foldl path_join a cs = below a cs" if "list_all header_part cs" "a \<noteq> []" "List.last a \<noteq> CHR ''/''" for a
    using that
  proof (induction cs arbitrary: a)
    case (Cons d cs)
    obtain a' z where a: "a = a' @ [z]" "z \<noteq> CHR ''/''" using Cons.prems(2,3) by (cases a rule: rev_cases) auto
    have "path_join a d = a @ ''/'' @ d"
      using Cons.prems(1) a by (cases d) (auto simp: path_join_def header_part_def starts_with_def ends_with_def)
    moreover have "a @ ''/'' @ d \<noteq> [] \<and> List.last (a @ ''/'' @ d) \<noteq> CHR ''/''"
      using Cons.prems(1) by (auto simp: header_part_def last_append dest: last_in_set)
    ultimately show ?case using Cons.IH [of "a @ ''/'' @ d"] Cons.prems(1) by (simp add: below_def)
  qed (simp add: below_def)
  moreover assume c: "list_all header_part (c # cs)"
  then have "c \<noteq> []" "List.last c \<noteq> CHR ''/''" by (metis header_part_def last_in_set list.pred_inject(2))+
  ultimately show ?thesis using c by (simp add: join_all_def)
qed
text \<open>A head that does not change is the root, written with any number of slashes.\<close>

lemma split_fixed:
  assumes "head \<noteq> []" "os_path_split head = (head, t)"
  shows "starts_with head ''/'' \<and> ''ns3'' \<notin> set (split_on (CHR ''/'') head) \<and> t \<noteq> ''ns3''"
proof (cases rule: slash_cases [of head])
  case 1
  then show ?thesis using assms split_no_slash by simp
next
  case (2 x u)
  note sp = assms(2) [unfolded 2(1) split_slash [OF 2(2)]]
  show ?thesis
  proof (cases "list_all (\<lambda>c. c = CHR ''/'') x")
    case True
    then have "u = []" "t = []" using sp by auto
    moreover have "set (split_on (CHR ''/'') (x @ ''/'')) = {[]}" using True by (induction x) auto
    ultimately show ?thesis using 2(1) True by (cases x) (auto simp: starts_with_def)
  next
    case False
    then have "rev (dropWhile (\<lambda>c. c = CHR ''/'') (rev x)) = x @ ''/'' @ u" using sp by simp
    then have "length (rev (dropWhile (\<lambda>c. c = CHR ''/'') (rev x))) = length x + 1 + length u" by simp
    moreover have "length (dropWhile (\<lambda>c. c = CHR ''/'') (rev x)) \<le> length x" by (metis length_dropWhile_le length_rev)
    ultimately show ?thesis by simp
  qed
qed

lemma searches_agree:
  "relative_loop l head = (if modular_loop l head = Inl ValueError then None else Some (modular_loop l head))"
proof (induction l head rule: modular_loop.induct)
  case (1 l head)
  show ?case
  proof (cases "head = []")
    case False
    obtain h t where ht: "os_path_split head = (h, t)" by (cases "os_path_split head")
    show ?thesis
    proof (cases "h = head")
      case True
      then have "relative_loop l head = None"
        using split_fixed [OF False ht [unfolded True]] relative_path_diverges [of l head] by (cases "relative_loop l head") auto
      then show ?thesis using False ht True by (simp add: modular_loop.simps)
    next
      case changed: False
      have "join_all l \<noteq> Inl ValueError" by (simp add: join_all_def split: list.split)
      then show ?thesis
        using 1 [OF False ht [symmetric] refl changed] False ht changed
        by (subst relative_loop.simps, subst (1 2) modular_loop.simps) simp
    qed
  qed (simp add: relative_loop.simps modular_loop.simps)
qed

text \<open>C14: A header below a directory \<open>ns3\<close> gets its path below the last such directory. A path
  without one raises \<open>AssertionError\<close> when it is relative and is searched forever when it is
  absolute, because the root is its own head. The modular script's search is the same, but ends
  with \<open>ValueError\<close> exactly where this one does not end.\<close>

theorem get_ns3_relative_path_spec:
  "(list_all header_part (c # cs) \<and> (y = ''ns3'' \<or> (\<exists>z. y = z @ ''/ns3'')) \<longrightarrow>
     get_ns3_relative_path (below y (c # cs)) = Some (Inr (below c cs))) \<and>
   (''ns3'' \<notin> set (split_on (CHR ''/'') path) \<longrightarrow>
     get_ns3_relative_path path = (if starts_with path ''/'' then None else Some (Inl AssertionError))) \<and>
   get_ns3_relative_path p =
     (if modular_relative_path p = Inl ValueError then None else Some (modular_relative_path p))"
proof (intro conjI impI)
  assume a: "list_all header_part (c # cs) \<and> (y = ''ns3'' \<or> (\<exists>z. y = z @ ''/ns3''))"
  then have "get_ns3_relative_path (below y (c # cs)) = Some (join_all (c # cs))"
    using relative_path_found [of y "c # cs" "[]"] by (simp add: get_ns3_relative_path_def)
  then show "get_ns3_relative_path (below y (c # cs)) = Some (Inr (below c cs))" using join_parts a by simp
next
  assume "''ns3'' \<notin> set (split_on (CHR ''/'') path)"
  then show "get_ns3_relative_path path = (if starts_with path ''/'' then None else Some (Inl AssertionError))"
    using relative_path_diverges [of "[]" path] relative_path_raises [of path "[]"]
    by (cases "relative_loop [] path") (auto simp: get_ns3_relative_path_def)
qed (simp add: get_ns3_relative_path_def modular_relative_path_def searches_agree)

theorem get_ns3_relative_path_spec_witness:
  "get_ns3_relative_path ''/root/build/ns3/packet.h'' = Some (Inr ''packet.h'') \<and>
   get_ns3_relative_path ''/usr/include/stdio.h'' = None \<and> get_ns3_relative_path ''stdio.h'' = Some (Inl AssertionError)"
  using get_ns3_relative_path_spec [of "''packet.h''" "[]" "''/root/build/ns3''" "''stdio.h''" "[]"]
    get_ns3_relative_path_spec [of "''packet.h''" "[]" "''/root/build/ns3''" "''/usr/include/stdio.h''" "[]"]
  by (simp add: header_part_def below_def starts_with_def append_eq_Cons_conv [of "_ @ ''/ns3''"])

section \<open>The sections of the modules\<close>

definition depends :: "module_dict \<Rightarrow> (string \<times> string) set" where
  "depends modules = {(d, m). \<exists>deps hs. dict_get modules m = Some (deps, hs) \<and> d \<in> set deps}"

lemma module_graph_depends: "set (module_graph modules) = depends modules"
  by (fastforce simp: module_graph_def depends_def set_dict_keys dom_def)

definition sections_of :: "module_dict \<Rightarrow> string list \<Rightarrow> scan_error + scan_sections" where
  "sections_of modules ms = py_fold (add_section modules) (zip (map int [0..<length ms]) ms)
     \<lparr>s_sections = [''__main__''], s_headers = [], s_precedences = []\<rparr>"

lemma py_fold_single: "py_fold f [x] = f x"
proof (rule ext)
  fix s
  show "py_fold f [x] s = f x s" by (cases "f x s") simp_all
qed

lemma sections_of_snoc:
  "sections_of modules (ms @ [m]) = py_bind (sections_of modules ms) (add_section modules (int (length ms), m))"
  by (simp add: sections_of_def py_fold_append py_fold_single del: py_fold.simps)

lemma sections_of_cases: "sections_of modules ms = Inl (ScanError KeyError) \<or> (\<exists>st. sections_of modules ms = Inr st)"
proof (induction ms rule: rev_induct)
  case (snoc m ms)
  then show ?case by (auto simp: sections_of_snoc add_section_def split: option.splits)
qed (simp add: sections_of_def)

definition headers_of :: "module_dict \<Rightarrow> string \<Rightarrow> string list" where
  "headers_of modules m = snd (the (dict_get modules m))"

lemma put_headers:
  "dict_get (foldl (\<lambda>hm h. dict_set hm h s) hm hs) h = (if h \<in> set hs then Some s else dict_get hm h)"
  by (induction hs arbitrary: hm) auto

definition last_with :: "module_dict \<Rightarrow> string list \<Rightarrow> string \<Rightarrow> string option" where
  "last_with modules ms h =
     (let xs = filter (\<lambda>m. h \<in> set (headers_of modules m)) ms in if xs = [] then None else Some (List.last xs))"

lemma last_with_snoc:
  "last_with modules (ms @ [m]) h = (if h \<in> set (headers_of modules m) then Some m else last_with modules ms h)"
  by (simp add: last_with_def Let_def)

text \<open>What the sections, the map of the headers and the precedences hold.\<close>

definition sections_ok :: "module_dict \<Rightarrow> string list \<Rightarrow> scan_sections \<Rightarrow> bool" where
  "sections_ok modules ms st \<longleftrightarrow>
     s_sections st = ''__main__'' # map section_name ms \<and>
     (\<forall>i<length ms. dict_get (s_precedences st) (section_name (ms ! i)) = Some (int i)) \<and>
     (\<forall>h. dict_get (s_headers st) h = map_option section_name (last_with modules ms h))"

lemma sections_of_ok:
  "set ms \<subseteq> dom (dict_get modules) \<Longrightarrow> distinct (map section_name ms) \<Longrightarrow> \<exists>st. sections_of modules ms = Inr st \<and> sections_ok modules ms st"
proof (induction ms rule: rev_induct)
  case Nil
  show ?case by (simp add: sections_of_def sections_ok_def last_with_def)
next
  case (snoc m ms)
  then obtain st where st: "sections_of modules ms = Inr st" "sections_ok modules ms st" by auto
  obtain deps hs where m: "dict_get modules m = Some (deps, hs)" using snoc.prems(1) by auto
  then have "headers_of modules m = hs" by (simp add: headers_of_def)
  moreover have "section_name (ms ! i) \<noteq> section_name m" if "i < length ms" for i
    using snoc.prems(2) nth_mem [OF that] by (metis distinct.simps(2) distinct_append image_eqI list.set_map map_append disjoint_iff list.set_intros(1) list.simps(9))
  ultimately show ?case
    using st m by (auto simp: sections_of_snoc add_section_def sections_ok_def put_headers last_with_snoc nth_append less_Suc_eq)
qed

lemma sections_of_missing:
  "\<not> set ms \<subseteq> dom (dict_get modules) \<Longrightarrow> sections_of modules ms = Inl (ScanError KeyError)"
proof (induction ms rule: rev_induct)
  case (snoc m ms)
  show ?case
  proof (cases "set ms \<subseteq> dom (dict_get modules)")
    case True
    then have "dict_get modules m = None" using snoc.prems by auto
    moreover have "sections_of modules ms = Inl (ScanError KeyError) \<or> (\<exists>st. sections_of modules ms = Inr st)"
      by (rule sections_of_cases)
    ultimately show ?thesis by (auto simp: sections_of_snoc add_section_def)
  next
    case False
    then show ?thesis using snoc.IH by (simp add: sections_of_snoc)
  qed
qed simp

lemma sections_classify:
  assumes "sections_ok modules ms st" "CHR ''/'' \<notin> set h"
  shows "classify st (dir @ ''/'' @ h) = (case last_with modules ms h of None \<Rightarrow> ''__main__'' | Some m \<Rightarrow> section_name m)"
proof -
  have "snd (os_path_split (dir @ ''/'' @ h)) = h" using split_slash [OF assms(2)] by simp
  then show ?thesis using assms(1) by (simp add: classify_def sections_ok_def split: option.split)
qed

lemma sections_precedence:
  assumes "sections_ok modules ms st" "i < length ms"
  shows "get_section_precedence st (section_name (ms ! i)) = Inr (int i)"
  using assms by (simp add: get_section_precedence_def sections_ok_def dict_lookup_def) (simp add: section_name_def)

lemma parents_first_index:
  assumes "parents_first ps xs" "(d, m) \<in> set ps" "m \<in> set xs"
  shows "\<exists>i j. i < j \<and> j < length xs \<and> xs ! i = d \<and> xs ! j = m"
proof -
  obtain as bs where xs: "xs = as @ m # bs" using assms(3) by (auto dest: split_list)
  then have "d \<in> set as" using assms(1,2) by (auto simp: parents_first_def)
  then obtain i where "i < length as" "as ! i = d" by (auto simp: in_set_conv_nth)
  then show ?thesis using xs by (intro exI [of _ i] exI [of _ "length as"]) (simp add: nth_append)
qed

text \<open>What the scan relies on in the sort: an order in which every pair goes upwards, unless the
  pairs are cyclic.\<close>

locale pair_sorter =
  fixes sort_pairs :: "('a list \<Rightarrow> 'a list) \<Rightarrow> ('a \<times> 'a) list \<Rightarrow> 'e + 'a list"
  assumes sorted_items: "hash_order ho \<Longrightarrow> sort_pairs ho ps = Inr xs \<Longrightarrow>
      acyclic (set ps) \<and> distinct xs \<and> set xs = fst ` set ps \<union> snd ` set ps \<and> parents_first ps xs"
    and unsorted_cyclic: "hash_order ho \<Longrightarrow> sort_pairs ho ps = Inl e \<Longrightarrow> \<not> acyclic (set ps)"
begin

lemma pair_positions:
  assumes "hash_order ho" "sort_pairs ho ps = Inr xs" "(d, m) \<in> set ps"
  shows "\<exists>i j. i < j \<and> j < length xs \<and> xs ! i = d \<and> xs ! j = m"
proof -
  have "m \<in> set xs" using sorted_items [OF assms(1,2)] assms(3) by force
  then show ?thesis using parents_first_index [of ps xs d m] sorted_items [OF assms(1,2)] assms(3) by blast
qed

lemma sorts_acyclic: "hash_order ho \<Longrightarrow> (\<exists>xs. sort_pairs ho ps = Inr xs) \<longleftrightarrow> acyclic (set ps)"
  by (cases "sort_pairs ho ps") (auto dest: sorted_items unsorted_cyclic)

end

lemma topsort_sorts:
  assumes "hash_order ho"
  shows "topsort ho ps = Inr xs \<Longrightarrow> acyclic (set ps) \<and> distinct xs \<and> set xs = fst ` set ps \<union> snd ` set ps \<and> parents_first ps xs"
    and "topsort ho ps = Inl e \<Longrightarrow> \<not> acyclic (set ps)"
  using topsort_result [OF assms, of ps] by (simp_all add: nodes_def)

interpretation ts: pair_sorter topsort
  by unfold_locales (rule topsort_sorts, assumption, assumption)+

text \<open>C40: The scan writes one section for each module that depends on another or is depended on, and
  the main section, a module's after those of all it depends on and of a higher precedence; a
  header goes to the section of the last of these modules that lists it, every other header to the
  main section, with those of the modules left out. It fails only for modules that depend on
  each other in a cycle and for a dependency that is not a module.\<close>

theorem module_sections_spec:
  assumes ho: "hash_order ho" and inj: "inj_on section_name (fst ` depends modules \<union> snd ` depends modules)"
  shows "case module_sections ho modules of
      Inr st \<Rightarrow> acyclic (depends modules) \<and> (\<exists>ms. distinct ms \<and> set ms = fst ` depends modules \<union> snd ` depends modules \<and>
        s_sections st = ''__main__'' # map section_name ms \<and>
        (\<forall>(d, m)\<in>depends modules. \<exists>i j. get_section_precedence st (section_name d) = Inr i \<and>
           get_section_precedence st (section_name m) = Inr j \<and> - 1 < i \<and> i < j) \<and>
        (\<forall>dir h. CHR ''/'' \<notin> set h \<longrightarrow> classify st (dir @ ''/'' @ h) =
           (case last_with modules ms h of None \<Rightarrow> ''__main__'' | Some m \<Rightarrow> section_name m)))
    | Inl e \<Rightarrow> (case e of SortError _ \<Rightarrow> \<not> acyclic (depends modules)
        | ScanError x \<Rightarrow> x = KeyError \<and> \<not> fst ` depends modules \<subseteq> dom (dict_get modules))"
proof (cases "topsort ho (module_graph modules)")
  case (Inl e)
  then show ?thesis using ts.unsorted_cyclic [OF ho, of "module_graph modules"]
    by (simp add: module_sections_def module_graph_depends)
next
  case (Inr ms)
  have ms: "acyclic (depends modules)" "distinct ms" "set ms = fst ` depends modules \<union> snd ` depends modules"
    using ts.sorted_items [OF ho Inr] by (simp_all add: module_graph_depends)
  have run: "module_sections ho modules = sections_of modules ms" using Inr by (simp add: module_sections_def sections_of_def)
  have kids: "snd ` depends modules \<subseteq> dom (dict_get modules)" by (auto simp: depends_def)
  show ?thesis
  proof (cases "set ms \<subseteq> dom (dict_get modules)")
    case False
    then show ?thesis using run sections_of_missing kids ms(3) by auto
  next
    case True
    moreover have "distinct (map section_name ms)" using ms(2,3) inj by (simp add: distinct_map)
    ultimately obtain st where st: "sections_of modules ms = Inr st" "sections_ok modules ms st"
      using sections_of_ok by blast
    have order: "\<forall>(d, m)\<in>depends modules. \<exists>i j. get_section_precedence st (section_name d) = Inr i \<and>
        get_section_precedence st (section_name m) = Inr j \<and> - 1 < i \<and> i < j"
    proof clarify
      fix d m
      assume dm: "(d, m) \<in> depends modules"
      then obtain i j where "i < j" "j < length ms" "ms ! i = d" "ms ! j = m"
        using ts.pair_positions [OF ho Inr, of d m] module_graph_depends by blast
      then show "\<exists>i j. get_section_precedence st (section_name d) = Inr i \<and>
          get_section_precedence st (section_name m) = Inr j \<and> - 1 < i \<and> i < j"
        using sections_precedence [OF st(2), of i] sections_precedence [OF st(2), of j] by auto
    qed
    have "s_sections st = ''__main__'' # map section_name ms" using st(2) by (simp add: sections_ok_def)
    then show ?thesis using run st(1) ms(1-3) order sections_classify [OF st(2)] by (simp add: exI [of _ ms])
  qed
qed

definition demo_modules :: module_dict where
  "demo_modules = [(''core'', [], [''object.h'']), (''network'', [''core''], [''packet.h'']), (''stats'', [], [''stats.h''])]"

theorem module_sections_spec_witness:
  "\<exists>st. module_sections id demo_modules = Inr st \<and> s_sections st = [''__main__'', ''ns3_module_core'', ''ns3_module_network''] \<and>
     dict_get (s_headers st) ''packet.h'' = Some ''ns3_module_network'' \<and> dict_get (s_headers st) ''stats.h'' = None \<and>
     acyclic (depends demo_modules)"
proof -
  have dep: "depends demo_modules = {(''core'', ''network'')}"
    by (auto simp: depends_def demo_modules_def split: if_splits)
  have run: "module_sections id demo_modules = Inr \<lparr>s_sections = [''__main__'', ''ns3_module_core'', ''ns3_module_network''],
      s_headers = [(''object.h'', ''ns3_module_core''), (''packet.h'', ''ns3_module_network'')],
      s_precedences = [(''ns3_module_core'', 0), (''ns3_module_network'', 1)]\<rparr>"
    by code_simp
  have "inj_on section_name (fst ` depends demo_modules \<union> snd ` depends demo_modules)"
    by (simp add: dep section_name_def)
  from module_sections_spec [OF hash_order_id(1) this] have "acyclic (depends demo_modules)" unfolding run by simp
  then show ?thesis using run by simp
qed

end
