(* ===== verification/Modular_Scan.thy ===== *)
theory Modular_Scan
  imports Module_Scan
begin

text \<open>
  \<open>src/bindings/python/ns3modulescan-modular.py\<close>: the scan of one module. Its hook knows which module
  a header belongs to, leaves out what is not of the simulator, and imports what another module
  defines. What it asks of a class template, whether the class is an instance and in which files
  its arguments are declared (\<open>None\<close> for an argument without a place), comes from pygccxml.
\<close>

text \<open>\<open>repr\<close> of a module's name, which has no quotes.\<close>

definition quoted :: "string \<Rightarrow> string" where
  "quoted s = [CHR 0x27] @ s @ [CHR 0x27]"

definition modular_default :: "string option \<Rightarrow> string option" where
  "modular_default v =
     (case v of None \<Rightarrow> None
      | Some s \<Rightarrow> if s = ''ns3::MilliSeconds( )'' then Some ''ns3::MilliSeconds(0)''
                 else if s = ''ns3::Seconds( )'' then Some ''ns3::Seconds(0)'' else Some s)"

definition modular_defaults :: "hook_state \<Rightarrow> hook_state" where
  "modular_defaults st =
     (if is_calldef (h_decl st) then st\<lparr>h_decl := (h_decl st)\<lparr>d_defaults := map modular_default (d_defaults (h_decl st))\<rparr>\<rparr> else st)"

definition python_module :: "string \<Rightarrow> string" where
  "python_module m = map (\<lambda>c. if c = CHR ''-'' then CHR ''_'' else c) m"

text \<open>The modules of the template arguments: arguments from outside the simulator are passed over.\<close>

fun parameter_modules :: "(string, string) dict \<Rightarrow> string option list \<Rightarrow> py_exn + string list" where
  "parameter_modules headers_map [] = Inr []"
| "parameter_modules headers_map (None # fs) = parameter_modules headers_map fs"
| "parameter_modules headers_map (Some f # fs) =
     (case modular_relative_path f of
        Inl ValueError \<Rightarrow> parameter_modules headers_map fs
      | Inl e \<Rightarrow> Inl e
      | Inr h \<Rightarrow> py_bind (dict_lookup headers_map h) (\<lambda>m.
                 py_bind (parameter_modules headers_map fs) (\<lambda>ms. Inr (m # ms))))"

definition class_module :: "(string, string) dict \<Rightarrow> string \<Rightarrow> string option list option \<Rightarrow> string \<Rightarrow> py_exn + string" where
  "class_module headers_map this args definition_module =
     (case args of
        None \<Rightarrow> Inr definition_module
      | Some fs \<Rightarrow> py_bind (parameter_modules headers_map fs) (\<lambda>ms. Inr (if this \<in> set ms then this else definition_module)))"

definition modular_body ::
  "(string, string) dict \<Rightarrow> string \<Rightarrow> string option list option \<Rightarrow> string \<Rightarrow> string \<Rightarrow> hook_state \<Rightarrow> py_exn + hook_state" where
  "modular_body headers_map this args ns3_header definition_module st =
     (let d = h_decl st;
          st = annotate ''pygen_comment'' (AStr (ns3_header @ '' (module '' @ quoted definition_module @ ''): '' @ d_str d)) st;
          st = modular_defaults (member_hooks st)
      in if d_kind d = ClassT then
           py_bind (class_module headers_map this args definition_module) (\<lambda>dm.
             Inr (fst (class_hook (if dm \<noteq> this then annotate ''import_from_module'' (AStr (''ns.'' @ python_module dm)) st else st))))
         else if d_kind d = EnumerationT then
           Inr (if definition_module \<noteq> this then annotate ''import_from_module'' (AStr (''ns.'' @ definition_module)) st else st)
         else if d_kind d = FreeFunctionT \<and> (definition_module \<noteq> this \<or> d_name d = ''PeekPointer'') then
           Inr (annotate ''ignore'' ANone st)
         else if is_calldef d then Inr (table_hook st)
         else Inr st)"

definition modular_hook ::
  "(string, string) dict \<Rightarrow> string \<Rightarrow> string option list option \<Rightarrow> hook_state \<Rightarrow> py_exn + hook_state" where
  "modular_hook headers_map this args st =
     (case modular_relative_path (d_file (h_decl st)) of
        Inl ValueError \<Rightarrow> Inr st
      | Inl e \<Rightarrow> Inl e
      | Inr ns3_header \<Rightarrow> py_bind (dict_lookup headers_map ns3_header) (\<lambda>dm. modular_body headers_map this args ns3_header dm st))"

text \<open>Which header is scanned for a module; \<open>exists\<close> tests a file.\<close>

definition scan_header :: "(string \<Rightarrow> bool) \<Rightarrow> string \<Rightarrow> string \<Rightarrow> string \<Rightarrow> string" where
  "scan_header exists top_builddir this output_file_name =
     (let own = path_join (fst (os_path_split output_file_name)) ''scan-header.h''
      in if exists own then own else path_join (path_join top_builddir ''ns3'') (this @ ''-module.h''))"

section \<open>What the hook does\<close>

lemma modular_default_same: "modular_default = fix_default"
  by (auto simp: modular_default_def fix_default_def Let_def fun_eq_iff split: option.splits)

lemma modular_defaults_same: "modular_defaults = fix_defaults"
  by (simp add: modular_defaults_def fix_defaults_def modular_default_same fun_eq_iff)

text \<open>What is not below \<open>ns3\<close> is left as it is.\<close>

lemma foreign_ignored:
  "modular_relative_path (d_file (h_decl st)) = Inl ValueError \<Longrightarrow> modular_hook headers_map this args st = Inr st"
  by (simp add: modular_hook_def)

lemma annotate_get [simp]: "dict_get (h_global (annotate k v st)) k' = (if k' = k then Some v else dict_get (h_global st) k')"
  by (simp add: annotate_def)

lemma hook_steps_decl [simp]:
  "h_decl (annotate k v st) = h_decl st" "h_decl (member_hooks st) = h_decl st"
  "d_kind (h_decl (modular_defaults st)) = d_kind (h_decl st)" "h_global (modular_defaults st) = h_global st"
  by (auto simp: annotate_def member_hooks_def modular_defaults_def Let_def)

text \<open>A function of another module is not wrapped.\<close>

lemma other_module_function:
  assumes "modular_relative_path (d_file (h_decl st)) = Inr h" "dict_get headers_map h = Some dm" "dm \<noteq> this"
    and "d_kind (h_decl st) = FreeFunctionT"
  shows "\<exists>st'. modular_hook headers_map this args st = Inr st' \<and> dict_get (h_global st') ''ignore'' = Some ANone"
  using assms by (simp add: modular_hook_def dict_lookup_def modular_body_def Let_def)

text \<open>An instance of a template belongs to the module when one of its arguments does, wherever
  the template is defined; it is then not imported.\<close>

lemma member_hooks_import: "dict_get (h_global (member_hooks st)) ''import_from_module'' = dict_get (h_global st) ''import_from_module''"
  by (auto simp: member_hooks_def Let_def)

definition no_import_entry :: "(string, annotations) dict \<Rightarrow> bool" where
  "no_import_entry tab \<longleftrightarrow> (\<forall>k as. dict_get tab k = Some as \<longrightarrow> ''import_from_module'' \<notin> fst ` set as)"

lemma class_hook_import:
  assumes "no_import_entry (h_table st)"
  shows "dict_get (h_global (fst (class_hook st))) ''import_from_module'' = dict_get (h_global st) ''import_from_module''"
proof -
  have "dict_get (dict_update (h_global st) as) ''import_from_module'' = dict_get (h_global st) ''import_from_module''"
    if "dict_get (h_table st) k = Some as" for k as
  proof -
    have "''import_from_module'' \<notin> fst ` set (rev as)" using assms that by (simp add: no_import_entry_def)
    then have "dict_get (rev as) ''import_from_module'' = None" by (simp only: map_of_eq_None_iff not_False_eq_True)
    then show ?thesis by (simp add: dict_get_update map_add_def)
  qed
  then show ?thesis by (auto simp: class_hook_def Let_def split: option.splits)
qed

lemma hook_steps_table: "h_table (annotate k v st) = h_table st" "h_table (modular_defaults st) = h_table st" "h_table (member_hooks st) = h_table st"
  by (auto simp: annotate_def member_hooks_def modular_defaults_def Let_def)

lemma template_argument_module:
  assumes "modular_relative_path (d_file (h_decl st)) = Inr h" "dict_get headers_map h = Some dm" "d_kind (h_decl st) = ClassT"
    and "parameter_modules headers_map fs = Inr ms" "this \<in> set ms" "no_import_entry (h_table st)"
  shows "\<exists>st'. modular_hook headers_map this (Some fs) st = Inr st' \<and>
    dict_get (h_global st') ''import_from_module'' = dict_get (h_global st) ''import_from_module''"
  using assms
  by (simp add: modular_hook_def dict_lookup_def modular_body_def Let_def class_module_def class_hook_import hook_steps_table
      member_hooks_import)

lemma type_annotations_no_import: "no_import_entry type_annotations"
proof -
  have "list_all (\<lambda>(k, as). ''import_from_module'' \<notin> fst ` set as) type_annotations"
    by (simp add: type_annotations_def)
  then show ?thesis by (fastforce simp: no_import_entry_def list_all_iff dest: map_of_SomeD)
qed

end
