(* ===== verification/Modulegen_Types.thy ===== *)
theory Modulegen_Types
  imports Py_Base
begin

text \<open>
  \<open>src/bindings/python/ns3modulegen_core_customizations.py\<close>: the types the generator of the Python bindings adds to
  those of pybindgen. Types are texts of C++, as in the code. What the code does to a wrapper of pybindgen is a record of
  the calls it makes: the variables it declares, the arguments it parses, the lines of C++ it writes before the call, and
  the arguments of the call. Parameters are pybindgen's own decisions: the name a declared variable gets, how a type is
  parsed, which types are known, and the text of a wrapper.
\<close>

section \<open>Smart pointers\<close>

text \<open>The regular expression: an optional name space, the template with something other than a closing bracket in it,
  and white space.\<close>

definition strip_ns3 :: "string \<Rightarrow> string" where
  "strip_ns3 name = (if starts_with name ''ns3::'' then drop 5 name else if starts_with name ''::ns3::'' then drop 7 name else name)"

definition pointer_match :: "string \<Rightarrow> string option" where
  "pointer_match name =
     (let r = strip_ns3 name;
          body = drop 4 r;
          inner = takeWhile (\<lambda>c. c \<noteq> CHR ''>'') body;
          after = dropWhile (\<lambda>c. c \<noteq> CHR ''>'') body
      in if starts_with r ''Ptr<'' \<and> inner \<noteq> [] \<and> after \<noteq> [] \<and> list_all is_space (tl after) then Some inner else None)"

definition strip_const :: "string \<Rightarrow> string \<times> bool" where
  "strip_const name1 =
     (let (name2, c) = (if starts_with name1 ''const '' then (drop 6 name1, True) else (name1, False))
      in if ends_with name2 '' const'' then (take (length name2 - 6) name2, True) else (name2, c))"

definition untransformed_type_traits :: "string \<Rightarrow> string option \<times> bool" where
  "untransformed_type_traits name =
     (case pointer_match name of
        None \<Rightarrow> (None, False)
      | Some inner \<Rightarrow>
          let (name1, is_const) = strip_const (py_strip inner);
              new_name = name1 @ '' *''
          in (Some (if starts_with new_name ''::'' then drop 2 new_name else new_name), is_const))"

definition get_untransformed_name :: "string \<Rightarrow> string option" where
  "get_untransformed_name name = fst (untransformed_type_traits name)"

datatype handler_class = Parameter_Class | Return_Class | Other_Class

record type_handler =
  th_ctype :: string
  th_keyword :: string
  th_untransformed :: string

definition create_type_handler :: "handler_class \<Rightarrow> string \<Rightarrow> py_exn + type_handler" where
  "create_type_handler cls ctype =
     py_bind (case cls of Parameter_Class \<Rightarrow> Inr ''transfer_ownership'' | Return_Class \<Rightarrow> Inr ''caller_owns_return'' | Other_Class \<Rightarrow> Inl AssertionError)
       (\<lambda>keyword. case untransformed_type_traits ctype of
          (None, _) \<Rightarrow> Inl TypeError
        | (Some orig, is_const) \<Rightarrow>
            Inr \<lparr>th_ctype = ''ns3::Ptr< '' @ slice_upto orig (- 2) @ (if is_const then '' const >'' else '' >''),
                 th_keyword = keyword, th_untransformed = orig\<rparr>)"

definition untransform :: "type_handler \<Rightarrow> string \<Rightarrow> string" where
  "untransform h expression = ''const_cast<'' @ th_untransformed h @ ''> (ns3::PeekPointer ('' @ expression @ ''))''"

definition transform :: "type_handler \<Rightarrow> string \<Rightarrow> py_exn + string" where
  "transform h expression =
     py_bind (py_index (th_untransformed h) (- 1)) (\<lambda>c.
       if c \<noteq> CHR ''*'' then Inl AssertionError
       else Inr (''ns3::Ptr< '' @ slice_upto (th_untransformed h) (- 1) @ ''> ('' @ expression @ '')''))"

section \<open>Code before a call\<close>

datatype code = Write string | Error_Check string "string option" | Cleanup string | Indent | Unindent

record wrapper =
  declared :: "(string \<times> string \<times> string option) list"
  parse_params :: "(string \<times> string list \<times> string \<times> bool) list"
  before_call :: "code list"
  call_params :: "string list"

definition empty_wrapper :: wrapper where
  "empty_wrapper = \<lparr>declared = [], parse_params = [], before_call = [], call_params = []\<rparr>"

text \<open>The name of a declared variable is one pybindgen makes from the wanted one and those in use.\<close>

definition declare_variable :: "(string list \<Rightarrow> string \<Rightarrow> string) \<Rightarrow> string \<Rightarrow> string \<Rightarrow> string option \<Rightarrow> wrapper \<Rightarrow> string \<times> wrapper" where
  "declare_variable fresh ctype name init w =
     (let v = fresh (map (\<lambda>(_, n, _). n) (declared w)) name in (v, w\<lparr>declared := declared w @ [(ctype, v, init)]\<rparr>))"

definition add_parameter :: "string \<Rightarrow> string list \<Rightarrow> string \<Rightarrow> bool \<Rightarrow> wrapper \<Rightarrow> wrapper" where
  "add_parameter fmt values name optional w = w\<lparr>parse_params := parse_params w @ [(fmt, values, name, optional)]\<rparr>"

definition emit :: "code list \<Rightarrow> wrapper \<Rightarrow> wrapper" where
  "emit cs w = w\<lparr>before_call := before_call w @ cs\<rparr>"

definition call_with :: "string list \<Rightarrow> wrapper \<Rightarrow> wrapper" where
  "call_with vs w = w\<lparr>call_params := call_params w @ vs\<rparr>"

text \<open>\<open>ArgvParam\<close>: a list of strings becomes two arguments.\<close>

definition argv_to_c :: "(string list \<Rightarrow> string \<Rightarrow> string) \<Rightarrow> string \<Rightarrow> wrapper \<Rightarrow> wrapper" where
  "argv_to_c fresh name w =
     (let (py_name, w) = declare_variable fresh ''PyObject*'' (''py_'' @ name) None w;
          (argc_var, w) = declare_variable fresh ''int'' ''argc'' None w;
          (argv, w) = declare_variable fresh ''char**'' name None w;
          (idx, w) = declare_variable fresh ''Py_ssize_t'' ''idx'' None w;
          w = add_parameter ''O!'' [''&PyList_Type'', ''&'' @ py_name] name False w;
          w = emit
            [Write (argv @ '' = (char **) malloc(sizeof(char*)*PyList_Size('' @ py_name @ ''));''),
             Cleanup (''free('' @ argv @ '');''),
             Write (newline @ ''for ('' @ idx @ '' = 0; '' @ idx @ '' < PyList_Size('' @ py_name @ ''); '' @ idx @ ''++)'' @ newline @ ''{'' @ newline),
             Indent,
             Write (newline @ ''PyObject *item = PyList_GET_ITEM('' @ py_name @ '', '' @ idx @ '');'' @ newline),
             Error_Check ''!PyString_Check(item)''
               (Some (''PyErr_SetString(PyExc_TypeError, \"argument '' @ name @ '' must be a list of strings\");'')),
             Write (argv @ ''['' @ idx @ ''] = PyString_AsString(item);''),
             Unindent,
             Write ''}'',
             Write (argc_var @ '' = PyList_Size('' @ py_name @ '');'')] w
      in call_with [argc_var, argv] w)"

section \<open>Callbacks\<close>

text \<open>A class of C++ for each list of types, the first of which is what the callback returns. \<open>parse\<close> gives the text of a
  type without its modifiers and whether it is \<open>const\<close>; \<open>known_return\<close> and \<open>known_param\<close> say which types pybindgen has.\<close>

record callback_handler =
  ch_ctype :: string
  ch_impl :: string
  ch_args :: "string list"

record callback_output =
  co_text :: string
  co_warnings :: "(string \<times> string) list"
  co_handlers :: "callback_handler list"

definition callback_name :: "string list \<Rightarrow> string" where
  "callback_name template_parameters = ''ns3::Callback< '' @ join_with '', '' template_parameters @ '' >''"

definition impl_name :: "nat \<Rightarrow> string" where
  "impl_name n = ''PythonCallbackImpl'' @ dec_digits n"

definition class_head :: "string \<Rightarrow> string list \<Rightarrow> string" where
  "class_head cls template_parameters = text_of
     [[],
      ''class '' @ cls @ '' : public ns3::CallbackImpl<'' @ join_with '', '' template_parameters @ ''>'',
      ''{'',
      ''public:'',
      ''    PyObject *m_callback;'',
      ''    '' @ cls @ ''(PyObject *callback)'',
      ''    {'',
      ''        Py_INCREF(callback);'',
      ''        m_callback = callback;'',
      ''    }'',
      ''    virtual ~'' @ cls @ ''()'',
      ''    {'',
      ''        PyGILState_STATE __py_gil_state;'',
      ''        __py_gil_state = (PyEval_ThreadsInitialized() ? PyGILState_Ensure() : (PyGILState_STATE) 0);'',
      ''        Py_DECREF(m_callback);'',
      ''        m_callback = NULL;'',
      ''        PyGILState_Release(__py_gil_state);'',
      ''    }'',
      [],
      ''    virtual bool IsEqual(ns3::Ptr<const ns3::CallbackImplBase> other_base) const'',
      ''    {'',
      ''        const '' @ cls @ '' *other = dynamic_cast<const '' @ cls @ ''*> (ns3::PeekPointer (other_base));'',
      ''        if (other != NULL)'',
      ''            return (other->m_callback == m_callback);'',
      ''        else'',
      ''            return false;'',
      ''    }'',
      [],
      []]"

definition callback_arguments :: "(string \<Rightarrow> string \<times> bool) \<Rightarrow> string list \<Rightarrow> (string \<times> (string \<times> bool) \<times> string) list" where
  "callback_arguments parse template_parameters =
     map (\<lambda>(i, t). (t, parse t, ''arg'' @ dec_digits (i + 1)))
       (List.enumerate 0 (filter (\<lambda>arg. arg \<noteq> ''ns3::empty'') (tl template_parameters)))"

definition generate_callback_class ::
  "(string \<Rightarrow> string \<times> bool) \<Rightarrow> (string \<times> bool \<Rightarrow> bool) \<Rightarrow> (string \<times> bool \<Rightarrow> bool) \<Rightarrow>
   (string \<times> bool \<Rightarrow> ((string \<times> bool) \<times> string) list \<Rightarrow> string) \<Rightarrow>
   nat \<times> string list \<Rightarrow> callback_output \<Rightarrow> py_exn + callback_output" where
  "generate_callback_class parse known_return known_param wrapper_text = (\<lambda>(n, template_parameters) out.
     py_bind (py_index template_parameters 0) (\<lambda>callback_return.
       let cls_name = callback_name template_parameters;
           arguments = callback_arguments parse template_parameters;
           unknown = filter (\<lambda>(_, p, _). \<not> known_param p) arguments
       in if \<not> known_return (parse callback_return)
          then Inr (out\<lparr>co_warnings := co_warnings out @ [(callback_return, cls_name)]\<rparr>)
          else if unknown \<noteq> []
          then Inr (out\<lparr>co_warnings := co_warnings out @ map (\<lambda>(t, _, name). (t @ '' '' @ name, cls_name)) unknown\<rparr>)
          else Inr (out\<lparr>
            co_text := co_text out @ class_head (impl_name n) template_parameters @
              wrapper_text (parse callback_return) (map snd arguments) @ ''};'' @ newline @ newline,
            co_handlers := co_handlers out @ [\<lparr>ch_ctype = cls_name, ch_impl = impl_name n, ch_args = template_parameters\<rparr>]\<rparr>)))"

definition generate_callback_classes ::
  "(string \<Rightarrow> string \<times> bool) \<Rightarrow> (string \<times> bool \<Rightarrow> bool) \<Rightarrow> (string \<times> bool \<Rightarrow> bool) \<Rightarrow>
   (string \<times> bool \<Rightarrow> ((string \<times> bool) \<times> string) list \<Rightarrow> string) \<Rightarrow> string list list \<Rightarrow> py_exn + callback_output" where
  "generate_callback_classes parse known_return known_param wrapper_text callbacks =
     py_fold (generate_callback_class parse known_return known_param wrapper_text) (List.enumerate 0 callbacks)
       \<lparr>co_text = [], co_warnings = [], co_handlers = []\<rparr>"

text \<open>The call of the Python function from the C++ class.\<close>

definition generate_python_call :: "(string list \<Rightarrow> string \<Rightarrow> string) \<Rightarrow> string list \<Rightarrow> wrapper \<Rightarrow> py_exn + wrapper" where
  "generate_python_call fresh build_params w =
     py_bind (py_index build_params 0) (\<lambda>fmt. py_bind (py_index fmt 0) (\<lambda>c.
       let build_params = (if c = CHR 0x22 then (''(char *) '' @ fmt) # tl build_params else build_params);
           (args, w) = declare_variable fresh ''PyObject*'' ''args'' None w
       in Inr (emit
         [Write (args @ '' = Py_BuildValue('' @ join_with '', '' build_params @ '');''),
          Cleanup (''Py_DECREF('' @ args @ '');''),
          Write (''py_retval = PyObject_CallObject(m_callback, '' @ args @ '');''),
          Error_Check ''py_retval == NULL'' None,
          Cleanup ''Py_DECREF(py_retval);''] w)))"

text \<open>A callback as a parameter of a wrapped function.\<close>

definition callable_check :: "string \<Rightarrow> string \<Rightarrow> code" where
  "callable_check py_callback name =
     Error_Check (''!PyCallable_Check('' @ py_callback @ '')'')
       (Some (''PyErr_SetString(PyExc_TypeError, \"parameter '' @ [CHR 0x27] @ name @ [CHR 0x27] @ '' must be callbale\");''))"

definition callback_to_c ::
  "(string list \<Rightarrow> string \<Rightarrow> string) \<Rightarrow> callback_handler \<Rightarrow> string \<Rightarrow> string option \<Rightarrow> wrapper \<Rightarrow> wrapper" where
  "callback_to_c fresh h name default_value w =
     (let args = join_with '', '' (ch_args h) in
      case default_value of
        None \<Rightarrow>
          let (py_callback, w) = declare_variable fresh ''PyObject*'' name None w;
              w = emit [callable_check py_callback name] (add_parameter ''O'' [''&'' @ py_callback] name False w);
              (callback_impl, w) = declare_variable fresh (''ns3::Ptr<'' @ ch_impl h @ ''>'') (name @ ''_cb_impl'') None w;
              w = emit [Write (callback_impl @ '' = ns3::Create<'' @ ch_impl h @ ''> ('' @ py_callback @ '');'')] w
          in call_with [''ns3::Callback<'' @ args @ ''> ('' @ callback_impl @ '')''] w
      | Some dflt \<Rightarrow>
          let (py_callback, w) = declare_variable fresh ''PyObject*'' name (Some ''NULL'') w;
              w = add_parameter ''O'' [''&'' @ py_callback] name True w;
              (val, w) = declare_variable fresh (''ns3::Callback<'' @ args @ ''>'') (name @ ''_value'') (Some dflt) w;
              w = emit
                [Write (''if ('' @ py_callback @ '') {''), Indent, callable_check py_callback name,
                 Write (val @ '' = ns3::Callback<'' @ args @ ''> (ns3::Create<'' @ ch_impl h @ ''> ('' @ py_callback @ ''));''),
                 Unindent, Write ''}''] w
          in call_with [val] w)"

section \<open>What they make\<close>

text \<open>A name of a class as the scanner writes it: no bracket closes in it and nothing is around it.\<close>

definition plain_class :: "string \<Rightarrow> bool" where
  "plain_class c \<longleftrightarrow> c \<noteq> [] \<and> CHR ''>'' \<notin> set c \<and> \<not> is_space (hd c) \<and> \<not> is_space (last c) \<and>
     \<not> starts_with c ''const '' \<and> \<not> ends_with c '' const'' \<and> \<not> starts_with (c @ '' *'') ''::'' \<and> c \<noteq> ''const''"

lemma pointer_match_body:
  assumes "p \<in> {[], ''ns3::'', ''::ns3::''}" "body \<noteq> []" "CHR ''>'' \<notin> set body"
  shows "pointer_match (p @ ''Ptr<'' @ body @ ''>'') = Some body"
proof -
  have cut: "takeWhile (\<lambda>c. c \<noteq> CHR ''>'') (body @ ''>'') = body" "dropWhile (\<lambda>c. c \<noteq> CHR ''>'') (body @ ''>'') = ''>''"
    using assms(3) by (induction body) auto
  have "strip_ns3 (p @ ''Ptr<'' @ body @ ''>'') = ''Ptr<'' @ body @ ''>''"
    using assms(1) by (auto simp: strip_ns3_def starts_with_def)
  then show ?thesis unfolding pointer_match_def Let_def using assms(2) cut by (simp add: starts_with_def)
qed

lemma py_strip_spaces: "c \<noteq> [] \<Longrightarrow> \<not> is_space (hd c) \<Longrightarrow> \<not> is_space (last c) \<Longrightarrow> py_strip ('' '' @ c @ '' '') = c"
proof -
  assume c: "c \<noteq> []" "\<not> is_space (hd c)" "\<not> is_space (last c)"
  have sp: "is_space CHR '' ''" by (simp add: is_space_def)
  have "dropWhile is_space ('' '' @ c @ '' '') = c @ '' ''" using c(1,2) sp by (cases c) auto
  moreover have "dropWhile is_space (rev (c @ '' '')) = rev c" using c(1,3) sp by (cases "rev c") (auto simp: last_rev hd_rev [symmetric])
  ultimately show ?thesis by (simp add: py_strip_def)
qed

text \<open>The three ways to write a pointer to a class.\<close>

definition pointer_forms :: "string \<Rightarrow> (string \<times> bool) list" where
  "pointer_forms c = [(c, False), (''const '' @ c, True), (c @ '' const'', True)]"

lemma strip_const_forms:
  assumes "plain_class c" "(b, is_const) \<in> set (pointer_forms c)"
  shows "strip_const b = (c, is_const)" "b \<noteq> []" "\<not> is_space (hd b)" "\<not> is_space (last b)" "CHR ''>'' \<notin> set b"
proof -
  have c: "c \<noteq> []" "CHR ''>'' \<notin> set c" "\<not> is_space (hd c)" "\<not> is_space (last c)" "\<not> starts_with c ''const ''" "\<not> ends_with c '' const''" "c \<noteq> ''const''"
    using assms(1) by (auto simp: plain_class_def)
  have "\<not> starts_with (c @ '' const'') ''const ''"
  proof
    assume s: "starts_with (c @ '' const'') ''const ''"
    show False
    proof (cases "length c \<ge> 6")
      case True
      then show False using s c(5) by (simp add: starts_with_def)
    next
      case False
      moreover have "0 < length c" using c(1) by simp
      ultimately have "length c = 1 \<or> length c = 2 \<or> length c = 3 \<or> length c = 4 \<or> length c = 5" by arith
      then obtain c1 c2 c3 c4 c5 where "c \<in> {[c1], [c1, c2], [c1, c2, c3], [c1, c2, c3, c4], [c1, c2, c3, c4, c5]}"
        by (auto simp: eval_nat_numeral length_Suc_conv)
      then show False using s c(6,7) by (auto simp: starts_with_def ends_with_def)
    qed
  qed
  note pre = this
  have pieces: "starts_with (''const '' @ c) ''const ''" "ends_with (c @ '' const'') '' const''" "drop 6 (''const '' @ c) = c"
    "take (length (c @ '' const'') - 6) (c @ '' const'') = c"
    by (simp_all add: starts_with_def ends_with_def)
  consider "b = c" "\<not> is_const" | "b = ''const '' @ c" is_const | "b = c @ '' const''" is_const
    using assms(2) by (auto simp: pointer_forms_def)
  then show "strip_const b = (c, is_const)"
  proof cases
    case 1
    then show ?thesis using c(5,6) by (simp add: strip_const_def)
  next
    case 2
    then show ?thesis unfolding strip_const_def 2(1) Let_def if_P [OF pieces(1)] pieces(3) using c(6) by simp
  next
    case 3
    then show ?thesis unfolding strip_const_def 3(1) Let_def if_not_P [OF pre] prod.case if_P [OF pieces(2)] pieces(4) by simp
  qed
  show "b \<noteq> []" "\<not> is_space (hd b)" "\<not> is_space (last b)" "CHR ''>'' \<notin> set b"
    using assms(2) c by (auto simp: pointer_forms_def is_space_def)
qed

lemma traits_forms:
  assumes "plain_class c" "(b, is_const) \<in> set (pointer_forms c)" "p \<in> {[], ''ns3::'', ''::ns3::''}"
  shows "untransformed_type_traits (p @ ''Ptr<'' @ ('' '' @ b @ '' '') @ ''>'') = (Some (c @ '' *''), is_const)"
proof -
  note b = strip_const_forms [OF assms(1,2)]
  have "pointer_match (p @ ''Ptr<'' @ ('' '' @ b @ '' '') @ ''>'') = Some ('' '' @ b @ '' '')"
    using b(5) by (intro pointer_match_body assms(3)) auto
  then show ?thesis unfolding untransformed_type_traits_def
    using py_strip_spaces [OF b(2-4)] b(1) assms(1) by (simp add: plain_class_def)
qed

text \<open>However a smart pointer to a plain class is written, with or without its name space and with \<open>const\<close> before or
  after, the type handler has one canonical type for it, which is read back as the same pointer; a type that is no smart
  pointer is refused.\<close>

theorem smart_pointer_canonical:
  assumes "plain_class c" "(b, is_const) \<in> set (pointer_forms c)" "p \<in> {[], ''ns3::'', ''::ns3::''}"
    "name = p @ ''Ptr<'' @ ('' '' @ b @ '' '') @ ''>''"
  shows "\<exists>h. create_type_handler Parameter_Class name = Inr h \<and>
    th_ctype h = ''ns3::Ptr< '' @ c @ (if is_const then '' const >'' else '' >'') \<and> th_untransformed h = c @ '' *'' \<and>
    untransformed_type_traits (th_ctype h) = untransformed_type_traits name \<and>
    transform h e = Inr (''ns3::Ptr< '' @ c @ '' > ('' @ e @ '')'')"
proof -
  have tr: "untransformed_type_traits name = (Some (c @ '' *''), is_const)" using traits_forms [OF assms(1-3)] assms(4) by simp
  have two: "slice_upto (c @ '' *'') (- 2) = c" "slice_upto (c @ '' *'') (- 1) = c @ '' ''" by (simp_all add: slice_upto_def slice_bound_def nat_add_distrib)
  have last: "py_index (c @ '' *'') (- 1) = Inr (CHR ''*'')" by (simp add: py_index_def nth_append nat_add_distrib)
  have "(c @ (if is_const then '' const'' else []), is_const) \<in> set (pointer_forms c)" by (simp add: pointer_forms_def)
  from traits_forms [OF assms(1) this, of "''ns3::''"]
  have "untransformed_type_traits (''ns3::Ptr< '' @ c @ (if is_const then '' const >'' else '' >'')) = (Some (c @ '' *''), is_const)"
    by (cases is_const) simp_all
  then show ?thesis using tr two last by (cases is_const) (simp_all add: create_type_handler_def transform_def)
qed

theorem smart_pointer_canonical_witness:
  "\<exists>h. create_type_handler Parameter_Class ''Ptr< const ns3::Packet >'' = Inr h \<and> th_ctype h = ''ns3::Ptr< ns3::Packet const >''"
  using smart_pointer_canonical [of "''ns3::Packet''" "''const ns3::Packet''" True "[]" "''Ptr< const ns3::Packet >''" "[]"]
  by (auto simp: plain_class_def pointer_forms_def is_space_def starts_with_def ends_with_def)

theorem not_a_smart_pointer: "pointer_match name = None \<Longrightarrow> create_type_handler cls name \<in> {Inl TypeError, Inl AssertionError}"
  by (cases cls) (simp_all add: create_type_handler_def untransformed_type_traits_def)

lemma smart_pointer_to_template: "pointer_match ''ns3::Ptr< ns3::Foo<int> >'' = None"
  by code_simp

text \<open>A callback can be used when all its types are known.\<close>

definition usable :: "(string \<Rightarrow> string \<times> bool) \<Rightarrow> (string \<times> bool \<Rightarrow> bool) \<Rightarrow> (string \<times> bool \<Rightarrow> bool) \<Rightarrow> string list \<Rightarrow> bool" where
  "usable parse known_return known_param ts \<longleftrightarrow> ts \<noteq> [] \<and> known_return (parse (hd ts)) \<and>
     (\<forall>t\<in>set (tl ts). t = ''ns3::empty'' \<or> known_param (parse t))"

lemma enumerate_ball: "(\<forall>(n, x)\<in>set (List.enumerate k xs). P x) \<longleftrightarrow> (\<forall>x\<in>set xs. P x)"
  by (induction xs arbitrary: k) auto

lemma callback_arguments_known:
  "filter (\<lambda>(_, q, _). \<not> known_param q) (callback_arguments parse ts) = [] \<longleftrightarrow> (\<forall>t\<in>set (tl ts). t = ''ns3::empty'' \<or> known_param (parse t))"
proof -
  have "filter (\<lambda>(_, q, _). \<not> known_param q) (callback_arguments parse ts) = [] \<longleftrightarrow>
    (\<forall>(n, t)\<in>set (List.enumerate 0 (filter (\<lambda>arg. arg \<noteq> ''ns3::empty'') (tl ts))). known_param (parse t))"
    by (simp add: callback_arguments_def filter_empty_conv case_prod_beta)
  then show ?thesis unfolding enumerate_ball by auto
qed

lemma generate_callback_class_usable:
  assumes "ts \<noteq> []"
  shows "\<exists>out'. generate_callback_class parse kr kp wt (n, ts) out = Inr out' \<and>
    co_handlers out' = co_handlers out @ (if usable parse kr kp ts then [\<lparr>ch_ctype = callback_name ts, ch_impl = impl_name n, ch_args = ts\<rparr>] else []) \<and>
    co_text out' = co_text out @ (if usable parse kr kp ts then class_head (impl_name n) ts @
      wt (parse (hd ts)) (map snd (callback_arguments parse ts)) @ ''};'' @ newline @ newline else []) \<and>
    (co_warnings out' = co_warnings out \<longleftrightarrow> usable parse kr kp ts)"
proof -
  have "py_index ts 0 = Inr (hd ts)" using assms py_index_nonneg [of 0 ts] by (simp add: hd_conv_nth)
  then show ?thesis using assms callback_arguments_known [of kp parse ts]
    by (auto simp: generate_callback_class_def usable_def Let_def)
qed

text \<open>Every callback whose types are all known gets one class and one handler, in the order of the list and under a
  number of its own, that of its place in the list; there is a warning unless all are known. A list of types that is empty
  stops the generator.\<close>

definition callback_results :: "(string \<Rightarrow> string \<times> bool) \<Rightarrow> (string \<times> bool \<Rightarrow> bool) \<Rightarrow> (string \<times> bool \<Rightarrow> bool) \<Rightarrow> (nat \<times> string list) list \<Rightarrow> callback_handler list" where
  "callback_results parse kr kp l =
     map (\<lambda>(n, ts). \<lparr>ch_ctype = callback_name ts, ch_impl = impl_name n, ch_args = ts\<rparr>) (filter (\<lambda>(_, ts). usable parse kr kp ts) l)"

lemma callback_fold:
  assumes "\<forall>(n, ts)\<in>set l. ts \<noteq> []"
  shows "\<exists>out'. py_fold (generate_callback_class parse kr kp wt) l out = Inr out' \<and>
    co_handlers out' = co_handlers out @ callback_results parse kr kp l \<and>
    length (co_warnings out') \<ge> length (co_warnings out) \<and>
    (length (co_warnings out') = length (co_warnings out) \<longleftrightarrow> (\<forall>(n, ts)\<in>set l. usable parse kr kp ts))"
  using assms
proof (induction l arbitrary: out)
  case Nil
  then show ?case by (simp add: callback_results_def)
next
  case (Cons x l)
  obtain n ts where x: "x = (n, ts)" "ts \<noteq> []" using Cons.prems by (cases x) auto
  obtain out1 where o: "generate_callback_class parse kr kp wt (n, ts) out = Inr out1"
    "co_handlers out1 = co_handlers out @ (if usable parse kr kp ts then [\<lparr>ch_ctype = callback_name ts, ch_impl = impl_name n, ch_args = ts\<rparr>] else [])"
    "co_warnings out1 = co_warnings out \<longleftrightarrow> usable parse kr kp ts"
    using generate_callback_class_usable [OF x(2), of parse kr kp wt n out] by blast
  have grow: "length (co_warnings out1) \<ge> length (co_warnings out) \<and> (length (co_warnings out1) = length (co_warnings out) \<longrightarrow> co_warnings out1 = co_warnings out)"
    using o(1) by (auto simp: generate_callback_class_def Let_def py_bind_def split: sum.splits if_splits)
  obtain out2 where o2: "py_fold (generate_callback_class parse kr kp wt) l out1 = Inr out2"
    "co_handlers out2 = co_handlers out1 @ callback_results parse kr kp l" "length (co_warnings out2) \<ge> length (co_warnings out1)"
    "length (co_warnings out2) = length (co_warnings out1) \<longleftrightarrow> (\<forall>(n, ts)\<in>set l. usable parse kr kp ts)"
    using Cons.IH [of out1] Cons.prems by auto
  have "length (co_warnings out2) = length (co_warnings out) \<longleftrightarrow> usable parse kr kp ts \<and> (\<forall>(n, ts)\<in>set l. usable parse kr kp ts)"
    using o(3) o2(3,4) grow by (metis le_antisym)
  then show ?case using o o2 x grow by (auto simp: callback_results_def)
qed

lemma impl_name_inj: "inj impl_name"
proof
  fix a b assume "impl_name a = impl_name b"
  then have "py_int (dec_digits a) = py_int (dec_digits b)" by (simp add: impl_name_def)
  then show "a = b" by (simp add: py_int_digits)
qed

theorem generate_callback_classes_spec:
  assumes "[] \<notin> set callbacks"
  shows "\<exists>out. generate_callback_classes parse kr kp wt callbacks = Inr out \<and>
    co_handlers out = callback_results parse kr kp (List.enumerate 0 callbacks) \<and>
    map ch_args (co_handlers out) = filter (usable parse kr kp) callbacks \<and> distinct (map ch_impl (co_handlers out)) \<and>
    (co_warnings out = [] \<longleftrightarrow> (\<forall>ts\<in>set callbacks. usable parse kr kp ts))"
proof -
  have args: "map ch_args (callback_results parse kr kp (List.enumerate k cs)) = filter (usable parse kr kp) cs" for k cs
    by (induction cs arbitrary: k) (auto simp: callback_results_def)
  have "map ch_impl (callback_results parse kr kp l) = map impl_name (map fst (filter (\<lambda>(_, ts). usable parse kr kp ts) l))" for l
    by (induction l) (auto simp: callback_results_def)
  moreover have "distinct (map fst (filter Q (List.enumerate 0 callbacks)))" for Q by (intro distinct_map_filter) simp
  ultimately have "distinct (map ch_impl (callback_results parse kr kp (List.enumerate 0 callbacks)))"
    using impl_name_inj by (metis (no_types, lifting) distinct_map inj_on_subset subset_UNIV)
  moreover have "\<forall>(n, ts)\<in>set (List.enumerate 0 callbacks). ts \<noteq> []" using assms by (simp only: enumerate_ball) blast
  from callback_fold [OF this, of parse kr kp wt "\<lparr>co_text = [], co_warnings = [], co_handlers = []\<rparr>"]
  obtain out where "generate_callback_classes parse kr kp wt callbacks = Inr out"
    "co_handlers out = callback_results parse kr kp (List.enumerate 0 callbacks)"
    "co_warnings out = [] \<longleftrightarrow> (\<forall>(n, ts)\<in>set (List.enumerate 0 callbacks). usable parse kr kp ts)"
    by (auto simp: generate_callback_classes_def)
  ultimately show ?thesis using args by (intro exI [of _ out]) (simp add: enumerate_ball)
qed

theorem generate_callback_classes_spec_witness:
  "\<exists>out. generate_callback_classes (\<lambda>t. (t, False)) (\<lambda>_. True) (\<lambda>p. fst p \<noteq> ''Foo'') (\<lambda>_ _. []) [[''void'', ''Foo''], [''void'', ''int'', ''ns3::empty'']] = Inr out \<and>
    map ch_args (co_handlers out) = [[''void'', ''int'', ''ns3::empty'']] \<and> map ch_impl (co_handlers out) = [''PythonCallbackImpl1''] \<and> co_warnings out \<noteq> []"
  using generate_callback_classes_spec [of "[[''void'', ''Foo''], [''void'', ''int'', ''ns3::empty'']]" "\<lambda>t. (t, False)" "\<lambda>_. True" "\<lambda>p. fst p \<noteq> ''Foo''" "\<lambda>_ _. []"]
  by (auto simp: usable_def callback_results_def impl_name_def dec_digits.simps)

text \<open>How deep the code is indented after what was written, if never to the left of where it began.\<close>

fun depth :: "nat \<Rightarrow> code list \<Rightarrow> nat option" where
  "depth d [] = Some d"
| "depth d (Indent # cs) = depth (Suc d) cs"
| "depth d (Unindent # cs) = (case d of 0 \<Rightarrow> None | Suc d \<Rightarrow> depth d cs)"
| "depth d (_ # cs) = depth d cs"

definition variables :: "wrapper \<Rightarrow> string list" where
  "variables w = map (\<lambda>(_, n, _). n) (declared w)"

lemma depth_append: "depth d (cs @ ds) = Option.bind (depth d cs) (\<lambda>e. depth e ds)"
  by (induction d cs rule: depth.induct) (auto split: nat.splits)

text \<open>When pybindgen gives every variable a name not in use, a list of strings becomes two new variables, the number
  and the array in this order, and the code is indented evenly.\<close>

theorem argv_to_c_spec:
  assumes "\<And>used n. fresh used n \<notin> set used" "distinct (variables w)" "depth 0 (before_call w) = Some 0"
  shows "distinct (variables (argv_to_c fresh name w)) \<and> depth 0 (before_call (argv_to_c fresh name w)) = Some 0 \<and>
    (\<exists>argc argv. call_params (argv_to_c fresh name w) = call_params w @ [argc, argv] \<and>
      {(''int'', argc, None), (''char**'', argv, None)} \<subseteq> set (declared (argv_to_c fresh name w)) \<and> argc \<notin> set (variables w) \<and> argv \<notin> set (variables w) \<and> argc \<noteq> argv)"
proof -
  define v1 where "v1 = fresh (variables w) (''py_'' @ name)"
  define v2 where "v2 = fresh (variables w @ [v1]) ''argc''"
  define v3 where "v3 = fresh (variables w @ [v1, v2]) name"
  define v4 where "v4 = fresh (variables w @ [v1, v2, v3]) ''idx''"
  have new: "v1 \<notin> set (variables w)" "v2 \<notin> set (variables w @ [v1])" "v3 \<notin> set (variables w @ [v1, v2])" "v4 \<notin> set (variables w @ [v1, v2, v3])"
    unfolding v1_def v2_def v3_def v4_def by (rule assms(1))+
  define w' where "w' = argv_to_c fresh name w"
  have vs: "declared w' = declared w @ [(''PyObject*'', v1, None), (''int'', v2, None), (''char**'', v3, None), (''Py_ssize_t'', v4, None)]"
    "call_params w' = call_params w @ [v2, v3]"
    by (simp_all add: w'_def argv_to_c_def declare_variable_def add_parameter_def emit_def call_with_def variables_def v1_def v2_def v3_def v4_def Let_def)
  have "depth 0 (before_call w') = Some 0"
    using assms(3) by (simp add: w'_def argv_to_c_def declare_variable_def add_parameter_def emit_def call_with_def depth_append Let_def)
  moreover have "variables w' = variables w @ [v1, v2, v3, v4]" by (simp add: variables_def vs)
  ultimately show ?thesis using new assms(2) vs unfolding w'_def [symmetric] by auto
qed

text \<open>A way to choose names: one longer than all in use.\<close>

definition longer_name :: "string list \<Rightarrow> string \<Rightarrow> string" where
  "longer_name used n = replicate (Suc (foldr (max \<circ> length) used 0)) CHR ''v''"

lemma longer_name_fresh: "longer_name used n \<notin> set used"
proof
  have len: "x \<in> set used \<Longrightarrow> length x \<le> foldr (max \<circ> length) used 0" for x :: string and used by (induction used) auto
  assume "longer_name used n \<in> set used"
  from len [OF this] show False by (simp add: longer_name_def)
qed

theorem argv_to_c_spec_witness:
  "\<exists>argc argv. call_params (argv_to_c longer_name ''argv'' empty_wrapper) = [argc, argv] \<and> argc \<noteq> argv"
  using argv_to_c_spec [of longer_name, OF longer_name_fresh, where w = empty_wrapper and name = "''argv''"] by (auto simp: empty_wrapper_def variables_def)

text \<open>A callback as a parameter: the argument of the call is the callback made from the function that was passed, or the
  declared default in which it is put if one was passed.\<close>

theorem callback_to_c_spec:
  assumes "\<And>used n. fresh used n \<notin> set used" "distinct (variables w)" "depth 0 (before_call w) = Some 0"
  shows "distinct (variables (callback_to_c fresh h name dflt w)) \<and> depth 0 (before_call (callback_to_c fresh h name dflt w)) = Some 0 \<and>
    (\<exists>v. v \<in> set (variables (callback_to_c fresh h name dflt w)) - set (variables w) \<and>
      call_params (callback_to_c fresh h name dflt w) = call_params w @
        [case dflt of None \<Rightarrow> ''ns3::Callback<'' @ join_with '', '' (ch_args h) @ ''> ('' @ v @ '')'' | Some _ \<Rightarrow> v])"
proof -
  define v1 where "v1 = fresh (variables w) name"
  define v2 where "v2 = fresh (variables w @ [v1]) (name @ (case dflt of None \<Rightarrow> ''_cb_impl'' | Some _ \<Rightarrow> ''_value''))"
  have new: "v1 \<notin> set (variables w)" "v2 \<notin> set (variables w @ [v1])" unfolding v1_def v2_def by (rule assms(1))+
  define w' where "w' = callback_to_c fresh h name dflt w"
  have "variables w' = variables w @ [v1, v2]"
    "call_params w' = call_params w @ [case dflt of None \<Rightarrow> ''ns3::Callback<'' @ join_with '', '' (ch_args h) @ ''> ('' @ v2 @ '')'' | Some _ \<Rightarrow> v2]"
    by (simp_all add: w'_def callback_to_c_def declare_variable_def add_parameter_def emit_def call_with_def variables_def v1_def v2_def Let_def split: option.split)
  moreover have "depth 0 (before_call w') = Some 0" using assms(3)
    by (simp add: w'_def callback_to_c_def declare_variable_def add_parameter_def emit_def call_with_def depth_append callable_check_def Let_def split: option.split)
  ultimately show ?thesis using new assms(2) unfolding w'_def [symmetric] by auto
qed

theorem callback_to_c_spec_witness:
  "\<exists>v. call_params (callback_to_c longer_name \<lparr>ch_ctype = [], ch_impl = ''PythonCallbackImpl0'', ch_args = [''void'']\<rparr> ''cb'' None empty_wrapper) =
     [''ns3::Callback<void> ('' @ v @ '')'']"
  using callback_to_c_spec [of longer_name, OF longer_name_fresh, where w = empty_wrapper and name = "''cb''" and dflt = None and h = "\<lparr>ch_ctype = [], ch_impl = ''PythonCallbackImpl0'', ch_args = [''void'']\<rparr>"]
  by (auto simp: empty_wrapper_def variables_def)

end
