(* ===== verification/Modulegen.thy ===== *)
theory Modulegen
  imports Modulegen_Types
begin

text \<open>
  \<open>src/bindings/python/ns3modulegen.py\<close>, which makes the Python bindings of the whole simulator, \<open>ns3modulegen-modular.py\<close>,
  which makes those of one module, the customizations of the modules (\<open>src/*/bindings/modulegen_customizations.py\<close>) and what
  \<open>ns3modulegen_core_customizations.py\<close> adds to classes. Each run has a module of pybindgen of its own, the record
  \<open>api_module\<close>: the names it can be asked for, the lists of its classes and enumerations of the simulator (those it imports from other modules
  included), and what is added to it: includes, methods, classes of other name spaces with their parents, and code for its end.
  Members of those classes and aliases of types are declared to pybindgen only, and are not in the record.
\<close>

section \<open>Classes that are left out\<close>

text \<open>A method with a wrapper written by hand: the class, the method, the wrapper and its flags; and a method whose only
  parameter is a list of strings.\<close>

datatype custom_method = Custom_Wrapper string string string "string list" | Method_Argv string string

record api_module =
  known_names :: "string list"
  api_classes :: "string list"
  api_enums :: "string list"
  api_includes :: "string list"
  api_methods :: "custom_method list"
  api_foreign :: "(string \<times> string option) list"
  api_after_init :: "string list"

definition api_lookup :: "api_module \<Rightarrow> string \<Rightarrow> py_exn + string" where
  "api_lookup m name = (if name \<in> set (known_names m) then Inr name else Inl KeyError)"

definition list_remove :: "'a \<Rightarrow> 'a list \<Rightarrow> py_exn + 'a list" where
  "list_remove x xs = (if x \<in> set xs then Inr (remove1 x xs) else Inl ValueError)"

definition remove_class :: "string \<Rightarrow> api_module \<Rightarrow> py_exn + api_module" where
  "remove_class name m =
     py_bind (api_lookup m (''ns3::'' @ name)) (\<lambda>c. py_bind (list_remove c (api_classes m)) (\<lambda>cs. Inr (m\<lparr>api_classes := cs\<rparr>)))"

definition remove_enum :: "string \<Rightarrow> api_module \<Rightarrow> py_exn + api_module" where
  "remove_enum name m =
     py_bind (api_lookup m (''ns3::'' @ name)) (\<lambda>e. py_bind (list_remove e (api_enums m)) (\<lambda>es. Inr (m\<lparr>api_enums := es\<rparr>)))"

text \<open>A class without which the module is left as it is: \<open>KeyError\<close> is caught.\<close>

definition remove_if_known :: "string \<Rightarrow> api_module \<Rightarrow> py_exn + api_module" where
  "remove_if_known name m = (case remove_class name m of Inl KeyError \<Rightarrow> Inr m | r \<Rightarrow> r)"

definition without :: "string list \<Rightarrow> string \<Rightarrow> (api_module \<Rightarrow> py_exn + api_module) \<Rightarrow> api_module \<Rightarrow> py_exn + api_module" where
  "without enabled_features feature drop_it m = (if feature \<notin> set enabled_features then drop_it m else Inr m)"

definition remove_names :: "string list \<Rightarrow> string list \<Rightarrow> api_module \<Rightarrow> py_exn + api_module" where
  "remove_names classes enums m = py_bind (py_fold remove_class classes m) (py_fold remove_enum enums)"

definition threading_classes :: "string list" where
  "threading_classes = [''SystemThread'', ''SystemMutex'', ''SystemCondition'', ''CriticalSection'',
     ''SimpleRefCount< ns3::SystemThread, ns3::empty, ns3::DefaultDeleter<ns3::SystemThread> >'']"

definition realtime_classes :: "string list" where
  "realtime_classes = [''WallClockSynchronizer'', ''RealtimeSimulatorImpl'']"

definition realtime_enum :: string where
  "realtime_enum = ''RealtimeSimulatorImpl::SynchronizationMode''"

text \<open>The generator for the whole simulator.\<close>

definition disable_classes :: "string \<Rightarrow> api_module \<Rightarrow> py_exn + api_module" where
  "disable_classes environ m =
     (let enabled = split_on (CHR '','') environ in
      py_bind (without enabled ''GtkConfigStore'' (remove_if_known ''GtkConfigStore'') m)
        (\<lambda>m. py_bind (without enabled ''SqliteDataOutput'' (remove_if_known ''SqliteDataOutput'') m)
        (\<lambda>m. py_bind (without enabled ''Threading'' (remove_names threading_classes []) m)
        (\<lambda>m. py_bind (without enabled ''EmuNetDevice'' (remove_names [''EmuNetDevice'', ''EmuHelper''] [''EmuNetDevice::EncapsulationMode'']) m)
        (\<lambda>m. py_bind (without enabled ''RealTime'' (remove_names realtime_classes [realtime_enum]) m)
        (\<lambda>m. without enabled ''TapBridge'' (remove_names [''TapBridge'', ''TapBridgeHelper'', ''TapBridgeFdReader''] [''TapBridge::Mode'']) m))))))"

text \<open>The customizations of the modules, one for each.\<close>

definition config_store_types :: "string \<Rightarrow> api_module \<Rightarrow> py_exn + api_module" where
  "config_store_types environ = without (split_on (CHR '','') environ) ''GtkConfigStore'' (remove_if_known ''GtkConfigStore'')"

definition stats_types :: "string \<Rightarrow> api_module \<Rightarrow> py_exn + api_module" where
  "stats_types environ = without (split_on (CHR '','') environ) ''SqliteDataOutput'' (remove_if_known ''SqliteDataOutput'')"

definition emu_types :: "string \<Rightarrow> api_module \<Rightarrow> py_exn + api_module" where
  "emu_types environ = without (split_on (CHR '','') environ) ''EmuNetDevice''
     (remove_names [''EmuNetDevice'', ''EmuHelper''] [''EmuNetDevice::EncapsulationMode''])"

definition tap_bridge_types :: "string \<Rightarrow> api_module \<Rightarrow> py_exn + api_module" where
  "tap_bridge_types environ = without (split_on (CHR '','') environ) ''TapBridge''
     (remove_names [''TapBridge'', ''TapBridgeHelper'', ''TapBridgeFdReader''] [''TapBridge::Mode''])"

text \<open>What the customizations of the core add: methods with wrappers written by hand, streams, and the constants for the modes of
  a file.\<close>

definition custom :: "string \<Rightarrow> bool \<Rightarrow> string \<Rightarrow> custom_method" where
  "custom cls is_static meth =
     Custom_Wrapper (''ns3::'' @ cls) meth (''_wrap_'' @ cls @ ''_'' @ meth)
       ([''METH_VARARGS'', ''METH_KEYWORDS''] @ (if is_static then [''METH_STATIC''] else []))"

definition add_methods :: "string \<Rightarrow> custom_method list \<Rightarrow> api_module \<Rightarrow> py_exn + api_module" where
  "add_methods cls ms m = py_bind (api_lookup m (''ns3::'' @ cls)) (\<lambda>_. Inr (m\<lparr>api_methods := api_methods m @ ms\<rparr>))"

definition Simulator_customizations :: "api_module \<Rightarrow> py_exn + api_module" where
  "Simulator_customizations = add_methods ''Simulator''
     (map (custom ''Simulator'' True) [''Schedule'', ''ScheduleNow'', ''ScheduleWithContext'', ''ScheduleDestroy'', ''Run''])"

text \<open>The same in the generator for the whole simulator.\<close>

definition core_Simulator_customizations :: "api_module \<Rightarrow> py_exn + api_module" where
  "core_Simulator_customizations = add_methods ''Simulator''
     (map (custom ''Simulator'' True) [''Schedule'', ''ScheduleNow'', ''ScheduleDestroy'', ''Run''])"

definition CommandLine_customizations :: "api_module \<Rightarrow> py_exn + api_module" where
  "CommandLine_customizations = add_methods ''CommandLine''
     [Method_Argv ''ns3::CommandLine'' ''Parse'', custom ''CommandLine'' False ''AddValue'']"

definition TypeId_customizations :: "api_module \<Rightarrow> py_exn + api_module" where
  "TypeId_customizations = add_methods ''TypeId'' [custom ''TypeId'' True ''LookupByNameFailSafe'']"

definition openmode_constants :: "string list" where
  "openmode_constants = map (\<lambda>flag. ''PyModule_AddIntConstant(m, (char *) \"STD_IOS_'' @ map char_upper flag @ ''\", std::ios::'' @ flag @ '');'')
     [''in'', ''out'', ''ate'', ''app'', ''trunc'', ''binary'']"

definition add_std_ofstream :: "api_module \<Rightarrow> api_module" where
  "add_std_ofstream m =
     m\<lparr>api_includes := api_includes m @ [''<fstream>''],
       api_foreign := api_foreign m @ [(''ostream'', None), (''ofstream'', Some ''ostream'')],
       api_after_init := api_after_init m @ openmode_constants\<rparr>"

definition core_types :: "string \<Rightarrow> api_module \<Rightarrow> py_exn + api_module" where
  "core_types environ m =
     py_bind (Simulator_customizations m) (\<lambda>m.
     py_bind (CommandLine_customizations m) (\<lambda>m.
     py_bind (TypeId_customizations m) (\<lambda>m.
       let m = add_std_ofstream m; enabled = split_on (CHR '','') environ in
       py_bind (without enabled ''Threading'' (remove_names threading_classes []) m) (\<lambda>m.
       py_bind (without enabled ''RealTime'' (remove_names realtime_classes [realtime_enum]) m) (\<lambda>m.
         Inr (m\<lparr>api_after_init := api_after_init m @ [''PyEval_InitThreads();'']\<rparr>))))))"

text \<open>The customizations of the other modules only add includes.\<close>

definition add_includes :: "string list \<Rightarrow> api_module \<Rightarrow> py_exn + api_module" where
  "add_includes hs m = Inr (m\<lparr>api_includes := api_includes m @ map (\<lambda>h. ''\"ns3/'' @ h @ ''\"'') hs\<rparr>)"

text \<open>\<open>post_register_types\<close> of the module, which the generator for one module runs on its own module of pybindgen.\<close>

definition post_register_types :: "string \<Rightarrow> string \<Rightarrow> api_module \<Rightarrow> py_exn + api_module" where
  "post_register_types environ mdl =
     (if mdl = ''core'' then core_types environ else if mdl = ''emu'' then emu_types environ
      else if mdl = ''tap-bridge'' then tap_bridge_types environ else if mdl = ''config-store'' then config_store_types environ
      else if mdl = ''stats'' then stats_types environ
      else if mdl = ''propagation'' then add_includes [''mobility-model.h'']
      else if mdl = ''wifi'' then add_includes [''propagation-module.h'']
      else if mdl = ''applications'' then add_includes [''network-module.h'']
      else if mdl = ''csma'' \<or> mdl = ''point-to-point'' then add_includes [''queue.h'', ''error-model.h'']
      else Inr)"

section \<open>Methods of classes\<close>

text \<open>Classes derived from \<open>ns3::Object\<close>: what is added to a helper class, and the code that makes an instance. The message
  for a class that cannot be constructed has two places to fill and one value for them.\<close>

definition helper_class_code :: "string \<Rightarrow> string \<Rightarrow> string list" where
  "helper_class_code name full_name =
     [join_with newline
       [[], ''static ns3::TypeId GetTypeId (void)'', ''{'',
        ''  static ns3::TypeId tid = ns3::TypeId (\"'' @ name @ ''\")'',
        ''    .SetParent< '' @ full_name @ '' > ()'',
        ''    ;'', ''  return tid;'', ''}''],
      ''NS_OBJECT_ENSURE_REGISTERED ('' @ name @ '');'']"

record cpp_class =
  cc_full_name :: string
  cannot_be_constructed :: string
  incomplete_type :: bool

definition instance_creation :: "cpp_class \<Rightarrow> string \<Rightarrow> string \<Rightarrow> string \<Rightarrow> py_exn + string list" where
  "instance_creation cls lvalue params construct_type_name =
     (if lvalue = [] \<or> starts_with lvalue ''None'' then Inl AssertionError
      else if cannot_be_constructed cls \<noteq> [] then Inl TypeError
      else if incomplete_type cls then Inl (Exception (cc_full_name cls @ '' cannot be constructed (incomplete type)''))
      else Inr [lvalue @ '' = new '' @ construct_type_name @ ''('' @ params @ '');'', lvalue @ ''->Ref ();''])"

definition post_instance_creation :: "string \<Rightarrow> string" where
  "post_instance_creation lvalue = ''ns3::CompleteConstruct('' @ lvalue @ '');''"

text \<open>Parameters of methods: the class for references to classes, the default value and its type.\<close>

record api_param =
  ap_class :: "string option"
  ap_default :: "string option"
  ap_default_type :: "string option"

definition fix_attribute :: "api_param \<Rightarrow> api_param" where
  "fix_attribute q =
     (if ap_class q = Some ''AttributeValue'' \<and> ap_default q \<noteq> None \<and> ap_default_type q = None
      then q\<lparr>ap_default_type := Some ''ns3::EmptyAttributeValue''\<rparr> else q)"

definition Attribute_customizations :: "api_param list list list \<Rightarrow> api_param list list list" where
  "Attribute_customizations classes = map (map (map fix_attribute)) classes"

section \<open>Errors\<close>

text \<open>Where an error is reported: at the innermost place of the file of definitions. The places of a wrapper are reversed
  where they are kept.\<close>

definition handle_error :: "string \<Rightarrow> (string \<times> nat) list \<Rightarrow> (string \<times> nat) option \<times> (string \<times> nat) list" where
  "handle_error apidefs_file stack = (let stack = rev stack in (List.find (\<lambda>l. fst l = apidefs_file) stack, stack))"

text \<open>The generator for the whole simulator reverses a copy; \<open>abs_dir\<close> is the absolute directory of a file.\<close>

definition error_location :: "(string \<Rightarrow> string) \<Rightarrow> string \<Rightarrow> (string \<times> nat) list option \<Rightarrow> string option" where
  "error_location abs_dir this_script_dir stack =
     (case stack of
        None \<Rightarrow> Some ''??:??''
      | Some places \<Rightarrow>
          map_option (\<lambda>(f, n). ''../bindings/python/'' @ basename f @ '':'' @ dec_digits n)
            (List.find (\<lambda>(f, _). starts_with (abs_dir f) this_script_dir) (rev places)))"

section \<open>Sections of the output\<close>

definition sink_name :: "string \<Rightarrow> string" where
  "sink_name m = ''ns3_module_'' @ map (\<lambda>c. if c = CHR ''-'' then CHR ''_'' else c) m"

definition dir_of :: "string \<Rightarrow> string" where
  "dir_of path =
     (let head = take (length path - length (basename path)) path
      in if list_all (\<lambda>c. c = CHR ''/'') head then head else rev (dropWhile (\<lambda>c. c = CHR ''/'') (rev head)))"

text \<open>The files that are opened, and the sink of each section: the number of the file in this list.\<close>

definition open_sections :: "string \<Rightarrow> string list \<Rightarrow> string list \<times> (string, nat) dict" where
  "open_sections main_file_name modules =
     (let files = [main_file_name, path_join (path_join (dir_of main_file_name) ''pch'') ''ns3module.h'']
      in foldl (\<lambda>(files, sinks) m. (files @ [path_join (dir_of main_file_name) (sink_name m @ ''.cc'')], dict_set sinks (sink_name m) (length files)))
           (files, [(''__main__'', 0)]) modules)"

definition section_sink :: "(string, nat) dict \<Rightarrow> string \<Rightarrow> py_exn + nat" where
  "section_sink sinks name = dict_lookup sinks name"

definition closed_files :: "(string, nat) dict \<Rightarrow> nat list" where
  "closed_files sinks = [1, 0] @ map snd sinks"

section \<open>The generator for one module\<close>

datatype gen_step =
    Import string | Module_Init | Set_Name string | Add_Include string | Std_Openmode
  | Register_Types | Custom_Types | Callback_Classes bool | Register_Methods | Custom_Methods
  | Object_Custom | Attribute_Custom | Register_Functions | Custom_Functions | Generate string

text \<open>\<open>hooks\<close> are the functions of the customizations of the module, if it has them; \<open>has_callbacks\<close> says whether it has
  a list of callbacks.\<close>

definition modulegen :: "(string list) option \<Rightarrow> bool \<Rightarrow> string list \<Rightarrow> py_exn + gen_step list" where
  "modulegen hooks has_callbacks argv =
     (case tl argv of
        [module_abs_src_path, target, extension_name, output_cc_file_name] \<Rightarrow>
          let if_hook = (\<lambda>h s. case hooks of None \<Rightarrow> [] | Some hs \<Rightarrow> if h \<in> set hs then [s] else []) in
          Inr ([Import (''modulegen__'' @ target), Module_Init, Set_Name extension_name,
                Add_Include (''\"ns3/'' @ basename module_abs_src_path @ ''-module.h\"''), Std_Openmode, Register_Types] @
               if_hook ''post_register_types'' Custom_Types @
               [Callback_Classes has_callbacks, Register_Methods] @
               if_hook ''post_register_methods'' Custom_Methods @
               [Object_Custom, Attribute_Custom, Register_Functions] @
               if_hook ''post_register_functions'' Custom_Functions @
               [Generate output_cc_file_name])
      | _ \<Rightarrow> Inl ValueError)"

section \<open>What is left out\<close>

text \<open>The features with the classes and enumerations that need them. The classes of the first two may be missing.\<close>

definition feature_table :: "(string \<times> bool \<times> string list \<times> string list) list" where
  "feature_table =
     [(''GtkConfigStore'', True, [''GtkConfigStore''], []), (''SqliteDataOutput'', True, [''SqliteDataOutput''], []),
      (''Threading'', False, threading_classes, []), (''EmuNetDevice'', False, [''EmuNetDevice'', ''EmuHelper''], [''EmuNetDevice::EncapsulationMode'']),
      (''RealTime'', False, realtime_classes, [realtime_enum]),
      (''TapBridge'', False, [''TapBridge'', ''TapBridgeHelper'', ''TapBridgeFdReader''], [''TapBridge::Mode''])]"

definition feature_step :: "string list \<Rightarrow> string \<times> bool \<times> string list \<times> string list \<Rightarrow> api_module \<Rightarrow> py_exn + api_module" where
  "feature_step enabled = (\<lambda>(f, optional, cs, es). without enabled f (if optional then py_fold remove_if_known cs else remove_names cs es))"

definition drop_names :: "string list \<Rightarrow> string list \<Rightarrow> api_module \<Rightarrow> api_module" where
  "drop_names cs es m = m\<lparr>api_classes := filter (\<lambda>c. c \<notin> (@) ''ns3::'' ` set cs) (api_classes m), api_enums := filter (\<lambda>e. e \<notin> (@) ''ns3::'' ` set es) (api_enums m)\<rparr>"

definition has_names :: "string list \<Rightarrow> string list \<Rightarrow> api_module \<Rightarrow> bool" where
  "has_names cs es m \<longleftrightarrow> distinct (api_classes m) \<and> distinct (api_enums m) \<and>
     (\<forall>c\<in>set cs. ''ns3::'' @ c \<in> set (known_names m) \<and> ''ns3::'' @ c \<in> set (api_classes m)) \<and>
     (\<forall>e\<in>set es. ''ns3::'' @ e \<in> set (known_names m) \<and> ''ns3::'' @ e \<in> set (api_enums m))"

lemma drop_names_none [simp]: "drop_names [] [] m = m"
  by (simp add: drop_names_def)

lemma drop_names_twice: "drop_names cs es (drop_names cs' es' m) = drop_names (cs' @ cs) (es' @ es) m"
  by (simp add: drop_names_def image_Un conj_commute)

lemma has_names_drop:
  "has_names cs es m \<Longrightarrow> set cs \<inter> set cs' = {} \<Longrightarrow> set es \<inter> set es' = {} \<Longrightarrow> has_names cs es (drop_names cs' es' m)"
  by (auto simp: has_names_def drop_names_def)

lemma has_names_mono: "has_names cs es m \<Longrightarrow> set cs' \<subseteq> set cs \<Longrightarrow> set es' \<subseteq> set es \<Longrightarrow> has_names cs' es' m"
  unfolding has_names_def by blast

lemma remove1_filter: "distinct xs \<Longrightarrow> remove1 x xs = filter (\<lambda>y. y \<noteq> x) xs"
  by (simp add: distinct_remove1_removeAll removeAll_filter_not_eq eq_commute [of x])

lemma remove_class_drop: "has_names [c] [] m \<Longrightarrow> remove_class c m = Inr (drop_names [c] [] m)"
  by (simp add: has_names_def remove_class_def api_lookup_def list_remove_def drop_names_def remove1_filter)

lemma remove_enum_drop: "has_names [] [e] m \<Longrightarrow> remove_enum e m = Inr (drop_names [] [e] m)"
  by (simp add: has_names_def remove_enum_def api_lookup_def list_remove_def drop_names_def remove1_filter)

lemma remove_classes_drop: "distinct cs \<Longrightarrow> has_names cs [] m \<Longrightarrow> py_fold remove_class cs m = Inr (drop_names cs [] m)"
proof (induction cs arbitrary: m)
  case (Cons c cs)
  have "has_names [c] [] m" using Cons.prems(2) by (rule has_names_mono) simp_all
  then have "remove_class c m = Inr (drop_names [c] [] m)" by (rule remove_class_drop)
  moreover have "has_names cs [] (drop_names [c] [] m)" using Cons.prems by (intro has_names_drop has_names_mono [OF Cons.prems(2)]) auto
  ultimately show ?case using Cons by (simp add: drop_names_twice)
qed simp

lemma remove_enums_drop: "distinct es \<Longrightarrow> has_names [] es m \<Longrightarrow> py_fold remove_enum es m = Inr (drop_names [] es m)"
proof (induction es arbitrary: m)
  case (Cons e es)
  have "has_names [] [e] m" using Cons.prems(2) by (rule has_names_mono) simp_all
  then have "remove_enum e m = Inr (drop_names [] [e] m)" by (rule remove_enum_drop)
  moreover have "has_names [] es (drop_names [] [e] m)" using Cons.prems by (intro has_names_drop has_names_mono [OF Cons.prems(2)]) auto
  ultimately show ?case using Cons by (simp add: drop_names_twice)
qed simp

lemma remove_names_drop:
  assumes "distinct cs" "distinct es" "has_names cs es m"
  shows "remove_names cs es m = Inr (drop_names cs es m)"
proof -
  have "has_names cs [] m" "has_names [] es (drop_names cs [] m)"
    using assms(3) by (auto intro!: has_names_drop intro: has_names_mono [OF assms(3)])
  then show ?thesis using assms(1,2) by (simp add: remove_names_def remove_classes_drop remove_enums_drop drop_names_twice)
qed

text \<open>A class the module is not asked for: neither known nor listed.\<close>

definition lacks :: "string \<Rightarrow> api_module \<Rightarrow> bool" where
  "lacks c m \<longleftrightarrow> ''ns3::'' @ c \<notin> set (known_names m) \<and> ''ns3::'' @ c \<notin> set (api_classes m)"

lemma remove_if_known_drop: "has_names [c] [] m \<or> lacks c m \<Longrightarrow> remove_if_known c m = Inr (drop_names [c] [] m)"
proof (elim disjE)
  assume c: "lacks c m"
  have "filter (\<lambda>x. x \<noteq> ''ns3::'' @ c) (api_classes m) = api_classes m" using c by (intro filter_True) (auto simp: lacks_def)
  then have "drop_names [c] [] m = m" by (simp add: drop_names_def)
  moreover have "remove_class c m = Inl KeyError" using c by (simp add: lacks_def remove_class_def api_lookup_def)
  ultimately show ?thesis by (simp add: remove_if_known_def)
qed (simp add: remove_if_known_def remove_class_drop)

text \<open>A module as a row of the table needs it.\<close>

definition row_ok :: "api_module \<Rightarrow> string \<times> bool \<times> string list \<times> string list \<Rightarrow> bool" where
  "row_ok m = (\<lambda>(f, optional, cs, es). distinct cs \<and> distinct es \<and>
     (if optional then es = [] \<and> (\<forall>c\<in>set cs. has_names [c] [] m \<or> lacks c m) else has_names cs es m))"

lemma row_ok_drop:
  assumes "row_ok m (f, optional, cs, es)" "set cs \<inter> set cs' = {}" "set es \<inter> set es' = {}"
  shows "row_ok (drop_names cs' es' m) (f, optional, cs, es)"
proof -
  have "lacks c m \<Longrightarrow> lacks c (drop_names cs' es' m)" for c by (auto simp: lacks_def drop_names_def)
  moreover have "has_names [c] [] m \<Longrightarrow> c \<in> set cs \<Longrightarrow> has_names [c] [] (drop_names cs' es' m)" for c
    using assms(2) by (intro has_names_drop) auto
  moreover have "has_names cs es m \<Longrightarrow> has_names cs es (drop_names cs' es' m)" by (rule has_names_drop) (use assms(2,3) in simp_all)
  ultimately show ?thesis using assms(1) by (auto simp: row_ok_def split: if_splits)
qed

lemma remove_known_fold:
  "distinct cs \<Longrightarrow> \<forall>c\<in>set cs. has_names [c] [] m \<or> lacks c m \<Longrightarrow> py_fold remove_if_known cs m = Inr (drop_names cs [] m)"
proof (induction cs arbitrary: m)
  case (Cons c cs)
  have "remove_if_known c m = Inr (drop_names [c] [] m)" using Cons.prems(2) by (intro remove_if_known_drop) simp
  moreover have "row_ok (drop_names [c] [] m) ([], True, cs, [])" using Cons.prems by (intro row_ok_drop) (auto simp: row_ok_def)
  then have "\<forall>d\<in>set cs. has_names [d] [] (drop_names [c] [] m) \<or> lacks d (drop_names [c] [] m)" by (simp add: row_ok_def)
  ultimately show ?case using Cons by (simp add: drop_names_twice)
qed simp

lemma feature_step_drop:
  assumes "row_ok m (f, optional, cs, es)"
  shows "feature_step enabled (f, optional, cs, es) m = Inr (if f \<in> set enabled then m else drop_names cs es m)"
  using assms by (auto simp: feature_step_def without_def row_ok_def remove_known_fold remove_names_drop split: if_splits)

definition left_out :: "string list \<Rightarrow> (string \<times> bool \<times> string list \<times> string list) list \<Rightarrow> string list \<times> string list" where
  "left_out enabled table =
     (concat (map (\<lambda>(f, _, cs, _). if f \<in> set enabled then [] else cs) table), concat (map (\<lambda>(f, _, _, es). if f \<in> set enabled then [] else es) table))"

definition apart :: "(string \<times> bool \<times> string list \<times> string list) list \<Rightarrow> bool" where
  "apart table = (\<forall>(f, o1, cs, es)\<in>set table. \<forall>(g, o2, ds, fs)\<in>set table. f = g \<or> list_all (\<lambda>c. c \<notin> set ds) cs \<and> list_all (\<lambda>e. e \<notin> set fs) es)"

lemma features_fold:
  assumes "apart table" "distinct (map fst table)" "\<forall>r\<in>set table. fst r \<in> set enabled \<or> row_ok m r"
  shows "py_fold (feature_step enabled) table m = Inr (drop_names (fst (left_out enabled table)) (snd (left_out enabled table)) m)"
  using assms
proof (induction table arbitrary: m)
  case Nil
  then show ?case by (simp add: left_out_def)
next
  case (Cons r table)
  obtain f optional cs es where r: "r = (f, optional, cs, es)" by (cases r)
  define m' where "m' = (if f \<in> set enabled then m else drop_names cs es m)"
  have "feature_step enabled r m = Inr m" if "f \<in> set enabled" using that by (simp add: r feature_step_def without_def)
  then have step: "feature_step enabled r m = Inr m'" using Cons.prems(3) by (cases "f \<in> set enabled") (simp_all add: r m'_def feature_step_drop)
  have "fst s \<in> set enabled \<or> row_ok m' s" if "s \<in> set table" for s
  proof -
    obtain g o2 ds fs where s: "s = (g, o2, ds, fs)" by (cases s)
    have "f \<noteq> g" using Cons.prems(2) that r s by (force simp: image_iff)
    then have "set ds \<inter> set cs = {} \<and> set fs \<inter> set es = {}"
      using Cons.prems(1) that r s by (fastforce simp: apart_def list_all_iff)
    moreover have "g \<in> set enabled \<or> row_ok m s" using Cons.prems(3) that s by auto
    ultimately show ?thesis using row_ok_drop s by (auto simp: m'_def)
  qed
  moreover have "apart table" using Cons.prems(1) by (auto simp: apart_def)
  ultimately have "py_fold (feature_step enabled) table m' = Inr (drop_names (fst (left_out enabled table)) (snd (left_out enabled table)) m')"
    using Cons.IH Cons.prems(2) by simp
  then show ?case using step by (simp add: r m'_def left_out_def drop_names_twice)
qed

lemma feature_table_apart: "apart feature_table" "distinct (map fst feature_table)"
  by code_simp+

lemma py_fold_one: "py_fold f [x] = f x"
  by (rule ext) (simp add: py_bind_def split: sum.splits)

lemma py_fold_two: "py_fold f (x # y # ys) = (\<lambda>s. py_bind (f x s) (py_fold f (y # ys)))"
  by (rule ext) simp

lemma disable_classes_table: "disable_classes environ = py_fold (feature_step (split_on (CHR '','') environ)) feature_table"
  by (rule ext) (simp only: disable_classes_def feature_table_def py_fold_one py_fold_two feature_step_def prod.case if_True if_False Let_def)

text \<open>The generator leaves out exactly the classes and enumerations of the features that are not enabled.\<close>

theorem disable_classes_spec:
  assumes "\<forall>r\<in>set feature_table. fst r \<in> set (split_on (CHR '','') environ) \<or> row_ok m r"
  shows "disable_classes environ m = Inr (drop_names (fst (left_out (split_on (CHR '','') environ) feature_table)) (snd (left_out (split_on (CHR '','') environ) feature_table)) m)"
  unfolding disable_classes_table by (rule features_fold [OF feature_table_apart assms])

definition demo_api :: api_module where
  "demo_api = \<lparr>known_names = [''ns3::Node'', ''ns3::GtkConfigStore''], api_classes = [''ns3::Node'', ''ns3::GtkConfigStore''], api_enums = [],
     api_includes = [], api_methods = [], api_foreign = [], api_after_init = []\<rparr>"

definition demo_features :: string where
  "demo_features = ''Threading,RealTime,EmuNetDevice,TapBridge''"

lemma demo_rows: "r \<in> set feature_table \<Longrightarrow> fst r \<in> set (split_on (CHR '','') demo_features) \<or> row_ok demo_api r"
proof -
  have s: "split_on (CHR '','') demo_features = [''Threading'', ''RealTime'', ''EmuNetDevice'', ''TapBridge'']" by code_simp
  have "row_ok demo_api (''GtkConfigStore'', True, [''GtkConfigStore''], [])" "row_ok demo_api (''SqliteDataOutput'', True, [''SqliteDataOutput''], [])"
    by (simp_all add: row_ok_def has_names_def lacks_def demo_api_def)
  then show "r \<in> set feature_table \<Longrightarrow> fst r \<in> set (split_on (CHR '','') demo_features) \<or> row_ok demo_api r"
    unfolding s feature_table_def set_simps by (elim insertE emptyE) simp_all
qed

theorem disable_classes_spec_witness:
  "\<exists>m'. disable_classes demo_features demo_api = Inr m' \<and> api_classes m' = [''ns3::Node'']"
proof -
  have "fst (left_out (split_on (CHR '','') demo_features) feature_table) = [''GtkConfigStore'', ''SqliteDataOutput'']" by code_simp
  then show ?thesis using disable_classes_spec [of demo_features demo_api] demo_rows by (simp add: drop_names_def) (simp add: demo_api_def)
qed

text \<open>The customizations of the modules, each on its own module.\<close>

definition feature_module :: "string \<Rightarrow> string" where
  "feature_module f =
     (if f = ''Threading'' \<or> f = ''RealTime'' then ''core'' else if f = ''EmuNetDevice'' then ''emu'' else if f = ''TapBridge'' then ''tap-bridge''
      else if f = ''GtkConfigStore'' then ''config-store'' else ''stats'')"

definition module_rows :: "string \<Rightarrow> (string \<times> bool \<times> string list \<times> string list) list" where
  "module_rows mdl = filter (\<lambda>r. feature_module (fst r) = mdl) feature_table"

lemma module_rows_eq:
  "module_rows ''core'' = [(''Threading'', False, threading_classes, []), (''RealTime'', False, realtime_classes, [realtime_enum])]"
  "module_rows ''emu'' = [(''EmuNetDevice'', False, [''EmuNetDevice'', ''EmuHelper''], [''EmuNetDevice::EncapsulationMode''])]"
  "module_rows ''tap-bridge'' = [(''TapBridge'', False, [''TapBridge'', ''TapBridgeHelper'', ''TapBridgeFdReader''], [''TapBridge::Mode''])]"
  "module_rows ''config-store'' = [(''GtkConfigStore'', True, [''GtkConfigStore''], [])]"
  "module_rows ''stats'' = [(''SqliteDataOutput'', True, [''SqliteDataOutput''], [])]"
  by (simp_all add: module_rows_def feature_table_def feature_module_def)

lemma other_rows: "mdl \<notin> set [''core'', ''emu'', ''tap-bridge'', ''config-store'', ''stats''] \<Longrightarrow> module_rows mdl = []"
  by (auto simp: module_rows_def feature_table_def feature_module_def)

lemma module_rows_fold:
  assumes "\<forall>r\<in>set (module_rows mdl). fst r \<in> set enabled \<or> row_ok m r"
  shows "py_fold (feature_step enabled) (module_rows mdl) m =
    Inr (drop_names (fst (left_out enabled (module_rows mdl))) (snd (left_out enabled (module_rows mdl))) m)"
proof (rule features_fold [OF _ _ assms])
  show "apart (module_rows mdl)" using feature_table_apart(1) by (auto simp: apart_def module_rows_def)
  show "distinct (map fst (module_rows mdl))" unfolding module_rows_def by (intro distinct_map_filter feature_table_apart)
qed

text \<open>The features a class or an enumeration needs, and what is left of a module.\<close>

definition class_features :: "string \<Rightarrow> string list" where
  "class_features c = map fst (filter (\<lambda>(_, _, cs, _). c \<in> set (map ((@) ''ns3::'') cs)) feature_table)"

definition enum_features :: "string \<Rightarrow> string list" where
  "enum_features e = map fst (filter (\<lambda>(_, _, _, es). e \<in> set (map ((@) ''ns3::'') es)) feature_table)"

lemma left_out_names:
  "c \<in> p ` set (fst (left_out en table)) \<longleftrightarrow> (\<exists>f\<in>set (map fst (filter (\<lambda>(_, _, cs, _). c \<in> set (map p cs)) table)). f \<notin> set en)"
  "c \<in> p ` set (snd (left_out en table)) \<longleftrightarrow> (\<exists>f\<in>set (map fst (filter (\<lambda>(_, _, _, es). c \<in> set (map p es)) table)). f \<notin> set en)"
  by (force simp: left_out_def split: if_splits)+

lemma filter_by_first: "set (map fst (filter P (filter (\<lambda>r. Q (fst r)) table))) = {f \<in> set (map fst (filter P table)). Q f}"
  by auto

lemma bex_of_filter: "(\<exists>f\<in>{f \<in> A. Q f}. R f) \<longleftrightarrow> (\<exists>f\<in>A. R f \<and> Q f)"
  by blast

lemma left_out_of_module:
  "c \<in> p ` set (fst (left_out en (module_rows mdl))) \<longleftrightarrow>
    (\<exists>f\<in>set (map fst (filter (\<lambda>(_, _, cs, _). c \<in> set (map p cs)) feature_table)). f \<notin> set en \<and> feature_module f = mdl)"
  "c \<in> p ` set (snd (left_out en (module_rows mdl))) \<longleftrightarrow>
    (\<exists>f\<in>set (map fst (filter (\<lambda>(_, _, _, es). c \<in> set (map p es)) feature_table)). f \<notin> set en \<and> feature_module f = mdl)"
  unfolding left_out_names module_rows_def filter_by_first [where Q = "\<lambda>f. feature_module f = mdl"] bex_of_filter by (rule refl)+

lemmas left_out_iff = left_out_names [where p = "(@) ''ns3::''" and table = feature_table, folded class_features_def enum_features_def]
  left_out_of_module [where p = "(@) ''ns3::''", folded class_features_def enum_features_def]

lemma class_features_one:
  assumes "apart table" "f \<in> set (map fst (filter (\<lambda>(_, _, cs, _). c \<in> set (map p cs)) table))"
    "g \<in> set (map fst (filter (\<lambda>(_, _, cs, _). c \<in> set (map p cs)) table))" "inj p"
  shows "f = g"
proof -
  have row: "\<exists>o1 cs es. (h, o1, cs, es) \<in> set table \<and> c \<in> p ` set cs"
    if "h \<in> set (map fst (filter (\<lambda>(_, _, cs, _). c \<in> set (map p cs)) table))" for h
    using that by fastforce
  obtain o1 cs es o2 ds fs where r: "(f, o1, cs, es) \<in> set table" "(g, o2, ds, fs) \<in> set table" "c \<in> p ` set cs" "c \<in> p ` set ds"
    using row [OF assms(2)] row [OF assms(3)] by blast
  then obtain a where "a \<in> set cs" "a \<in> set ds" using assms(4) by (auto dest: injD)
  then show ?thesis using assms(1) r(1,2) by (fastforce simp: apart_def list_all_iff)
qed

lemma drop_names_lists:
  "api_classes (drop_names cs es m) = filter (\<lambda>c. c \<notin> (@) ''ns3::'' ` set cs) (api_classes m)"
  "api_enums (drop_names cs es m) = filter (\<lambda>e. e \<notin> (@) ''ns3::'' ` set es) (api_enums m)"
  by (simp_all add: drop_names_def)

text \<open>What the customizations do to a module, beside what they add.\<close>

definition same_lists :: "api_module \<Rightarrow> api_module \<Rightarrow> bool" where
  "same_lists m m' \<longleftrightarrow> known_names m' = known_names m \<and> api_classes m' = api_classes m \<and> api_enums m' = api_enums m"

lemma row_ok_same: "same_lists m m' \<Longrightarrow> row_ok m' r = row_ok m r"
  by (simp add: same_lists_def row_ok_def has_names_def lacks_def)

lemma py_bind_pure: "py_bind r Inr = r" "py_bind r (\<lambda>m. Inr m) = r"
  by (cases r; simp)+

lemma core_before:
  assumes "set [''ns3::Simulator'', ''ns3::CommandLine'', ''ns3::TypeId''] \<subseteq> set (known_names m)"
  shows "\<exists>m'. same_lists m m' \<and> core_types environ m =
    py_bind (py_fold (feature_step (split_on (CHR '','') environ)) (module_rows ''core'') m')
      (\<lambda>m. Inr (m\<lparr>api_after_init := api_after_init m @ [''PyEval_InitThreads();'']\<rparr>))"
proof -
  obtain ma mb mc where ms: "Simulator_customizations m = Inr ma" "CommandLine_customizations ma = Inr mb" "TypeId_customizations mb = Inr mc"
    and same: "same_lists m mc"
    using assms by (simp add: Simulator_customizations_def CommandLine_customizations_def TypeId_customizations_def add_methods_def api_lookup_def same_lists_def)
  have "core_types environ m =
      py_bind (without (split_on (CHR '','') environ) ''Threading'' (remove_names threading_classes []) (add_std_ofstream mc)) (\<lambda>m.
      py_bind (without (split_on (CHR '','') environ) ''RealTime'' (remove_names realtime_classes [realtime_enum]) m)
        (\<lambda>m. Inr (m\<lparr>api_after_init := api_after_init m @ [''PyEval_InitThreads();'']\<rparr>)))"
    unfolding core_types_def ms py_bind_simps Let_def ..
  moreover have "\<dots> = py_bind (py_fold (feature_step (split_on (CHR '','') environ)) (module_rows ''core'') (add_std_ofstream mc))
      (\<lambda>m. Inr (m\<lparr>api_after_init := api_after_init m @ [''PyEval_InitThreads();'']\<rparr>))"
    unfolding module_rows_eq py_fold.simps feature_step_def prod.case if_False
    by (cases "without (split_on (CHR '','') environ) ''Threading'' (remove_names threading_classes []) (add_std_ofstream mc)")
      (simp_all only: py_bind_simps py_bind_pure)
  moreover have "same_lists m (add_std_ofstream mc)" using same by (simp add: add_std_ofstream_def same_lists_def)
  ultimately show ?thesis by (intro exI [of _ "add_std_ofstream mc"] conjI) (simp_all only:)
qed

lemma post_register_drops:
  assumes "mdl = ''core'' \<Longrightarrow> set [''ns3::Simulator'', ''ns3::CommandLine'', ''ns3::TypeId''] \<subseteq> set (known_names m)"
    "\<forall>r\<in>set (module_rows mdl). fst r \<in> set (split_on (CHR '','') environ) \<or> row_ok m r"
  shows "\<exists>m'. post_register_types environ mdl m = Inr m' \<and>
    same_lists (drop_names (fst (left_out (split_on (CHR '','') environ) (module_rows mdl)))
      (snd (left_out (split_on (CHR '','') environ) (module_rows mdl))) m) m'"
proof -
  let ?en = "split_on (CHR '','') environ"
  note fold = module_rows_fold [OF assms(2)]
  consider "mdl = ''core''" | "mdl \<in> set [''emu'', ''tap-bridge'', ''config-store'', ''stats'']"
    | "mdl \<notin> set [''core'', ''emu'', ''tap-bridge'', ''config-store'', ''stats'']" by auto
  then show ?thesis
  proof cases
    case 1
    obtain m1 where m1: "same_lists m m1" "core_types environ m =
        py_bind (py_fold (feature_step ?en) (module_rows ''core'') m1) (\<lambda>m. Inr (m\<lparr>api_after_init := api_after_init m @ [''PyEval_InitThreads();'']\<rparr>))"
      using core_before [OF assms(1) [OF 1]] by blast
    have "py_fold (feature_step ?en) (module_rows mdl) m1 =
        Inr (drop_names (fst (left_out ?en (module_rows mdl))) (snd (left_out ?en (module_rows mdl))) m1)"
      using assms(2) by (intro module_rows_fold) (simp add: row_ok_same [OF m1(1)])
    then show ?thesis using 1 m1 by (simp add: post_register_types_def same_lists_def drop_names_def)
  next
    case 2
    then have "post_register_types environ mdl = py_fold (feature_step ?en) (module_rows mdl)"
      unfolding set_simps by (elim insertE emptyE; simp only: module_rows_eq)
        (simp_all add: post_register_types_def py_fold_one feature_step_def emu_types_def tap_bridge_types_def config_store_types_def stats_types_def)
    then show ?thesis using fold by (simp add: same_lists_def)
  next
    case 3
    then have "module_rows mdl = []" by (rule other_rows)
    then show ?thesis using 3 by (auto simp: post_register_types_def add_includes_def left_out_def same_lists_def)
  qed
qed

text \<open>C34: The customizations of a module, which run on the module's own list of classes and of enumerations, leave out exactly
  those that need a feature that is off and is one of this module's (of \<open>core\<close>: threads and real time; of the others: their own);
  the generator for the whole simulator leaves out exactly those that need any feature that is off. So of a class in both
  lists the bindings of the module keep what the whole keeps, and they keep a class that the whole leaves out exactly when
  the class belongs to a feature of another module, as those \<open>emu\<close> and \<open>tap-bridge\<close> import from \<open>core\<close>. Both
  need the classes of the features that are off to be there, except for the two optional ones.\<close>

theorem module_types_spec:
  assumes "mdl = ''core'' \<Longrightarrow> set [''ns3::Simulator'', ''ns3::CommandLine'', ''ns3::TypeId''] \<subseteq> set (known_names m)"
    "\<forall>r\<in>set feature_table. fst r \<in> set (split_on (CHR '','') environ) \<or> (feature_module (fst r) = mdl \<longrightarrow> row_ok m r) \<and> row_ok whole r"
  shows "\<exists>m' whole'. post_register_types environ mdl m = Inr m' \<and> disable_classes environ whole = Inr whole' \<and>
    (let off = (\<lambda>f. f \<notin> set (split_on (CHR '','') environ)) in
      api_classes m' = filter (\<lambda>c. \<not> list_ex (\<lambda>f. off f \<and> feature_module f = mdl) (class_features c)) (api_classes m) \<and>
      api_enums m' = filter (\<lambda>e. \<not> list_ex (\<lambda>f. off f \<and> feature_module f = mdl) (enum_features e)) (api_enums m) \<and>
      api_classes whole' = filter (\<lambda>c. \<not> list_ex off (class_features c)) (api_classes whole) \<and>
      api_enums whole' = filter (\<lambda>e. \<not> list_ex off (enum_features e)) (api_enums whole) \<and>
      (\<forall>c\<in>set (api_classes m) \<inter> set (api_classes whole).
        (c \<in> set (api_classes whole') \<longrightarrow> c \<in> set (api_classes m')) \<and>
        (c \<in> set (api_classes m') \<and> c \<notin> set (api_classes whole') \<longleftrightarrow> list_ex (\<lambda>f. off f \<and> feature_module f \<noteq> mdl) (class_features c))))"
proof -
  let ?en = "split_on (CHR '','') environ"
  have own: "\<forall>r\<in>set (module_rows mdl). fst r \<in> set ?en \<or> row_ok m r" using assms(2) by (auto simp: module_rows_def)
  obtain m' where m': "post_register_types environ mdl m = Inr m'" "same_lists (drop_names (fst (left_out ?en (module_rows mdl)))
      (snd (left_out ?en (module_rows mdl))) m) m'"
    using post_register_drops [OF assms(1) own] by blast
  define w where "w = drop_names (fst (left_out ?en feature_table)) (snd (left_out ?en feature_table)) whole"
  have "\<forall>r\<in>set feature_table. fst r \<in> set ?en \<or> row_ok whole r" using assms(2) by blast
  then have whole: "disable_classes environ whole = Inr w" unfolding w_def by (rule disable_classes_spec)
  have lists: "api_classes m' = filter (\<lambda>c. \<not> list_ex (\<lambda>f. f \<notin> set ?en \<and> feature_module f = mdl) (class_features c)) (api_classes m)"
    "api_enums m' = filter (\<lambda>e. \<not> list_ex (\<lambda>f. f \<notin> set ?en \<and> feature_module f = mdl) (enum_features e)) (api_enums m)"
    "api_classes w = filter (\<lambda>c. \<not> list_ex (\<lambda>f. f \<notin> set ?en) (class_features c)) (api_classes whole)"
    "api_enums w = filter (\<lambda>e. \<not> list_ex (\<lambda>f. f \<notin> set ?en) (enum_features e)) (api_enums whole)"
    using m'(2) unfolding same_lists_def w_def drop_names_lists left_out_iff list_ex_iff by blast+
  have one: "f = g" if "f \<in> set (class_features c)" "g \<in> set (class_features c)" for f g c
    using that unfolding class_features_def by (rule class_features_one [OF feature_table_apart(1)]) (rule injI, simp only: same_append_eq)
  have both: "(c \<in> set (api_classes w) \<longrightarrow> c \<in> set (api_classes m')) \<and>
      (c \<in> set (api_classes m') \<and> c \<notin> set (api_classes w) \<longleftrightarrow> list_ex (\<lambda>f. f \<notin> set ?en \<and> feature_module f \<noteq> mdl) (class_features c))"
    if "c \<in> set (api_classes m) \<inter> set (api_classes whole)" for c
    using that one [of _ c] unfolding lists set_filter list_ex_iff by blast
  show ?thesis unfolding Let_def
    by (rule exI [of _ m'], rule exI [of _ w], intro conjI m'(1) whole lists ballI both)
qed

text \<open>Without threads: the bindings of \<open>emu\<close> keep the critical section they import.\<close>

definition demo_emu :: api_module where
  "demo_emu = demo_api\<lparr>known_names := [''ns3::CriticalSection''], api_classes := [''ns3::CriticalSection'']\<rparr>"

definition demo_whole :: api_module where
  "demo_whole = demo_api\<lparr>known_names := map ((@) ''ns3::'') threading_classes, api_classes := map ((@) ''ns3::'') threading_classes\<rparr>"

definition no_threads :: string where
  "no_threads = ''RealTime,EmuNetDevice,TapBridge,GtkConfigStore,SqliteDataOutput''"

theorem module_types_spec_witness:
  "\<exists>m' whole'. post_register_types no_threads ''emu'' demo_emu = Inr m' \<and> disable_classes no_threads demo_whole = Inr whole' \<and>
     api_classes m' = [''ns3::CriticalSection''] \<and> api_classes whole' = []"
proof -
  have en: "split_on (CHR '','') no_threads = [''RealTime'', ''EmuNetDevice'', ''TapBridge'', ''GtkConfigStore'', ''SqliteDataOutput'']" by code_simp
  have "row_ok demo_whole (''Threading'', False, threading_classes, [])"
    by (simp add: row_ok_def has_names_def demo_whole_def demo_api_def threading_classes_def)
  then have rows: "\<forall>r\<in>set feature_table. fst r \<in> set (split_on (CHR '','') no_threads) \<or>
      (feature_module (fst r) = ''emu'' \<longrightarrow> row_ok demo_emu r) \<and> row_ok demo_whole r"
    by (simp add: en feature_table_def feature_module_def)
  have fs: "class_features ''ns3::CriticalSection'' = [''Threading'']" "filter (\<lambda>c. class_features c = []) (map ((@) ''ns3::'') threading_classes) = []"
    "list_all (\<lambda>c. class_features c = [''Threading'']) (map ((@) ''ns3::'') threading_classes)"
    by code_simp+
  show ?thesis
    using module_types_spec [of "''emu''" demo_emu no_threads demo_whole, OF _ rows] fs
    by (auto simp: en Let_def demo_emu_def demo_whole_def feature_module_def list_all_iff)
qed

text \<open>A class that is missing is an error for all but the first two features: with a feature off whose classes the scan did
  not find the generator stops.\<close>

lemma missing_class_stops:
  assumes "set [''ns3::Simulator'', ''ns3::CommandLine'', ''ns3::TypeId''] \<subseteq> set (known_names m)"
    "''ns3::SystemThread'' \<notin> set (known_names m)" "''Threading'' \<notin> set (split_on (CHR '','') environ)"
  shows "core_types environ m = Inl KeyError"
proof -
  obtain m' where "same_lists m m'" "core_types environ m = py_bind (py_fold (feature_step (split_on (CHR '','') environ)) (module_rows ''core'') m')
      (\<lambda>m. Inr (m\<lparr>api_after_init := api_after_init m @ [''PyEval_InitThreads();'']\<rparr>))"
    using core_before [OF assms(1)] by blast
  then show ?thesis using assms(2,3)
    by (simp add: module_rows_eq feature_step_def without_def remove_names_def threading_classes_def remove_class_def api_lookup_def same_lists_def)
qed

section \<open>Where errors are reported\<close>

lemma find_last:
  "List.find P (rev xs) = Some x \<longleftrightarrow> (\<exists>ys zs. xs = ys @ x # zs \<and> P x \<and> (\<forall>z\<in>set zs. \<not> P z))"
proof (induction xs rule: rev_induct)
  case (snoc a xs)
  show ?case
  proof (cases "P a")
    case True
    then have "(\<exists>ys zs. xs @ [a] = ys @ x # zs \<and> P x \<and> (\<forall>z\<in>set zs. \<not> P z)) \<longleftrightarrow> a = x"
    proof (intro iffI)
      assume "\<exists>ys zs. xs @ [a] = ys @ x # zs \<and> P x \<and> (\<forall>z\<in>set zs. \<not> P z)"
      then obtain ys zs where "xs @ [a] = ys @ x # zs" "\<forall>z\<in>set zs. \<not> P z" by blast
      then show "a = x" using True by (cases zs rule: rev_cases) auto
    next
      assume "a = x"
      then show "\<exists>ys zs. xs @ [a] = ys @ x # zs \<and> P x \<and> (\<forall>z\<in>set zs. \<not> P z)" using True by (intro exI [of _ xs] exI [of _ "[]"]) simp
    qed
    then show ?thesis using True by simp
  next
    case False
    have "(\<exists>ys zs. xs @ [a] = ys @ x # zs \<and> P x \<and> (\<forall>z\<in>set zs. \<not> P z)) \<longleftrightarrow> (\<exists>ys zs. xs = ys @ x # zs \<and> P x \<and> (\<forall>z\<in>set zs. \<not> P z))"
    proof
      assume "\<exists>ys zs. xs @ [a] = ys @ x # zs \<and> P x \<and> (\<forall>z\<in>set zs. \<not> P z)"
      then obtain ys zs where z: "xs @ [a] = ys @ x # zs" "P x" "\<forall>z\<in>set zs. \<not> P z" by blast
      then obtain zs' where "zs = zs' @ [a]" using False by (cases zs rule: rev_cases) auto
      then show "\<exists>ys zs. xs = ys @ x # zs \<and> P x \<and> (\<forall>z\<in>set zs. \<not> P z)" using z by auto
    next
      assume "\<exists>ys zs. xs = ys @ x # zs \<and> P x \<and> (\<forall>z\<in>set zs. \<not> P z)"
      then obtain ys zs where "xs = ys @ x # zs" "P x" "\<forall>z\<in>set zs. \<not> P z" by blast
      then show "\<exists>ys zs. xs @ [a] = ys @ x # zs \<and> P x \<and> (\<forall>z\<in>set zs. \<not> P z)"
        using False by (intro exI [of _ ys] exI [of _ "zs @ [a]"]) auto
    qed
    then show ?thesis using False snoc by simp
  qed
qed simp

text \<open>The first error of a wrapper is reported at the innermost place in the file of definitions; reporting turns the places
  round, so the second error of the same wrapper is reported at the outermost, the third at the innermost again.\<close>

theorem errors_alternate:
  "(fst (handle_error f stack) = Some p \<longleftrightarrow> (\<exists>outer inner. stack = outer @ p # inner \<and> fst p = f \<and> (\<forall>q\<in>set inner. fst q \<noteq> f))) \<and>
   fst (handle_error f (snd (handle_error f stack))) = List.find (\<lambda>l. fst l = f) stack \<and>
   snd (handle_error f (snd (handle_error f stack))) = stack"
  by (simp add: handle_error_def Let_def find_last)

section \<open>Attributes and sections\<close>

theorem attributes_fixed:
  "Attribute_customizations (Attribute_customizations classes) = Attribute_customizations classes"
  "q \<in> set (concat (concat (Attribute_customizations classes))) \<Longrightarrow> ap_class q = Some ''AttributeValue'' \<Longrightarrow> ap_default q \<noteq> None \<Longrightarrow> ap_default_type q \<noteq> None"
  by (auto simp: Attribute_customizations_def fix_attribute_def comp_def)

theorem attributes_fixed_witness:
  "Attribute_customizations (Attribute_customizations [[[\<lparr>ap_class = Some ''AttributeValue'', ap_default = Some ''x'', ap_default_type = None\<rparr>]]]) =
   Attribute_customizations [[[\<lparr>ap_class = Some ''AttributeValue'', ap_default = Some ''x'', ap_default_type = None\<rparr>]]]"
  by (rule attributes_fixed(1))

text \<open>Every section that was asked for has a sink; it is closed unless a later module has the same section name, as
  names that differ in dashes and underscores have: then the file of the earlier one is opened again over its head and its
  own sink is neither written to nor closed.\<close>

definition section_add :: "string \<Rightarrow> string list \<times> (string, nat) dict \<Rightarrow> string \<Rightarrow> string list \<times> (string, nat) dict" where
  "section_add dir = (\<lambda>(files, sinks) m. (files @ [path_join dir (sink_name m @ ''.cc'')], dict_set sinks (sink_name m) (length files)))"

lemma open_sections_add: "open_sections main modules =
  foldl (section_add (dir_of main)) ([main, path_join (path_join (dir_of main) ''pch'') ''ns3module.h''], [(''__main__'', 0)]) modules"
  unfolding open_sections_def section_add_def Let_def ..

lemma sink_name_main [simp]: "sink_name m \<noteq> ''__main__''"
  by (simp add: sink_name_def)
lemma sections_fold:
  assumes "distinct (map sink_name modules)" "fst ` set sinks \<inter> sink_name ` set modules = {}"
  shows "foldl (section_add dir) (files, sinks) modules =
    (files @ map (\<lambda>m. path_join dir (sink_name m @ ''.cc'')) modules,
     sinks @ zip (map sink_name modules) [length files..<length files + length modules])"
  using assms
proof (induction modules arbitrary: files sinks)
  case (Cons m modules)
  have "dict_set sinks (sink_name m) (length files) = sinks @ [(sink_name m, length files)]"
    using Cons.prems(2) by (intro dict_set_new) auto
  then have "section_add dir (files, sinks) m = (files @ [path_join dir (sink_name m @ ''.cc'')], sinks @ [(sink_name m, length files)])"
    by (simp add: section_add_def)
  moreover have "fst ` set (sinks @ [(sink_name m, length files)]) \<inter> sink_name ` set modules = {}" using Cons.prems by auto
  ultimately show ?case using Cons.IH [of "sinks @ [(sink_name m, length files)]" "files @ [path_join dir (sink_name m @ ''.cc'')]"] Cons.prems(1)
    by (simp add: upt_conv_Cons del: upt_Suc)
qed simp

theorem sections_closed:
  assumes "distinct (map sink_name modules)"
  shows "set (closed_files (snd (open_sections main modules))) = {..<length (fst (open_sections main modules))} \<and>
    (\<forall>i<length modules. section_sink (snd (open_sections main modules)) (sink_name (modules ! i)) = Inr (i + 2) \<and>
      fst (open_sections main modules) ! (i + 2) = path_join (dir_of main) (sink_name (modules ! i) @ ''.cc''))"
proof -
  let ?sinks = "(''__main__'', 0) # zip (map sink_name modules) [2..<2 + length modules]"
  let ?dir = "dir_of main"
  have o: "open_sections main modules = ([main, path_join (path_join ?dir ''pch'') ''ns3module.h''] @ map (\<lambda>m. path_join ?dir (sink_name m @ ''.cc'')) modules, ?sinks)"
  proof -
    have "fst ` set [(''__main__'', 0 :: nat)] \<inter> sink_name ` set modules = {}" by (auto dest: sym [of "''__main__''"])
    from sections_fold [OF assms this, of ?dir "[main, path_join (path_join ?dir ''pch'') ''ns3module.h'']"]
    show ?thesis unfolding open_sections_add by (simp add: numeral_2_eq_2 del: upt_Suc)
  qed
  have sink: "section_sink ?sinks (sink_name (modules ! i)) = Inr (i + 2)" if "i < length modules" for i
  proof -
    have "(sink_name (modules ! i), i + 2) \<in> set (zip (map sink_name modules) [2..<2 + length modules])"
    proof -
      have "[2..<2 + length modules] ! i = i + 2" using that nth_upt [of 2 i "2 + length modules"] by linarith
      moreover have "length [2..<2 + length modules] = length modules" by (simp only: length_upt)
      ultimately show ?thesis unfolding in_set_zip fst_conv snd_conv using that by (intro exI [of _ i]) (simp del: upt_Suc upt_conv_Nil add_2_eq_Suc add_2_eq_Suc')
    qed
    then have "map_of (zip (map sink_name modules) [2..<2 + length modules]) (sink_name (modules ! i)) = Some (i + 2)"
      using assms by (intro map_of_is_SomeI) simp_all
    then show ?thesis using sink_name_main [of "modules ! i"] by (simp add: section_sink_def dict_lookup_def)
  qed
  have "map snd (zip (map sink_name modules) [2..<2 + length modules]) = [2..<2 + length modules]"
    by (rule map_snd_zip) (simp only: length_map length_upt add_diff_cancel_left')
  then have "set (closed_files ?sinks) = {1, 0} \<union> set [2..<2 + length modules]"
    unfolding closed_files_def list.map snd_conv by (simp only:) (simp del: set_upt)
  also have "\<dots> = {..<2 + length modules}" by auto
  finally show ?thesis using sink unfolding o by (simp add: nth_append)
qed

theorem sections_closed_witness:
  "set (closed_files (snd (open_sections ''out/m.cc'' [''core'', ''csma-layout'']))) = {..<4}"
  using sections_closed [of "[''core'', ''csma-layout'']" "''out/m.cc''"] by (simp add: sink_name_def open_sections_def)

lemma section_left_open:
  "fst (open_sections ''out/m.cc'' [''a-b'', ''a_b'']) = [''out/m.cc'', ''out/pch/ns3module.h'', ''out/ns3_module_a_b.cc'', ''out/ns3_module_a_b.cc'']"
  "closed_files (snd (open_sections ''out/m.cc'' [''a-b'', ''a_b''])) = [1, 0, 0, 3]"
  by code_simp+

text \<open>The order of the work on one module: types before callbacks and methods, functions last, and then the text.\<close>

lemma modulegen_order:
  "modulegen hooks cb (prog # [path, target, ext, out]) = Inr steps \<Longrightarrow>
     hd steps = Import (''modulegen__'' @ target) \<and> last steps = Generate out \<and>
     sorted (map (\<lambda>s. case s of Register_Types \<Rightarrow> 1 | Custom_Types \<Rightarrow> 2 | Callback_Classes _ \<Rightarrow> 3 | Register_Methods \<Rightarrow> 4 | Custom_Methods \<Rightarrow> 5
       | Object_Custom \<Rightarrow> 6 | Attribute_Custom \<Rightarrow> 7 | Register_Functions \<Rightarrow> 8 | Custom_Functions \<Rightarrow> 9 | Generate _ \<Rightarrow> 10 | _ \<Rightarrow> (0 :: nat)) steps) \<and>
     (Custom_Types \<in> set steps \<longleftrightarrow> (\<exists>hs. hooks = Some hs \<and> ''post_register_types'' \<in> set hs))"
  by (cases hooks) (auto simp: modulegen_def Let_def)

end
