(* ===== verification/Visualizer.thy ===== *)
theory Visualizer
  imports Py_Base Complex_Main
begin

text \<open>
  Two parts of the visualizer that do not need its widgets: \<open>src/src/visualizer/visualizer/base.py\<close>, the
  kinds of network devices, the scale of the canvas and the plug-ins, and \<open>svgitem.py\<close>, the
  sizes of a picture on the canvas. Numbers are rational. Device classes are named; the import of a
  plug-in and the natural size of a picture are parameters.
\<close>

section \<open>Kinds of devices\<close>

record device_traits =
  is_wireless :: "bool option"
  is_virtual :: bool

definition new_traits :: "bool option \<Rightarrow> bool \<Rightarrow> py_exn + device_traits" where
  "new_traits wireless virtual =
     (if virtual \<or> wireless \<noteq> None then Inr \<lparr>is_wireless = wireless, is_virtual = virtual\<rparr> else Inl AssertionError)"

definition netdevice_traits :: "(string \<times> bool option \<times> bool) list" where
  "netdevice_traits =
     [(''PointToPointNetDevice'', Some False, False), (''CsmaNetDevice'', Some False, False), (''WifiNetDevice'', Some True, False),
      (''BridgeNetDevice'', None, True), (''LoopbackNetDevice'', Some False, True), (''MeshPointDevice'', None, True),
      (''SubscriberStationNetDevice'', Some True, False), (''BaseStationNetDevice'', Some True, False),
      (''LteUeNetDevice'', Some True, False), (''LteEnbNetDevice'', Some True, False)]"

definition initial_traits :: "py_exn + (string, device_traits) dict" where
  "initial_traits = py_map (\<lambda>(n, w, v). py_bind (new_traits w v) (\<lambda>t. Inr (n, t))) netdevice_traits"

text \<open>The traits, whether a warning was written, and the table afterwards.\<close>

definition lookup_netdevice_traits :: "(string, device_traits) dict \<Rightarrow> string \<Rightarrow> device_traits \<times> bool \<times> (string, device_traits) dict" where
  "lookup_netdevice_traits table cls =
     (case dict_get table cls of
        Some t \<Rightarrow> (t, False, table)
      | None \<Rightarrow> let t = \<lparr>is_wireless = Some True, is_virtual = False\<rparr> in (t, True, dict_set table cls t))"

lemma initial_traits_ok: "\<exists>table. initial_traits = Inr table \<and> dict_keys table = map fst netdevice_traits \<and> dict_ok table"
  by (simp add: initial_traits_def netdevice_traits_def new_traits_def dict_keys_def dict_ok_def ex_bool_eq all_bool_eq)

text \<open>A second look-up of the same class gives the same traits and no warning.\<close>

lemma lookup_again:
  "lookup_netdevice_traits table cls = (t, w, table') \<Longrightarrow> lookup_netdevice_traits table' cls = (t, False, table')"
  by (auto simp: lookup_netdevice_traits_def Let_def split: option.splits)

section \<open>The canvas\<close>

definition PIXELS_PER_METER :: rat where
  "PIXELS_PER_METER = 3"

definition transform_distance_simulation_to_canvas :: "rat \<Rightarrow> rat" where
  "transform_distance_simulation_to_canvas d = d * PIXELS_PER_METER"

definition transform_point_simulation_to_canvas :: "rat \<Rightarrow> rat \<Rightarrow> rat \<times> rat" where
  "transform_point_simulation_to_canvas x y = (x * PIXELS_PER_METER, y * PIXELS_PER_METER)"

definition transform_distance_canvas_to_simulation :: "rat \<Rightarrow> rat" where
  "transform_distance_canvas_to_simulation d = d / PIXELS_PER_METER"

definition transform_point_canvas_to_simulation :: "rat \<Rightarrow> rat \<Rightarrow> rat \<times> rat" where
  "transform_point_canvas_to_simulation x y = (x / PIXELS_PER_METER, y / PIXELS_PER_METER)"

lemma canvas_roundtrip:
  "transform_distance_canvas_to_simulation (transform_distance_simulation_to_canvas d) = d"
  "case transform_point_simulation_to_canvas x y of (a, b) \<Rightarrow> transform_point_canvas_to_simulation a b = (x, y)"
  by (simp_all add: transform_distance_canvas_to_simulation_def transform_distance_simulation_to_canvas_def
      transform_point_canvas_to_simulation_def transform_point_simulation_to_canvas_def PIXELS_PER_METER_def)

section \<open>Plug-ins\<close>

text \<open>A module is known by its function \<open>register\<close>. What importing a file as a module gives: an error, a module without \<open>register\<close>, or one with it.\<close>

datatype 'f plugin_import = ImportFails | NoRegister | Registers 'f

record 'f plugin_state =
  plugins :: "'f list"
  plugin_modules :: "(string, 'f) dict"
  plugins_loaded :: bool
  plugin_messages :: "string list"

definition register_plugin :: "'f \<Rightarrow> string \<Rightarrow> 'f plugin_state \<Rightarrow> 'f plugin_state" where
  "register_plugin f name st = st\<lparr>plugins := plugins st @ [f], plugin_modules := dict_set (plugin_modules st) name f\<rparr>"

text \<open>\<open>os.path.splitext\<close> for names that do not start with a dot.\<close>

definition splitext :: "string \<Rightarrow> string \<times> string" where
  "splitext f =
     (if CHR ''.'' \<in> set f
      then (rev (tl (dropWhile (\<lambda>c. c \<noteq> CHR ''.'') (rev f))), ''.'' @ rev (takeWhile (\<lambda>c. c \<noteq> CHR ''.'') (rev f)))
      else (f, []))"

fun load_loop :: "(string \<Rightarrow> 'f plugin_import) \<Rightarrow> string list \<Rightarrow> 'f plugin_state \<Rightarrow> 'f plugin_state" where
  "load_loop imp [] st = st"
| "load_loop imp (filename # rest) st =
     (let (name, ext) = splitext filename
      in if ext \<noteq> ''.py'' then load_loop imp rest st
         else case imp name of
           ImportFails \<Rightarrow> load_loop imp rest (st\<lparr>plugin_messages := plugin_messages st @ [''Could not load plugin '' @ filename]\<rparr>)
         | NoRegister \<Rightarrow> load_loop imp rest (st\<lparr>plugin_messages := plugin_messages st @ [''Plugin '' @ name @ '' has no register function'']\<rparr>)
         | Registers f \<Rightarrow> load_loop imp rest (register_plugin f name st))"

definition load_plugins :: "(string \<Rightarrow> 'f plugin_import) \<Rightarrow> string list \<Rightarrow> 'f plugin_state \<Rightarrow> 'f plugin_state" where
  "load_plugins imp dir st = (if plugins_loaded st then st else load_loop imp dir (st\<lparr>plugins_loaded := True\<rparr>))"

lemma load_loop_loaded: "plugins_loaded (load_loop imp files st) = plugins_loaded st"
  by (induction imp files st rule: load_loop.induct)
    (auto simp: register_plugin_def split: prod.splits plugin_import.splits)

text \<open>Loading twice loads once.\<close>

lemma load_plugins_once: "load_plugins imp' dir' (load_plugins imp dir st) = load_plugins imp dir st"
  by (simp add: load_plugins_def load_loop_loaded)

lemma load_loop_plugins:
  "plugins (load_loop imp files st) = plugins st @
     concat (map (\<lambda>f. case imp (fst (splitext f)) of Registers g \<Rightarrow> [g] | _ \<Rightarrow> []) (filter (\<lambda>f. snd (splitext f) = ''.py'') files))"
  by (induction imp files st rule: load_loop.induct)
    (auto simp: register_plugin_def split: prod.splits plugin_import.splits)

section \<open>Pictures\<close>

record svg_item =
  svg_x :: rat
  svg_y :: rat
  svg_sx :: rat
  svg_sy :: rat
  svg_width :: rat
  svg_height :: rat
  custom_width :: "rat option"
  custom_height :: "rat option"
  natural :: "rat \<times> rat"

definition new_svg :: "rat \<Rightarrow> rat \<Rightarrow> rat \<times> rat \<Rightarrow> svg_item" where
  "new_svg x y nat_size =
     \<lparr>svg_x = x, svg_y = y, svg_sx = 1, svg_sy = 1, svg_width = fst nat_size, svg_height = snd nat_size,
      custom_width = None, custom_height = None, natural = nat_size\<rparr>"

definition size_changed :: "svg_item \<Rightarrow> svg_item" where
  "size_changed it =
     (case (custom_width it, custom_height it) of
        (None, None) \<Rightarrow> it\<lparr>svg_width := fst (natural it), svg_height := snd (natural it), svg_sx := 1, svg_sy := 1\<rparr>
      | (Some w, None) \<Rightarrow> let s = w / fst (natural it)
          in it\<lparr>svg_width := w, svg_sx := s, svg_sy := s, svg_height := snd (natural it) * s\<rparr>
      | (None, Some h) \<Rightarrow> let s = h / snd (natural it)
          in it\<lparr>svg_height := h, svg_sy := s, svg_sx := s, svg_width := fst (natural it) * s\<rparr>
      | (Some w, Some h) \<Rightarrow> it\<lparr>svg_width := w, svg_height := h, svg_sx := w / fst (natural it), svg_sy := h / snd (natural it)\<rparr>)"

definition do_set_property :: "string \<Rightarrow> rat \<Rightarrow> svg_item \<Rightarrow> py_exn + svg_item" where
  "do_set_property name v it =
     (if name = ''x'' then Inr (it\<lparr>svg_x := v\<rparr>)
      else if name = ''y'' then Inr (it\<lparr>svg_y := v\<rparr>)
      else if name = ''width'' then Inr (size_changed (it\<lparr>custom_width := Some v\<rparr>))
      else if name = ''height'' then Inr (size_changed (it\<lparr>custom_height := Some v\<rparr>))
      else Inl AttributeError)"

text \<open>Reading a property: reading the width puts the natural size back.\<close>

definition do_get_property :: "string \<Rightarrow> svg_item \<Rightarrow> py_exn + rat \<times> svg_item" where
  "do_get_property name it =
     (if name = ''x'' then Inr (svg_x it, it)
      else if name = ''y'' then Inr (svg_y it, it)
      else if name = ''width''
      then let it = it\<lparr>svg_width := fst (natural it), svg_height := snd (natural it)\<rparr> in Inr (svg_width it, it)
      else if name = ''height'' then Inr (svg_height it, it)
      else Inl AttributeError)"

definition do_simple_update :: "svg_item \<Rightarrow> rat \<times> rat \<times> rat \<times> rat" where
  "do_simple_update it = (svg_x it, svg_y it, svg_x it + svg_width it, svg_y it + svg_height it)"

definition do_simple_is_item_at :: "rat \<Rightarrow> rat \<Rightarrow> svg_item \<Rightarrow> bool" where
  "do_simple_is_item_at x y it =
     (if (x < svg_x it \<or> x > svg_x it + svg_width it) \<or> (y < svg_y it \<or> y > svg_y it + svg_height it) then False else True)"

text \<open>The size shown is the natural size scaled, in proportion unless both sizes were set.\<close>

definition scaled :: "svg_item \<Rightarrow> bool" where
  "scaled it \<longleftrightarrow> svg_width it = fst (natural it) * svg_sx it \<and> svg_height it = snd (natural it) * svg_sy it \<and>
     (custom_width it = None \<or> custom_height it = None \<longrightarrow> svg_sx it = svg_sy it)"

lemma new_svg_scaled: "scaled (new_svg x y n)"
  by (simp add: scaled_def new_svg_def)

lemma set_property_scaled:
  assumes "scaled it" "fst (natural it) \<noteq> 0" "snd (natural it) \<noteq> 0" "do_set_property name v it = Inr it'"
  shows "scaled it' \<and> natural it' = natural it"
  using assms by (auto simp: do_set_property_def size_changed_def scaled_def Let_def split: if_splits option.splits)

lemma picked_inside_bounds:
  "do_simple_is_item_at x y it \<longleftrightarrow>
     (case do_simple_update it of (x1, y1, x2, y2) \<Rightarrow> x1 \<le> x \<and> x \<le> x2 \<and> y1 \<le> y \<and> y \<le> y2)"
  by (auto simp: do_simple_is_item_at_def do_simple_update_def)

text \<open>A width that was set is lost when it is read, though the scale stays.\<close>

lemma reading_width_forgets:
  assumes "do_set_property ''width'' v it = Inr it'"
  shows "do_get_property ''width'' it' = Inr (fst (natural it), it'\<lparr>svg_width := fst (natural it), svg_height := snd (natural it)\<rparr>)"
  using assms by (auto simp: do_set_property_def do_get_property_def size_changed_def Let_def split: option.splits)

end
