(* ===== verification/Viz_Nodes.thy ===== *)
theory Viz_Nodes
  imports Visualizer
begin

text \<open>
  The nodes, channels and wired links on the canvas of the visualizer and what the user does with them
  (\<open>src/src/visualizer/visualizer/core.py\<close>): the classes \<open>Node\<close>, \<open>Channel\<close> and
  \<open>WiredLink\<close>, and of \<open>Visualizer\<close> the tables, the selection, the mode of the
  transmissions shown with the nodes of interest it gives the simulation, and dragging a node.

  Objects on the canvas are known by the index of the node, the identity of the channel and the position of
  the link in the list of links. The positions the mobility models hold are the field \<open>mobility\<close>;
  the properties of the canvas items are fields of the objects. Numbers are rational.
\<close>

unbundle bit_operations_syntax

section \<open>Nodes\<close>

type_synonym point = "rat \<times> rat"

record appearance =
  radius :: rat
  fill_color_rgba :: int
  line_width :: rat
  stroke_color :: string

record node_view =
  node_index :: nat
  center :: point
  node_links :: "nat list"
  selected :: bool
  highlighted :: bool
  color :: int
  node_size :: rat
  svg_icon :: "svg_item option"
  svg_align :: point
  label :: "string option"
  label_item :: "(point \<times> string) option"
  mobility_seen :: "bool option"
  look :: appearance

definition appearance_of :: "node_view \<Rightarrow> appearance" where
  "appearance_of n =
     (let size = transform_distance_simulation_to_canvas (node_size n);
          alpha = (if svg_icon n \<noteq> None then 0x80 else 0xff)
      in \<lparr>radius = size, fill_color_rgba = (color n AND 0xffffff00) OR alpha,
          line_width = (if selected n then size * (3 / 10) else size * (15 / 100)),
          stroke_color = (if highlighted n then ''yellow'' else ''black'')\<rparr>)"

definition svg_position :: "point \<Rightarrow> point \<Rightarrow> svg_item \<Rightarrow> svg_item" where
  "svg_position p al it = it\<lparr>svg_x := fst p - (1 - fst al) * svg_width it, svg_y := snd p - (1 - snd al) * svg_height it\<rparr>"

definition label_point :: "node_view \<Rightarrow> point \<Rightarrow> point" where
  "label_point n p = (fst p, snd p + node_size n * 3)"

text \<open>\<open>Node.set_position\<close> but for the links.\<close>

definition move_node :: "point \<Rightarrow> node_view \<Rightarrow> node_view" where
  "move_node p n = n\<lparr>center := p, svg_icon := map_option (svg_position p (svg_align n)) (svg_icon n),
     label_item := map_option (\<lambda>(q, t). (label_point n p, t)) (label_item n)\<rparr>"

text \<open>\<open>_update_appearance\<close> but for the update of the position it ends with when there is a label.\<close>

definition draw_node :: "node_view \<Rightarrow> node_view" where
  "draw_node n = (let n = n\<lparr>look := appearance_of n\<rparr> in
     case label n of
       None \<Rightarrow> n
     | Some t \<Rightarrow> n\<lparr>label_item := Some (case label_item n of None \<Rightarrow> ((0, 0), t) | Some (q, t') \<Rightarrow> (q, t))\<rparr>)"

definition DEFAULT_NODE_SIZE :: rat where
  "DEFAULT_NODE_SIZE = 3"

definition new_node :: "nat \<Rightarrow> node_view" where
  "new_node i = draw_node
     \<lparr>node_index = i, center = (0, 0), node_links = [], selected = False, highlighted = False, color = 0x808080ff,
      node_size = DEFAULT_NODE_SIZE, svg_icon = None, svg_align = (0, 0), label = None, label_item = None, mobility_seen = None,
      look = \<lparr>radius = 0, fill_color_rgba = 0, line_width = 0, stroke_color = []\<rparr>\<rparr>"

text \<open>A colour as \<open>set_color\<close> gets it: a number, or the 16-bit components that parsing a name gives.\<close>

datatype color_arg = Color_Number int | Color_Parsed nat nat nat

definition color_value :: "color_arg \<Rightarrow> int" where
  "color_value c = (case c of
     Color_Number k \<Rightarrow> k
   | Color_Parsed r g b \<Rightarrow> push_bit 24 (drop_bit 8 (int r)) OR push_bit 16 (drop_bit 8 (int g)) OR push_bit 8 (drop_bit 8 (int b)) OR 0xff)"

section \<open>Channels, links and the tables\<close>

record channel_view =
  channel_center :: point
  channel_links :: "nat list"

definition new_channel :: channel_view where
  "new_channel = \<lparr>channel_center = (0, 0), channel_links = []\<rparr>"

datatype link_end = Node_End nat | Channel_End nat

record wired_link =
  node1 :: nat
  node2 :: link_end
  points :: "(point \<times> point) option"

datatype show_mode = Show_All | Show_None | Show_Selected

record drag_state =
  canvas0 :: point
  sim0 :: point

record view =
  nodes :: "(nat, node_view) dict"
  channels :: "(nat, channel_view) dict"
  links :: "wired_link list"
  selected_node :: "nat option"
  show_mode :: show_mode
  interest :: "nat list"
  node_count :: nat
  mobility :: "nat \<rightharpoonup> point"
  drag :: "drag_state option"
  motion_signals :: "nat list"
  in_ipython :: bool
  user_selected :: "nat option"

definition upd_node :: "nat \<Rightarrow> (node_view \<Rightarrow> node_view) \<Rightarrow> view \<Rightarrow> view" where
  "upd_node i f v = (case dict_get (nodes v) i of None \<Rightarrow> v | Some n \<Rightarrow> v\<lparr>nodes := dict_set (nodes v) i (f n)\<rparr>)"

definition upd_channel :: "nat \<Rightarrow> (channel_view \<Rightarrow> channel_view) \<Rightarrow> view \<Rightarrow> view" where
  "upd_channel c f v = (case dict_get (channels v) c of None \<Rightarrow> v | Some n \<Rightarrow> v\<lparr>channels := dict_set (channels v) c (f n)\<rparr>)"

definition get_node :: "nat \<Rightarrow> view \<Rightarrow> view" where
  "get_node i v = (case dict_get (nodes v) i of Some n \<Rightarrow> v | None \<Rightarrow> v\<lparr>nodes := dict_set (nodes v) i (new_node i)\<rparr>)"

definition get_channel :: "nat \<Rightarrow> view \<Rightarrow> view" where
  "get_channel c v = (case dict_get (channels v) c of Some n \<Rightarrow> v | None \<Rightarrow> v\<lparr>channels := dict_set (channels v) c new_channel\<rparr>)"

definition end_position :: "view \<Rightarrow> link_end \<Rightarrow> point" where
  "end_position v e = (case e of
     Node_End i \<Rightarrow> (case dict_get (nodes v) i of Some n \<Rightarrow> center n | None \<Rightarrow> (0, 0))
   | Channel_End c \<Rightarrow> (case dict_get (channels v) c of Some n \<Rightarrow> channel_center n | None \<Rightarrow> (0, 0)))"

definition update_points :: "nat \<Rightarrow> view \<Rightarrow> view" where
  "update_points k v =
     (let l = links v ! k
      in v\<lparr>links := (links v)[k := l\<lparr>points := Some (end_position v (Node_End (node1 l)), end_position v (node2 l))\<rparr>]\<rparr>)"

definition links_at :: "view \<Rightarrow> link_end \<Rightarrow> nat list" where
  "links_at v e = (case e of
     Node_End i \<Rightarrow> (case dict_get (nodes v) i of Some n \<Rightarrow> node_links n | None \<Rightarrow> [])
   | Channel_End c \<Rightarrow> (case dict_get (channels v) c of Some n \<Rightarrow> channel_links n | None \<Rightarrow> []))"

text \<open>\<open>set_position\<close> of a node and of a channel.\<close>

definition set_position :: "link_end \<Rightarrow> point \<Rightarrow> view \<Rightarrow> view" where
  "set_position e p v =
     (let v = (case e of Node_End i \<Rightarrow> upd_node i (move_node p) v | Channel_End c \<Rightarrow> upd_channel c (\<lambda>n. n\<lparr>channel_center := p\<rparr>) v)
      in fold update_points (links_at v e) v)"

definition create_link :: "nat \<Rightarrow> link_end \<Rightarrow> view \<Rightarrow> view" where
  "create_link i e v =
     (let k = length (links v);
          v = v\<lparr>links := links v @ [\<lparr>node1 = i, node2 = e, points = None\<rparr>]\<rparr>;
          v = upd_node i (\<lambda>n. n\<lparr>node_links := node_links n @ [k]\<rparr>) v
      in case e of
           Node_End j \<Rightarrow> upd_node j (\<lambda>n. n\<lparr>node_links := node_links n @ [k]\<rparr>) v
         | Channel_End c \<Rightarrow> upd_channel c (\<lambda>n. n\<lparr>channel_links := channel_links n @ [k]\<rparr>) v)"

text \<open>\<open>_update_appearance\<close>, and the setters that end with it.\<close>

definition update_appearance :: "nat \<Rightarrow> view \<Rightarrow> view" where
  "update_appearance i v =
     (let v = upd_node i draw_node v in
      case dict_get (nodes v) i of
        None \<Rightarrow> v
      | Some n \<Rightarrow> if label n = None then v else set_position (Node_End i) (center n) v)"

definition set_selected :: "nat \<Rightarrow> bool \<Rightarrow> view \<Rightarrow> view" where
  "set_selected i b v = update_appearance i (upd_node i (\<lambda>n. n\<lparr>selected := b\<rparr>) v)"

definition set_highlighted :: "nat \<Rightarrow> bool \<Rightarrow> view \<Rightarrow> view" where
  "set_highlighted i b v = update_appearance i (upd_node i (\<lambda>n. n\<lparr>highlighted := b\<rparr>) v)"

definition set_size :: "nat \<Rightarrow> rat \<Rightarrow> view \<Rightarrow> view" where
  "set_size i s v = update_appearance i (upd_node i (\<lambda>n. n\<lparr>node_size := s\<rparr>) v)"

definition set_color :: "nat \<Rightarrow> color_arg \<Rightarrow> view \<Rightarrow> view" where
  "set_color i c v = update_appearance i (upd_node i (\<lambda>n. n\<lparr>color := color_value c\<rparr>) v)"

definition set_label :: "nat \<Rightarrow> string \<Rightarrow> view \<Rightarrow> view" where
  "set_label i t v = update_appearance i (upd_node i (\<lambda>n. n\<lparr>label := Some t\<rparr>) v)"

text \<open>The icon is placed with the size asked for; \<open>natural\<close> is the size of the picture.\<close>

definition svg_with :: "string \<Rightarrow> rat option \<Rightarrow> svg_item \<Rightarrow> svg_item" where
  "svg_with name s it = (case s of None \<Rightarrow> it | Some d \<Rightarrow>
     (case do_set_property name (transform_distance_simulation_to_canvas d) it of Inl e \<Rightarrow> it | Inr it' \<Rightarrow> it'))"

definition set_svg_icon :: "nat \<Rightarrow> point \<Rightarrow> rat option \<Rightarrow> rat option \<Rightarrow> point \<Rightarrow> view \<Rightarrow> py_exn + view" where
  "set_svg_icon i natural_size width height al v =
     (if width = None \<and> height = None then Inl ValueError
      else Inr (update_appearance i (upd_node i (\<lambda>n.
        n\<lparr>svg_icon := Some (svg_position (center n) al
             (svg_with ''height'' height (svg_with ''width'' width (new_svg (fst (center n)) (snd (center n)) natural_size)))),
          svg_align := al\<rparr>) v)))"

section \<open>Selection and the nodes of interest\<close>

text \<open>What \<open>select_node\<close> accepts: nothing, an index, a node of the view, a node of the simulation, or something else.\<close>

datatype node_ref = Ref_None | Ref_Index nat | Ref_View nat | Ref_Sim nat | Ref_Other

definition set_nodes_of_interest :: "nat list \<Rightarrow> view \<Rightarrow> view" where
  "set_nodes_of_interest ns v = v\<lparr>interest := ns\<rparr>"

definition set_show_transmissions_mode :: "show_mode \<Rightarrow> view \<Rightarrow> view" where
  "set_show_transmissions_mode m v =
     (let v = v\<lparr>show_mode := m\<rparr> in
      case m of
        Show_All \<Rightarrow> set_nodes_of_interest [0..<node_count v] v
      | Show_None \<Rightarrow> set_nodes_of_interest [] v
      | Show_Selected \<Rightarrow> (case selected_node v of None \<Rightarrow> set_nodes_of_interest [] v | Some i \<Rightarrow> set_nodes_of_interest [i] v))"

definition update_ipython_selected_node :: "view \<Rightarrow> view" where
  "update_ipython_selected_node v = (if in_ipython v then v\<lparr>user_selected := selected_node v\<rparr> else v)"

definition resolve_ref :: "node_ref \<Rightarrow> view \<Rightarrow> py_exn + nat option" where
  "resolve_ref r v = (case r of
     Ref_None \<Rightarrow> Inr None
   | Ref_View i \<Rightarrow> Inr (Some i)
   | Ref_Other \<Rightarrow> Inl TypeError
   | Ref_Index i \<Rightarrow> if has_key (nodes v) i then Inr (Some i) else Inl KeyError
   | Ref_Sim i \<Rightarrow> if has_key (nodes v) i then Inr (Some i) else Inl KeyError)"

definition change_selection :: "nat option \<Rightarrow> view \<Rightarrow> view" where
  "change_selection node v =
     (if node = selected_node v then v
      else
        let v = (case selected_node v of None \<Rightarrow> v | Some i \<Rightarrow> set_selected i False v);
            v = v\<lparr>selected_node := node\<rparr>;
            v = (case node of None \<Rightarrow> v | Some i \<Rightarrow> set_selected i True v);
            v = (if show_mode v = Show_Selected
                 then (case selected_node v of None \<Rightarrow> set_nodes_of_interest [] v | Some i \<Rightarrow> set_nodes_of_interest [i] v)
                 else v)
        in update_ipython_selected_node v)"

definition select_node :: "node_ref \<Rightarrow> view \<Rightarrow> py_exn + view" where
  "select_node r v = py_bind (resolve_ref r v) (\<lambda>node. Inr (change_selection node v))"

section \<open>Dragging\<close>

definition begin_node_drag :: "nat \<Rightarrow> point \<Rightarrow> view \<Rightarrow> view" where
  "begin_node_drag i pointer v =
     (case mobility v i of
        None \<Rightarrow> v
      | Some pos \<Rightarrow>
          if drag v \<noteq> None then v
          else v\<lparr>drag := Some \<lparr>canvas0 = pointer, sim0 = pos\<rparr>, motion_signals := motion_signals v @ [i]\<rparr>)"

text \<open>The pointer is in canvas coordinates, as \<open>convert_from_pixels\<close> gives it. The handler runs for nodes it is connected to.\<close>

definition node_drag_motion :: "nat \<Rightarrow> point \<Rightarrow> view \<Rightarrow> view" where
  "node_drag_motion i pointer v =
     (if i \<notin> set (motion_signals v) then v
      else case mobility v i of
        None \<Rightarrow> v
      | Some pos0 \<Rightarrow>
         (case drag v of
            None \<Rightarrow> v
          | Some d \<Rightarrow>
             let dx = fst pointer - fst (canvas0 d);
                 dy = snd pointer - snd (canvas0 d);
                 pos = (fst (sim0 d) + transform_distance_canvas_to_simulation dx,
                        snd (sim0 d) + transform_distance_canvas_to_simulation dy)
             in set_position (Node_End i) (transform_point_simulation_to_canvas (fst pos) (snd pos))
                  (v\<lparr>mobility := (mobility v)(i \<mapsto> pos)\<rparr>)))"

definition end_node_drag :: "nat \<Rightarrow> view \<Rightarrow> view" where
  "end_node_drag i v = (if drag v = None then v else v\<lparr>motion_signals := remove1 i (motion_signals v), drag := None\<rparr>)"

section \<open>Events\<close>

text \<open>\<open>has_mobility\<close> looks the mobility model up once.\<close>

definition has_mobility :: "nat \<Rightarrow> view \<Rightarrow> bool \<times> view" where
  "has_mobility i v =
     (case dict_get (nodes v) i of
        None \<Rightarrow> (False, v)
      | Some n \<Rightarrow> (case mobility_seen n of
            Some b \<Rightarrow> (b, v)
          | None \<Rightarrow> let b = (mobility v i \<noteq> None) in (b, upd_node i (\<lambda>n. n\<lparr>mobility_seen := Some b\<rparr>) v)))"

definition update_node_position :: "nat \<Rightarrow> view \<Rightarrow> view" where
  "update_node_position i v =
     (let (b, v) = has_mobility i v in
      if b then (case mobility v i of
            None \<Rightarrow> v
          | Some pos \<Rightarrow> set_position (Node_End i) (transform_point_simulation_to_canvas (fst pos) (snd pos)) v)
      else v)"

definition update_node_positions :: "view \<Rightarrow> view" where
  "update_node_positions v = fold update_node_position (dict_keys (nodes v)) v"

text \<open>Buttons are numbered as by gtk: 1 left, 2 middle, 3 right; the menu of the right button is not modelled.\<close>

datatype view_event =
    Root_Press nat | Node_Press nat nat point | Node_Release nat nat | Node_Motion nat point
  | Node_Enter nat | Node_Leave nat | Mode_Chosen show_mode | Size_Changed rat | Select_Called node_ref | View_Updated

definition on_root_button_press :: "nat \<Rightarrow> view \<Rightarrow> py_exn + view" where
  "on_root_button_press button v = (if button = 1 then select_node Ref_None v else Inr v)"

definition on_node_button_press :: "nat \<Rightarrow> nat \<Rightarrow> point \<Rightarrow> view \<Rightarrow> py_exn + view" where
  "on_node_button_press button i pointer v =
     (if button = 1 then select_node (Ref_View i) v
      else if button = 2 then Inr (begin_node_drag i pointer v)
      else Inr v)"

definition on_node_button_release :: "nat \<Rightarrow> nat \<Rightarrow> view \<Rightarrow> view" where
  "on_node_button_release button i v = (if button = 2 then end_node_drag i v else v)"

definition node_size_changed :: "rat \<Rightarrow> view \<Rightarrow> view" where
  "node_size_changed s v = fold (\<lambda>i. set_size i s) (dict_keys (nodes v)) v"

definition handle_event :: "view_event \<Rightarrow> view \<Rightarrow> py_exn + view" where
  "handle_event ev v = (case ev of
     Root_Press b \<Rightarrow> on_root_button_press b v
   | Node_Press b i p \<Rightarrow> on_node_button_press b i p v
   | Node_Release b i \<Rightarrow> Inr (on_node_button_release b i v)
   | Node_Motion i p \<Rightarrow> Inr (node_drag_motion i p v)
   | Node_Enter i \<Rightarrow> Inr (set_highlighted i True v)
   | Node_Leave i \<Rightarrow> Inr (set_highlighted i False v)
   | Mode_Chosen m \<Rightarrow> Inr (set_show_transmissions_mode m v)
   | Size_Changed s \<Rightarrow> Inr (node_size_changed s v)
   | Select_Called r \<Rightarrow> select_node r v
   | View_Updated \<Rightarrow> Inr (update_node_positions v))"

definition event_node :: "view_event \<Rightarrow> nat option" where
  "event_node ev = (case ev of Node_Press b i p \<Rightarrow> Some i | Node_Release b i \<Rightarrow> Some i | Node_Motion i p \<Rightarrow> Some i
     | Node_Enter i \<Rightarrow> Some i | Node_Leave i \<Rightarrow> Some i | Select_Called (Ref_View i) \<Rightarrow> Some i | _ \<Rightarrow> None)"

section \<open>The invariant\<close>

text \<open>What is drawn of a node is what its fields say.\<close>

definition node_drawn :: "node_view \<Rightarrow> bool" where
  "node_drawn n \<longleftrightarrow> look n = appearance_of n \<and> svg_icon n = map_option (svg_position (center n) (svg_align n)) (svg_icon n) \<and>
     label_item n = map_option (\<lambda>t. (label_point n (center n), t)) (label n)"

definition end_exists :: "view \<Rightarrow> link_end \<Rightarrow> bool" where
  "end_exists v e = (case e of Node_End i \<Rightarrow> dict_get (nodes v) i \<noteq> None | Channel_End c \<Rightarrow> dict_get (channels v) c \<noteq> None)"

definition ends_of :: "wired_link \<Rightarrow> link_end list" where
  "ends_of l = [Node_End (node1 l), node2 l]"

text \<open>The tables fit together: every link joins objects that exist and is listed at both of them, and only there.\<close>

definition tables_ok :: "view \<Rightarrow> bool" where
  "tables_ok v \<longleftrightarrow> (\<forall>i n. dict_get (nodes v) i = Some n \<longrightarrow> node_index n = i) \<and>
     (\<forall>k<length (links v). \<forall>e\<in>set (ends_of (links v ! k)). end_exists v e \<and> k \<in> set (links_at v e)) \<and>
     (\<forall>e. \<forall>k\<in>set (links_at v e). k < length (links v) \<and> e \<in> set (ends_of (links v ! k)))"

definition drawn_points :: "view \<Rightarrow> wired_link \<Rightarrow> point \<times> point" where
  "drawn_points v l = (end_position v (Node_End (node1 l)), end_position v (node2 l))"

text \<open>A line that has been drawn runs between the places where its ends are now.\<close>

definition points_ok :: "view \<Rightarrow> bool" where
  "points_ok v \<longleftrightarrow> (\<forall>l\<in>set (links v). points l = None \<or> points l = Some (drawn_points v l))"

definition nodes_drawn :: "view \<Rightarrow> bool" where
  "nodes_drawn v \<longleftrightarrow> (\<forall>i n. dict_get (nodes v) i = Some n \<longrightarrow> node_drawn n)"

definition canvas_ok :: "view \<Rightarrow> bool" where
  "canvas_ok v \<longleftrightarrow> tables_ok v \<and> points_ok v \<and> nodes_drawn v"

text \<open>Exactly the selected node is marked, and the simulation watches the nodes the mode asks for.\<close>

definition selection_ok :: "view \<Rightarrow> bool" where
  "selection_ok v \<longleftrightarrow> (\<forall>i n. dict_get (nodes v) i = Some n \<longrightarrow> (selected n \<longleftrightarrow> selected_node v = Some i)) \<and>
     (\<forall>i. selected_node v = Some i \<longrightarrow> dict_get (nodes v) i \<noteq> None) \<and> (in_ipython v \<longrightarrow> user_selected v = selected_node v)"

definition wanted_nodes :: "view \<Rightarrow> nat list" where
  "wanted_nodes v = (case show_mode v of
     Show_All \<Rightarrow> [0..<node_count v] | Show_None \<Rightarrow> []
   | Show_Selected \<Rightarrow> (case selected_node v of None \<Rightarrow> [] | Some i \<Rightarrow> [i]))"

definition view_ok :: "view \<Rightarrow> bool" where
  "view_ok v \<longleftrightarrow> canvas_ok v \<and> selection_ok v \<and> interest v = wanted_nodes v"

subsection \<open>Effects of the operations on the tables\<close>

lemma nodes_upd_node [simp]:
  "dict_get (nodes (upd_node i f v)) j = (if j = i then map_option f (dict_get (nodes v) i) else dict_get (nodes v) j)"
  by (auto simp: upd_node_def split: option.split)

lemma upd_node_frame [simp]:
  "channels (upd_node i f v) = channels v" "links (upd_node i f v) = links v" "selected_node (upd_node i f v) = selected_node v"
  "show_mode (upd_node i f v) = show_mode v" "interest (upd_node i f v) = interest v" "node_count (upd_node i f v) = node_count v"
  "in_ipython (upd_node i f v) = in_ipython v" "user_selected (upd_node i f v) = user_selected v"
  "mobility (upd_node i f v) = mobility v" "drag (upd_node i f v) = drag v" "motion_signals (upd_node i f v) = motion_signals v"
  by (simp_all add: upd_node_def split: option.split)

lemma channels_upd_channel [simp]:
  "dict_get (channels (upd_channel i f v)) j = (if j = i then map_option f (dict_get (channels v) i) else dict_get (channels v) j)"
  by (auto simp: upd_channel_def split: option.split)

lemma upd_channel_frame [simp]:
  "nodes (upd_channel i f v) = nodes v" "links (upd_channel i f v) = links v" "selected_node (upd_channel i f v) = selected_node v"
  "show_mode (upd_channel i f v) = show_mode v" "interest (upd_channel i f v) = interest v" "node_count (upd_channel i f v) = node_count v"
  "in_ipython (upd_channel i f v) = in_ipython v" "user_selected (upd_channel i f v) = user_selected v"
  "mobility (upd_channel i f v) = mobility v" "drag (upd_channel i f v) = drag v" "motion_signals (upd_channel i f v) = motion_signals v"
  by (simp_all add: upd_channel_def split: option.split)

text \<open>Updating the points of several links.\<close>

definition repoint :: "view \<Rightarrow> nat set \<Rightarrow> nat \<Rightarrow> wired_link" where
  "repoint v ks k = (let l = links v ! k in if k \<in> ks then l\<lparr>points := Some (drawn_points v l)\<rparr> else l)"

lemma fold_update_points:
  "fold update_points ks v = v\<lparr>links := map (repoint v (set ks)) [0..<length (links v)]\<rparr>"
proof (induction ks arbitrary: v)
  case Nil
  have "map (repoint v {}) [0..<length (links v)] = links v"
    by (rule nth_equalityI) (simp_all add: repoint_def)
  then show ?case by simp
next
  case (Cons k ks)
  have pts: "drawn_points (v\<lparr>links := ls\<rparr>) l = drawn_points v l" for ls l
    by (simp add: drawn_points_def end_position_def split: link_end.split)
  have inv: "drawn_points v (l\<lparr>points := x\<rparr>) = drawn_points v l" for l x
    by (simp add: drawn_points_def)
  have "update_points k v = v\<lparr>links := (links v)[k := (links v ! k)\<lparr>points := Some (drawn_points v (links v ! k))\<rparr>]\<rparr>"
    by (simp add: update_points_def drawn_points_def Let_def)
  moreover have "map (repoint (update_points k v) (set ks)) [0..<length (links v)] = map (repoint v (set (k # ks))) [0..<length (links v)]"
    unfolding calculation by (cases "k < length (links v)") (auto simp: repoint_def pts inv nth_list_update Let_def)
  ultimately show ?case by (simp add: Cons.IH)
qed

text \<open>Two views with the same objects and the same links between them.\<close>

definition same_shape :: "view \<Rightarrow> view \<Rightarrow> bool" where
  "same_shape v w \<longleftrightarrow> (\<forall>i. map_option node_index (dict_get (nodes w) i) = map_option node_index (dict_get (nodes v) i)) \<and>
     (\<forall>e. links_at w e = links_at v e) \<and> (\<forall>e. end_exists w e = end_exists v e) \<and> map ends_of (links w) = map ends_of (links v)"

lemma same_shape_refl [simp]: "same_shape v v"
  by (simp add: same_shape_def)

lemma same_shape_trans: "same_shape v w \<Longrightarrow> same_shape w u \<Longrightarrow> same_shape v u"
  by (simp add: same_shape_def)

lemma tables_ok_shape:
  assumes "tables_ok v" "same_shape v w"
  shows "tables_ok w"
proof -
  have eq: "map ends_of (links w) = map ends_of (links v)"
    using assms(2) by (simp add: same_shape_def)
  from arg_cong [OF eq, of length] have len: "length (links w) = length (links v)" by simp
  have ends: "ends_of (links w ! k) = ends_of (links v ! k)" if "k < length (links v)" for k
    using arg_cong [OF eq, of "\<lambda>xs. xs ! k"] that len by simp
  have idx: "node_index n = i" if n: "dict_get (nodes w) i = Some n" for i n
  proof -
    have "map_option node_index (dict_get (nodes w) i) = map_option node_index (dict_get (nodes v) i)"
      using assms(2) unfolding same_shape_def by blast
    then obtain m where "dict_get (nodes v) i = Some m" "node_index m = node_index n"
      using n by (cases "dict_get (nodes v) i") simp_all
    then show ?thesis using assms(1) unfolding tables_ok_def by metis
  qed
  have at: "links_at w e = links_at v e" "end_exists w e = end_exists v e" for e
    using assms(2) by (simp_all add: same_shape_def)
  have "\<forall>k<length (links w). \<forall>e\<in>set (ends_of (links w ! k)). end_exists w e \<and> k \<in> set (links_at w e)"
    using assms(1) unfolding tables_ok_def len at by (metis ends)
  moreover have "\<forall>e. \<forall>k\<in>set (links_at w e). k < length (links w) \<and> e \<in> set (ends_of (links w ! k))"
    using assms(1) unfolding tables_ok_def len at by (metis ends)
  ultimately show ?thesis using idx unfolding tables_ok_def by blast
qed

lemma same_shape_upd_node:
  assumes "\<And>n. node_index (f n) = node_index n" "\<And>n. node_links (f n) = node_links n"
  shows "same_shape v (upd_node i f v)"
  using assms by (auto simp: same_shape_def links_at_def end_exists_def option.map_comp o_def split: link_end.split option.split)

lemma same_shape_upd_channel:
  assumes "\<And>n. channel_links (f n) = channel_links n"
  shows "same_shape v (upd_channel i f v)"
  using assms by (auto simp: same_shape_def links_at_def end_exists_def split: link_end.split option.split)

lemma ends_of_repoint [simp]: "ends_of (repoint v ks k) = ends_of (links v ! k)"
  by (simp add: repoint_def ends_of_def Let_def)

lemma same_shape_fold_points: "same_shape v (fold update_points ks v)"
proof -
  have "map (\<lambda>x. ends_of (links v ! x)) [0..<length (links v)] = map ends_of (links v)"
    by (rule nth_equalityI) simp_all
  then show ?thesis
    by (auto simp: fold_update_points same_shape_def links_at_def end_exists_def o_def split: link_end.split)
qed

lemma move_node_frame [simp]: "node_index (move_node p n) = node_index n" "node_links (move_node p n) = node_links n" "center (move_node p n) = p"
  "selected (move_node p n) = selected n" "label (move_node p n) = label n" "mobility_seen (move_node p n) = mobility_seen n"
  by (simp_all add: move_node_def)

lemma draw_node_frame [simp]: "node_index (draw_node n) = node_index n" "node_links (draw_node n) = node_links n" "center (draw_node n) = center n"
  "selected (draw_node n) = selected n" "label (draw_node n) = label n" "svg_icon (draw_node n) = svg_icon n" "svg_align (draw_node n) = svg_align n"
  "mobility_seen (draw_node n) = mobility_seen n"
  by (simp_all add: draw_node_def Let_def split: option.split)

lemma same_shape_set_position: "same_shape v (set_position e p v)"
proof (cases e)
  case (Node_End i)
  then show ?thesis
    by (simp add: set_position_def Let_def) (rule same_shape_trans [OF same_shape_upd_node same_shape_fold_points]; simp)
next
  case (Channel_End c)
  then show ?thesis
    by (simp add: set_position_def Let_def) (rule same_shape_trans [OF same_shape_upd_channel same_shape_fold_points]; simp)
qed

lemma drawn_points_links [simp]: "drawn_points (v\<lparr>links := ls\<rparr>) l = drawn_points v l"
  by (simp add: drawn_points_def end_position_def split: link_end.split)

lemma drawn_points_points [simp]: "drawn_points v (l\<lparr>points := x\<rparr>) = drawn_points v l"
  by (simp add: drawn_points_def)

text \<open>When one object moves and its links are updated, every line is right again.\<close>

lemma points_ok_moved:
  assumes "tables_ok v" "points_ok v" "same_shape v w" "links w = links v"
    "\<And>e'. e' \<noteq> e \<Longrightarrow> end_position w e' = end_position v e'"
  shows "points_ok (fold update_points (links_at w e) w)"
proof -
  have at: "links_at w e = links_at v e" using assms(3) by (simp add: same_shape_def)
  have "points (repoint w (set (links_at v e)) k) = None \<or>
      points (repoint w (set (links_at v e)) k) = Some (drawn_points w (repoint w (set (links_at v e)) k))"
    if k: "k < length (links v)" for k
  proof (cases "k \<in> set (links_at v e)")
    case True
    then show ?thesis by (simp add: repoint_def Let_def)
  next
    case False
    then have "e \<notin> set (ends_of (links v ! k))" using assms(1) k by (auto simp: tables_ok_def)
    then have "drawn_points w (links v ! k) = drawn_points v (links v ! k)"
      using assms(5) by (auto simp: drawn_points_def ends_of_def)
    moreover have "points (links v ! k) = None \<or> points (links v ! k) = Some (drawn_points v (links v ! k))"
      using assms(2) k by (auto simp: points_ok_def)
    ultimately show ?thesis using False by (simp add: repoint_def assms(4))
  qed
  then show ?thesis by (auto simp: points_ok_def fold_update_points at assms(4))
qed

lemma points_ok_set_position:
  assumes "tables_ok v" "points_ok v"
  shows "points_ok (set_position e p v)"
proof (cases e)
  case (Node_End i)
  have "points_ok (fold update_points (links_at (upd_node i (move_node p) v) e) (upd_node i (move_node p) v))"
    by (rule points_ok_moved [OF assms]) (auto intro: same_shape_upd_node simp: Node_End end_position_def split: link_end.split)
  moreover have "links_at (upd_node i (move_node p) v) e = links_at v e"
    by (auto simp: Node_End links_at_def split: option.split)
  ultimately show ?thesis by (simp add: set_position_def Node_End Let_def)
next
  case (Channel_End c)
  let ?f = "\<lambda>n. n\<lparr>channel_center := p\<rparr>"
  have "points_ok (fold update_points (links_at (upd_channel c ?f v) e) (upd_channel c ?f v))"
    by (rule points_ok_moved [OF assms]) (auto intro: same_shape_upd_channel simp: Channel_End end_position_def split: link_end.split)
  moreover have "links_at (upd_channel c ?f v) e = links_at v e"
    by (auto simp: Channel_End links_at_def split: option.split)
  ultimately show ?thesis by (simp add: set_position_def Channel_End Let_def)
qed

lemma fold_points_frame [simp]:
  "nodes (fold update_points ks v) = nodes v" "channels (fold update_points ks v) = channels v"
  "selected_node (fold update_points ks v) = selected_node v" "show_mode (fold update_points ks v) = show_mode v"
  "interest (fold update_points ks v) = interest v" "node_count (fold update_points ks v) = node_count v"
  "in_ipython (fold update_points ks v) = in_ipython v" "user_selected (fold update_points ks v) = user_selected v"
  "mobility (fold update_points ks v) = mobility v" "drag (fold update_points ks v) = drag v"
  "motion_signals (fold update_points ks v) = motion_signals v"
  by (simp_all add: fold_update_points)

lemma set_position_frame [simp]:
  "selected_node (set_position e p v) = selected_node v" "show_mode (set_position e p v) = show_mode v"
  "interest (set_position e p v) = interest v" "node_count (set_position e p v) = node_count v"
  "in_ipython (set_position e p v) = in_ipython v" "user_selected (set_position e p v) = user_selected v"
  "mobility (set_position e p v) = mobility v" "drag (set_position e p v) = drag v"
  "motion_signals (set_position e p v) = motion_signals v"
  by (cases e; simp add: set_position_def Let_def)+

lemma nodes_set_position:
  "dict_get (nodes (set_position e p v)) j =
     (if e = Node_End j then map_option (move_node p) (dict_get (nodes v) j) else dict_get (nodes v) j)"
  by (cases e) (auto simp: set_position_def Let_def)

lemma move_node_drawn: "node_drawn n \<Longrightarrow> node_drawn (move_node p n)"
  by (cases "svg_icon n") (auto simp: node_drawn_def move_node_def appearance_of_def svg_position_def label_point_def option.map_comp o_def Let_def)

lemma canvas_ok_set_position: "canvas_ok v \<Longrightarrow> canvas_ok (set_position e p v)"
  by (auto simp: canvas_ok_def nodes_drawn_def nodes_set_position move_node_drawn points_ok_set_position
      intro: tables_ok_shape [OF _ same_shape_set_position] split: if_splits)

text \<open>Drawing a node anew.\<close>

definition redraw :: "node_view \<Rightarrow> node_view" where
  "redraw n = (if label n = None then draw_node n else move_node (center n) (draw_node n))"

lemma redraw_frame [simp]: "node_index (redraw n) = node_index n" "node_links (redraw n) = node_links n" "center (redraw n) = center n"
  "selected (redraw n) = selected n" "label (redraw n) = label n" "mobility_seen (redraw n) = mobility_seen n"
  by (simp_all add: redraw_def)

lemma redraw_drawn:
  assumes "svg_icon n = map_option (svg_position (center n) (svg_align n)) (svg_icon n)" "label n = None \<longrightarrow> label_item n = None"
  shows "node_drawn (redraw n)"
  using assms by (cases "svg_icon n"; cases "label_item n"; cases "label n")
    (auto simp: node_drawn_def redraw_def move_node_def draw_node_def appearance_of_def svg_position_def label_point_def Let_def)

lemma nodes_update_appearance:
  "dict_get (nodes (update_appearance i v)) j = (if j = i then map_option redraw (dict_get (nodes v) j) else dict_get (nodes v) j)"
  by (cases "dict_get (nodes v) i") (auto simp: update_appearance_def nodes_set_position redraw_def Let_def)

lemma update_appearance_frame [simp]:
  "selected_node (update_appearance i v) = selected_node v" "show_mode (update_appearance i v) = show_mode v"
  "interest (update_appearance i v) = interest v" "node_count (update_appearance i v) = node_count v"
  "in_ipython (update_appearance i v) = in_ipython v" "user_selected (update_appearance i v) = user_selected v"
  "mobility (update_appearance i v) = mobility v" "drag (update_appearance i v) = drag v"
  "motion_signals (update_appearance i v) = motion_signals v"
  by (simp_all add: update_appearance_def Let_def split: option.split)

lemma end_position_upd_node: "(\<And>n. center (f n) = center n) \<Longrightarrow> end_position (upd_node i f v) e = end_position v e"
  by (auto simp: end_position_def split: link_end.split option.split)

lemma points_ok_upd_node:
  assumes "points_ok v" "\<And>n. center (f n) = center n"
  shows "points_ok (upd_node i f v)"
  using assms(1) by (simp add: points_ok_def drawn_points_def end_position_upd_node [OF assms(2)])

text \<open>A setter changes a field that neither moves the node nor touches its links, and draws it.\<close>

lemma canvas_ok_setter:
  assumes "canvas_ok v"
    "\<And>n. node_index (f n) = node_index n" "\<And>n. node_links (f n) = node_links n" "\<And>n. center (f n) = center n"
    "\<And>n. node_drawn n \<Longrightarrow> svg_icon (f n) = map_option (svg_position (center n) (svg_align (f n))) (svg_icon (f n))"
    "\<And>n. node_drawn n \<Longrightarrow> label (f n) = None \<longrightarrow> label_item (f n) = None"
  shows "canvas_ok (update_appearance i (upd_node i f v))"
proof -
  let ?u = "upd_node i f v" and ?w = "upd_node i draw_node (upd_node i f v)"
  have ok: "tables_ok v" "points_ok v" "nodes_drawn v" using assms(1) by (simp_all add: canvas_ok_def)
  have t: "tables_ok ?w"
    by (rule tables_ok_shape [OF tables_ok_shape [OF ok(1) same_shape_upd_node [of f]] same_shape_upd_node]) (simp_all add: assms(2,3))
  moreover have p: "points_ok ?w"
    by (rule points_ok_upd_node [OF points_ok_upd_node [OF ok(2)]]) (auto simp: assms(4))
  ultimately have "tables_ok (update_appearance i ?u) \<and> points_ok (update_appearance i ?u)"
    by (auto simp: update_appearance_def Let_def points_ok_set_position intro: tables_ok_shape [OF _ same_shape_set_position]
        split: option.split)
  moreover have "node_drawn (redraw (f n))" if "node_drawn n" for n
    by (rule redraw_drawn) (use assms(4) [of n] assms(5,6) [OF that] in metis)+
  then have "nodes_drawn (update_appearance i ?u)"
    using ok(3) by (auto simp: nodes_drawn_def nodes_update_appearance split: if_splits)
  ultimately show ?thesis by (simp add: canvas_ok_def)
qed

lemma svg_position_again [simp]: "svg_position p al (svg_position p al it) = svg_position p al it"
  by (simp add: svg_position_def)

lemma canvas_ok_setters:
  assumes "canvas_ok v"
  shows "canvas_ok (set_selected i b v)" "canvas_ok (set_highlighted i b v)" "canvas_ok (set_size i x v)"
    "canvas_ok (set_color i c v)" "canvas_ok (set_label i t v)"
  unfolding set_selected_def set_highlighted_def set_size_def set_color_def set_label_def
  by (rule canvas_ok_setter [OF assms]; auto simp: node_drawn_def)+

lemma canvas_ok_svg_icon: "canvas_ok v \<Longrightarrow> set_svg_icon i natural_size w h al v = Inr v' \<Longrightarrow> canvas_ok v'"
  by (auto simp: set_svg_icon_def node_drawn_def split: if_splits intro!: canvas_ok_setter)

lemma new_node_drawn: "node_drawn (new_node i)" "node_index (new_node i) = i" "node_links (new_node i) = []" "selected (new_node i) = False"
  by (simp_all add: node_drawn_def new_node_def draw_node_def appearance_of_def Let_def)

text \<open>A new object stands at the origin, where a line to an object not known would end, and has no links.\<close>

lemma tables_ok_grow:
  assumes "tables_ok v" "links w = links v" "\<And>e. links_at w e = links_at v e" "\<And>e. end_exists v e \<Longrightarrow> end_exists w e"
    "\<And>i n. dict_get (nodes w) i = Some n \<Longrightarrow> node_index n = i"
  shows "tables_ok w"
  using assms(1,4,5) unfolding tables_ok_def assms(2,3) by blast

lemma points_ok_same_places:
  assumes "points_ok v" "links w = links v" "\<And>e. end_position w e = end_position v e"
  shows "points_ok w"
  using assms by (simp add: points_ok_def drawn_points_def)

lemma canvas_ok_get_node: "canvas_ok v \<Longrightarrow> canvas_ok (get_node i v)"
proof (cases "dict_get (nodes v) i")
  case None
  assume ok: "canvas_ok v"
  have at: "links_at (get_node i v) e = links_at v e" "end_position (get_node i v) e = end_position v e" for e
    using None by (auto simp: get_node_def links_at_def end_position_def new_node_def draw_node_def split: link_end.split option.split)
  have ex: "end_exists v e \<Longrightarrow> end_exists (get_node i v) e" for e
    using None by (auto simp: get_node_def end_exists_def split: link_end.split_asm option.splits)
  have ls: "links (get_node i v) = links v" using None by (simp add: get_node_def)
  have nd: "node_index n = j \<and> node_drawn n" if "dict_get (nodes (get_node i v)) j = Some n" for j n
    using that ok None by (auto simp: get_node_def new_node_drawn canvas_ok_def tables_ok_def nodes_drawn_def split: if_splits)
  have "tables_ok (get_node i v)"
    using ok nd by (auto simp: canvas_ok_def intro!: tables_ok_grow [OF _ ls at(1) ex])
  moreover have "points_ok (get_node i v)"
    using ok by (auto simp: canvas_ok_def intro!: points_ok_same_places [OF _ ls at(2)])
  ultimately show ?thesis using nd by (auto simp: canvas_ok_def nodes_drawn_def)
qed (simp add: get_node_def)

lemma canvas_ok_get_channel: "canvas_ok v \<Longrightarrow> canvas_ok (get_channel c v)"
proof (cases "dict_get (channels v) c")
  case None
  assume ok: "canvas_ok v"
  have at: "links_at (get_channel c v) e = links_at v e" "end_position (get_channel c v) e = end_position v e" for e
    using None by (auto simp: get_channel_def links_at_def end_position_def new_channel_def split: link_end.split option.split)
  have ex: "end_exists v e \<Longrightarrow> end_exists (get_channel c v) e" for e
    using None by (auto simp: get_channel_def end_exists_def split: link_end.split_asm option.splits)
  have ls: "links (get_channel c v) = links v" "nodes (get_channel c v) = nodes v" using None by (simp_all add: get_channel_def)
  have "tables_ok (get_channel c v)"
    using ok by (auto simp: canvas_ok_def ls intro!: tables_ok_grow [OF _ ls(1) at(1) ex]) (simp add: tables_ok_def)
  moreover have "points_ok (get_channel c v)"
    using ok by (auto simp: canvas_ok_def intro!: points_ok_same_places [OF _ ls(1) at(2)])
  ultimately show ?thesis using ok by (simp add: canvas_ok_def nodes_drawn_def ls)
qed (simp add: get_channel_def)

lemma links_at_create:
  assumes "dict_get (nodes v) i \<noteq> None" "end_exists v e"
  shows "links_at (create_link i e v) e' =
    links_at v e' @ (if e' = Node_End i then [length (links v)] else []) @ (if e' = e then [length (links v)] else [])"
  using assms by (cases e; cases e') (auto simp: create_link_def links_at_def end_exists_def Let_def split: option.split)

lemma create_link_frame:
  "links (create_link i e v) = links v @ [\<lparr>node1 = i, node2 = e, points = None\<rparr>]"
  "end_exists (create_link i e v) e' = end_exists v e'" "end_position (create_link i e v) e' = end_position v e'"
  "selected_node (create_link i e v) = selected_node v" "interest (create_link i e v) = interest v"
  "show_mode (create_link i e v) = show_mode v" "node_count (create_link i e v) = node_count v"
  "in_ipython (create_link i e v) = in_ipython v" "user_selected (create_link i e v) = user_selected v"
  "mobility (create_link i e v) = mobility v"
  by (cases e; cases e'; auto simp: create_link_def end_exists_def end_position_def Let_def split: option.split)+

lemma node_drawn_links [simp]: "node_drawn (n\<lparr>node_links := ls\<rparr>) = node_drawn n"
  by (simp add: node_drawn_def appearance_of_def label_point_def)

lemma nodes_create_link:
  "dict_get (nodes (create_link i e v)) j = Some n' \<Longrightarrow>
     \<exists>n. dict_get (nodes v) j = Some n \<and> node_index n' = node_index n \<and> selected n' = selected n \<and> (node_drawn n \<longrightarrow> node_drawn n')"
  by (cases e) (auto simp: create_link_def Let_def split: if_splits)

lemma canvas_ok_create_link:
  assumes "canvas_ok v" "dict_get (nodes v) i \<noteq> None" "end_exists v e"
  shows "canvas_ok (create_link i e v)"
proof -
  let ?w = "create_link i e v" and ?l = "\<lparr>node1 = i, node2 = e, points = None\<rparr>"
  note at = links_at_create [OF assms(2,3)]
  have ok: "tables_ok v" "points_ok v" "nodes_drawn v" using assms(1) by (simp_all add: canvas_ok_def)
  have old: "links ?w ! k = links v ! k" if "k < length (links v)" for k
    using that by (simp add: create_link_frame nth_append)
  have new: "links ?w ! length (links v) = ?l" by (simp add: create_link_frame)
  have len: "length (links ?w) = Suc (length (links v))" by (simp add: create_link_frame)
  have ends: "set (ends_of ?l) = {Node_End i, e}" by (simp add: ends_of_def)
  have "end_exists v (Node_End i)" using assms(2) by (simp add: end_exists_def)
  then have ex: "end_exists ?w (Node_End i)" "end_exists ?w e" using assms(3) by (simp_all add: create_link_frame(2))
  have "end_exists ?w e' \<and> k \<in> set (links_at ?w e')" if "k < length (links ?w)" "e' \<in> set (ends_of (links ?w ! k))" for k e'
  proof (cases "k < length (links v)")
    case True
    then show ?thesis using ok(1) that old unfolding tables_ok_def at create_link_frame(2) by auto
  next
    case False
    then have "k = length (links v)" using that(1) len by simp
    then show ?thesis using that(2) ex new ends by (auto simp: at)
  qed
  moreover have "k < length (links ?w) \<and> e' \<in> set (ends_of (links ?w ! k))" if "k \<in> set (links_at ?w e')" for k e'
  proof (cases "k \<in> set (links_at v e')")
    case True
    then have "k < length (links v) \<and> e' \<in> set (ends_of (links v ! k))" using ok(1) unfolding tables_ok_def by blast
    then show ?thesis using old len by simp
  next
    case False
    then have "k = length (links v)" "e' = Node_End i \<or> e' = e" using that by (auto simp: at split: if_splits)
    then show ?thesis using new ends len by auto
  qed
  moreover have "node_index n = j" if "dict_get (nodes ?w) j = Some n" for j n
    using nodes_create_link [OF that] ok(1) unfolding tables_ok_def by metis
  ultimately have "tables_ok ?w" unfolding tables_ok_def by blast
  moreover have "drawn_points ?w l = drawn_points v l" for l by (simp add: drawn_points_def create_link_frame(3))
  then have "points_ok ?w" using ok(2) by (auto simp: points_ok_def create_link_frame(1))
  moreover have "nodes_drawn ?w" using nodes_create_link ok(3) unfolding nodes_drawn_def by metis
  ultimately show ?thesis by (simp add: canvas_ok_def)
qed

subsection \<open>Selection\<close>

lemma nodes_set_selected:
  "dict_get (nodes (set_selected i b v)) j =
     (if j = i then map_option (\<lambda>n. redraw (n\<lparr>selected := b\<rparr>)) (dict_get (nodes v) j) else dict_get (nodes v) j)"
  by (simp add: set_selected_def nodes_update_appearance option.map_comp o_def)

lemma set_selected_frame [simp]:
  "selected_node (set_selected i b v) = selected_node v" "show_mode (set_selected i b v) = show_mode v"
  "interest (set_selected i b v) = interest v" "node_count (set_selected i b v) = node_count v"
  "in_ipython (set_selected i b v) = in_ipython v" "user_selected (set_selected i b v) = user_selected v"
  "mobility (set_selected i b v) = mobility v" "drag (set_selected i b v) = drag v"
  by (simp_all add: set_selected_def)

lemma canvas_ok_cong:
  assumes "nodes w = nodes v" "channels w = channels v" "links w = links v"
  shows "canvas_ok w = canvas_ok v"
proof -
  have "end_exists w = end_exists v" "links_at w = links_at v" "end_position w = end_position v"
    using assms by (simp_all add: fun_eq_iff end_exists_def links_at_def end_position_def split: link_end.split)
  then show ?thesis using assms by (simp add: canvas_ok_def tables_ok_def points_ok_def nodes_drawn_def drawn_points_def)
qed

lemma canvas_ok_fields:
  "canvas_ok (v\<lparr>selected_node := x\<rparr>) = canvas_ok v" "canvas_ok (v\<lparr>interest := ns\<rparr>) = canvas_ok v"
  "canvas_ok (v\<lparr>show_mode := m\<rparr>) = canvas_ok v" "canvas_ok (v\<lparr>user_selected := x\<rparr>) = canvas_ok v"
  "canvas_ok (v\<lparr>mobility := p\<rparr>) = canvas_ok v" "canvas_ok (v\<lparr>drag := d\<rparr>) = canvas_ok v"
  "canvas_ok (v\<lparr>motion_signals := ms\<rparr>) = canvas_ok v"
  by (rule canvas_ok_cong; simp)+

lemma change_selection_ok:
  assumes "view_ok v" "\<And>i. node = Some i \<Longrightarrow> dict_get (nodes v) i \<noteq> None"
  shows "view_ok (change_selection node v) \<and> selected_node (change_selection node v) = node"
proof (cases "node = selected_node v")
  case True
  then show ?thesis using assms(1) by (simp add: change_selection_def)
next
  case False
  have c: "canvas_ok (change_selection node v)"
    using assms(1) by (auto simp: change_selection_def view_ok_def canvas_ok_fields canvas_ok_setters update_ipython_selected_node_def
        set_nodes_of_interest_def Let_def split: option.split)
  have s: "selection_ok (change_selection node v)"
    using assms False by (auto simp: change_selection_def view_ok_def selection_ok_def update_ipython_selected_node_def
        set_nodes_of_interest_def nodes_set_selected Let_def split: option.splits if_splits)
  have "interest (change_selection node v) = wanted_nodes (change_selection node v)"
    using assms(1) False by (auto simp: change_selection_def view_ok_def wanted_nodes_def update_ipython_selected_node_def
        set_nodes_of_interest_def Let_def split: option.splits show_mode.splits)
  with c s show ?thesis
    using False by (auto simp: view_ok_def change_selection_def update_ipython_selected_node_def set_nodes_of_interest_def Let_def
        split: option.splits)
qed

subsection \<open>Every operation keeps the invariant\<close>

text \<open>An operation that leaves the selection and the choice of the user alone.\<close>

definition same_choice :: "view \<Rightarrow> view \<Rightarrow> bool" where
  "same_choice v w \<longleftrightarrow> (\<forall>i. map_option selected (dict_get (nodes w) i) = map_option selected (dict_get (nodes v) i)) \<and>
     selected_node w = selected_node v \<and> show_mode w = show_mode v \<and> interest w = interest v \<and> node_count w = node_count v \<and>
     in_ipython w = in_ipython v \<and> user_selected w = user_selected v"

lemma view_ok_same_choice:
  assumes "view_ok v" "canvas_ok w" "same_choice v w"
  shows "view_ok w"
proof -
  have eq: "map_option selected (dict_get (nodes w) i) = map_option selected (dict_get (nodes v) i)" for i
    using assms(3) unfolding same_choice_def by blast
  have same: "selected_node w = selected_node v" "in_ipython w = in_ipython v" "user_selected w = user_selected v"
    using assms(3) by (simp_all add: same_choice_def)
  have "selected n = (selected_node w = Some i)" if n: "dict_get (nodes w) i = Some n" for i n
  proof -
    obtain m where "dict_get (nodes v) i = Some m" "selected m = selected n"
      using eq [of i] n by (cases "dict_get (nodes v) i") auto
    then show ?thesis using assms(1) by (auto simp: view_ok_def selection_ok_def same)
  qed
  moreover have "dict_get (nodes w) i \<noteq> None" if "selected_node w = Some i" for i
    using assms(1) that eq [of i] by (auto simp: view_ok_def selection_ok_def same)
  ultimately have "selection_ok w"
    using assms(1) by (simp add: selection_ok_def view_ok_def same)
  moreover have "interest w = wanted_nodes w"
    using assms(1,3) by (simp add: view_ok_def same_choice_def wanted_nodes_def split: show_mode.split option.split)
  ultimately show ?thesis using assms(2) by (simp add: view_ok_def)
qed

lemma same_choice_set_position: "same_choice v (set_position e p v)"
  by (auto simp: same_choice_def nodes_set_position option.map_comp o_def)

lemma view_ok_set_position: "view_ok v \<Longrightarrow> view_ok (set_position e p v)"
  by (rule view_ok_same_choice [OF _ _ same_choice_set_position]) (auto simp: view_ok_def canvas_ok_set_position)

lemma same_choice_setter: "(\<And>n. selected (f n) = selected n) \<Longrightarrow> same_choice v (update_appearance i (upd_node i f v))"
  by (auto simp: same_choice_def nodes_update_appearance option.map_comp o_def)

lemma view_ok_setters:
  assumes "view_ok v"
  shows "view_ok (set_highlighted i b v)" "view_ok (set_size i x v)" "view_ok (set_color i c v)" "view_ok (set_label i t v)"
proof -
  have ok: "canvas_ok v" using assms by (simp add: view_ok_def)
  note c = canvas_ok_setters [OF ok]
  show "view_ok (set_highlighted i b v)"
    by (rule view_ok_same_choice [OF assms c(2)]) (simp add: set_highlighted_def same_choice_setter)
  show "view_ok (set_size i x v)"
    by (rule view_ok_same_choice [OF assms c(3)]) (simp add: set_size_def same_choice_setter)
  show "view_ok (set_color i c v)"
    by (rule view_ok_same_choice [OF assms c(4)]) (simp add: set_color_def same_choice_setter)
  show "view_ok (set_label i t v)"
    by (rule view_ok_same_choice [OF assms c(5)]) (simp add: set_label_def same_choice_setter)
qed

lemma view_ok_mode: "view_ok v \<Longrightarrow> view_ok (set_show_transmissions_mode m v)"
  by (auto simp: set_show_transmissions_mode_def set_nodes_of_interest_def view_ok_def selection_ok_def wanted_nodes_def
      canvas_ok_fields Let_def split: show_mode.split option.split)

lemma view_ok_fields:
  "view_ok (v\<lparr>mobility := p\<rparr>) = view_ok v" "view_ok (v\<lparr>drag := d\<rparr>) = view_ok v" "view_ok (v\<lparr>motion_signals := ms\<rparr>) = view_ok v"
  by (simp_all add: view_ok_def selection_ok_def wanted_nodes_def canvas_ok_fields split: show_mode.split option.split)

lemma view_ok_drag:
  assumes "view_ok v"
  shows "view_ok (begin_node_drag i p v)" "view_ok (node_drag_motion i p v)" "view_ok (end_node_drag i v)"
  using assms by (auto simp: begin_node_drag_def node_drag_motion_def end_node_drag_def view_ok_fields view_ok_set_position Let_def
      split: option.split)

lemma node_drawn_mobility [simp]: "node_drawn (n\<lparr>mobility_seen := b\<rparr>) = node_drawn n"
  by (simp add: node_drawn_def appearance_of_def label_point_def)

lemma view_ok_has_mobility: "view_ok v \<Longrightarrow> view_ok (snd (has_mobility i v))"
proof -
  assume ok: "view_ok v"
  let ?f = "\<lambda>n. n\<lparr>mobility_seen := Some (mobility v i \<noteq> None)\<rparr>"
  have "canvas_ok (upd_node i ?f v)"
    using ok by (auto simp: view_ok_def canvas_ok_def nodes_drawn_def intro!: tables_ok_shape [OF _ same_shape_upd_node] points_ok_upd_node
        split: if_splits)
  moreover have "same_choice v (upd_node i ?f v)"
    by (auto simp: same_choice_def option.map_comp o_def)
  ultimately have "view_ok (upd_node i ?f v)" using view_ok_same_choice [OF ok] by blast
  then show ?thesis using ok by (auto simp: has_mobility_def Let_def split: option.split)
qed

lemma view_ok_update_node_positions: "view_ok v \<Longrightarrow> view_ok (update_node_positions v)"
proof -
  have one: "view_ok (update_node_position i v)" if "view_ok v" for i v
    using view_ok_has_mobility [OF that, of i]
    by (auto simp: update_node_position_def view_ok_set_position split: prod.split option.split)
  have "view_ok (fold update_node_position is v)" if "view_ok v" for "is" v
    using that by (induction "is" arbitrary: v) (simp_all add: one)
  then show "view_ok v \<Longrightarrow> view_ok (update_node_positions v)" by (simp add: update_node_positions_def)
qed

lemma view_ok_fold_size: "view_ok v \<Longrightarrow> view_ok (fold (\<lambda>i. set_size i s) is v)"
  by (induction "is" arbitrary: v) (simp_all add: view_ok_setters)

lemma select_node_ok:
  assumes "view_ok v" "\<And>i. r = Ref_View i \<Longrightarrow> dict_get (nodes v) i \<noteq> None" "select_node r v = Inr v'"
  shows "view_ok v'"
proof -
  from assms(3) obtain node where node: "resolve_ref r v = Inr node" "v' = change_selection node v"
    by (auto simp: select_node_def)
  then have "\<And>i. node = Some i \<Longrightarrow> dict_get (nodes v) i \<noteq> None"
    using assms(2) by (auto simp: resolve_ref_def has_key_def split: node_ref.splits if_splits)
  then show ?thesis using change_selection_ok [OF assms(1)] node(2) by blast
qed

lemma handle_event_ok:
  assumes "view_ok v" "\<And>i. event_node ev = Some i \<Longrightarrow> dict_get (nodes v) i \<noteq> None" "handle_event ev v = Inr v'"
  shows "view_ok v'"
proof (cases ev)
  case (Root_Press b)
  then show ?thesis
    using assms(3) select_node_ok [OF assms(1), of Ref_None] assms(1)
    by (auto simp: handle_event_def on_root_button_press_def split: if_splits)
next
  case (Node_Press b i p)
  then show ?thesis
    using assms select_node_ok [OF assms(1), of "Ref_View i"]
    by (auto simp: handle_event_def on_node_button_press_def event_node_def view_ok_drag split: if_splits)
next
  case (Select_Called r)
  then show ?thesis
    using assms(3) select_node_ok [OF assms(1), of r] assms(2) by (auto simp: handle_event_def event_node_def)
qed (use assms(1,3) in \<open>auto simp: handle_event_def on_node_button_release_def node_size_changed_def view_ok_setters
  view_ok_drag view_ok_mode view_ok_fold_size view_ok_update_node_positions split: if_splits\<close>)

text \<open>An exception in a handler is printed and the window goes on; it raises before anything is changed.\<close>

definition run_event :: "view_event \<Rightarrow> view \<Rightarrow> view" where
  "run_event ev v = (case handle_event ev v of Inl e \<Rightarrow> v | Inr w \<Rightarrow> w)"

definition known :: "view \<Rightarrow> nat \<Rightarrow> bool" where
  "known v i \<longleftrightarrow> dict_get (nodes v) i \<noteq> None"

lemma known_set_position [simp]: "known (set_position e p v) i = known v i"
  by (auto simp: known_def nodes_set_position)

lemma known_update_appearance [simp]: "known (update_appearance j v) i = known v i"
  by (auto simp: known_def nodes_update_appearance)

lemma known_upd_node [simp]: "known (upd_node j f v) i = known v i"
  by (auto simp: known_def)

lemma known_setters [simp]:
  "known (set_selected j b v) i = known v i" "known (set_highlighted j b v) i = known v i" "known (set_size j s v) i = known v i"
  unfolding set_selected_def set_highlighted_def set_size_def known_update_appearance known_upd_node by (rule refl)+

lemma known_change_selection [simp]: "known (change_selection node v) i = known v i"
  by (cases "selected_node v"; cases node)
    (auto simp: change_selection_def update_ipython_selected_node_def set_nodes_of_interest_def known_def nodes_set_selected Let_def)

lemma known_update_node_position [simp]: "known (update_node_position j v) i = known v i"
  by (auto simp: update_node_position_def has_mobility_def known_def nodes_set_position Let_def split: option.splits)

lemma known_fields [simp]:
  "known (v\<lparr>mobility := p\<rparr>) i = known v i" "known (v\<lparr>drag := d\<rparr>) i = known v i" "known (v\<lparr>motion_signals := m\<rparr>) i = known v i"
  "known (v\<lparr>interest := n\<rparr>) i = known v i" "known (v\<lparr>show_mode := s\<rparr>) i = known v i"
  by (simp_all add: known_def)

lemma known_fold:
  assumes "\<And>x v. known (f x v) i = known v i"
  shows "known (fold f xs v) i = known v i"
  by (induction xs arbitrary: v) (simp_all only: fold_simps assms)

lemma known_handle_event: "handle_event ev v = Inr w \<Longrightarrow> known w i = known v i"
proof (cases ev)
  case (Size_Changed s)
  assume "handle_event ev v = Inr w"
  then have "w = fold (\<lambda>i. set_size i s) (dict_keys (nodes v)) v"
    using Size_Changed by (simp add: handle_event_def node_size_changed_def)
  then show ?thesis by (simp only: known_fold [of "\<lambda>i. set_size i s"] known_setters)
next
  case View_Updated
  assume "handle_event ev v = Inr w"
  then have "w = fold update_node_position (dict_keys (nodes v)) v"
    using View_Updated by (simp add: handle_event_def update_node_positions_def)
  then show ?thesis by (simp only: known_fold [of update_node_position] known_update_node_position)
qed (auto simp: handle_event_def on_root_button_press_def on_node_button_press_def on_node_button_release_def select_node_def
  begin_node_drag_def node_drag_motion_def end_node_drag_def set_show_transmissions_mode_def set_nodes_of_interest_def Let_def
  split: if_splits option.splits show_mode.splits)

lemma run_event_ok:
  assumes "view_ok v" "\<And>i. event_node ev = Some i \<Longrightarrow> known v i"
  shows "view_ok (run_event ev v)" "known (run_event ev v) i = known v i"
  using handle_event_ok [OF assms(1) assms(2)[unfolded known_def]] known_handle_event [of ev v] assms(1)
  by (auto simp: run_event_def split: sum.split)

interpretation ve: event_handler run_event view_ok "\<lambda>v ev. \<forall>i. event_node ev = Some i \<longrightarrow> known v i"
  by unfold_locales (use run_event_ok in blast)+

lemmas run_events_ok = ve.run_keeps

section \<open>Dragging a node\<close>

definition dragged_to :: "point \<Rightarrow> point \<Rightarrow> point \<Rightarrow> point" where
  "dragged_to s0 p0 p = (fst s0 + (fst p - fst p0) / PIXELS_PER_METER, snd s0 + (snd p - snd p0) / PIXELS_PER_METER)"

lemma drag_press:
  assumes "mobility v i = Some s0" "drag v = None"
  shows "run_event (Node_Press 2 i p0) v = v\<lparr>drag := Some \<lparr>canvas0 = p0, sim0 = s0\<rparr>, motion_signals := motion_signals v @ [i]\<rparr>"
  using assms by (simp add: run_event_def handle_event_def on_node_button_press_def begin_node_drag_def)

lemma drag_motion:
  assumes "mobility v i \<noteq> None" "drag v = Some \<lparr>canvas0 = p0, sim0 = s0\<rparr>" "i \<in> set (motion_signals v)"
  shows "run_event (Node_Motion i p) v =
    set_position (Node_End i) (PIXELS_PER_METER * fst s0 + (fst p - fst p0), PIXELS_PER_METER * snd s0 + (snd p - snd p0))
      (v\<lparr>mobility := (mobility v)(i \<mapsto> dragged_to s0 p0 p)\<rparr>)"
  using assms by (auto simp: run_event_def handle_event_def node_drag_motion_def dragged_to_def transform_point_simulation_to_canvas_def
      transform_distance_canvas_to_simulation_def PIXELS_PER_METER_def algebra_simps Let_def)

lemma drag_motions:
  assumes "ps \<noteq> []" "mobility v i \<noteq> None" "drag v = Some \<lparr>canvas0 = p0, sim0 = s0\<rparr>" "i \<in> set (motion_signals v)" "dict_get (nodes v) i \<noteq> None"
  shows "\<exists>w. fold run_event (map (Node_Motion i) ps) v = w \<and>
    mobility w = (mobility v)(i \<mapsto> dragged_to s0 p0 (last ps)) \<and> drag w = drag v \<and> motion_signals w = motion_signals v \<and>
    (\<forall>j. j \<noteq> i \<longrightarrow> dict_get (nodes w) j = dict_get (nodes v) j) \<and>
    map_option center (dict_get (nodes w) i) =
      Some (PIXELS_PER_METER * fst s0 + (fst (last ps) - fst p0), PIXELS_PER_METER * snd s0 + (snd (last ps) - snd p0))"
  using assms
proof (induction ps arbitrary: v rule: list_nonempty_induct)
  case (single p)
  then show ?case by (auto simp: drag_motion nodes_set_position)
next
  case (cons p ps)
  let ?u = "run_event (Node_Motion i p) v"
  have u: "mobility ?u = (mobility v)(i \<mapsto> dragged_to s0 p0 p)" "drag ?u = drag v" "motion_signals ?u = motion_signals v"
    "\<And>j. j \<noteq> i \<Longrightarrow> dict_get (nodes ?u) j = dict_get (nodes v) j" "dict_get (nodes ?u) i \<noteq> None"
    using cons.prems by (auto simp: drag_motion nodes_set_position)
  show ?case using cons.IH [of ?u] u cons.prems cons.hyps by (simp add: fun_upd_def if_distrib cong: if_cong)
qed

text \<open>C31: A node whose position the simulation holds follows the pointer. Pressing the middle button on it,
  moving the pointer any number of times and releasing the button leaves the node moved by exactly the distance
  from the first place of the pointer to the last, on the canvas and, divided by the scale, in the simulation;
  the places in between do not count, no other node changes, and no handler stays connected. A node without a
  mobility model does not move.\<close>

theorem drag_follows_pointer:
  assumes "dict_get (nodes v) i = Some n" "drag v = None" "i \<notin> set (motion_signals v)" "ps \<noteq> []"
  shows "let w = fold run_event (Node_Press 2 i p0 # map (Node_Motion i) ps @ [Node_Release 2 i]) v; p = last ps in
    case mobility v i of
      None \<Rightarrow> w = v
    | Some s0 \<Rightarrow>
        mobility w = (mobility v)(i \<mapsto> (fst s0 + (fst p - fst p0) / 3, snd s0 + (snd p - snd p0) / 3)) \<and>
        map_option center (dict_get (nodes w) i) = Some (3 * fst s0 + (fst p - fst p0), 3 * snd s0 + (snd p - snd p0)) \<and>
        (\<forall>j. j \<noteq> i \<longrightarrow> dict_get (nodes w) j = dict_get (nodes v) j) \<and>
        drag w = None \<and> motion_signals w = motion_signals v"
proof (cases "mobility v i")
  case None
  have idle: "run_event (Node_Motion i p) v = v" for p
    using assms(3) by (simp add: run_event_def handle_event_def node_drag_motion_def)
  have "fold run_event (map (Node_Motion i) ps) v = v"
    by (induction ps) (simp_all add: idle)
  then show ?thesis using None assms(2)
    by (simp add: run_event_def handle_event_def on_node_button_press_def on_node_button_release_def begin_node_drag_def end_node_drag_def)
next
  case (Some s0)
  let ?u = "run_event (Node_Press 2 i p0) v"
  note press = drag_press [OF Some assms(2), of p0]
  obtain w where w: "fold run_event (map (Node_Motion i) ps) ?u = w" "mobility w = (mobility v)(i \<mapsto> dragged_to s0 p0 (last ps))"
    "drag w = Some \<lparr>canvas0 = p0, sim0 = s0\<rparr>" "motion_signals w = motion_signals v @ [i]"
    "\<And>j. j \<noteq> i \<Longrightarrow> dict_get (nodes w) j = dict_get (nodes v) j"
    "map_option center (dict_get (nodes w) i) =
      Some (PIXELS_PER_METER * fst s0 + (fst (last ps) - fst p0), PIXELS_PER_METER * snd s0 + (snd (last ps) - snd p0))"
    using drag_motions [OF assms(4), of ?u i p0 s0] Some assms(1) by (auto simp: press)
  have "run_event (Node_Release 2 i) w = w\<lparr>motion_signals := motion_signals v, drag := None\<rparr>"
    using w(3,4) assms(3) by (simp add: run_event_def handle_event_def on_node_button_release_def end_node_drag_def remove1_append)
  then show ?thesis
    using w Some by (simp add: Let_def dragged_to_def PIXELS_PER_METER_def)
qed

text \<open>A canvas with two nodes, one of them at a place the simulation knows.\<close>

definition empty_view :: "nat \<Rightarrow> (nat \<rightharpoonup> point) \<Rightarrow> view" where
  "empty_view n mob = \<lparr>nodes = [], channels = [], links = [], selected_node = None, show_mode = Show_All, interest = [0..<n],
     node_count = n, mobility = mob, drag = None, motion_signals = [], in_ipython = False, user_selected = None\<rparr>"

theorem drag_follows_pointer_witness:
  "let v = get_node 1 (get_node 0 (empty_view 2 [1 \<mapsto> (10, 20)]));
       w = fold run_event (Node_Press 2 1 (30, 60) # map (Node_Motion 1) [(90, 0), (36, 57)] @ [Node_Release 2 1]) v
   in mobility w = [1 \<mapsto> (12, 19)] \<and> map_option center (dict_get (nodes w) 1) = Some (36, 57)"
proof -
  let ?v = "get_node 1 (get_node 0 (empty_view 2 [1 \<mapsto> (10, 20)]))"
  have "dict_get (nodes ?v) 1 = Some (new_node 1)" "drag ?v = None" "1 \<notin> set (motion_signals ?v)" "mobility ?v = [1 \<mapsto> (10, 20)]"
    by (simp_all add: get_node_def empty_view_def)
  with drag_follows_pointer [of ?v 1 "new_node 1" "[(90, 0), (36, 57)]" "(30, 60)"] show ?thesis
    by (simp add: Let_def)
qed

lemma view_ok_empty: "view_ok (empty_view n mob)"
  by (auto simp: view_ok_def empty_view_def canvas_ok_def tables_ok_def points_ok_def nodes_drawn_def selection_ok_def wanted_nodes_def
      links_at_def split: link_end.splits)

end
