(* ===== verification/Viz_Scan.thy ===== *)
theory Viz_Scan
  imports Viz_Nodes
begin

text \<open>
  \<open>scan_topology\<close> of the visualizer (\<open>src/src/visualizer/visualizer/core.py\<close>): the objects and
  links it makes for the nodes of the simulation, and the layout of those whose position is not known.
  The topology is given as the list of the devices of each node and the nodes attached to each channel.
  pygraphviz is a parameter: \<open>layout\<close> gives for the calls that built the graph the names of its nodes
  with their attribute \<open>pos\<close>; \<open>float_of\<close> is \<open>float\<close> on the coordinates.
\<close>

section \<open>The simulation\<close>

record ns_device =
  device_class :: string
  device_channel :: "nat option"

record topology =
  node_devices :: "ns_device list list"
  channel_nodes :: "nat \<Rightarrow> nat list"

datatype graph_call = Add_Node string | Add_Edge string string

definition node_name :: "nat \<Rightarrow> string" where
  "node_name i = ''Node '' @ str_int (int i)"

definition channel_name :: "nat \<Rightarrow> string" where
  "channel_name c = ''Channel '' @ str_int (int c)"

record scan_state =
  scan_view :: view
  scan_graph :: "graph_call list"
  scan_traits :: "(string, device_traits) dict"

definition on_view :: "(view \<Rightarrow> view) \<Rightarrow> scan_state \<Rightarrow> scan_state" where
  "on_view f s = s\<lparr>scan_view := f (scan_view s)\<rparr>"

definition add_call :: "graph_call \<Rightarrow> scan_state \<Rightarrow> scan_state" where
  "add_call g s = s\<lparr>scan_graph := scan_graph s @ [g]\<rparr>"

section \<open>Scanning\<close>

text \<open>One other device of a channel with at most two; \<open>fixed\<close>: the position of the node scanned is known.\<close>

definition scan_other :: "nat \<Rightarrow> bool \<Rightarrow> nat \<Rightarrow> scan_state \<Rightarrow> scan_state" where
  "scan_other i fixed j s =
     (let s = on_view (get_node j) s in
      if j = i then s
      else
        let s = (if fixed then s
                 else let (b, v) = has_mobility j (scan_view s); s = s\<lparr>scan_view := v\<rparr>
                      in if b then s else add_call (Add_Edge (node_name i) (node_name j)) s)
        in on_view (\<lambda>v. create_link i (Node_End j) (get_node i v)) s)"

definition scan_device :: "topology \<Rightarrow> nat \<Rightarrow> bool \<Rightarrow> ns_device \<Rightarrow> scan_state \<Rightarrow> py_exn + scan_state" where
  "scan_device topo i fixed d s =
     (let (traits, warned, table) = lookup_netdevice_traits (scan_traits s) (device_class d);
          s = s\<lparr>scan_traits := table\<rparr>
      in if is_wireless traits = Some True then Inr s
         else if is_virtual traits then Inr s
         else case device_channel d of
           None \<Rightarrow> Inl AttributeError
         | Some c \<Rightarrow>
             if length (channel_nodes topo c) > 2
             then
               let s = (if fixed then s else add_call (Add_Edge (node_name i) (channel_name c)) s)
               in Inr (on_view (\<lambda>v. create_link i (Channel_End c) (get_node i (get_channel c v))) s)
             else Inr (fold (scan_other i fixed) (channel_nodes topo c) s))"

definition scan_node :: "topology \<Rightarrow> nat \<Rightarrow> scan_state \<Rightarrow> py_exn + scan_state" where
  "scan_node topo i s =
     (let s = on_view (get_node i) s in
      case mobility (scan_view s) i of
        Some pos \<Rightarrow>
          py_fold (scan_device topo i True) (node_devices topo ! i)
            (on_view (\<lambda>v. set_position (Node_End i) (transform_point_simulation_to_canvas (fst pos) (snd pos))
                            (set_color i (Color_Parsed 65535 0 0) v)) s)
      | None \<Rightarrow> py_fold (scan_device topo i False) (node_devices topo ! i) (add_call (Add_Node (node_name i)) s))"

text \<open>Placing one node of the graph: its name says which object it stands for.\<close>

definition layout_position :: "(string \<Rightarrow> py_exn + rat) \<Rightarrow> string \<Rightarrow> py_exn + point" where
  "layout_position float_of pos =
     py_bind (py_map float_of (split_on CHR '','' pos)) (\<lambda>xs. case xs of [x, y] \<Rightarrow> Inr (x, y) | _ \<Rightarrow> Inl ValueError)"

text \<open>\<open>None\<close>: the name is neither of a node nor of a channel, and the object of the turn before is moved again (or, the first time, there is none).\<close>

definition place_node :: "(string \<Rightarrow> py_exn + rat) \<Rightarrow> string \<times> string \<Rightarrow> view \<times> link_end option \<Rightarrow> py_exn + view \<times> link_end option" where
  "place_node float_of entry vo =
     (case split_on CHR '' '' (fst entry) of
        [node_type, node_id] \<Rightarrow>
          py_bind (layout_position float_of (snd entry)) (\<lambda>p.
          py_bind (if node_type = ''Node''
                   then py_bind (py_int node_id) (\<lambda>k.
                     if 0 \<le> k \<and> has_key (nodes (fst vo)) (nat k) then Inr (Some (Node_End (nat k))) else Inl KeyError)
                   else if node_type = ''Channel''
                   then py_bind (py_int node_id) (\<lambda>k.
                     if 0 \<le> k \<and> has_key (channels (fst vo)) (nat k) then Inr (Some (Channel_End (nat k))) else Inl KeyError)
                   else Inr (snd vo)) (\<lambda>ob.
          case ob of
            None \<Rightarrow> Inl NameError
          | Some e \<Rightarrow> Inr (set_position e p (fst vo), Some e)))
      | _ \<Rightarrow> Inl ValueError)"

definition scan_nodes :: "topology \<Rightarrow> scan_state \<Rightarrow> py_exn + scan_state" where
  "scan_nodes topo s = py_fold (scan_node topo) [0..<length (node_devices topo)] s"

definition scan_topology ::
  "(graph_call list \<Rightarrow> (string \<times> string) list) \<Rightarrow> (string \<Rightarrow> py_exn + rat) \<Rightarrow> topology \<Rightarrow> (string, device_traits) dict \<Rightarrow> view \<Rightarrow> py_exn + view"
where
  "scan_topology layout float_of topo table v =
     py_bind (scan_nodes topo \<lparr>scan_view = v, scan_graph = [], scan_traits = table\<rparr>) (\<lambda>s.
     py_bind (py_fold (place_node float_of) (layout (scan_graph s)) (scan_view s, None)) (\<lambda>vo. Inr (fst vo)))"

section \<open>What the scan has to make\<close>

definition wired :: "(string, device_traits) dict \<Rightarrow> string \<Rightarrow> bool" where
  "wired table cls = (case dict_get table cls of None \<Rightarrow> False | Some t \<Rightarrow> is_wireless t \<noteq> Some True \<and> \<not> is_virtual t)"

definition channel_ends :: "topology \<Rightarrow> nat \<Rightarrow> nat \<Rightarrow> link_end list" where
  "channel_ends topo i c =
     (if length (channel_nodes topo c) > 2 then [Channel_End c] else map Node_End (filter (\<lambda>j. j \<noteq> i) (channel_nodes topo c)))"

definition device_links :: "(string, device_traits) dict \<Rightarrow> topology \<Rightarrow> nat \<Rightarrow> ns_device \<Rightarrow> (nat \<times> link_end) list" where
  "device_links table topo i d =
     (if wired table (device_class d) then case device_channel d of None \<Rightarrow> [] | Some c \<Rightarrow> map (Pair i) (channel_ends topo i c) else [])"

definition node_link_list :: "(string, device_traits) dict \<Rightarrow> topology \<Rightarrow> nat \<Rightarrow> (nat \<times> link_end) list" where
  "node_link_list table topo i = concat (map (device_links table topo i) (node_devices topo ! i))"

definition topology_ok :: "(string, device_traits) dict \<Rightarrow> topology \<Rightarrow> bool" where
  "topology_ok table topo \<longleftrightarrow>
     (\<forall>ds\<in>set (node_devices topo). \<forall>d\<in>set ds. wired table (device_class d) \<longrightarrow>
        (\<exists>c. device_channel d = Some c \<and> (\<forall>j\<in>set (channel_nodes topo c). j < length (node_devices topo))))"

definition call_names :: "graph_call list \<Rightarrow> string set" where
  "call_names gs = (\<Union>g\<in>set gs. case g of Add_Node n \<Rightarrow> {n} | Add_Edge m n \<Rightarrow> {m, n})"

lemma call_names_simps [simp]: "call_names [] = {}" "call_names (gs @ [g]) = call_names gs \<union> call_names [g]"
  "call_names [Add_Node n] = {n}" "call_names [Add_Edge m n] = {m, n}"
  by (auto simp: call_names_def)

definition link_pairs :: "view \<Rightarrow> (nat \<times> link_end) list" where
  "link_pairs v = map (\<lambda>l. (node1 l, node2 l)) (links v)"

definition seen_ok :: "view \<Rightarrow> bool" where
  "seen_ok v \<longleftrightarrow> (\<forall>i n b. dict_get (nodes v) i = Some n \<and> mobility_seen n = Some b \<longrightarrow> b = (mobility v i \<noteq> None))"

text \<open>The names the links from nodes without a known position bring into the graph.\<close>

fun end_name :: "link_end \<Rightarrow> string" where
  "end_name (Node_End j) = node_name j"
| "end_name (Channel_End c) = channel_name c"

definition free_end :: "(nat \<rightharpoonup> point) \<Rightarrow> link_end \<Rightarrow> bool" where
  "free_end mob e = (case e of Node_End j \<Rightarrow> mob j = None | Channel_End c \<Rightarrow> True)"

definition graph_names :: "(nat \<rightharpoonup> point) \<Rightarrow> nat set \<Rightarrow> (nat \<times> link_end) list \<Rightarrow> string set" where
  "graph_names mob S L = node_name ` {i \<in> S. mob i = None} \<union> end_name ` {e. \<exists>i. (i, e) \<in> set L \<and> mob i = None \<and> free_end mob e}"

text \<open>The state while the nodes of \<open>S\<close> are being scanned, with the links \<open>L\<close> made so far.\<close>

definition scan_inv ::
  "(string, device_traits) dict \<Rightarrow> nat \<Rightarrow> (nat \<rightharpoonup> point) \<Rightarrow> nat set \<Rightarrow> (nat \<times> link_end) list \<Rightarrow> scan_state \<Rightarrow> bool"
where
  "scan_inv table N mob S L s \<longleftrightarrow>
     view_ok (scan_view s) \<and> mobility (scan_view s) = mob \<and> seen_ok (scan_view s) \<and> link_pairs (scan_view s) = L \<and>
     (\<forall>cls. wired (scan_traits s) cls = wired table cls) \<and> call_names (scan_graph s) = graph_names mob S L \<and>
     (\<forall>i\<in>S. known (scan_view s) i) \<and> (\<forall>i. known (scan_view s) i \<longrightarrow> i < N) \<and>
     (\<forall>i\<in>S. \<forall>pos. mob i = Some pos \<longrightarrow> end_position (scan_view s) (Node_End i) = transform_point_simulation_to_canvas (fst pos) (snd pos))"

subsection \<open>The steps keep it\<close>

lemma get_node_frame [simp]:
  "mobility (get_node i v) = mobility v" "links (get_node i v) = links v" "known (get_node i v) j \<longleftrightarrow> j = i \<or> known v j"
  "link_pairs (get_node i v) = link_pairs v"
  by (auto simp: get_node_def known_def link_pairs_def split: option.split)

lemma seen_okI: "(\<And>j n b. dict_get (nodes v) j = Some n \<Longrightarrow> mobility_seen n = Some b \<Longrightarrow> b = (mobility v j \<noteq> None)) \<Longrightarrow> seen_ok v"
  by (simp add: seen_ok_def)

lemma seen_okD: "seen_ok v \<Longrightarrow> dict_get (nodes v) j = Some n \<Longrightarrow> mobility_seen n = Some b \<Longrightarrow> b = (mobility v j \<noteq> None)"
  unfolding seen_ok_def by blast

lemma new_node_unseen [simp]: "mobility_seen (new_node i) = None"
  by (simp add: new_node_def draw_node_def)

lemma seen_ok_get_node [simp]: "seen_ok v \<Longrightarrow> seen_ok (get_node i v)"
  by (rule seen_okI) (auto simp: get_node_def simp del: not_None_eq split: option.splits if_splits dest: seen_okD)

lemma get_node_keeps: "known v j \<Longrightarrow> dict_get (nodes (get_node i v)) j = dict_get (nodes v) j"
  by (auto simp: get_node_def known_def split: option.split)

lemma same_choice_get_node: "view_ok v \<Longrightarrow> view_ok (get_node i v)"
proof (cases "dict_get (nodes v) i")
  case None
  assume ok: "view_ok v"
  then have "canvas_ok (get_node i v)" by (simp add: view_ok_def canvas_ok_get_node)
  moreover have "selection_ok (get_node i v)" "interest (get_node i v) = wanted_nodes (get_node i v)"
    using ok None by (auto simp: view_ok_def selection_ok_def get_node_def new_node_drawn wanted_nodes_def
        split: show_mode.split option.split)
  ultimately show ?thesis by (simp add: view_ok_def)
qed (simp add: get_node_def)

lemma get_channel_frame [simp]:
  "mobility (get_channel c v) = mobility v" "nodes (get_channel c v) = nodes v" "links (get_channel c v) = links v"
  "known (get_channel c v) j = known v j" "seen_ok (get_channel c v) = seen_ok v" "link_pairs (get_channel c v) = link_pairs v"
  "dict_get (channels (get_channel c v)) c \<noteq> None"
  by (auto simp: get_channel_def known_def seen_ok_def link_pairs_def split: option.split)

lemma view_ok_get_channel: "view_ok v \<Longrightarrow> view_ok (get_channel c v)"
proof -
  assume ok: "view_ok v"
  have "same_choice v (get_channel c v)"
    by (auto simp: same_choice_def get_channel_def split: option.split)
  then show ?thesis using view_ok_same_choice [OF ok] ok by (simp add: view_ok_def canvas_ok_get_channel)
qed

lemma link_pairs_create_link [simp]: "link_pairs (create_link i e v) = link_pairs v @ [(i, e)]"
  by (simp add: link_pairs_def create_link_frame)

lemma known_create_link [simp]: "known (create_link i e v) j = known v j"
  by (cases e) (auto simp: known_def create_link_def Let_def)

lemma seen_create_link:
  "dict_get (nodes (create_link i e v)) j = Some n' \<Longrightarrow> \<exists>n. dict_get (nodes v) j = Some n \<and> mobility_seen n' = mobility_seen n"
  by (cases e) (auto simp: create_link_def Let_def split: if_splits)

lemma seen_ok_create_link [simp]: "seen_ok v \<Longrightarrow> seen_ok (create_link i e v)"
  by (rule seen_okI) (auto simp: create_link_frame simp del: not_None_eq dest!: seen_create_link dest: seen_okD)

lemma view_ok_create_link:
  assumes "view_ok v" "known v i" "end_exists v e"
  shows "view_ok (create_link i e v)"
proof -
  have "same_choice v (create_link i e v)"
    by (cases e) (auto simp: same_choice_def create_link_def option.map_comp o_def Let_def)
  then show ?thesis using view_ok_same_choice [OF assms(1)] assms by (simp add: view_ok_def known_def canvas_ok_create_link)
qed

lemma scan_inv_view:
  assumes "scan_inv table N mob S L s" "view_ok (f (scan_view s))" "mobility (f (scan_view s)) = mob" "seen_ok (f (scan_view s))"
    "link_pairs (f (scan_view s)) = L'" "graph_names mob S L' = graph_names mob S L"
    "\<And>j. known (scan_view s) j \<Longrightarrow> known (f (scan_view s)) j" "\<And>j. known (f (scan_view s)) j \<Longrightarrow> j < N"
    "\<And>j. known (scan_view s) j \<Longrightarrow> end_position (f (scan_view s)) (Node_End j) = end_position (scan_view s) (Node_End j)"
  shows "scan_inv table N mob S L' (on_view f s)"
  using assms unfolding scan_inv_def on_view_def by simp

lemma end_position_get_node: "known v j \<Longrightarrow> end_position (get_node i v) (Node_End j) = end_position v (Node_End j)"
  by (simp add: end_position_def get_node_keeps)

lemma scan_inv_get_node: "scan_inv table N mob S L s \<Longrightarrow> j < N \<Longrightarrow> scan_inv table N mob S L (on_view (get_node j) s)"
  by (rule scan_inv_view) (auto simp: scan_inv_def same_choice_get_node end_position_get_node)

lemma get_node_known: "known v i \<Longrightarrow> get_node i v = v"
  by (auto simp: get_node_def known_def)

lemma graph_names_more:
  "graph_names mob S (L @ [(i, e)]) = graph_names mob S L \<union> (if mob i = None \<and> free_end mob e then {end_name e} else {})"
  by (auto simp: graph_names_def)

lemma scan_inv_known: "scan_inv table N mob S L s \<Longrightarrow> i \<in> S \<Longrightarrow> known (scan_view s) i"
  by (simp add: scan_inv_def)

text \<open>A link from a node that has been reached, with the edge for the layout when both ends are free.\<close>

lemma scan_inv_link:
  assumes "scan_inv table N mob S L s" "i \<in> S" "end_exists (scan_view s) e"
    "t = (if mob i = None \<and> free_end mob e then add_call (Add_Edge (node_name i) (end_name e)) s else s)"
  shows "scan_inv table N mob S (L @ [(i, e)]) (on_view (\<lambda>v. create_link i e (get_node i v)) t)"
proof -
  have known: "known (scan_view s) i" using assms(1,2) by (rule scan_inv_known)
  have names: "call_names (scan_graph t) = graph_names mob S (L @ [(i, e)])"
    using assms(1,2,4) by (auto simp: scan_inv_def graph_names_more add_call_def) (auto simp: graph_names_def)
  show ?thesis
    using assms names known
    by (auto simp: scan_inv_def on_view_def add_call_def get_node_known view_ok_create_link create_link_frame)
qed

lemma has_mobility_result:
  assumes "seen_ok v" "known v j"
  shows "fst (has_mobility j v) = (mobility v j \<noteq> None)"
  using assms by (auto simp: has_mobility_def known_def Let_def split: option.split dest: seen_okD)

lemma has_mobility_frame:
  "mobility (snd (has_mobility j v)) = mobility v" "links (snd (has_mobility j v)) = links v"
  "known (snd (has_mobility j v)) i = known v i" "seen_ok v \<Longrightarrow> seen_ok (snd (has_mobility j v))"
  "end_position (snd (has_mobility j v)) e = end_position v e" "end_exists (snd (has_mobility j v)) e = end_exists v e"
proof -
  let ?f = "\<lambda>n. n\<lparr>mobility_seen := Some (mobility v j \<noteq> None)\<rparr>"
  have cases: "snd (has_mobility j v) = v \<or> snd (has_mobility j v) = upd_node j ?f v"
    by (auto simp: has_mobility_def Let_def split: option.split)
  have "end_position (upd_node j ?f v) e = end_position v e" by (rule end_position_upd_node) simp
  moreover have "end_exists (upd_node j ?f v) e = end_exists v e"
    by (auto simp: end_exists_def split: link_end.split)
  ultimately show "end_position (snd (has_mobility j v)) e = end_position v e" "end_exists (snd (has_mobility j v)) e = end_exists v e"
    "mobility (snd (has_mobility j v)) = mobility v" "links (snd (has_mobility j v)) = links v"
    "known (snd (has_mobility j v)) i = known v i"
    using cases by auto
  assume "seen_ok v"
  then have "seen_ok (upd_node j ?f v)"
    by (intro seen_okI) (auto simp del: not_None_eq split: if_splits dest: seen_okD)
  then show "seen_ok (snd (has_mobility j v))" using cases \<open>seen_ok v\<close> by auto
qed

lemma scan_other_inv:
  assumes "scan_inv table N mob S L s" "i \<in> S" "j < N"
  shows "scan_inv table N mob S (L @ (if j = i then [] else [(i, Node_End j)])) (scan_other i (mob i \<noteq> None) j s)"
proof (cases "j = i")
  case True
  then show ?thesis using scan_inv_get_node [OF assms(1,3)] by (simp add: scan_other_def Let_def)
next
  case False
  let ?s = "on_view (get_node j) s"
  note inv = scan_inv_get_node [OF assms(1,3)]
  have ex: "end_exists (scan_view ?s) (Node_End j)"
    using get_node_frame(3) [of j "scan_view s" j] by (auto simp: on_view_def end_exists_def known_def)
  show ?thesis
  proof (cases "mob i = None")
    case True
    let ?t = "?s\<lparr>scan_view := snd (has_mobility j (scan_view ?s))\<rparr>"
    have b: "fst (has_mobility j (scan_view ?s)) = (mob j \<noteq> None)"
      using inv ex by (subst has_mobility_result) (auto simp: scan_inv_def end_exists_def known_def)
    have inv': "scan_inv table N mob S L ?t"
      using scan_inv_view [OF inv, of "\<lambda>v. snd (has_mobility j v)" L] inv
      by (simp add: on_view_def has_mobility_frame view_ok_has_mobility scan_inv_def link_pairs_def)
    have "end_exists (scan_view ?t) (Node_End j)" using ex by (simp add: has_mobility_frame)
    from scan_inv_link [OF inv' assms(2) this refl] show ?thesis
      using False True b by (simp add: scan_other_def Let_def case_prod_unfold free_end_def) (auto split: if_splits)
  next
    case mob: False
    from scan_inv_link [OF inv assms(2) ex refl] show ?thesis
      using False mob by (simp add: scan_other_def Let_def)
  qed
qed

lemma scan_others_inv:
  assumes "i \<in> S" "\<forall>j\<in>set js. j < N"
  shows "scan_inv table N mob S L s \<Longrightarrow>
    scan_inv table N mob S (L @ map (\<lambda>j. (i, Node_End j)) (filter (\<lambda>j. j \<noteq> i) js)) (fold (scan_other i (mob i \<noteq> None)) js s)"
  using assms(2)
proof (induction js arbitrary: s L)
  case (Cons j js)
  have "j < N" "\<forall>j\<in>set js. j < N" using Cons.prems(2) by simp_all
  from Cons.IH [OF scan_other_inv [OF Cons.prems(1) assms(1) this(1)] this(2)] show ?case by (cases "j = i") simp_all
qed simp

lemma lookup_wired:
  assumes "lookup_netdevice_traits tab cls = (t, w, tab')" "\<forall>c. wired tab c = wired table c"
  shows "\<forall>c. wired tab' c = wired table c" "wired table cls \<longleftrightarrow> is_wireless t \<noteq> Some True \<and> \<not> is_virtual t"
proof -
  have "wired tab' c = wired tab c" for c
    using assms(1) by (auto simp: lookup_netdevice_traits_def wired_def Let_def split: option.splits if_splits)
  then show "\<forall>c. wired tab' c = wired table c" using assms(2) by simp
  have "wired tab cls \<longleftrightarrow> is_wireless t \<noteq> Some True \<and> \<not> is_virtual t"
    using assms(1) by (auto simp: lookup_netdevice_traits_def wired_def Let_def split: option.splits)
  then show "wired table cls \<longleftrightarrow> is_wireless t \<noteq> Some True \<and> \<not> is_virtual t" using assms(2) by simp
qed

definition device_ok :: "(string, device_traits) dict \<Rightarrow> topology \<Rightarrow> nat \<Rightarrow> ns_device \<Rightarrow> bool" where
  "device_ok table topo N d \<longleftrightarrow>
     (wired table (device_class d) \<longrightarrow> (\<exists>c. device_channel d = Some c \<and> (\<forall>j\<in>set (channel_nodes topo c). j < N)))"

lemma end_exists_channel [simp]: "end_exists (get_channel c v) (Channel_End c)"
  using get_channel_frame(7) [of c v] by (auto simp: end_exists_def)

lemma scan_device_inv:
  assumes "scan_inv table N mob S L s" "i \<in> S" "device_ok table topo N d"
  shows "\<exists>s'. scan_device topo i (mob i \<noteq> None) d s = Inr s' \<and> scan_inv table N mob S (L @ device_links table topo i d) s'"
proof -
  obtain t w tab where l: "lookup_netdevice_traits (scan_traits s) (device_class d) = (t, w, tab)" by (metis prod_cases3)
  let ?s = "s\<lparr>scan_traits := tab\<rparr>"
  have "\<forall>c. wired (scan_traits s) c = wired table c" using assms(1) by (simp add: scan_inv_def)
  note w = lookup_wired [OF l this]
  have inv: "scan_inv table N mob S L ?s" using assms(1) w(1) by (simp add: scan_inv_def)
  show ?thesis
  proof (cases "wired table (device_class d)")
    case False
    then show ?thesis using inv w(2) l by (cases "is_wireless t = Some True") (auto simp: scan_device_def device_links_def Let_def)
  next
    case True
    then obtain c where c: "device_channel d = Some c" "\<forall>j\<in>set (channel_nodes topo c). j < N"
      using assms(3) by (auto simp: device_ok_def)
    have go: "\<not> is_wireless t = Some True" "\<not> is_virtual t" using True w(2) by auto
    show ?thesis
    proof (cases "2 < length (channel_nodes topo c)")
      case small: False
      then show ?thesis
        using scan_others_inv [OF assms(2) c(2) inv] c(1) l go True
        by (simp add: scan_device_def device_links_def channel_ends_def Let_def comp_def)
    next
      case big: True
      have "scan_inv table N mob S L (on_view (get_channel c) ?s)"
        by (rule scan_inv_view [OF inv]) (use inv in \<open>auto simp: scan_inv_def view_ok_get_channel end_position_def\<close>)
      from scan_inv_link [OF this assms(2), of "Channel_End c", OF _ refl]
      have "scan_inv table N mob S (L @ [(i, Channel_End c)])
          (on_view (\<lambda>v. create_link i (Channel_End c) (get_node i v))
            (if mob i = None then add_call (Add_Edge (node_name i) (channel_name c)) (on_view (get_channel c) ?s) else on_view (get_channel c) ?s))"
        by (auto simp: free_end_def on_view_def [of "get_channel c"] split: if_splits)
      moreover have "on_view (\<lambda>v. create_link i (Channel_End c) (get_node i v))
            (if mob i = None then add_call (Add_Edge (node_name i) (channel_name c)) (on_view (get_channel c) ?s) else on_view (get_channel c) ?s)
          = on_view (\<lambda>v. create_link i (Channel_End c) (get_node i (get_channel c v)))
            (if mob i \<noteq> None then ?s else add_call (Add_Edge (node_name i) (channel_name c)) ?s)"
        by (simp add: on_view_def add_call_def)
      ultimately show ?thesis using big c(1) l go True
        by (simp add: scan_device_def device_links_def channel_ends_def Let_def)
    qed
  qed
qed

lemma scan_devices_inv:
  assumes "i \<in> S" "\<forall>d\<in>set ds. device_ok table topo N d"
  shows "scan_inv table N mob S L s \<Longrightarrow>
    \<exists>s'. py_fold (scan_device topo i (mob i \<noteq> None)) ds s = Inr s' \<and>
      scan_inv table N mob S (L @ concat (map (device_links table topo i) ds)) s'"
  using assms(2)
proof (induction ds arbitrary: s L)
  case (Cons d ds)
  from Cons.prems(2) have "device_ok table topo N d" by simp
  from scan_device_inv [OF Cons.prems(1) assms(1) this] obtain t where
    t: "scan_device topo i (mob i \<noteq> None) d s = Inr t" "scan_inv table N mob S (L @ device_links table topo i d) t" by blast
  from Cons.IH [OF t(2)] Cons.prems(2) t(1) show ?case by simp
qed simp

lemma known_set_color [simp]: "known (set_color j c v) i = known v i"
  by (simp add: set_color_def)

lemma seen_set_position: "seen_ok v \<Longrightarrow> seen_ok (set_position e p v)"
  by (rule seen_okI) (auto simp: nodes_set_position simp del: not_None_eq split: if_splits dest: seen_okD)

lemma seen_set_color: "seen_ok v \<Longrightarrow> seen_ok (set_color i c v)"
  by (rule seen_okI) (auto simp: set_color_def nodes_update_appearance simp del: not_None_eq split: if_splits dest: seen_okD)

lemma link_pairs_shape: "same_shape v w \<Longrightarrow> link_pairs w = link_pairs v"
proof -
  assume "same_shape v w"
  then have "map (map_prod (case_link_end id id) id \<circ> (\<lambda>es. (es ! 0, es ! 1))) (map ends_of (links w)) =
      map (map_prod (case_link_end id id) id \<circ> (\<lambda>es. (es ! 0, es ! 1))) (map ends_of (links v))"
    by (simp only: same_shape_def)
  then show ?thesis by (simp add: link_pairs_def ends_of_def comp_def)
qed

lemma link_pairs_set_position [simp]: "link_pairs (set_position e p v) = link_pairs v"
  by (rule link_pairs_shape [OF same_shape_set_position])

lemma link_pairs_set_color [simp]: "link_pairs (set_color i c v) = link_pairs v"
proof -
  have "same_shape v (upd_node i draw_node (upd_node i (\<lambda>n. n\<lparr>color := color_value c\<rparr>) v))"
    by (rule same_shape_trans [OF same_shape_upd_node same_shape_upd_node]) simp_all
  then show ?thesis
    by (auto simp: set_color_def update_appearance_def Let_def link_pairs_shape split: option.split)
qed

lemma position_set_position: "known v j \<Longrightarrow>
    end_position (set_position e p v) (Node_End j) = (if e = Node_End j then p else end_position v (Node_End j))"
  by (auto simp: end_position_def nodes_set_position known_def)

lemma position_set_color: "end_position (set_color i c v) (Node_End j) = end_position v (Node_End j)"
  by (simp add: end_position_def set_color_def nodes_update_appearance split: option.split)

lemma graph_names_insert: "graph_names mob (insert i S) L = graph_names mob S L \<union> (if mob i = None then {node_name i} else {})"
  by (auto simp: graph_names_def)

lemma scan_node_inv:
  assumes "scan_inv table N mob S L s" "i < N" "\<forall>d\<in>set (node_devices topo ! i). device_ok table topo N d"
  shows "\<exists>s'. scan_node topo i s = Inr s' \<and> scan_inv table N mob (insert i S) (L @ node_link_list table topo i) s'"
proof -
  let ?s = "on_view (get_node i) s"
  note inv = scan_inv_get_node [OF assms(1,2)]
  have known: "known (scan_view ?s) i" by (simp add: on_view_def)
  have mob: "mobility (scan_view ?s) = mob" using inv by (simp add: scan_inv_def)
  show ?thesis
  proof (cases "mob i")
    case None
    have "scan_inv table N mob (insert i S) L (add_call (Add_Node (node_name i)) ?s)"
      using inv known None by (simp add: scan_inv_def add_call_def graph_names_insert)
    from scan_devices_inv [OF _ assms(3) this, of i] show ?thesis
      using None mob by (simp add: scan_node_def Let_def node_link_list_def)
  next
    case (Some pos)
    let ?f = "\<lambda>v. set_position (Node_End i) (transform_point_simulation_to_canvas (fst pos) (snd pos)) (set_color i (Color_Parsed 65535 0 0) v)"
    have "mobility (set_color i c v) = mobility v" for c v by (simp add: set_color_def)
    then have "scan_inv table N mob (insert i S) L (on_view ?f ?s)"
      using inv known Some by (auto simp: scan_inv_def on_view_def graph_names_insert view_ok_set_position view_ok_setters
          seen_set_position seen_set_color position_set_position position_set_color)
    from scan_devices_inv [OF _ assms(3) this, of i] show ?thesis
      using Some mob by (simp add: scan_node_def Let_def node_link_list_def)
  qed
qed

lemma scan_nodes_inv:
  assumes "\<forall>i<N. \<forall>d\<in>set (node_devices topo ! i). device_ok table topo N d" "k \<le> N"
  shows "scan_inv table N mob {} [] s \<Longrightarrow>
    \<exists>s'. py_fold (scan_node topo) [0..<k] s = Inr s' \<and> scan_inv table N mob {..<k} (concat (map (node_link_list table topo) [0..<k])) s'"
  using assms(2)
proof (induction k)
  case (Suc k)
  then obtain t where t: "py_fold (scan_node topo) [0..<k] s = Inr t"
    "scan_inv table N mob {..<k} (concat (map (node_link_list table topo) [0..<k])) t" by auto
  have k: "k < N" using Suc.prems(2) by simp
  have "\<forall>d\<in>set (node_devices topo ! k). device_ok table topo N d" using k assms(1) by blast
  from scan_node_inv [OF t(2) k this] t(1) show ?case
    by (simp add: py_fold_append lessThan_Suc)
qed simp

section \<open>The layout\<close>

lemma digits_plain: "CHR '' '' \<notin> set (dec_digits n)" "CHR '','' \<notin> set (dec_digits n)"
proof -
  have "\<not> is_digit CHR '' ''" "\<not> is_digit CHR '',''" by (simp_all add: is_digit_def)
  then show "CHR '' '' \<notin> set (dec_digits n)" "CHR '','' \<notin> set (dec_digits n)"
    using dec_digits_digit(1) [of n] by (auto simp: list_all_iff)
qed

lemma split_names:
  "split_on CHR '' '' (node_name i) = [''Node'', dec_digits i]" "split_on CHR '' '' (channel_name i) = [''Channel'', dec_digits i]"
  using split_on_append [of "CHR '' ''" "''Node''" "dec_digits i"] split_on_append [of "CHR '' ''" "''Channel''" "dec_digits i"]
  by (simp_all add: node_name_def channel_name_def str_int_def split_on_no_sep digits_plain)

lemma names_inj [simp]: "node_name i = node_name j \<longleftrightarrow> i = j" "channel_name i = channel_name j \<longleftrightarrow> i = j" "node_name i \<noteq> channel_name j"
  by (auto simp: node_name_def channel_name_def str_int_def dec_digits_inj)

lemma end_name_inj [simp]: "end_name e = end_name e' \<longleftrightarrow> e = e'"
  by (cases e; cases e') (auto simp: names_inj(3) [symmetric] simp del: names_inj(3) dest: sym)

lemma place_node_known:
  assumes "end_exists v e" "layout_position float_of pos = Inr p"
  shows "place_node float_of (end_name e, pos) (v, ob) = Inr (set_position e p v, Some e)"
  using assms by (cases e) (auto simp: place_node_def split_names py_int_digits has_key_def end_exists_def)

definition layout_ok :: "(string \<Rightarrow> py_exn + rat) \<Rightarrow> (graph_call list \<Rightarrow> (string \<times> string) list) \<Rightarrow> bool" where
  "layout_ok float_of layout \<longleftrightarrow> (\<forall>calls. distinct (map fst (layout calls)) \<and> set (map fst (layout calls)) = call_names calls \<and>
     (\<forall>(n, pos)\<in>set (layout calls). \<exists>p. layout_position float_of pos = Inr p))"

text \<open>Where an object ends up.\<close>

definition placed :: "(string \<Rightarrow> py_exn + rat) \<Rightarrow> (string \<times> string) list \<Rightarrow> view \<Rightarrow> link_end \<Rightarrow> point" where
  "placed float_of entries v e =
     (case map_of entries (end_name e) of
        None \<Rightarrow> end_position v e
      | Some pos \<Rightarrow> (case layout_position float_of pos of Inr p \<Rightarrow> p | Inl x \<Rightarrow> end_position v e))"

lemma end_position_set_position:
  "end_exists v e' \<Longrightarrow> end_position (set_position e p v) e' = (if e = e' then p else end_position v e')"
  by (cases e; cases e') (auto simp: end_position_def set_position_def end_exists_def Let_def)

lemma end_exists_set_position [simp]: "end_exists (set_position e p v) e' = end_exists v e'"
  using same_shape_set_position [of v e p] by (simp add: same_shape_def)

lemma place_nodes:
  assumes "view_ok v" "distinct (map fst entries)" "\<forall>(n, pos)\<in>set entries. \<exists>p. layout_position float_of pos = Inr p"
    "\<forall>(n, pos)\<in>set entries. \<exists>e. n = end_name e \<and> end_exists v e"
  shows "\<exists>w ob'. py_fold (place_node float_of) entries (v, ob) = Inr (w, ob') \<and> view_ok w \<and> link_pairs w = link_pairs v \<and>
    mobility w = mobility v \<and> (\<forall>e. end_exists w e = end_exists v e) \<and> (\<forall>e. end_exists v e \<longrightarrow> end_position w e = placed float_of entries v e)"
  using assms
proof (induction entries arbitrary: v ob)
  case Nil
  then show ?case by (simp add: placed_def)
next
  case (Cons entry entries)
  obtain n pos where entry: "entry = (n, pos)" by (cases entry)
  obtain p e where p: "layout_position float_of pos = Inr p" and e: "n = end_name e" "end_exists v e"
    using Cons.prems(3,4) entry by auto
  let ?v = "set_position e p v"
  obtain w ob' where w: "py_fold (place_node float_of) entries (?v, Some e) = Inr (w, ob')" "view_ok w" "link_pairs w = link_pairs ?v"
    "mobility w = mobility ?v" "\<forall>e. end_exists w e = end_exists ?v e" "\<forall>e. end_exists ?v e \<longrightarrow> end_position w e = placed float_of entries ?v e"
    using Cons.IH [of ?v "Some e"] Cons.prems view_ok_set_position [OF Cons.prems(1)] by auto
  have "placed float_of entries ?v e' = placed float_of (entry # entries) v e'" if "end_exists v e'" for e'
  proof (cases "e' = e")
    case True
    then have "map_of entries (end_name e') = None"
      using Cons.prems(2) entry e by (auto simp: map_of_eq_None_iff)
    then show ?thesis using True entry e p that by (simp add: placed_def end_position_set_position)
  next
    case False
    then show ?thesis using entry e that by (simp add: placed_def end_position_set_position split: option.split sum.split)
  qed
  then show ?case
    using w entry e p by (simp add: place_node_known)
qed

section \<open>The whole scan\<close>

definition all_links :: "(string, device_traits) dict \<Rightarrow> topology \<Rightarrow> (nat \<times> link_end) list" where
  "all_links table topo = concat (map (node_link_list table topo) [0..<length (node_devices topo)])"

lemma scan_inv_start:
  "scan_inv table N mob {} [] \<lparr>scan_view = empty_view N mob, scan_graph = [], scan_traits = table\<rparr>"
  by (simp add: scan_inv_def view_ok_empty) (simp add: empty_view_def seen_ok_def link_pairs_def known_def graph_names_def)

lemma link_end_exists: "view_ok v \<Longrightarrow> (i, e) \<in> set (link_pairs v) \<Longrightarrow> end_exists v e"
proof -
  assume "view_ok v" "(i, e) \<in> set (link_pairs v)"
  then obtain k where k: "k < length (links v)" "e = node2 (links v ! k)" "tables_ok v"
    by (auto simp: link_pairs_def in_set_conv_nth view_ok_def canvas_ok_def)
  then show ?thesis unfolding tables_ok_def ends_of_def by auto
qed

lemma scan_result:
  assumes "topology_ok table topo" "layout_ok float_of layout"
  shows "\<exists>w calls. scan_topology layout float_of topo table (empty_view (length (node_devices topo)) mob) = Inr w \<and>
    view_ok w \<and> link_pairs w = all_links table topo \<and> (\<forall>i. known w i \<longleftrightarrow> i < length (node_devices topo)) \<and>
    call_names calls = graph_names mob {..<length (node_devices topo)} (all_links table topo) \<and>
    (\<forall>i pos. i < length (node_devices topo) \<and> mob i = Some pos \<longrightarrow> end_position w (Node_End i) = (3 * fst pos, 3 * snd pos)) \<and>
    (\<forall>e. end_name e \<in> call_names calls \<longrightarrow>
      (\<exists>pos. (end_name e, pos) \<in> set (layout calls) \<and> layout_position float_of pos = Inr (end_position w e)))"
proof -
  let ?N = "length (node_devices topo)" and ?L = "all_links table topo"
  have "\<forall>i<?N. \<forall>d\<in>set (node_devices topo ! i). device_ok table topo ?N d"
    using assms(1) by (auto simp: topology_ok_def device_ok_def)
  from scan_nodes_inv [OF this order_refl scan_inv_start, of mob] obtain s where
    s: "scan_nodes topo \<lparr>scan_view = empty_view ?N mob, scan_graph = [], scan_traits = table\<rparr> = Inr s"
      "scan_inv table ?N mob {..<?N} ?L s"
    by (auto simp: scan_nodes_def all_links_def)
  let ?v = "scan_view s" and ?calls = "scan_graph s"
  have v: "view_ok ?v" "link_pairs ?v = ?L" "\<And>i. known ?v i \<longleftrightarrow> i < ?N" "call_names ?calls = graph_names mob {..<?N} ?L"
    "\<And>i pos. i < ?N \<Longrightarrow> mob i = Some pos \<Longrightarrow> end_position ?v (Node_End i) = (3 * fst pos, 3 * snd pos)"
    using s(2) by (auto simp: scan_inv_def transform_point_simulation_to_canvas_def PIXELS_PER_METER_def)
  have named: "\<exists>e. n = end_name e \<and> end_exists ?v e \<and> (\<forall>i. e = Node_End i \<longrightarrow> mob i = None)" if "n \<in> call_names ?calls" for n
  proof -
    from that v(4) consider i where "n = end_name (Node_End i)" "i < ?N" "mob i = None"
      | i e where "n = end_name e" "(i, e) \<in> set ?L" "free_end mob e" by (auto simp: graph_names_def)
    then show ?thesis
    proof cases
      case 1
      then have "end_exists ?v (Node_End i)" using v(3) [of i] by (simp add: end_exists_def known_def)
      then show ?thesis using 1 by blast
    next
      case 2
      then have "end_exists ?v e" using link_end_exists [OF v(1)] v(2) by metis
      then show ?thesis using 2 by (auto simp: free_end_def)
    qed
  qed
  let ?E = "layout ?calls"
  have lay: "distinct (map fst ?E)" "set (map fst ?E) = call_names ?calls" "\<forall>(n, pos)\<in>set ?E. \<exists>p. layout_position float_of pos = Inr p"
    using assms(2) by (auto simp: layout_ok_def)
  have "\<forall>(n, pos)\<in>set ?E. \<exists>e. n = end_name e \<and> end_exists ?v e"
  proof clarify
    fix n pos
    assume "(n, pos) \<in> set ?E"
    then have "n \<in> call_names ?calls" using lay(2) by force
    then show "\<exists>e. n = end_name e \<and> end_exists ?v e" using named by blast
  qed
  from place_nodes [OF v(1) lay(1,3) this, of None] obtain w ob where
    w: "py_fold (place_node float_of) ?E (?v, None) = Inr (w, ob)" "view_ok w" "link_pairs w = link_pairs ?v"
      "\<forall>e. end_exists w e = end_exists ?v e" "\<forall>e. end_exists ?v e \<longrightarrow> end_position w e = placed float_of ?E ?v e" by blast
  have known: "known w i \<longleftrightarrow> i < ?N" for i
    using w(4) v(3) [of i] by (auto simp: known_def end_exists_def dest: spec [of _ "Node_End i"])
  have mobile: "end_position w (Node_End i) = (3 * fst pos, 3 * snd pos)" if "i < ?N" "mob i = Some pos" for i pos
  proof -
    have "end_name (Node_End i) \<notin> call_names ?calls"
      using named [of "end_name (Node_End i)"] that by (metis end_name_inj option.distinct(1))
    then have "map_of ?E (end_name (Node_End i)) = None" using lay(2) by (simp add: map_of_eq_None_iff)
    moreover have "end_exists ?v (Node_End i)" using v(3) [of i] that by (simp add: end_exists_def known_def)
    ultimately show ?thesis using w(5) v(5) [OF that] by (simp add: placed_def del: end_name.simps)
  qed
  have free: "\<exists>pos. (end_name e, pos) \<in> set ?E \<and> layout_position float_of pos = Inr (end_position w e)"
    if "end_name e \<in> call_names ?calls" for e
  proof -
    have ex: "end_exists ?v e" using named [OF that] by auto
    from that lay(2) obtain pos where pos: "map_of ?E (end_name e) = Some pos"
      by (metis map_of_eq_None_iff option.exhaust list.set_map)
    then have "(end_name e, pos) \<in> set ?E" by (rule map_of_SomeD)
    moreover from this lay(3) obtain p where "layout_position float_of pos = Inr p" by blast
    ultimately show ?thesis using w(5) ex pos by (auto simp: placed_def)
  qed
  have "scan_topology layout float_of topo table (empty_view ?N mob) = Inr w"
    using s(1) w(1) by (simp add: scan_topology_def)
  with w(2,3) v(2,4) known mobile free show ?thesis by (intro exI [of _ w] exI [of _ ?calls]) auto
qed

text \<open>C20: What \<open>scan_topology\<close> makes of any simulation whose wired devices have a channel. It never raises
  when the layout gives every node of the graph a position. Every node of the simulation gets exactly one object;
  the links are those of the wired devices in order: one to the channel if more than two devices share it, else
  one to every other node on it, so that a point-to-point link is drawn twice, once from each end. A node whose
  position the simulation holds stands there; the others, and the channels they are attached to, are what the graph
  is made of, and each stands where the layout puts the name it was given.\<close>

theorem scan_topology_spec:
  assumes "topology_ok table topo" "layout_ok float_of layout"
  shows "\<exists>w calls. scan_topology layout float_of topo table (empty_view (length (node_devices topo)) mob) = Inr w \<and>
    map (\<lambda>l. (node1 l, node2 l)) (links w) = all_links table topo \<and>
    (\<forall>i. dict_get (nodes w) i \<noteq> None \<longleftrightarrow> i < length (node_devices topo)) \<and>
    (\<forall>i pos. i < length (node_devices topo) \<and> mob i = Some pos \<longrightarrow> end_position w (Node_End i) = (3 * fst pos, 3 * snd pos)) \<and>
    call_names calls = node_name ` {i. i < length (node_devices topo) \<and> mob i = None} \<union>
      channel_name ` {c. \<exists>i. (i, Channel_End c) \<in> set (all_links table topo) \<and> mob i = None} \<and>
    (\<forall>e. end_name e \<in> call_names calls \<longrightarrow>
      (\<exists>pos. (end_name e, pos) \<in> set (layout calls) \<and> layout_position float_of pos = Inr (end_position w e)))"
proof -
  let ?N = "length (node_devices topo)" and ?L = "all_links table topo"
  obtain w calls where w: "scan_topology layout float_of topo table (empty_view ?N mob) = Inr w" "view_ok w" "link_pairs w = ?L"
    "\<forall>i. known w i \<longleftrightarrow> i < ?N" "call_names calls = graph_names mob {..<?N} ?L"
    "\<forall>i pos. i < ?N \<and> mob i = Some pos \<longrightarrow> end_position w (Node_End i) = (3 * fst pos, 3 * snd pos)"
    "\<forall>e. end_name e \<in> call_names calls \<longrightarrow> (\<exists>pos. (end_name e, pos) \<in> set (layout calls) \<and> layout_position float_of pos = Inr (end_position w e))"
    using scan_result [OF assms, of mob] by blast
  have other: "j < ?N" if "(i, Node_End j) \<in> set ?L" for i j
    using link_end_exists [OF w(2), of i "Node_End j"] that w(3,4) by (auto simp: end_exists_def known_def)
  have "graph_names mob {..<?N} ?L = node_name ` {i. i < ?N \<and> mob i = None} \<union>
      channel_name ` {c. \<exists>i. (i, Channel_End c) \<in> set ?L \<and> mob i = None}" (is "_ = ?R")
  proof
    show "graph_names mob {..<?N} ?L \<subseteq> ?R"
    proof
      fix n
      assume "n \<in> graph_names mob {..<?N} ?L"
      then consider i where "n = node_name i" "i < ?N" "mob i = None"
        | i e where "n = end_name e" "(i, e) \<in> set ?L" "mob i = None" "free_end mob e" by (auto simp: graph_names_def)
      then show "n \<in> ?R"
      proof cases
        case 2
        then show ?thesis using other by (cases e) (auto simp: free_end_def)
      qed auto
    qed
    have "channel_name c \<in> graph_names mob {..<?N} ?L" if "(i, Channel_End c) \<in> set ?L" "mob i = None" for i c
      unfolding graph_names_def using that by (intro UnI2 image_eqI [of _ _ "Channel_End c"]) (auto simp: free_end_def)
    then show "?R \<subseteq> graph_names mob {..<?N} ?L" by (auto simp: graph_names_def)
  qed
  with w(5) have "call_names calls = ?R" by simp
  with w(1,3,4,6,7) show ?thesis unfolding link_pairs_def known_def by blast
qed

text \<open>Two nodes joined by a point-to-point link, a third whose position is known, and a shared medium for all three.\<close>

definition example_topology :: topology where
  "example_topology =
     (let p2p = \<lparr>device_class = ''PointToPointNetDevice'', device_channel = Some 7\<rparr>;
          csma = \<lparr>device_class = ''CsmaNetDevice'', device_channel = Some 8\<rparr>
      in \<lparr>node_devices = [[p2p, csma], [p2p, csma], [csma, \<lparr>device_class = ''WifiNetDevice'', device_channel = None\<rparr>]],
          channel_nodes = (\<lambda>c. if c = 7 then [0, 1] else [0, 1, 2])\<rparr>)"

definition example_table :: "(string, device_traits) dict" where
  "example_table = (case initial_traits of Inr t \<Rightarrow> t | Inl e \<Rightarrow> [])"

definition example_layout :: "graph_call list \<Rightarrow> (string \<times> string) list" where
  "example_layout calls = map (\<lambda>n. (n, ''15,40'')) (remdups (concat (map (\<lambda>g. case g of Add_Node n \<Rightarrow> [n] | Add_Edge m n \<Rightarrow> [m, n]) calls)))"

definition example_float :: "string \<Rightarrow> py_exn + rat" where
  "example_float s = py_bind (py_int s) (\<lambda>k. Inr (of_int k))"

lemma example_ok: "topology_ok example_table example_topology" "layout_ok example_float example_layout"
proof -
  show "topology_ok example_table example_topology"
    by (simp add: topology_ok_def example_topology_def example_table_def initial_traits_def netdevice_traits_def new_traits_def wired_def Let_def)
  have "layout_position example_float ''15,40'' = Inr (15, 40)"
    by (simp add: layout_position_def example_float_def py_int_def py_sign_def py_strip_def is_space_def starts_with_def is_digit_def
        decimal_def digit_value_def)
  moreover have "set (map fst (example_layout calls)) = call_names calls" for calls
    by (auto simp: example_layout_def call_names_def split: graph_call.splits)
  moreover have "distinct (map fst (example_layout calls))" for calls
    by (simp add: example_layout_def comp_def)
  ultimately show "layout_ok example_float example_layout"
    by (auto simp: layout_ok_def example_layout_def)
qed

lemma example_wired:
  "wired example_table ''PointToPointNetDevice''" "wired example_table ''CsmaNetDevice''" "\<not> wired example_table ''WifiNetDevice''"
  by (simp_all add: wired_def example_table_def initial_traits_def netdevice_traits_def new_traits_def ex_bool_eq all_bool_eq)

lemma example_parts:
  "length (node_devices example_topology) = 3"
  "node_devices example_topology ! 0 = [\<lparr>device_class = ''PointToPointNetDevice'', device_channel = Some 7\<rparr>,
     \<lparr>device_class = ''CsmaNetDevice'', device_channel = Some 8\<rparr>]"
  "node_devices example_topology ! 1 = node_devices example_topology ! 0"
  "node_devices example_topology ! 2 = [\<lparr>device_class = ''CsmaNetDevice'', device_channel = Some 8\<rparr>,
     \<lparr>device_class = ''WifiNetDevice'', device_channel = None\<rparr>]"
  "channel_nodes example_topology 7 = [0, 1]" "channel_nodes example_topology 8 = [0, 1, 2]"
  by (simp_all add: example_topology_def Let_def)

lemma example_links: "all_links example_table example_topology =
    [(0, Node_End 1), (0, Channel_End 8), (1, Node_End 0), (1, Channel_End 8), (2, Channel_End 8)]"
proof -
  have range: "[0..<3] = [0, 1, 2::nat]" by (simp add: upt_conv_Cons)
  show ?thesis
    unfolding all_links_def node_link_list_def example_parts(1) range
    by (simp add: example_parts(2-4) example_parts(3) [unfolded One_nat_def] device_links_def channel_ends_def example_wired example_parts(5,6))
qed

theorem scan_topology_spec_witness:
  "\<exists>w. scan_topology example_layout example_float example_topology example_table (empty_view 3 [2 \<mapsto> (10, 20)]) = Inr w \<and>
    map (\<lambda>l. (node1 l, node2 l)) (links w) =
      [(0, Node_End 1), (0, Channel_End 8), (1, Node_End 0), (1, Channel_End 8), (2, Channel_End 8)] \<and>
    end_position w (Node_End 2) = (30, 60)"
proof -
  show ?thesis
    using scan_topology_spec [OF example_ok, of "[2 \<mapsto> (10, 20)]", unfolded example_parts(1) example_links] by fastforce
qed

text \<open>C18: Whatever the user does after the topology was scanned, the canvas shows the state of the program: in any
  sequence of clicks, drags, pointer movements, changes of the mode and of the size of the nodes, calls of
  \<open>select_node\<close> and updates of the view, exactly the selected node is marked, every node looks as its fields say,
  every line that was drawn runs between the present places of its ends, and the simulation watches exactly the
  nodes that the mode and the selection ask for.\<close>

theorem view_stays_consistent:
  assumes "topology_ok table topo" "layout_ok float_of layout"
    "scan_topology layout float_of topo table (empty_view (length (node_devices topo)) mob) = Inr v"
    "\<forall>ev\<in>set evs. \<forall>i. event_node ev = Some i \<longrightarrow> i < length (node_devices topo)"
  shows "let w = fold run_event evs v in
    (\<forall>i n. dict_get (nodes w) i = Some n \<longrightarrow> (selected n \<longleftrightarrow> selected_node w = Some i) \<and> look n = appearance_of n) \<and>
    (\<forall>i. selected_node w = Some i \<longrightarrow> dict_get (nodes w) i \<noteq> None) \<and>
    (\<forall>l\<in>set (links w). \<forall>ps. points l = Some ps \<longrightarrow> ps = (end_position w (Node_End (node1 l)), end_position w (node2 l))) \<and>
    interest w = (case show_mode w of
      Show_All \<Rightarrow> [0..<node_count w] | Show_None \<Rightarrow> []
    | Show_Selected \<Rightarrow> (case selected_node w of None \<Rightarrow> [] | Some i \<Rightarrow> [i]))"
proof -
  have "view_ok v" "\<forall>i. known v i \<longleftrightarrow> i < length (node_devices topo)"
    using scan_result [OF assms(1,2), of mob] assms(3) by auto
  then have "view_ok (fold run_event evs v)" using assms(4) by (intro run_events_ok) auto
  then show ?thesis
    unfolding Let_def view_ok_def selection_ok_def wanted_nodes_def canvas_ok_def points_ok_def nodes_drawn_def node_drawn_def drawn_points_def
    by auto
qed

lemma click_selects:
  "selected_node (run_event (Node_Press 1 i q) v) = Some i" "show_mode (run_event (Node_Press 1 i q) v) = show_mode v"
  by (auto simp: run_event_def handle_event_def on_node_button_press_def select_node_def resolve_ref_def change_selection_def
      update_ipython_selected_node_def set_nodes_of_interest_def Let_def split: option.split)

theorem view_stays_consistent_witness:
  "\<exists>v. scan_topology example_layout example_float example_topology example_table (empty_view 3 [2 \<mapsto> (10, 20)]) = Inr v \<and>
    interest (fold run_event [Mode_Chosen Show_Selected, Node_Press 1 2 (30, 60)] v) = [2]"
proof -
  let ?evs = "[Mode_Chosen Show_Selected, Node_Press 1 2 (30, 60)]"
  obtain v where v: "scan_topology example_layout example_float example_topology example_table
      (empty_view (length (node_devices example_topology)) [2 \<mapsto> (10, 20)]) = Inr v"
    using scan_result [OF example_ok] by blast
  have mode: "show_mode (run_event (Mode_Chosen Show_Selected) v) = Show_Selected"
    by (simp add: run_event_def handle_event_def set_show_transmissions_mode_def set_nodes_of_interest_def Let_def split: option.split)
  have "\<forall>ev\<in>set ?evs. \<forall>i. event_node ev = Some i \<longrightarrow> i < length (node_devices example_topology)"
    by (simp add: event_node_def example_parts)
  from view_stays_consistent [OF example_ok v this] have "interest (fold run_event ?evs v) = [2]"
    by (simp add: Let_def click_selects [unfolded One_nat_def] mode)
  with v show ?thesis by (auto simp: example_parts)
qed

end
