(* ===== verification/Viz_Traffic.thy ===== *)
theory Viz_Traffic
  imports Viz_Nodes Complex_Main
begin

text \<open>
  The traffic the visualizer shows (\<open>src/src/visualizer/visualizer/core.py\<close>): the samples of the last
  periods that \<open>do_simulation_periodic_update\<close> keeps, and \<open>_update_transmissions_view\<close> and
  \<open>_update_drops_view\<close>, which draw an arrow with the mean rate for every pair of nodes, or every
  node that drops packets, from a pool of arrows. Rates, widths and angles are real numbers. The order in which
  Python walks through a dict is the parameter \<open>ho\<close>; \<open>LineClipping\<close> is C++ and the parameter \<open>clip\<close>.
\<close>

section \<open>Samples\<close>

record tx_sample =
  transmitter :: nat
  receiver :: nat
  tx_bytes :: nat

record drop_sample =
  dropper :: nat
  drop_bytes :: nat

text \<open>\<open>while len(xs) > k: xs.pop(0)\<close>\<close>

fun trim_window :: "nat \<Rightarrow> 'a list \<Rightarrow> 'a list" where
  "trim_window k [] = []"
| "trim_window k (x # xs) = (if length (x # xs) > k then trim_window k xs else x # xs)"

definition push_window :: "nat \<Rightarrow> 'a \<Rightarrow> 'a list \<Rightarrow> 'a list" where
  "push_window k x xs = trim_window k (xs @ [x])"

record traffic =
  last_transmissions :: "tx_sample list list"
  last_drops :: "drop_sample list list"

definition smooth_factor :: "rat \<Rightarrow> nat" where
  "smooth_factor smoothing = nat \<lfloor>smoothing * 10\<rfloor>"

definition do_simulation_periodic_update :: "rat \<Rightarrow> tx_sample list \<Rightarrow> drop_sample list \<Rightarrow> traffic \<Rightarrow> traffic" where
  "do_simulation_periodic_update smoothing txs drops t =
     t\<lparr>last_transmissions := push_window (smooth_factor smoothing) txs (last_transmissions t),
       last_drops := push_window (smooth_factor smoothing) drops (last_drops t)\<rparr>"

text \<open>Bytes and number of the samples of each key.\<close>

definition add_sample :: "('s \<Rightarrow> 'k) \<Rightarrow> ('s \<Rightarrow> nat) \<Rightarrow> 's \<Rightarrow> ('k, nat \<times> nat) dict \<Rightarrow> ('k, nat \<times> nat) dict" where
  "add_sample key bytes s d =
     (let (b, count) = dict_getdefault d (key s) (0, 0) in dict_set d (key s) (b + bytes s, count + 1))"

definition sample_sums :: "('s \<Rightarrow> 'k) \<Rightarrow> ('s \<Rightarrow> nat) \<Rightarrow> 's list list \<Rightarrow> ('k, nat \<times> nat) dict" where
  "sample_sums key bytes window = fold (\<lambda>samples. fold (add_sample key bytes) samples) window []"

definition transmissions_average :: "tx_sample list list \<Rightarrow> (nat \<times> nat, nat \<times> nat) dict" where
  "transmissions_average = sample_sums (\<lambda>s. (transmitter s, receiver s)) tx_bytes"

definition drops_average :: "drop_sample list list \<Rightarrow> (nat, nat \<times> nat) dict" where
  "drops_average = sample_sums dropper drop_bytes"

section \<open>Arrows\<close>

text \<open>What is shown for a key: the line, its width, the rate in kbit/s, and how the text stands.\<close>

record text_place =
  towards_right :: bool
  text_middle :: point
  text_angle :: real
  text_flipped :: bool
  text_offset :: real

record arrow_look =
  arrow_points :: "point \<times> point"
  arrow_width :: real
  arrow_rate :: real
  arrow_text :: text_place

record arrow =
  arrow_id :: nat
  arrow_visible :: bool
  arrow_look :: "arrow_look option"

record arrow_pool =
  arrows :: "arrow list"
  next_arrow :: nat
  stray :: "arrow list"

definition hide :: "arrow \<Rightarrow> arrow" where
  "hide a = a\<lparr>arrow_visible := False\<rparr>"

text \<open>The last unused arrow, or a new one.\<close>

definition take_arrow :: "arrow list \<Rightarrow> nat \<Rightarrow> arrow \<times> arrow list \<times> nat" where
  "take_arrow old n =
     (if old = [] then (\<lparr>arrow_id = n, arrow_visible = True, arrow_look = None\<rparr>, [], n + 1)
      else ((last old)\<lparr>arrow_visible := True\<rparr>, butlast old, n))"

text \<open>
  The loop over the keys: \<open>shape\<close> computes what is shown, from the view in which the nodes of the key exist.
  An exception leaves the arrows not yet used in the pool; those already placed, and the one just shown, stay
  on the canvas without being in the pool any more.
\<close>

fun draw_arrows ::
  "('k \<Rightarrow> view \<Rightarrow> view) \<Rightarrow> ('k \<Rightarrow> view \<Rightarrow> py_exn + arrow_look) \<Rightarrow> 'k list \<Rightarrow> view \<Rightarrow> arrow list \<Rightarrow> arrow list \<Rightarrow> nat \<Rightarrow> arrow list \<Rightarrow>
    view \<times> arrow_pool \<times> py_exn option"
where
  "draw_arrows touch shape [] v old new n lost = (v, \<lparr>arrows = new @ old, next_arrow = n, stray = lost\<rparr>, None)"
| "draw_arrows touch shape (k # ks) v old new n lost =
     (let v = touch k v;
          (a, old, n) = take_arrow old n
      in case shape k v of
           Inl e \<Rightarrow> (v, \<lparr>arrows = old, next_arrow = n, stray = lost @ new @ [a]\<rparr>, Some e)
         | Inr l \<Rightarrow> draw_arrows touch shape ks v old (new @ [a\<lparr>arrow_look := Some l\<rparr>]) n lost)"

text \<open>\<open>math.log\<close> raises for a number that is not positive.\<close>

definition py_log :: "real \<Rightarrow> py_exn + real" where
  "py_log x = (if 0 < x then Inr (ln x) else Inl ValueError)"

definition line_width_of :: "nat \<times> nat \<Rightarrow> real \<Rightarrow> real \<Rightarrow> py_exn + real" where
  "line_width_of bc period k = py_bind (py_log (real (fst bc) / real (snd bc) / period)) (\<lambda>l. Inr (max (1 / 10) (l * k)))"

definition kbit_rate :: "nat \<times> nat \<Rightarrow> real \<Rightarrow> real" where
  "kbit_rate bc period = real (fst bc * 8) / 1000 / real (snd bc) / period"

definition atan2 :: "real \<Rightarrow> real \<Rightarrow> real" where
  "atan2 y x =
     (if 0 < x then arctan (y / x)
      else if x < 0 then (if 0 \<le> y then arctan (y / x) + pi else arctan (y / x) - pi)
      else if 0 < y then pi / 2 else if y < 0 then - pi / 2 else 0)"

definition middle :: "point \<times> point \<Rightarrow> point" where
  "middle ps = ((fst (fst ps) + fst (snd ps)) / 2, (snd (fst ps) + snd (snd ps)) / 2)"

text \<open>The text is drawn along the line; on a line that runs to the left it is turned round, so that it is not upside down.\<close>

definition place_text :: "(point \<times> point \<Rightarrow> point \<times> point) \<Rightarrow> real \<Rightarrow> point \<times> point \<Rightarrow> text_place" where
  "place_text clip width ps =
     (let angle = atan2 (of_rat (snd (snd ps) - snd (fst ps))) (of_rat (fst (snd ps) - fst (fst ps)))
      in if - (pi / 2) \<le> angle \<and> angle \<le> pi / 2
         then \<lparr>towards_right = True, text_middle = middle (clip ps), text_angle = angle, text_flipped = False, text_offset = - width / 2\<rparr>
         else \<lparr>towards_right = False, text_middle = middle (clip ps), text_angle = angle, text_flipped = True, text_offset = width / 2\<rparr>)"

definition transmission_look ::
  "(point \<times> point \<Rightarrow> point \<times> point) \<Rightarrow> real \<Rightarrow> real \<Rightarrow> (nat \<times> nat, nat \<times> nat) dict \<Rightarrow> nat \<times> nat \<Rightarrow> view \<Rightarrow> py_exn + arrow_look"
where
  "transmission_look clip period k averages key v =
     (let bc = dict_getdefault averages key (0, 0) in
      py_bind (line_width_of bc period k) (\<lambda>width.
        let ps = (end_position v (Node_End (fst key)), end_position v (Node_End (snd key)))
        in Inr \<lparr>arrow_points = ps, arrow_width = width, arrow_rate = kbit_rate bc period, arrow_text = place_text clip width ps\<rparr>))"

definition update_transmissions_view ::
  "((nat \<times> nat) list \<Rightarrow> (nat \<times> nat) list) \<Rightarrow> (point \<times> point \<Rightarrow> point \<times> point) \<Rightarrow> real \<Rightarrow> real \<Rightarrow> tx_sample list list \<Rightarrow> view \<Rightarrow> arrow_pool \<Rightarrow>
    view \<times> arrow_pool \<times> py_exn option"
where
  "update_transmissions_view ho clip node_size_value period window v p =
     (let averages = transmissions_average window in
      draw_arrows (\<lambda>key v. get_node (snd key) (get_node (fst key) v)) (transmission_look clip period (node_size_value / 5) averages)
        (ho (dict_keys averages)) v (map hide (arrows p)) [] (next_arrow p) (stray p))"

definition drop_look :: "rat \<Rightarrow> real \<Rightarrow> real \<Rightarrow> (nat, nat \<times> nat) dict \<Rightarrow> nat \<Rightarrow> view \<Rightarrow> py_exn + arrow_look" where
  "drop_look edge_y period k averages key v =
     (let bc = dict_getdefault averages key (0, 0) in
      py_bind (line_width_of bc period k) (\<lambda>width.
        let pos1 = end_position v (Node_End key); ps = (pos1, (fst pos1, edge_y))
        in Inr \<lparr>arrow_points = ps, arrow_width = width, arrow_rate = kbit_rate bc period,
             arrow_text = \<lparr>towards_right = False, text_middle = middle ps, text_angle = 0, text_flipped = False, text_offset = 0\<rparr>\<rparr>))"

definition update_drops_view ::
  "(nat list \<Rightarrow> nat list) \<Rightarrow> rat \<Rightarrow> real \<Rightarrow> real \<Rightarrow> drop_sample list list \<Rightarrow> view \<Rightarrow> arrow_pool \<Rightarrow> view \<times> arrow_pool \<times> py_exn option"
where
  "update_drops_view ho edge_y node_size_value period window v p =
     (let averages = drops_average window in
      draw_arrows get_node (drop_look edge_y period (node_size_value / 5) averages)
        (ho (dict_keys averages)) v (map hide (arrows p)) [] (next_arrow p) (stray p))"

section \<open>Windows and sums\<close>

lemma trim_window_drop: "trim_window k xs = drop (length xs - k) xs"
  by (induction k xs rule: trim_window.induct) (auto simp: Suc_diff_le drop_Cons')

text \<open>With a smoothing that does not change, the window holds the last samples.\<close>

lemma push_window_last: "push_window k x (drop (length xs - k) xs) = drop (length (xs @ [x]) - k) (xs @ [x])"
  by (cases "length xs < k") (auto simp: push_window_def trim_window_drop Suc_diff_le)

lemma push_window_length: "length (push_window k x xs) \<le> k" "0 < k \<Longrightarrow> last (push_window k x xs) = x"
  by (simp_all add: push_window_def trim_window_drop)

definition sum_for :: "('s \<Rightarrow> 'k) \<Rightarrow> ('s \<Rightarrow> nat) \<Rightarrow> 's list \<Rightarrow> 'k \<Rightarrow> (nat \<times> nat) option" where
  "sum_for key bytes ss k =
     (let own = filter (\<lambda>s. key s = k) ss in if own = [] then None else Some (sum_list (map bytes own), length own))"

lemma add_samples:
  "dict_get d = sum_for key bytes pre \<Longrightarrow> dict_get (fold (add_sample key bytes) ss d) = sum_for key bytes (pre @ ss)"
proof (induction ss arbitrary: d pre)
  case (Cons s ss)
  have "dict_get (add_sample key bytes s d) = sum_for key bytes (pre @ [s])"
    using Cons.prems by (auto simp: add_sample_def dict_getdefault_def sum_for_def fun_eq_iff Let_def split: option.split prod.split if_splits)
  from Cons.IH [OF this] show ?case by simp
qed simp

lemma sample_sums_result: "dict_get (sample_sums key bytes window) = sum_for key bytes (concat window)"
proof -
  have "fold (\<lambda>samples. fold (add_sample key bytes) samples) window d = fold (add_sample key bytes) (concat window) d" for d
    by (induction window arbitrary: d) simp_all
  then have "sample_sums key bytes window = fold (add_sample key bytes) (concat window) []"
    unfolding sample_sums_def by simp
  then show ?thesis using add_samples [of "[]" key bytes "[]" "concat window"] by (simp add: sum_for_def fun_eq_iff)
qed


section \<open>What the update shows\<close>

lemma end_position_get_node_any [simp]: "end_position (get_node i v) e = end_position v e"
  by (cases e) (auto simp: end_position_def get_node_def new_node_def draw_node_def split: option.split)

text \<open>When no key raises, every key gets an arrow: the last unused ones first, then new ones.\<close>

lemma draw_arrows_all:
  assumes "\<And>k u e. end_position (touch k u) e = end_position u e"
    "\<And>k u. k \<in> set ks \<Longrightarrow> (\<And>e. end_position u e = end_position v e) \<Longrightarrow> shape k u = Inr (l k)"
  shows "\<exists>placed. draw_arrows touch shape ks v old new n lost =
      (fold touch ks v, \<lparr>arrows = new @ placed @ take (length old - length ks) old, next_arrow = n + (length ks - length old), stray = lost\<rparr>, None) \<and>
    map arrow_look placed = map (\<lambda>k. Some (l k)) ks \<and> (\<forall>a\<in>set placed. arrow_visible a) \<and>
    map arrow_id placed = rev (map arrow_id (drop (length old - length ks) old)) @ [n..<n + (length ks - length old)]"
  using assms(2)
proof (induction ks arbitrary: v old new n)
  case (Cons k ks)
  obtain a old' n' where take: "take_arrow old n = (a, old', n')" by (cases "take_arrow old n")
  have "shape k (touch k v) = Inr (l k)" using Cons.prems assms(1) by simp
  moreover have "shape k' u = Inr (l k')" if "k' \<in> set ks" "\<And>e. end_position u e = end_position (touch k v) e" for k' u
    using Cons.prems that assms(1) by simp
  ultimately obtain placed where
    "draw_arrows touch shape (k # ks) v old new n lost =
      (fold touch (k # ks) v, \<lparr>arrows = new @ (a\<lparr>arrow_look := Some (l k)\<rparr> # placed) @ take (length old' - length ks) old',
        next_arrow = n' + (length ks - length old'), stray = lost\<rparr>, None)"
    "map arrow_look placed = map (\<lambda>k. Some (l k)) ks" "\<forall>a\<in>set placed. arrow_visible a"
    "map arrow_id placed = rev (map arrow_id (drop (length old' - length ks) old')) @ [n'..<n' + (length ks - length old')]"
    using Cons.IH [of "touch k v" old' "new @ [a\<lparr>arrow_look := Some (l k)\<rparr>]" n'] by (auto simp: take Let_def)
  moreover have "arrow_visible a \<and> take (length old' - length ks) old' = take (length old - length (k # ks)) old \<and>
    n' + (length ks - length old') = n + (length (k # ks) - length old) \<and>
    arrow_id a # rev (map arrow_id (drop (length old' - length ks) old')) @ [n'..<n' + (length ks - length old')] =
      rev (map arrow_id (drop (length old - length (k # ks)) old)) @ [n..<n + (length (k # ks) - length old)]"
  proof (cases old rule: rev_cases)
    case Nil
    then show ?thesis using take by (auto simp: take_arrow_def upt_conv_Cons simp del: upt_Suc)
  next
    case (snoc ys y)
    then show ?thesis using take by (auto simp: take_arrow_def Suc_diff_le not_le)
  qed
  ultimately show ?case
    by (elim conjE, intro exI [of _ "a\<lparr>arrow_look := Some (l k)\<rparr> # placed"]) (simp del: draw_arrows.simps)
qed simp

lemma atan2_right: "- (pi / 2) \<le> atan2 y x \<and> atan2 y x \<le> pi / 2 \<longleftrightarrow> 0 \<le> x"
proof -
  have a: "- (pi / 2) < arctan (y / x)" "arctan (y / x) < pi / 2" using arctan_bounded by auto
  have neg: "arctan (y / x) \<le> 0" if "x < 0" "0 \<le> y" using that by (simp add: divide_nonneg_neg)
  have pos: "0 < arctan (y / x)" if "x < 0" "y < 0" using that by (simp add: divide_neg_neg)
  consider "0 < x" | "x < 0" "0 \<le> y" | "x < 0" "y < 0" | "x = 0" by linarith
  then show ?thesis using a neg pos by cases (auto simp: atan2_def)
qed
text \<open>The samples of a pair, in the window.\<close>

definition pair_samples :: "tx_sample list list \<Rightarrow> nat \<times> nat \<Rightarrow> tx_sample list" where
  "pair_samples window key = filter (\<lambda>s. (transmitter s, receiver s) = key) (concat window)"

definition pair_bytes :: "tx_sample list list \<Rightarrow> nat \<times> nat \<Rightarrow> nat" where
  "pair_bytes window key = sum_list (map tx_bytes (pair_samples window key))"

lemma transmissions_average_get:
  "dict_get (transmissions_average window) key =
     (if pair_samples window key = [] then None else Some (pair_bytes window key, length (pair_samples window key)))"
  by (simp add: transmissions_average_def sample_sums_result sum_for_def pair_samples_def pair_bytes_def Let_def)

lemma transmissions_average_keys:
  "set (dict_keys (transmissions_average window)) = (\<lambda>s. (transmitter s, receiver s)) ` set (concat window)"
  by (auto simp: set_dict_keys dom_def transmissions_average_get pair_samples_def filter_empty_conv)

lemma dict_ok_sample_sums: "dict_ok (sample_sums key bytes window)"
proof -
  have samples: "dict_ok d \<Longrightarrow> dict_ok (fold (add_sample key bytes) ss d)" for ss d
    by (induction ss arbitrary: d) (auto simp: add_sample_def Let_def split: prod.split)
  have "dict_ok d \<Longrightarrow> dict_ok (fold (\<lambda>samples. fold (add_sample key bytes) samples) window d)" for d
    by (induction window arbitrary: d) (simp_all add: samples)
  then show ?thesis by (simp add: sample_sums_def)
qed

lemma distinct_average_keys: "distinct (dict_keys (transmissions_average window))"
  using dict_ok_sample_sums by (auto simp: transmissions_average_def dict_ok_def)

text \<open>What has to be shown for a pair, in terms of its samples and the view.\<close>

definition pair_look :: "(point \<times> point \<Rightarrow> point \<times> point) \<Rightarrow> real \<Rightarrow> real \<Rightarrow> tx_sample list list \<Rightarrow> view \<Rightarrow> nat \<times> nat \<Rightarrow> arrow_look" where
  "pair_look clip period k window v key =
     (let n = length (pair_samples window key);
          width = max (1 / 10) (ln (real (pair_bytes window key) / real n / period) * k);
          ps = (end_position v (Node_End (fst key)), end_position v (Node_End (snd key)))
      in \<lparr>arrow_points = ps, arrow_width = width, arrow_rate = real (pair_bytes window key * 8) / 1000 / real n / period,
          arrow_text = place_text clip width ps\<rparr>)"

lemma transmission_look_pair:
  assumes "s \<in> set (concat window)" "0 < pair_bytes window (transmitter s, receiver s)" "0 < period"
    "\<And>e. end_position u e = end_position v e"
  shows "transmission_look clip period k (transmissions_average window) (transmitter s, receiver s) u =
    Inr (pair_look clip period k window v (transmitter s, receiver s))"
proof -
  have some: "pair_samples window (transmitter s, receiver s) \<noteq> []"
    using assms(1) by (auto simp: pair_samples_def filter_empty_conv)
  then show ?thesis using assms(2-4)
    by (simp add: transmission_look_def dict_getdefault_def transmissions_average_get line_width_of_def py_log_def kbit_rate_def
        pair_look_def Let_def py_bind_def)
qed

lemma end_position_touch1: "end_position (get_node (snd key) (get_node (fst key) v)) e = end_position v e"
  by simp

lemma end_position_touch [simp]: "end_position (fold (\<lambda>key v. get_node (snd key) (get_node (fst key) v)) ks v) e = end_position v e"
  by (induction ks arbitrary: v) simp_all

lemma place_text_right: "towards_right (place_text clip width ps) \<longleftrightarrow> fst (fst ps) \<le> fst (snd ps)"
proof -
  have "0 \<le> (of_rat (fst (snd ps) - fst (fst ps)) :: real) \<longleftrightarrow> fst (fst ps) \<le> fst (snd ps)" by simp
  then show ?thesis unfolding place_text_def Let_def atan2_right by simp
qed

text \<open>The pool after an update: the visible arrows are those placed, and no arrow is in it twice.\<close>

lemma pool_parts:
  assumes "\<forall>a\<in>set placed. arrow_visible a"
    "map arrow_id placed = rev (map arrow_id (drop r (map hide old))) @ [n..<n + m]"
    "\<forall>a\<in>set old. arrow_id a < n" "distinct (map arrow_id old)"
  shows "filter arrow_visible (placed @ take r (map hide old)) = placed"
    "distinct (map arrow_id (placed @ take r (map hide old)))"
proof -
  have hidden: "\<not> arrow_visible a" if "a \<in> set (take r (map hide old))" for a
    using set_take_subset [of r "map hide old"] that by (auto simp: hide_def)
  then have "filter arrow_visible (take r (map hide old)) = []" by (simp add: filter_empty_conv)
  with assms(1) show "filter arrow_visible (placed @ take r (map hide old)) = placed" by simp
  have ids: "arrow_id \<circ> hide = arrow_id" by (auto simp: hide_def)
  have "mset (map arrow_id (placed @ take r (map hide old))) = mset (take r (map arrow_id old) @ drop r (map arrow_id old) @ [n..<n + m])"
    unfolding map_append assms(2) by (simp add: ids drop_map take_map add.commute)
  moreover have "distinct (map arrow_id old @ [n..<n + m])" using assms(3,4) by fastforce
  ultimately show "distinct (map arrow_id (placed @ take r (map hide old)))"
    by (metis append.assoc append_take_drop_id mset_eq_imp_distinct_iff)
qed

text \<open>A pair whose packets were all empty ends the update in \<open>ValueError\<close>; the arrow taken for it stays visible and is lost.\<close>

lemma empty_packets_raise:
  "\<exists>w q. update_transmissions_view rev clip nsize period [[\<lparr>transmitter = i, receiver = j, tx_bytes = 0\<rparr>]] v
      \<lparr>arrows = [a], next_arrow = n, stray = []\<rparr> = (w, q, Some ValueError) \<and>
    arrows q = [] \<and> map arrow_id (filter arrow_visible (stray q)) = [arrow_id a]"
  by (simp add: update_transmissions_view_def transmissions_average_def sample_sums_def add_sample_def dict_getdefault_def Let_def
      dict_keys_def take_arrow_def transmission_look_def line_width_of_def py_log_def hide_def)

text \<open>C13: An update of the transmissions shows the traffic of the window and nothing else: when every pair of nodes
  that sent in the window sent at least a byte, exactly one arrow is visible for each of them, between the
  places of the two nodes, with the mean rate of the samples of the pair and the width that follows from it, and
  its text reads from left to right; arrows of earlier updates are used again before new ones are made, and
  those that are not needed are hidden.\<close>

theorem update_shows_traffic:
  assumes "0 < period" "\<forall>s\<in>set (concat window). 0 < pair_bytes window (transmitter s, receiver s)"
    "\<And>ks. set (ho ks) = set ks \<and> length (ho ks) = length ks" "\<forall>a\<in>set (arrows p). arrow_id a < next_arrow p" "distinct (map arrow_id (arrows p))"
  shows "\<exists>w q ks. update_transmissions_view ho clip nsize period window v p = (w, q, None) \<and>
    set ks = (\<lambda>s. (transmitter s, receiver s)) ` set (concat window) \<and> distinct ks \<and>
    map arrow_look (filter arrow_visible (arrows q)) = map (\<lambda>key. Some (pair_look clip period (nsize / 5) window w key)) ks \<and>
    (\<forall>key\<in>set ks. towards_right (arrow_text (pair_look clip period (nsize / 5) window w key)) \<longleftrightarrow>
      fst (end_position w (Node_End (fst key))) \<le> fst (end_position w (Node_End (snd key)))) \<and>
    length (arrows q) = max (length (arrows p)) (length ks) \<and> distinct (map arrow_id (arrows q)) \<and> stray q = stray p"
proof -
  define ks where "ks = ho (dict_keys (transmissions_average window))"
  define w where "w = fold (\<lambda>key v. get_node (snd key) (get_node (fst key) v)) ks v"
  let ?l = "pair_look clip period (nsize / 5) window w"
  have keys: "set ks = (\<lambda>s. (transmitter s, receiver s)) ` set (concat window)"
    using assms(3) by (simp add: ks_def transmissions_average_keys)
  have "distinct ks" using assms(3) [of "dict_keys (transmissions_average window)"] distinct_average_keys [of window]
    by (metis card_distinct distinct_card ks_def)
  have drawn: "transmission_look clip period (nsize / 5) (transmissions_average window) key u = Inr (?l key)"
    if key: "key \<in> set ks" and u: "\<And>e. end_position u e = end_position v e" for key u
  proof -
    obtain s where s: "s \<in> set (concat window)" "key = (transmitter s, receiver s)" using key keys by auto
    have same: "end_position u e = end_position w e" for e using u by (simp add: w_def)
    have "0 < pair_bytes window (transmitter s, receiver s)" using assms(2) s(1) by blast
    from transmission_look_pair [OF s(1) this assms(1) same] show ?thesis unfolding s(2) .
  qed
  obtain placed where placed: "update_transmissions_view ho clip nsize period window v p =
      (w, \<lparr>arrows = placed @ take (length (arrows p) - length ks) (map hide (arrows p)),
        next_arrow = next_arrow p + (length ks - length (arrows p)), stray = stray p\<rparr>, None)"
    "map arrow_look placed = map (\<lambda>k. Some (?l k)) ks" "\<forall>a\<in>set placed. arrow_visible a"
    "map arrow_id placed = rev (map arrow_id (drop (length (arrows p) - length ks) (map hide (arrows p)))) @
      [next_arrow p..<next_arrow p + (length ks - length (arrows p))]"
    unfolding update_transmissions_view_def Let_def ks_def [symmetric] w_def [symmetric]
    by (rule exE [OF draw_arrows_all [where touch = "\<lambda>key v. get_node (snd key) (get_node (fst key) v)" and ks = ks and v = v
        and shape = "transmission_look clip period (nsize / 5) (transmissions_average window)" and l = ?l and new = "[]"
        and old = "map hide (arrows p)" and n = "next_arrow p" and lost = "stray p"]],
      rule end_position_touch1, erule drawn, simp, elim conjE, simp only: append_Nil length_map w_def [symmetric])
  have reading: "towards_right (arrow_text (?l key)) \<longleftrightarrow> fst (end_position w (Node_End (fst key))) \<le> fst (end_position w (Node_End (snd key)))" for key
    by (simp add: pair_look_def Let_def place_text_right)
  have size: "length placed = length ks" using placed(2) by (rule map_eq_imp_length_eq)
  let ?q = "\<lparr>arrows = placed @ take (length (arrows p) - length ks) (map hide (arrows p)),
        next_arrow = next_arrow p + (length ks - length (arrows p)), stray = stray p\<rparr>"
  have "map arrow_look (filter arrow_visible (arrows ?q)) = map (\<lambda>k. Some (?l k)) ks" "distinct (map arrow_id (arrows ?q))"
    using pool_parts [OF placed(3,4) assms(4,5)] placed(2) by simp_all
  moreover have "length (arrows ?q) = max (length (arrows p)) (length ks)" "stray ?q = stray p" using size by simp_all
  ultimately show ?thesis using placed(1) keys \<open>distinct ks\<close> reading by blast
qed

theorem update_shows_traffic_witness:
  "\<exists>w q. update_transmissions_view rev id 3 (1 / 10) [[\<lparr>transmitter = 0, receiver = 1, tx_bytes = 500\<rparr>], [\<lparr>transmitter = 0, receiver = 1, tx_bytes = 1500\<rparr>]]
      (empty_view 2 Map.empty) \<lparr>arrows = [], next_arrow = 0, stray = []\<rparr> = (w, q, None) \<and> length (filter arrow_visible (arrows q)) = 1 \<and>
    map (map_option arrow_rate \<circ> arrow_look) (filter arrow_visible (arrows q)) = [Some 80]"
proof -
  define window where "window = [[\<lparr>transmitter = 0, receiver = 1, tx_bytes = 500\<rparr>], [\<lparr>transmitter = 0, receiver = 1, tx_bytes = 1500\<rparr>]]"
  have parts: "concat window = [\<lparr>transmitter = 0, receiver = 1, tx_bytes = 500\<rparr>, \<lparr>transmitter = 0, receiver = 1, tx_bytes = 1500\<rparr>]"
    "pair_samples window (0, 1) = concat window" "pair_bytes window (0, 1) = 2000"
    by (simp_all add: window_def pair_samples_def pair_bytes_def)
  let ?p = "\<lparr>arrows = [], next_arrow = 0, stray = []\<rparr>" and ?v = "empty_view 2 Map.empty"
  have "0 < (1 / 10 :: real)" "\<And>ks. set (rev ks) = set ks \<and> length (rev ks) = length ks"
    "\<forall>a\<in>set (arrows ?p). arrow_id a < next_arrow ?p" "distinct (map arrow_id (arrows ?p))" by simp_all
  moreover have "\<forall>s\<in>set (concat window). 0 < pair_bytes window (transmitter s, receiver s)"
    using parts(3) by (simp add: parts(1))
  ultimately obtain w q ks where q: "update_transmissions_view rev id 3 (1 / 10) window ?v ?p = (w, q, None)"
    "set ks = (\<lambda>s. (transmitter s, receiver s)) ` set (concat window)" "distinct ks"
    "map arrow_look (filter arrow_visible (arrows q)) = map (\<lambda>key. Some (pair_look id (1 / 10) (3 / 5) window w key)) ks"
    using update_shows_traffic [of "1 / 10" window rev ?p id 3 ?v] by blast
  have "set ks = {(0, 1)}" using q(2) by (simp add: parts(1))
  moreover from this have "length ks = 1" using distinct_card [OF q(3)] by simp
  then obtain key where "ks = [key]" by (auto simp: length_Suc_conv)
  ultimately have "ks = [(0, 1)]" by simp
  moreover have "arrow_rate (pair_look id (1 / 10) (3 / 5) window w (0, 1)) = 80"
    by (simp add: pair_look_def Let_def parts parts(2,3) [unfolded One_nat_def])
  ultimately have "map arrow_rate' (filter arrow_visible (arrows q)) = [Some 80]"
    if "arrow_rate' = map_option arrow_rate \<circ> arrow_look" for arrow_rate'
    using arg_cong [OF q(4), of "map (map_option arrow_rate)"] by (simp add: that)
  from this [OF refl] have rates: "map (map_option arrow_rate \<circ> arrow_look) (filter arrow_visible (arrows q)) = [Some 80]" .
  from arg_cong [OF this, of length] have "length (filter arrow_visible (arrows q)) = 1" by simp
  with q(1) rates show ?thesis unfolding window_def by (intro exI [of _ w] exI [of _ q] conjI)
qed

end
