(* ===== verification/Viz_Axes.thy ===== *)
theory Viz_Axes
  imports Visualizer
begin

text \<open>
  The axes drawn over the canvas of the visualizer: class \<open>Axes\<close> of \<open>src/src/visualizer/visualizer/hud.py\<close>.
  Numbers are real, \<open>math.log10\<close> and \<open>pow\<close> are the real functions. The part of the canvas that is
  visible and the zoom come from the window as arguments. A line of a path is a pair of points; the text of a label is
  the number it shows.
\<close>

section \<open>The distance of the ticks\<close>

definition rint :: "real \<Rightarrow> real" where
  "rint x = of_int \<lfloor>x + 1 / 2\<rfloor>"

text \<open>One turn of the loop: it has the number of divisions, the first tick and the distance as its variables.\<close>

definition division_turn :: "real \<Rightarrow> real \<Rightarrow> nat \<Rightarrow> real \<times> real \<times> real \<Rightarrow> real \<times> real \<times> real" where
  "division_turn xi dx n vars =
     (let (ndiv, x0_old, div_old) = vars;
          text_width = dx / 5 / 2;
          dx_over_ndiv = dx / 5;
          tbe = log 10 dx_over_ndiv;
          divi = 10 powr (rint tbe);
          divi = (if \<bar>divi / 2 - dx_over_ndiv\<bar> < \<bar>divi - dx_over_ndiv\<bar> then divi / 2
                  else if \<bar>divi * 2 - dx_over_ndiv\<bar> < \<bar>divi - dx_over_ndiv\<bar> then divi * 2
                  else divi);
          x0 = divi * of_int \<lceil>xi / divi\<rceil> - divi
      in (if n > 1 then rint (dx / text_width) else ndiv, x0, divi))"

definition compute_divisions :: "real \<Rightarrow> real \<Rightarrow> py_exn + real \<times> real" where
  "compute_divisions xi xf =
     (if \<not> xf > xi then Inl AssertionError
      else Inr (snd (fold (division_turn xi (xf - xi)) [0..<5] (5, 0, 0))))"

text \<open>The loop over the ticks, \<open>while x < sim_x2\<close>; it ends because the distance is positive.\<close>

partial_function (option) tick_loop :: "real \<Rightarrow> real \<Rightarrow> real \<Rightarrow> real list option" where
  "tick_loop x divi x2 =
     (if x < x2 then Option.bind (tick_loop (x + divi) divi x2) (\<lambda>xs. Some (x # xs)) else Some [])"

section \<open>What the loop does\<close>

definition nice_division :: "real \<Rightarrow> real" where
  "nice_division d =
     (let p = 10 powr (rint (log 10 d))
      in if \<bar>p / 2 - d\<bar> < \<bar>p - d\<bar> then p / 2 else if \<bar>p * 2 - d\<bar> < \<bar>p - d\<bar> then p * 2 else p)"

definition first_tick :: "real \<Rightarrow> real \<Rightarrow> real" where
  "first_tick xi divi = divi * of_int \<lceil>xi / divi\<rceil> - divi"

text \<open>The five turns compute the same: the number of divisions they adjust is not used.\<close>

lemma division_turn_result: "snd (division_turn xi dx n vars) = (first_tick xi (nice_division (dx / 5)), nice_division (dx / 5))"
  by (simp add: division_turn_def nice_division_def first_tick_def Let_def split: prod.split)

lemma compute_divisions_result:
  "compute_divisions xi xf =
    (if xi < xf then Inr (first_tick xi (nice_division ((xf - xi) / 5)), nice_division ((xf - xi) / 5)) else Inl AssertionError)"
proof -
  have five: "[0..<5] = [0, 1, 2, 3] @ [4 :: nat]" by (simp add: upt_conv_Cons)
  show ?thesis unfolding compute_divisions_def five fold_append fold_simps comp_def division_turn_result id_def by simp
qed

lemma root_ten: "3 / 10 < (10 :: real) powr (- (1 / 2))" "(10 :: real) powr (1 / 2) < 16 / 5"
proof -
  have "sqrt 10 < 16 / 5" by (rule real_less_lsqrt) (simp_all add: power2_eq_square)
  moreover have p: "(10 :: real) powr (1 / 2) = sqrt 10" by (simp add: powr_half_sqrt)
  ultimately show "(10 :: real) powr (1 / 2) < 16 / 5" by simp
  have "sqrt 10 < 10 / 3" by (rule real_less_lsqrt) (simp_all add: power2_eq_square)
  then have "3 / 10 < 1 / sqrt 10" by (simp add: field_simps)
  then show "3 / 10 < (10 :: real) powr (- (1 / 2))" by (simp add: powr_minus_divide p)
qed

text \<open>The distance is a power of ten, half of it or twice it, and between five eighths and five thirds of what is wanted.\<close>

lemma nice_division_bounds:
  assumes "0 < d"
  shows "\<exists>c k. nice_division d = c * 10 powr (of_int k) \<and> (c = 1 / 2 \<or> c = 1 \<or> c = 2)"
    "0 < nice_division d" "5 / 8 * d < nice_division d" "nice_division d < 5 / 3 * d"
proof -
  define r where "r = \<lfloor>log 10 d + 1 / 2\<rfloor>"
  define p where "p = (10 :: real) powr (of_int r)"
  have p: "0 < p" by (simp add: p_def)
  have "of_int r \<le> log 10 d + 1 / 2" "log 10 d + 1 / 2 < of_int r + 1" unfolding r_def by linarith+
  then have r: "of_int r - 1 / 2 \<le> log 10 d" "log 10 d < of_int r + 1 / 2" by linarith+
  have d: "10 powr (log 10 d) = d" using assms by simp
  have "10 powr (of_int r - 1 / 2) \<le> d" using r(1) d powr_mono [of "of_int r - 1 / 2" "log 10 d" 10] by simp
  moreover have "(10 :: real) powr (of_int r - 1 / 2) = p * 10 powr (- (1 / 2))" by (simp add: p_def flip: powr_add)
  ultimately have low: "3 / 10 * p < d" using root_ten(1) p
    by (smt (verit, best) mult.commute mult_strict_left_mono)
  have "d < 10 powr (of_int r + 1 / 2)" using r(2) d powr_less_mono [of "log 10 d" "of_int r + 1 / 2" 10] by simp
  moreover have "(10 :: real) powr (of_int r + 1 / 2) = p * 10 powr (1 / 2)" by (simp add: p_def flip: powr_add)
  ultimately have high: "d < 16 / 5 * p" using root_ten(2) p
    by (smt (verit, best) mult.commute mult_strict_left_mono)
  have n: "nice_division d = (if \<bar>p / 2 - d\<bar> < \<bar>p - d\<bar> then p / 2 else if \<bar>p * 2 - d\<bar> < \<bar>p - d\<bar> then p * 2 else p)"
    by (simp add: nice_division_def rint_def r_def p_def Let_def)
  show "\<exists>c k. nice_division d = c * 10 powr (of_int k) \<and> (c = 1 / 2 \<or> c = 1 \<or> c = 2)"
    unfolding n p_def by (rule exI [of _ "if \<bar>p / 2 - d\<bar> < \<bar>p - d\<bar> then 1 / 2 else if \<bar>p * 2 - d\<bar> < \<bar>p - d\<bar> then 2 else 1"], rule exI [of _ r])
      (simp add: p_def)
  show "0 < nice_division d" using p by (simp add: n)
  show "5 / 8 * d < nice_division d" "nice_division d < 5 / 3 * d"
    using low high p unfolding n by (auto simp: abs_if split: if_splits)
qed

text \<open>The ticks: all multiples from the first one up to the end.\<close>

lemma tick_loop_end: "\<not> x < x2 \<Longrightarrow> tick_loop x divi x2 = Some []"
  by (subst tick_loop.simps) simp

lemma tick_loop_result:
  assumes "0 < divi" "x + (of_nat m - 1) * divi < x2 \<or> m = 0" "x2 \<le> x + of_nat m * divi"
  shows "tick_loop x divi x2 = Some (map (\<lambda>k. x + of_nat k * divi) [0..<m])"
  using assms(2,3)
proof (induction m arbitrary: x)
  case 0
  then show ?case by (simp add: tick_loop_end)
next
  case (Suc m)
  have "x < x2"
  proof -
    have "x + of_nat m * divi < x2" using Suc.prems(1) by simp
    moreover have "0 \<le> of_nat m * divi" using assms(1) by simp
    ultimately show ?thesis by linarith
  qed
  moreover have "tick_loop (x + divi) divi x2 = Some (map (\<lambda>k. (x + divi) + of_nat k * divi) [0..<m])"
  proof (rule Suc.IH)
    show "x + divi + (of_nat m - 1) * divi < x2 \<or> m = 0" using Suc.prems(1) by (simp add: algebra_simps)
    show "x2 \<le> x + divi + of_nat m * divi" using Suc.prems(2) by (simp add: algebra_simps)
  qed
  moreover have "map (\<lambda>k. x + of_nat k * divi) [0..<Suc m] = x # map (\<lambda>k. (x + divi) + of_nat k * divi) [0..<m]"
    unfolding map_upt_Suc by (simp add: algebra_simps)
  ultimately show ?case by (subst tick_loop.simps) simp
qed

lemma first_tick_before:
  assumes "0 < divi"
  shows "first_tick xi divi < xi" "xi \<le> first_tick xi divi + divi" "\<exists>k. first_tick xi divi = of_int k * divi"
proof -
  have c: "of_int \<lceil>xi / divi\<rceil> - 1 < xi / divi" "xi / divi \<le> of_int \<lceil>xi / divi\<rceil>" by linarith+
  have e: "xi / divi * divi = xi" using assms by simp
  show "first_tick xi divi < xi"
    using mult_strict_right_mono [OF c(1) assms] e by (simp add: first_tick_def algebra_simps)
  show "xi \<le> first_tick xi divi + divi"
    using mult_right_mono [OF c(2), of divi] assms e by (simp add: first_tick_def algebra_simps)
  show "\<exists>k. first_tick xi divi = of_int k * divi"
    by (rule exI [of _ "\<lceil>xi / divi\<rceil> - 1"]) (simp add: first_tick_def algebra_simps)
qed

lemma ticks_count:
  assumes "xi < xf" "divi = nice_division ((xf - xi) / 5)" "x0 = first_tick xi divi"
  shows "\<exists>m\<in>{4..9}. tick_loop x0 divi xf = Some (map (\<lambda>k. x0 + of_nat k * divi) [0..<m]) \<and>
    x0 + (real m - 1) * divi < xf \<and> xf \<le> x0 + real m * divi"
proof -
  have d: "0 < (xf - xi) / 5" using assms(1) by simp
  note nice = nice_division_bounds(2,3,4) [OF d, folded assms(2)]
  note first = first_tick_before [OF nice(1), of xi, folded assms(3)]
  define m where "m = nat \<lceil>(xf - x0) / divi\<rceil>"
  have q: "3 < (xf - x0) / divi" "(xf - x0) / divi \<le> 9"
  proof -
    have "divi * 3 < xf - xi" using nice(3) by (simp add: field_simps)
    then have "3 * divi < xf - x0" using first(1) by linarith
    then show "3 < (xf - x0) / divi" using nice(1) by (simp add: field_simps)
    have "xf - xi < divi * 8" using nice(2) by (simp add: field_simps)
    then have "xf - x0 \<le> 9 * divi" using first(2) by linarith
    then show "(xf - x0) / divi \<le> 9" using nice(1) by (simp add: field_simps)
  qed
  then have m: "4 \<le> m" "m \<le> 9" "real m = of_int \<lceil>(xf - x0) / divi\<rceil>" unfolding m_def by linarith+
  have c: "real m - 1 < (xf - x0) / divi" "(xf - x0) / divi \<le> real m" unfolding m(3) by linarith+
  have e: "(xf - x0) / divi * divi = xf - x0" using nice(1) by simp
  have "x0 + (real m - 1) * divi < xf" using mult_strict_right_mono [OF c(1) nice(1)] e by linarith
  moreover have "xf \<le> x0 + real m * divi" using mult_right_mono [OF c(2), of divi] nice(1) e by linarith
  ultimately show ?thesis using tick_loop_result [OF nice(1), of x0 m xf] m by auto
qed

section \<open>Drawing\<close>

type_synonym line = "(real \<times> real) \<times> (real \<times> real)"

record axis_label =
  label_visible :: bool
  label_value :: real
  label_place :: "real \<times> real"

record axis_path =
  path_visible :: bool
  path_width :: real
  path_lines :: "line list"

record axes =
  visible :: bool
  hlines :: axis_path
  vlines :: axis_path
  labels :: "axis_label list"

text \<open>\<open>get_label\<close> and setting its properties: an unused label is shown again, or a new one is made.\<close>

definition get_label :: "real \<Rightarrow> real \<times> real \<Rightarrow> axis_label list \<times> axis_label list \<Rightarrow> axis_label list \<times> axis_label list" where
  "get_label x place pools =
     (case pools of (unused, used) \<Rightarrow>
        (tl unused, used @ [\<lparr>label_visible = True, label_value = x, label_place = place\<rparr>]))"

definition axis_ppm :: real where
  "axis_ppm = of_rat PIXELS_PER_METER"

definition place_labels :: "(real \<Rightarrow> real \<times> real) \<Rightarrow> real list \<Rightarrow> axis_label list \<times> axis_label list \<Rightarrow> axis_label list \<times> axis_label list" where
  "place_labels place xs pools = fold (\<lambda>x. get_label x (place x)) xs pools"

text \<open>
  One axis: the divisions, the ticks and their labels. \<open>None\<close> instead of a list of ticks would be a loop
  that does not end.
\<close>

definition axis_ticks :: "real \<Rightarrow> real \<Rightarrow> py_exn + real list option" where
  "axis_ticks xi xf = py_bind (compute_divisions xi xf) (\<lambda>(x0, divi). Inr (tick_loop x0 divi xf))"

text \<open>
  \<open>update_view\<close> for the visible part \<open>x1\<close>, \<open>y1\<close>, \<open>x2\<close>, \<open>y2\<close> of the canvas; the
  exception that stops it, if one does. The labels not used yet are lost when it is stopped.
\<close>

definition draw_horizontal :: "real \<Rightarrow> real \<Rightarrow> real \<Rightarrow> real \<Rightarrow> real list \<Rightarrow> axes \<Rightarrow> axes" where
  "draw_horizontal zoom x1 x2 y2 xs a =
     (let yc = y2 - 5 / zoom / 2; offset = 10 / zoom
      in a\<lparr>hlines := (hlines a)\<lparr>path_width := 5 / zoom,
           path_lines := ((x1, yc), (x2, yc)) # map (\<lambda>x. ((axis_ppm * x, yc - offset), (axis_ppm * x, yc))) xs\<rparr>\<rparr>)"

definition draw_vertical :: "real \<Rightarrow> real \<Rightarrow> real \<Rightarrow> real \<Rightarrow> real list \<Rightarrow> axes \<Rightarrow> axes" where
  "draw_vertical zoom x1 y1 y2 ys a =
     (let xc = x1 + 5 / zoom / 2; offset = 10 / zoom
      in a\<lparr>vlines := (vlines a)\<lparr>path_width := 5 / zoom,
           path_lines := ((xc, y1), (xc, y2)) # map (\<lambda>y. ((xc, axis_ppm * y), (xc + offset, axis_ppm * y))) ys\<rparr>\<rparr>)"

definition update_axes :: "real option \<Rightarrow> real \<Rightarrow> real \<Rightarrow> real \<Rightarrow> real \<Rightarrow> axes \<Rightarrow> (axes \<times> py_exn option) option" where
  "update_axes zoom x1 y1 x2 y2 a =
     (case zoom of
        None \<Rightarrow> Some (a, None)
      | Some z \<Rightarrow>
          let unused = map (\<lambda>l. l\<lparr>label_visible := False\<rparr>) (labels a);
              yc = y2 - 5 / z / 2; xc = x1 + 5 / z / 2; offset = 10 / z
          in case axis_ticks (x1 / axis_ppm) (x2 / axis_ppm) of
               Inl e \<Rightarrow> Some (a\<lparr>labels := [], hlines := (hlines a)\<lparr>path_width := 5 / z\<rparr>\<rparr>, Some e)
             | Inr None \<Rightarrow> None
             | Inr (Some xs) \<Rightarrow>
                 let (unused1, used1) = place_labels (\<lambda>x. (axis_ppm * x, yc - offset)) xs (unused, []);
                     a = draw_horizontal z x1 x2 y2 xs a
                 in case axis_ticks (y1 / axis_ppm) (y2 / axis_ppm) of
                      Inl e \<Rightarrow> Some (a\<lparr>labels := used1, vlines := (vlines a)\<lparr>path_width := 5 / z\<rparr>\<rparr>, Some e)
                    | Inr None \<Rightarrow> None
                    | Inr (Some ys) \<Rightarrow>
                        let (unused2, used2) = place_labels (\<lambda>y. (xc + offset, axis_ppm * y)) ys (unused1, used1)
                        in Some (draw_vertical z x1 y1 y2 ys (a\<lparr>labels := used2 @ unused2\<rparr>), None))"

definition set_visible :: "bool \<Rightarrow> axes \<Rightarrow> axes" where
  "set_visible v a =
     (let a = a\<lparr>visible := v, hlines := (hlines a)\<lparr>path_visible := v\<rparr>, vlines := (vlines a)\<lparr>path_visible := v\<rparr>\<rparr>
      in if v then a else a\<lparr>labels := map (\<lambda>l. l\<lparr>label_visible := False\<rparr>) (labels a)\<rparr>)"

text \<open>The handler of the scroll bars.\<close>

definition adjusted :: "real option \<Rightarrow> real \<Rightarrow> real \<Rightarrow> real \<Rightarrow> real \<Rightarrow> axes \<Rightarrow> (axes \<times> py_exn option) option" where
  "adjusted zoom x1 y1 x2 y2 a = (if visible a then update_axes zoom x1 y1 x2 y2 a else Some (a, None))"

lemma place_labels_result:
  "place_labels place xs (unused, used) =
    (drop (length xs) unused, used @ map (\<lambda>x. \<lparr>label_visible = True, label_value = x, label_place = place x\<rparr>) xs)"
  unfolding place_labels_def
  by (induction xs arbitrary: unused used) (simp_all add: get_label_def drop_Suc)

text \<open>
  Ticks that fit an interval: multiples of a round number without a gap, from the last one before the
  interval to the last one in it, four to nine of them.
\<close>

definition ticks_fit :: "real \<Rightarrow> real \<Rightarrow> real list \<Rightarrow> bool" where
  "ticks_fit lo hi ts \<longleftrightarrow>
     (\<exists>c p k m. (c = 1 / 2 \<or> c = 1 \<or> c = 2) \<and> m \<in> {4..9} \<and>
        ts = map (\<lambda>i. (of_int k + of_nat i) * (c * 10 powr (of_int p))) [0..<m] \<and>
        ts ! 0 < lo \<and> lo \<le> ts ! 1 \<and> last ts < hi \<and> hi \<le> last ts + c * 10 powr (of_int p))"

lemma axis_ticks_ok:
  assumes "lo < hi"
  shows "\<exists>ts. axis_ticks lo hi = Inr (Some ts) \<and> ticks_fit lo hi ts"
proof -
  define divi where "divi = nice_division ((hi - lo) / 5)"
  define x0 where "x0 = first_tick lo divi"
  have d: "0 < (hi - lo) / 5" using assms by simp
  obtain c p where cp: "divi = c * 10 powr (of_int p)" "c = 1 / 2 \<or> c = 1 \<or> c = 2"
    using nice_division_bounds(1) [OF d] divi_def by blast
  have pos: "0 < divi" using nice_division_bounds(2) [OF d] divi_def by simp
  obtain k where k: "x0 = of_int k * divi" using first_tick_before(3) [OF pos] x0_def by blast
  obtain m where m: "m \<in> {4..9}" "tick_loop x0 divi hi = Some (map (\<lambda>k. x0 + of_nat k * divi) [0..<m])"
    "x0 + (real m - 1) * divi < hi" "hi \<le> x0 + real m * divi"
    using ticks_count [OF assms divi_def x0_def] by blast
  define ts where "ts = map (\<lambda>i. x0 + of_nat i * divi) [0..<m]"
  have ts: "ts = map (\<lambda>i. (of_int k + of_nat i) * divi) [0..<m]" by (simp add: ts_def k algebra_simps)
  have len: "length ts = m" by (simp add: ts_def)
  have at: "ts ! i = x0 + of_nat i * divi" if "i < m" for i using that by (simp add: ts_def)
  have first: "ts ! 0 = x0" "ts ! 1 = x0 + divi" using at [of 0] at [of 1] m(1) by auto
  have "last ts = ts ! (m - 1)" using m(1) len by (subst last_conv_nth) auto
  then have last: "last ts = x0 + (real m - 1) * divi" using at [of "m - 1"] m(1) by (simp add: of_nat_diff)
  have "ticks_fit lo hi ts"
    unfolding ticks_fit_def
    by (rule exI [of _ c], rule exI [of _ p], rule exI [of _ k], rule exI [of _ m])
      (use cp m first last ts first_tick_before(1,2) [OF pos, of lo, folded x0_def] in \<open>simp add: algebra_simps flip: cp(1)\<close>)
  moreover have "axis_ticks lo hi = Inr (Some ts)"
    using assms m(2) by (simp add: axis_ticks_def compute_divisions_result ts_def flip: divi_def x0_def)
  ultimately show ?thesis by blast
qed

text \<open>C29: Drawing the axes of the visualizer ends for every visible part of the canvas that is not empty, whatever
  its size. On each axis the ticks are multiples of a power of ten, of half of one or of twice one; they begin with the
  last one before the visible part and go on to its end without a gap, between four and nine of them. Afterwards
  exactly the labels of these ticks are visible, each with the number of its tick. An empty part raises
  \<open>AssertionError\<close>.\<close>

theorem axes_ticks:
  assumes "x1 < x2" "y1 < y2"
  shows "(\<exists>a' xs ys. update_axes (Some zoom) x1 y1 x2 y2 a = Some (a', None) \<and>
      ticks_fit (x1 / 3) (x2 / 3) xs \<and> ticks_fit (y1 / 3) (y2 / 3) ys \<and>
      map label_value (filter label_visible (labels a')) = xs @ ys) \<and>
    (\<exists>a'. update_axes (Some zoom) x2 y1 x2 y2 a = Some (a', Some AssertionError))"
proof
  have ppm: "axis_ppm = 3" by (simp add: axis_ppm_def PIXELS_PER_METER_def)
  obtain xs where xs: "axis_ticks (x1 / 3) (x2 / 3) = Inr (Some xs)" "ticks_fit (x1 / 3) (x2 / 3) xs"
    using axis_ticks_ok [of "x1 / 3" "x2 / 3"] assms(1) by auto
  obtain ys where ys: "axis_ticks (y1 / 3) (y2 / 3) = Inr (Some ys)" "ticks_fit (y1 / 3) (y2 / 3) ys"
    using axis_ticks_ok [of "y1 / 3" "y2 / 3"] assms(2) by auto
  have hidden: "filter label_visible (drop n (map (\<lambda>l. l\<lparr>label_visible := False\<rparr>) ls)) = []" for n and ls :: "axis_label list"
    by (auto simp: filter_empty_conv dest!: in_set_dropD)
  show "\<exists>a' xs ys. update_axes (Some zoom) x1 y1 x2 y2 a = Some (a', None) \<and>
      ticks_fit (x1 / 3) (x2 / 3) xs \<and> ticks_fit (y1 / 3) (y2 / 3) ys \<and> map label_value (filter label_visible (labels a')) = xs @ ys"
    using xs ys by (simp add: update_axes_def ppm place_labels_result draw_horizontal_def draw_vertical_def hidden comp_def Let_def) blast
  show "\<exists>a'. update_axes (Some zoom) x2 y1 x2 y2 a = Some (a', Some AssertionError)"
    by (simp add: update_axes_def axis_ticks_def compute_divisions_result Let_def)
qed

definition empty_axes :: axes where
  "empty_axes =
     (let p = \<lparr>path_visible = True, path_width = 1, path_lines = []\<rparr> in \<lparr>visible = True, hlines = p, vlines = p, labels = []\<rparr>)"

theorem axes_ticks_witness:
  "\<exists>a' xs ys. update_axes (Some 1) 0 0 600 450 empty_axes = Some (a', None) \<and>
    ticks_fit 0 200 xs \<and> ticks_fit 0 150 ys \<and> map label_value (filter label_visible (labels a')) = xs @ ys"
  using axes_ticks [of 0 600 0 450 1 empty_axes] by simp

text \<open>Showing the axes again brings back their lines but not their labels, which wait for the next movement.\<close>

lemma shown_without_labels: "\<forall>l\<in>set (labels (set_visible True (set_visible False a))). \<not> label_visible l"
  by (auto simp: set_visible_def Let_def)

end
