(* ===== verification/Viz_Window.thy ===== *)
theory Viz_Window
  imports Viz_Nodes
begin

text \<open>
  The window of the visualizer (\<open>src/src/visualizer/visualizer/core.py\<close>): zoom, scrolling, panning with the
  middle button, the automatic scale, centring on a node, following a node, the information windows, the
  search for the object under the pointer and the format of a screenshot. Distances are rational. A point of the
  canvas and a pixel are related by the zoom and the origin, the corner of the bounds of the canvas (\<open>set_bounds\<close>). A
  scroll bar goes over the pixels of the bounds: as gtk documents, a value it is set to is brought between its lower end
  and its upper end less the page.
\<close>

section \<open>The window\<close>

record panning_state =
  initial_mouse_pos :: point
  initial_canvas_pos :: point
  motion_signal :: nat

record window_state =
  zoom :: rat
  scrolled :: point
  page_size :: point
  origin :: point
  bounds_end :: point
  panning :: "panning_state option"
  motion_handlers :: "nat list"
  next_handler :: nat
  follow_node :: "nat option"

text \<open>The range of the zoom control.\<close>

definition set_zoom :: "rat \<Rightarrow> window_state \<Rightarrow> window_state" where
  "set_zoom z w = w\<lparr>zoom := max (1 / 100) (min 10 z)\<rparr>"

definition convert_to_pixels :: "window_state \<Rightarrow> point \<Rightarrow> point" where
  "convert_to_pixels w p = ((fst p - fst (origin w)) * zoom w, (snd p - snd (origin w)) * zoom w)"

definition convert_from_pixels :: "window_state \<Rightarrow> point \<Rightarrow> point" where
  "convert_from_pixels w p = (fst p / zoom w + fst (origin w), snd p / zoom w + snd (origin w))"

definition scroll_max :: "window_state \<Rightarrow> point" where
  "scroll_max w = (max 0 ((fst (bounds_end w) - fst (origin w)) * zoom w - fst (page_size w)),
                   max 0 ((snd (bounds_end w) - snd (origin w)) * zoom w - snd (page_size w)))"

definition set_scroll :: "point \<Rightarrow> window_state \<Rightarrow> window_state" where
  "set_scroll p w = w\<lparr>scrolled := (max 0 (min (fst (scroll_max w)) (fst p)), max 0 (min (snd (scroll_max w)) (snd p)))\<rparr>"

text \<open>The corners of what is visible.\<close>

definition visible_corner :: "window_state \<Rightarrow> point" where
  "visible_corner w = convert_from_pixels w (scrolled w)"

definition visible_end :: "window_state \<Rightarrow> point" where
  "visible_end w = convert_from_pixels w (fst (scrolled w) + fst (page_size w), snd (scrolled w) + snd (page_size w))"

section \<open>Panning and zoom\<close>









section \<open>Centring and automatic scale\<close>

definition scroll_to :: "point \<Rightarrow> window_state \<Rightarrow> window_state" where
  "scroll_to p w = set_scroll (convert_to_pixels w p) w"

definition centre_on :: "point \<Rightarrow> window_state \<Rightarrow> window_state" where
  "centre_on p w =
     (let px = convert_to_pixels w p
      in set_scroll (fst px - fst (page_size w) / 2, snd px - snd (page_size w) / 2) w)"

text \<open>\<open>center_on_node\<close> does not accept \<open>None\<close>.\<close>

definition center_on_node :: "node_ref \<Rightarrow> view \<Rightarrow> window_state \<Rightarrow> py_exn + window_state" where
  "center_on_node r v w =
     (if r = Ref_None then Inl TypeError
      else py_bind (resolve_ref r v) (\<lambda>node. case node of
        None \<Rightarrow> Inl TypeError
      | Some i \<Rightarrow> Inr (centre_on (end_position v (Node_End i)) w)))"

text \<open>\<open>set_follow_node\<close> looks only a node of the simulation up, and takes anything else as it is.\<close>

definition set_follow_node :: "node_ref \<Rightarrow> view \<Rightarrow> window_state \<Rightarrow> py_exn + window_state" where
  "set_follow_node r v w =
     (case r of
        Ref_Sim i \<Rightarrow> if has_key (nodes v) i then Inr (w\<lparr>follow_node := Some i\<rparr>) else Inl KeyError
      | Ref_View i \<Rightarrow> Inr (w\<lparr>follow_node := Some i\<rparr>)
      | _ \<Rightarrow> Inr (w\<lparr>follow_node := None\<rparr>))"

text \<open>The end of \<open>_update_node_positions\<close> for the node followed; the node is where its mobility model says.\<close>

definition follow :: "view \<Rightarrow> window_state \<Rightarrow> window_state" where
  "follow v w =
     (case follow_node w of
        None \<Rightarrow> w
      | Some i \<Rightarrow> if has_key (nodes v) i \<and> mobility v i \<noteq> None then centre_on (end_position v (Node_End i)) w else w)"

text \<open>The scale for the positions of the nodes.\<close>

definition fit_view :: "point list \<Rightarrow> window_state \<Rightarrow> window_state" where
  "fit_view positions w =
     (if positions = [] then w
      else
        let min_x = Min (fst ` set positions); min_y = Min (snd ` set positions);
            max_x = Max (fst ` set positions); max_y = Max (snd ` set positions);
            dx_px = fst (convert_to_pixels w (max_x, max_y)) - fst (convert_to_pixels w (min_x, min_y));
            dy_px = snd (convert_to_pixels w (max_x, max_y)) - snd (convert_to_pixels w (min_x, min_y));
            new_dx = 3 / 2 * dx_px; new_dy = 3 / 2 * dy_px
        in if new_dx = 0 \<or> new_dy = 0 then w
           else
             let w = set_zoom (min (fst (page_size w) / new_dx) (snd (page_size w) / new_dy)) w;
                 width = fst (visible_end w) - fst (visible_corner w);
                 height = snd (visible_end w) - snd (visible_corner w)
             in scroll_to ((min_x + max_x) / 2 - width / 2, (min_y + max_y) / 2 - height / 2) w)"

definition autoscale_view :: "view \<Rightarrow> window_state \<Rightarrow> view \<times> window_state" where
  "autoscale_view v w =
     (if nodes v = [] then (v, w)
      else let v = update_node_positions v
           in (v, fit_view (map (\<lambda>(i, n). center n) (nodes v)) (follow v w)))"

section \<open>Information windows, tooltips and screenshots\<close>

text \<open>A window is updated when it is added; an exception of the update reaches the caller, the window stays listed.\<close>

definition add_information_window :: "('a \<Rightarrow> 'b \<Rightarrow> py_exn + 'b) \<Rightarrow> 'a \<Rightarrow> 'a list \<times> 'b \<Rightarrow> ('a list \<times> 'b) \<times> py_exn option" where
  "add_information_window update win ws =
     (case update win (snd ws) of
        Inl e \<Rightarrow> ((fst ws @ [win], snd ws), Some e)
      | Inr b \<Rightarrow> ((fst ws @ [win], b), None))"

definition remove_information_window :: "'a \<Rightarrow> 'a list \<Rightarrow> py_exn + 'a list" where
  "remove_information_window win ws = (if win \<in> set ws then Inr (remove1 win ws) else Inl ValueError)"

text \<open>The items from the one under the pointer outwards; the first with an object answers the query.\<close>

fun tooltip_object :: "'a option list \<Rightarrow> 'a option" where
  "tooltip_object [] = None"
| "tooltip_object (None # items) = tooltip_object items"
| "tooltip_object (Some ob # items) = Some ob"

datatype surface = PS_Surface | PDF_Surface | SVG_Surface

definition screenshot_surface :: "string \<Rightarrow> surface option" where
  "screenshot_surface extension =
     (if extension = ''.eps'' then Some PS_Surface else if extension = ''.pdf'' then Some PDF_Surface
      else if extension = ''.svg'' then Some SVG_Surface else None)"

section \<open>What the user sees\<close>

text \<open>Where a bar stands after it was set to \<open>t\<close>, in one direction.\<close>

definition bar :: "rat \<Rightarrow> rat \<Rightarrow> rat" where
  "bar m t = max 0 (min m t)"


lemma scroll_max_nonneg [simp]: "0 \<le> fst (scroll_max w)" "0 \<le> snd (scroll_max w)"
  by (simp_all add: scroll_max_def)

lemma set_scroll_simps [simp]:
  "panning (set_scroll p w) = panning w" "motion_handlers (set_scroll p w) = motion_handlers w"
  "zoom (set_scroll p w) = zoom w" "origin (set_scroll p w) = origin w" "page_size (set_scroll p w) = page_size w"
  "scroll_max (set_scroll p w) = scroll_max w"
  "scrolled (set_scroll p w) = (bar (fst (scroll_max w)) (fst p), bar (snd (scroll_max w)) (snd p))" "set_scroll p (set_scroll q w) = set_scroll p w"
  by (simp_all add: set_scroll_def scroll_max_def bar_def)





text \<open>Whether a point is in the visible part.\<close>

definition is_visible :: "window_state \<Rightarrow> point \<Rightarrow> bool" where
  "is_visible w p \<longleftrightarrow> fst (visible_corner w) \<le> fst p \<and> fst p \<le> fst (visible_end w) \<and>
     snd (visible_corner w) \<le> snd p \<and> snd p \<le> snd (visible_end w)"

lemma set_zoom_simps [simp]:
  "page_size (set_zoom z w) = page_size w" "zoom (set_zoom z w) = max (1 / 100) (min 10 z)" "origin (set_zoom z w) = origin w"
  "bounds_end (set_zoom z w) = bounds_end w"
  by (simp_all add: set_zoom_def)

lemma visible_size:
  "fst (visible_end w) - fst (visible_corner w) = fst (page_size w) / zoom w"
  "snd (visible_end w) - snd (visible_corner w) = snd (page_size w) / zoom w"
  by (simp_all add: visible_end_def visible_corner_def convert_from_pixels_def add_divide_distrib)

text \<open>Where the visible part begins when the canvas is scrolled to \<open>c\<close>, in one direction: the canvas goes from \<open>a\<close> to \<open>b\<close>,
  and \<open>v\<close> of it is visible.\<close>

definition shown_from :: "rat \<Rightarrow> rat \<Rightarrow> rat \<Rightarrow> rat \<Rightarrow> rat" where
  "shown_from a b v c = a + max 0 (min (max 0 (b - a - v)) (c - a))"

lemma bar_shown: "0 < z \<Longrightarrow> bar (max 0 ((b - a) * z - page)) ((c - a) * z) / z + a = shown_from a b (page / z) c"
proof -
  assume z: "0 < z"
  have "max 0 ((b - a) * z - page) = max 0 (b - a - page / z) * z"
    using z by (simp add: max_def field_simps)
  then have "bar (max 0 ((b - a) * z - page)) ((c - a) * z) = max 0 (min (max 0 (b - a - page / z)) (c - a)) * z"
    using z by (simp add: bar_def max_mult_distrib_right min_mult_distrib_right)
  then show ?thesis using z by (simp add: shown_from_def)
qed

lemma scroll_to_corner:
  assumes "0 < zoom w"
  shows "visible_corner (scroll_to p w) =
      (shown_from (fst (origin w)) (fst (bounds_end w)) (fst (page_size w) / zoom w) (fst p),
       shown_from (snd (origin w)) (snd (bounds_end w)) (snd (page_size w) / zoom w) (snd p))"
  using bar_shown [OF assms] by (simp add: scroll_to_def visible_corner_def convert_from_pixels_def convert_to_pixels_def scroll_max_def)

text \<open>Scrolling to where the nodes would be in the middle shows them all, if so much is visible, and has them in the middle if the
  visible part stays on the canvas.\<close>

lemma shown_from_middle:
  assumes "a \<le> lo" "lo \<le> hi" "hi \<le> b"
  shows "hi - lo \<le> v \<Longrightarrow> shown_from a b v ((lo + hi) / 2 - v / 2) \<le> lo \<and> hi \<le> shown_from a b v ((lo + hi) / 2 - v / 2) + v"
    "a \<le> (lo + hi) / 2 - v / 2 \<Longrightarrow> (lo + hi) / 2 + v / 2 \<le> b \<Longrightarrow> shown_from a b v ((lo + hi) / 2 - v / 2) = (lo + hi) / 2 - v / 2"
proof -
  define c where "c = (lo + hi) / 2 - v / 2"
  have c: "c + c = lo + hi - v" "(lo + hi) / 2 + v / 2 = c + v" by (simp_all add: c_def field_simps)
  show "shown_from a b v ((lo + hi) / 2 - v / 2) \<le> lo \<and> hi \<le> shown_from a b v ((lo + hi) / 2 - v / 2) + v" if "hi - lo \<le> v"
    using assms c(1) that unfolding c_def [symmetric] by (auto simp: shown_from_def max_def min_def)
  show "shown_from a b v ((lo + hi) / 2 - v / 2) = (lo + hi) / 2 - v / 2" if "a \<le> (lo + hi) / 2 - v / 2" "(lo + hi) / 2 + v / 2 \<le> b"
    using that unfolding c(2) c_def [symmetric] by (auto simp: shown_from_def max_def min_def)
qed

text \<open>The scale asked for, and what it gives.\<close>

definition wanted_zoom :: "point list \<Rightarrow> window_state \<Rightarrow> rat" where
  "wanted_zoom ps w =
     min (fst (page_size w) / (3 / 2 * (zoom w * (Max (fst ` set ps) - Min (fst ` set ps)))))
         (snd (page_size w) / (3 / 2 * (zoom w * (Max (snd ` set ps) - Min (snd ` set ps)))))"

lemma fit_view_result:
  assumes "ps \<noteq> []" "Min (fst ` set ps) < Max (fst ` set ps)" "Min (snd ` set ps) < Max (snd ` set ps)" "0 < zoom w"
  shows "let z = max (1 / 100) (min 10 (wanted_zoom ps w)); w' = fit_view ps w;
             dx = fst (page_size w) / z; dy = snd (page_size w) / z
    in zoom w' = z \<and>
      visible_corner w' = (shown_from (fst (origin w)) (fst (bounds_end w)) dx ((Min (fst ` set ps) + Max (fst ` set ps)) / 2 - dx / 2),
        shown_from (snd (origin w)) (snd (bounds_end w)) dy ((Min (snd ` set ps) + Max (snd ` set ps)) / 2 - dy / 2)) \<and>
      visible_end w' = (fst (visible_corner w') + dx, snd (visible_corner w') + dy)"
proof -
  define z where "z = max (1 / 100) (min 10 (wanted_zoom ps w))"
  let ?mx = "(Min (fst ` set ps) + Max (fst ` set ps)) / 2" and ?my = "(Min (snd ` set ps) + Max (snd ` set ps)) / 2"
  let ?v = "set_zoom (wanted_zoom ps w) w"
  let ?c = "(?mx - fst (page_size w) / z / 2, ?my - snd (page_size w) / z / 2)"
  have z: "0 < zoom ?v" "zoom ?v = z" by (simp_all add: z_def)
  have "fst (convert_to_pixels w a) - fst (convert_to_pixels w b) = zoom w * (fst a - fst b)"
    "snd (convert_to_pixels w a) - snd (convert_to_pixels w b) = zoom w * (snd a - snd b)" for a b
    by (simp_all add: convert_to_pixels_def algebra_simps)
  then have fit: "fit_view ps w = scroll_to ?c ?v"
    using assms by (simp add: fit_view_def Let_def wanted_zoom_def visible_size z_def)
  have zoom: "zoom (scroll_to ?c ?v) = z" "page_size (scroll_to ?c ?v) = page_size w" using z by (simp_all add: scroll_to_def)
  have "visible_end (scroll_to ?c ?v) = (fst (visible_corner (scroll_to ?c ?v)) + fst (page_size w) / z,
      snd (visible_corner (scroll_to ?c ?v)) + snd (page_size w) / z)"
    using visible_size [of "scroll_to ?c ?v"] unfolding zoom by (simp add: prod_eq_iff algebra_simps)
  then show ?thesis
    using scroll_to_corner [OF z(1), of ?c] z(2) zoom unfolding Let_def z_def [symmetric] fit by simp
qed

lemma wanted_zoom_le:
  assumes "0 < zoom w" "Min (fst ` set ps) < Max (fst ` set ps)" "Min (snd ` set ps) < Max (snd ` set ps)" "0 < z" "z \<le> wanted_zoom ps w"
  shows "3 / 2 * zoom w * (Max (fst ` set ps) - Min (fst ` set ps)) \<le> fst (page_size w) / z"
    "3 / 2 * zoom w * (Max (snd ` set ps) - Min (snd ` set ps)) \<le> snd (page_size w) / z"
  using assms by (simp_all add: wanted_zoom_def pos_le_divide_eq mult.commute mult.left_commute mult.assoc)

text \<open>C28: Let the nodes be within the bounds of the canvas and spread in both directions, and the scale needed be not
  below the least one. The automatic scale shows every node when the old zoom, for which it computes the distances in
  pixels, is two thirds or more, as the initial zoom of 1 is. When the old zoom is below two thirds and the scale
  computed is at most the greatest one, 10, some node is outside the window afterwards. The nodes are in the middle of the
  window, unless that would take it beyond the bounds of the canvas.\<close>

theorem autoscale_fits:
  assumes "ps \<noteq> []" "Min (fst ` set ps) < Max (fst ` set ps)" "Min (snd ` set ps) < Max (snd ` set ps)" "0 < zoom w"
    "\<forall>p\<in>set ps. fst (origin w) \<le> fst p \<and> fst p \<le> fst (bounds_end w) \<and> snd (origin w) \<le> snd p \<and> snd p \<le> snd (bounds_end w)"
    "1 / 100 \<le> wanted_zoom ps w" "0 < fst (page_size w)" "0 < snd (page_size w)"
  shows "let w' = fit_view ps w; sx = Min (fst ` set ps) + Max (fst ` set ps); sy = Min (snd ` set ps) + Max (snd ` set ps);
             dx = fst (page_size w) / zoom w'; dy = snd (page_size w) / zoom w' in
    (2 / 3 \<le> zoom w \<longrightarrow> (\<forall>p\<in>set ps. is_visible w' p)) \<and>
    (zoom w < 2 / 3 \<and> wanted_zoom ps w \<le> 10 \<longrightarrow> (\<exists>p\<in>set ps. \<not> is_visible w' p)) \<and>
    (fst (origin w) \<le> (sx - dx) / 2 \<and> (sx + dx) / 2 \<le> fst (bounds_end w) \<longrightarrow> fst (visible_corner w') + fst (visible_end w') = sx) \<and>
    (snd (origin w) \<le> (sy - dy) / 2 \<and> (sy + dy) / 2 \<le> snd (bounds_end w) \<longrightarrow> snd (visible_corner w') + snd (visible_end w') = sy)"
proof -
  define w' where "w' = fit_view ps w"
  let ?mx = "Min (fst ` set ps)" and ?Mx = "Max (fst ` set ps)" and ?my = "Min (snd ` set ps)" and ?My = "Max (snd ` set ps)"
  obtain z where z: "z = max (1 / 100) (min 10 (wanted_zoom ps w))" "0 < z" "z \<le> wanted_zoom ps w" using assms(6) by auto
  define dx where "dx = fst (page_size w) / z"
  define dy where "dy = snd (page_size w) / z"
  have corners: "zoom w' = z"
    "visible_corner w' = (shown_from (fst (origin w)) (fst (bounds_end w)) dx ((?mx + ?Mx) / 2 - dx / 2),
      shown_from (snd (origin w)) (snd (bounds_end w)) dy ((?my + ?My) / 2 - dy / 2))"
    "visible_end w' = (fst (visible_corner w') + dx, snd (visible_corner w') + dy)"
    using fit_view_result [OF assms(1-4)] unfolding Let_def w'_def z(1) dx_def dy_def by auto
  have ends: "?mx \<in> fst ` set ps" "?Mx \<in> fst ` set ps" "?my \<in> snd ` set ps" "?My \<in> snd ` set ps"
    using assms(1) by (auto intro!: Min_in Max_in)
  then have inside: "fst (origin w) \<le> ?mx" "?Mx \<le> fst (bounds_end w)" "snd (origin w) \<le> ?my" "?My \<le> snd (bounds_end w)"
    using assms(5) by (metis (no_types, lifting) imageE)+
  note midx = shown_from_middle [OF inside(1) less_imp_le [OF assms(2)] inside(2), of dx]
    and midy = shown_from_middle [OF inside(3) less_imp_le [OF assms(3)] inside(4), of dy]
  note wide = wanted_zoom_le [OF assms(4,2,3) z(2,3), folded dx_def dy_def]
  have shown: "is_visible w' p" if "2 / 3 \<le> zoom w" "p \<in> set ps" for p
  proof -
    have "?mx \<le> fst p" "fst p \<le> ?Mx" "?my \<le> snd p" "snd p \<le> ?My" using that(2) by simp_all
    moreover have "?Mx - ?mx \<le> 3 / 2 * zoom w * (?Mx - ?mx)" "?My - ?my \<le> 3 / 2 * zoom w * (?My - ?my)"
      using mult_right_mono [of 1 "3 / 2 * zoom w" "?Mx - ?mx"] mult_right_mono [of 1 "3 / 2 * zoom w" "?My - ?my"] that(1) assms(2,3)
      by simp_all
    ultimately show ?thesis using midx(1) midy(1) wide unfolding is_visible_def corners(2,3) fst_conv snd_conv by linarith
  qed
  have hidden: "\<exists>p\<in>set ps. \<not> is_visible w' p" if "zoom w < 2 / 3" "wanted_zoom ps w \<le> 10"
  proof -
    have "z = wanted_zoom ps w" using that(2) assms(6) z(1) by simp
    then consider "z = fst (page_size w) / (3 / 2 * (zoom w * (?Mx - ?mx)))" | "z = snd (page_size w) / (3 / 2 * (zoom w * (?My - ?my)))"
      unfolding wanted_zoom_def by linarith
    then show ?thesis
    proof cases
      case 1
      then have "dx = 3 / 2 * zoom w * (?Mx - ?mx)" using assms(2,4,7) by (simp add: dx_def)
      moreover have "3 / 2 * zoom w * (?Mx - ?mx) < ?Mx - ?mx"
        using mult_strict_right_mono [of "3 / 2 * zoom w" 1 "?Mx - ?mx"] that(1) assms(2) by simp
      moreover obtain p where "p \<in> set ps" "?Mx = fst p" using ends(2) by (rule imageE)
      moreover obtain q where "q \<in> set ps" "?mx = fst q" using ends(1) by (rule imageE)
      ultimately have "\<not> (is_visible w' p \<and> is_visible w' q)"
        unfolding is_visible_def corners(3) fst_conv by linarith
      then show ?thesis using \<open>p \<in> set ps\<close> \<open>q \<in> set ps\<close> by blast
    next
      case 2
      then have "dy = 3 / 2 * zoom w * (?My - ?my)" using assms(3,4,8) by (simp add: dy_def)
      moreover have "3 / 2 * zoom w * (?My - ?my) < ?My - ?my"
        using mult_strict_right_mono [of "3 / 2 * zoom w" 1 "?My - ?my"] that(1) assms(3) by simp
      moreover obtain p where "p \<in> set ps" "?My = snd p" using ends(4) by (rule imageE)
      moreover obtain q where "q \<in> set ps" "?my = snd q" using ends(3) by (rule imageE)
      ultimately have "\<not> (is_visible w' p \<and> is_visible w' q)"
        unfolding is_visible_def corners(3) snd_conv by linarith
      then show ?thesis using \<open>p \<in> set ps\<close> \<open>q \<in> set ps\<close> by blast
    qed
  qed
  show ?thesis unfolding Let_def w'_def [symmetric] corners(1) dx_def [symmetric] dy_def [symmetric]
    using shown hidden midx(2) midy(2) by (auto simp: corners(2,3) diff_divide_distrib add_divide_distrib)
qed

text \<open>The window at the start: the bounds of \<open>create_gui\<close>, scrolled to their middle.\<close>

definition example_window :: window_state where
  "example_window = \<lparr>zoom = 1, scrolled = (10000, 10000), page_size = (600, 450), origin = (- 10000, - 10000), bounds_end = (10000, 10000),
     panning = None, motion_handlers = [], next_handler = 0, follow_node = None\<rparr>"


theorem autoscale_fits_witness:
  "is_visible (fit_view [(0, 0), (100, 50)] example_window) (100, 50)"
proof -
  let ?ps = "[(0, 0), (100, 50)] :: point list"
  have ext: "Min (fst ` set ?ps) = 0" "Max (fst ` set ?ps) = 100" "Min (snd ` set ?ps) = 0" "Max (snd ` set ?ps) = 50" by simp_all
  have win: "zoom example_window = 1" "page_size example_window = (600, 450)" "origin example_window = (- 10000, - 10000)"
    "bounds_end example_window = (10000, 10000)" by (simp_all add: example_window_def)
  have "1 / 100 \<le> wanted_zoom ?ps example_window" unfolding wanted_zoom_def ext win by simp
  from autoscale_fits [of ?ps example_window, OF _ _ _ _ _ this] show ?thesis
    by (simp add: Let_def win ext [simplified])
qed

end
