(* ===== verification/Viz_Tooltip.thy ===== *)
theory Viz_Tooltip
  imports Py_Base Complex_Main
begin

text \<open>
  \<open>src/src/visualizer/visualizer/core.py\<close>: the tooltip of a node and the start of the visualizer. What the simulator
  says of a node is the record \<open>node_info\<close>; a device without an interface of a protocol, or a node without the
  protocol, has no addresses of it (\<open>None\<close>). The lines the plug-ins add are an argument.
\<close>

section \<open>The text\<close>

record device_info =
  di_name :: string
  di_type :: string
  di_ipv4 :: "(string \<times> string) list option"
  di_ipv6 :: "(string \<times> string) list option"
  di_mac :: string

record node_info =
  ni_name :: string
  ni_mobility :: "string option"
  ni_devices :: "device_info list"

definition bold :: "string \<Rightarrow> string" where
  "bold s = ''<b>'' @ s @ ''</b>''"

definition address_line :: "string \<Rightarrow> (string \<times> string) list option \<Rightarrow> string list" where
  "address_line protocol addresses =
     (case addresses of
        None \<Rightarrow> []
      | Some as \<Rightarrow> [''    '' @ bold (protocol @ '' Addresses:'') @ '' '' @ join_with ''; '' (map (\<lambda>(a, m). a @ ''/'' @ m) as)])"

definition device_lines :: "nat \<Rightarrow> device_info \<Rightarrow> string list" where
  "device_lines i dev =
     [[], ''  <u>NetDevice '' @ dec_digits i @ '':</u>''] @
     (if di_name dev \<noteq> [] then [''    '' @ bold ''Name:'' @ '' '' @ di_name dev] else []) @
     [''    '' @ bold ''Type:'' @ '' '' @ di_type dev] @
     address_line ''IPv4'' (di_ipv4 dev) @ address_line ''IPv6'' (di_ipv6 dev) @
     [''    '' @ bold ''MAC Address:'' @ '' '' @ di_mac dev]"

definition tooltip_lines :: "nat \<Rightarrow> string list \<Rightarrow> node_info \<Rightarrow> string list" where
  "tooltip_lines i extra node =
     [''<b><u>Node '' @ dec_digits i @ ''</u></b>'' @ (if ni_name node \<noteq> [] then '' '' @ bold (''('' @ ni_name node @ '')'') else []), []] @ extra @
     (case ni_mobility node of None \<Rightarrow> [] | Some m \<Rightarrow> [''  '' @ bold ''Mobility Model'' @ '': '' @ m]) @
     concat (map (\<lambda>(j, dev). device_lines j dev) (List.enumerate 0 (ni_devices node)))"

definition tooltip_query :: "nat \<Rightarrow> string list \<Rightarrow> node_info \<Rightarrow> string" where
  "tooltip_query i extra node = join_with newline (tooltip_lines i extra node)"

section \<open>Starting\<close>

text \<open>Hooks are run once the window is there, in the order in which they were added.\<close>

datatype hook = Hook nat | Bounds_Hook rat rat rat rat

datatype start_action = Run_Simulator | Load_Plugins | New_Visualizer | Idle_Hook hook | Enable_Printing | Start_Window

definition add_initialization_hook :: "hook \<Rightarrow> hook list \<Rightarrow> hook list" where
  "add_initialization_hook h hooks = hooks @ [h]"

definition set_bounds :: "rat \<Rightarrow> rat \<Rightarrow> rat \<Rightarrow> rat \<Rightarrow> hook list \<Rightarrow> py_exn + hook list" where
  "set_bounds x1 y1 x2 y2 hooks =
     (if \<not> x2 > x1 \<or> \<not> y2 > y1 then Inl AssertionError else Inr (add_initialization_hook (Bounds_Hook x1 y1 x2 y2) hooks))"

definition start :: "bool \<Rightarrow> bool \<Rightarrow> hook list \<Rightarrow> py_exn + start_action list" where
  "start running import_failed hooks =
     (if running then Inl AssertionError
      else if import_failed then Inr [Run_Simulator]
      else Inr ([Load_Plugins, New_Visualizer] @ map Idle_Hook hooks @ [Enable_Printing, Start_Window]))"

section \<open>The markup\<close>

text \<open>Whether a text is markup the toolkit accepts: every tag is closed, innermost first. Entities are not used.\<close>

function markup :: "string list \<Rightarrow> string \<Rightarrow> bool" where
  "markup tags [] = (tags = [])"
| "markup tags (c # s) =
     (if c = CHR ''&'' then False
      else if c \<noteq> CHR ''<'' then markup tags s
      else case dropWhile (\<lambda>x. x \<noteq> CHR ''>'') s of
        [] \<Rightarrow> False
      | d # r \<Rightarrow>
          let tag = takeWhile (\<lambda>x. x \<noteq> CHR ''>'') s
          in if starts_with tag ''/'' then (case tags of [] \<Rightarrow> False | t # ts \<Rightarrow> tl tag = t \<and> markup ts r)
             else markup (tag # tags) r)"
  by pat_completeness auto
termination
proof (relation "measure (\<lambda>(tags, s). length s)")
  show "wf (measure (\<lambda>(tags, s). length s))" by simp
qed (auto dest!: arg_cong [where f = length], (metis length_dropWhile_le less_Suc_eq_le Suc_le_lessD le_less_trans lessI less_SucI)+)

definition plain :: "string \<Rightarrow> bool" where
  "plain s \<longleftrightarrow> CHR ''<'' \<notin> set s \<and> CHR ''&'' \<notin> set s"

text \<open>A text that can be put anywhere.\<close>

definition neutral :: "string \<Rightarrow> bool" where
  "neutral s \<longleftrightarrow> (\<forall>tags rest. markup tags (s @ rest) = markup tags rest)"

lemma neutral_append [intro]: "neutral a \<Longrightarrow> neutral b \<Longrightarrow> neutral (a @ b)"
  by (simp add: neutral_def)

lemma neutral_Nil [simp]: "neutral []"
  by (simp add: neutral_def)

lemma neutral_plain: "plain s \<Longrightarrow> neutral s"
proof (induction s)
  case (Cons c s)
  then show ?case by (auto simp: plain_def neutral_def)
qed simp

lemma neutral_tag:
  assumes "neutral s" "CHR ''>'' \<notin> set t" "t \<noteq> []" "hd t \<noteq> CHR ''/''"
  shows "neutral (''<'' @ t @ ''>'' @ s @ ''</'' @ t @ ''>'')"
proof -
  have cut: "dropWhile (\<lambda>x. x \<noteq> CHR ''>'') (u @ CHR ''>'' # r) = CHR ''>'' # r" "takeWhile (\<lambda>x. x \<noteq> CHR ''>'') (u @ CHR ''>'' # r) = u"
    if "CHR ''>'' \<notin> set u" for u r using that by (induction u) auto
  have "markup tags (''<'' @ t @ ''>'' @ r) = markup (t # tags) r" for tags r
    using cut [OF assms(2)] assms(3,4) by (cases t) (auto simp: starts_with_def)
  moreover have "markup (t # tags) (''</'' @ t @ ''>'' @ r) = markup tags r" for tags r
    using cut [of "CHR ''/'' # t"] assms(2) by (simp add: starts_with_def)
  ultimately show ?thesis using assms(1) by (simp add: neutral_def)
qed

lemma neutral_join: "neutral sep \<Longrightarrow> \<forall>x\<in>set xs. neutral x \<Longrightarrow> neutral (join_with sep xs)"
  by (induction sep xs rule: join_with.induct) auto

lemma neutral_bold [intro]: "neutral s \<Longrightarrow> neutral (bold s)"
  using neutral_tag [of s "''b''"] by (simp add: bold_def)

lemma neutral_underlined: "neutral s \<Longrightarrow> neutral (''<u>'' @ s @ ''</u>'')"
  using neutral_tag [of s "''u''"] by simp

lemma neutral_text: "list_all (\<lambda>c. c \<noteq> CHR ''<'' \<and> c \<noteq> CHR ''&'') s \<Longrightarrow> neutral s"
  by (intro neutral_plain) (auto simp: plain_def list_all_iff)

lemma neutral_digits [simp]: "neutral (dec_digits n)"
  by (rule neutral_text, rule list.pred_mono_strong [OF dec_digits_digit(1)]) (auto simp: is_digit_def)

text \<open>What the names and addresses of a node have to be.\<close>

definition plain_device :: "device_info \<Rightarrow> bool" where
  "plain_device d \<longleftrightarrow> plain (di_name d) \<and> plain (di_type d) \<and> plain (di_mac d) \<and>
     (\<forall>as\<in>set_option (di_ipv4 d) \<union> set_option (di_ipv6 d). \<forall>(a, m)\<in>set as. plain a \<and> plain m)"

definition plain_node :: "node_info \<Rightarrow> bool" where
  "plain_node n \<longleftrightarrow> plain (ni_name n) \<and> (\<forall>m\<in>set_option (ni_mobility n). plain m) \<and> (\<forall>d\<in>set (ni_devices n). plain_device d)"

lemma address_line_neutral:
  assumes "\<forall>as\<in>set_option addresses. \<forall>(a, m)\<in>set as. plain a \<and> plain m" "protocol \<in> {''IPv4'', ''IPv6''}"
  shows "\<forall>l\<in>set (address_line protocol addresses). neutral l"
proof (cases addresses)
  case (Some as)
  have "neutral (join_with ''; '' (map (\<lambda>(a, m). a @ ''/'' @ m) as))"
  proof (intro neutral_join ballI)
    fix x assume "x \<in> set (map (\<lambda>(a, m). a @ ''/'' @ m) as)"
    then obtain a m where "(a, m) \<in> set as" "x = a @ ''/'' @ m" by auto
    then have "plain a" "plain m" and x: "x = a @ ''/'' @ m" using assms(1) Some by auto
    then have "neutral a" "neutral m" by (blast intro: neutral_plain)+
    then show "neutral x" unfolding x by (intro neutral_append) (simp_all add: neutral_text)
  qed (simp add: neutral_text)
  moreover have "neutral protocol" "neutral '' Addresses:''" "neutral ''    ''" "neutral '' ''" using assms(2) by (auto intro!: neutral_text)
  ultimately have "neutral (''    '' @ bold (protocol @ '' Addresses:'') @ '' '' @ join_with ''; '' (map (\<lambda>(a, m). a @ ''/'' @ m) as))"
    by (intro neutral_append neutral_bold)
  then show ?thesis unfolding address_line_def Some option.case by (simp only: set_simps ball_simps simp_thms)
qed (simp add: address_line_def)

lemma device_lines_neutral:
  assumes "plain_device d"
  shows "\<forall>l\<in>set (device_lines i d). neutral l"
proof -
  have p: "neutral (di_name d)" "neutral (di_type d)" "neutral (di_mac d)" using assms by (auto simp: plain_device_def intro: neutral_plain)
  have s: "neutral '' ''" "neutral ''    ''" "neutral ''  ''" "neutral '':''" "neutral ''NetDevice ''" "neutral ''Name:''" "neutral ''Type:''" "neutral ''MAC Address:''"
    by (simp_all add: neutral_text)
  have "neutral (''  '' @ ''<u>'' @ (''NetDevice '' @ dec_digits i @ '':'') @ ''</u>'')"
    by (intro neutral_append neutral_underlined s neutral_digits)
  moreover have "neutral (''    '' @ bold ''Name:'' @ '' '' @ di_name d)" "neutral (''    '' @ bold ''Type:'' @ '' '' @ di_type d)"
    "neutral (''    '' @ bold ''MAC Address:'' @ '' '' @ di_mac d)" by (intro neutral_append neutral_bold s p)+
  moreover have "\<forall>l\<in>set (address_line ''IPv4'' (di_ipv4 d)). neutral l" "\<forall>l\<in>set (address_line ''IPv6'' (di_ipv6 d)). neutral l"
    using assms by (intro address_line_neutral; simp add: plain_device_def ball_Un)+
  ultimately show ?thesis by (cases "di_name d = []") (simp_all add: device_lines_def ball_Un)
qed

text \<open>The tooltip of a node whose names hold no character of the markup is markup, whatever its devices; with a name
  that holds one it is not, and the toolkit shows nothing.\<close>

theorem tooltip_is_markup:
  "plain_node node \<Longrightarrow> \<forall>l\<in>set extra. neutral l \<Longrightarrow> markup [] (tooltip_query i extra node)"
  "ni_name node = ''R&D'' \<Longrightarrow> \<not> markup [] (tooltip_query i extra node)"
proof -
  assume n: "plain_node node" "\<forall>l\<in>set extra. neutral l"
  have s: "neutral '' ''" "neutral ''  ''" "neutral ''(''" "neutral '')''" "neutral ''Node ''" "neutral '': ''" "neutral ''Mobility Model''" "neutral newline"
    by (simp_all add: neutral_text newline_def)
  have "neutral (bold (''<u>'' @ (''Node '' @ dec_digits i) @ ''</u>''))" by (intro neutral_bold neutral_underlined neutral_append s neutral_digits)
  then have head: "neutral (''<b><u>Node '' @ dec_digits i @ ''</u></b>'')" by (simp add: bold_def)
  have name: "neutral ('' '' @ bold (''('' @ ni_name node @ '')''))"
  proof -
    have "neutral (ni_name node)" using n(1) by (intro neutral_plain) (simp add: plain_node_def)
    then show ?thesis by (intro neutral_append neutral_bold s)
  qed
  have mob: "neutral (''  '' @ bold ''Mobility Model'' @ '': '' @ m)" if "ni_mobility node = Some m" for m
  proof -
    have "neutral m" using n(1) that by (intro neutral_plain) (simp add: plain_node_def)
    then show ?thesis by (intro neutral_append neutral_bold s)
  qed
  have dev: "neutral l" if "(j, d) \<in> set (List.enumerate 0 (ni_devices node))" "l \<in> set (device_lines j d)" for j d l
  proof -
    have "d \<in> set (ni_devices node)" using that(1) by (simp add: in_set_enumerate_eq) (metis nth_mem)
    then show ?thesis using n(1) device_lines_neutral [of d j] that(2) by (simp add: plain_node_def)
  qed
  have "neutral (tooltip_query i extra node)"
    unfolding tooltip_query_def
  proof (rule neutral_join [OF s(8)])
    have first: "neutral (''<b><u>Node '' @ dec_digits i @ ''</u></b>'' @ (if ni_name node \<noteq> [] then '' '' @ bold (''('' @ ni_name node @ '')'') else []))"
      using neutral_append [OF head name] head by (cases "ni_name node = []") simp_all
    have mobs: "\<forall>l\<in>set (case ni_mobility node of None \<Rightarrow> [] | Some m \<Rightarrow> [''  '' @ bold ''Mobility Model'' @ '': '' @ m]). neutral l"
      using mob by (cases "ni_mobility node") simp_all
    have devs: "\<forall>l\<in>set (concat (map (\<lambda>(j, dev). device_lines j dev) (List.enumerate 0 (ni_devices node)))). neutral l"
    proof
      fix l assume "l \<in> set (concat (map (\<lambda>(j, dev). device_lines j dev) (List.enumerate 0 (ni_devices node))))"
      then obtain j d where "(j, d) \<in> set (List.enumerate 0 (ni_devices node))" "l \<in> set (device_lines j d)" by auto
      then show "neutral l" by (rule dev)
    qed
    show "\<forall>l\<in>set (tooltip_lines i extra node). neutral l"
      unfolding tooltip_lines_def set_append ball_Un using first mobs devs n(2) by (simp only: set_simps ball_simps neutral_Nil simp_thms)
  qed
  then show "markup [] (tooltip_query i extra node)" by (metis append_Nil2 markup.simps(1) neutral_def)
next
  assume name: "ni_name node = ''R&D''"
  define rest where "rest = newline @ join_with newline ([] # extra @ (case ni_mobility node of None \<Rightarrow> [] | Some m \<Rightarrow> [''  '' @ bold ''Mobility Model'' @ '': '' @ m]) @
     concat (map (\<lambda>(j, dev). device_lines j dev) (List.enumerate 0 (ni_devices node))))"
  have u: "neutral (''<u>'' @ (''Node '' @ dec_digits i) @ ''</u>'')" by (intro neutral_underlined neutral_append neutral_digits) (simp add: neutral_text)
  have "neutral (bold (''<u>'' @ (''Node '' @ dec_digits i) @ ''</u>''))" by (rule neutral_bold [OF u])
  moreover have "tooltip_query i extra node = bold (''<u>'' @ (''Node '' @ dec_digits i) @ ''</u>'') @ '' <b>(R&D)</b>'' @ rest"
    using name by (simp add: tooltip_query_def tooltip_lines_def rest_def bold_def)
  ultimately have "markup [] (tooltip_query i extra node) = markup [] ('' <b>(R&D)</b>'' @ rest)" by (simp only: neutral_def)
  then show "\<not> markup [] (tooltip_query i extra node)" by (simp add: starts_with_def)
qed

theorem tooltip_is_markup_witness:
  "markup [] (tooltip_query 3 [] \<lparr>ni_name = ''host'', ni_mobility = None, ni_devices =
     [\<lparr>di_name = [], di_type = ''ns3::CsmaNetDevice'', di_ipv4 = Some [(''10.1.1.1'', ''255.255.255.0'')], di_ipv6 = None, di_mac = ''02-06-00:00:00:00:00:01''\<rparr>]\<rparr>)"
  by (rule tooltip_is_markup(1)) (simp_all add: plain_node_def plain_device_def plain_def)

end
