(* ===== verification/Viz_Console.thy ===== *)
theory Viz_Console
  imports Py_Base "HOL-Library.Sublist"
begin

text \<open>
  \<open>src/src/visualizer/visualizer/ipython_view.py\<close>: the terminal of the visualizer. The text of the widget is a list of
  cells, a character with its colour and whether it may not be edited; the mark at the start of the line the user
  writes divides it in two. The interpreter behind it is a record of functions on its own state: what it does with a
  line, with an interrupt, its prompts, completions and past inputs.
\<close>

section \<open>Colours\<close>

type_synonym text_cell = "char \<times> string option \<times> bool"

record console =
  cv_before :: "text_cell list"
  cv_line :: "text_cell list"

text \<open>The escape sequence at the start of a text: the code in it and what follows.\<close>

definition opt_char :: "char \<Rightarrow> string \<Rightarrow> string" where
  "opt_char c s = (case s of [] \<Rightarrow> [] | d # r \<Rightarrow> if d = c then r else s)"

definition color_code :: "string \<Rightarrow> (string \<times> string) option" where
  "color_code s =
     (let r = opt_char (CHR 0x01) s;
          code = takeWhile (\<lambda>c. c \<noteq> CHR ''m'') (drop 2 r);
          after = dropWhile (\<lambda>c. c \<noteq> CHR ''m'') (drop 2 r)
      in if starts_with r [CHR 0x1B, CHR ''[''] \<and> after \<noteq> [] \<and> CHR 0x0A \<notin> set code then Some (code, opt_char (CHR 0x02) (tl after)) else None)"

lemma length_opt_char: "length (opt_char c s) \<le> length s"
  by (simp add: opt_char_def split: list.splits)

lemma color_code_shorter: "color_code s = Some (code, rest) \<Longrightarrow> length rest < length s"
proof -
  define d where "d = dropWhile (\<lambda>c. c \<noteq> CHR ''m'') (drop 2 (opt_char (CHR 0x01) s))"
  assume "color_code s = Some (code, rest)"
  then have rest: "rest = opt_char (CHR 0x02) (tl d)" "d \<noteq> []"
    unfolding color_code_def Let_def d_def [symmetric] by (simp_all split: if_splits)
  then have "length rest < length d" using length_opt_char [of "CHR 0x02" "tl d"] by (cases d) simp_all
  also have "length d \<le> length (drop 2 (opt_char (CHR 0x01) s))" unfolding d_def by (rule length_dropWhile_le)
  also have "\<dots> \<le> length s" using length_opt_char [of "CHR 0x01" s] by simp
  finally show ?thesis .
qed

text \<open>The text before the first sequence, and each code with the text after it.\<close>

function color_pieces :: "string \<Rightarrow> string \<times> (string \<times> string) list" where
  "color_pieces [] = ([], [])"
| "color_pieces (c # s) =
     (case color_code (c # s) of
        Some (code, rest) \<Rightarrow> (let (seg, l) = color_pieces rest in ([], (code, seg) # l))
      | None \<Rightarrow> (let (seg, l) = color_pieces s in (c # seg, l)))"
  by pat_completeness auto
termination
  by (relation "measure length") (auto dest: color_code_shorter)

definition cells :: "string option \<Rightarrow> string \<Rightarrow> text_cell list" where
  "cells code s = map (\<lambda>c. (c, code, False)) s"

text \<open>The loop over the codes: each is looked up in the list of segments, and taken out of it.\<close>

fun py_find :: "'a \<Rightarrow> 'a list \<Rightarrow> nat option" where
  "py_find x [] = None"
| "py_find x (y # ys) = (if y = x then Some 0 else map_option Suc (py_find x ys))"

fun write_loop :: "string list \<Rightarrow> string list \<Rightarrow> text_cell list \<Rightarrow> py_exn + text_cell list" where
  "write_loop segments [] out = Inr out"
| "write_loop segments (code # codes) out =
     (case py_find code segments of
        None \<Rightarrow> Inl ValueError
      | Some i \<Rightarrow> if i + 1 < length segments
          then write_loop (take i segments @ drop (i + 1) segments) codes (out @ cells (Some code) (segments ! (i + 1)))
          else Inl IndexError)"

definition written :: "string \<Rightarrow> py_exn + text_cell list" where
  "written s =
     (let (segment, l) = color_pieces s
      in write_loop (concat (map (\<lambda>(code, seg). [code, seg]) l)) (map fst l) (cells None segment))"

definition notouch :: "text_cell list \<Rightarrow> text_cell list" where
  "notouch = map (\<lambda>(c, code, _). (c, code, True))"

definition console_write :: "string \<Rightarrow> bool \<Rightarrow> console \<Rightarrow> py_exn + console" where
  "console_write s editable v = py_bind (written s) (\<lambda>cs. Inr (v\<lparr>cv_line := cv_line v @ (if editable then cs else notouch cs)\<rparr>))"

section \<open>The line\<close>

definition show_prompt :: "string \<Rightarrow> console \<Rightarrow> py_exn + console" where
  "show_prompt prompt v = py_bind (console_write prompt False v) (\<lambda>v. Inr \<lparr>cv_before = cv_before v @ cv_line v, cv_line = []\<rparr>)"

text \<open>From the mark to the end of its line; from the end of a line, to that of the next.\<close>

definition at_line_end :: "text_cell list \<Rightarrow> text_cell list \<times> text_cell list" where
  "at_line_end l =
     (let inner = (\<lambda>c :: text_cell. fst c \<noteq> CHR 0x0A) in
      case l of [] \<Rightarrow> ([], []) | c # r \<Rightarrow> if inner c then (takeWhile inner l, dropWhile inner l) else (c # takeWhile inner r, dropWhile inner r))"

definition change_line :: "string \<Rightarrow> console \<Rightarrow> py_exn + console" where
  "change_line s v = console_write s True (v\<lparr>cv_line := snd (at_line_end (cv_line v))\<rparr>)"

definition current_line :: "console \<Rightarrow> string" where
  "current_line v = map fst (cv_line v)"

definition show_returned :: "string \<Rightarrow> string \<Rightarrow> console \<Rightarrow> py_exn + console" where
  "show_returned prompt s v =
     (let (a, b) = at_line_end (cv_line v);
          v = v\<lparr>cv_line := notouch a @ b\<rparr>
      in py_bind (console_write (newline @ s) False v) (\<lambda>v.
         py_bind (if s \<noteq> [] then console_write newline False v else Inr v) (show_prompt prompt)))"

text \<open>Before a character is put in: cursor and the other end of the selection, as places in the text.\<close>

definition on_keypress :: "nat \<Rightarrow> nat \<times> nat \<Rightarrow> nat \<times> nat" where
  "on_keypress start = (\<lambda>(insert, selection).
     if start \<le> insert \<and> start \<le> selection then (insert, selection)
     else if start > insert \<and> start > selection then (start, start)
     else if insert < selection then (start, selection)
     else if insert > selection then (insert, start)
     else (insert, selection))"

section \<open>The interpreter\<close>

record 'i interpreter =
  push :: "string \<Rightarrow> 'i \<Rightarrow> bool \<times> string \<times> 'i"
  on_interrupt :: "'i \<Rightarrow> string \<times> 'i"
  prompt1 :: "'i \<Rightarrow> string"
  prompt2 :: "'i \<Rightarrow> string"
  completions :: "'i \<Rightarrow> string \<Rightarrow> string list"
  inputs :: "'i \<Rightarrow> string list"

record 'i shell_view =
  sv_console :: console
  sv_interp :: 'i
  iter_more :: bool
  history_level :: int
  interrupt :: bool
  sv_prompt :: string

text \<open>Blanks around a prompt and line ends around a text are stripped.\<close>

definition strip_newlines :: "string \<Rightarrow> string" where
  "strip_newlines s = rev (dropWhile (\<lambda>c. c = CHR 0x0A) (rev (dropWhile (\<lambda>c. c = CHR 0x0A) s)))"

definition execute :: "'i interpreter \<Rightarrow> 'i shell_view \<Rightarrow> string \<times> 'i shell_view" where
  "execute ip v =
     (let (more, out, i) =
            (if interrupt v then (case on_interrupt ip (sv_interp v) of (out, i) \<Rightarrow> (False, out, i))
             else push ip (current_line (sv_console v)) (sv_interp v))
      in (out, v\<lparr>sv_interp := i, iter_more := more, history_level := 0, interrupt := False,
                 sv_prompt := py_strip (if more then prompt2 ip i else prompt1 ip i)\<rparr>))"

definition process_line :: "'i interpreter \<Rightarrow> 'i shell_view \<Rightarrow> py_exn + 'i shell_view" where
  "process_line ip v =
     (let (out, v) = execute ip v
      in py_bind (show_returned (sv_prompt v) (strip_newlines out) (sv_console v)) (\<lambda>c. Inr (v\<lparr>sv_console := c\<rparr>)))"

definition get_history :: "'i interpreter \<Rightarrow> 'i shell_view \<Rightarrow> string \<times> 'i shell_view" where
  "get_history ip v =
     (case py_index (inputs ip (sv_interp v)) (history_level v) of
        Inl _ \<Rightarrow> ([], v\<lparr>history_level := 0\<rparr>)
      | Inr s \<Rightarrow> (strip_newlines s, v))"

definition history_back :: "'i interpreter \<Rightarrow> 'i shell_view \<Rightarrow> string \<times> 'i shell_view" where
  "history_back ip v = get_history ip (v\<lparr>history_level := history_level v - 1\<rparr>)"

definition history_forward :: "'i interpreter \<Rightarrow> 'i shell_view \<Rightarrow> string \<times> 'i shell_view" where
  "history_forward ip v = get_history ip (v\<lparr>history_level := history_level v + 1\<rparr>)"

definition completes_at :: "char \<Rightarrow> bool" where
  "completes_at c = (is_space c \<or> c \<in> set ''{}[]()'')"

text \<open>The last piece of the line between the separators.\<close>

definition last_word :: "string \<Rightarrow> string" where
  "last_word line = rev (takeWhile (\<lambda>c. \<not> completes_at c) (rev line))"

fun first_mismatch :: "string \<Rightarrow> string \<Rightarrow> nat list \<Rightarrow> string" where
  "first_mismatch str1 str2 [] = str1"
| "first_mismatch str1 str2 (i # is) = (if \<not> starts_with str2 (take (i + 1) str1) then take i str1 else first_mismatch str1 str2 is)"

definition shared_prefix :: "string \<Rightarrow> string \<Rightarrow> string" where
  "shared_prefix str1 str2 = first_mismatch str1 str2 [0..<length str1]"

definition complete_line :: "'i interpreter \<Rightarrow> 'i \<Rightarrow> string \<Rightarrow> string \<times> string list" where
  "complete_line ip i line =
     (case completions ip i (last_word line) of
        [] \<Rightarrow> (line, [])
      | p # ps \<Rightarrow> (slice_upto line (- int (length (last_word line))) @ foldl shared_prefix p ps, p # ps))"

datatype key = Ctrl_C | Return | Up | Down | Tab | Other_Key

text \<open>What a key does; the boolean is whether the key was used up.\<close>

definition write_all :: "string list \<Rightarrow> console \<Rightarrow> py_exn + console" where
  "write_all = py_fold (\<lambda>symbol. console_write (symbol @ newline) False)"

definition key_press :: "'i interpreter \<Rightarrow> key \<Rightarrow> 'i shell_view \<Rightarrow> py_exn + bool \<times> 'i shell_view" where
  "key_press ip k v =
     (let line = current_line (sv_console v);
          used = (\<lambda>v c. Inr (True, v\<lparr>sv_console := c\<rparr>)) in
      case k of
        Ctrl_C \<Rightarrow> py_bind (process_line ip (v\<lparr>interrupt := True\<rparr>)) (\<lambda>v. Inr (True, v))
      | Return \<Rightarrow> py_bind (process_line ip v) (\<lambda>v. Inr (True, v))
      | Up \<Rightarrow> (let (s, v) = history_back ip v in py_bind (change_line s (sv_console v)) (used v))
      | Down \<Rightarrow> (let (s, v) = history_forward ip v in py_bind (change_line s (sv_console v)) (used v))
      | Tab \<Rightarrow>
          if py_strip line = [] then Inr (False, v)
          else (let (completed, possibilities) = complete_line ip (sv_interp v) line in
            py_bind
              (if length possibilities > 1
               then py_bind (console_write newline False (sv_console v)) (\<lambda>c. py_bind (write_all possibilities c) (show_prompt (sv_prompt v)))
               else Inr (sv_console v))
              (\<lambda>c. if completed = [] \<and> length possibilities \<le> 1 then Inl NameError
                   else py_bind (change_line (if completed = [] then line else completed) c) (used v)))
      | Other_Key \<Rightarrow> Inr (False, v))"

section \<open>What it shows\<close>

text \<open>The cursor never stands before the mark when a character is put in, and the selection never reaches over it.\<close>

theorem typing_after_mark: "start \<le> fst (on_keypress start p) \<and> start \<le> snd (on_keypress start p) \<and>
    (start \<le> fst p \<and> start \<le> snd p \<longrightarrow> on_keypress start p = p)"
  by (cases p) (auto simp: on_keypress_def)

theorem typing_after_mark_witness: "on_keypress 10 (3, 12) = (10, 12) \<and> 10 \<le> fst (on_keypress 10 (3, 12))"
  using typing_after_mark [of 10 "(3, 12)"] by (simp add: on_keypress_def)

text \<open>A text is written with its colours if no segment of it is one of the codes that follow.\<close>

definition well_coloured :: "(string \<times> string) list \<Rightarrow> bool" where
  "well_coloured l \<longleftrightarrow> (\<forall>i j. i < j \<and> j < length l \<longrightarrow> snd (l ! i) \<noteq> fst (l ! j))"

lemma well_coloured_Cons: "well_coloured ((code, seg) # l) \<longleftrightarrow> seg \<notin> fst ` set l \<and> well_coloured l"
proof
  assume w: "well_coloured ((code, seg) # l)"
  have "seg \<noteq> fst (l ! j)" if "j < length l" for j using w [unfolded well_coloured_def, rule_format, of 0 "Suc j"] that by simp
  moreover have "well_coloured l" using w unfolding well_coloured_def by (metis Suc_less_eq length_Cons nth_Cons_Suc)
  ultimately show "seg \<notin> fst ` set l \<and> well_coloured l" by (auto simp: in_set_conv_nth) (metis fst_conv)
next
  assume "seg \<notin> fst ` set l \<and> well_coloured l"
  then show "well_coloured ((code, seg) # l)" unfolding well_coloured_def
    by (auto simp: nth_Cons less_Suc_eq_0_disj split: nat.splits)
qed

lemma py_find_after: "x \<notin> set dead \<Longrightarrow> py_find x (dead @ x # r) = Some (length dead)"
  by (induction dead) auto

lemma write_loop_pieces:
  assumes "well_coloured l" "set dead \<inter> fst ` set l = {}"
  shows "write_loop (dead @ concat (map (\<lambda>(code, seg). [code, seg]) l)) (map fst l) out = Inr (out @ concat (map (\<lambda>(code, seg). cells (Some code) seg) l))"
  using assms
proof (induction l arbitrary: dead out)
  case (Cons p l)
  obtain code seg where p: "p = (code, seg)" by (cases p)
  let ?r = "concat (map (\<lambda>(code, seg). [code, seg]) l)"
  have w: "well_coloured l" "set (dead @ [seg]) \<inter> fst ` set l = {}" using Cons.prems by (auto simp: p well_coloured_Cons)
  have "py_find code (dead @ code # seg # ?r) = Some (length dead)" using Cons.prems(2) by (intro py_find_after) (auto simp: p)
  then show ?case using Cons.IH [OF w, of "out @ cells (Some code) seg"] by (simp add: p nth_append)
qed simp

theorem written_pieces:
  assumes "color_pieces s = (segment, l)" "well_coloured l"
  shows "written s = Inr (cells None segment @ concat (map (\<lambda>(code, seg). cells (Some code) seg) l))"
  using write_loop_pieces [OF assms(2), of "[]" "cells None segment"] assms(1) by (simp add: written_def)

theorem written_pieces_witness:
  "written (CHR 0x1B # ''[0;32mIn'' @ CHR 0x1B # ''[0m: '') = Inr (cells (Some ''0;32'') ''In'' @ cells (Some ''0'') '': '')"
proof -
  have "color_pieces (CHR 0x1B # ''[0;32mIn'' @ CHR 0x1B # ''[0m: '') = ([], [(''0;32'', ''In''), (''0'', '': '')])" by code_simp
  moreover have "well_coloured [(''0;32'', ''In''), (''0'', '': '')]" by (simp add: well_coloured_Cons) (simp add: well_coloured_def)
  ultimately show ?thesis using written_pieces by (simp add: cells_def)
qed

text \<open>A segment that is the next code is taken for it: the code is written and its segment is lost.\<close>

lemma code_written_as_text:
  "written (CHR 0x1B # ''[0;31m0'' @ CHR 0x1B # ''[0mrest'') = Inr [(CHR ''0'', Some ''0;31'', False), (CHR ''0'', Some ''0'', False)]"
  by code_simp

section \<open>History and completion\<close>

text \<open>From the line being written, \<open>n\<close> times back shows the \<open>n\<close>-th input from the end; going back once more, past the
  first one, starts anew with an empty line.\<close>

fun go_back :: "'i interpreter \<Rightarrow> nat \<Rightarrow> 'i shell_view \<Rightarrow> 'i shell_view" where
  "go_back ip 0 v = v"
| "go_back ip (Suc n) v = snd (history_back ip (go_back ip n v))"

lemma go_back_level:
  assumes "history_level v = 0" "n \<le> length (inputs ip (sv_interp v))"
  shows "go_back ip n v = v\<lparr>history_level := - int n\<rparr>"
  using assms(2)
proof (induction n)
  case 0
  then show ?case using assms(1) by simp
next
  case (Suc n)
  have "\<exists>s. py_index (inputs ip (sv_interp v)) (- int n - 1) = Inr s" using Suc.prems by (simp add: py_index_def)
  then show ?case using Suc by (auto simp: history_back_def get_history_def algebra_simps)
qed

theorem history_spec:
  assumes "history_level v = 0" "inputs ip (sv_interp v) = ins"
  shows "n < length ins \<Longrightarrow> fst (history_back ip (go_back ip n v)) = strip_newlines (ins ! (length ins - Suc n))"
    "history_back ip (go_back ip (length ins) v) = ([], v)"
    "0 < n \<Longrightarrow> n < length ins \<Longrightarrow> snd (history_forward ip (go_back ip (Suc n) v)) = go_back ip n v"
proof -
  have lev: "k \<le> length ins \<Longrightarrow> go_back ip k v = v\<lparr>history_level := - int k\<rparr>" for k using go_back_level [OF assms(1)] assms(2) by simp
  show "fst (history_back ip (go_back ip n v)) = strip_newlines (ins ! (length ins - Suc n))" if "n < length ins"
  proof -
    have "nat (int (length ins) + (- int n - 1)) = length ins - Suc n" using that by simp
    then show ?thesis using that lev [of n] assms(2) by (auto simp: history_back_def get_history_def py_index_def)
  qed
  show "history_back ip (go_back ip (length ins) v) = ([], v)"
    using lev [of "length ins"] assms by (auto simp: history_back_def get_history_def py_index_def)
  show "snd (history_forward ip (go_back ip (Suc n) v)) = go_back ip n v" if "0 < n" "n < length ins"
    using that lev [of n] lev [of "Suc n"] assms by (auto simp: history_forward_def get_history_def py_index_def)
qed

theorem history_spec_witness:
  "fst (history_back \<lparr>push = \<lambda>_ i. (False, [], i), on_interrupt = \<lambda>i. ([], i), prompt1 = \<lambda>_. [], prompt2 = \<lambda>_. [], completions = \<lambda>_ _. [], inputs = \<lambda>i :: string list. i\<rparr>
     (go_back \<lparr>push = \<lambda>_ i. (False, [], i), on_interrupt = \<lambda>i. ([], i), prompt1 = \<lambda>_. [], prompt2 = \<lambda>_. [], completions = \<lambda>_ _. [], inputs = \<lambda>i. i\<rparr> 1
       \<lparr>sv_console = \<lparr>cv_before = [], cv_line = []\<rparr>, sv_interp = [newline, ''a'' @ newline, ''b''], iter_more = False, history_level = 0, interrupt = False, sv_prompt = []\<rparr>)) = ''a''"
proof -
  define ip where "ip = \<lparr>push = \<lambda>_ i. (False, [], i), on_interrupt = \<lambda>i. ([], i), prompt1 = \<lambda>_. [], prompt2 = \<lambda>_. [], completions = \<lambda>_ _. [], inputs = \<lambda>i :: string list. i\<rparr>"
  define v where "v = \<lparr>sv_console = \<lparr>cv_before = [], cv_line = []\<rparr>, sv_interp = [newline, ''a'' @ newline, ''b''], iter_more = False, history_level = 0, interrupt = False, sv_prompt = []\<rparr>"
  have "fst (history_back ip (go_back ip 1 v)) = strip_newlines ([newline, ''a'' @ newline, ''b''] ! (length [newline, ''a'' @ newline, ''b''] - Suc 1))"
    by (rule history_spec(1)) (simp_all add: ip_def v_def)
  then show ?thesis unfolding ip_def v_def by (simp add: strip_newlines_def newline_def)
qed

lemma starts_with_prefix: "starts_with s t \<longleftrightarrow> prefix t s"
  unfolding starts_with_def prefix_def by (metis append_take_drop_id append_eq_conv_conj)

lemma first_mismatch_longest:
  assumes "k \<le> length a" "prefix (take k a) b"
  shows "prefix (first_mismatch a b [k..<length a]) a \<and> prefix (first_mismatch a b [k..<length a]) b \<and>
    (\<forall>c. prefix c a \<and> prefix c b \<longrightarrow> prefix c (first_mismatch a b [k..<length a]))"
  using assms
proof (induction "length a - k" arbitrary: k)
  case 0
  then show ?case by simp
next
  case (Suc n)
  then have k: "k < length a" and cons: "[k..<length a] = k # [Suc k..<length a]" by (simp_all add: upt_conv_Cons)
  show ?case
  proof (cases "prefix (take (Suc k) a) b")
    case True
    then show ?thesis using Suc.hyps(1) [of "Suc k"] Suc.hyps(2) k by (simp add: cons starts_with_prefix)
  next
    case False
    have "prefix c (take k a)" if c: "prefix c a" "prefix c b" for c
    proof (cases "length c \<le> k")
      case True
      then show ?thesis using c(1) by (metis append_eq_conv_conj prefix_def prefix_order.order_refl take_is_prefix prefix_length_prefix length_take min.absorb2 k less_imp_le)
    next
      case longer: False
      then have "take (Suc k) a = take (Suc k) c" using c(1) by (auto simp: prefix_def)
      then show ?thesis using False c(2) take_is_prefix [of "Suc k" c] by (metis prefix_order.trans)
    qed
    then show ?thesis using False Suc.prems(2) by (simp add: cons starts_with_prefix take_is_prefix)
  qed
qed

lemma shared_prefix_longest:
  "prefix (shared_prefix a b) a \<and> prefix (shared_prefix a b) b \<and> (\<forall>c. prefix c a \<and> prefix c b \<longrightarrow> prefix c (shared_prefix a b))"
  unfolding shared_prefix_def by (rule first_mismatch_longest) simp_all

lemma shared_prefix_all:
  "prefix (foldl shared_prefix p ps) p \<and> (\<forall>q\<in>set ps. prefix (foldl shared_prefix p ps) q) \<and>
   (\<forall>c. prefix c p \<and> (\<forall>q\<in>set ps. prefix c q) \<longrightarrow> prefix c (foldl shared_prefix p ps))"
proof (induction ps arbitrary: p)
  case (Cons q ps)
  from Cons.IH [of "shared_prefix p q"] shared_prefix_longest [of p q] show ?case
    by (simp add: ball_simps) (meson prefix_order.trans)
qed simp

text \<open>A line is completed by the longest text all possibilities begin with, in the place of its last word; but when the
  line ends in a separator, so that there is no such word, that text takes the place of the whole line.\<close>

theorem complete_line_spec:
  assumes "completions ip i (last_word line) = p # ps"
  shows "\<exists>common. complete_line ip i line = ((if last_word line = [] then common else take (length line - length (last_word line)) line @ common), p # ps) \<and>
    (\<forall>c. prefix c common \<longleftrightarrow> (\<forall>q\<in>set (p # ps). prefix c q))"
proof -
  have "(if last_word line = [] then [] else take (length line - length (last_word line)) line) = slice_upto line (- int (length (last_word line)))"
    by (simp add: slice_upto_def slice_bound_def nat_minus_as_int)
  moreover have "prefix c (foldl shared_prefix p ps) \<longleftrightarrow> (\<forall>q\<in>set (p # ps). prefix c q)" for c
    using shared_prefix_all [of p ps] by (auto intro: prefix_order.trans)
  ultimately show ?thesis using assms by (intro exI [of _ "foldl shared_prefix p ps"]) (auto simp: complete_line_def split: if_splits)
qed

theorem complete_line_spec_witness:
  "\<exists>common. complete_line \<lparr>push = \<lambda>_ i. (False, [], i), on_interrupt = \<lambda>i. ([], i), prompt1 = \<lambda>_. [], prompt2 = \<lambda>_. [], completions = \<lambda>_ _. [''viz''], inputs = \<lambda>_. []\<rparr> () ''f('' =
     (common, [''viz'']) \<and> (\<forall>c. prefix c common \<longleftrightarrow> (\<forall>q\<in>set [''viz'']. prefix c q))"
  using complete_line_spec [of "\<lparr>push = \<lambda>_ i. (False, [], i), on_interrupt = \<lambda>i. ([], i), prompt1 = \<lambda>_. [], prompt2 = \<lambda>_. [], completions = \<lambda>_ _. [''viz''], inputs = \<lambda>_. []\<rparr>" "()" "''f(''" "''viz''" "[]"]
  by (simp add: last_word_def completes_at_def)

section \<open>What was shown stays\<close>

lemma console_write_before: "console_write s editable v = Inr v' \<Longrightarrow> cv_before v' = cv_before v"
  by (auto simp: console_write_def py_bind_def split: sum.splits)

lemma show_prompt_before: "show_prompt prompt v = Inr v' \<Longrightarrow> prefix (cv_before v) (cv_before v')"
  by (auto simp: show_prompt_def py_bind_def split: sum.splits dest: console_write_before)

lemma change_line_before: "change_line s v = Inr v' \<Longrightarrow> cv_before v' = cv_before v"
  by (auto simp: change_line_def dest!: console_write_before)

lemma write_all_before: "write_all ps v = Inr v' \<Longrightarrow> cv_before v' = cv_before v"
  unfolding write_all_def by (induction ps arbitrary: v) (auto simp: py_bind_def split: sum.splits dest!: console_write_before)

lemma show_returned_before: "show_returned prompt s v = Inr v' \<Longrightarrow> prefix (cv_before v) (cv_before v')"
  by (auto simp: show_returned_def py_bind_def split: sum.splits if_splits prod.splits dest!: console_write_before show_prompt_before)

lemma process_line_before: "process_line ip v = Inr v' \<Longrightarrow> prefix (cv_before (sv_console v)) (cv_before (sv_console v'))"
  by (auto simp: process_line_def execute_def py_bind_def Let_def split: sum.splits prod.splits dest!: show_returned_before)

text \<open>No key changes what stands before the line.\<close>

theorem shown_text_stays:
  "key_press ip k v = Inr (b, v') \<Longrightarrow> prefix (cv_before (sv_console v)) (cv_before (sv_console v'))"
proof -
  assume k: "key_press ip k v = Inr (b, v')"
  have h: "sv_console (snd (get_history ip w)) = sv_console w" for w by (auto simp: get_history_def split: sum.splits)
  show ?thesis
  proof (cases k)
    case Ctrl_C
    then show ?thesis using k process_line_before [of ip "v\<lparr>interrupt := True\<rparr>"] by (auto simp: key_press_def py_bind_def Let_def split: sum.splits)
  next
    case Return
    then show ?thesis using k process_line_before [of ip v] by (auto simp: key_press_def py_bind_def Let_def split: sum.splits)
  next
    case Up
    then show ?thesis using k h [of "v\<lparr>history_level := history_level v - 1\<rparr>"]
      by (auto simp: key_press_def history_back_def py_bind_def Let_def split: sum.splits prod.splits dest!: change_line_before)
  next
    case Down
    then show ?thesis using k h [of "v\<lparr>history_level := history_level v + 1\<rparr>"]
      by (auto simp: key_press_def history_forward_def py_bind_def Let_def split: sum.splits prod.splits dest!: change_line_before)
  next
    case Tab
    then show ?thesis using k
      by (auto simp: key_press_def py_bind_def Let_def split: sum.splits prod.splits if_splits
          dest!: change_line_before show_prompt_before write_all_before console_write_before)
  next
    case Other_Key
    then show ?thesis using k by (simp add: key_press_def Let_def)
  qed
qed

theorem shown_text_stays_witness:
  "\<exists>v'. key_press \<lparr>push = \<lambda>_ i. (False, ''hi'', i), on_interrupt = \<lambda>i. ([], i), prompt1 = \<lambda>_. ''>'', prompt2 = \<lambda>_. [], completions = \<lambda>_ _. [], inputs = \<lambda>_. []\<rparr> Return
     \<lparr>sv_console = \<lparr>cv_before = cells None ''>'', cv_line = cells None ''x''\<rparr>, sv_interp = (), iter_more = False, history_level = 0, interrupt = False, sv_prompt = ''>''\<rparr> = Inr (True, v') \<and>
     prefix (cells None ''>'') (cv_before (sv_console v'))"
proof -
  define ip where "ip = \<lparr>push = \<lambda>(_ :: string) (i :: unit). (False, ''hi'', i), on_interrupt = \<lambda>i. ([], i), prompt1 = \<lambda>_. ''>'', prompt2 = \<lambda>_. [], completions = \<lambda>_ _. [], inputs = \<lambda>_. []\<rparr>"
  define v where "v = \<lparr>sv_console = \<lparr>cv_before = cells None ''>'', cv_line = cells None ''x''\<rparr>, sv_interp = (), iter_more = False, history_level = 0, interrupt = False, sv_prompt = ''>''\<rparr>"
  have w: "\<not> (case written s of Inl _ \<Rightarrow> True | Inr _ \<Rightarrow> False)" if "s \<in> {newline @ ''hi'', newline, ''>''}" for s
    using that by (elim insertE emptyE) (simp_all only:, code_simp+)
  then obtain a b c where "written (newline @ ''hi'') = Inr a" "written newline = Inr b" "written ''>'' = Inr c"
    using w [of "newline @ ''hi''"] w [of newline] w [of "''>''"] by (fastforce split: sum.splits)
  moreover have "at_line_end (cells None ''x'') = (cells None ''x'', [])" by code_simp
  moreover have "strip_newlines ''hi'' = ''hi''" "py_strip ''>'' = ''>''" by code_simp+
  ultimately obtain v' where "key_press ip Return v = Inr (True, v')"
    by (auto simp: key_press_def process_line_def execute_def show_returned_def show_prompt_def console_write_def ip_def v_def Let_def py_bind_def split: prod.splits)
  then show ?thesis using shown_text_stays [of ip Return v True v'] unfolding ip_def v_def by auto
qed

end
