(* ===== verification/Viz_Wifi.thy ===== *)
theory Viz_Wifi
  imports Viz_Nodes "HOL-Library.Multiset"
begin

text \<open>
  The plug-in that shows the association of WiFi stations
  (\<open>src/src/visualizer/visualizer/plugins/wifi_intrastructure_link.py\<close>): \<open>WifiLink\<close>, a link that changes
  its access point, and \<open>WifiLinkMonitor\<close>. A link is known by its place in the list of the links made; of the
  links of a node only these are kept here, those of wires are in \<open>Viz_Nodes\<close>. A device is known by a number;
  whether it is up and the BSSID it is associated with come from the simulator with each update.
\<close>

section \<open>Links\<close>

record wifi_link =
  link_sta :: "nat option"
  link_ap :: "nat option"
  link_shown :: bool
  link_line :: "(point \<times> point) option"

datatype wifi_device = Sta_Device nat | Ap_Device string | Other_Device

record wifi_state =
  wifi_links :: "wifi_link list"
  ap_links :: "nat \<Rightarrow> nat list"
  node_pos :: "nat \<Rightarrow> point"
  access_points :: "(string, nat) dict"
  stations :: "(nat \<times> nat \<times> nat) list"

text \<open>The group of the canvas items of a new link is visible; \<open>set_ap(None)\<close> of the constructor returns at once.\<close>

definition new_wifi_link :: "nat \<Rightarrow> wifi_link" where
  "new_wifi_link n = \<lparr>link_sta = Some n, link_ap = None, link_shown = True, link_line = None\<rparr>"

definition wifi_points :: "nat \<Rightarrow> wifi_state \<Rightarrow> wifi_state" where
  "wifi_points k w =
     (let l = wifi_links w ! k in
      case (link_sta l, link_ap l) of
        (Some n, Some m) \<Rightarrow> w\<lparr>wifi_links := (wifi_links w)[k := l\<lparr>link_line := Some (node_pos w n, node_pos w m)\<rparr>]\<rparr>
      | _ \<Rightarrow> w)"

text \<open>\<open>Node.add_link\<close> and \<open>Node.remove_link\<close>; a list raises \<open>ValueError\<close> for an element it does not hold.\<close>

definition add_wifi_link :: "nat \<Rightarrow> nat \<Rightarrow> wifi_state \<Rightarrow> wifi_state" where
  "add_wifi_link m k w = w\<lparr>ap_links := (ap_links w)(m := ap_links w m @ [k])\<rparr>"

definition remove_wifi_link :: "nat \<Rightarrow> nat \<Rightarrow> wifi_state \<Rightarrow> py_exn + wifi_state" where
  "remove_wifi_link m k w =
     (if k \<in> set (ap_links w m) then Inr (w\<lparr>ap_links := (ap_links w)(m := remove1 k (ap_links w m))\<rparr>) else Inl ValueError)"

definition set_ap :: "nat \<Rightarrow> nat option \<Rightarrow> wifi_state \<Rightarrow> py_exn + wifi_state" where
  "set_ap k ap w =
     (if ap = link_ap (wifi_links w ! k) then Inr w
      else py_bind (case link_ap (wifi_links w ! k) of None \<Rightarrow> Inr w | Some m \<Rightarrow> remove_wifi_link m k w) (\<lambda>w.
        let w = w\<lparr>wifi_links := (wifi_links w)[k := (wifi_links w ! k)\<lparr>link_ap := ap, link_shown := ap \<noteq> None\<rparr>]\<rparr>;
            w = (case ap of None \<Rightarrow> w | Some m \<Rightarrow> add_wifi_link m k w)
        in Inr (wifi_points k w)))"

definition destroy_wifi_link :: "nat \<Rightarrow> wifi_state \<Rightarrow> wifi_state" where
  "destroy_wifi_link k w =
     w\<lparr>wifi_links := (wifi_links w)[k := (wifi_links w ! k)\<lparr>link_sta := None, link_ap := None, link_shown := False\<rparr>]\<rparr>"

section \<open>The monitor\<close>

definition scan_wifi_device :: "nat \<Rightarrow> wifi_device \<Rightarrow> wifi_state \<Rightarrow> wifi_state" where
  "scan_wifi_device n d w =
     (case d of
        Sta_Device s \<Rightarrow> w\<lparr>wifi_links := wifi_links w @ [new_wifi_link n], stations := stations w @ [(s, n, length (wifi_links w))]\<rparr>
      | Ap_Device bssid \<Rightarrow> w\<lparr>access_points := dict_set (access_points w) bssid n\<rparr>
      | Other_Device \<Rightarrow> w)"

definition scan_wifi_nodes :: "(nat \<times> wifi_device list) list \<Rightarrow> wifi_state \<Rightarrow> wifi_state" where
  "scan_wifi_nodes ns w =
     (let w = fold (\<lambda>(s, n, k). destroy_wifi_link k) (stations w) w;
          w = w\<lparr>access_points := [], stations := []\<rparr>
      in fold (\<lambda>(n, ds). fold (scan_wifi_device n) ds) ns w)"

definition no_bssid :: string where
  "no_bssid = ''00:00:00:00:00:00''"

text \<open>The access point a station has to be linked to; a BSSID that was not scanned is a \<open>KeyError\<close>.\<close>

definition wanted_ap :: "(nat \<Rightarrow> string option) \<Rightarrow> wifi_state \<Rightarrow> nat \<Rightarrow> py_exn + nat option" where
  "wanted_ap bssid w s =
     (case bssid s of
        None \<Rightarrow> Inr None
      | Some b \<Rightarrow> if b = no_bssid then Inr None else py_bind (dict_lookup (access_points w) b) (\<lambda>m. Inr (Some m)))"

text \<open>\<open>bssid s\<close> is \<open>None\<close> for a device whose link is down. An exception ends the update; what was done stays.\<close>

fun update_stations :: "(nat \<Rightarrow> string option) \<Rightarrow> (nat \<times> nat \<times> nat) list \<Rightarrow> wifi_state \<Rightarrow> wifi_state \<times> py_exn option" where
  "update_stations bssid [] w = (w, None)"
| "update_stations bssid ((s, n, k) # ss) w =
     (case py_bind (wanted_ap bssid w s) (\<lambda>ap. set_ap k ap w) of
        Inl e \<Rightarrow> (w, Some e)
      | Inr w' \<Rightarrow> update_stations bssid ss w')"

definition wifi_periodic_update :: "(nat \<Rightarrow> string option) \<Rightarrow> wifi_state \<Rightarrow> wifi_state \<times> py_exn option" where
  "wifi_periodic_update bssid w = update_stations bssid (stations w) w"

definition wifi_update_view :: "wifi_state \<Rightarrow> wifi_state" where
  "wifi_update_view w = fold (\<lambda>(s, n, k). wifi_points k) (stations w) w"

text \<open>What \<open>Node.set_position\<close> does with these links.\<close>

definition wifi_node_moved :: "nat \<Rightarrow> point \<Rightarrow> wifi_state \<Rightarrow> wifi_state" where
  "wifi_node_moved n p w = fold wifi_points (ap_links w n) (w\<lparr>node_pos := (node_pos w)(n := p)\<rparr>)"

datatype wifi_event = Wifi_Scanned "(nat \<times> wifi_device list) list" | Wifi_Updated "nat \<Rightarrow> string option" | Wifi_View | Wifi_Moved nat point

definition wifi_handle :: "wifi_event \<Rightarrow> wifi_state \<Rightarrow> wifi_state" where
  "wifi_handle ev w = (case ev of
     Wifi_Scanned ns \<Rightarrow> scan_wifi_nodes ns w
   | Wifi_Updated bssid \<Rightarrow> fst (wifi_periodic_update bssid w)
   | Wifi_View \<Rightarrow> wifi_update_view w
   | Wifi_Moved n p \<Rightarrow> wifi_node_moved n p w)"

definition wifi_start :: "(nat \<Rightarrow> point) \<Rightarrow> wifi_state" where
  "wifi_start pos = \<lparr>wifi_links = [], ap_links = (\<lambda>n. []), node_pos = pos, access_points = [], stations = []\<rparr>"

section \<open>The invariant\<close>

text \<open>A link is in the list of its access point, once, and in no other; it is seen exactly when it has one.\<close>

definition wifi_link_ok :: "wifi_state \<Rightarrow> nat \<Rightarrow> nat \<Rightarrow> bool" where
  "wifi_link_ok w n k \<longleftrightarrow> k < length (wifi_links w) \<and> link_sta (wifi_links w ! k) = Some n \<and>
     (\<forall>m. count (mset (ap_links w m)) k = (if link_ap (wifi_links w ! k) = Some m then 1 else 0)) \<and>
     (link_ap (wifi_links w ! k) = None \<longrightarrow> \<not> link_shown (wifi_links w ! k) \<or> link_line (wifi_links w ! k) = None) \<and>
     (\<forall>m. link_ap (wifi_links w ! k) = Some m \<longrightarrow> link_shown (wifi_links w ! k) \<and>
        (\<exists>p. link_line (wifi_links w ! k) = Some (p, node_pos w m)))"

definition wifi_ok :: "wifi_state \<Rightarrow> bool" where
  "wifi_ok w \<longleftrightarrow> distinct (map (\<lambda>(s, n, k). k) (stations w)) \<and> (\<forall>(s, n, k)\<in>set (stations w). wifi_link_ok w n k) \<and>
     (\<forall>m. \<forall>j\<in>set (ap_links w m). j < length (wifi_links w))"

lemma wifi_link_other:
  assumes "wifi_link_ok w n k" "length (wifi_links w') = length (wifi_links w)" "wifi_links w' ! k = wifi_links w ! k"
    "\<And>m. count (mset (ap_links w' m)) k = count (mset (ap_links w m)) k" "node_pos w' = node_pos w"
  shows "wifi_link_ok w' n k"
  using assms by (simp add: wifi_link_ok_def)

lemma wifi_points_frame [simp]:
  "ap_links (wifi_points k w) = ap_links w" "node_pos (wifi_points k w) = node_pos w" "stations (wifi_points k w) = stations w"
  "access_points (wifi_points k w) = access_points w" "length (wifi_links (wifi_points k w)) = length (wifi_links w)"
  "j \<noteq> k \<Longrightarrow> wifi_links (wifi_points k w) ! j = wifi_links w ! j"
  by (auto simp: wifi_points_def Let_def split: option.split)

definition repointed :: "wifi_state \<Rightarrow> nat \<Rightarrow> wifi_link" where
  "repointed w k =
     (let l = wifi_links w ! k in
      case (link_sta l, link_ap l) of (Some n, Some m) \<Rightarrow> l\<lparr>link_line := Some (node_pos w n, node_pos w m)\<rparr> | _ \<Rightarrow> l)"

lemma wifi_points_link: "k < length (wifi_links w) \<Longrightarrow> wifi_links (wifi_points k w) ! k = repointed w k"
  by (auto simp: wifi_points_def repointed_def Let_def split: option.split)

lemma repointed_simps [simp]:
  "link_sta (repointed w k) = link_sta (wifi_links w ! k)" "link_ap (repointed w k) = link_ap (wifi_links w ! k)"
  "link_shown (repointed w k) = link_shown (wifi_links w ! k)"
  by (auto simp: repointed_def Let_def split: option.split)

lemma repointed_again: "k < length (wifi_links w) \<Longrightarrow> repointed (wifi_points j w) k = repointed w k"
  by (cases "j = k") (auto simp: repointed_def wifi_points_def Let_def split: option.split)

lemma fold_wifi_points:
  "\<forall>k\<in>set ks. k < length (wifi_links w) \<Longrightarrow>
   ap_links (fold wifi_points ks w) = ap_links w \<and> node_pos (fold wifi_points ks w) = node_pos w \<and>
   stations (fold wifi_points ks w) = stations w \<and> length (wifi_links (fold wifi_points ks w)) = length (wifi_links w) \<and>
   (\<forall>j < length (wifi_links w). wifi_links (fold wifi_points ks w) ! j = (if j \<in> set ks then repointed w j else wifi_links w ! j))"
proof (induction ks arbitrary: w)
  case (Cons k ks)
  have "wifi_links (wifi_points k w) ! j = (if j = k then repointed w k else wifi_links w ! j)" if "j < length (wifi_links w)" for j
    using Cons.prems wifi_points_link [of k w] by simp
  then show ?case using Cons.IH [of "wifi_points k w"] Cons.prems by (simp add: repointed_again)
qed simp

lemma repointed_line:
  "link_sta (wifi_links w ! k) = Some n \<Longrightarrow> link_ap (wifi_links w ! k) = Some m \<Longrightarrow> link_line (repointed w k) = Some (node_pos w n, node_pos w m)"
  by (simp add: repointed_def Let_def)

lemma repointed_none: "link_ap (wifi_links w ! k) = None \<Longrightarrow> repointed w k = wifi_links w ! k"
  by (simp add: repointed_def Let_def split: option.split)

text \<open>Drawing links anew after the node \<open>n\<close> moved: the links at \<open>n\<close> have to be among those drawn.\<close>

lemma wifi_ok_moved:
  assumes ok: "wifi_ok w" and pos: "\<And>m. m \<noteq> n \<Longrightarrow> f m = node_pos w m" and drawn: "set (ap_links w n) \<subseteq> set ks \<or> f = node_pos w"
    and known: "\<forall>k\<in>set ks. k < length (wifi_links w)"
  shows "wifi_ok (fold wifi_points ks (w\<lparr>node_pos := f\<rparr>))"
proof -
  let ?w = "w\<lparr>node_pos := f\<rparr>" and ?v = "fold wifi_points ks (w\<lparr>node_pos := f\<rparr>)"
  have frame: "ap_links ?v = ap_links w" "node_pos ?v = f" "stations ?v = stations w" "length (wifi_links ?v) = length (wifi_links w)"
    and link: "\<And>j. j < length (wifi_links w) \<Longrightarrow> wifi_links ?v ! j = (if j \<in> set ks then repointed ?w j else wifi_links w ! j)"
    using fold_wifi_points [of ks ?w] known by auto
  have "wifi_link_ok ?v i k" if l: "wifi_link_ok w i k" for i k
  proof -
    have k: "k < length (wifi_links w)" "link_sta (wifi_links w ! k) = Some i"
      and count: "\<And>m. count (mset (ap_links w m)) k = (if link_ap (wifi_links w ! k) = Some m then 1 else 0)"
      using l by (auto simp: wifi_link_ok_def)
    have same: "link_sta (wifi_links ?v ! k) = Some i" "link_ap (wifi_links ?v ! k) = link_ap (wifi_links w ! k)"
      "link_shown (wifi_links ?v ! k) = link_shown (wifi_links w ! k)"
      using link [OF k(1)] k(2) by simp_all
    have line: "\<exists>p. link_line (wifi_links ?v ! k) = Some (p, f m)" if m: "link_ap (wifi_links w ! k) = Some m" for m
    proof (cases "k \<in> set ks")
      case True
      then show ?thesis using link [OF k(1)] repointed_line [of ?w k i m] k(2) m by simp
    next
      case False
      have "k \<in> set (ap_links w m)" using count [of m] m by (metis count_mset_0_iff zero_neq_one)
      with False drawn pos have "f m = node_pos w m" by (cases "m = n") auto
      then show ?thesis using l link [OF k(1)] m False by (simp add: wifi_link_ok_def)
    qed
    have none: "wifi_links ?v ! k = wifi_links w ! k" if "link_ap (wifi_links w ! k) = None"
      using link [OF k(1)] repointed_none [of ?w k] that by simp
    show ?thesis using l k same line none count by (simp add: wifi_link_ok_def frame)
  qed
  then show ?thesis using ok by (auto simp: wifi_ok_def frame)
qed

lemma wifi_ok_node_moved: "wifi_ok w \<Longrightarrow> wifi_ok (wifi_node_moved n p w)"
  unfolding wifi_node_moved_def by (rule wifi_ok_moved) (auto simp: wifi_ok_def)

lemma update_view_points: "wifi_update_view w = fold wifi_points (map (\<lambda>(s, n, k). k) (stations w)) w"
proof -
  have "fold (\<lambda>(s, n, k). wifi_points k) ss w = fold wifi_points (map (\<lambda>(s, n, k). k) ss) w" for ss
    by (induction ss arbitrary: w) auto
  then show ?thesis by (simp add: wifi_update_view_def)
qed

lemma wifi_ok_station: "wifi_ok w \<Longrightarrow> (s, n, k) \<in> set (stations w) \<Longrightarrow> wifi_link_ok w n k"
  by (auto simp: wifi_ok_def)

lemma wifi_ok_bound: "wifi_ok w \<Longrightarrow> \<forall>k\<in>set (map (\<lambda>(s, n, k). k) (stations w)). k < length (wifi_links w)"
  by (auto simp: wifi_link_ok_def dest: wifi_ok_station)

lemma wifi_ok_update_view: "wifi_ok w \<Longrightarrow> wifi_ok (wifi_update_view w)"
  using wifi_ok_moved [of w undefined "node_pos w", OF _ _ _ wifi_ok_bound] by (simp add: update_view_points)

subsection \<open>Changing the access point\<close>

text \<open>What \<open>set_ap\<close> leaves, when the link is in order.\<close>

definition relinked :: "nat \<Rightarrow> nat \<Rightarrow> nat option \<Rightarrow> wifi_state \<Rightarrow> wifi_state" where
  "relinked n k ap w =
     (let l = wifi_links w ! k in
      w\<lparr>ap_links := (\<lambda>m. (if link_ap l = Some m then remove1 k (ap_links w m) else ap_links w m) @ (if ap = Some m then [k] else [])),
        wifi_links := (wifi_links w)[k := l\<lparr>link_ap := ap, link_shown := ap \<noteq> None,
          link_line := (case ap of None \<Rightarrow> link_line l | Some m \<Rightarrow> Some (node_pos w n, node_pos w m))\<rparr>]\<rparr>)"

lemma set_ap_result:
  assumes ok: "wifi_link_ok w n k" and ap: "ap \<noteq> link_ap (wifi_links w ! k)"
  shows "set_ap k ap w = Inr (relinked n k ap w)"
proof -
  have k: "k < length (wifi_links w)" "link_sta (wifi_links w ! k) = Some n"
    and count: "\<And>m. count (mset (ap_links w m)) k = (if link_ap (wifi_links w ! k) = Some m then 1 else 0)"
    using ok by (auto simp: wifi_link_ok_def)
  have mem: "k \<in> set (ap_links w m)" if "link_ap (wifi_links w ! k) = Some m" for m
    using count [of m] that by (metis count_mset_0_iff zero_neq_one)
  show ?thesis
  proof (cases "link_ap (wifi_links w ! k)")
    case None
    then show ?thesis using ap k
      by (cases ap) (auto simp: set_ap_def relinked_def add_wifi_link_def wifi_points_def Let_def fun_eq_iff)
  next
    case (Some m)
    then show ?thesis using ap k mem [OF Some]
      by (cases ap) (auto simp: set_ap_def relinked_def remove_wifi_link_def add_wifi_link_def wifi_points_def Let_def fun_eq_iff)
  qed
qed

lemma relinked_simps [simp]:
  "stations (relinked n k ap w) = stations w" "access_points (relinked n k ap w) = access_points w"
  "node_pos (relinked n k ap w) = node_pos w" "length (wifi_links (relinked n k ap w)) = length (wifi_links w)"
  "j \<noteq> k \<Longrightarrow> wifi_links (relinked n k ap w) ! j = wifi_links w ! j"
  "k < length (wifi_links w) \<Longrightarrow> link_ap (wifi_links (relinked n k ap w) ! k) = ap"
  by (simp_all add: relinked_def Let_def)

lemma relinked_count: "j \<noteq> k \<Longrightarrow> count (mset (ap_links (relinked n k ap w) m)) j = count (mset (ap_links w m)) j"
  by (simp add: relinked_def Let_def)

lemma relinked_ok: "wifi_link_ok w n k \<Longrightarrow> wifi_link_ok (relinked n k ap w) n k"
  by (auto simp: wifi_link_ok_def relinked_def Let_def simp del: count_mset_0_iff count_eq_zero_iff split: option.split)

lemma wifi_ok_relinked:
  assumes "wifi_ok w" "(s, n, k) \<in> set (stations w)"
  shows "wifi_ok (relinked n k ap w)"
proof -
  have l: "wifi_link_ok w n k" using wifi_ok_station [OF assms] .
  have "wifi_link_ok (relinked n k ap w) i j" if "(t, i, j) \<in> set (stations w)" for t i j
  proof (cases "j = k")
    case True
    have "i = n" using wifi_ok_station [OF assms(1) that] l True by (simp add: wifi_link_ok_def)
    with True show ?thesis using relinked_ok [OF l] by simp
  next
    case False
    then show ?thesis using wifi_link_other [OF wifi_ok_station [OF assms(1) that]] by (simp add: relinked_count)
  qed
  moreover have "j < length (wifi_links w)" if "j \<in> set (ap_links (relinked n k ap w) m)" for j m
  proof -
    have "j = k \<or> j \<in> set (ap_links w m)"
      using that set_remove1_subset [of k "ap_links w m"] by (auto simp: relinked_def Let_def split: if_splits)
    then show ?thesis using l assms(1) by (auto simp: wifi_ok_def wifi_link_ok_def)
  qed
  ultimately show ?thesis using assms(1) by (auto simp: wifi_ok_def)
qed

lemma wanted_ap_cong: "access_points w' = access_points w \<Longrightarrow> wanted_ap bssid w' s = wanted_ap bssid w s"
  by (auto simp: wanted_ap_def split: option.split)

lemma set_ap_ok:
  assumes "wifi_ok w" "(s, n, k) \<in> set (stations w)"
  shows "\<exists>w'. set_ap k ap w = Inr w' \<and> wifi_ok w' \<and> link_ap (wifi_links w' ! k) = ap \<and> stations w' = stations w \<and>
    access_points w' = access_points w \<and> (\<forall>j. j \<noteq> k \<longrightarrow> wifi_links w' ! j = wifi_links w ! j)"
proof (cases "ap = link_ap (wifi_links w ! k)")
  case True
  then show ?thesis using assms by (simp add: set_ap_def)
next
  case False
  have l: "wifi_link_ok w n k" using wifi_ok_station [OF assms] .
  then have "k < length (wifi_links w)" by (simp add: wifi_link_ok_def)
  then show ?thesis using set_ap_result [OF l False] wifi_ok_relinked [OF assms] by simp
qed

lemma update_stations_result:
  assumes "wifi_ok w" "set ss \<subseteq> set (stations w)" "distinct (map (\<lambda>(s, n, k). k) ss)"
  shows "\<exists>w' e. update_stations bssid ss w = (w', e) \<and> wifi_ok w' \<and> stations w' = stations w \<and> access_points w' = access_points w \<and>
    (\<forall>k. k \<notin> (\<lambda>(s, n, k). k) ` set ss \<longrightarrow> wifi_links w' ! k = wifi_links w ! k) \<and>
    (if \<forall>x\<in>set ss. \<exists>ap. wanted_ap bssid w (fst x) = Inr ap
     then e = None \<and> (\<forall>x\<in>set ss. wanted_ap bssid w (fst x) = Inr (link_ap (wifi_links w' ! snd (snd x)))) else e = Some KeyError)"
  using assms
proof (induction ss arbitrary: w)
  case (Cons st ss)
  obtain s n k where st: "st = (s, n, k)" by (cases st)
  show ?case
  proof (cases "wanted_ap bssid w s")
    case (Inl e)
    then have "e = KeyError"
      by (auto simp: wanted_ap_def dict_lookup_def py_bind_def split: option.splits if_splits)
    with Inl Cons.prems st show ?thesis by (auto simp: py_bind_def)
  next
    case (Inr ap)
    obtain w1 where w1: "set_ap k ap w = Inr w1" "wifi_ok w1" "link_ap (wifi_links w1 ! k) = ap" "stations w1 = stations w"
      "access_points w1 = access_points w" "\<forall>j. j \<noteq> k \<longrightarrow> wifi_links w1 ! j = wifi_links w ! j"
      using set_ap_ok [OF Cons.prems(1), of s n k ap] Cons.prems(2) st by auto
    have ss: "distinct (map (\<lambda>(s, n, k). k) ss)" "k \<notin> (\<lambda>(s, n, k). k) ` set ss" "set ss \<subseteq> set (stations w1)"
      using Cons.prems(2,3) st w1(4) by auto
    obtain w' e where w': "update_stations bssid ss w1 = (w', e)" "wifi_ok w'" "stations w' = stations w1" "access_points w' = access_points w1"
      "\<forall>k. k \<notin> (\<lambda>(s, n, k). k) ` set ss \<longrightarrow> wifi_links w' ! k = wifi_links w1 ! k"
      "if \<forall>x\<in>set ss. \<exists>ap. wanted_ap bssid w (fst x) = Inr ap
       then e = None \<and> (\<forall>x\<in>set ss. wanted_ap bssid w (fst x) = Inr (link_ap (wifi_links w' ! snd (snd x)))) else e = Some KeyError"
      using Cons.IH [OF w1(2) ss(3) ss(1)] unfolding wanted_ap_cong [OF w1(5)] by blast
    have "update_stations bssid (st # ss) w = (w', e)" using Inr w1(1) w'(1) st by (simp add: py_bind_def)
    moreover have "link_ap (wifi_links w' ! k) = ap" using w'(5) ss(2) w1(3) by simp
    moreover have "\<forall>j. j \<notin> (\<lambda>(s, n, k). k) ` set (st # ss) \<longrightarrow> wifi_links w' ! j = wifi_links w ! j"
      using w'(5) w1(6) st by auto
    ultimately show ?thesis using w' w1(4,5) Inr st by (intro exI [of _ w'] exI [of _ e]) (simp split: if_splits)
  qed
qed simp

subsection \<open>Scanning\<close>

lemma wifi_ok_scan_device: "wifi_ok w \<Longrightarrow> wifi_ok (scan_wifi_device n d w)"
proof (cases d)
  case (Sta_Device s)
  assume ok: "wifi_ok w"
  let ?w = "scan_wifi_device n d w" and ?k = "length (wifi_links w)"
  have frame: "stations ?w = stations w @ [(s, n, ?k)]" "wifi_links ?w = wifi_links w @ [new_wifi_link n]" "ap_links ?w = ap_links w" "node_pos ?w = node_pos w"
    by (simp_all add: scan_wifi_device_def Sta_Device)
  have fresh: "?k \<notin> set (ap_links w m)" for m using ok by (auto simp: wifi_ok_def)
  then have "wifi_link_ok ?w n ?k" by (simp add: wifi_link_ok_def frame new_wifi_link_def)
  moreover have "wifi_link_ok ?w i k" "k \<noteq> ?k" if "(t, i, k) \<in> set (stations w)" for t i k
    using wifi_ok_station [OF ok that] by (simp_all add: wifi_link_ok_def frame nth_append)
  ultimately show "wifi_ok ?w" using ok by (fastforce simp: wifi_ok_def frame)
qed (simp_all add: scan_wifi_device_def wifi_ok_def wifi_link_ok_def)

lemma destroyed_frame:
  "ap_links (fold (\<lambda>(s, n, k). destroy_wifi_link k) ss w) = ap_links w \<and>
   length (wifi_links (fold (\<lambda>(s, n, k). destroy_wifi_link k) ss w)) = length (wifi_links w)"
  by (induction ss arbitrary: w) (auto simp: destroy_wifi_link_def)

lemma wifi_ok_scan: "wifi_ok w \<Longrightarrow> wifi_ok (scan_wifi_nodes ns w)"
proof -
  assume ok: "wifi_ok w"
  have devices: "wifi_ok v \<Longrightarrow> wifi_ok (fold (scan_wifi_device n) ds v)" for v n ds
    by (induction ds arbitrary: v) (simp_all add: wifi_ok_scan_device)
  have nodes: "wifi_ok v \<Longrightarrow> wifi_ok (fold (\<lambda>(n, ds). fold (scan_wifi_device n) ds) ns v)" for v
    by (induction ns arbitrary: v) (auto simp: devices)
  have "wifi_ok ((fold (\<lambda>(s, n, k). destroy_wifi_link k) (stations w) w)\<lparr>access_points := [], stations := []\<rparr>)"
    using ok by (auto simp: wifi_ok_def destroyed_frame)
  then show ?thesis unfolding scan_wifi_nodes_def Let_def by (rule nodes)
qed

lemma wifi_periodic_result:
  "wifi_ok w \<Longrightarrow> \<exists>w' e. wifi_periodic_update bssid w = (w', e) \<and> wifi_ok w' \<and> stations w' = stations w \<and> access_points w' = access_points w \<and>
    (if \<forall>x\<in>set (stations w). \<exists>ap. wanted_ap bssid w (fst x) = Inr ap
     then e = None \<and> (\<forall>x\<in>set (stations w). wanted_ap bssid w (fst x) = Inr (link_ap (wifi_links w' ! snd (snd x)))) else e = Some KeyError)"
  unfolding wifi_periodic_update_def
  using update_stations_result [of w "stations w" bssid] unfolding wifi_ok_def by blast

lemma wifi_ok_handle: "wifi_ok w \<Longrightarrow> wifi_ok (wifi_handle ev w)"
  using wifi_periodic_result [of w] by (cases ev) (auto simp: wifi_handle_def wifi_ok_scan wifi_ok_update_view wifi_ok_node_moved, metis fst_conv)

interpretation we: event_handler wifi_handle wifi_ok "\<lambda>w ev. True"
  by unfold_locales (simp_all add: wifi_ok_handle)

lemma wifi_ok_run: "wifi_ok (fold wifi_handle evs (wifi_start pos))"
  by (rule we.run_keeps) (simp_all add: wifi_start_def wifi_ok_def)

section \<open>Properties\<close>

text \<open>C3: Whatever the order of scans, updates, redraws and moves of nodes, every link of a station is in the
  list of its access point exactly once and in that of no other node, it is seen exactly when the station has an
  access point, and its end there is where the access point is. A periodic update, and only it, changes the access point:
  when every BSSID reported is known each station is linked to the one that it names, or to none; otherwise it stops
  with \<open>KeyError\<close>. After a redraw both ends of every link are where the nodes are.\<close>

theorem wifi_links_follow:
  "let w = fold wifi_handle evs (wifi_start pos) in
   (\<forall>(s, n, k)\<in>set (stations w).
      (\<forall>m. count_list (ap_links w m) k = (if link_ap (wifi_links w ! k) = Some m then 1 else 0)) \<and>
      (link_shown (wifi_links w ! k) \<and> link_line (wifi_links w ! k) \<noteq> None \<longleftrightarrow> link_ap (wifi_links w ! k) \<noteq> None) \<and>
      (\<forall>m. link_ap (wifi_links w ! k) = Some m \<longrightarrow> (\<exists>p. link_line (wifi_links w ! k) = Some (p, node_pos w m)))) \<and>
   (\<forall>bssid. let (w', e) = wifi_periodic_update bssid w in
      if \<forall>(s, n, k)\<in>set (stations w). \<exists>ap. wanted_ap bssid w s = Inr ap
      then e = None \<and> (\<forall>(s, n, k)\<in>set (stations w'). wanted_ap bssid w s = Inr (link_ap (wifi_links w' ! k)))
      else e = Some KeyError) \<and>
   (\<forall>(s, n, k)\<in>set (stations w). \<forall>m. link_ap (wifi_links (wifi_update_view w) ! k) = Some m \<longrightarrow>
      link_line (wifi_links (wifi_update_view w) ! k) = Some (node_pos w n, node_pos w m))"
proof -
  define w where "w = fold wifi_handle evs (wifi_start pos)"
  have ok: "wifi_ok w" unfolding w_def by (rule wifi_ok_run)
  have one: "\<forall>(s, n, k)\<in>set (stations w).
      (\<forall>m. count_list (ap_links w m) k = (if link_ap (wifi_links w ! k) = Some m then 1 else 0)) \<and>
      (link_shown (wifi_links w ! k) \<and> link_line (wifi_links w ! k) \<noteq> None \<longleftrightarrow> link_ap (wifi_links w ! k) \<noteq> None) \<and>
      (\<forall>m. link_ap (wifi_links w ! k) = Some m \<longrightarrow> (\<exists>p. link_line (wifi_links w ! k) = Some (p, node_pos w m)))"
    (is "\<forall>(s, n, k)\<in>_. ?P k")
  proof (clarify)
    fix s n k
    assume "(s, n, k) \<in> set (stations w)"
    from wifi_ok_station [OF ok this] show "?P k"
      unfolding wifi_link_ok_def count_mset by (cases "link_ap (wifi_links w ! k)") auto
  qed
  have two: "let (w', e) = wifi_periodic_update bssid w in
      if \<forall>(s, n, k)\<in>set (stations w). \<exists>ap. wanted_ap bssid w s = Inr ap
      then e = None \<and> (\<forall>(s, n, k)\<in>set (stations w'). wanted_ap bssid w s = Inr (link_ap (wifi_links w' ! k)))
      else e = Some KeyError" for bssid
  proof -
    obtain w' e where w': "wifi_periodic_update bssid w = (w', e)" "stations w' = stations w"
      "if \<forall>x\<in>set (stations w). \<exists>ap. wanted_ap bssid w (fst x) = Inr ap
       then e = None \<and> (\<forall>x\<in>set (stations w). wanted_ap bssid w (fst x) = Inr (link_ap (wifi_links w' ! snd (snd x)))) else e = Some KeyError"
      using wifi_periodic_result [OF ok] by blast
    have "(\<forall>(s, n, k)\<in>A. P s k) \<longleftrightarrow> (\<forall>x\<in>A. P (fst x) (snd (snd x)))" for A :: "(nat \<times> nat \<times> nat) set" and P by auto
    with w' show ?thesis by simp
  qed
  have three: "link_line (wifi_links (wifi_update_view w) ! k) = Some (node_pos w n, node_pos w m)"
    if st: "(s, n, k) \<in> set (stations w)" and m: "link_ap (wifi_links (wifi_update_view w) ! k) = Some m" for s n k m
  proof -
    have k: "k \<in> set (map (\<lambda>(s, n, k). k) (stations w))" using st by force
    have l: "wifi_link_ok w n k" using wifi_ok_station [OF ok st] .
    then have "k < length (wifi_links w)" by (simp add: wifi_link_ok_def)
    then have "wifi_links (wifi_update_view w) ! k = repointed w k"
      using fold_wifi_points [OF wifi_ok_bound [OF ok]] k by (simp add: update_view_points)
    then show ?thesis using m l repointed_line [of w k n m] by (simp add: wifi_link_ok_def)
  qed
  show ?thesis unfolding Let_def w_def [symmetric] using one two three by (auto simp: Let_def)
qed

definition example_scan :: wifi_event where
  "example_scan = Wifi_Scanned [(0, [Sta_Device 5]), (1, [Other_Device, Ap_Device ''00:00:00:00:00:01''])]"

lemma example_stations:
  "stations (fold wifi_handle [example_scan, Wifi_Moved 1 (10, 20)] (wifi_start pos)) = [(5, 0, 0)]"
  "access_points (fold wifi_handle [example_scan, Wifi_Moved 1 (10, 20)] (wifi_start pos)) = [(''00:00:00:00:00:01'', 1)]"
  by (simp_all add: example_scan_def wifi_handle_def scan_wifi_nodes_def wifi_start_def scan_wifi_device_def wifi_node_moved_def)

theorem wifi_links_follow_witness:
  "let w = fold wifi_handle [example_scan, Wifi_Moved 1 (10, 20)] (wifi_start (\<lambda>n. (0, 0)));
       w' = fst (wifi_periodic_update (\<lambda>s. Some ''00:00:00:00:00:01'') w)
   in link_ap (wifi_links w' ! 0) = Some 1 \<and> snd (wifi_periodic_update (\<lambda>s. Some ''00:00:00:00:00:02'') w) = Some KeyError"
proof -
  let ?evs = "[example_scan, Wifi_Moved 1 (10, 20)]" and ?pos = "\<lambda>n::nat. (0, 0)"
  define w where "w = fold wifi_handle ?evs (wifi_start ?pos)"
  have st: "stations w = [(5, 0, 0)]" "access_points w = [(''00:00:00:00:00:01'', 1)]" unfolding w_def by (rule example_stations)+
  have wanted: "wanted_ap (\<lambda>s. Some ''00:00:00:00:00:01'') w 5 = Inr (Some 1)" "wanted_ap (\<lambda>s. Some ''00:00:00:00:00:02'') w 5 = Inl KeyError"
    by (simp_all add: wanted_ap_def no_bssid_def dict_lookup_def st py_bind_def)
  have upd: "let (w', e) = wifi_periodic_update bssid w in
      if \<forall>(s, n, k)\<in>set (stations w). \<exists>ap. wanted_ap bssid w s = Inr ap
      then e = None \<and> (\<forall>(s, n, k)\<in>set (stations w'). wanted_ap bssid w s = Inr (link_ap (wifi_links w' ! k)))
      else e = Some KeyError" for bssid
    using wifi_links_follow [of ?evs ?pos] unfolding Let_def w_def [symmetric] by (elim conjE) (erule spec)
  have "stations (fst (wifi_periodic_update bssid w)) = [(5, 0, 0)]" for bssid
    using wifi_periodic_result [of w bssid] wifi_ok_run [of ?evs ?pos] st by (auto simp: w_def)
  with upd [of "\<lambda>s. Some ''00:00:00:00:00:01''"] upd [of "\<lambda>s. Some ''00:00:00:00:00:02''"] wanted st
  show ?thesis unfolding Let_def w_def [symmetric] by (auto simp: case_prod_unfold)
qed

end
