(* ===== verification/Viz_Statistics.thy ===== *)
theory Viz_Statistics
  imports Viz_Traffic
begin

text \<open>
  The plug-ins of the visualizer that show tables (\<open>src/src/visualizer/visualizer/plugins/\<close>): the interface
  statistics with their collector (\<open>interface_statistics.py\<close>), the routing tables (\<open>ipv4_routing_table.py\<close>,
  \<open>olsr.py\<close>) and the choice of the packets that are captured (\<open>show_last_packets.py\<close>). The objects of the
  simulator a window reads come in as data; \<open>find_name\<close> is \<open>Names.FindName\<close> of the device of an interface, empty
  when it has no name. A table is its list of rows.
\<close>

section \<open>Interface statistics\<close>

definition NODE_STATISTICS_MEMORY :: nat where
  "NODE_STATISTICS_MEMORY = 10"

record counters =
  transmitted_packets :: int
  transmitted_bytes :: int
  received_packets :: int
  received_bytes :: int

record dev_stats =
  out_counters :: counters
  tx_packet_rate :: rat
  tx_bit_rate :: rat
  rx_packet_rate :: rat
  rx_bit_rate :: rat

type_synonym node_statistics = "(nat, counters list list) dict"

definition collect_node :: "nat \<times> counters list \<Rightarrow> node_statistics \<Rightarrow> node_statistics" where
  "collect_node s d = dict_set d (fst s) (push_window NODE_STATISTICS_MEMORY (snd s) (dict_getdefault d (fst s) []))"

definition collect_statistics :: "(nat \<times> counters list) list \<Rightarrow> node_statistics \<Rightarrow> node_statistics" where
  "collect_statistics stats d = fold collect_node stats d"

text \<open>The rates of one interface from its counters at both ends of the window; \<open>k\<close> is the time between them.\<close>

definition rates :: "rat \<Rightarrow> counters \<Rightarrow> counters \<Rightarrow> dev_stats" where
  "rates k old new =
     \<lparr>out_counters = new,
      tx_packet_rate = of_int (transmitted_packets new - transmitted_packets old) / k,
      tx_bit_rate = of_int ((transmitted_bytes new - transmitted_bytes old) * 8) / k,
      rx_packet_rate = of_int (received_packets new - received_packets old) / k,
      rx_bit_rate = of_int ((received_bytes new - received_bytes old) * 8) / k\<rparr>"

definition interface_rates :: "rat \<Rightarrow> counters list \<Rightarrow> nat \<times> counters \<Rightarrow> py_exn + dev_stats" where
  "interface_rates k old s = (if fst s < length old then Inr (rates k (old ! fst s) (snd s)) else Inl IndexError)"

definition get_interface_statistics :: "rat \<Rightarrow> node_statistics \<Rightarrow> nat \<Rightarrow> py_exn + dev_stats list" where
  "get_interface_statistics period d i =
     (case dict_get d i of
        None \<Rightarrow> Inr []
      | Some raw \<Rightarrow>
          if length raw < NODE_STATISTICS_MEMORY then Inr []
          else if length raw \<noteq> NODE_STATISTICS_MEMORY then Inl AssertionError
          else py_map (interface_rates (period * (of_nat NODE_STATISTICS_MEMORY - 1)) (hd raw)) (enumerate 0 (last raw)))"

definition interface_name :: "(nat \<Rightarrow> string) \<Rightarrow> nat \<Rightarrow> string" where
  "interface_name find_name i = (if find_name i = [] then ''(interface '' @ str_int (int i) @ '')'' else find_name i)"

text \<open>The table of the window: it is cleared after the statistics were computed.\<close>

definition statistics_update ::
  "(nat \<Rightarrow> string) \<Rightarrow> rat \<Rightarrow> node_statistics \<Rightarrow> nat \<Rightarrow> (string \<times> dev_stats) list \<Rightarrow> (string \<times> dev_stats) list \<times> py_exn option"
where
  "statistics_update find_name period d i table =
     (case get_interface_statistics period d i of
        Inl e \<Rightarrow> (table, Some e)
      | Inr stats \<Rightarrow> (map (\<lambda>(iface, s). (interface_name find_name iface, s)) (enumerate 0 stats), None))"

section \<open>Routing tables\<close>

record ip_route =
  route_dest :: string
  route_gateway :: string
  route_interface :: nat

datatype route_proto = Static_Routing "ip_route list" | Global_Routing "ip_route list" | Other_Routing

datatype routing = One_Protocol route_proto | List_Routing "(route_proto \<times> int) list"

record route_row =
  row_dest :: string
  row_next_hop :: string
  row_interface :: string
  row_type :: string
  row_prio :: int

text \<open>A device that is missing is the loopback; \<open>device i\<close> says whether there is one.\<close>

definition route_interface_name :: "(nat \<Rightarrow> bool) \<Rightarrow> (nat \<Rightarrow> string) \<Rightarrow> nat \<Rightarrow> string" where
  "route_interface_name device find_name i = (if device i then interface_name find_name i else ''lo'')"

definition routing_protocols :: "routing \<Rightarrow> (ip_route list \<times> string \<times> int) list" where
  "routing_protocols r =
     (case r of
        One_Protocol p \<Rightarrow> (case p of Static_Routing rs \<Rightarrow> [(rs, ''static'', 0)] | _ \<Rightarrow> [])
      | List_Routing ps \<Rightarrow> concat (map (\<lambda>(p, prio). case p of
            Static_Routing rs \<Rightarrow> [(rs, ''static'', prio)] | Global_Routing rs \<Rightarrow> [(rs, ''global'', prio)] | Other_Routing \<Rightarrow> []) ps))"

definition route_rows :: "(nat \<Rightarrow> bool) \<Rightarrow> (nat \<Rightarrow> string) \<Rightarrow> (ip_route list \<times> string \<times> int) list \<Rightarrow> route_row list" where
  "route_rows device find_name protos =
     concat (map (\<lambda>(rs, type, prio). map (\<lambda>r. \<lparr>row_dest = route_dest r, row_next_hop = route_gateway r,
       row_interface = route_interface_name device find_name (route_interface r), row_type = type, row_prio = prio\<rparr>) rs) protos)"

text \<open>\<open>ipv4\<close>: the IPv4 object of the node, if it has one, with its routing protocol, if it has one.\<close>

definition ipv4_update ::
  "(nat \<Rightarrow> bool) \<Rightarrow> (nat \<Rightarrow> string) \<Rightarrow> routing option option \<Rightarrow> route_row list \<Rightarrow> route_row list \<times> py_exn option"
where
  "ipv4_update device find_name ipv4 table =
     (case ipv4 of
        None \<Rightarrow> (table, Some AttributeError)
      | Some None \<Rightarrow> (table, None)
      | Some (Some r) \<Rightarrow> if routing_protocols r = [] then (table, None) else (route_rows device find_name (routing_protocols r), None))"

record olsr_route =
  olsr_dest :: string
  olsr_next :: string
  olsr_interface :: nat
  olsr_distance :: nat

text \<open>An empty row is the one just appended when the missing IPv4 object raises.\<close>

definition olsr_row :: "(nat \<Rightarrow> bool) \<Rightarrow> (nat \<Rightarrow> string) \<Rightarrow> olsr_route \<Rightarrow> (string \<times> string \<times> string \<times> nat) option" where
  "olsr_row device find_name r =
     Some (olsr_dest r, olsr_next r, route_interface_name device find_name (olsr_interface r), olsr_distance r)"

definition olsr_update ::
  "(nat \<Rightarrow> bool) \<Rightarrow> (nat \<Rightarrow> string) \<Rightarrow> bool \<Rightarrow> olsr_route list option \<Rightarrow> (string \<times> string \<times> string \<times> nat) option list \<Rightarrow>
    (string \<times> string \<times> string \<times> nat) option list \<times> py_exn option"
where
  "olsr_update device find_name has_ipv4 olsr table =
     (case olsr of
        None \<Rightarrow> (table, None)
      | Some rs \<Rightarrow> if rs \<noteq> [] \<and> \<not> has_ipv4 then ([None], Some AttributeError) else (map (olsr_row device find_name) rs, None))"

section \<open>Captured packets\<close>

text \<open>The walk from a type to its parents, which ends only if there is no cycle.\<close>

partial_function (option) type_is_good :: "(nat \<Rightarrow> nat option) \<Rightarrow> nat \<Rightarrow> nat \<Rightarrow> nat \<Rightarrow> bool option" where
  "type_is_good parent header trailer t =
     (if t = header \<or> t = trailer then Some True
      else case parent t of None \<Rightarrow> Some False | Some p \<Rightarrow> type_is_good parent header trailer p)"

fun packet_filter_list :: "(nat \<Rightarrow> nat option) \<Rightarrow> nat \<Rightarrow> nat \<Rightarrow> nat list \<Rightarrow> nat list option" where
  "packet_filter_list parent header trailer [] = Some []"
| "packet_filter_list parent header trailer (t # ts) =
     (case type_is_good parent header trailer t of
        None \<Rightarrow> None
      | Some good \<Rightarrow> map_option (\<lambda>l. if good \<and> t \<notin> {header, trailer} then t # l else l) (packet_filter_list parent header trailer ts))"

text \<open>The rows of the three packet lists.\<close>

record packet_sample =
  sample_seconds :: rat
  sample_interface :: "nat option"
  sample_bytes :: nat
  sample_contents :: string

definition packet_row :: "(rat \<Rightarrow> string) \<Rightarrow> (nat \<Rightarrow> string) \<Rightarrow> packet_sample \<Rightarrow> string \<times> string \<times> string \<times> string" where
  "packet_row str find_name s =
     (str (sample_seconds s), (case sample_interface s of None \<Rightarrow> ''(unknown)'' | Some i \<Rightarrow> interface_name find_name i),
      str_int (int (sample_bytes s)), sample_contents s)"

record capture_options =
  capture_and :: bool
  num_last_packets :: nat
  capture_headers :: "nat list"

record packet_window =
  filter_list :: "(nat \<times> bool) list"
  op_and :: bool
  captured :: capture_options

definition update_capture_options :: "packet_window \<Rightarrow> packet_window" where
  "update_capture_options w =
     w\<lparr>captured := \<lparr>capture_and = op_and w, num_last_packets = 100, capture_headers = map fst (filter snd (filter_list w))\<rparr>\<rparr>"

definition select_types :: "bool \<Rightarrow> packet_window \<Rightarrow> packet_window" where
  "select_types b w = update_capture_options (w\<lparr>filter_list := map (\<lambda>(t, s). (t, b)) (filter_list w)\<rparr>)"

definition cell_edited :: "nat \<Rightarrow> bool \<Rightarrow> packet_window \<Rightarrow> packet_window" where
  "cell_edited i b w = update_capture_options (w\<lparr>filter_list := map (\<lambda>(t, s). (t, if t = i then b else s)) (filter_list w)\<rparr>)"

text \<open>The button for AND is toggled by either of the two; choosing the active one again does nothing.\<close>

definition op_toggled :: "bool \<Rightarrow> packet_window \<Rightarrow> packet_window" where
  "op_toggled b w = (if op_and w = b then w else update_capture_options (w\<lparr>op_and := b\<rparr>))"

datatype packet_event = Select_Types bool | Cell_Edited nat bool | Op_Toggled bool

definition packet_handle :: "packet_event \<Rightarrow> packet_window \<Rightarrow> packet_window" where
  "packet_handle ev w = (case ev of Select_Types b \<Rightarrow> select_types b w | Cell_Edited i b \<Rightarrow> cell_edited i b w | Op_Toggled b \<Rightarrow> op_toggled b w)"

definition new_packet_window :: "nat list \<Rightarrow> packet_window" where
  "new_packet_window types =
     update_capture_options \<lparr>filter_list = map (\<lambda>t. (t, True)) types, op_and = False,
       captured = \<lparr>capture_and = False, num_last_packets = 100, capture_headers = []\<rparr>\<rparr>"

section \<open>The window of the statistics\<close>

definition node_series :: "nat \<Rightarrow> (nat \<times> counters list) list \<Rightarrow> counters list list" where
  "node_series i ss = map snd (filter (\<lambda>s. fst s = i) ss)"

definition last_part :: "'a list \<Rightarrow> 'a list option" where
  "last_part xs = (if xs = [] then None else Some (drop (length xs - NODE_STATISTICS_MEMORY) xs))"

lemma node_series_snoc: "node_series i (pre @ [s]) = node_series i pre @ (if fst s = i then [snd s] else [])"
  by (simp add: node_series_def)

lemma collect_node_result:
  assumes "\<And>i. dict_get d i = last_part (node_series i pre)"
  shows "dict_get (collect_node s d) i = last_part (node_series i (pre @ [s]))"
proof -
  have "dict_getdefault d j [] = drop (length (node_series j pre) - NODE_STATISTICS_MEMORY) (node_series j pre)" for j
    using assms by (simp add: dict_getdefault_def last_part_def)
  moreover have "last_part (xs @ [x]) = Some (drop (length (xs @ [x]) - NODE_STATISTICS_MEMORY) (xs @ [x]))" for xs :: "counters list list" and x
    by (simp add: last_part_def)
  ultimately show ?thesis
    using assms [of i] by (simp add: collect_node_def node_series_snoc push_window_last del: length_append drop_append)
qed

lemma collect_result: "dict_get (fold collect_statistics updates []) i = last_part (node_series i (concat updates))"
proof -
  have flat: "fold collect_statistics updates d = fold collect_node (concat updates) d" for d
    by (induction updates arbitrary: d) (simp_all add: collect_statistics_def)
  have "(\<And>i. dict_get d i = last_part (node_series i pre)) \<Longrightarrow> dict_get (fold collect_node ss d) i = last_part (node_series i (pre @ ss))" for ss d pre i
  proof (induction ss arbitrary: d pre)
    case (Cons s ss)
    from Cons.IH [OF collect_node_result [OF Cons.prems], of s] show ?case by simp
  qed simp
  from this [of "[]" "[]"] show ?thesis by (simp add: flat last_part_def node_series_def)
qed

lemma py_map_fails:
  "(\<And>x. x \<in> set xs \<Longrightarrow> f x = Inr (g x) \<or> f x = Inl e) \<Longrightarrow> \<exists>x\<in>set xs. f x = Inl e \<Longrightarrow> py_map f xs = Inl e"
proof (induction xs)
  case (Cons x xs)
  show ?case
  proof (cases "f x = Inl e")
    case False
    then have "f x = Inr (g x)" "\<exists>y\<in>set xs. f y = Inl e" using Cons.prems by auto
    then show ?thesis using Cons.IH Cons.prems(1) by (simp add: py_bind_def)
  qed (simp add: py_bind_def)
qed simp

lemma interface_rates_all:
  "py_map (interface_rates k old) (enumerate 0 new) =
    (if length new \<le> length old then Inr (map (\<lambda>j. rates k (old ! j) (new ! j)) [0..<length new]) else Inl IndexError)"
proof (cases "length new \<le> length old")
  case True
  then have "py_map (interface_rates k old) (enumerate 0 new) = Inr (map (\<lambda>s. rates k (old ! fst s) (snd s)) (enumerate 0 new))"
    by (intro py_map_Inr) (auto simp: interface_rates_def in_set_enumerate_eq)
  also have "map (\<lambda>s. rates k (old ! fst s) (snd s)) (enumerate 0 new) = map (\<lambda>j. rates k (old ! j) (new ! j)) [0..<length new]"
    by (rule nth_equalityI) (simp_all add: nth_enumerate_eq)
  finally show ?thesis using True by simp
next
  case False
  then have "\<exists>s\<in>set (enumerate 0 new). interface_rates k old s = Inl IndexError"
    by (intro bexI [of _ "(length old, new ! length old)"]) (auto simp: interface_rates_def in_set_enumerate_eq)
  then have "py_map (interface_rates k old) (enumerate 0 new) = Inl IndexError"
    by (intro py_map_fails [where g = "\<lambda>s. rates k (old ! fst s) (snd s)"]) (auto simp: interface_rates_def)
  with False show ?thesis by simp
qed

text \<open>C23: The statistics of a node are nothing until ten periods were collected, and then, for each interface,
  the counters of the last one and the rates over the nine periods since the one ten before; however many periods there
  were, only the last ten count. When the node has got more interfaces in that time \<open>IndexError\<close> is raised,
  an interface that has gone is left out.\<close>

theorem interface_statistics_spec:
  assumes "0 < period"
  shows "get_interface_statistics period (fold collect_statistics updates []) i =
    (let xs = node_series i (concat updates); n = length xs in
     if n < 10 then Inr []
     else if length (last xs) \<le> length (xs ! (n - 10))
     then Inr (map (\<lambda>j. rates (9 * period) (xs ! (n - 10) ! j) (last xs ! j)) [0..<length (last xs)])
     else Inl IndexError)"
proof -
  let ?xs = "node_series i (concat updates)"
  show ?thesis
  proof (cases "length ?xs < 10")
    case True
    then show ?thesis by (simp add: get_interface_statistics_def collect_result last_part_def NODE_STATISTICS_MEMORY_def)
  next
    case False
    define raw where "raw = drop (length ?xs - 10) ?xs"
    have raw: "length raw = 10" "hd raw = ?xs ! (length ?xs - 10)" "last raw = last ?xs" "?xs \<noteq> []"
      using False by (auto simp: raw_def hd_drop_conv_nth last_drop)
    have "dict_get (fold collect_statistics updates []) i = Some raw"
      using raw(4) by (simp add: collect_result last_part_def NODE_STATISTICS_MEMORY_def raw_def)
    then have "get_interface_statistics period (fold collect_statistics updates []) i =
        py_map (interface_rates (period * 9) (?xs ! (length ?xs - 10))) (enumerate 0 (last ?xs))"
      using raw(1-3) by (simp add: get_interface_statistics_def NODE_STATISTICS_MEMORY_def)
    then show ?thesis using False by (simp add: interface_rates_all Let_def mult.commute)
  qed
qed

definition example_counters :: "nat \<Rightarrow> counters" where
  "example_counters t = \<lparr>transmitted_packets = int t, transmitted_bytes = 1000 * int t, received_packets = 0, received_bytes = 0\<rparr>"

theorem interface_statistics_spec_witness:
  "map_sum id (map tx_bit_rate) (get_interface_statistics (1 / 10) (fold collect_statistics (map (\<lambda>t. [(3, [example_counters t])]) [0..<12]) []) 3) =
    Inr [80000]"
proof -
  have series: "node_series 3 (concat (map (\<lambda>t. [(3, [example_counters t])]) [0..<12])) = map (\<lambda>t. [example_counters t]) [0..<12]"
    by (simp add: node_series_def concat_map_singleton comp_def)
  show ?thesis
    using interface_statistics_spec [of "1 / 10" "map (\<lambda>t. [(3, [example_counters t])]) [0..<12]" 3]
    unfolding series by (simp add: Let_def last_map rates_def example_counters_def)
qed

section \<open>The types of packets\<close>

lemma chain_end: "parent t = None \<Longrightarrow> (\<lambda>t p. parent t = Some p)\<^sup>*\<^sup>* t r \<longleftrightarrow> r = t"
  by (auto elim: converse_rtranclpE)

lemma type_is_good_wf:
  assumes "wf {(p, t). parent t = Some p}"
  shows "type_is_good parent header trailer t = Some (\<exists>r\<in>{header, trailer}. (\<lambda>t p. parent t = Some p)\<^sup>*\<^sup>* t r)"
  using assms
proof (induction t)
  case (less t)
  show ?case
  proof (cases "t = header \<or> t = trailer \<or> parent t = None")
    case True
    then show ?thesis by (subst type_is_good.simps) (auto simp: chain_end)
  next
    case False
    then obtain p where p: "parent t = Some p" "t \<noteq> header" "t \<noteq> trailer" by auto
    have "(\<lambda>t p. parent t = Some p)\<^sup>*\<^sup>* t r \<longleftrightarrow> (\<lambda>t p. parent t = Some p)\<^sup>*\<^sup>* p r" if "r \<in> {header, trailer}" for r
      using that p by (auto elim: converse_rtranclpE intro: converse_rtranclp_into_rtranclp)
    then show ?thesis using less.IH [of p] p by (subst type_is_good.simps) simp
  qed
qed

text \<open>A type that is its own parent, and is neither root, is walked round for ever.\<close>

lemma type_is_good_left:
  assumes "type_is_good parent header trailer u = Some b"
  shows "parent t = Some t \<longrightarrow> t \<noteq> header \<longrightarrow> t \<noteq> trailer \<longrightarrow> u \<noteq> t"
proof (rule type_is_good.raw_induct [OF _ assms])
  fix good :: "(nat \<Rightarrow> nat option) \<Rightarrow> nat \<Rightarrow> nat \<Rightarrow> nat \<Rightarrow> bool option" and parent header trailer u b
  assume ih: "\<And>parent header trailer u b. good parent header trailer u = Some b \<Longrightarrow>
      parent t = Some t \<longrightarrow> t \<noteq> header \<longrightarrow> t \<noteq> trailer \<longrightarrow> u \<noteq> t"
    and "(if u = header \<or> u = trailer then Some True
      else case parent u of None \<Rightarrow> Some False | Some p \<Rightarrow> good parent header trailer p) = Some b"
  then show "parent t = Some t \<longrightarrow> t \<noteq> header \<longrightarrow> t \<noteq> trailer \<longrightarrow> u \<noteq> t"
    using ih [of parent header trailer t b] by (auto split: if_splits option.splits)
qed

lemma type_is_good_cycle: "parent t = Some t \<Longrightarrow> t \<noteq> header \<Longrightarrow> t \<noteq> trailer \<Longrightarrow> type_is_good parent header trailer t = None"
  using type_is_good_left [of parent header trailer t _ t] by (cases "type_is_good parent header trailer t") auto

text \<open>What can be captured: the registered types below the two roots, without them, in the order of registration.\<close>

lemma packet_filter_list_spec:
  assumes "wf {(p, t). parent t = Some p}"
  shows "packet_filter_list parent header trailer ts =
    Some (filter (\<lambda>t. t \<notin> {header, trailer} \<and> (\<exists>r\<in>{header, trailer}. (\<lambda>t p. parent t = Some p)\<^sup>*\<^sup>* t r)) ts)"
  by (induction ts) (simp_all add: type_is_good_wf [OF assms])

text \<open>Whatever the user clicks, the packets captured are those the window shows as selected.\<close>

definition options_shown :: "packet_window \<Rightarrow> bool" where
  "options_shown w \<longleftrightarrow> captured w = \<lparr>capture_and = op_and w, num_last_packets = 100, capture_headers = map fst (filter snd (filter_list w))\<rparr>"

lemma options_shown_steps:
  "options_shown (new_packet_window types)" "options_shown (select_types b w)" "options_shown (cell_edited i b w)"
  "options_shown w \<Longrightarrow> options_shown (op_toggled b w)"
  by (simp_all add: options_shown_def new_packet_window_def select_types_def cell_edited_def op_toggled_def update_capture_options_def)

interpretation pe: event_handler packet_handle options_shown "\<lambda>w ev. True"
  by unfold_locales (auto simp: packet_handle_def options_shown_steps split: packet_event.split)

lemma capture_follows_window: "options_shown (fold packet_handle evs (new_packet_window types))"
  by (rule pe.run_keeps) (simp_all add: options_shown_steps)

section \<open>Routing tables and errors\<close>

text \<open>
  The windows of routing tables belong to the update of the view: on a node without an IPv4 stack the one for
  IPv4 raises each time, which ends the update of the view and its timer. A table is kept as it is, not emptied, when the
  node has no static or global routing any more.
\<close>

lemma ipv4_update_cases:
  "ipv4_update device find_name None table = (table, Some AttributeError)"
  "ipv4_update device find_name (Some (Some (One_Protocol (Global_Routing rs)))) table = (table, None)"
  "ipv4_update device find_name (Some (Some (List_Routing []))) table = (table, None)"
  by (simp_all add: ipv4_update_def routing_protocols_def)

end
