(* ===== verification/Simulation_Thread.thy ===== *)
theory Simulation_Thread
  imports Py_Base "HOL-Library.Sublist" Complex_Main
begin

text \<open>
  The two threads of the visualizer (\<open>src/src/visualizer/visualizer/core.py\<close>): class
  \<open>SimulationThread\<close>, whose \<open>run\<close> advances the simulation on a signal, and the thread
  of the window, with the update timer, the handlers that take the simulation lock, those that read the simulation
  without it (of \<open>core.py\<close> and of the plug-ins \<open>olsr.py\<close> and \<open>show_last_packets.py\<close>),
  \<open>update_view_timeout\<close>, which keeps dispatching events while it polls the lock, and \<open>_quit\<close>.
  A step of the model is one access to what the threads share. The user and the scheduler choose
  the next step: \<open>choice\<close> names it, \<open>step\<close> allows them all.

  \<open>SimulatorRunUntil\<close> is C++; the parameter \<open>simulate\<close> gives from the simulated time and the
  target the time reached and the pause messages of that run.
\<close>

section \<open>State\<close>

datatype thread = Sim | View

datatype sim_pc = Sim_Check | Sim_Wait | Sim_Clear | Sim_Test | Sim_Acquire | Sim_Run | Sim_Extend | Sim_Idle | Sim_Release | Sim_Done

text \<open>
  Where the thread of the window is: in the main loop, in \<open>update_view_timeout\<close> called by a timer
  (with the pause messages it took), in \<open>update_model\<close>, in a handler that works under the lock
  (with the nodes of interest it sets, if it does), where a handler reads the simulation without the lock, in
  \<open>_quit\<close>, or in code typed in the shell, which may call such a handler.
\<close>

datatype unlocked = Autoscale | Mode_All | Node_Menu | Packets_Window

datatype view_pc =
    View_Loop
  | View_Poll nat | View_Take nat | View_Reset nat "string list" | View_Update nat "string list"
  | View_Target nat "string list" | View_Release nat "string list" | View_Messages nat "string list"
  | View_Decide nat | View_Go nat
  | View_Model | View_Model_Release
  | View_Section "nat list option" | View_Section_Release "nat list option"
  | View_Unlocked unlocked
  | View_Quit | View_Quit_Go | View_Join
  | View_Code | View_In_Code | View_Code_Section "nat list option" | View_Code_Section_Release "nat list option"
  | View_Exit

record viz_state =
  lock :: "thread option"
  go :: bool
  quit :: bool
  target_time :: rat
  now :: rat
  helper_messages :: "string list"
  pause_messages :: "string list"
  idle_calls :: nat
  interest :: "nat list"
  node_count :: nat
  autoscale_due :: bool
  sample_period :: rat
  timer_id :: "nat option"
  live_timers :: "nat list"
  next_timer :: nat
  play_active :: bool
  main_quit :: bool
  frames :: "nat list"
  sim_at :: sim_pc
  view_at :: view_pc
  emitted :: "string list"
  shown :: "string list"
  failed_updates :: nat

definition SAMPLE_PERIOD :: rat where
  "SAMPLE_PERIOD = 1 / 10"

text \<open>Timers: removing one that is gone only warns.\<close>

definition source_remove :: "nat option \<Rightarrow> viz_state \<Rightarrow> viz_state" where
  "source_remove i s = (case i of None \<Rightarrow> s | Some k \<Rightarrow> s\<lparr>live_timers := filter (\<lambda>j. j \<noteq> k) (live_timers s)\<rparr>)"

definition start_update_timer :: "viz_state \<Rightarrow> viz_state" where
  "start_update_timer s =
     (let s = source_remove (timer_id s) s
      in s\<lparr>timer_id := Some (next_timer s), live_timers := live_timers s @ [next_timer s], next_timer := next_timer s + 1\<rparr>)"

definition on_play_button_toggled :: "viz_state \<Rightarrow> viz_state" where
  "on_play_button_toggled s = (if play_active s then start_update_timer s else source_remove (timer_id s) s)"

text \<open>Setting the button to the state it has emits nothing.\<close>

definition set_play :: "bool \<Rightarrow> viz_state \<Rightarrow> viz_state" where
  "set_play b s = (if play_active s = b then s else on_play_button_toggled (s\<lparr>play_active := b\<rparr>))"

definition speed_changed :: "rat \<Rightarrow> viz_state \<Rightarrow> viz_state" where
  "speed_changed v s = start_update_timer (s\<lparr>sample_period := SAMPLE_PERIOD * v\<rparr>)"

text \<open>When \<open>start\<close> enters the main loop: the window made its first timer through the speed control, the timer of
  the automatic scale is set for once, the thread runs.\<close>

definition viz_start :: "nat \<Rightarrow> viz_state" where
  "viz_start n = speed_changed 1
     \<lparr>lock = None, go = False, quit = False, target_time = 0, now = 0, helper_messages = [], pause_messages = [],
      idle_calls = 0, interest = [0..<n], node_count = n, autoscale_due = True, sample_period = SAMPLE_PERIOD, timer_id = None, live_timers = [], next_timer = 0,
      play_active = False, main_quit = False, frames = [], sim_at = Sim_Check, view_at = View_Loop,
      emitted = [], shown = [], failed_updates = 0\<rparr>"

section \<open>The simulation thread\<close>

definition sim_step :: "(rat \<Rightarrow> rat \<Rightarrow> rat \<times> string list) \<Rightarrow> viz_state \<Rightarrow> viz_state option" where
  "sim_step simulate s = (case sim_at s of
     Sim_Check \<Rightarrow> Some (s\<lparr>sim_at := if quit s then Sim_Done else Sim_Wait\<rparr>)
   | Sim_Wait \<Rightarrow> if go s then Some (s\<lparr>sim_at := Sim_Clear\<rparr>) else None
   | Sim_Clear \<Rightarrow> Some (s\<lparr>go := False, sim_at := Sim_Test\<rparr>)
   | Sim_Test \<Rightarrow> Some (s\<lparr>sim_at := if quit s then Sim_Done else Sim_Acquire\<rparr>)
   | Sim_Acquire \<Rightarrow> if lock s = None then Some (s\<lparr>lock := Some Sim, sim_at := Sim_Run\<rparr>) else None
   | Sim_Run \<Rightarrow> (let r = simulate (now s) (target_time s)
       in Some (s\<lparr>now := fst r, helper_messages := snd r, sim_at := Sim_Extend\<rparr>))
   | Sim_Extend \<Rightarrow> Some (s\<lparr>pause_messages := pause_messages s @ helper_messages s,
       emitted := emitted s @ helper_messages s, sim_at := Sim_Idle\<rparr>)
   | Sim_Idle \<Rightarrow> Some (s\<lparr>idle_calls := idle_calls s + 1, sim_at := Sim_Release\<rparr>)
   | Sim_Release \<Rightarrow> Some (s\<lparr>lock := None, sim_at := Sim_Check\<rparr>)
   | Sim_Done \<Rightarrow> None)"

section \<open>The thread of the window\<close>

text \<open>What is dispatched next in a main loop, or how code in the shell goes on; \<open>Ev_Continue\<close> is the next step of a handler, \<open>Ev_Fail\<close> an exception in \<open>update_view\<close>.\<close>

datatype viz_event =
    Ev_Continue | Ev_Fail | Ev_Timer nat | Ev_Idle | Ev_Toggle | Ev_Speed rat | Ev_Section "nat list option"
  | Ev_Unlocked unlocked | Ev_Delete | Ev_Code | Ev_Code_Section "nat list option" | Ev_Poll_Again | Ev_Leave

definition loop_step :: "bool \<Rightarrow> viz_event \<Rightarrow> viz_state \<Rightarrow> viz_state option" where
  "loop_step shell ev s = (case ev of
     Ev_Timer i \<Rightarrow> if i \<in> set (live_timers s) \<and> i \<notin> set (frames s) then Some (s\<lparr>view_at := View_Poll i\<rparr>) else None
   | Ev_Idle \<Rightarrow> if 0 < idle_calls s then Some (s\<lparr>idle_calls := idle_calls s - 1, view_at := View_Model\<rparr>) else None
   | Ev_Toggle \<Rightarrow> Some (set_play (\<not> play_active s) s)
   | Ev_Speed v \<Rightarrow> Some (speed_changed v s)
   | Ev_Section f \<Rightarrow> Some (s\<lparr>view_at := View_Section f\<rparr>)
   | Ev_Unlocked u \<Rightarrow>
       if u = Autoscale then (if autoscale_due s then Some (s\<lparr>autoscale_due := False, view_at := (if node_count s = 0 then View_Loop else View_Unlocked u)\<rparr>) else None)
       else Some (s\<lparr>view_at := View_Unlocked u\<rparr>)
   | Ev_Delete \<Rightarrow> Some (let s = source_remove (timer_id s) s in s\<lparr>timer_id := None, view_at := View_Quit\<rparr>)
   | Ev_Code \<Rightarrow> if shell then Some (s\<lparr>view_at := View_Code\<rparr>) else None
   | Ev_Poll_Again \<Rightarrow> (case frames s of [] \<Rightarrow> None | i # fs \<Rightarrow> Some (s\<lparr>frames := fs, view_at := View_Poll i\<rparr>))
   | Ev_Leave \<Rightarrow> if frames s = [] \<and> main_quit s then Some (s\<lparr>view_at := View_Exit\<rparr>) else None
   | _ \<Rightarrow> None)"

definition acquire :: "view_pc \<Rightarrow> viz_state \<Rightarrow> viz_state option" where
  "acquire pc s = (if lock s = None then Some (s\<lparr>lock := Some View, view_at := pc\<rparr>) else None)"

text \<open>After a handler has read the simulation: the automatic scale and the menu of a node are done, the choice to show the
  transmissions of all nodes sets them under the lock, and the window of the last packets is updated under it.\<close>

definition after_unlocked :: "unlocked \<Rightarrow> viz_state \<Rightarrow> view_pc" where
  "after_unlocked u s = (case u of Autoscale \<Rightarrow> View_Loop | Mode_All \<Rightarrow> View_Section (Some [0..<node_count s])
     | Node_Menu \<Rightarrow> View_Loop | Packets_Window \<Rightarrow> View_Section None)"

text \<open>The next step of a handler; acquiring the lock, and joining the thread, may have to wait.\<close>

definition handler_step :: "viz_state \<Rightarrow> viz_state option" where
  "handler_step s = (case view_at s of
     View_Poll i \<Rightarrow> if lock s = None then Some (s\<lparr>lock := Some View, view_at := View_Take i\<rparr>)
                    else Some (s\<lparr>frames := i # frames s, view_at := View_Loop\<rparr>)
   | View_Take i \<Rightarrow> Some (s\<lparr>view_at := View_Reset i (pause_messages s)\<rparr>)
   | View_Reset i msgs \<Rightarrow> Some (s\<lparr>pause_messages := [], view_at := View_Update i msgs\<rparr>)
   | View_Update i msgs \<Rightarrow> Some (s\<lparr>view_at := View_Target i msgs\<rparr>)
   | View_Target i msgs \<Rightarrow> Some (s\<lparr>target_time := now s + sample_period s, view_at := View_Release i msgs\<rparr>)
   | View_Release i msgs \<Rightarrow> Some (s\<lparr>lock := None, view_at := View_Messages i msgs\<rparr>)
   | View_Messages i msgs \<Rightarrow>
       (let s = (if msgs \<noteq> [] then set_play False (s\<lparr>shown := shown s @ msgs\<rparr>) else s)
        in Some (s\<lparr>view_at := View_Decide i\<rparr>))
   | View_Decide i \<Rightarrow>
       if play_active s then Some (s\<lparr>view_at := View_Go i\<rparr>)
       else Some (source_remove (Some i) (s\<lparr>timer_id := None, view_at := View_Loop\<rparr>))
   | View_Go i \<Rightarrow> Some (s\<lparr>go := True, view_at := View_Loop\<rparr>)
   | View_Model \<Rightarrow> acquire View_Model_Release s
   | View_Model_Release \<Rightarrow> Some (s\<lparr>lock := None, view_at := View_Loop\<rparr>)
   | View_Section f \<Rightarrow> acquire (View_Section_Release f) s
   | View_Section_Release f \<Rightarrow>
       Some (s\<lparr>interest := (case f of None \<Rightarrow> interest s | Some ns \<Rightarrow> ns), lock := None, view_at := View_Loop\<rparr>)
   | View_Unlocked u \<Rightarrow> Some (s\<lparr>view_at := after_unlocked u s\<rparr>)
   | View_Quit \<Rightarrow> Some (s\<lparr>quit := True, view_at := View_Quit_Go\<rparr>)
   | View_Quit_Go \<Rightarrow> Some (s\<lparr>go := True, view_at := View_Join\<rparr>)
   | View_Join \<Rightarrow> if sim_at s = Sim_Done then Some (s\<lparr>main_quit := True, view_at := View_Loop\<rparr>) else None
   | View_Code \<Rightarrow> acquire View_In_Code s
   | View_In_Code \<Rightarrow> Some (s\<lparr>lock := None, view_at := View_Loop\<rparr>)
   | View_Code_Section f \<Rightarrow> acquire (View_Code_Section_Release f) s
   | View_Code_Section_Release f \<Rightarrow>
       Some (s\<lparr>interest := (case f of None \<Rightarrow> interest s | Some ns \<Rightarrow> ns), lock := None, view_at := View_In_Code\<rparr>)
   | _ \<Rightarrow> None)"

text \<open>An exception in \<open>update_view\<close> releases the lock, loses the messages taken and ends the timer.\<close>

definition fail_step :: "viz_state \<Rightarrow> viz_state option" where
  "fail_step s = (case view_at s of
     View_Update i msgs \<Rightarrow> Some (source_remove (Some i)
       (s\<lparr>lock := None, failed_updates := failed_updates s + 1, view_at := View_Loop\<rparr>))
   | _ \<Rightarrow> None)"

definition view_step :: "bool \<Rightarrow> viz_event \<Rightarrow> viz_state \<Rightarrow> viz_state option" where
  "view_step shell ev s =
     (if view_at s = View_Loop then loop_step shell ev s
      else case ev of
        Ev_Continue \<Rightarrow> handler_step s
      | Ev_Fail \<Rightarrow> fail_step s
      | Ev_Code_Section f \<Rightarrow> if view_at s = View_In_Code then Some (s\<lparr>view_at := View_Code_Section f\<rparr>) else None
      | _ \<Rightarrow> None)"

section \<open>Runs\<close>

datatype choice = Run_Sim | Run_View viz_event

definition choose_step :: "(rat \<Rightarrow> rat \<Rightarrow> rat \<times> string list) \<Rightarrow> bool \<Rightarrow> choice \<Rightarrow> viz_state \<Rightarrow> viz_state option" where
  "choose_step simulate shell c s = (case c of Run_Sim \<Rightarrow> sim_step simulate s | Run_View ev \<Rightarrow> view_step shell ev s)"

fun run_choices :: "(rat \<Rightarrow> rat \<Rightarrow> rat \<times> string list) \<Rightarrow> bool \<Rightarrow> choice list \<Rightarrow> viz_state \<Rightarrow> viz_state option" where
  "run_choices simulate shell [] s = Some s"
| "run_choices simulate shell (c # cs) s =
     (case choose_step simulate shell c s of None \<Rightarrow> None | Some s' \<Rightarrow> run_choices simulate shell cs s')"

inductive step :: "(rat \<Rightarrow> rat \<Rightarrow> rat \<times> string list) \<Rightarrow> bool \<Rightarrow> viz_state \<Rightarrow> viz_state \<Rightarrow> bool" for simulate shell where
  step_sim: "sim_step simulate s = Some s' \<Longrightarrow> step simulate shell s s'"
| step_view: "view_step shell ev s = Some s' \<Longrightarrow> step simulate shell s s'"

inductive reachable :: "(rat \<Rightarrow> rat \<Rightarrow> rat \<times> string list) \<Rightarrow> bool \<Rightarrow> nat \<Rightarrow> viz_state \<Rightarrow> bool" for simulate shell n where
  reach_start: "reachable simulate shell n (viz_start n)"
| reach_step: "reachable simulate shell n s \<Longrightarrow> step simulate shell s s' \<Longrightarrow> reachable simulate shell n s'"

inductive_cases step_cases: "step simulate shell s s'"

lemma choose_step_step: "choose_step simulate shell c s = Some s' \<Longrightarrow> step simulate shell s s'"
  by (auto simp: choose_step_def split: choice.splits intro: step.intros)

lemma run_choices_reachable:
  "run_choices simulate shell cs s = Some s' \<Longrightarrow> reachable simulate shell n s \<Longrightarrow> reachable simulate shell n s'"
proof (induction cs arbitrary: s)
  case (Cons c cs)
  then obtain t where t: "choose_step simulate shell c s = Some t" "run_choices simulate shell cs t = Some s'"
    by (auto split: option.splits)
  show ?case
    by (rule Cons.IH [OF t(2) reach_step [OF Cons.prems(2) choose_step_step [OF t(1)]]])
qed simp

section \<open>The invariant\<close>

definition sim_locked :: "sim_pc \<Rightarrow> bool" where
  "sim_locked pc \<longleftrightarrow> pc \<in> {Sim_Run, Sim_Extend, Sim_Idle, Sim_Release}"

fun view_locked :: "view_pc \<Rightarrow> bool" where
  "view_locked (View_Take i) = True"
| "view_locked (View_Reset i m) = True"
| "view_locked (View_Update i m) = True"
| "view_locked (View_Target i m) = True"
| "view_locked (View_Release i m) = True"
| "view_locked View_Model_Release = True"
| "view_locked (View_Section_Release f) = True"
| "view_locked View_In_Code = True"
| "view_locked (View_Code_Section f) = True"
| "view_locked (View_Code_Section_Release f) = True"
| "view_locked pc = False"

text \<open>The lock is held by who is at work under it; code in the shell never gets it a second time.\<close>

definition lock_ok :: "viz_state \<Rightarrow> bool" where
  "lock_ok s \<longleftrightarrow> (\<forall>f. view_at s \<noteq> View_Code_Section_Release f) \<and> (lock s = Some Sim \<longleftrightarrow> sim_locked (sim_at s)) \<and> (lock s = Some View \<longleftrightarrow> view_locked (view_at s))"

text \<open>Once the window has announced the end, the thread never waits for a signal that will not come.\<close>

definition quit_ok :: "viz_state \<Rightarrow> bool" where
  "quit_ok s \<longleftrightarrow> (quit s \<longrightarrow> view_at s = View_Quit_Go \<or> (sim_at s = Sim_Wait \<longrightarrow> go s)) \<and>
     (view_at s = View_Quit_Go \<or> view_at s = View_Join \<longrightarrow> quit s) \<and>
     (sim_at s = Sim_Done \<longrightarrow> quit s) \<and> (main_quit s \<longrightarrow> sim_at s = Sim_Done) \<and> (view_at s = View_Exit \<longrightarrow> main_quit s)"

fun held_messages :: "view_pc \<Rightarrow> string list" where
  "held_messages (View_Update i m) = m"
| "held_messages (View_Target i m) = m"
| "held_messages (View_Release i m) = m"
| "held_messages (View_Messages i m) = m"
| "held_messages pc = []"

text \<open>Pause messages are shown in order and at most once; none is lost unless an update of the view raised.\<close>

definition messages_ok :: "viz_state \<Rightarrow> bool" where
  "messages_ok s \<longleftrightarrow>
     (\<forall>i m. view_at s = View_Reset i m \<longrightarrow> m = pause_messages s) \<and>
     (let l = shown s @ held_messages (view_at s) @ pause_messages s
      in subseq l (emitted s) \<and> (failed_updates s = 0 \<longrightarrow> l = emitted s))"

lemmas viz_ok_defs = lock_ok_def quit_ok_def messages_ok_def sim_locked_def

lemma timer_frame [simp]:
  "lock (source_remove i s) = lock s" "lock (start_update_timer s) = lock s" "lock (set_play b s) = lock s"
  "sim_at (source_remove i s) = sim_at s" "sim_at (start_update_timer s) = sim_at s" "sim_at (set_play b s) = sim_at s"
  "view_at (source_remove i s) = view_at s" "view_at (start_update_timer s) = view_at s" "view_at (set_play b s) = view_at s"
  "quit (source_remove i s) = quit s" "quit (start_update_timer s) = quit s" "quit (set_play b s) = quit s"
  "go (source_remove i s) = go s" "go (start_update_timer s) = go s" "go (set_play b s) = go s"
  "main_quit (source_remove i s) = main_quit s" "main_quit (start_update_timer s) = main_quit s" "main_quit (set_play b s) = main_quit s"
  by (simp_all add: source_remove_def start_update_timer_def set_play_def on_play_button_toggled_def Let_def split: option.split)

lemma timer_frame_messages [simp]:
  "shown (source_remove i s) = shown s" "shown (start_update_timer s) = shown s" "shown (set_play b s) = shown s"
  "emitted (source_remove i s) = emitted s" "emitted (start_update_timer s) = emitted s" "emitted (set_play b s) = emitted s"
  "pause_messages (source_remove i s) = pause_messages s" "pause_messages (start_update_timer s) = pause_messages s"
  "pause_messages (set_play b s) = pause_messages s"
  "failed_updates (source_remove i s) = failed_updates s" "failed_updates (start_update_timer s) = failed_updates s"
  "failed_updates (set_play b s) = failed_updates s"
  by (simp_all add: source_remove_def start_update_timer_def set_play_def on_play_button_toggled_def Let_def split: option.split)

lemma viz_start_ok: "lock_ok (viz_start n)" "quit_ok (viz_start n)" "messages_ok (viz_start n)"
  by (simp_all add: viz_start_def viz_ok_defs speed_changed_def Let_def)

lemma sim_step_lock: "lock_ok s \<Longrightarrow> pred_option lock_ok (sim_step simulate s)"
  by (cases "sim_at s") (auto simp: sim_step_def lock_ok_def sim_locked_def Let_def)

lemma sim_step_quit: "quit_ok s \<Longrightarrow> pred_option quit_ok (sim_step simulate s)"
  by (cases "sim_at s") (auto simp: sim_step_def quit_ok_def Let_def)

lemma subseq_append_both:
  "subseq (a @ b) e \<Longrightarrow> subseq (a @ b @ d) (e @ d)"
  "subseq (a @ b @ c) e \<Longrightarrow> subseq (a @ b @ c @ d) (e @ d)"
  "a @ b = e \<Longrightarrow> subseq (a @ b @ d) (e @ d)"
  "a @ b @ c = e \<Longrightarrow> subseq (a @ b @ c @ d) (e @ d)"
  by (simp_all flip: append_assoc)

lemma subseq_drop_middle: "subseq (a @ b @ c) e \<Longrightarrow> subseq (a @ c) e"
  by (rule subseq_order.trans [of _ "a @ b @ c"]) (auto intro: list_emb_append_mono)

lemma sim_step_messages: "lock_ok s \<Longrightarrow> messages_ok s \<Longrightarrow> pred_option messages_ok (sim_step simulate s)"
proof (cases "sim_at s = Sim_Extend")
  case True
  assume "lock_ok s" "messages_ok s"
  moreover from this have "\<not> view_locked (view_at s)"
    using True by (auto simp: lock_ok_def sim_locked_def)
  ultimately show ?thesis
    using True by (cases "view_at s") (auto simp: sim_step_def messages_ok_def Let_def
        intro: subseq_append_both)
next
  case False
  assume "messages_ok s"
  with False show ?thesis
    by (cases "sim_at s") (auto simp: sim_step_def messages_ok_def Let_def)
qed

lemma loop_step_ok:
  assumes "view_at s = View_Loop"
  shows "lock_ok s \<Longrightarrow> pred_option lock_ok (loop_step shell ev s)"
    "quit_ok s \<Longrightarrow> pred_option quit_ok (loop_step shell ev s)"
    "messages_ok s \<Longrightarrow> pred_option messages_ok (loop_step shell ev s)"
  using assms by (cases ev; auto simp: loop_step_def lock_ok_def quit_ok_def messages_ok_def speed_changed_def Let_def
      split: list.split)+

lemma handler_step_lock: "lock_ok s \<Longrightarrow> pred_option lock_ok (handler_step s)"
  by (cases "view_at s") (auto simp: handler_step_def acquire_def after_unlocked_def lock_ok_def Let_def split: unlocked.split)

lemma handler_step_quit: "quit_ok s \<Longrightarrow> pred_option quit_ok (handler_step s)"
  by (cases "view_at s") (auto simp: handler_step_def acquire_def after_unlocked_def quit_ok_def Let_def split: unlocked.split)

lemma handler_step_messages: "messages_ok s \<Longrightarrow> pred_option messages_ok (handler_step s)"
  by (cases "view_at s") (auto simp: handler_step_def acquire_def after_unlocked_def messages_ok_def Let_def split: unlocked.split)

lemma fail_step_ok:
  "lock_ok s \<Longrightarrow> pred_option lock_ok (fail_step s)"
  "quit_ok s \<Longrightarrow> pred_option quit_ok (fail_step s)"
  "messages_ok s \<Longrightarrow> pred_option messages_ok (fail_step s)"
  by (cases "view_at s"; auto simp: fail_step_def lock_ok_def quit_ok_def messages_ok_def Let_def dest: subseq_drop_middle)+

lemma view_step_ok:
  "lock_ok s \<Longrightarrow> pred_option lock_ok (view_step shell ev s)"
  "quit_ok s \<Longrightarrow> pred_option quit_ok (view_step shell ev s)"
  "messages_ok s \<Longrightarrow> pred_option messages_ok (view_step shell ev s)"
  by (cases "view_at s = View_Loop"; cases ev;
      simp add: view_step_def loop_step_ok handler_step_lock handler_step_quit handler_step_messages fail_step_ok;
      auto simp: lock_ok_def quit_ok_def messages_ok_def)+

definition viz_ok :: "viz_state \<Rightarrow> bool" where
  "viz_ok s \<longleftrightarrow> lock_ok s \<and> quit_ok s \<and> messages_ok s"

lemma pred_option_SomeD: "pred_option P x \<Longrightarrow> x = Some y \<Longrightarrow> P y"
  by simp

lemma step_viz_ok: "step simulate shell s s' \<Longrightarrow> viz_ok s \<Longrightarrow> viz_ok s'"
  by (auto simp: viz_ok_def elim!: step_cases
      dest: pred_option_SomeD [OF sim_step_lock] pred_option_SomeD [OF sim_step_quit] pred_option_SomeD [OF sim_step_messages]
        pred_option_SomeD [OF view_step_ok(1)] pred_option_SomeD [OF view_step_ok(2)] pred_option_SomeD [OF view_step_ok(3)])

lemma viz_start_viz_ok: "viz_ok (viz_start n)"
  by (simp add: viz_ok_def viz_start_ok)

lemma reachable_viz_ok: "reachable simulate shell n s \<Longrightarrow> viz_ok s"
  by (induction rule: reachable.induct) (auto intro: step_viz_ok simp: viz_start_viz_ok)

section \<open>Progress\<close>


definition steps_to_end :: "sim_pc \<Rightarrow> nat" where
  "steps_to_end pc = (case pc of Sim_Done \<Rightarrow> 0 | Sim_Check \<Rightarrow> 1 | Sim_Release \<Rightarrow> 2 | Sim_Idle \<Rightarrow> 3 | Sim_Extend \<Rightarrow> 4
     | Sim_Run \<Rightarrow> 5 | Sim_Acquire \<Rightarrow> 6 | Sim_Test \<Rightarrow> 7 | Sim_Clear \<Rightarrow> 8 | Sim_Wait \<Rightarrow> 9)"


lemma lock_free_iff: "l = None \<longleftrightarrow> l \<noteq> Some Sim \<and> l \<noteq> Some View"
  by (cases l) (auto intro: thread.exhaust)



text \<open>While the window waits in \<open>join\<close>, only the simulation thread moves, and each of its steps brings it nearer to its end.\<close>

lemma join_step:
  assumes "viz_ok s" "view_at s = View_Join" "sim_at s \<noteq> Sim_Done"
  obtains t where "sim_step simulate s = Some t" "view_at t = View_Join" "steps_to_end (sim_at t) < steps_to_end (sim_at s)"
  using assms by (cases "sim_at s") (auto simp: viz_ok_def lock_ok_def quit_ok_def sim_locked_def sim_step_def steps_to_end_def
      Let_def lock_free_iff)

lemma join_view: "view_at s = View_Join \<Longrightarrow> view_step shell ev s = Some t \<Longrightarrow> sim_at s = Sim_Done \<and> main_quit t \<and> view_at t = View_Loop"
  by (auto simp: view_step_def handler_step_def fail_step_def split: viz_event.splits if_splits)

lemma sim_done_stuck: "sim_at s = Sim_Done \<Longrightarrow> sim_step simulate s = None"
  by (simp add: sim_step_def)

lemma join_run:
  assumes "viz_ok (f 0)" "view_at (f 0) = View_Join" "\<And>i. i \<le> m \<Longrightarrow> step simulate shell (f i) (f (Suc i))"
    "steps_to_end (sim_at (f 0)) \<le> m"
  shows "\<exists>i\<le>Suc m. view_at (f i) = View_Loop \<and> main_quit (f i)"
  using assms
proof (induction m arbitrary: f)
  case 0
  then have "sim_at (f 0) = Sim_Done" by (auto simp: steps_to_end_def split: sim_pc.splits)
  then show ?case using 0(2) 0(3) [of 0] by (auto elim!: step_cases dest: join_view simp: sim_done_stuck)
next
  case (Suc m)
  have first: "step simulate shell (f 0) (f 1)" using Suc.prems(3) [of 0] by simp
  show ?case
  proof (cases "sim_at (f 0) = Sim_Done")
    case True
    then show ?thesis using first Suc.prems(2) by (auto elim!: step_cases dest: join_view simp: sim_done_stuck)
  next
    case False
    from join_step [OF Suc.prems(1,2) False, of simulate] obtain t where t: "sim_step simulate (f 0) = Some t"
      "view_at t = View_Join" "steps_to_end (sim_at t) < steps_to_end (sim_at (f 0))" .
    have f1: "f 1 = t" using first t(1) Suc.prems(2) False by (auto elim!: step_cases dest: join_view)
    have "\<exists>i\<le>Suc m. view_at (f (Suc i)) = View_Loop \<and> main_quit (f (Suc i))"
      using Suc.IH [of "\<lambda>i. f (Suc i)"] step_viz_ok [OF first Suc.prems(1)] t f1 Suc.prems(3,4) by auto
    then show ?thesis by auto
  qed
qed





text \<open>Code in the shell that asks for the lock it runs under waits for itself.\<close>

lemma code_section_step: "lock_ok s \<Longrightarrow> view_at s = View_Code_Section f \<Longrightarrow> step simulate shell s t \<Longrightarrow> view_at t = View_Code_Section f"
  by (cases "sim_at s") (auto elim!: step_cases simp: sim_step_def view_step_def handler_step_def fail_step_def acquire_def lock_ok_def
      Let_def split: viz_event.splits if_splits)

lemma code_section_forever:
  "(step simulate shell)\<^sup>*\<^sup>* s t \<Longrightarrow> viz_ok s \<Longrightarrow> view_at s = View_Code_Section f \<Longrightarrow> viz_ok t \<and> view_at t = View_Code_Section f"
proof (induction rule: rtranclp_induct)
  case (step t u)
  then have "viz_ok t" "lock_ok t" "view_at t = View_Code_Section f" by (simp_all add: viz_ok_def)
  with step.hyps(2) show ?case by (metis step_viz_ok code_section_step)
qed simp

text \<open>A schedule: the user presses play, the timer fires, and the simulation thread is at work.\<close>

definition example_simulate :: "rat \<Rightarrow> rat \<Rightarrow> rat \<times> string list" where
  "example_simulate t target = (target, [''pause''])"

definition example_start :: "choice list" where
  "example_start = Run_View Ev_Toggle # Run_Sim # Run_View (Ev_Timer 1) # replicate 9 (Run_View Ev_Continue) @ replicate 4 Run_Sim"

lemmas example_simps = example_start_def example_simulate_def viz_start_def speed_changed_def start_update_timer_def
  source_remove_def set_play_def on_play_button_toggled_def choose_step_def sim_step_def view_step_def loop_step_def
  handler_step_def fail_step_def acquire_def numeral_eq_Suc Let_def

text \<open>
  The two timers: when the speed is changed in a paused window while its timer polls the lock, the old
  timer forgets the new one's identifier, and pressing play starts a second one beside it.
\<close>

lemma two_timers:
  "\<exists>s. run_choices example_simulate False
     (example_start @ map Run_View [Ev_Toggle, Ev_Speed 1, Ev_Timer 2, Ev_Continue, Ev_Speed 1] @ replicate 4 Run_Sim
      @ Run_View Ev_Poll_Again # replicate 8 (Run_View Ev_Continue) @ [Run_View Ev_Toggle]) (viz_start 2) = Some s
   \<and> length (live_timers s) = 2"
  by (simp add: example_simps)





section \<open>Properties\<close>

text \<open>C12: Closing the window always ends the visualizer, whatever the threads are doing and however
  they are scheduled. In any reachable state in which \<open>_quit\<close> waits in \<open>join\<close>, the signal to the
  simulation thread is not lost: some step can always be made, the thread ends within nine steps of its
  own, and every run of ten steps gets past \<open>join\<close> to \<open>main_quit\<close>.\<close>

theorem quit_ends:
  assumes "reachable simulate shell n s" "view_at s = View_Join"
  shows "(\<exists>t. step simulate shell s t) \<and>
    (\<forall>f. f 0 = s \<and> (\<forall>i\<le>9. step simulate shell (f i) (f (Suc i))) \<longrightarrow> (\<exists>i\<le>10. view_at (f i) = View_Loop \<and> main_quit (f i)))"
proof
  have ok: "viz_ok s" using assms(1) by (rule reachable_viz_ok)
  show "\<exists>t. step simulate shell s t"
  proof (cases "sim_at s = Sim_Done")
    case True
    then have "view_step shell Ev_Continue s = Some (s\<lparr>main_quit := True, view_at := View_Loop\<rparr>)"
      using assms(2) by (simp add: view_step_def handler_step_def)
    then show ?thesis by (blast intro: step_view)
  next
    case False
    then show ?thesis using join_step [OF ok assms(2)] by (metis step_sim)
  qed
  have "steps_to_end (sim_at s) \<le> 9" by (simp add: steps_to_end_def split: sim_pc.split)
  then show "\<forall>f. f 0 = s \<and> (\<forall>i\<le>9. step simulate shell (f i) (f (Suc i))) \<longrightarrow> (\<exists>i\<le>10. view_at (f i) = View_Loop \<and> main_quit (f i))"
    using ok assms(2) join_run [where m = 9] by (auto simp: numeral_eq_Suc)
qed

theorem quit_ends_witness:
  "\<exists>s. run_choices example_simulate False (example_start @ map Run_View [Ev_Delete, Ev_Continue, Ev_Continue]) (viz_start 2) = Some s
   \<and> view_at s = View_Join \<and> sim_at s = Sim_Run \<and> (\<exists>t. step example_simulate False s t)"
proof -
  let ?cs = "example_start @ map Run_View [Ev_Delete, Ev_Continue, Ev_Continue]"
  have "\<exists>s. run_choices example_simulate False ?cs (viz_start 2) = Some s \<and> view_at s = View_Join \<and> sim_at s = Sim_Run"
    by (simp add: example_simps)
  then obtain s where s: "run_choices example_simulate False ?cs (viz_start 2) = Some s" "view_at s = View_Join" "sim_at s = Sim_Run"
    by blast
  from quit_ends [OF run_choices_reachable [OF s(1) reach_start] s(2)] s show ?thesis by blast
qed




text \<open>C17: Under IPython, where \<open>_monkey_patch_ipython\<close> runs every piece of code with the simulation lock held,
  code that calls an operation of the visualizer that takes the lock itself, such as \<open>select_node\<close>, waits for
  itself: from then on, whatever happens, the window never leaves that point and never releases the lock, so it
  handles no event again and the simulation thread cannot run.\<close>

theorem shell_code_blocks:
  assumes "reachable simulate True n s" "view_at s = View_In_Code"
  shows "\<exists>t. view_step True (Ev_Code_Section f) s = Some t \<and>
    (\<forall>u. (step simulate True)\<^sup>*\<^sup>* t u \<longrightarrow> view_at u = View_Code_Section f \<and> lock u = Some View \<and> \<not> sim_locked (sim_at u))"
proof -
  obtain t where t: "view_step True (Ev_Code_Section f) s = Some t" "view_at t = View_Code_Section f"
    using assms(2) by (auto simp: view_step_def)
  have "viz_ok t" by (rule step_viz_ok [OF step_view [OF t(1)] reachable_viz_ok [OF assms(1)]])
  then have "view_at u = View_Code_Section f \<and> lock u = Some View \<and> \<not> sim_locked (sim_at u)"
    if "(step simulate True)\<^sup>*\<^sup>* t u" for u
    using code_section_forever [OF that] t(2) by (auto simp: viz_ok_def lock_ok_def)
  with t(1) show ?thesis by blast
qed

theorem shell_code_blocks_witness:
  "\<exists>s. run_choices example_simulate True (map Run_View [Ev_Code, Ev_Continue, Ev_Code_Section (Some [])]) (viz_start 2) = Some s
   \<and> (\<forall>u. (step example_simulate True)\<^sup>*\<^sup>* s u \<longrightarrow> view_at u = View_Code_Section (Some []))"
proof -
  have "\<exists>s. run_choices example_simulate True (map Run_View [Ev_Code, Ev_Continue]) (viz_start 2) = Some s \<and> view_at s = View_In_Code"
    by (simp add: example_simps)
  then obtain s where s: "run_choices example_simulate True (map Run_View [Ev_Code, Ev_Continue]) (viz_start 2) = Some s"
    "view_at s = View_In_Code" by blast
  from shell_code_blocks [OF run_choices_reachable [OF s(1) reach_start] s(2)] obtain t where
    t: "view_step True (Ev_Code_Section (Some [])) s = Some t"
    "\<And>u. (step example_simulate True)\<^sup>*\<^sup>* t u \<Longrightarrow> view_at u = View_Code_Section (Some [])" by blast
  have "run_choices example_simulate True (map Run_View [Ev_Code, Ev_Continue, Ev_Code_Section (Some [])]) (viz_start 2) = Some t"
    using s(1) t(1) by (auto simp: choose_step_def split: option.splits)
  with t(2) show ?thesis by blast
qed

end
