(* ===== verification/Spec2Isabelle.thy ===== *)
theory Spec2Isabelle
  imports Rad_Util Rad_Stats Topsort Shell_Parse Shell_Run Command_Task Ns3rc Test_Jobs Test_Driver Test_Report Timeline Grid_View Check_Style Fct_Stats Run_Config Cflags Wutils Build_Modules Build_Files Flow_Monitor Create_Module Module_Scan Modular_Scan Modulegen_Types Modulegen Visualizer Viz_Nodes Viz_Scan Viz_Traffic Viz_Axes Viz_Window Viz_Tooltip Viz_Console Viz_Wifi Viz_Statistics Simulation_Thread
begin

text \<open>
  A verification library for the Python programs of the Pyrrha NS-3 repository: the tools that
  configure, build, run, test and evaluate the simulator. The simulator itself is C++ and not
  modelled; of the Python code the part with logic of its own is.

  The program and its models. Paths are those of the repository, under \<open>src/\<close>.

  \<^item> \<open>Py_Base\<close>: what the scripts use of Python 2. Exceptions are values of \<open>py_exn\<close> on the left of a
    sum, \<open>py_bind\<close> sequences; dicts are association lists with distinct keys, their order of
    iteration an arbitrary permutation; slices, indices, strings, decimal numbers. Its locale
    \<open>event_handler\<close> is the contract of the programs that react to events.
  \<^item> \<open>Rad_Util\<close> and \<open>Topsort\<close>: \<open>bindings/python/rad_util.py\<close> and \<open>topsort.py\<close>. Conversions round trip,
    generators return and are complete; sorting and the search for cycles are exact, with
    the dictionaries and worklists of the code (C5-C7). A generator is the list of what it
    yields; loops that the code ends by a condition are recursions with a measure, so none of
    them needs fuel. \<open>Rad_Stats\<close>: the functions of \<open>rad_util.py\<close> on numbers with a fraction: quantiles and outliers,
    the area of a polygon, ranges (a partial function, with when it ends) and units.
  \<^item> \<open>Module_Scan\<close>: \<open>bindings/python/ns3modulescan.py\<close>, which sorts the modules with \<open>topsort\<close> (through
    the interface \<open>pair_sorter\<close>), opens a section for each and annotates declarations (C14, C40).
    The search of a header's path can run forever; it is a partial function and C14 says when.
    \<open>Modular_Scan\<close>: \<open>ns3modulescan-modular.py\<close>, the same for one module, whose hook ignores what is
    not of the simulator and imports what other modules define.
  \<^item> \<open>Modulegen_Types\<close> and \<open>Modulegen\<close>: the generator of the bindings, \<open>bindings/python/ns3modulegen.py\<close> for the whole
    simulator and \<open>ns3modulegen-modular.py\<close> for one module. Smart pointers have one canonical type, callbacks get a class
    each, the code before a call is even and its variables are new; what each generator leaves out without a feature, every module by
    the customizations of its own, and for which classes the two differ (C34); where errors are reported, and the files of the sections. What is done to a wrapper of pybindgen is
    a record of the calls.
  \<^item> \<open>Shell_Parse\<close> and \<open>Shell_Run\<close>: \<open>waf-tools/shellcmd.py\<close>, a small shell. The parser's automaton
    over tokens builds well-formed pipelines (C8); the loop of \<open>run\<close>, with its pipes, redirections
    and open files, refines a reference that executes groups of processes (C9).
    \<open>Command_Task\<close>: \<open>waf-tools/command.py\<close>, the build task that fills the fields of a command (C26) and
    runs it with this shell. The texts are joined after all replacements, so an expression that raises comes before one that is
    no text.
  \<^item> \<open>Cflags\<close>: \<open>waf-tools/cflags.py\<close>, the compiler flags of a build profile.
  \<^item> \<open>Wutils\<close>: \<open>wutils.py\<close>, which \<open>./waf --run\<close> uses to find a program, make its command line and
    environment and judge its end (C38). Relative paths lead back to what they name. Programs are chosen by the text of the launch
    directory, so those of a directory with a longer name beside it are found too.
  \<^item> \<open>Build_Modules\<close>: the build scripts \<open>wscript\<close> and \<open>src/wscript\<close>: which modules a configuration enables (C37), the
    objects of modules, tests and programs, the closure of what the chosen modules need, and what a build leaves out
    (C1). The closure is a loop until nothing changes; it is a partial function, and C1 says that it ends.
    \<open>Build_Files\<close>: the status file written at the end and read by \<open>test.py\<close> (C4, through the literals of Python lists),
    the table of modules, messages, the check of the shell, module headers and pkg-config files, and the map of
    headers of \<open>bindings/python/wscript\<close>.
  \<^item> \<open>Run_Config\<close>: \<open>run.py\<close>, which writes the configuration of a simulation of one congestion control
    and runs it (C36): the whole file is compared with the values each congestion control asks for. \<open>Create_Module\<close>: \<open>src/create-module.py\<close>, the skeleton of a new module (C10).
  \<^item> \<open>Ns3rc\<close>, \<open>Test_Jobs\<close>, \<open>Test_Driver\<close>, \<open>Test_Report\<close>: \<open>utils.py\<close> and \<open>test.py\<close>. The configuration file,
    the worker threads and their queues as a step relation with an invariant over all
    interleavings (C11), the choice of tests, the jobs dispatched, the results, the exit
    status (C15), and the translation of the results (C19), whose specification goes over the paths of the document. This theory composes
    dispatch, threads and report (C21).
  \<^item> \<open>Timeline\<close> and \<open>Grid_View\<close>: \<open>utils/grid.py\<close>. The searches against their specifications, the
    parser of traces, bounds (C22, C24, C25); layouts over rationals and the handlers of the window, with
    the state each leaves when it raises (C27, C30).
  \<^item> \<open>Check_Style\<close>: \<open>utils/check-style.py\<close>. Patches and their parser, white space, exit status
    (C32, C33).
  \<^item> \<open>Fct_Stats\<close>: the two scripts of \<open>mix/\<close> that summarise flow completion times; percentiles are order
    statistics, under Python 2 and Python 3, which round halves differently (C35).
  \<^item> \<open>Flow_Monitor\<close>: \<open>src/flow-monitor/examples/flowmon-parse-results.py\<close>, which reads what the flow
    monitor wrote (C39): its documents are modelled as its C++ code writes them, histograms and probes included.
  \<^item> The visualizer, \<open>src/visualizer/visualizer/\<close>. \<open>Visualizer\<close>: \<open>base.py\<close> and \<open>svgitem.py\<close>, kinds of devices,
    scale, plug-ins (loaded once), sizes of pictures. The others are of \<open>core.py\<close>, but for the axes and plug-ins.
    \<open>Simulation_Thread\<close>: the thread of the simulation and that of the window with the lock, the event and the
    timers between them, as a step relation over all interleavings: they take turns but for four handlers that read the
    simulation without the lock (C16), closing the window ends (C12), and code in the shell can block both for ever (C17), because
    the lock is not given again to the thread that holds it.
    \<open>Viz_Nodes\<close>: the nodes, channels and links of the canvas with the tables of the window, selection, appearance and
    dragging (C31). \<open>Viz_Scan\<close>: \<open>scan_topology\<close>, which makes them (C20), and the consistency of the canvas under
    everything the user does afterwards (C18). \<open>Viz_Traffic\<close>: the window of samples and the arrows (C13).
    \<open>Viz_Window\<close>: panning, zoom and automatic scale (C2, C28), with scroll bars that stop at the bounds of the canvas. \<open>Viz_Tooltip\<close>: the tooltip of a node, which is
    markup if no name holds a character of it, and the start of the visualizer. \<open>Viz_Console\<close>: \<open>ipython_view.py\<close>, the terminal; no key changes
    what stands before the line, and completion puts in what the possibilities have in common. \<open>Viz_Axes\<close>: \<open>hud.py\<close>, the axes (C29).
    \<open>Viz_Wifi\<close>: the plug-in that links stations with access points (C3). \<open>Viz_Statistics\<close>: the statistics of
    interfaces (C23), the routing tables and the choice of captured packets.
    The threads see the rest of the window as handlers that work under the lock; what those do to the canvas is in the
    other theories, which hold for each such handler from beginning to end, because C16 lets no step of the simulation in between;
    for the automatic scale, which reads the positions without the lock, they hold of the positions it has read.

  Parameters. Processes, the file system, \<open>eval\<close>, waf, pandas, GTK, goocanvas, pygraphviz, the simulator behind its
  wrappers, uncrustify, difflib and the XML parser are arguments of the definitions, or records of the world a script
  sees, with what the code relies on as hypotheses; each hypothesis is met by an example. Floats are rationals where
  the code's result does not depend on rounding, and reals where it takes logarithms or angles; Python's text of a float is a
  parameter. Interfaces are locales (\<open>key_store\<close>, \<open>event_handler\<close>, \<open>fifo\<close>, \<open>bisection\<close>, \<open>named_objects\<close>,
  \<open>pair_sorter\<close>), interpreted on the models of the code. No definition takes fuel; loops that may not end are partial functions.

  Where the code does not do what it means to, the theorem states what it does: among others C2, C3, C10, C14, C17, C20,
  C16, C22, C23, C24, C28, C30, C32, C33, C34, C35, C36, C37, C38, C39 and C40.

  Not modelled: the generated API tables of the bindings and the declarations of their generators that only call
  pybindgen; of the visualizer the building of its widgets, file dialogs, menus and tooltips of links,
  which are calls of GTK; of the build scripts the checks that are calls of waf, the options, documentation, tarballs and the
  rescan of the bindings; third-party waf tools; examples and documentation settings; of \<open>rad_util.py\<close> what reads the clock
  or the interpreter; the calls of cairo and the main window of \<open>grid.py\<close>, and in \<open>test.py\<close> progress messages and directories.
  What is left is such calls, with no result of their own to state a property of.
\<close>

section \<open>The test driver as a whole\<close>

lemma exec_job_keeps:
  "exec_job sh cfg opts j = Inr r \<Longrightarrow> is_break r = is_break j \<and> is_skip r = is_skip j"
  by (auto simp: exec_job_def job_setters)

lemma job_command_total: "PYTHON cfg \<noteq> [] \<Longrightarrow> \<exists>c. job_command cfg command valgrind py bpath = Inr c"
  using py_index_nonneg [of 0 "PYTHON cfg"] by (simp add: job_command_def Let_def)

lemma run_job_total:
  assumes "PYTHON cfg \<noteq> []"
  shows "\<exists>rc out err et. run_job_synchronously sh cfg command dir valgrind py bpath = Inr (rc, out, err, et)"
proof -
  obtain c where "job_command cfg command valgrind py bpath = Inr c" using job_command_total [OF assms] by blast
  moreover obtain rc out err et where "sh c dir = (rc, out, err, et)" by (metis prod_cases4)
  ultimately show ?thesis by (simp add: run_job_synchronously_def)
qed

lemma exec_job_total:
  assumes "PYTHON cfg \<noteq> []"
  shows "\<exists>r. exec_job sh cfg opts j = Inr r"
proof -
  define m where "m = (if is_example j \<or> is_pyexample j
    then run_job_synchronously sh cfg (shell_command j) (cwd j) (opt_valgrind opts) (is_pyexample j) (build_path j)
    else run_job_synchronously sh cfg
      (shell_command j @ '' --xml --tempdir='' @ tempdir j @ '' --out='' @ tmp_file_name j @ '' '' @
        (if opt_update_data opts then ''--update-data'' else []))
      (cwd j) (opt_valgrind opts) False [])"
  have "\<exists>rc out err et. m = Inr (rc, out, err, et)" unfolding m_def using run_job_total [OF assms] by presburger
  then show ?thesis unfolding exec_job_def m_def [symmetric] by auto
qed

lemma example_job_no_break: "\<not> is_break (example_job w py command bpath)"
  by (simp add: example_job_def)

lemma suite_job_no_break: "\<not> is_break (suite_job w cfg opts t)"
  unfolding suite_job_def Let_def by (simp only: is_break_setters split: if_split) simp

lemma suite_jobs_no_break: "list_all (\<lambda>j. \<not> is_break j) (suite_jobs w cfg opts l)"
  by (auto simp: suite_jobs_def suite_job_no_break list_all_iff)

lemma cpp_jobs_no_break:
  assumes "cpp_example_jobs w cfg opts programs examples = Inr jobs"
  shows "list_all (\<lambda>j. \<not> is_break j) jobs"
  using assms
  by (auto simp: cpp_example_jobs_def example_job_no_break Let_def set_is_skip_def
      split: if_splits option.splits
      elim!: py_fold_invariant [where I = "list_all (\<lambda>j. \<not> is_break j)"])

lemma python_jobs_no_break:
  assumes "python_example_jobs w cfg opts scripts examples = Inr jobs"
  shows "list_all (\<lambda>j. \<not> is_break j) jobs"
  using assms
  by (auto simp: python_example_jobs_def example_job_no_break Let_def set_is_skip_def
      split: if_splits option.splits
      elim!: py_fold_invariant [where I = "list_all (\<lambda>j. \<not> is_break j)"])

lemma dispatched_no_break:
  "dispatched_jobs w cfg opts programs scripts acc = Inr jobs \<Longrightarrow> list_all (\<lambda>j. \<not> is_break j) jobs"
  by (auto simp: dispatched_jobs_def suite_jobs_no_break cpp_jobs_no_break python_jobs_no_break)

lemma rel_mset_partner: "rel_mset R A B \<Longrightarrow> a \<in># A \<Longrightarrow> \<exists>b. b \<in># B \<and> R a b"
  by (metis msed_rel_invL multi_member_split union_single_eq_member)

text \<open>C21: Whatever the interleaving of the worker threads, when the run of the jobs
  \<open>run_tests\<close> dispatches is complete the exit status is 0 only if every one of them was to be
  skipped or its command returned 0 (after the valgrind rule), even when the run was
  interrupted; without an interrupt the status is 0 exactly then, and the summary counts the
  outcomes of the dispatched jobs.\<close>

theorem run_tests_exit_status:
  assumes "dispatched_jobs w cfg opts programs scripts acc = Inr jobs" "PYTHON cfg \<noteq> []" "0 < n"
    "(pool_step (exec_job (tw_shell w) cfg opts))\<^sup>*\<^sup>* (start_pool n jobs) p" "finished p"
    "report w opts (length jobs) (collected p) = Inr (st, rc)"
  shows "(rc = 0 \<longrightarrow> (\<forall>j\<in>set jobs. is_skip j \<or>
        (\<exists>r. exec_job (tw_shell w) cfg opts j = Inr r \<and> returncode r = 0))) \<and>
    (\<not> thread_exit p \<longrightarrow>
       summary_counts st = counts_of (map (outcome (exec_job (tw_shell w) cfg opts)) jobs) \<and>
       (rc = 0 \<longleftrightarrow> (\<forall>j\<in>set jobs. is_skip j \<or>
          (\<exists>r. exec_job (tw_shell w) cfg opts j = Inr r \<and> returncode r = 0))))"
proof -
  let ?ex = "exec_job (tw_shell w) cfg opts"
  have nb: "list_all (\<lambda>j. \<not> is_break j) jobs" using dispatched_no_break assms(1) .
  have tot: "\<forall>j\<in>set jobs. \<not> is_skip j \<longrightarrow> (\<exists>r. ?ex j = Inr r)" using exec_job_total assms(2) by blast
  have rel: "rel_mset (reported ?ex (thread_exit p)) (mset jobs) (mset (collected p))"
    using finished_collected [OF pool_reachable_inv [OF assms(4) nb tot] assms(3,5)] .
  then have len: "length jobs = length (collected p)" using rel_mset_size by fastforce
  note counts = report_counts [OF assms(6)]
  have good: "rc = 0 \<longleftrightarrow> (\<forall>r\<in>set (collected p). \<not> is_break r \<and> (is_skip r \<or> returncode r = 0))"
    using counts good_count [of "collected p"]
      all_counted [of "\<lambda>r. \<not> is_break r \<and> (is_skip r \<or> returncode r = 0)" "collected p"]
    by (simp add: summary_counts_def counts_of_def len)
  have down: "is_skip j \<or> (\<exists>r. ?ex j = Inr r \<and> returncode r = 0)" if ok: "rc = 0" and j: "j \<in> set jobs" for j
  proof -
    obtain r where r: "r \<in> set (collected p)" "reported ?ex (thread_exit p) j r"
      using rel_mset_partner [OF rel, of j] j by auto
    then show ?thesis using good ok exec_job_keeps [of "tw_shell w" cfg opts j r]
      by (auto simp: reported_def set_is_break_def)
  qed
  have "summary_counts st = counts_of (map (outcome ?ex) jobs) \<and>
      (rc = 0 \<longleftrightarrow> (\<forall>j\<in>set jobs. is_skip j \<or> (\<exists>r. ?ex j = Inr r \<and> returncode r = 0)))"
    if "\<not> thread_exit p"
  proof -
    have m: "mset (collected p) = mset (map (outcome ?ex) jobs)"
      using rel that rel_mset_function [of "reported ?ex False" _ _ "outcome ?ex"] reported_outcome by auto
    have "\<not> is_break (outcome ?ex j) \<and> (is_skip (outcome ?ex j) \<or> returncode (outcome ?ex j) = 0)"
      if "j \<in> set jobs" "is_skip j \<or> (\<exists>r. ?ex j = Inr r \<and> returncode r = 0)" for j
      using that nb exec_job_keeps [of "tw_shell w" cfg opts j] by (auto simp: outcome_def list_all_iff)
    note clean = this
    have S: "set (collected p) = outcome ?ex ` set jobs" using m by (metis mset_eq_setD set_map)
    have "rc = 0" if H: "\<forall>j\<in>set jobs. is_skip j \<or> (\<exists>r. ?ex j = Inr r \<and> returncode r = 0)"
      unfolding good S ball_simps by (intro ballI clean) (use H in blast)+
    moreover have "summary_counts st = counts_of (map (outcome ?ex) jobs)"
      using counts(1) counts_of_mset [OF m] by (rule trans)
    ultimately show ?thesis using down by blast
  qed
  then show ?thesis using down by blast
qed

definition demo_examples :: example_lists where
  "demo_examples = \<lparr>example_tests = [], example_names_original = [], python_tests = []\<rparr>"

definition demo_script_options :: test_options where
  "demo_script_options = default_options\<lparr>opt_pyexample := ''ex.py'', opt_constrain := ''performance''\<rparr>"

definition demo_crash :: test_world where
  "demo_crash = Test_Driver.demo_world\<lparr>tw_shell := \<lambda>cmd dir. (139, [], [], 5)\<rparr>"

lemma demo_dispatched:
  "dispatched_jobs demo_crash demo_config demo_script_options [] [''ex.py''] demo_examples =
     Inr [example_job demo_crash True ''ex.py'' []]"
  by (simp add: dispatched_jobs_def suites_to_run_def choose_suites_def suite_jobs_def py_strip_def
      cpp_example_jobs_def python_example_jobs_def wants_all_examples_def demo_script_options_def
      default_options_def basename_def)

lemma demo_executed:
  "exec_job (tw_shell demo_crash) demo_config demo_script_options (example_job demo_crash True ''ex.py'' []) =
     Inr (set_elapsed_time 5 (set_returncode 139 (example_job demo_crash True ''ex.py'' [])))"
  by (simp add: exec_job_def run_job_synchronously_def job_command_def example_job_def Job_def job_setters
      demo_crash_def demo_config_def demo_script_options_def default_options_def Let_def py_index_def)

lemma demo_reported:
  assumes "reported (exec_job (tw_shell demo_crash) demo_config demo_script_options) b
    (example_job demo_crash True ''ex.py'' []) r"
  shows "\<exists>st rc. report demo_crash demo_script_options 1 [r] = Inr (st, rc)"
  using assms unfolding reported_def demo_executed
  by (auto simp: report_def collect_job_def example_job_def Job_def job_setters Let_def split: prod.splits)

theorem run_tests_exit_status_witness:
  "\<exists>p st rc. (pool_step (exec_job (tw_shell demo_crash) demo_config demo_script_options))\<^sup>*\<^sup>*
       (start_pool 2 [example_job demo_crash True ''ex.py'' []]) p \<and> finished p \<and>
     report demo_crash demo_script_options 1 (collected p) = Inr (st, rc) \<and> rc \<noteq> 0"
proof -
  let ?ex = "exec_job (tw_shell demo_crash) demo_config demo_script_options"
  let ?j = "example_job demo_crash True ''ex.py'' []"
  have nb: "list_all (\<lambda>j. \<not> is_break j) [?j]" by (simp add: example_job_no_break)
  have tot: "\<forall>j\<in>set [?j]. \<not> is_skip j \<longrightarrow> (\<exists>r. ?ex j = Inr r)" by (simp add: demo_executed)
  obtain p where p: "(pool_step ?ex)\<^sup>*\<^sup>* (start_pool 2 [?j]) p" "finished p"
    using pool_completes [OF pool_reachable_inv [OF rtranclp.rtrancl_refl nb tot, of 2] _ tot] by auto
  have "rel_mset (reported ?ex (thread_exit p)) (mset [?j]) (mset (collected p))"
    using finished_collected [OF pool_reachable_inv [OF p(1) nb tot] _ p(2)] by simp
  then obtain r where r: "collected p = [r]" "reported ?ex (thread_exit p) ?j r"
    by (auto dest!: msed_rel_invL)
  then obtain st rc where st: "report demo_crash demo_script_options (length [?j]) (collected p) = Inr (st, rc)"
    using demo_reported [OF r(2)] r(1) by auto
  have "\<not> is_skip ?j" by (simp add: example_job_def Job_def job_setters)
  moreover have "PYTHON demo_config \<noteq> []" by (simp add: demo_config_def)
  ultimately have "rc \<noteq> 0"
    using run_tests_exit_status [OF demo_dispatched _ _ p st]
    by (auto simp: demo_executed job_setters)
  with p st show ?thesis by auto
qed

end
